(* ===== verification/Prelude.thy ===== *)
theory Prelude
  imports Main "HOL-Library.Char_ord" "HOL-Library.List_Lexorder" "HOL-Library.Product_Lexorder"
    "HOL-Library.Sublist"
begin

text \<open>
  What every component shares: the result type (a sum whose left side is the
  error), byte strings with the operations of Rust's \<open>str\<close> the program uses,
  number parsing, and the list facts the component proofs lean on.  A Rust
  \<open>&str\<close> is its list of UTF-8 bytes, so \<open>len()\<close> is \<open>length\<close> and \<open>bytes()\<close> is the list
  itself; \<open>chars()\<close> decodes the bytes into code points.
\<close>

named_theorems str_simps "evaluation of the byte-string operations"
named_theorems result_simps "case analysis of results"
named_theorems result_intros "introduction rules for properties of results"

section \<open>Results\<close>

type_synonym ('e, 'a) result = "'e + 'a"

definition rbind :: "('e, 'a) result \<Rightarrow> ('a \<Rightarrow> ('e, 'b) result) \<Rightarrow> ('e, 'b) result" where
  "rbind r f = (case r of Inl e \<Rightarrow> Inl e | Inr x \<Rightarrow> f x)"

definition ok_or :: "'e \<Rightarrow> 'a option \<Rightarrow> ('e, 'a) result" where
  "ok_or e x = (case x of None \<Rightarrow> Inl e | Some y \<Rightarrow> Inr y)"

definition ensure :: "bool \<Rightarrow> 'e \<Rightarrow> ('e, unit) result" where
  "ensure b e = (if b then Inr () else Inl e)"

lemma rbind_simps [simp]:
  "rbind (Inl e) f = Inl e"
  "rbind (Inr x) f = f x"
  by (simp_all add: rbind_def)

lemma rbind_Inr_iff [result_simps]:
  "rbind r f = Inr y \<longleftrightarrow> (\<exists>x. r = Inr x \<and> f x = Inr y)"
  by (cases r) simp_all

lemma rbind_Inl_iff [result_simps]:
  "rbind r f = Inl e \<longleftrightarrow> r = Inl e \<or> (\<exists>x. r = Inr x \<and> f x = Inl e)"
  by (cases r) simp_all

lemma ok_or_simps [simp]:
  "ok_or e None = Inl e"
  "ok_or e (Some y) = Inr y"
  by (simp_all add: ok_or_def)

lemma ok_or_Inr_iff [result_simps]: "ok_or e x = Inr y \<longleftrightarrow> x = Some y"
  by (cases x) simp_all

lemma ok_or_Inl_iff [result_simps]: "ok_or e x = Inl e' \<longleftrightarrow> x = None \<and> e' = e"
  by (cases x) auto

lemma ensure_Inr_iff [simp, result_simps]: "ensure b e = Inr u \<longleftrightarrow> b"
  by (simp add: ensure_def)

lemma ensure_Inl_iff [simp, result_simps]: "ensure b e = Inl e' \<longleftrightarrow> \<not> b \<and> e' = e"
  by (auto simp: ensure_def)

section \<open>Bytes\<close>

type_synonym str = string

abbreviation byte :: "char \<Rightarrow> nat" where
  "byte c \<equiv> of_char c"

definition is_ascii_lowercase :: "char \<Rightarrow> bool" where
  "is_ascii_lowercase c \<longleftrightarrow> 97 \<le> byte c \<and> byte c \<le> 122"

definition is_ascii_uppercase :: "char \<Rightarrow> bool" where
  "is_ascii_uppercase c \<longleftrightarrow> 65 \<le> byte c \<and> byte c \<le> 90"

definition is_ascii_digit :: "char \<Rightarrow> bool" where
  "is_ascii_digit c \<longleftrightarrow> 48 \<le> byte c \<and> byte c \<le> 57"

definition is_ascii_alphabetic :: "char \<Rightarrow> bool" where
  "is_ascii_alphabetic c \<longleftrightarrow> is_ascii_lowercase c \<or> is_ascii_uppercase c"

definition is_ascii_alphanumeric :: "char \<Rightarrow> bool" where
  "is_ascii_alphanumeric c \<longleftrightarrow> is_ascii_alphabetic c \<or> is_ascii_digit c"

definition upper_byte :: "char \<Rightarrow> char" where
  "upper_byte c = (if is_ascii_lowercase c then char_of (byte c - 32) else c)"

definition lower_byte :: "char \<Rightarrow> char" where
  "lower_byte c = (if is_ascii_uppercase c then char_of (byte c + 32) else c)"

definition to_ascii_uppercase :: "str \<Rightarrow> str" where
  "to_ascii_uppercase = map upper_byte"

definition to_ascii_lowercase :: "str \<Rightarrow> str" where
  "to_ascii_lowercase = map lower_byte"

lemmas ascii_defs = is_ascii_lowercase_def is_ascii_uppercase_def is_ascii_digit_def
  is_ascii_alphabetic_def is_ascii_alphanumeric_def

lemma byte_less_256: "byte c < 256"
proof -
  have "char_of (byte c) = c" by simp
  then show ?thesis
    by (metis of_char_of mod_less_divisor zero_less_numeral)
qed

lemma byte_eq_iff: "byte c = byte d \<longleftrightarrow> c = d"
  by simp

lemma byte_char_of [simp]: "n < 256 \<Longrightarrow> byte (char_of n) = n"
  by (simp add: of_char_of)

lemma byte_upper: "byte (upper_byte c) = (if is_ascii_lowercase c then byte c - 32 else byte c)"
proof (cases "is_ascii_lowercase c")
  case True
  then have "byte c - 32 < 256" by (auto simp: is_ascii_lowercase_def)
  with True show ?thesis by (simp only: upper_byte_def if_True byte_char_of)
qed (simp add: upper_byte_def)

lemma byte_lower: "byte (lower_byte c) = (if is_ascii_uppercase c then byte c + 32 else byte c)"
  by (simp add: lower_byte_def is_ascii_uppercase_def)

lemma lower_upper_byte: "lower_byte (upper_byte c) = lower_byte c"
proof -
  have "byte (lower_byte (upper_byte c)) = byte (lower_byte c)"
    by (auto simp: byte_lower byte_upper ascii_defs)
  then show ?thesis by simp
qed

lemma upper_lower_byte: "upper_byte (lower_byte c) = upper_byte c"
proof -
  have "byte (upper_byte (lower_byte c)) = byte (upper_byte c)"
    by (auto simp: byte_lower byte_upper ascii_defs)
  then show ?thesis by simp
qed

lemma lower_lower_byte: "lower_byte (lower_byte c) = lower_byte c"
proof -
  have "byte (lower_byte (lower_byte c)) = byte (lower_byte c)"
    by (auto simp: byte_lower ascii_defs)
  then show ?thesis by simp
qed

lemma upper_upper_byte: "upper_byte (upper_byte c) = upper_byte c"
proof -
  have "byte (upper_byte (upper_byte c)) = byte (upper_byte c)"
    by (auto simp: byte_upper ascii_defs)
  then show ?thesis by simp
qed

lemma case_conversions [simp]:
  "to_ascii_lowercase (to_ascii_uppercase s) = to_ascii_lowercase s"
  "to_ascii_uppercase (to_ascii_lowercase s) = to_ascii_uppercase s"
  "to_ascii_lowercase (to_ascii_lowercase s) = to_ascii_lowercase s"
  "to_ascii_uppercase (to_ascii_uppercase s) = to_ascii_uppercase s"
  by (simp_all add: to_ascii_lowercase_def to_ascii_uppercase_def lower_upper_byte
      upper_lower_byte lower_lower_byte upper_upper_byte)

lemma length_case [simp]:
  "length (to_ascii_lowercase s) = length s"
  "length (to_ascii_uppercase s) = length s"
  by (simp_all add: to_ascii_lowercase_def to_ascii_uppercase_def)

lemma alphanumeric_lower [simp]: "is_ascii_alphanumeric (lower_byte c) = is_ascii_alphanumeric c"
  by (auto simp: ascii_defs byte_lower)

lemma alphabetic_lower [simp]: "is_ascii_alphabetic (lower_byte c) = is_ascii_alphabetic c"
  by (auto simp: ascii_defs byte_lower)

lemma lower_byte_not_upper:
  "\<not> is_ascii_uppercase c \<Longrightarrow> lower_byte c = c"
  by (simp add: lower_byte_def)

section \<open>Strings\<close>

text \<open>\<open>str::starts_with\<close>, \<open>ends_with\<close>, \<open>strip_prefix\<close>, \<open>contains\<close>, \<open>split\<close>.\<close>

definition starts_with :: "str \<Rightarrow> str \<Rightarrow> bool" where
  "starts_with s p \<longleftrightarrow> take (length p) s = p"

definition ends_with :: "str \<Rightarrow> str \<Rightarrow> bool" where
  "ends_with s p \<longleftrightarrow> length p \<le> length s \<and> drop (length s - length p) s = p"

definition strip_prefix :: "str \<Rightarrow> str \<Rightarrow> str option" where
  "strip_prefix s p = (if starts_with s p then Some (drop (length p) s) else None)"

text \<open>Split on one byte: \<open>s.split(c)\<close>; there is always a first part.\<close>

fun split_on :: "char \<Rightarrow> str \<Rightarrow> str list" where
  "split_on c [] = [[]]"
| "split_on c (x # xs) =
    (if x = c then [] # split_on c xs
     else (case split_on c xs of [] \<Rightarrow> [[x]] | p # ps \<Rightarrow> (x # p) # ps))"

text \<open>The first occurrence of a pattern: what precedes it and what follows it
  (\<open>str::split_once\<close>); a pattern is found where it is a prefix.\<close>

fun split_once :: "str \<Rightarrow> str \<Rightarrow> (str \<times> str) option" where
  "split_once p [] = (if p = [] then Some ([], []) else None)"
| "split_once p (x # xs) =
    (if starts_with (x # xs) p then Some ([], drop (length p) (x # xs))
     else map_option (\<lambda>(a, b). (x # a, b)) (split_once p xs))"

definition str_contains :: "str \<Rightarrow> str \<Rightarrow> bool" where
  "str_contains s p \<longleftrightarrow> split_once p s \<noteq> None"

lemma starts_with_append [simp]: "starts_with (p @ s) p"
  by (simp add: starts_with_def)

lemma starts_with_iff: "starts_with s p \<longleftrightarrow> (\<exists>t. s = p @ t)"
  by (metis append_take_drop_id starts_with_append starts_with_def)

lemma strip_prefix_append [simp]: "strip_prefix (p @ s) p = Some s"
  by (simp add: strip_prefix_def)

lemma strip_prefix_Some_iff [str_simps]: "strip_prefix s p = Some t \<longleftrightarrow> s = p @ t"
  by (auto simp: strip_prefix_def starts_with_def) (metis append_take_drop_id)

lemma split_on_not_Nil [simp]: "split_on c s \<noteq> []"
  by (induction s) (auto split: list.splits)

lemma split_once_Some: "split_once p s = Some (a, b) \<Longrightarrow> s = a @ p @ b"
proof (induction s arbitrary: a)
  case Nil
  then show ?case by (auto split: if_splits)
next
  case (Cons x xs)
  then show ?case
    by (auto split: if_splits simp: starts_with_def) (metis append_Cons append_take_drop_id)
qed

section \<open>Code points\<close>

text \<open>\<open>str::chars\<close>: the code points of a UTF-8 byte string.  A Rust string is always
  well-formed UTF-8, so the lead byte alone gives the length of a sequence.\<close>

fun decode_chars :: "nat list \<Rightarrow> nat list" where
  "decode_chars (a # b # c # d # xs) =
    (if a < 128 then a # decode_chars (b # c # d # xs)
     else if a < 224 then ((a mod 32) * 64 + b mod 64) # decode_chars (c # d # xs)
     else if a < 240 then ((a mod 16) * 4096 + (b mod 64) * 64 + c mod 64) # decode_chars (d # xs)
     else ((a mod 8) * 262144 + (b mod 64) * 4096 + (c mod 64) * 64 + d mod 64) # decode_chars xs)"
| "decode_chars [a, b, c] =
    (if a < 128 then a # decode_chars [b, c]
     else if a < 224 then ((a mod 32) * 64 + b mod 64) # decode_chars [c]
     else [(a mod 16) * 4096 + (b mod 64) * 64 + c mod 64])"
| "decode_chars [a, b] =
    (if a < 128 then [a, b] else [(a mod 32) * 64 + b mod 64])"
| "decode_chars [a] = [a]"
| "decode_chars [] = []"

definition str_chars :: "str \<Rightarrow> nat list" where
  "str_chars s = decode_chars (map of_char s)"

text \<open>\<open>char::is_control\<close> (category Cc) and \<open>char::is_whitespace\<close> (White\_Space).\<close>

definition is_control :: "nat \<Rightarrow> bool" where
  "is_control c \<longleftrightarrow> c < 32 \<or> (127 \<le> c \<and> c < 160)"

definition is_whitespace :: "nat \<Rightarrow> bool" where
  "is_whitespace c \<longleftrightarrow> (9 \<le> c \<and> c \<le> 13) \<or> c \<in> {32, 133, 160, 5760, 8232, 8233, 8239, 8287, 12288}
     \<or> (8192 \<le> c \<and> c \<le> 8202)"

lemma decode_chars_ascii: "\<forall>c \<in> set xs. c < 128 \<Longrightarrow> decode_chars xs = xs"
  by (induction xs rule: decode_chars.induct) auto

section \<open>Numbers\<close>

fun digits_value :: "nat \<Rightarrow> str \<Rightarrow> nat" where
  "digits_value acc [] = acc"
| "digits_value acc (c # cs) = digits_value (10 * acc + (byte c - 48)) cs"

text \<open>\<open>str::parse\<close> of an unsigned type whose largest value is the bound: an optional
  plus sign, at least one digit, and no overflow.\<close>

definition parse_unsigned :: "nat \<Rightarrow> str \<Rightarrow> nat option" where
  "parse_unsigned bound s =
    (let ds = (case s of [] \<Rightarrow> [] | c # r \<Rightarrow> if c = CHR ''+'' then r else s) in
     if ds \<noteq> [] \<and> list_all is_ascii_digit ds \<and> digits_value 0 ds \<le> bound
     then Some (digits_value 0 ds) else None)"

lemma parse_unsigned_digits:
  assumes "list_all is_ascii_digit s"
  shows "parse_unsigned bound s =
    (if s \<noteq> [] \<and> digits_value 0 s \<le> bound then Some (digits_value 0 s) else None)"
proof (cases s)
  case Nil
  then show ?thesis by (simp add: parse_unsigned_def)
next
  case (Cons c r)
  have "\<not> is_ascii_digit CHR ''+''" by (simp add: is_ascii_digit_def)
  then have "c \<noteq> CHR ''+''" using assms Cons by auto
  then show ?thesis using assms Cons by (simp add: parse_unsigned_def Let_def)
qed

lemma parse_unsigned_bound: "parse_unsigned bound s = Some n \<Longrightarrow> n \<le> bound"
  by (auto simp: parse_unsigned_def Let_def split: if_splits)

text \<open>Decimal numerals as \<open>Display\<close> prints them.\<close>

definition digit_char :: "nat \<Rightarrow> char" where
  "digit_char d = char_of (48 + d)"

fun show_nat :: "nat \<Rightarrow> string" where
  "show_nat n = (if n < 10 then [digit_char n] else show_nat (n div 10) @ [digit_char (n mod 10)])"

declare show_nat.simps [simp del]

definition show_int :: "int \<Rightarrow> string" where
  "show_int i = (if i < 0 then ''-'' @ show_nat (nat (- i)) else show_nat (nat i))"

end
