(* ===== verification/Ordered_Map.thy ===== *)
theory Ordered_Map
  imports Prelude
begin

text \<open>
  Rust's \<open>BTreeMap\<close> as the program uses it: an association list in strictly
  increasing key order, with \<open>get\<close>, \<open>insert\<close>, \<open>remove\<close> and in-order iteration.  The
  locale \<open>ordered_map\<close> states the contract the components rely on; it is
  interpreted on the lists below.
\<close>

type_synonym ('k, 'v) btree = "('k \<times> 'v) list"

definition bt_sorted :: "('k::linorder, 'v) btree \<Rightarrow> bool" where
  "bt_sorted m \<longleftrightarrow> sorted_wrt (<) (map fst m)"

fun bt_get :: "('k::linorder, 'v) btree \<Rightarrow> 'k \<Rightarrow> 'v option" where
  "bt_get [] k = None"
| "bt_get ((k', v) # m) k = (if k = k' then Some v else bt_get m k)"

fun bt_insert :: "'k::linorder \<Rightarrow> 'v \<Rightarrow> ('k, 'v) btree \<Rightarrow> ('k, 'v) btree" where
  "bt_insert k v [] = [(k, v)]"
| "bt_insert k v ((k', v') # m) =
    (if k < k' then (k, v) # (k', v') # m
     else if k = k' then (k, v) # m
     else (k', v') # bt_insert k v m)"

fun bt_remove :: "'k::linorder \<Rightarrow> ('k, 'v) btree \<Rightarrow> ('k, 'v) btree" where
  "bt_remove k [] = []"
| "bt_remove k ((k', v') # m) = (if k = k' then m else (k', v') # bt_remove k m)"

lemma bt_sorted_simps [simp]:
  "bt_sorted []"
  "bt_sorted ((k, v) # m) \<longleftrightarrow> (\<forall>x\<in>fst ` set m. k < x) \<and> bt_sorted m"
  by (auto simp: bt_sorted_def)

lemma bt_insert_set:
  "bt_sorted m \<Longrightarrow> set (bt_insert k v m) = insert (k, v) {p \<in> set m. fst p \<noteq> k}"
proof (induction m)
  case Nil
  then show ?case by simp
next
  case (Cons p m)
  then show ?case by (cases p) (auto simp: not_less)
qed

lemma bt_remove_set:
  "bt_sorted m \<Longrightarrow> set (bt_remove k m) = {p \<in> set m. fst p \<noteq> k}"
proof (induction m)
  case Nil
  then show ?case by simp
next
  case (Cons p m)
  then show ?case by (cases p) auto
qed

lemma bt_sorted_insert [simp]: "bt_sorted m \<Longrightarrow> bt_sorted (bt_insert k v m)"
proof (induction m)
  case Nil
  then show ?case by simp
next
  case (Cons p m)
  then show ?case by (cases p) (auto simp: bt_insert_set not_less)
qed

lemma bt_sorted_remove [simp]: "bt_sorted m \<Longrightarrow> bt_sorted (bt_remove k m)"
proof (induction m)
  case Nil
  then show ?case by simp
next
  case (Cons p m)
  then show ?case by (cases p) (auto simp: bt_remove_set)
qed

lemma bt_get_insert [simp]: "bt_get (bt_insert k v m) x = (if x = k then Some v else bt_get m x)"
  by (induction m) (auto split: if_splits)

lemma bt_get_NoneI: "k \<notin> fst ` set m \<Longrightarrow> bt_get m k = None"
  by (induction m) auto

lemma bt_get_None_iff: "bt_get m k = None \<longleftrightarrow> k \<notin> fst ` set m"
  by (induction m) (auto split: if_splits)

lemma bt_get_remove [simp]:
  "bt_sorted m \<Longrightarrow> bt_get (bt_remove k m) x = (if x = k then None else bt_get m x)"
proof (cases "x = k")
  case True
  then show "bt_sorted m \<Longrightarrow> ?thesis"
    by (auto simp: bt_get_None_iff bt_remove_set)
next
  case False
  then show "bt_sorted m \<Longrightarrow> ?thesis"
    by (induction m) (auto split: if_splits)
qed

lemma bt_get_Some_set: "bt_get m k = Some v \<Longrightarrow> (k, v) \<in> set m"
  by (induction m) (auto split: if_splits)

lemma bt_get_set_iff: "bt_sorted m \<Longrightarrow> (k, v) \<in> set m \<longleftrightarrow> bt_get m k = Some v"
proof (induction m)
  case Nil
  then show ?case by simp
next
  case (Cons p m)
  then show ?case by (cases p) (force dest: bt_get_Some_set split: if_splits)
qed

lemma bt_get_in_keys: "(\<exists>v. bt_get m k = Some v) \<longleftrightarrow> k \<in> fst ` set m"
  using bt_get_None_iff [of m k] by auto

text \<open>Two sorted lists with the same lookups are the same map.\<close>

lemma bt_ext:
  assumes "bt_sorted m" "bt_sorted m'" "\<And>k. bt_get m k = bt_get m' k"
  shows "m = m'"
proof -
  have set: "set m = set m'"
    using assms by (auto simp: bt_get_set_iff)
  have inj: "inj_on fst (set m)"
    using assms(1) by (simp add: bt_sorted_def strict_sorted_iff distinct_map)
  have "sorted_wrt (<) (map fst m)" "sorted_wrt (<) (map fst m')"
    "set (map fst m) = set (map fst m')"
    using assms(1,2) set by (simp_all add: bt_sorted_def)
  then have "map fst m' = map fst m" by (rule strict_sorted_equal [OF _ _ sym])
  moreover have "inj_on fst (set m' \<union> set m)" using inj set by simp
  ultimately show ?thesis by (metis inj_on_map_eq_map)
qed

lemma bt_insert_twice [simp]: "bt_insert k v (bt_insert k v' m) = bt_insert k v m"
  by (induction m) auto

lemma bt_insert_same:
  "bt_sorted m \<Longrightarrow> bt_get m k = Some v \<Longrightarrow> bt_insert k v m = m"
  by (rule bt_ext) simp_all

lemma bt_map_fst_insert_present:
  assumes "bt_sorted m" "bt_get m k \<noteq> None"
  shows "map fst (bt_insert k v m) = map fst m"
proof -
  have "set (map fst (bt_insert k v m)) = set (map fst m)"
    using assms by (auto simp: bt_insert_set bt_get_None_iff image_iff)
  moreover have "bt_sorted (bt_insert k v m)" using assms(1) by simp
  ultimately show ?thesis
    using assms(1) unfolding bt_sorted_def by (metis strict_sorted_equal)
qed

section \<open>Folding inserts\<close>

definition bt_insert_all :: "('k::linorder \<times> 'v) list \<Rightarrow> ('k, 'v) btree \<Rightarrow> ('k, 'v) btree" where
  "bt_insert_all ps m = fold (\<lambda>(k, v) m. bt_insert k v m) ps m"

lemma bt_insert_all_sorted [simp]: "bt_sorted m \<Longrightarrow> bt_sorted (bt_insert_all ps m)"
  unfolding bt_insert_all_def by (induction ps arbitrary: m) auto

lemma bt_get_insert_all:
  "bt_sorted ps \<Longrightarrow>
   bt_get (bt_insert_all ps m) k = (case bt_get ps k of Some v \<Rightarrow> Some v | None \<Rightarrow> bt_get m k)"
  unfolding bt_insert_all_def
proof (induction ps arbitrary: m)
  case Nil
  then show ?case by simp
next
  case (Cons p ps)
  obtain k' v' where p: "p = (k', v')" by (cases p)
  have "k = k' \<Longrightarrow> bt_get ps k = None"
    using Cons.prems p by (auto intro!: bt_get_NoneI)
  then show ?case using Cons p by (auto split: option.splits)
qed

section \<open>The contract\<close>

locale ordered_map =
  fixes get :: "'m \<Rightarrow> 'k::linorder \<Rightarrow> 'v option"
    and ins :: "'k \<Rightarrow> 'v \<Rightarrow> 'm \<Rightarrow> 'm"
    and del :: "'k \<Rightarrow> 'm \<Rightarrow> 'm"
    and entries :: "'m \<Rightarrow> ('k \<times> 'v) list"
    and inv :: "'m \<Rightarrow> bool"
  assumes inv_ins: "inv m \<Longrightarrow> inv (ins k v m)"
    and inv_del: "inv m \<Longrightarrow> inv (del k m)"
    and get_ins: "get (ins k v m) x = (if x = k then Some v else get m x)"
    and get_del: "inv m \<Longrightarrow> get (del k m) x = (if x = k then None else get m x)"
    and entries_get: "inv m \<Longrightarrow> (k, v) \<in> set (entries m) \<longleftrightarrow> get m k = Some v"
    and entries_sorted: "inv m \<Longrightarrow> sorted_wrt (<) (map fst (entries m))"
begin

text \<open>An invariant of the entries survives an insertion that satisfies it, and any
  removal.\<close>

lemma entries_ins_all:
  assumes "inv m" "\<And>x v. (x, v) \<in> set (entries m) \<Longrightarrow> P x v" "P k v"
    and "(x, w) \<in> set (entries (ins k v m))"
  shows "P x w"
  using assms by (auto simp: entries_get inv_ins get_ins split: if_splits)

lemma entries_del_all:
  assumes "inv m" "\<And>x v. (x, v) \<in> set (entries m) \<Longrightarrow> P x v"
    and "(x, w) \<in> set (entries (del k m))"
  shows "P x w"
  using assms by (auto simp: entries_get inv_del get_del split: if_splits)

lemma get_distinct: "inv m \<Longrightarrow> distinct (map fst (entries m))"
  using entries_sorted strict_sorted_iff by blast

end

interpretation bt: ordered_map bt_get bt_insert bt_remove "\<lambda>m. m" bt_sorted
  by unfold_locales (simp_all add: bt_get_set_iff bt_sorted_def [symmetric])

end
