(* ===== verification/Config_Key.thy ===== *)
theory Config_Key
  imports Ordered_Map
begin

text \<open>
  Models \<open>core/src/config/key.rs\<close> and the error type of \<open>core/src/config/mod.rs\<close>:
  the names of environment variables a server configuration may set, and the
  typed configuration keys.
\<close>

datatype ConfigError =
  UnknownKey
| InvalidEnvironmentName
| ReservedEnvironment
| ReadOnlySetting
| InvalidValue string
| SecretRequired
| SecretNotAllowed
| ConflictingProxyAliases
| MissingCustomProxy

datatype EnvironmentName = EnvironmentName string

definition PROXY_NAMES :: "str list" where
  "PROXY_NAMES = [''http_proxy'', ''https_proxy'', ''all_proxy'', ''no_proxy'']"

definition env_name_shape :: "str \<Rightarrow> bool" where
  "env_name_shape name =
    (case name of
       [] \<Rightarrow> False
     | b # bs \<Rightarrow>
         (is_ascii_lowercase b \<or> is_ascii_uppercase b \<or> b = CHR ''_'')
         \<and> list_all (\<lambda>c. is_ascii_alphanumeric c \<or> c = CHR ''_'') bs)"

definition reserved_environment :: "str \<Rightarrow> bool" where
  "reserved_environment name =
    (let upper = to_ascii_uppercase name in
     starts_with upper ''REMOTE_CODEX_''
     \<or> upper \<in> {''CODEX_HOME'', ''OPENAI_API_KEY'', ''CODEX_API_KEY'', ''CODEX_ACCESS_TOKEN'',
         ''CODEX_AUTH_JSON'', ''HOME'', ''USER'', ''LOGNAME'', ''XDG_CONFIG_HOME'',
         ''XDG_DATA_HOME'', ''XDG_RUNTIME_DIR''})"

definition EnvironmentName_parse :: "str \<Rightarrow> ConfigError + EnvironmentName" where
  "EnvironmentName_parse name =
    (if \<not> env_name_shape name \<or> length name > 128 then Inl InvalidEnvironmentName
     else if reserved_environment name then Inl ReservedEnvironment
     else Inr (EnvironmentName
       (if to_ascii_lowercase name \<in> set PROXY_NAMES then to_ascii_lowercase name else name)))"

fun as_str :: "EnvironmentName \<Rightarrow> str" where
  "as_str (EnvironmentName s) = s"

definition is_proxy :: "EnvironmentName \<Rightarrow> bool" where
  "is_proxy name \<longleftrightarrow> as_str name \<in> set PROXY_NAMES"

definition is_proxy_address :: "EnvironmentName \<Rightarrow> bool" where
  "is_proxy_address name \<longleftrightarrow> is_proxy name \<and> as_str name \<noteq> ''no_proxy''"

definition is_sensitive :: "EnvironmentName \<Rightarrow> bool" where
  "is_sensitive n =
    (let name = to_ascii_uppercase (as_str n) in
     list_ex (\<lambda>part. part \<in> {''TOKEN'', ''SECRET'', ''PASSWORD'', ''PASSWD'', ''CREDENTIAL''})
       (split_on CHR ''_'' name)
     \<or> ends_with name ''_KEY'' \<or> name = ''KEY'')"

datatype ConfigKey =
  K_Background
| K_DisconnectGraceSeconds
| K_ReconnectMaxAttempts
| K_Environment EnvironmentName
| K_ProxyMode
| K_ExecutionMode
| K_SshHost
| K_SshUser
| K_SshPort

definition ConfigKey_parse :: "str \<Rightarrow> ConfigError + ConfigKey" where
  "ConfigKey_parse key =
    (if key = ''background'' then Inr K_Background
     else if key = ''disconnect_grace_seconds'' then Inr K_DisconnectGraceSeconds
     else if key = ''reconnect.max_attempts'' then Inr K_ReconnectMaxAttempts
     else if key = ''proxy.mode'' then Inr K_ProxyMode
     else if key = ''execution.mode'' then Inr K_ExecutionMode
     else if key = ''ssh.host'' then Inr K_SshHost
     else if key = ''ssh.user'' then Inr K_SshUser
     else if key = ''ssh.port'' then Inr K_SshPort
     else rbind (ok_or UnknownKey (strip_prefix key ''env.''))
       (\<lambda>rest. rbind (EnvironmentName_parse rest) (\<lambda>n. Inr (K_Environment n))))"

fun ConfigKey_name :: "ConfigKey \<Rightarrow> str" where
  "ConfigKey_name K_Background = ''background''"
| "ConfigKey_name K_DisconnectGraceSeconds = ''disconnect_grace_seconds''"
| "ConfigKey_name K_ReconnectMaxAttempts = ''reconnect.max_attempts''"
| "ConfigKey_name (K_Environment name) = ''env.'' @ as_str name"
| "ConfigKey_name K_ProxyMode = ''proxy.mode''"
| "ConfigKey_name K_ExecutionMode = ''execution.mode''"
| "ConfigKey_name K_SshHost = ''ssh.host''"
| "ConfigKey_name K_SshUser = ''ssh.user''"
| "ConfigKey_name K_SshPort = ''ssh.port''"

text \<open>The derived \<open>Ord\<close> of the enum: the variants in declaration order, then the
  environment name's bytes.  It is what orders a \<open>BTreeMap\<close> of settings.\<close>

fun ConfigKey_rank :: "ConfigKey \<Rightarrow> nat \<times> str" where
  "ConfigKey_rank K_Background = (0, [])"
| "ConfigKey_rank K_DisconnectGraceSeconds = (1, [])"
| "ConfigKey_rank K_ReconnectMaxAttempts = (2, [])"
| "ConfigKey_rank (K_Environment name) = (3, as_str name)"
| "ConfigKey_rank K_ProxyMode = (4, [])"
| "ConfigKey_rank K_ExecutionMode = (5, [])"
| "ConfigKey_rank K_SshHost = (6, [])"
| "ConfigKey_rank K_SshUser = (7, [])"
| "ConfigKey_rank K_SshPort = (8, [])"

lemma as_str_inject: "as_str a = as_str b \<longleftrightarrow> a = b"
  by (cases a; cases b) simp

lemma EnvironmentName_as_str [simp]: "EnvironmentName (as_str n) = n"
  by (cases n) simp

lemma ConfigKey_rank_inject: "ConfigKey_rank a = ConfigKey_rank b \<longleftrightarrow> a = b"
  by (cases a; cases b) (auto simp: as_str_inject)

instantiation ConfigKey :: linorder
begin

definition less_eq_ConfigKey :: "ConfigKey \<Rightarrow> ConfigKey \<Rightarrow> bool" where
  "less_eq_ConfigKey a b \<longleftrightarrow> ConfigKey_rank a \<le> ConfigKey_rank b"

definition less_ConfigKey :: "ConfigKey \<Rightarrow> ConfigKey \<Rightarrow> bool" where
  "less_ConfigKey a b \<longleftrightarrow> ConfigKey_rank a < ConfigKey_rank b"

instance
proof
  fix a b c :: ConfigKey
  show "a < b \<longleftrightarrow> a \<le> b \<and> \<not> b \<le> a"
    unfolding less_eq_ConfigKey_def less_ConfigKey_def by (rule less_le_not_le)
  show "a \<le> a"
    unfolding less_eq_ConfigKey_def by (rule order.refl)
  show "a \<le> b \<Longrightarrow> b \<le> c \<Longrightarrow> a \<le> c"
    unfolding less_eq_ConfigKey_def by (rule order.trans)
  show "a \<le> b \<Longrightarrow> b \<le> a \<Longrightarrow> a = b"
    unfolding less_eq_ConfigKey_def by (metis ConfigKey_rank_inject order.antisym)
  show "a \<le> b \<or> b \<le> a"
    unfolding less_eq_ConfigKey_def by (rule linear)
qed

end

section \<open>Environment names\<close>

text \<open>What a parsed name always is: shaped like a shell identifier, short, not one of
  the reserved names under any casing, and lower case when it names a proxy.\<close>

definition env_name_ok :: "EnvironmentName \<Rightarrow> bool" where
  "env_name_ok n \<longleftrightarrow>
     env_name_shape (as_str n) \<and> length (as_str n) \<le> 128
     \<and> \<not> reserved_environment (as_str n)
     \<and> (to_ascii_lowercase (as_str n) \<in> set PROXY_NAMES
          \<longrightarrow> as_str n = to_ascii_lowercase (as_str n))"

fun key_ok :: "ConfigKey \<Rightarrow> bool" where
  "key_ok (K_Environment n) = env_name_ok n"
| "key_ok _ = True"

lemma env_name_shape_lower [simp]: "env_name_shape (to_ascii_lowercase s) = env_name_shape s"
proof -
  have under: "lower_byte c = CHR ''_'' \<longleftrightarrow> c = CHR ''_''" for c
  proof -
    have "byte (lower_byte c) = 95 \<longleftrightarrow> byte c = 95"
      by (auto simp: byte_lower is_ascii_uppercase_def)
    moreover have "x = CHR ''_'' \<longleftrightarrow> byte x = 95" for x
      using of_char_eq_iff [of x "CHR ''_''", where 'a = nat] by simp
    ultimately show ?thesis by simp
  qed
  have alpha: "is_ascii_lowercase (lower_byte c) \<or> is_ascii_uppercase (lower_byte c) \<or> X
      \<longleftrightarrow> is_ascii_lowercase c \<or> is_ascii_uppercase c \<or> X" for c X
    using alphabetic_lower [of c] unfolding is_ascii_alphabetic_def by blast
  show ?thesis
    by (cases s) (simp_all add: env_name_shape_def to_ascii_lowercase_def list_all_iff under alpha)
qed

lemma reserved_environment_lower [simp]:
  "reserved_environment (to_ascii_lowercase s) = reserved_environment s"
  by (simp add: reserved_environment_def)

lemma EnvironmentName_parse_cases [result_simps]:
  "EnvironmentName_parse s = Inr n \<longleftrightarrow>
     env_name_shape s \<and> length s \<le> 128 \<and> \<not> reserved_environment s
     \<and> n = EnvironmentName
         (if to_ascii_lowercase s \<in> set PROXY_NAMES then to_ascii_lowercase s else s)"
  by (auto simp: EnvironmentName_parse_def not_less)

lemma EnvironmentName_parse_canonical:
  "EnvironmentName_parse (as_str n) = Inr n \<longleftrightarrow> env_name_ok n"
  by (cases n) (auto simp: EnvironmentName_parse_cases env_name_ok_def)

lemma parsed_env_name_ok: "EnvironmentName_parse s = Inr n \<Longrightarrow> env_name_ok n"
  by (auto simp: EnvironmentName_parse_cases env_name_ok_def)

text \<open>C8: parsing an environment name accepts only identifiers that are not reserved,
  and yields the canonical spelling: parsing it again gives the same name, and two
  inputs give the same proxy variable whatever their casing.\<close>

theorem EnvironmentName_parse_sound:
  assumes "EnvironmentName_parse s = Inr n"
  shows "env_name_ok n \<and> EnvironmentName_parse (as_str n) = Inr n
    \<and> to_ascii_lowercase (as_str n) = to_ascii_lowercase s
    \<and> (is_proxy n \<longleftrightarrow> to_ascii_lowercase s \<in> set PROXY_NAMES)"
proof -
  have ok: "env_name_ok n" using assms by (rule parsed_env_name_ok)
  moreover have "to_ascii_lowercase (as_str n) = to_ascii_lowercase s"
    using assms by (auto simp: EnvironmentName_parse_cases)
  moreover have "is_proxy n \<longleftrightarrow> to_ascii_lowercase s \<in> set PROXY_NAMES"
  proof -
    have "x \<in> set PROXY_NAMES \<Longrightarrow> to_ascii_lowercase x = x" for x
      by (auto simp: PROXY_NAMES_def to_ascii_lowercase_def lower_byte_def is_ascii_uppercase_def)
    then show ?thesis
      using assms by (auto simp: EnvironmentName_parse_cases is_proxy_def)
  qed
  ultimately show ?thesis by (simp add: EnvironmentName_parse_canonical)
qed

lemma EnvironmentName_parse_sound_witness:
  "env_name_ok (EnvironmentName ''http_proxy'')
   \<and> EnvironmentName_parse ''HTTP_Proxy'' = Inr (EnvironmentName ''http_proxy'')"
proof -
  have "EnvironmentName_parse ''HTTP_Proxy'' = Inr (EnvironmentName ''http_proxy'')" by code_simp
  then show ?thesis using EnvironmentName_parse_sound [of "''HTTP_Proxy''"] by blast
qed

section \<open>Configuration keys\<close>

lemma ConfigKey_parse_env:
  "ConfigKey_parse (''env.'' @ s) = map_sum id K_Environment (EnvironmentName_parse s)"
proof -
  have "strip_prefix (''env.'' @ s) ''env.'' = Some s" by (rule strip_prefix_append)
  then show ?thesis
    by (cases "EnvironmentName_parse s") (simp_all add: ConfigKey_parse_def)
qed

lemma ConfigKey_parse_name: "ConfigKey_parse (ConfigKey_name k) = Inr k \<longleftrightarrow> key_ok k"
proof (cases k)
  case (K_Environment n)
  have "ConfigKey_parse (ConfigKey_name k) = Inr k \<longleftrightarrow> EnvironmentName_parse (as_str n) = Inr n"
    using ConfigKey_parse_env [of "as_str n"] K_Environment
    by (cases "EnvironmentName_parse (as_str n)") simp_all
  then show ?thesis using K_Environment by (simp add: EnvironmentName_parse_canonical)
qed (simp_all add: ConfigKey_parse_def)

lemma env_key_Inr:
  "rbind (ok_or UnknownKey (strip_prefix s ''env.''))
     (\<lambda>rest. rbind (EnvironmentName_parse rest) (\<lambda>n. Inr (K_Environment n))) = Inr k \<Longrightarrow>
   \<exists>n r. k = K_Environment n \<and> s = ''env.'' @ r \<and> EnvironmentName_parse r = Inr n"
  unfolding rbind_Inr_iff ok_or_Inr_iff strip_prefix_Some_iff by blast

lemma ConfigKey_parse_Inr:
  "ConfigKey_parse s = Inr k \<Longrightarrow>
     (case k of K_Environment n \<Rightarrow> \<exists>r. s = ''env.'' @ r \<and> EnvironmentName_parse r = Inr n
      | _ \<Rightarrow> s = ConfigKey_name k)"
  unfolding ConfigKey_parse_def
  by (simp split: if_splits; (drule env_key_Inr, elim exE conjE, simp)?)

lemma parsed_key_ok: "ConfigKey_parse s = Inr k \<Longrightarrow> key_ok k"
  by (drule ConfigKey_parse_Inr) (auto split: ConfigKey.splits dest: parsed_env_name_ok)

text \<open>C22: the textual key names round-trip. Every key a parse produces is well-formed
  and its name parses back to it, and only an environment variable's key has more
  than one spelling: two texts with the same key are equal, or are the spellings of
  one proxy variable.\<close>

theorem ConfigKey_parse_roundtrip:
  assumes "ConfigKey_parse s = Inr k"
  shows "ConfigKey_parse (ConfigKey_name k) = Inr k
    \<and> (\<forall>s'. ConfigKey_parse s' = Inr k \<longrightarrow>
         s' = s \<or> (\<exists>n. k = K_Environment n \<and> is_proxy n
                    \<and> to_ascii_lowercase s' = to_ascii_lowercase s))"
proof (intro conjI allI impI)
  show "ConfigKey_parse (ConfigKey_name k) = Inr k"
    using parsed_key_ok [OF assms] by (simp add: ConfigKey_parse_name)
next
  fix s' assume *: "ConfigKey_parse s' = Inr k"
  show "s' = s \<or> (\<exists>n. k = K_Environment n \<and> is_proxy n
                    \<and> to_ascii_lowercase s' = to_ascii_lowercase s)"
  proof (cases k)
    case (K_Environment n)
    obtain r r' where r: "s = ''env.'' @ r" "EnvironmentName_parse r = Inr n"
      and r': "s' = ''env.'' @ r'" "EnvironmentName_parse r' = Inr n"
      using ConfigKey_parse_Inr [OF assms] ConfigKey_parse_Inr [OF *] K_Environment by auto
    have lower: "to_ascii_lowercase r = to_ascii_lowercase r'"
      using r(2) r'(2) by (auto simp: EnvironmentName_parse_cases split: if_splits)
    show ?thesis
    proof (cases "to_ascii_lowercase r \<in> set PROXY_NAMES")
      case True
      then have "is_proxy n" using r(2) by (auto simp: EnvironmentName_parse_cases is_proxy_def)
      then show ?thesis using K_Environment lower r r' by (simp add: to_ascii_lowercase_def)
    next
      case False
      then have "r' = r" using r(2) r'(2) lower by (simp add: EnvironmentName_parse_cases)
      then show ?thesis using r r' by simp
    qed
  qed (use ConfigKey_parse_Inr [OF assms] ConfigKey_parse_Inr [OF *] in simp_all)
qed

lemma ConfigKey_parse_roundtrip_witness:
  "ConfigKey_parse (ConfigKey_name (K_Environment (EnvironmentName ''no_proxy'')))
     = Inr (K_Environment (EnvironmentName ''no_proxy''))"
proof -
  have "ConfigKey_parse ''env.NO_PROXY'' = Inr (K_Environment (EnvironmentName ''no_proxy''))"
    by code_simp
  then show ?thesis using ConfigKey_parse_roundtrip [of "''env.NO_PROXY''"] by blast
qed

end
