(* ===== verification/Config_Value.thy ===== *)
theory Config_Value
  imports Config_Key "HOL-Library.Word"
begin

text \<open>
  Models \<open>core/src/config/value.rs\<close> and \<open>core/src/config/registry.rs\<close>: the typed
  values, their validation from raw text, the rule that says which raw values are
  secrets, and the registry of types, defaults and application policies.  The URL
  parser (crate \<open>url\<close>) is a parameter: the record \<open>url\<close> has the accessors the
  validation reads.
\<close>

datatype ProxyMode = Inherit | Custom | Direct

datatype SecretRef = SecretRef string

definition secret_ref_byte :: "char \<Rightarrow> bool" where
  "secret_ref_byte b \<longleftrightarrow> is_ascii_alphanumeric b \<or> b \<in> set ''-_:''"

definition SecretRef_new :: "str \<Rightarrow> ConfigError + SecretRef" where
  "SecretRef_new i =
    (if i = [] \<or> length i > 128 \<or> \<not> list_all secret_ref_byte i
     then Inl (InvalidValue ''invalid credential reference'') else Inr (SecretRef i))"

datatype ConfigValue =
  V_Boolean bool
| V_Integer "16 word"
| V_Text string
| V_ProxyMode ProxyMode
| V_Secret SecretRef

datatype VisibleValue =
  Vis_Boolean bool
| Vis_Integer "16 word"
| Vis_Text string
| Vis_ProxyMode ProxyMode

fun visible :: "ConfigValue \<Rightarrow> VisibleValue option" where
  "visible (V_Boolean v) = Some (Vis_Boolean v)"
| "visible (V_Integer v) = Some (Vis_Integer v)"
| "visible (V_Text v) = Some (Vis_Text v)"
| "visible (V_ProxyMode v) = Some (Vis_ProxyMode v)"
| "visible (V_Secret _) = None"

section \<open>The registry\<close>

datatype ApplyPolicy = Supervisor | NextDisconnect | NextReconnect | NewProcess | ReadOnly

datatype ValueKind =
  Kind_Boolean
| Kind_GraceSeconds
| Kind_RetryAttempts
| Kind_ExecutionMode
| Kind_Environment
| Kind_ProxyMode
| Kind_Identity

record SettingSpec =
  spec_kind :: ValueKind
  spec_writable :: bool
  spec_apply :: ApplyPolicy
  spec_default :: "ConfigValue option"

fun registry_row :: "ConfigKey \<Rightarrow> ValueKind \<times> ApplyPolicy \<times> ConfigValue option" where
  "registry_row K_Background = (Kind_Boolean, Supervisor, Some (V_Boolean True))"
| "registry_row K_DisconnectGraceSeconds =
     (Kind_GraceSeconds, NextDisconnect, Some (V_Integer 30))"
| "registry_row K_ReconnectMaxAttempts =
     (Kind_RetryAttempts, NextReconnect, Some (V_Integer 10))"
| "registry_row (K_Environment _) = (Kind_Environment, NewProcess, None)"
| "registry_row K_ProxyMode = (Kind_ProxyMode, NewProcess, Some (V_ProxyMode Direct))"
| "registry_row K_ExecutionMode =
     (Kind_ExecutionMode, NewProcess, Some (V_Text ''sandboxed''))"
| "registry_row K_SshHost = (Kind_Identity, ReadOnly, None)"
| "registry_row K_SshUser = (Kind_Identity, ReadOnly, None)"
| "registry_row K_SshPort = (Kind_Identity, ReadOnly, None)"

definition setting_spec :: "ConfigKey \<Rightarrow> SettingSpec" where
  "setting_spec key =
    (let (k, a, d) = registry_row key in
     \<lparr> spec_kind = k, spec_writable = (k \<noteq> Kind_Identity), spec_apply = a, spec_default = d \<rparr>)"

definition DEFAULT_KEYS :: "ConfigKey list" where
  "DEFAULT_KEYS =
    [K_Background, K_DisconnectGraceSeconds, K_ReconnectMaxAttempts, K_ProxyMode, K_ExecutionMode]"

section \<open>Validation\<close>

text \<open>What \<open>validate_proxy\<close> reads of a parsed URL.\<close>

record url =
  url_scheme :: string
  url_host_str :: "string option"
  url_port :: "nat option"
  url_path :: string
  url_query :: "string option"
  url_fragment :: "string option"

type_synonym url_parser = "str \<Rightarrow> url option"

definition proxy_error :: ConfigError where
  "proxy_error =
    InvalidValue ''expected an HTTP(S) or SOCKS5 proxy URL without path, query or fragment''"

definition validate_proxy :: "url_parser \<Rightarrow> str \<Rightarrow> ConfigError + unit" where
  "validate_proxy url_parse raw =
    (if list_ex (\<lambda>c. is_whitespace c \<or> is_control c \<or> c = 92) (str_chars raw)
        \<or> \<not> str_contains raw ''://''
     then Inl proxy_error
     else (case url_parse raw of
         None \<Rightarrow> Inl proxy_error
       | Some u \<Rightarrow>
           if url_scheme u \<notin> {''http'', ''https'', ''socks5'', ''socks5h''}
              \<or> url_host_str u = None \<or> url_port u = Some 0
              \<or> url_path u \<notin> {[], ''/''}
              \<or> url_query u \<noteq> None \<or> url_fragment u \<noteq> None
           then Inl proxy_error else Inr ()))"

definition parse_u16 :: "str \<Rightarrow> (16 word) option" where
  "parse_u16 raw = map_option of_nat (parse_unsigned 65535 raw)"

text \<open>\<open>parse().ok().filter(p).map(Integer).ok_or(e)\<close> of the two integer settings.\<close>

definition parse_integer :: "(16 word \<Rightarrow> bool) \<Rightarrow> str \<Rightarrow> str \<Rightarrow> ConfigError + ConfigValue" where
  "parse_integer p e raw =
    (case parse_u16 raw of
       None \<Rightarrow> Inl (InvalidValue e)
     | Some v \<Rightarrow> if p v \<and> list_all is_ascii_digit raw then Inr (V_Integer v)
                 else Inl (InvalidValue e))"

definition parse_value :: "url_parser \<Rightarrow> ConfigKey \<Rightarrow> str \<Rightarrow> ConfigError + ConfigValue" where
  "parse_value url_parse key raw =
    (if length raw > 32 * 1024 \<or> CHR 0x00 \<in> set raw
     then Inl (InvalidValue ''NUL or value over 32 KiB'')
     else (case spec_kind (setting_spec key) of
       Kind_Boolean \<Rightarrow>
         if raw = ''true'' then Inr (V_Boolean True)
         else if raw = ''false'' then Inr (V_Boolean False)
         else Inl (InvalidValue ''expected true or false'')
     | Kind_GraceSeconds \<Rightarrow>
         parse_integer (\<lambda>v. v \<le> 3600) ''expected integer from 0 to 3600'' raw
     | Kind_RetryAttempts \<Rightarrow>
         parse_integer (\<lambda>v. 0 < v) ''expected integer from 1 to 65535'' raw
     | Kind_ExecutionMode \<Rightarrow>
         if raw \<in> {''sandboxed'', ''unrestricted''} then Inr (V_Text raw)
         else Inl (InvalidValue ''expected sandboxed or unrestricted'')
     | Kind_Environment \<Rightarrow>
         rbind (case key of
             K_Environment name \<Rightarrow>
               rbind (if is_proxy_address name then validate_proxy url_parse raw else Inr ())
                 (\<lambda>_. if is_proxy name \<and> list_ex is_control (str_chars raw)
                      then Inl (InvalidValue ''control character in proxy setting'')
                      else Inr ())
           | _ \<Rightarrow> Inr ())
         (\<lambda>_. Inr (V_Text raw))
     | Kind_ProxyMode \<Rightarrow>
         if raw = ''inherit'' then Inr (V_ProxyMode Inherit)
         else if raw = ''custom'' then Inr (V_ProxyMode Custom)
         else if raw = ''direct'' then Inr (V_ProxyMode Direct)
         else Inl (InvalidValue ''expected inherit, custom or direct'')
     | Kind_Identity \<Rightarrow> Inl ReadOnlySetting))"

text \<open>\<open>raw.split("://").nth(1)\<close>: what follows the first separator, up to the next one.\<close>

definition split_second :: "str \<Rightarrow> str \<Rightarrow> str option" where
  "split_second p s =
    (case split_once p s of
       None \<Rightarrow> None
     | Some (_, rest) \<Rightarrow>
         (case split_once p rest of None \<Rightarrow> Some rest | Some (a, _) \<Rightarrow> Some a))"

definition requires_secret :: "ConfigKey \<Rightarrow> str \<Rightarrow> bool" where
  "requires_secret key raw =
    (case key of
       K_Environment name \<Rightarrow>
         is_sensitive name
         \<or> (is_proxy_address name
            \<and> (case split_second ''://'' raw of
                 None \<Rightarrow> False
               | Some rest \<Rightarrow> CHR ''@'' \<in> set (hd (split_on CHR ''/'' rest))))
     | _ \<Rightarrow> False)"

section \<open>What a secret is\<close>

text \<open>Stated without the code's test.  A variable is secret by its name: a word of the name, between
  underscores, is a word for a secret, or the name is or ends in a key.  A URL in the form of RFC 3986
  has user information: after the scheme and \<open>://\<close>, a text without a slash that ends with \<open>@\<close>.\<close>

definition word_of :: "str \<Rightarrow> str \<Rightarrow> bool" where
  "word_of word name \<longleftrightarrow> (\<exists>front rest. name = front @ word @ rest
     \<and> (front = [] \<or> last front = CHR ''_'') \<and> (rest = [] \<or> hd rest = CHR ''_''))"

definition secret_name :: "EnvironmentName \<Rightarrow> bool" where
  "secret_name n \<longleftrightarrow>
    (\<exists>word\<in>{''TOKEN'', ''SECRET'', ''PASSWORD'', ''PASSWD'', ''CREDENTIAL''}. word_of word (to_ascii_uppercase (as_str n)))
    \<or> to_ascii_uppercase (as_str n) = ''KEY'' \<or> (\<exists>front. to_ascii_uppercase (as_str n) = front @ ''_KEY'')"

definition url_credentials :: "str \<Rightarrow> bool" where
  "url_credentials raw \<longleftrightarrow> (\<exists>scheme user rest. raw = scheme @ ''://'' @ user @ ''@'' @ rest
     \<and> CHR '':'' \<notin> set scheme \<and> CHR ''/'' \<notin> set user)"

definition secret_setting :: "ConfigKey \<Rightarrow> str \<Rightarrow> bool" where
  "secret_setting key raw \<longleftrightarrow>
    (\<exists>name. key = K_Environment name \<and> (secret_name name \<or> (is_proxy_address name \<and> url_credentials raw)))"

lemma split_on_sep: "split_on c (a @ c # b) = split_on c a @ split_on c b"
proof (induction a)
  case (Cons x a)
  then show ?case by (cases "split_on c a") auto
qed simp

lemma split_on_whole: "c \<notin> set word \<Longrightarrow> split_on c word = [word]"
  by (induction word) auto

lemma word_of_part:
  assumes "word_of word name" "CHR ''_'' \<notin> set word"
  shows "word \<in> set (split_on CHR ''_'' name)"
proof -
  obtain front rest where name: "name = front @ word @ rest" "front = [] \<or> last front = CHR ''_''" "rest = [] \<or> hd rest = CHR ''_''"
    using assms(1) unfolding word_of_def by blast
  have right: "word \<in> set (split_on CHR ''_'' (word @ rest))"
    using name(3) split_on_sep [of "CHR ''_''" word "tl rest"] split_on_whole [OF assms(2)] by (cases rest) auto
  show ?thesis
  proof (cases "front = []")
    case False
    then have "front = butlast front @ [CHR ''_'']" using name(2) by (metis append_butlast_last_id)
    then have "name = butlast front @ CHR ''_'' # word @ rest" using name(1) by (metis append.assoc append_Cons append_Nil)
    then show ?thesis using right split_on_sep by simp
  qed (use right name(1) in simp)
qed

lemma split_once_scheme: "CHR '':'' \<notin> set scheme \<Longrightarrow> split_once ''://'' (scheme @ ''://'' @ rest) = Some (scheme, rest)"
  by (induction scheme) (auto simp: starts_with_def)

lemma hd_split_at: "c \<notin> set user \<Longrightarrow> c \<noteq> x \<Longrightarrow> x \<in> set (hd (split_on c (user @ x # rest)))"
  by (induction user) (auto split: list.split)

text \<open>The test of the code finds each of them.\<close>

lemma secret_required:
  assumes "secret_setting key raw"
  shows "requires_secret key raw"
proof -
  obtain n where n: "key = K_Environment n" "secret_name n \<or> is_proxy_address n \<and> url_credentials raw"
    using assms unfolding secret_setting_def by blast
  show ?thesis
  proof (cases "secret_name n")
    case True
    let ?words = "{''TOKEN'', ''SECRET'', ''PASSWORD'', ''PASSWD'', ''CREDENTIAL''}" and ?name = "to_ascii_uppercase (as_str n)"
    have "is_sensitive n"
    proof (cases "\<exists>word\<in>?words. word_of word ?name")
      case True
      then obtain word where word: "word \<in> ?words" "word_of word ?name" by blast
      then have "CHR ''_'' \<notin> set word" by auto
      then have "word \<in> set (split_on CHR ''_'' ?name)" using word_of_part word(2) by blast
      then show ?thesis using word(1) unfolding is_sensitive_def Let_def list_ex_iff by blast
    next
      case False
      then have "?name = ''KEY'' \<or> (\<exists>front. ?name = front @ ''_KEY'')" using True unfolding secret_name_def by blast
      moreover have "ends_with (front @ p) p" for front p by (simp add: ends_with_def)
      ultimately have "?name = ''KEY'' \<or> ends_with ?name ''_KEY''" by metis
      then show ?thesis unfolding is_sensitive_def Let_def by blast
    qed
    then show ?thesis by (simp add: requires_secret_def n(1))
  next
    case False
    then obtain scheme user rest where raw: "raw = scheme @ ''://'' @ user @ ''@'' @ rest"
        "CHR '':'' \<notin> set scheme" "CHR ''/'' \<notin> set user" and proxy: "is_proxy_address n"
      using n(2) unfolding url_credentials_def by blast
    have once: "split_once ''://'' raw = Some (scheme, user @ ''@'' @ rest)"
      unfolding raw(1) using raw(2) by (rule split_once_scheme)
    have "\<exists>more. split_second ''://'' raw = Some (user @ CHR ''@'' # more)"
    proof (cases "split_once ''://'' (user @ ''@'' @ rest)")
      case None
      then show ?thesis using once by (simp add: split_second_def)
    next
      case (Some p)
      obtain a b where p: "p = (a, b)" by fastforce
      have "(user @ ''@'') @ rest = a @ ''://'' @ b" using split_once_Some [OF Some [unfolded p]] by simp
      then obtain us where us: "(user @ ''@'') @ us = a \<and> rest = us @ ''://'' @ b \<or> user @ ''@'' = a @ us \<and> us @ rest = ''://'' @ b"
        unfolding append_eq_append_conv2 by blast
      have "\<exists>more. a = user @ CHR ''@'' # more"
      proof (cases "\<exists>more. (user @ ''@'') @ more = a")
        case False
        then have tail: "user @ ''@'' = a @ us" "us @ rest = ''://'' @ b" "us \<noteq> []" using us by auto
        then have "last us = CHR ''@''" by (metis last_appendR last_snoc)
        moreover obtain x vs where x: "us = x # vs" using tail(3) by (cases us) auto
        moreover have "x = CHR '':''" "vs @ rest = ''//'' @ b" using tail(2) x by simp_all
        ultimately obtain y zs where "vs = y # zs" by (cases vs) auto
        then have "CHR ''/'' \<in> set us" using \<open>vs @ rest = ''//'' @ b\<close> x by simp
        then have "CHR ''/'' \<in> set (user @ ''@'')" using tail(1) by simp
        then show ?thesis using raw(3) by simp
      qed auto
      then show ?thesis using once Some p by (auto simp: split_second_def)
    qed
    then show ?thesis using proxy raw(3) hd_split_at [of "CHR ''/''" user "CHR ''@''"]
      by (auto simp: requires_secret_def n(1))
  qed
qed

section \<open>Typed values\<close>

text \<open>The values a key may hold: the type its kind fixes, inside its bounds, and for an
  environment variable a bounded text without NUL that is a valid proxy setting when
  the variable is one.\<close>

definition text_ok :: "url_parser \<Rightarrow> ConfigKey \<Rightarrow> str \<Rightarrow> bool" where
  "text_ok url_parse key raw \<longleftrightarrow>
     length raw \<le> 32768 \<and> CHR 0x00 \<notin> set raw
     \<and> (case key of
          K_Environment name \<Rightarrow>
            (is_proxy_address name \<longrightarrow> validate_proxy url_parse raw = Inr ())
            \<and> (is_proxy name \<longrightarrow> \<not> list_ex is_control (str_chars raw))
        | _ \<Rightarrow> True)"

fun secret_ref_ok :: "SecretRef \<Rightarrow> bool" where
  "secret_ref_ok (SecretRef i) \<longleftrightarrow> i \<noteq> [] \<and> length i \<le> 128 \<and> list_all secret_ref_byte i"

definition value_typed :: "url_parser \<Rightarrow> ConfigKey \<Rightarrow> ConfigValue \<Rightarrow> bool" where
  "value_typed url_parse key v =
    (case spec_kind (setting_spec key) of
       Kind_Boolean \<Rightarrow> (case v of V_Boolean _ \<Rightarrow> True | _ \<Rightarrow> False)
     | Kind_GraceSeconds \<Rightarrow> (case v of V_Integer w \<Rightarrow> w \<le> 3600 | _ \<Rightarrow> False)
     | Kind_RetryAttempts \<Rightarrow> (case v of V_Integer w \<Rightarrow> 0 < w | _ \<Rightarrow> False)
     | Kind_ExecutionMode \<Rightarrow>
         (case v of V_Text s \<Rightarrow> s \<in> {''sandboxed'', ''unrestricted''} | _ \<Rightarrow> False)
     | Kind_Environment \<Rightarrow>
         (case v of V_Text s \<Rightarrow> text_ok url_parse key s | V_Secret r \<Rightarrow> secret_ref_ok r | _ \<Rightarrow> False)
     | Kind_ProxyMode \<Rightarrow> (case v of V_ProxyMode _ \<Rightarrow> True | _ \<Rightarrow> False)
     | Kind_Identity \<Rightarrow> False)"

lemma spec_kind_simps [simp]:
  "spec_kind (setting_spec K_Background) = Kind_Boolean"
  "spec_kind (setting_spec K_DisconnectGraceSeconds) = Kind_GraceSeconds"
  "spec_kind (setting_spec K_ReconnectMaxAttempts) = Kind_RetryAttempts"
  "spec_kind (setting_spec (K_Environment n)) = Kind_Environment"
  "spec_kind (setting_spec K_ProxyMode) = Kind_ProxyMode"
  "spec_kind (setting_spec K_ExecutionMode) = Kind_ExecutionMode"
  "spec_kind (setting_spec K_SshHost) = Kind_Identity"
  "spec_kind (setting_spec K_SshUser) = Kind_Identity"
  "spec_kind (setting_spec K_SshPort) = Kind_Identity"
  by (simp_all add: setting_spec_def)

lemma spec_writable_iff: "spec_writable (setting_spec k) \<longleftrightarrow> spec_kind (setting_spec k) \<noteq> Kind_Identity"
  by (simp add: setting_spec_def split: prod.splits)

lemma SecretRef_new_iff [result_simps]:
  "SecretRef_new i = Inr r \<longleftrightarrow> r = SecretRef i \<and> secret_ref_ok (SecretRef i)"
  by (auto simp: SecretRef_new_def not_less)

lemma parse_u16_Some:
  "parse_u16 raw = Some w \<longleftrightarrow>
     (\<exists>n. parse_unsigned 65535 raw = Some n \<and> n \<le> 65535 \<and> w = of_nat n \<and> unat w = n)"
proof
  assume "parse_u16 raw = Some w"
  then obtain n where n: "parse_unsigned 65535 raw = Some n" "w = of_nat n"
    by (auto simp: parse_u16_def)
  then have le: "n \<le> 65535" using parse_unsigned_bound by blast
  then have "unat w = n" using n(2) by (simp add: unat_of_nat take_bit_nat_eq_self)
  with n le show "\<exists>n. parse_unsigned 65535 raw = Some n \<and> n \<le> 65535 \<and> w = of_nat n \<and> unat w = n"
    by blast
qed (auto simp: parse_u16_def)

lemma parse_integer_Inr:
  "parse_integer p e raw = Inr v \<longleftrightarrow>
     raw \<noteq> [] \<and> list_all is_ascii_digit raw \<and> digits_value 0 raw \<le> 65535
     \<and> p (of_nat (digits_value 0 raw)) \<and> v = V_Integer (of_nat (digits_value 0 raw))"
proof (cases "list_all is_ascii_digit raw")
  case True
  then show ?thesis
    by (auto simp: parse_integer_def parse_u16_def parse_unsigned_digits)
next
  case False
  then show ?thesis
    by (auto simp: parse_integer_def split: option.splits)
qed

lemma u16_le_of_nat: "n \<le> 65535 \<Longrightarrow> m \<le> 65535 \<Longrightarrow> (of_nat n \<le> (of_nat m :: 16 word)) = (n \<le> m)"
  by (simp add: word_le_nat_alt unat_of_nat take_bit_nat_eq_self)

lemma parse_value_environment [result_simps]:
  "parse_value u (K_Environment n) raw = Inr v \<longleftrightarrow>
     v = V_Text raw \<and> text_ok u (K_Environment n) raw"
  by (auto simp: parse_value_def text_ok_def result_simps not_less split: if_splits)

lemma parse_value_typed:
  assumes "parse_value u k raw = Inr v"
  shows "value_typed u k v"
proof (cases k)
  case (K_Environment n)
  then show ?thesis using assms by (simp add: parse_value_environment value_typed_def)
qed (use assms in \<open>auto simp: parse_value_def value_typed_def parse_integer_Inr split: if_splits\<close>)

lemma default_typed: "spec_default (setting_spec k) = Some v \<Longrightarrow> value_typed u k v"
  by (cases k) (auto simp: setting_spec_def value_typed_def)

text \<open>C10: an integer setting accepts exactly the decimal numerals inside its range, and
  stores the number they denote: no sign, no overflow, no wrap-around.\<close>

theorem parse_value_integer_exact:
  "(parse_value u K_DisconnectGraceSeconds raw = Inr v \<longleftrightarrow>
     raw \<noteq> [] \<and> list_all is_ascii_digit raw \<and> length raw \<le> 32768
     \<and> digits_value 0 raw \<le> 3600
     \<and> (\<exists>w. v = V_Integer w \<and> unat w = digits_value 0 raw))
   \<and> (parse_value u K_ReconnectMaxAttempts raw = Inr v \<longleftrightarrow>
     raw \<noteq> [] \<and> list_all is_ascii_digit raw \<and> length raw \<le> 32768
     \<and> 0 < digits_value 0 raw \<and> digits_value 0 raw \<le> 65535
     \<and> (\<exists>w. v = V_Integer w \<and> unat w = digits_value 0 raw))"
proof (cases "digits_value 0 raw \<le> 65535")
  case True
  let ?w = "of_nat (digits_value 0 raw) :: 16 word"
  have nul: "list_all is_ascii_digit raw \<Longrightarrow> CHR 0x00 \<notin> set raw"
    by (auto simp: list_all_iff is_ascii_digit_def)
  have unat: "unat ?w = digits_value 0 raw"
    using True by (simp add: unat_of_nat take_bit_nat_eq_self)
  have conv: "(\<exists>w. v = V_Integer w \<and> unat w = digits_value 0 raw) \<longleftrightarrow> v = V_Integer ?w"
    by (metis unat word_unat_eq_iff)
  have "?w \<le> 3600 \<longleftrightarrow> digits_value 0 raw \<le> 3600" "0 < ?w \<longleftrightarrow> 0 < digits_value 0 raw"
    by (simp_all only: word_le_nat_alt word_less_nat_alt unat) simp_all
  then show ?thesis
    unfolding conv using nul True by (auto simp: parse_value_def parse_integer_Inr)
next
  case False
  then show ?thesis by (auto simp: parse_value_def parse_integer_Inr)
qed

end
