(* ===== verification/Config_Resolve.thy ===== *)
theory Config_Resolve
  imports Config_Layer
begin

text \<open>
  Models \<open>core/src/config/resolve.rs\<close>: the effective configuration of a server, its
  defaults overlaid with the saved layer, and the redacted views handed to people
  and to JSON output.
\<close>

datatype Source = Source_Default | Source_Server

record EffectiveSetting =
  effective_value :: ConfigValue
  effective_source :: Source

type_synonym EffectiveConfig = "(ConfigKey, EffectiveSetting) btree"

record SettingView =
  view_key :: string
  view_value :: "VisibleValue option"
  view_redacted :: bool
  view_source :: Source
  view_apply :: ApplyPolicy
  view_masked :: bool

definition config_get :: "EffectiveConfig \<Rightarrow> ConfigKey \<Rightarrow> ConfigValue option" where
  "config_get config key = map_option effective_value (bt_get config key)"

definition config_entries :: "EffectiveConfig \<Rightarrow> (ConfigKey \<times> ConfigValue) list" where
  "config_entries config = map (\<lambda>(key, entry). (key, effective_value entry)) config"

definition proxy_mode :: "EffectiveConfig \<Rightarrow> ProxyMode" where
  "proxy_mode config =
    (case config_get config K_ProxyMode of Some (V_ProxyMode mode) \<Rightarrow> mode | _ \<Rightarrow> Direct)"

definition is_proxy_address_key :: "ConfigKey \<Rightarrow> bool" where
  "is_proxy_address_key key = (case key of K_Environment name \<Rightarrow> is_proxy_address name | _ \<Rightarrow> False)"

definition default_settings :: EffectiveConfig where
  "default_settings =
    fold (\<lambda>key settings. case spec_default (setting_spec key) of
        None \<Rightarrow> settings
      | Some v \<Rightarrow> bt_insert key \<lparr> effective_value = v, effective_source = Source_Default \<rparr> settings)
      DEFAULT_KEYS []"

definition server_setting :: "StoredSetting \<Rightarrow> EffectiveSetting" where
  "server_setting setting =
    \<lparr> effective_value = stored_value setting, effective_source = Source_Server \<rparr>"

definition overlay :: "ConfigLayer \<Rightarrow> EffectiveConfig" where
  "overlay server =
    bt_insert_all (map (\<lambda>(key, setting). (key, server_setting setting)) server) default_settings"

definition config_resolve :: "ConfigLayer \<Rightarrow> ConfigError + EffectiveConfig" where
  "config_resolve server =
    (let config = overlay server in
     if proxy_mode config = Custom \<and> \<not> list_ex (\<lambda>(key, _). is_proxy_address_key key) config
     then Inl MissingCustomProxy else Inr config)"

definition is_proxy_key :: "ConfigKey \<Rightarrow> bool" where
  "is_proxy_key key = (case key of K_Environment name \<Rightarrow> is_proxy name | _ \<Rightarrow> False)"

definition is_secret :: "ConfigValue \<Rightarrow> bool" where
  "is_secret v = (case v of V_Secret _ \<Rightarrow> True | _ \<Rightarrow> False)"

definition setting_view :: "EffectiveConfig \<Rightarrow> ConfigKey \<Rightarrow> EffectiveSetting \<Rightarrow> SettingView" where
  "setting_view config key setting =
    \<lparr> view_key = ConfigKey_name key,
      view_value = visible (effective_value setting),
      view_redacted = is_secret (effective_value setting),
      view_source = effective_source setting,
      view_apply = spec_apply (setting_spec key),
      view_masked = (proxy_mode config = Direct \<and> is_proxy_key key) \<rparr>"

definition config_view :: "EffectiveConfig \<Rightarrow> ConfigKey \<Rightarrow> SettingView option" where
  "config_view config key = map_option (setting_view config key) (bt_get config key)"

definition config_list :: "EffectiveConfig \<Rightarrow> SettingView list" where
  "config_list config = map (\<lambda>(key, entry). setting_view config key entry) config"

lemma is_proxy_address_key_iff:
  "is_proxy_address_key k \<longleftrightarrow> (\<exists>n. k = K_Environment n \<and> is_proxy_address n)"
  by (cases k) (simp_all add: is_proxy_address_key_def)

lemma is_proxy_key_iff: "is_proxy_key k \<longleftrightarrow> (\<exists>n. k = K_Environment n \<and> is_proxy n)"
  by (cases k) (simp_all add: is_proxy_key_def)

lemma is_secret_iff: "is_secret v \<longleftrightarrow> (\<exists>r. v = V_Secret r)"
  by (cases v) (simp_all add: is_secret_def)

section \<open>Resolution\<close>

lemma default_settings_eval:
  "default_settings =
    [(K_Background, \<lparr> effective_value = V_Boolean True, effective_source = Source_Default \<rparr>),
     (K_DisconnectGraceSeconds, \<lparr> effective_value = V_Integer 30, effective_source = Source_Default \<rparr>),
     (K_ReconnectMaxAttempts, \<lparr> effective_value = V_Integer 10, effective_source = Source_Default \<rparr>),
     (K_ProxyMode, \<lparr> effective_value = V_ProxyMode Direct, effective_source = Source_Default \<rparr>),
     (K_ExecutionMode, \<lparr> effective_value = V_Text ''sandboxed'', effective_source = Source_Default \<rparr>)]"
  by code_simp

lemma default_settings_sorted: "bt_sorted default_settings"
  by code_simp

lemma bt_get_default_settings:
  "bt_get default_settings k =
    map_option (\<lambda>v. \<lparr> effective_value = v, effective_source = Source_Default \<rparr>)
      (spec_default (setting_spec k))"
  by (cases k) (simp_all add: default_settings_eval setting_spec_def)

lemma bt_get_map_value:
  "bt_get (map (\<lambda>(k, v). (k, f v)) m) k = map_option f (bt_get m k)"
  by (induction m) auto

lemma bt_sorted_map_value [simp]:
  "bt_sorted (map (\<lambda>(k, v). (k, f v)) m) = bt_sorted m"
  by (simp add: bt_sorted_def case_prod_beta comp_def)

text \<open>The abstract meaning of a key: the saved value, else the default.\<close>

definition effective :: "ConfigLayer \<Rightarrow> ConfigKey \<Rightarrow> ConfigValue option" where
  "effective layer k =
    (case layer_get layer k of Some v \<Rightarrow> Some v | None \<Rightarrow> spec_default (setting_spec k))"

lemma overlay_get:
  assumes "bt_sorted layer"
  shows "bt_get (overlay layer) k =
    (case bt_get layer k of
       Some s \<Rightarrow> Some (server_setting s)
     | None \<Rightarrow> map_option (\<lambda>v. \<lparr> effective_value = v, effective_source = Source_Default \<rparr>)
         (spec_default (setting_spec k)))"
  using assms
  by (auto simp: overlay_def bt_get_insert_all bt_get_map_value bt_get_default_settings
      split: option.splits)

lemma overlay_sorted: "bt_sorted (overlay layer)"
  by (simp add: overlay_def default_settings_sorted)

lemma resolve_Inr: "config_resolve layer = Inr config \<Longrightarrow> config = overlay layer"
  by (auto simp: config_resolve_def Let_def split: if_splits)

lemma resolve_get:
  assumes "bt_sorted layer" "config_resolve layer = Inr config"
  shows "bt_get config k =
    (case bt_get layer k of
       Some s \<Rightarrow> Some (server_setting s)
     | None \<Rightarrow> map_option (\<lambda>v. \<lparr> effective_value = v, effective_source = Source_Default \<rparr>)
         (spec_default (setting_spec k)))"
  using assms resolve_Inr overlay_get by metis

lemma resolve_sorted: "config_resolve layer = Inr config \<Longrightarrow> bt_sorted config"
  using overlay_sorted resolve_Inr by blast

lemma resolve_config_get:
  "bt_sorted layer \<Longrightarrow> config_resolve layer = Inr config \<Longrightarrow> config_get config k = effective layer k"
  by (auto simp: config_get_def effective_def layer_get_def resolve_get server_setting_def
      option.map_comp comp_def option.map_ident split: option.splits)

text \<open>C12: resolution overlays the saved layer on the defaults, keeps where every value
  came from, gives every key a value of its type, and fails exactly when the saved
  mode is custom and no proxy address is saved.\<close>

theorem config_resolve_correct:
  assumes ok: "layer_ok u layer"
  shows "(config_resolve layer = Inl MissingCustomProxy \<longleftrightarrow>
            layer_get layer K_ProxyMode = Some (V_ProxyMode Custom)
            \<and> (\<forall>n. is_proxy_address n \<longrightarrow> layer_get layer (K_Environment n) = None))
    \<and> (\<forall>config. config_resolve layer = Inr config \<longrightarrow>
        (\<forall>k. config_get config k = effective layer k
           \<and> (\<forall>s. bt_get config k = Some s \<longrightarrow>
                value_typed u k (effective_value s)
                \<and> (effective_source s = Source_Server \<longleftrightarrow> layer_get layer k \<noteq> None))))"
proof (intro conjI allI impI)
  let ?config = "overlay layer"
  have sorted: "bt_sorted layer" using ok by (rule layer_ok_sorted)
  note get = overlay_get [OF sorted]
  have mode: "proxy_mode ?config = Custom \<longleftrightarrow> layer_get layer K_ProxyMode = Some (V_ProxyMode Custom)"
    by (auto simp: proxy_mode_def config_get_def get layer_get_def server_setting_def setting_spec_def
        split: option.splits ConfigValue.splits)
  have addr: "list_ex (\<lambda>(key, _). is_proxy_address_key key) ?config \<longleftrightarrow>
      (\<exists>n. is_proxy_address n \<and> layer_get layer (K_Environment n) \<noteq> None)"
  proof -
    have "list_ex (\<lambda>(key, _). is_proxy_address_key key) ?config \<longleftrightarrow>
        (\<exists>k. is_proxy_address_key k \<and> bt_get ?config k \<noteq> None)"
      by (force simp: list_ex_iff bt_get_None_iff image_iff)
    also have "\<dots> \<longleftrightarrow> (\<exists>n. is_proxy_address n \<and> bt_get ?config (K_Environment n) \<noteq> None)"
      by (metis is_proxy_address_key_iff)
    finally show ?thesis
      by (auto simp: get layer_get_def setting_spec_def split: option.splits)
  qed
  show "config_resolve layer = Inl MissingCustomProxy \<longleftrightarrow>
      layer_get layer K_ProxyMode = Some (V_ProxyMode Custom)
      \<and> (\<forall>n. is_proxy_address n \<longrightarrow> layer_get layer (K_Environment n) = None)"
    unfolding config_resolve_def Let_def mode addr by auto
next
  fix config k
  assume *: "config_resolve layer = Inr config"
  have sorted: "bt_sorted layer" using ok by (rule layer_ok_sorted)
  show "config_get config k = effective layer k"
    using sorted * by (rule resolve_config_get)
  fix s assume s: "bt_get config k = Some s"
  show "value_typed u k (effective_value s)"
    using s resolve_get [OF sorted *, of k] layer_okD [OF ok]
    by (auto simp: server_setting_def entry_ok_def dest: default_typed split: option.splits)
  show "effective_source s = Source_Server \<longleftrightarrow> layer_get layer k \<noteq> None"
    using s resolve_get [OF sorted *, of k]
    by (auto simp: server_setting_def layer_get_def split: option.splits)
qed

lemma config_resolve_correct_witness:
  "config_resolve [(K_ProxyMode, \<lparr> spelling = ''proxy.mode'', stored_value = V_ProxyMode Custom \<rparr>)]
   = Inl MissingCustomProxy"
proof -
  let ?layer = "[(K_ProxyMode, \<lparr> spelling = ''proxy.mode'', stored_value = V_ProxyMode Custom \<rparr>)]"
  have "layer_ok (\<lambda>_. None) ?layer"
    by (simp add: layer_ok_def entry_ok_def value_typed_def not_plain_secret_def ConfigKey_parse_def)
  from config_resolve_correct [OF this] show ?thesis by (simp add: layer_get_def)
qed

section \<open>Redaction\<close>

text \<open>Two configurations that differ at most in which credential handle a secret
  setting holds.\<close>

definition same_but_secrets :: "EffectiveConfig \<Rightarrow> EffectiveConfig \<Rightarrow> bool" where
  "same_but_secrets = list_all2 (\<lambda>(k, s) (k', s'). k = k' \<and> effective_source s = effective_source s'
     \<and> (effective_value s = effective_value s'
        \<or> is_secret (effective_value s) \<and> is_secret (effective_value s')))"

lemma visible_None_iff: "visible v = None \<longleftrightarrow> is_secret v"
  by (cases v) (simp_all add: is_secret_def)

lemma secret_views:
  "a = b \<or> is_secret a \<and> is_secret b \<Longrightarrow> visible a = visible b \<and> is_secret a = is_secret b"
  by (metis visible_None_iff)

lemma same_but_secrets_mode:
  assumes "same_but_secrets c c'"
  shows "proxy_mode c = proxy_mode c'"
proof -
  have "(case config_get c k of Some (V_ProxyMode mode) \<Rightarrow> mode | _ \<Rightarrow> Direct)
      = (case config_get c' k of Some (V_ProxyMode mode) \<Rightarrow> mode | _ \<Rightarrow> Direct)" for k
    using assms unfolding same_but_secrets_def config_get_def
    by (induction rule: list_all2_induct) (auto simp: is_secret_def split: ConfigValue.splits)
  then show ?thesis by (simp add: proxy_mode_def)
qed

text \<open>C13: the views never depend on a credential handle. Configurations that differ
  only in the handles of their secrets give the same list, and an entry is shown
  without a value exactly when it is marked redacted.\<close>

theorem config_list_hides_secrets:
  assumes "same_but_secrets c c'"
  shows "config_list c = config_list c'
    \<and> (\<forall>v. v \<in> set (config_list c) \<longrightarrow> (view_value v = None \<longleftrightarrow> view_redacted v))"
proof
  have mode: "proxy_mode c = proxy_mode c'" using assms by (rule same_but_secrets_mode)
  have "list_all2 (\<lambda>a b. (case a of (k, e) \<Rightarrow> setting_view c k e) = (case b of (k, e) \<Rightarrow> setting_view c' k e)) c c'"
    using assms unfolding same_but_secrets_def
    by (rule list_all2_mono)
      (use secret_views in \<open>force simp: setting_view_def mode\<close>)
  then show "config_list c = config_list c'"
    unfolding config_list_def by (simp add: list_all2_conv_all_nth list_eq_iff_nth_eq)
  show "\<forall>v. v \<in> set (config_list c) \<longrightarrow> (view_value v = None \<longleftrightarrow> view_redacted v)"
    by (auto simp: config_list_def setting_view_def visible_None_iff)
qed

lemma config_list_hides_secrets_witness:
  "config_list [(K_Environment (EnvironmentName ''API_TOKEN''),
      \<lparr> effective_value = V_Secret (SecretRef ''a''), effective_source = Source_Server \<rparr>)]
   = config_list [(K_Environment (EnvironmentName ''API_TOKEN''),
      \<lparr> effective_value = V_Secret (SecretRef ''b''), effective_source = Source_Server \<rparr>)]"
  by (rule config_list_hides_secrets [THEN conjunct1]) (simp add: same_but_secrets_def is_secret_def)

end
