(* ===== verification/Config_Environment.thy ===== *)
theory Config_Environment
  imports Config_Resolve
begin

text \<open>
  Models \<open>core/src/config/environment.rs\<close>: the plan that turns a resolved
  configuration and the remote environment into the environment of a new process.
\<close>

instantiation EnvironmentName :: linorder
begin

definition less_eq_EnvironmentName :: "EnvironmentName \<Rightarrow> EnvironmentName \<Rightarrow> bool" where
  "less_eq_EnvironmentName a b \<longleftrightarrow> as_str a \<le> as_str b"

definition less_EnvironmentName :: "EnvironmentName \<Rightarrow> EnvironmentName \<Rightarrow> bool" where
  "less_EnvironmentName a b \<longleftrightarrow> as_str a < as_str b"

instance
proof
  fix a b c :: EnvironmentName
  show "a < b \<longleftrightarrow> a \<le> b \<and> \<not> b \<le> a"
    unfolding less_eq_EnvironmentName_def less_EnvironmentName_def by (rule less_le_not_le)
  show "a \<le> a"
    unfolding less_eq_EnvironmentName_def by (rule order.refl)
  show "a \<le> b \<Longrightarrow> b \<le> c \<Longrightarrow> a \<le> c"
    unfolding less_eq_EnvironmentName_def by (rule order.trans)
  show "a \<le> b \<Longrightarrow> b \<le> a \<Longrightarrow> a = b"
    unfolding less_eq_EnvironmentName_def by (metis as_str_inject order.antisym)
  show "a \<le> b \<or> b \<le> a"
    unfolding less_eq_EnvironmentName_def by (rule linear)
qed

end

record EnvironmentPlan =
  plan_remove :: "str set"
  plan_set :: "(str, ConfigValue) btree"

type_synonym proxies = "(EnvironmentName, ConfigValue) btree"

definition is_proxy_spelling :: "str \<Rightarrow> bool" where
  "is_proxy_spelling name \<longleftrightarrow> to_ascii_lowercase name \<in> set PROXY_NAMES"

definition removed_names :: "(str \<times> str) list \<Rightarrow> str set" where
  "removed_names remote =
    set PROXY_NAMES \<union> set (map to_ascii_uppercase PROXY_NAMES)
    \<union> set (filter is_proxy_spelling (map fst remote))"

text \<open>The loop over the remote environment in the inherit mode; a repeated alias with
  another value ends it.\<close>

fun inherit_proxies ::
  "url_parser \<Rightarrow> EffectiveConfig \<Rightarrow> (str \<times> str) list \<Rightarrow> proxies \<Rightarrow> ConfigError + proxies" where
  "inherit_proxies u config [] acc = Inr acc"
| "inherit_proxies u config ((raw_name, raw_value) # rest) acc =
    (if \<not> is_proxy_spelling raw_name then inherit_proxies u config rest acc
     else rbind (EnvironmentName_parse raw_name) (\<lambda>name.
       if config_get config (K_Environment name) \<noteq> None then inherit_proxies u config rest acc
       else rbind (if raw_value = [] then Inr (V_Text [])
                   else parse_value u (K_Environment name) raw_value) (\<lambda>v.
         if (case bt_get acc name of Some previous \<Rightarrow> previous \<noteq> v | None \<Rightarrow> False)
         then Inl ConflictingProxyAliases
         else inherit_proxies u config rest (bt_insert name v acc))))"

text \<open>The loop over the configured settings: proxy variables are collected unless the
  mode is direct, every other variable is set as it is.\<close>

fun configured_step ::
  "ProxyMode \<Rightarrow> ConfigKey \<times> EffectiveSetting \<Rightarrow> proxies \<times> (str, ConfigValue) btree
    \<Rightarrow> proxies \<times> (str, ConfigValue) btree" where
  "configured_step mode (K_Environment name, setting) (ps, vars) =
    (if is_proxy name then
       (if mode \<noteq> Direct then (bt_insert name (effective_value setting) ps, vars) else (ps, vars))
     else (ps, bt_insert (as_str name) (effective_value setting) vars))"
| "configured_step mode (_, setting) (ps, vars) = (ps, vars)"

definition both_casings ::
  "EnvironmentName \<times> ConfigValue \<Rightarrow> (str, ConfigValue) btree \<Rightarrow> (str, ConfigValue) btree" where
  "both_casings p vars =
    bt_insert (to_ascii_uppercase (as_str (fst p))) (snd p) (bt_insert (as_str (fst p)) (snd p) vars)"

definition plan_environment ::
  "url_parser \<Rightarrow> EffectiveConfig \<Rightarrow> (str \<times> str) list \<Rightarrow> ConfigError + EnvironmentPlan" where
  "plan_environment u config remote =
    (let mode = proxy_mode config in
     rbind (if mode = Inherit then inherit_proxies u config remote [] else Inr [])
       (\<lambda>inherited.
         let (ps, vars) = fold (configured_step mode) config (inherited, []) in
         Inr \<lparr> plan_remove = removed_names remote, plan_set = fold both_casings ps vars \<rparr>))"

section \<open>The proxy names\<close>

lemma PROXY_NAMES_lower: "x \<in> set PROXY_NAMES \<Longrightarrow> to_ascii_lowercase x = x"
  by (auto simp: PROXY_NAMES_def to_ascii_lowercase_def lower_byte_def is_ascii_uppercase_def)

lemma PROXY_NAMES_upper: "x \<in> set PROXY_NAMES \<Longrightarrow> to_ascii_uppercase x \<notin> set PROXY_NAMES"
proof -
  have "list_all (\<lambda>x. to_ascii_uppercase x \<notin> set PROXY_NAMES) PROXY_NAMES" by code_simp
  then show "x \<in> set PROXY_NAMES \<Longrightarrow> ?thesis" by (simp add: list_all_iff)
qed

lemma is_proxy_spelling_upper [simp]:
  "is_proxy_spelling (to_ascii_uppercase s) = is_proxy_spelling s"
  by (simp add: is_proxy_spelling_def)

lemma is_proxy_is_spelling: "is_proxy n \<Longrightarrow> is_proxy_spelling (as_str n)"
  by (simp add: is_proxy_def is_proxy_spelling_def PROXY_NAMES_lower)

lemma env_name_ok_spelling: "env_name_ok n \<Longrightarrow> is_proxy_spelling (as_str n) \<longleftrightarrow> is_proxy n"
  by (auto simp: env_name_ok_def is_proxy_def is_proxy_spelling_def PROXY_NAMES_lower)

lemma proxy_casings_inject:
  assumes "is_proxy n" "is_proxy m"
    and "x \<in> {as_str n, to_ascii_uppercase (as_str n)}"
    and "x \<in> {as_str m, to_ascii_uppercase (as_str m)}"
  shows "n = m"
proof -
  have "to_ascii_lowercase x = as_str k"
    if "is_proxy k" "x \<in> {as_str k, to_ascii_uppercase (as_str k)}" for k
    using that by (auto simp: is_proxy_def PROXY_NAMES_lower)
  from this [OF assms(1,3)] this [OF assms(2,4)] show ?thesis by (simp add: as_str_inject)
qed

section \<open>The loops\<close>

definition all_proxies :: "proxies \<Rightarrow> bool" where
  "all_proxies ps \<longleftrightarrow> bt_sorted ps \<and> (\<forall>n v. (n, v) \<in> set ps \<longrightarrow> is_proxy n)"

lemma all_proxies_insert: "all_proxies ps \<Longrightarrow> is_proxy n \<Longrightarrow> all_proxies (bt_insert n v ps)"
  by (auto simp: all_proxies_def bt_insert_set)

lemma parsed_spelling_is_proxy:
  "EnvironmentName_parse s = Inr n \<Longrightarrow> is_proxy_spelling s \<Longrightarrow> is_proxy n"
  by (simp add: EnvironmentName_parse_cases is_proxy_spelling_def is_proxy_def)

text \<open>One iteration keeps what was collected or adds an unconfigured proxy variable.\<close>

lemma inherit_proxies_step:
  assumes "inherit_proxies u config (p # rest) acc = Inr ps"
  shows "inherit_proxies u config rest acc = Inr ps
    \<or> (\<exists>n v. is_proxy n \<and> config_get config (K_Environment n) = None
         \<and> inherit_proxies u config rest (bt_insert n v acc) = Inr ps)"
proof -
  obtain raw_name raw_value where p: "p = (raw_name, raw_value)" by (cases p)
  show ?thesis
  proof (cases "is_proxy_spelling raw_name")
    case False
    then show ?thesis using assms p by simp
  next
    case True
    then obtain n where n: "EnvironmentName_parse raw_name = Inr n"
      using assms p by (auto simp: rbind_Inr_iff)
    then have "is_proxy n" using True by (rule parsed_spelling_is_proxy)
    then show ?thesis
      using assms p True n by (auto simp: rbind_Inr_iff split: if_split_asm)
  qed
qed

lemma all_proxies_Nil [simp]: "all_proxies []"
  by (simp add: all_proxies_def)

text \<open>Only proxy variables are inherited, and none that is configured.\<close>

lemma inherit_proxies_all:
  "inherit_proxies u config remote acc = Inr ps \<Longrightarrow> all_proxies acc \<Longrightarrow>
   (\<And>n. bt_get acc n \<noteq> None \<Longrightarrow> config_get config (K_Environment n) = None) \<Longrightarrow>
   all_proxies ps \<and> (\<forall>n. bt_get ps n \<noteq> None \<longrightarrow> config_get config (K_Environment n) = None)"
proof (induction remote arbitrary: acc)
  case Nil
  then show ?case by auto
next
  case (Cons p rest)
  from inherit_proxies_step [OF Cons.prems(1)] show ?case
  proof (elim disjE exE conjE)
    assume "inherit_proxies u config rest acc = Inr ps"
    then show ?case using Cons.IH Cons.prems(2,3) by blast
  next
    fix n v
    assume n: "is_proxy n" "config_get config (K_Environment n) = None"
      and rest: "inherit_proxies u config rest (bt_insert n v acc) = Inr ps"
    have "bt_get (bt_insert n v acc) x \<noteq> None \<Longrightarrow> config_get config (K_Environment x) = None" for x
      using n Cons.prems(3) by (auto split: if_splits)
    then show ?case
      using Cons.IH [OF rest all_proxies_insert [OF Cons.prems(2) n(1)]] by blast
  qed
qed

text \<open>The value a proxy variable has in an environment, under any spelling.\<close>

definition inherited_value :: "(str \<times> str) list \<Rightarrow> EnvironmentName \<Rightarrow> ConfigValue \<Rightarrow> bool" where
  "inherited_value remote n v \<longleftrightarrow>
    (\<exists>raw_name raw_value. (raw_name, raw_value) \<in> set remote \<and> to_ascii_lowercase raw_name = as_str n \<and> v = V_Text raw_value)"

lemma inherited_value_Cons:
  "inherited_value ((raw_name, raw_value) # rest) n v \<longleftrightarrow>
    (to_ascii_lowercase raw_name = as_str n \<and> v = V_Text raw_value) \<or> inherited_value rest n v"
  by (auto simp: inherited_value_def)

text \<open>The loop collects exactly those values, of the variables that are not configured.\<close>

lemma inherit_proxies_exact:
  assumes "inherit_proxies u config remote acc = Inr ps" "is_proxy n" "config_get config (K_Environment n) = None"
  shows "bt_get ps n = Some v \<longleftrightarrow> bt_get acc n = Some v \<or> inherited_value remote n v"
  using assms(1)
proof (induction remote arbitrary: acc)
  case Nil
  then show ?case by (simp add: inherited_value_def)
next
  case (Cons p rest)
  obtain raw_name raw_value where p: "p = (raw_name, raw_value)" by (cases p)
  show ?case
  proof (cases "is_proxy_spelling raw_name")
    case False
    then have "to_ascii_lowercase raw_name \<noteq> as_str n" using assms(2) by (auto simp: is_proxy_spelling_def is_proxy_def)
    then show ?thesis using Cons False p by (simp add: inherited_value_Cons)
  next
    case True
    then obtain m where m: "EnvironmentName_parse raw_name = Inr m"
      using Cons.prems p by (auto simp: rbind_Inr_iff)
    have low: "to_ascii_lowercase raw_name = as_str m"
      using m True by (auto simp: EnvironmentName_parse_cases is_proxy_spelling_def split: if_splits)
    show ?thesis
    proof (cases "config_get config (K_Environment m) = None")
      case False
      then have "m \<noteq> n" using assms(3) by auto
      then show ?thesis using Cons False True p m low by (simp add: inherited_value_Cons as_str_inject)
    next
      case free: True
      obtain v' where v': "(if raw_value = [] then Inr (V_Text []) else parse_value u (K_Environment m) raw_value) = Inr v'"
          "\<not> (case bt_get acc m of Some previous \<Rightarrow> previous \<noteq> v' | None \<Rightarrow> False)"
          "inherit_proxies u config rest (bt_insert m v' acc) = Inr ps"
        using Cons.prems p True m free by (auto simp: rbind_Inr_iff split: if_splits)
      have "v' = V_Text raw_value"
        using v'(1) by (auto simp: parse_value_def setting_spec_def rbind_Inr_iff split: if_splits)
      then show ?thesis using Cons.IH [OF v'(3)] v'(2) p low
        by (auto simp: inherited_value_Cons as_str_inject split: option.splits if_splits)
    qed
  qed
qed

text \<open>What the loop over the settings has collected.\<close>

lemma configured_fold:
  assumes "fold (configured_step mode) config (ps, vars) = (ps', vars')"
    and "bt_sorted config" "bt_sorted vars" "all_proxies ps"
  shows "all_proxies ps' \<and> bt_sorted vars'
    \<and> (\<forall>n. bt_get ps' n =
         (if is_proxy n \<and> mode \<noteq> Direct
          then (case bt_get config (K_Environment n) of
                  Some s \<Rightarrow> Some (effective_value s) | None \<Rightarrow> bt_get ps n)
          else bt_get ps n))
    \<and> (\<forall>x. bt_get vars' x =
         (if is_proxy (EnvironmentName x) then bt_get vars x
          else (case bt_get config (K_Environment (EnvironmentName x)) of
                  Some s \<Rightarrow> Some (effective_value s) | None \<Rightarrow> bt_get vars x)))"
  using assms
proof (induction config arbitrary: ps vars)
  case Nil
  then show ?case by auto
next
  case (Cons p config)
  obtain k s where p: "p = (k, s)" by (cases p)
  obtain ps1 vars1 where step: "configured_step mode (k, s) (ps, vars) = (ps1, vars1)" by fastforce
  have gone: "bt_get config k = None"
    using Cons.prems(2) p by (auto intro!: bt_get_NoneI)
  have sorted1: "bt_sorted config" "bt_sorted vars1" "all_proxies ps1"
    using Cons.prems step p
    by (cases k; auto split: if_splits intro: all_proxies_insert)+
  show ?case
    using Cons.IH [of ps1 vars1] Cons.prems(1) sorted1 p step gone
    by (cases k) (auto split: if_splits option.splits)
qed

lemma both_casings_get:
  "bt_get (both_casings (m, v) vars) x =
     (if x = as_str m \<or> x = to_ascii_uppercase (as_str m) then Some v else bt_get vars x)"
  by (simp add: both_casings_def)

lemma fold_casings_proxy:
  assumes "all_proxies ps" "is_proxy n" "x = as_str n \<or> x = to_ascii_uppercase (as_str n)"
  shows "bt_get (fold both_casings ps vars) x =
    (case bt_get ps n of Some v \<Rightarrow> Some v | None \<Rightarrow> bt_get vars x)"
  using assms
proof (induction ps arbitrary: vars)
  case Nil
  then show ?case by simp
next
  case (Cons p ps)
  obtain m v where p: "p = (m, v)" by (cases p)
  have m: "is_proxy m" "all_proxies ps" "n = m \<Longrightarrow> bt_get ps n = None"
    using Cons.prems(1) p by (auto simp: all_proxies_def intro!: bt_get_NoneI)
  have "x = as_str m \<or> x = to_ascii_uppercase (as_str m) \<longleftrightarrow> n = m"
    using proxy_casings_inject [OF Cons.prems(2) m(1), of x] Cons.prems(3) by auto
  then show ?case
    using Cons.IH [OF m(2) Cons.prems(2,3)] p m(3) by (auto simp: both_casings_get split: option.splits)
qed

lemma fold_casings_other:
  assumes "all_proxies ps"
    and "\<And>n. is_proxy n \<Longrightarrow> x \<noteq> as_str n \<and> x \<noteq> to_ascii_uppercase (as_str n)"
  shows "bt_get (fold both_casings ps vars) x = bt_get vars x"
  using assms
proof (induction ps arbitrary: vars)
  case Nil
  then show ?case by simp
next
  case (Cons p ps)
  obtain m v where p: "p = (m, v)" by (cases p)
  have "is_proxy m" "all_proxies ps" using Cons.prems(1) p by (auto simp: all_proxies_def)
  then show ?case using Cons.IH Cons.prems(2) p by (simp add: both_casings_get)
qed

lemma plan_environment_Inr:
  assumes "plan_environment u config remote = Inr plan" "bt_sorted config"
  obtains ps vars where
    "all_proxies ps" "plan_remove plan = removed_names remote"
    "plan_set plan = fold both_casings ps vars"
    "\<And>n v. is_proxy n \<Longrightarrow> proxy_mode config \<noteq> Direct \<Longrightarrow> config_get config (K_Environment n) = Some v
       \<Longrightarrow> bt_get ps n = Some v"
    "proxy_mode config = Direct \<Longrightarrow> ps = []"
    "\<And>n v. is_proxy n \<Longrightarrow> proxy_mode config \<noteq> Direct \<Longrightarrow> config_get config (K_Environment n) = None
       \<Longrightarrow> bt_get ps n = Some v \<longleftrightarrow> proxy_mode config = Inherit \<and> inherited_value remote n v"
    "\<And>x. bt_get vars x = (if is_proxy (EnvironmentName x) then None
        else config_get config (K_Environment (EnvironmentName x)))"
proof -
  obtain inherited where inh: "(if proxy_mode config = Inherit then inherit_proxies u config remote []
      else Inr []) = Inr inherited"
    using assms(1) by (auto simp: plan_environment_def Let_def rbind_Inr_iff)
  then have all: "all_proxies inherited"
    using inherit_proxies_all [of u config remote "[]" inherited] by (auto split: if_splits)
  obtain ps vars where fold: "fold (configured_step (proxy_mode config)) config (inherited, []) = (ps, vars)"
    by fastforce
  have plan: "plan = \<lparr> plan_remove = removed_names remote, plan_set = fold both_casings ps vars \<rparr>"
    using assms(1) inh fold by (simp add: plan_environment_def)
  have f: "all_proxies ps \<and> bt_sorted vars
    \<and> (\<forall>n. bt_get ps n =
         (if is_proxy n \<and> proxy_mode config \<noteq> Direct
          then (case bt_get config (K_Environment n) of
                  Some s \<Rightarrow> Some (effective_value s) | None \<Rightarrow> bt_get inherited n)
          else bt_get inherited n))
    \<and> (\<forall>x. bt_get vars x =
         (if is_proxy (EnvironmentName x) then bt_get [] x
          else (case bt_get config (K_Environment (EnvironmentName x)) of
                  Some s \<Rightarrow> Some (effective_value s) | None \<Rightarrow> bt_get [] x)))"
    using configured_fold [OF fold assms(2) _ all] by simp
  have direct: "ps = []" if "proxy_mode config = Direct"
  proof -
    have "inherited = []" using that inh by simp
    then have "\<And>n. bt_get ps n = bt_get [] n" using f that by simp
    then show ?thesis using f by (intro bt_ext) (auto simp: all_proxies_def)
  qed
  show thesis
  proof (rule that [of ps vars])
    show "bt_get ps n = Some v"
      if "is_proxy n" "proxy_mode config \<noteq> Direct" "config_get config (K_Environment n) = Some v" for n v
      using f that by (auto simp: config_get_def)
    show "bt_get ps n = Some v \<longleftrightarrow> proxy_mode config = Inherit \<and> inherited_value remote n v"
      if n: "is_proxy n" "proxy_mode config \<noteq> Direct" "config_get config (K_Environment n) = None" for n v
    proof -
      have "bt_get ps n = bt_get inherited n" using f n by (simp add: config_get_def)
      then show ?thesis using inh n(1,3) by (auto simp: inherit_proxies_exact split: if_splits)
    qed
    show "bt_get vars x = (if is_proxy (EnvironmentName x) then None
        else config_get config (K_Environment (EnvironmentName x)))" for x
      using f by (auto simp: config_get_def split: option.splits)
  qed (use f plan direct in simp_all)
qed

lemma proxy_not_reserved: "is_proxy n \<Longrightarrow> \<not> reserved_environment (as_str n)"
proof -
  have "list_all (\<lambda>x. \<not> reserved_environment x) PROXY_NAMES" by code_simp
  then show "is_proxy n \<Longrightarrow> ?thesis" by (simp add: list_all_iff is_proxy_def)
qed

lemma reserved_environment_upper [simp]:
  "reserved_environment (to_ascii_uppercase s) = reserved_environment s"
  by (simp add: reserved_environment_def)

lemma resolved_env_ok:
  assumes "layer_ok u layer" "config_resolve layer = Inr config"
    and "config_get config (K_Environment n) \<noteq> None"
  shows "env_name_ok n"
proof -
  have "effective layer (K_Environment n) \<noteq> None"
    using assms(3) resolve_config_get [OF layer_ok_sorted [OF assms(1)] assms(2)] by simp
  then obtain e where "bt_get layer (K_Environment n) = Some e"
    by (auto simp: effective_def layer_get_def setting_spec_def split: option.splits)
  then have "ConfigKey_parse (spelling e) = Inr (K_Environment n)"
    using assms(1) layer_okD entry_ok_def by blast
  then show ?thesis by (auto dest: parsed_key_ok)
qed

text \<open>Every lookup in the planned variables: a proxy variable's casings answer from the
  collected proxies, any other name from the configuration.\<close>

lemma plan_lookup:
  assumes ok: "layer_ok u layer" and res: "config_resolve layer = Inr config"
    and plan: "plan_environment u config remote = Inr plan"
  obtains ps where
    "plan_remove plan = removed_names remote"
    "\<And>n v. is_proxy n \<Longrightarrow> proxy_mode config \<noteq> Direct \<Longrightarrow>
        config_get config (K_Environment n) = Some v \<Longrightarrow> bt_get ps n = Some v"
    "proxy_mode config = Direct \<Longrightarrow> ps = []"
    "\<And>n v. is_proxy n \<Longrightarrow> proxy_mode config \<noteq> Direct \<Longrightarrow> config_get config (K_Environment n) = None
       \<Longrightarrow> bt_get ps n = Some v \<longleftrightarrow> proxy_mode config = Inherit \<and> inherited_value remote n v"
    "\<And>n x. is_proxy n \<Longrightarrow> x = as_str n \<or> x = to_ascii_uppercase (as_str n) \<Longrightarrow>
        bt_get (plan_set plan) x = bt_get ps n"
    "\<And>x. (\<And>n. is_proxy n \<Longrightarrow> x \<noteq> as_str n \<and> x \<noteq> to_ascii_uppercase (as_str n)) \<Longrightarrow>
        bt_get (plan_set plan) x = (if is_proxy_spelling x then None
          else config_get config (K_Environment (EnvironmentName x)))"
proof (rule plan_environment_Inr [OF plan resolve_sorted [OF res]])
  fix ps vars
  assume ps: "all_proxies ps" and rem: "plan_remove plan = removed_names remote"
    and set: "plan_set plan = fold both_casings ps vars"
    and configured: "\<And>n v. is_proxy n \<Longrightarrow> proxy_mode config \<noteq> Direct \<Longrightarrow>
        config_get config (K_Environment n) = Some v \<Longrightarrow> bt_get ps n = Some v"
    and direct: "proxy_mode config = Direct \<Longrightarrow> ps = []"
    and inherited: "\<And>n v. is_proxy n \<Longrightarrow> proxy_mode config \<noteq> Direct \<Longrightarrow> config_get config (K_Environment n) = None
       \<Longrightarrow> bt_get ps n = Some v \<longleftrightarrow> proxy_mode config = Inherit \<and> inherited_value remote n v"
    and vars: "\<And>x. bt_get vars x = (if is_proxy (EnvironmentName x) then None
        else config_get config (K_Environment (EnvironmentName x)))"
  have vars_None: "bt_get vars x = None" if "is_proxy_spelling x" for x
    using that vars [of x] resolved_env_ok [OF ok res, of "EnvironmentName x"]
      env_name_ok_spelling [of "EnvironmentName x"]
    by (cases "config_get config (K_Environment (EnvironmentName x))") auto
  show thesis
  proof (rule that [OF rem configured direct inherited])
    fix n x assume n: "is_proxy n" "x = as_str n \<or> x = to_ascii_uppercase (as_str n)"
    then have "bt_get vars x = None" using vars_None is_proxy_is_spelling by auto
    then show "bt_get (plan_set plan) x = bt_get ps n"
      using fold_casings_proxy [OF ps n] by (simp add: set split: option.splits)
  next
    fix x assume x: "\<And>n. is_proxy n \<Longrightarrow> x \<noteq> as_str n \<and> x \<noteq> to_ascii_uppercase (as_str n)"
    have "bt_get (plan_set plan) x = bt_get vars x"
      unfolding set by (rule fold_casings_other [OF ps x])
    moreover have "\<not> is_proxy (EnvironmentName x)" using x [of "EnvironmentName x"] by auto
    ultimately show "bt_get (plan_set plan) x = (if is_proxy_spelling x then None
          else config_get config (K_Environment (EnvironmentName x)))"
      using vars [of x] vars_None [of x] by (cases "is_proxy_spelling x") simp_all
  qed
qed

text \<open>C14: the plan of a saved configuration. It removes every inherited spelling of a
  proxy variable and nothing else; sets both casings of a proxy variable to one value,
  the configured one where there is one; where there is none, it sets in inherit mode exactly
  the value the remote environment has under any spelling, and nothing in custom mode; it
  sets no proxy variable in direct mode; passes
  every other configured variable through; and never touches a reserved name.\<close>

theorem plan_environment_correct:
  assumes ok: "layer_ok u layer" and res: "config_resolve layer = Inr config"
    and plan: "plan_environment u config remote = Inr plan"
  shows "(\<forall>x. x \<in> fst ` set remote \<and> is_proxy_spelling x \<longrightarrow> x \<in> plan_remove plan)
    \<and> (\<forall>x. x \<in> plan_remove plan \<longrightarrow> is_proxy_spelling x)
    \<and> (\<forall>n. is_proxy n \<longrightarrow>
         bt_get (plan_set plan) (as_str n) = bt_get (plan_set plan) (to_ascii_uppercase (as_str n))
         \<and> (proxy_mode config = Direct \<longrightarrow> bt_get (plan_set plan) (as_str n) = None)
         \<and> (proxy_mode config \<noteq> Direct \<and> config_get config (K_Environment n) \<noteq> None \<longrightarrow>
              bt_get (plan_set plan) (as_str n) = config_get config (K_Environment n))
         \<and> (proxy_mode config = Custom \<and> config_get config (K_Environment n) = None \<longrightarrow>
              bt_get (plan_set plan) (as_str n) = None)
         \<and> (proxy_mode config = Inherit \<and> config_get config (K_Environment n) = None \<longrightarrow>
              (\<forall>v. bt_get (plan_set plan) (as_str n) = Some v \<longleftrightarrow> inherited_value remote n v)))
    \<and> (\<forall>n. env_name_ok n \<and> \<not> is_proxy n \<longrightarrow>
         bt_get (plan_set plan) (as_str n) = config_get config (K_Environment n))
    \<and> (\<forall>x. bt_get (plan_set plan) x \<noteq> None \<longrightarrow> \<not> reserved_environment x)"
proof (rule plan_lookup [OF ok res plan])
  fix ps
  assume rem: "plan_remove plan = removed_names remote"
    and configured: "\<And>n v. is_proxy n \<Longrightarrow> proxy_mode config \<noteq> Direct \<Longrightarrow>
        config_get config (K_Environment n) = Some v \<Longrightarrow> bt_get ps n = Some v"
    and direct: "proxy_mode config = Direct \<Longrightarrow> ps = []"
    and inherited: "\<And>n v. is_proxy n \<Longrightarrow> proxy_mode config \<noteq> Direct \<Longrightarrow> config_get config (K_Environment n) = None
       \<Longrightarrow> bt_get ps n = Some v \<longleftrightarrow> proxy_mode config = Inherit \<and> inherited_value remote n v"
    and proxy: "\<And>n x. is_proxy n \<Longrightarrow> x = as_str n \<or> x = to_ascii_uppercase (as_str n) \<Longrightarrow>
        bt_get (plan_set plan) x = bt_get ps n"
    and other: "\<And>x. (\<And>n. is_proxy n \<Longrightarrow> x \<noteq> as_str n \<and> x \<noteq> to_ascii_uppercase (as_str n)) \<Longrightarrow>
        bt_get (plan_set plan) x = (if is_proxy_spelling x then None
          else config_get config (K_Environment (EnvironmentName x)))"
  have plain: "bt_get (plan_set plan) (as_str n) = config_get config (K_Environment n)"
    if "env_name_ok n" "\<not> is_proxy n" for n
    using other [of "as_str n"] that env_name_ok_spelling [of n] is_proxy_is_spelling by fastforce
  have custom: "bt_get ps n = None"
    if "is_proxy n" "proxy_mode config = Custom" "config_get config (K_Environment n) = None" for n
    using that inherited [of n] by (cases "bt_get ps n") auto
  have "\<not> reserved_environment x" if x: "bt_get (plan_set plan) x \<noteq> None" for x
  proof (cases "\<exists>n. is_proxy n \<and> (x = as_str n \<or> x = to_ascii_uppercase (as_str n))")
    case True
    then show ?thesis using proxy_not_reserved by auto
  next
    case False
    then have "config_get config (K_Environment (EnvironmentName x)) \<noteq> None"
      using x other [of x] by (auto split: if_splits)
    from resolved_env_ok [OF ok res this] show ?thesis by (simp add: env_name_ok_def)
  qed
  then show ?thesis
    using rem configured direct proxy plain custom
    by (auto simp: removed_names_def is_proxy_spelling_def PROXY_NAMES_lower inherited)
qed

lemma plan_environment_correct_witness:
  "\<exists>plan. plan_environment (\<lambda>_. None) default_settings [(''Http_Proxy'', ''x'')] = Inr plan
     \<and> ''Http_Proxy'' \<in> plan_remove plan"
proof -
  have res: "config_resolve [] = Inr default_settings" by code_simp
  obtain plan where plan: "plan_environment (\<lambda>_. None) default_settings [(''Http_Proxy'', ''x'')] = Inr plan"
    by (simp add: plan_environment_def default_settings_eval proxy_mode_def config_get_def)
  have "is_proxy_spelling ''Http_Proxy''" by code_simp
  then show ?thesis
    using plan plan_environment_correct [OF layer_ok_Nil res plan] by auto
qed

end
