(* ===== verification/Json.thy ===== *)
theory Json
  imports Prelude "HOL-Library.Word" "HOL-Library.Countable"
begin

text \<open>
  JSON values as \<open>serde_json::Value\<close> has them, with the accessors the program uses:
  indexing (\<open>v["k"]\<close> is null when the key or the object is missing), \<open>get\<close>,
  \<open>pointer\<close>, the \<open>as_\<close> conversions and assignment to a member.  The text form
  of a value belongs to serde\_json; the pair of functions that encode and decode it
  is a parameter of what stores or sends a value.
\<close>

datatype json =
  JNull
| JBool bool
| JInt int
| JFloat "64 word"
| JStr string
| JArr "json list"
| JObj "(string \<times> json) list"

instance json :: countable
  by countable_datatype

fun obj_get :: "(string \<times> json) list \<Rightarrow> string \<Rightarrow> json option" where
  "obj_get [] k = None"
| "obj_get ((k', v) # ps) k = (if k = k' then Some v else obj_get ps k)"

fun obj_put :: "string \<Rightarrow> json \<Rightarrow> (string \<times> json) list \<Rightarrow> (string \<times> json) list" where
  "obj_put k v [] = [(k, v)]"
| "obj_put k v ((k', v') # ps) = (if k = k' then (k, v) # ps else (k', v') # obj_put k v ps)"

fun json_get :: "json \<Rightarrow> string \<Rightarrow> json option" where
  "json_get (JObj ps) k = obj_get ps k"
| "json_get _ k = None"

definition json_index :: "json \<Rightarrow> string \<Rightarrow> json" where
  "json_index v k = (case json_get v k of Some w \<Rightarrow> w | None \<Rightarrow> JNull)"

text \<open>\<open>Value::pointer\<close> for a path of member names.\<close>

fun json_pointer :: "string list \<Rightarrow> json \<Rightarrow> json option" where
  "json_pointer [] v = Some v"
| "json_pointer (k # ks) v =
    (case json_get v k of None \<Rightarrow> None | Some w \<Rightarrow> json_pointer ks w)"

fun as_string :: "json \<Rightarrow> string option" where
  "as_string (JStr s) = Some s"
| "as_string _ = None"

fun as_array :: "json \<Rightarrow> json list option" where
  "as_array (JArr xs) = Some xs"
| "as_array _ = None"

fun as_object :: "json \<Rightarrow> (string \<times> json) list option" where
  "as_object (JObj ps) = Some ps"
| "as_object _ = None"

fun as_int :: "json \<Rightarrow> int option" where
  "as_int (JInt i) = (if - (2 ^ 63) \<le> i \<and> i < 2 ^ 63 then Some i else None)"
| "as_int _ = None"

fun as_bool :: "json \<Rightarrow> bool option" where
  "as_bool (JBool b) = Some b"
| "as_bool _ = None"

definition is_null :: "json \<Rightarrow> bool" where
  "is_null v \<longleftrightarrow> v = JNull"

text \<open>\<open>v["k"] = w\<close>: null becomes an object, another value panics in Rust; the program
  only assigns to objects, so the last case is never met and leaves the value.\<close>

fun json_put :: "string \<Rightarrow> json \<Rightarrow> json \<Rightarrow> json" where
  "json_put k w (JObj ps) = JObj (obj_put k w ps)"
| "json_put k w JNull = JObj [(k, w)]"
| "json_put k w v = v"

definition pointer_string :: "string list \<Rightarrow> json \<Rightarrow> string option" where
  "pointer_string ks v = Option.bind (json_pointer ks v) as_string"

lemma obj_get_put [simp]: "obj_get (obj_put k v ps) x = (if x = k then Some v else obj_get ps x)"
  by (induction ps) auto

lemma json_get_put [simp]:
  "json_get (json_put k w (JObj ps)) x = (if x = k then Some w else obj_get ps x)"
  by simp

lemma json_index_put [simp]:
  "json_index (JObj (obj_put k w ps)) x = (if x = k then w else json_index (JObj ps) x)"
  by (simp add: json_index_def)

lemma as_string_Some [simp]: "as_string v = Some s \<longleftrightarrow> v = JStr s"
  by (cases v) auto

lemma as_string_SomeR [simp]: "Some s = as_string v \<longleftrightarrow> v = JStr s"
  by (cases v) auto

lemma as_array_Some: "as_array v = Some xs \<longleftrightarrow> v = JArr xs"
  by (cases v) auto

lemma json_get_object: "json_get v k = Some w \<Longrightarrow> \<exists>ps. v = JObj ps"
  by (cases v) auto

section \<open>Text form and faults\<close>

text \<open>serde\_json's encoder and decoder.  \<open>serde_ok\<close> is the documented round trip of a
  value it produced; \<open>unary_serde\<close> is an instance.\<close>

record serde =
  to_text :: "json \<Rightarrow> string"
  from_text :: "string \<Rightarrow> json option"

definition serde_ok :: "serde \<Rightarrow> bool" where
  "serde_ok S \<longleftrightarrow> (\<forall>v. from_text S (to_text S v) = Some v)"

definition unary_serde :: serde where
  "unary_serde = \<lparr> to_text = (\<lambda>v. replicate (to_nat v) CHR ''x''),
     from_text = (\<lambda>s. Some (from_nat (length s))) \<rparr>"

lemma unary_serde_ok: "serde_ok unary_serde"
  by (simp add: serde_ok_def unary_serde_def)

text \<open>\<open>protocol::Fault\<close>: the error value of every remote operation.\<close>

record Fault =
  fault_code :: string
  fault_message :: string
  outcome_unknown :: bool

definition Fault_new :: "string \<Rightarrow> string \<Rightarrow> Fault" where
  "Fault_new c m = \<lparr> fault_code = c, fault_message = m, outcome_unknown = False \<rparr>"

definition Fault_unknown :: "string \<Rightarrow> Fault" where
  "Fault_unknown m =
    \<lparr> fault_code = ''OPERATION_OUTCOME_UNKNOWN'', fault_message = m, outcome_unknown = True \<rparr>"

text \<open>\<open>Display\<close> of a fault.\<close>

definition Fault_text :: "Fault \<Rightarrow> string" where
  "Fault_text f = fault_code f @ '': '' @ fault_message f"

end
