(* ===== verification/Effects.thy ===== *)
theory Effects
  imports Json
begin

text \<open>
  Effects: an action takes the state and returns a fault or a value together with the
  new state.  The state extends the record \<open>effects\<close>, whose \<open>trouble\<close> list is an
  oracle read by every call that can fail for reasons outside the program (storage,
  pipes): one element per call, \<open>True\<close> for a failure, and no failure once the list
  is used up.  A theorem for every state therefore covers a failure, or a crash that
  drops the rest of the handler, between any two calls.
\<close>

record effects =
  trouble :: "bool list"

type_synonym ('s, 'a) act = "'s \<Rightarrow> (Fault + 'a) \<times> 's"

named_theorems keeps_rules "an action keeps a predicate of the state"

definition ret :: "'a \<Rightarrow> ('s, 'a) act" where
  "ret x = (\<lambda>s. (Inr x, s))"

definition err :: "Fault \<Rightarrow> ('s, 'a) act" where
  "err f = (\<lambda>s. (Inl f, s))"

definition bnd :: "('s, 'a) act \<Rightarrow> ('a \<Rightarrow> ('s, 'b) act) \<Rightarrow> ('s, 'b) act" where
  "bnd m k = (\<lambda>s. case m s of (Inl f, s') \<Rightarrow> (Inl f, s') | (Inr x, s') \<Rightarrow> k x s')"

definition thn :: "('s, 'a) act \<Rightarrow> ('s, 'b) act \<Rightarrow> ('s, 'b) act" where
  "thn m k = bnd m (\<lambda>_. k)"

definition lift_result :: "Fault + 'a \<Rightarrow> ('s, 'a) act" where
  "lift_result r = (case r of Inl f \<Rightarrow> err f | Inr x \<Rightarrow> ret x)"

text \<open>\<open>let _ = action\<close>: the outcome is dropped.\<close>

definition ignoring :: "('s, 'a) act \<Rightarrow> ('s, unit) act" where
  "ignoring m = (\<lambda>s. (Inr (), snd (m s)))"

definition attempt :: "string \<Rightarrow> string \<Rightarrow> ('e effects_scheme, unit) act" where
  "attempt c m = (\<lambda>s. case trouble s of
      [] \<Rightarrow> (Inr (), s)
    | b # bs \<Rightarrow> (if b then Inl (Fault_new c m) else Inr (), s\<lparr> trouble := bs \<rparr>))"

text \<open>A pure read of the state that the outside may refuse, and a state change that is
  all or nothing.\<close>

definition reads :: "string \<Rightarrow> string \<Rightarrow> ('e effects_scheme \<Rightarrow> 'a) \<Rightarrow> ('e effects_scheme, 'a) act" where
  "reads c m f = thn (attempt c m) (\<lambda>s. (Inr (f s), s))"

definition writes ::
  "string \<Rightarrow> string \<Rightarrow> ('e effects_scheme \<Rightarrow> ('a \<times> 'e effects_scheme) option)
    \<Rightarrow> ('e effects_scheme, 'a) act" where
  "writes c m f = thn (attempt c m)
    (\<lambda>s. case f s of None \<Rightarrow> (Inl (Fault_new c m), s) | Some (x, s') \<Rightarrow> (Inr x, s'))"

lemma ret_simp [simp]: "ret x s = (Inr x, s)"
  by (simp add: ret_def)

lemma err_simp [simp]: "err f s = (Inl f, s)"
  by (simp add: err_def)

lemma bnd_ret [simp]: "bnd (ret x) k = k x"
  by (simp add: bnd_def ret_def)

lemma bnd_err [simp]: "bnd (err f) k = err f"
  by (simp add: bnd_def err_def fun_eq_iff)

lemma bnd_simp: "bnd m k s = (case m s of (Inl f, s') \<Rightarrow> (Inl f, s') | (Inr x, s') \<Rightarrow> k x s')"
  by (simp add: bnd_def)

lemma bnd_assoc: "bnd (bnd m k) l = bnd m (\<lambda>x. bnd (k x) l)"
  by (auto simp: bnd_def fun_eq_iff split: prod.splits sum.splits)

lemma bnd_Inr:
  "bnd m k s = (Inr y, s') \<longleftrightarrow> (\<exists>x s1. m s = (Inr x, s1) \<and> k x s1 = (Inr y, s'))"
  by (auto simp: bnd_def split: prod.splits sum.splits)

lemma thn_Inr:
  "thn m k s = (Inr y, s') \<longleftrightarrow> (\<exists>x s1. m s = (Inr x, s1) \<and> k s1 = (Inr y, s'))"
  by (simp add: thn_def bnd_Inr)

lemma attempt_calm [simp]: "trouble s = [] \<Longrightarrow> attempt c m s = (Inr (), s)"
  by (simp add: attempt_def)

lemma attempt_Inr: "attempt c m s = (Inr x, s') \<Longrightarrow> \<exists>t. s' = s\<lparr> trouble := t \<rparr>"
  by (auto simp: attempt_def split: list.splits if_splits) (metis surjective effects.update_convs(1))

section \<open>Preservation\<close>

text \<open>\<open>keeps P m\<close>: an action leaves a predicate true whatever its outcome; \<open>stable P\<close>
  says the failure oracle does not matter to \<open>P\<close>.\<close>

definition keeps :: "('s \<Rightarrow> bool) \<Rightarrow> ('s, 'a) act \<Rightarrow> bool" where
  "keeps P m \<longleftrightarrow> (\<forall>s. P s \<longrightarrow> P (snd (m s)))"

definition stable :: "('e effects_scheme \<Rightarrow> bool) \<Rightarrow> bool" where
  "stable P \<longleftrightarrow> (\<forall>s t. P (s\<lparr> trouble := t \<rparr>) = P s)"

lemma keepsD: "keeps P m \<Longrightarrow> P s \<Longrightarrow> m s = (r, s') \<Longrightarrow> P s'"
  by (metis keeps_def snd_conv)

lemma keeps_ret [keeps_rules]: "keeps P (ret x)"
  by (simp add: keeps_def)

lemma keeps_err [keeps_rules]: "keeps P (err f)"
  by (simp add: keeps_def)

lemma keeps_bnd [keeps_rules]: "keeps P m \<Longrightarrow> (\<And>x. keeps P (k x)) \<Longrightarrow> keeps P (bnd m k)"
  unfolding keeps_def bnd_def
  by (auto split: prod.splits sum.splits; metis snd_conv)

lemma keeps_thn [keeps_rules]: "keeps P m \<Longrightarrow> keeps P k \<Longrightarrow> keeps P (thn m k)"
  unfolding thn_def by (rule keeps_bnd)

lemma keeps_lift [keeps_rules]: "keeps P (lift_result r)"
  by (simp add: lift_result_def keeps_def split: sum.splits)

lemma keeps_ignoring [keeps_rules]: "keeps P m \<Longrightarrow> keeps P (ignoring m)"
  by (simp add: keeps_def ignoring_def)

lemma keeps_attempt [keeps_rules]: "stable P \<Longrightarrow> keeps P (attempt c m)"
  by (auto simp: keeps_def stable_def attempt_def split: list.splits)

lemma keeps_reads [keeps_rules]: "stable P \<Longrightarrow> keeps P (reads c m f)"
  unfolding reads_def by (intro keeps_thn keeps_attempt) (simp_all add: keeps_def)

lemma keeps_writes:
  assumes "stable P" "\<And>s x s'. P s \<Longrightarrow> f s = Some (x, s') \<Longrightarrow> P s'"
  shows "keeps P (writes c m f)"
  unfolding writes_def
  by (intro keeps_thn keeps_attempt assms(1))
    (use assms(2) in \<open>auto simp: keeps_def split: option.splits\<close>)

lemma keeps_if [keeps_rules]:
  "(b \<Longrightarrow> keeps P m) \<Longrightarrow> (\<not> b \<Longrightarrow> keeps P m') \<Longrightarrow> keeps P (if b then m else m')"
  by simp

lemma keeps_option [keeps_rules]:
  "keeps P m \<Longrightarrow> (\<And>x. keeps P (k x)) \<Longrightarrow> keeps P (case v of None \<Rightarrow> m | Some x \<Rightarrow> k x)"
  by (cases v) simp_all

lemma keeps_sum [keeps_rules]:
  "(\<And>x. keeps P (m x)) \<Longrightarrow> (\<And>x. keeps P (k x)) \<Longrightarrow> keeps P (case v of Inl x \<Rightarrow> m x | Inr x \<Rightarrow> k x)"
  by (cases v) simp_all

lemma keeps_prod [keeps_rules]:
  "(\<And>x y. keeps P (k x y)) \<Longrightarrow> keeps P (case v of (x, y) \<Rightarrow> k x y)"
  by (cases v) simp

text \<open>A loop over a list, ended by the first fault.\<close>

primrec each :: "('a \<Rightarrow> ('s, unit) act) \<Rightarrow> 'a list \<Rightarrow> ('s, unit) act" where
  "each f [] = ret ()"
| "each f (x # xs) = thn (f x) (each f xs)"

lemma keeps_each [keeps_rules]: "(\<And>x. keeps P (f x)) \<Longrightarrow> keeps P (each f xs)"
  by (induction xs) (simp_all add: keeps_ret keeps_thn)

section \<open>Transactions\<close>

text \<open>A transaction over the part of the state \<open>get\<close> reads and \<open>put\<close> writes: an error of
  the body, or of the commit, rolls that part back.\<close>

definition transaction ::
  "string \<Rightarrow> string \<Rightarrow> string \<Rightarrow> ('e effects_scheme \<Rightarrow> 'd) \<Rightarrow> ('d \<Rightarrow> 'e effects_scheme \<Rightarrow> 'e effects_scheme)
    \<Rightarrow> ('e effects_scheme, 'a) act \<Rightarrow> ('e effects_scheme, 'a) act" where
  "transaction c begin_text commit_text get put body =
    thn (attempt c begin_text)
      (\<lambda>s. case bnd body (\<lambda>x. thn (attempt c commit_text) (ret x)) s of
             (Inl f, s') \<Rightarrow> (Inl f, put (get s) s')
           | (Inr x, s') \<Rightarrow> (Inr x, s'))"

lemma keeps_transaction:
  assumes "stable P" "keeps P body"
    and "\<And>s s'. P s \<Longrightarrow> P s' \<Longrightarrow> P (put (get s) s')"
  shows "keeps P (transaction c b e get put body)"
proof -
  have "keeps P (bnd body (\<lambda>x. thn (attempt c e) (ret x)))"
    by (intro keeps_rules assms)
  then show ?thesis
    unfolding transaction_def
    by (intro keeps_thn keeps_attempt assms(1))
      (auto simp: keeps_def assms(3) split: prod.splits sum.splits; metis snd_conv assms(3))
qed

end
