(* ===== verification/Server_State.thy ===== *)
theory Server_State
  imports Effects Ordered_Map
begin

text \<open>
  The state of the remote execution service: the tables of \<open>storage/schema.sql\<close> as
  lists of rows in row-id order, the number of identities drawn, and what has been
  written to the executor.  SQL statements become functions on the tables; each one
  consults the failure oracle, and a statement outside a transaction is atomic.
\<close>

record profile_row =
  pr_id :: string
  pr_config :: string
  pr_revision :: int

record op_row =
  op_id :: string
  op_digest :: string
  op_result :: "string option"
  op_cursor :: "int option"

record channel_row =
  ch_id :: string
  ch_profile :: string
  ch_revision :: int
  ch_state :: string
  ch_created :: int
  ch_bytes :: int
  ch_floor :: int
  ch_instance :: string
  ch_boot :: string
  ch_lost :: "string option"

record event_row =
  ev_cursor :: int
  ev_channel :: string
  ev_record :: string

record job_row =
  job_id :: string
  job_process :: string
  job_kind :: string
  job_profile :: string
  job_channel :: string
  job_thread :: "string option"
  job_cwd :: string
  job_state :: string
  job_exit :: "int option"
  job_created :: int
  job_updated :: int
  job_bytes :: int
  job_truncated :: bool

record output_row =
  out_cursor :: int
  out_job :: string
  out_record :: string

text \<open>\<open>protocol::SessionPermissions\<close> and \<open>protocol::CommandApproval\<close>.\<close>

record SessionPermissions =
  perm_id :: string
  perm_channel :: string
  perm_thread :: string

record CommandApproval =
  appr_id :: string
  appr_channel :: string
  appr_thread :: string
  appr_turn :: string
  appr_item :: string
  appr_argv :: "string list"
  appr_cwd :: string

record approval_row =
  ap_id :: string
  ap_channel :: string
  ap_thread :: string
  ap_turn :: string
  ap_item :: string
  ap_argv :: string
  ap_cwd :: string

text \<open>\<open>event_seq\<close> and \<open>output_seq\<close> are SQLite's AUTOINCREMENT counters: the largest
  cursor ever given, which deletions never lower.\<close>

record db =
  application_id :: int
  user_version :: int
  db_identity :: "string option"
  profiles :: "profile_row list"
  operations :: "op_row list"
  channels :: "channel_row list"
  events :: "event_row list"
  event_seq :: int
  jobs :: "job_row list"
  outputs :: "output_row list"
  output_seq :: int
  approvals :: "approval_row list"
  permissions :: "SessionPermissions list"
  now :: int

text \<open>\<open>operations::Pending\<close>: what an actor keeps of a request until its response.\<close>

record Pending =
  pd_original :: json
  pd_job :: "string option"

text \<open>\<open>pending\<close> is the table of every channel's actor; \<open>sent\<close> is the history of what
  was written to the executors: the channel, the operation it was written for (none
  for the actor's own clean-up) and the message.\<close>

record server = effects +
  sdb :: db
  drawn :: nat
  pending :: "string \<Rightarrow> (string, Pending) btree"
  sent :: "(string \<times> string option \<times> json) list"

text \<open>\<open>storage::Store\<close>: the identities the handle carries.\<close>

record Store =
  st_identity :: string
  st_instance :: string
  st_boot :: string

lemma server_update_order [simp]:
  fixes s :: server
  shows "s\<lparr> sdb := d, trouble := t \<rparr> = s\<lparr> trouble := t, sdb := d \<rparr>"
    and "s\<lparr> pending := p, trouble := t \<rparr> = s\<lparr> trouble := t, pending := p \<rparr>"
    and "s\<lparr> sent := l, trouble := t \<rparr> = s\<lparr> trouble := t, sent := l \<rparr>"
    and "s\<lparr> drawn := n, trouble := t \<rparr> = s\<lparr> trouble := t, drawn := n \<rparr>"
  by (cases s; simp)+

section \<open>Statements\<close>

definition query :: "string \<Rightarrow> string \<Rightarrow> (db \<Rightarrow> 'a) \<Rightarrow> (server, 'a) act" where
  "query c m f = reads c m (\<lambda>s. f (sdb s))"

text \<open>A statement that changes rows; \<open>None\<close> is a violated constraint.\<close>

definition execute :: "string \<Rightarrow> string \<Rightarrow> (db \<Rightarrow> ('a \<times> db) option) \<Rightarrow> (server, 'a) act" where
  "execute c m f = writes c m (\<lambda>s. case f (sdb s) of
      None \<Rightarrow> None | Some (x, d) \<Rightarrow> Some (x, s\<lparr> sdb := d \<rparr>))"

definition update :: "string \<Rightarrow> string \<Rightarrow> (db \<Rightarrow> db) \<Rightarrow> (server, unit) act" where
  "update c m f = execute c m (\<lambda>d. Some ((), f d))"

text \<open>\<open>BEGIN ... COMMIT\<close>; every error drops the transaction, which rolls back.\<close>

definition atomically ::
  "string \<Rightarrow> string \<Rightarrow> string \<Rightarrow> (server, 'a) act \<Rightarrow> (server, 'a) act" where
  "atomically c begin_text commit_text body =
    transaction c begin_text commit_text sdb (\<lambda>d s. s\<lparr> sdb := d \<rparr>) body"

definition fresh_uuid :: "(nat \<Rightarrow> string) \<Rightarrow> (server, string) act" where
  "fresh_uuid uuid = (\<lambda>s. (Inr (uuid (drawn s)), s\<lparr> drawn := Suc (drawn s) \<rparr>))"

text \<open>\<open>Executor::send\<close> of \<open>codex-adapter/src/executor.rs\<close>: a failed write may or may not have reached the executor; the
  second oracle bit says which.\<close>

definition Executor_send :: "string \<Rightarrow> string option \<Rightarrow> json \<Rightarrow> (server, unit) act" where
  "Executor_send channel operation v = (\<lambda>s.
    let written = s\<lparr> sent := sent s @ [(channel, operation, v)] \<rparr>;
        closed = Fault_unknown ''native execution transport closed'' in
    case trouble s of
      [] \<Rightarrow> (Inr (), written)
    | False # bs \<Rightarrow> (Inr (), written\<lparr> trouble := bs \<rparr>)
    | [True] \<Rightarrow> (Inl closed, s\<lparr> trouble := [] \<rparr>)
    | True # w # bs \<Rightarrow> (Inl closed, (if w then written else s)\<lparr> trouble := bs \<rparr>))"

definition pending_insert :: "string \<Rightarrow> string \<Rightarrow> Pending \<Rightarrow> (server, unit) act" where
  "pending_insert channel operation p = (\<lambda>s. (Inr (),
    s\<lparr> pending := (pending s)(channel := bt_insert operation p (pending s channel)) \<rparr>))"

definition pending_remove :: "string \<Rightarrow> string \<Rightarrow> (server, Pending option) act" where
  "pending_remove channel operation = (\<lambda>s. (Inr (bt_get (pending s channel) operation),
    s\<lparr> pending := (pending s)(channel := bt_remove operation (pending s channel)) \<rparr>))"

text \<open>A predicate of the tables alone, and of the executor's input alone.\<close>

definition on_db :: "(db \<Rightarrow> bool) \<Rightarrow> server \<Rightarrow> bool" where
  "on_db P s \<longleftrightarrow> P (sdb s)"

definition on_sent :: "((string \<times> string option \<times> json) list \<Rightarrow> bool) \<Rightarrow> server \<Rightarrow> bool" where
  "on_sent P s \<longleftrightarrow> P (sent s)"

lemma stable_on_db [simp, keeps_rules]: "stable (on_db P)"
  by (simp add: stable_def on_db_def)

lemma stable_on_sent [simp, keeps_rules]: "stable (on_sent P)"
  by (simp add: stable_def on_sent_def)

lemma keeps_query [keeps_rules]: "stable P \<Longrightarrow> keeps P (query c m f)"
  unfolding query_def by (rule keeps_reads)

lemma keeps_execute:
  "(\<And>d x d'. P d \<Longrightarrow> f d = Some (x, d') \<Longrightarrow> P d') \<Longrightarrow> keeps (on_db P) (execute c m f)"
  unfolding execute_def
  by (rule keeps_writes) (auto simp: on_db_def split: option.splits prod.splits)

lemma keeps_update: "(\<And>d. P d \<Longrightarrow> P (f d)) \<Longrightarrow> keeps (on_db P) (update c m f)"
  unfolding update_def by (rule keeps_execute) auto

lemma keeps_atomically [keeps_rules]:
  "keeps (on_db P) body \<Longrightarrow> keeps (on_db P) (atomically c b e body)"
  unfolding atomically_def by (rule keeps_transaction) (simp_all add: on_db_def)

lemma keeps_fresh [keeps_rules]: "keeps (on_db P) (fresh_uuid u)"
  by (simp add: keeps_def fresh_uuid_def on_db_def)

lemma keeps_send [keeps_rules]: "keeps (on_db P) (Executor_send c t v)"
  by (auto simp: keeps_def Executor_send_def on_db_def Let_def split: list.splits bool.splits)

lemma keeps_pending [keeps_rules]:
  "keeps (on_db P) (pending_insert c t p)" "keeps (on_db P) (pending_remove c t)"
  "keeps (on_sent Q) (pending_insert c t p)" "keeps (on_sent Q) (pending_remove c t)"
  by (simp_all add: keeps_def on_db_def on_sent_def pending_insert_def pending_remove_def)

lemma sent_execute [keeps_rules]: "keeps (on_sent P) (execute c m f)"
  unfolding execute_def
  by (rule keeps_writes) (auto simp: on_sent_def split: option.splits prod.splits)

lemma sent_update [keeps_rules]: "keeps (on_sent P) (update c m f)"
  unfolding update_def by (rule sent_execute)

lemma sent_fresh [keeps_rules]: "keeps (on_sent P) (fresh_uuid u)"
  by (simp add: keeps_def fresh_uuid_def on_sent_def)

lemma sent_atomically [keeps_rules]:
  "keeps (on_sent P) body \<Longrightarrow> keeps (on_sent P) (atomically c b e body)"
  unfolding atomically_def by (rule keeps_transaction) (simp_all add: on_sent_def)

end
