(* ===== verification/Server_Store.thy ===== *)
theory Server_Store
  imports Server_State
begin

text \<open>
  Models \<open>server/src/storage.rs\<close> and \<open>server/src/storage/{execution,retention,recovery}.rs\<close>:
  opening and migrating the database, saved configurations, the operation log, the
  execution channels and their bounded replay log, one definition per method, with
  the SQL statements as functions on the tables.
\<close>

definition map_where :: "('r \<Rightarrow> bool) \<Rightarrow> ('r \<Rightarrow> 'r) \<Rightarrow> 'r list \<Rightarrow> 'r list" where
  "map_where p f rows = map (\<lambda>r. if p r then f r else r) rows"

lemma map_where_simps [simp]:
  "map_where p f [] = []"
  "map_where p f (r # rs) = (if p r then f r else r) # map_where p f rs"
  by (simp_all add: map_where_def)

lemma set_map_where: "set (map_where p f rs) = (\<lambda>r. if p r then f r else r) ` set rs"
  by (simp add: map_where_def)

lemma find_map_where:
  "(\<And>r. p r \<Longrightarrow> p (f r)) \<Longrightarrow> find p (map_where p f rs) = map_option f (find p rs)"
  by (induction rs) auto

lemma find_map_where_other:
  "(\<And>r. p r \<Longrightarrow> \<not> q r) \<Longrightarrow> (\<And>r. p r \<Longrightarrow> \<not> q (f r)) \<Longrightarrow> find q (map_where p f rs) = find q rs"
  by (induction rs) auto

lemma map_where_map: "(\<And>r. g (f r) = g r) \<Longrightarrow> map g (map_where p f rs) = map g rs"
  by (simp add: map_where_def)

lemma length_map_where [simp]: "length (map_where p f rs) = length rs"
  by (simp add: map_where_def)

text \<open>\<open>substr(id,1,instr(id,'/')-1)\<close>: what precedes the first slash; empty without one.\<close>

definition op_prefix :: "string \<Rightarrow> string" where
  "op_prefix i = (case split_once ''/'' i of None \<Rightarrow> [] | Some (p, _) \<Rightarrow> p)"

section \<open>Saved configuration\<close>

record RemoteConfig =
  rc_values :: "(string, string) btree"
  rc_revision :: int

definition config_to_json :: "RemoteConfig \<Rightarrow> json" where
  "config_to_json c = JObj [(''values'', JObj (map (\<lambda>(k, v). (k, JStr v)) (rc_values c))),
     (''revision'', JInt (rc_revision c))]"

fun string_members :: "(string \<times> json) list \<Rightarrow> (string, string) btree \<Rightarrow> (string, string) btree option" where
  "string_members [] m = Some m"
| "string_members ((k, v) # ps) m =
    (case as_string v of None \<Rightarrow> None | Some t \<Rightarrow> string_members ps (bt_insert k t m))"

text \<open>The derived decoder: both members, no other (\<open>deny_unknown_fields\<close>).\<close>

definition config_of_json :: "json \<Rightarrow> RemoteConfig option" where
  "config_of_json v =
    (case as_object v of
       None \<Rightarrow> None
     | Some ps \<Rightarrow>
         if \<not> list_all (\<lambda>(k, _). k \<in> {''values'', ''revision''}) ps then None
         else Option.bind (Option.bind (obj_get ps ''values'') as_object) (\<lambda>vs.
           Option.bind (Option.bind (obj_get ps ''revision'') as_int) (\<lambda>r.
           Option.bind (string_members vs []) (\<lambda>m.
             Some \<lparr> rc_values = m, rc_revision = r \<rparr>))))"

text \<open>The upsert keeps the row unless the new revision is newer, or the same with the
  same text; it reports whether a row changed.\<close>

fun upsert_profile :: "profile_row \<Rightarrow> profile_row list \<Rightarrow> bool \<times> profile_row list" where
  "upsert_profile new [] = (True, [new])"
| "upsert_profile new (r # rs) =
    (if pr_id r = pr_id new then
       (if pr_revision new > pr_revision r
           \<or> (pr_revision new = pr_revision r \<and> pr_config new = pr_config r)
        then (True, new # rs) else (False, r # rs))
     else (case upsert_profile new rs of (b, rs') \<Rightarrow> (b, r # rs')))"

definition save_config :: "serde \<Rightarrow> string \<Rightarrow> RemoteConfig \<Rightarrow> (server, unit) act" where
  "save_config S profile config =
    bnd (execute ''STORAGE_ERROR'' ''cannot persist remote configuration''
      (\<lambda>d. let (changed, ps) = upsert_profile
             \<lparr> pr_id = profile, pr_config = to_text S (config_to_json config),
               pr_revision = rc_revision config \<rparr> (profiles d)
           in Some (changed, d\<lparr> profiles := ps \<rparr>)))
    (\<lambda>changed. if changed then ret ()
       else err (Fault_new ''REVISION_CONFLICT''
         ''configuration revision is stale or conflicts with saved values''))"

definition load_config :: "serde \<Rightarrow> string \<Rightarrow> (server, RemoteConfig) act" where
  "load_config S profile =
    bnd (query ''STORAGE_ERROR'' ''cannot read remote configuration''
      (\<lambda>d. map_option pr_config (find (\<lambda>r. pr_id r = profile) (profiles d))))
    (\<lambda>encoded. case encoded of
       None \<Rightarrow> err (Fault_new ''CONFIG_REQUIRED'' ''server configuration must be synchronized'')
     | Some text \<Rightarrow>
         (case Option.bind (from_text S text) config_of_json of
            None \<Rightarrow> err (Fault_new ''INVALID_CONFIG'' ''invalid saved remote configuration'')
          | Some c \<Rightarrow> ret c))"

section \<open>Operations\<close>

definition find_operation :: "string \<Rightarrow> db \<Rightarrow> op_row option" where
  "find_operation i d = find (\<lambda>r. op_id r = i) (operations d)"

text \<open>\<open>serde_json::from_str\<close> of a stored text, with the error the caller maps it to.\<close>

definition decode_text :: "serde \<Rightarrow> string \<Rightarrow> string \<Rightarrow> string \<Rightarrow> (server, json) act" where
  "decode_text S c m text =
    (case from_text S text of None \<Rightarrow> err (Fault_new c m) | Some v \<Rightarrow> ret v)"

definition begin_existing :: "serde \<Rightarrow> string \<Rightarrow> op_row \<Rightarrow> (server, json option) act" where
  "begin_existing S digest r =
    (if op_digest r \<noteq> digest
     then err (Fault_new ''REQUEST_CONFLICT'' ''request ID was already used with different arguments'')
     else (case op_result r of
         Some text \<Rightarrow>
           bnd (decode_text S ''STORAGE_ERROR'' ''invalid stored operation result'' text)
             (\<lambda>v. ret (Some v))
       | None \<Rightarrow> err (Fault_unknown
           ''previous operation was dispatched; inspect remote jobs before retrying'')))"

definition begin_operation :: "serde \<Rightarrow> string \<Rightarrow> string \<Rightarrow> (server, json option) act" where
  "begin_operation S i digest =
    atomically ''STORAGE_ERROR'' ''cannot record operation'' ''cannot persist operation intent''
      (bnd (query ''STORAGE_ERROR'' ''cannot inspect operation'' (find_operation i))
      (\<lambda>existing. case existing of
         Some r \<Rightarrow> begin_existing S digest r
       | None \<Rightarrow>
           thn (update ''STORAGE_ERROR'' ''cannot persist operation intent''
             (\<lambda>d. d\<lparr> operations := operations d @
               [\<lparr> op_id = i, op_digest = digest, op_result = None, op_cursor = None \<rparr>] \<rparr>))
           (ret None)))"

definition complete_operation :: "serde \<Rightarrow> string \<Rightarrow> json \<Rightarrow> (server, unit) act" where
  "complete_operation S i result =
    update ''STORAGE_ERROR'' ''cannot persist operation result''
      (\<lambda>d. d\<lparr> operations := map_where (\<lambda>r. op_id r = i)
         (\<lambda>r. r\<lparr> op_result := Some (to_text S result) \<rparr>) (operations d) \<rparr>)"

definition operation_state :: "serde \<Rightarrow> string \<Rightarrow> string \<Rightarrow> (server, json option option) act" where
  "operation_state S i digest =
    bnd (query ''STORAGE_ERROR'' ''cannot inspect execution request'' (find_operation i))
    (\<lambda>row. case row of
       None \<Rightarrow> ret None
     | Some r \<Rightarrow>
         if op_digest r \<noteq> digest
         then err (Fault_new ''REQUEST_CONFLICT'' ''request identity reused with different arguments'')
         else (case op_result r of
             None \<Rightarrow> ret (Some None)
           | Some text \<Rightarrow>
               bnd (decode_text S ''STORAGE_ERROR'' ''invalid execution result'' text)
                 (\<lambda>v. ret (Some (Some v)))))"

definition link_operation :: "string \<Rightarrow> int \<Rightarrow> (server, unit) act" where
  "link_operation i cursor =
    update ''STORAGE_ERROR'' ''cannot link execution result''
      (\<lambda>d. d\<lparr> operations := map_where (\<lambda>r. op_id r = i)
         (\<lambda>r. r\<lparr> op_cursor := Some cursor \<rparr>) (operations d) \<rparr>)"

section \<open>Authorizations\<close>

text \<open>The insert with \<open>ON CONFLICT(id) DO UPDATE\<close>: a known identity counts as written
  only in the same context.\<close>

definition record_permissions :: "SessionPermissions \<Rightarrow> (server, unit) act" where
  "record_permissions p =
    bnd (execute ''PERMISSION_STORAGE'' ''cannot record session permissions''
      (\<lambda>d. case find (\<lambda>r. perm_id r = perm_id p) (permissions d) of
          None \<Rightarrow> Some (True, d\<lparr> permissions := permissions d @ [p] \<rparr>)
        | Some r \<Rightarrow> Some (perm_channel r = perm_channel p \<and> perm_thread r = perm_thread p, d)))
    (\<lambda>written. if written then ret ()
       else err (Fault_new ''APPROVAL_MISMATCH''
         ''session permission identity reused in another context''))"

definition record_approval :: "serde \<Rightarrow> CommandApproval \<Rightarrow> (server, unit) act" where
  "record_approval S a =
    execute ''APPROVAL_REUSED'' ''approval has already authorized another operation''
      (\<lambda>d. if list_ex (\<lambda>r. ap_id r = appr_id a) (approvals d) then None
           else Some ((), d\<lparr> approvals := approvals d @
             [\<lparr> ap_id = appr_id a, ap_channel = appr_channel a, ap_thread = appr_thread a,
                ap_turn = appr_turn a, ap_item = appr_item a,
                ap_argv = to_text S (JArr (map JStr (appr_argv a))), ap_cwd = appr_cwd a \<rparr>] \<rparr>))"

section \<open>Retention\<close>

definition closed_channels :: "db \<Rightarrow> string list" where
  "closed_channels d = drop 32 (map ch_id (sort_key (\<lambda>r. - ch_created r)
     (rev (filter (\<lambda>r. ch_state r = ''lost'' \<and> ch_lost r \<noteq> Some ''evidence_expired'') (channels d)))))"

definition retire_channel :: "string \<Rightarrow> (server, unit) act" where
  "retire_channel channel =
    thn (update ''STORAGE_ERROR'' ''cannot retire closed operation evidence''
      (\<lambda>d. d\<lparr> operations := filter (\<lambda>r. op_prefix (op_id r) \<noteq> channel) (operations d) \<rparr>))
    (thn (update ''STORAGE_ERROR'' ''cannot retire closed execution evidence''
      (\<lambda>d. d\<lparr> events := filter (\<lambda>e. ev_channel e \<noteq> channel) (events d) \<rparr>))
    (thn (update ''STORAGE_ERROR'' ''cannot retire closed execution evidence''
      (\<lambda>d. d\<lparr> approvals := filter (\<lambda>a. ap_channel a \<noteq> channel) (approvals d) \<rparr>))
    (thn (update ''STORAGE_ERROR'' ''cannot retire closed execution evidence''
      (\<lambda>d. d\<lparr> permissions := filter (\<lambda>p. perm_channel p \<noteq> channel) (permissions d) \<rparr>))
    (update ''STORAGE_ERROR'' ''cannot record expired recovery evidence''
      (\<lambda>d. d\<lparr> channels := map_where (\<lambda>r. ch_id r = channel)
         (\<lambda>r. r\<lparr> ch_lost := Some ''evidence_expired'', ch_bytes := 0 \<rparr>) (channels d) \<rparr>)))))"

definition retire_closed_evidence :: "(server, unit) act" where
  "retire_closed_evidence =
    atomically ''STORAGE_ERROR'' ''cannot retire recovery evidence'' ''cannot commit recovery retention''
      (bnd (query ''STORAGE_ERROR'' ''cannot inspect closed executions'' closed_channels)
        (each retire_channel))"

section \<open>The replay log\<close>

definition REPLAY_LIMIT :: int where
  "REPLAY_LIMIT = 8 * 1024 * 1024"

definition record_size :: "string \<Rightarrow> int" where
  "record_size r = int (length r)"

definition channel_events :: "string \<Rightarrow> db \<Rightarrow> event_row list" where
  "channel_events channel d = sort_key ev_cursor (filter (\<lambda>e. ev_channel e = channel) (events d))"

definition channel_bytes :: "string \<Rightarrow> db \<Rightarrow> int" where
  "channel_bytes channel d =
    sum_list (map (\<lambda>e. record_size (ev_record e)) (filter (\<lambda>e. ev_channel e = channel) (events d)))"

definition find_channel :: "string \<Rightarrow> db \<Rightarrow> channel_row option" where
  "find_channel channel d = find (\<lambda>r. ch_id r = channel) (channels d)"

definition update_channel :: "string \<Rightarrow> (channel_row \<Rightarrow> channel_row) \<Rightarrow> db \<Rightarrow> db" where
  "update_channel channel f d =
    d\<lparr> channels := map_where (\<lambda>r. ch_id r = channel) f (channels d) \<rparr>"

text \<open>The loop that trims the oldest records while the log is over its limit.  It runs
  inside one transaction, so the rows it selects one by one, oldest first, are those
  of the list it starts from; it ends with that list.\<close>

primrec trim_replay :: "event_row list \<Rightarrow> int \<Rightarrow> int \<Rightarrow> (server, int \<times> int) act" where
  "trim_replay [] bytes low =
    (if bytes > REPLAY_LIMIT
     then thn (query ''STORAGE_ERROR'' ''cannot inspect replay buffer'' (\<lambda>_. ())) (ret (bytes, low))
     else ret (bytes, low))"
| "trim_replay (e # rows) bytes low =
    (if bytes > REPLAY_LIMIT
     then thn (query ''STORAGE_ERROR'' ''cannot inspect replay buffer'' (\<lambda>_. ()))
       (thn (update ''STORAGE_ERROR'' ''cannot trim replay buffer''
         (\<lambda>d. d\<lparr> events := filter (\<lambda>r. ev_cursor r \<noteq> ev_cursor e) (events d) \<rparr>))
       (trim_replay rows (bytes - record_size (ev_record e)) (ev_cursor e)))
     else ret (bytes, low))"

definition append_record :: "string \<Rightarrow> string \<Rightarrow> (server, int) act" where
  "append_record channel text =
    atomically ''STORAGE_ERROR'' ''cannot account replay storage'' ''cannot commit replay bounds''
      (bnd (execute ''STORAGE_ERROR'' ''cannot persist execution response''
         (\<lambda>d. let c = event_seq d + 1 in Some (c, d\<lparr> event_seq := c, events := events d @
            [\<lparr> ev_cursor = c, ev_channel = channel, ev_record = text \<rparr>] \<rparr>)))
      (\<lambda>event.
       bnd (execute ''STORAGE_ERROR'' ''cannot account replay storage''
         (\<lambda>d. let d' = update_channel channel (\<lambda>r. r\<lparr> ch_bytes := ch_bytes r + record_size text \<rparr>) d in
           map_option (\<lambda>r. (ch_bytes r, d')) (find_channel channel d')))
      (\<lambda>bytes.
       bnd (\<lambda>s. trim_replay (channel_events channel (sdb s)) bytes 0 s)
      (\<lambda>(bytes, low).
       thn (update ''STORAGE_ERROR'' ''cannot update replay bounds''
         (update_channel channel (\<lambda>r. r\<lparr> ch_bytes := bytes, ch_floor := max (ch_floor r) low \<rparr>)))
       (ret event)))))"

definition append_event :: "serde \<Rightarrow> string \<Rightarrow> json \<Rightarrow> (server, int) act" where
  "append_event S channel v = append_record channel (to_text S v)"

text \<open>The newest 128 records of a channel stay whatever was acknowledged.\<close>

definition acknowledged_rows :: "string \<Rightarrow> int \<Rightarrow> db \<Rightarrow> event_row list" where
  "acknowledged_rows channel ack d =
    (let rows = channel_events channel d in
     filter (\<lambda>e. ev_cursor e \<le> ack) (take (length rows - 128) rows))"

definition prune_acknowledged :: "string \<Rightarrow> int \<Rightarrow> (server, unit) act" where
  "prune_acknowledged channel ack =
    atomically ''STORAGE_ERROR'' ''cannot retire replay storage'' ''cannot commit replay cleanup''
      (bnd (query ''STORAGE_ERROR'' ''cannot inspect acknowledged events''
         (\<lambda>d. let rows = acknowledged_rows channel ack d in
           (sum_list (map (\<lambda>e. record_size (ev_record e)) rows),
            fold (\<lambda>e m. max m (ev_cursor e)) rows 0)))
      (\<lambda>(bytes, bound).
       thn (update ''STORAGE_ERROR'' ''cannot retire acknowledged events''
         (\<lambda>d. d\<lparr> events := filter (\<lambda>e. \<not> (ev_channel e = channel \<and> ev_cursor e \<le> bound)) (events d) \<rparr>))
       (update ''STORAGE_ERROR'' ''cannot update replay bounds''
         (update_channel channel (\<lambda>r. r\<lparr> ch_bytes := max 0 (ch_bytes r - bytes),
            ch_floor := max (ch_floor r) bound \<rparr>)))))"

definition acknowledge_events :: "string \<Rightarrow> int \<Rightarrow> (server, unit) act" where
  "acknowledge_events channel cursor =
    thn (prune_acknowledged channel cursor)
      (update ''STORAGE_ERROR'' ''cannot compact acknowledged execution results''
        (\<lambda>d. d\<lparr> operations := map_where
           (\<lambda>r. (case op_cursor r of Some c \<Rightarrow> c \<le> cursor | None \<Rightarrow> False) \<and> op_prefix (op_id r) = channel)
           (\<lambda>r. r\<lparr> op_result := Some ''null'' \<rparr>) (operations d) \<rparr>))"

text \<open>\<open>collect\<close> of decoded rows: the first undecodable record is the error.\<close>

fun decode_rows :: "serde \<Rightarrow> string \<Rightarrow> string \<Rightarrow> (int \<times> string) list \<Rightarrow> Fault + (int \<times> json) list" where
  "decode_rows S c m [] = Inr []"
| "decode_rows S c m ((k, text) # rows) =
    (case from_text S text of
       None \<Rightarrow> Inl (Fault_new c m)
     | Some v \<Rightarrow> rbind (decode_rows S c m rows) (\<lambda>vs. Inr ((k, v) # vs)))"

definition replay_expired :: Fault where
  "replay_expired = \<lparr> fault_code = ''EXECUTION_REPLAY_EXPIRED'',
     fault_message = ''execution replay buffer expired; inspect retained jobs'', outcome_unknown = True \<rparr>"

definition events_after :: "string \<Rightarrow> int \<Rightarrow> db \<Rightarrow> event_row list" where
  "events_after channel cursor d = filter (\<lambda>e. cursor < ev_cursor e) (channel_events channel d)"

definition execution_events :: "serde \<Rightarrow> string \<Rightarrow> int \<Rightarrow> (server, (int \<times> json) list) act" where
  "execution_events S channel cursor =
    bnd (execute ''STORAGE_ERROR'' ''cannot inspect replay floor''
      (\<lambda>d. map_option (\<lambda>r. (ch_floor r, d)) (find_channel channel d)))
    (\<lambda>low. if cursor < low then err replay_expired
       else bnd (query ''STORAGE_ERROR'' ''cannot read execution responses''
           (\<lambda>d. map (\<lambda>e. (ev_cursor e, ev_record e)) (take 64 (events_after channel cursor d))))
         (\<lambda>rows. lift_result (decode_rows S ''STORAGE_ERROR'' ''invalid execution response'' rows)))"

section \<open>Channels\<close>

definition create_channel :: "Store \<Rightarrow> string \<Rightarrow> string \<Rightarrow> int \<Rightarrow> (server, unit) act" where
  "create_channel st i profile revision =
    thn retire_closed_evidence
      (execute ''EXECUTION_CONFLICT'' ''execution channel already exists''
        (\<lambda>d. if find_channel i d \<noteq> None then None
           else Some ((), d\<lparr> channels := channels d @
             [\<lparr> ch_id = i, ch_profile = profile, ch_revision = revision, ch_state = ''running'',
                ch_created = now d, ch_bytes = 0, ch_floor = 0, ch_instance = st_instance st,
                ch_boot = st_boot st, ch_lost = None \<rparr>] \<rparr>)))"

definition channel_owner :: "string \<Rightarrow> (server, string option) act" where
  "channel_owner i =
    query ''STORAGE_ERROR'' ''cannot read execution owner'' (\<lambda>d. map_option ch_profile (find_channel i d))"

definition unfinished :: "job_row \<Rightarrow> bool" where
  "unfinished j \<longleftrightarrow> job_state j = ''starting'' \<or> job_state j = ''running''"

definition mark_channel_lost :: "string \<Rightarrow> (server, unit) act" where
  "mark_channel_lost i =
    thn (update ''STORAGE_ERROR'' ''cannot close execution''
      (update_channel i (\<lambda>r. r\<lparr> ch_state := ''lost'',
         ch_lost := (case ch_lost r of None \<Rightarrow> Some ''executor_stopped'' | Some x \<Rightarrow> Some x) \<rparr>)))
    (update ''STORAGE_ERROR'' ''cannot reconcile execution''
      (\<lambda>d. d\<lparr> jobs := map_where (\<lambda>j. job_channel j = i \<and> unfinished j)
         (\<lambda>j. j\<lparr> job_state := ''unknown'', job_updated := now d \<rparr>) (jobs d) \<rparr>))"

record ExecutionStatus =
  es_channel :: string
  es_service_instance :: string
  es_boot_id :: string
  es_state :: string
  es_reason :: "string option"
  es_replay_floor :: int
  es_unknown_operations :: int
  es_evidence_available :: bool

definition inspect_execution :: "string \<Rightarrow> string \<Rightarrow> (server, ExecutionStatus) act" where
  "inspect_execution profile channel =
    bnd (query ''STORAGE_ERROR'' ''cannot inspect execution recovery''
      (\<lambda>d. find (\<lambda>r. ch_id r = channel \<and> ch_profile r = profile) (channels d)))
    (\<lambda>row. case row of
       None \<Rightarrow> err (Fault_new ''EXECUTION_NOT_FOUND'' ''execution does not belong to this profile'')
     | Some r \<Rightarrow>
         bnd (query ''STORAGE_ERROR'' ''cannot inspect operation outcomes''
           (\<lambda>d. int (length (filter (\<lambda>p. op_prefix (op_id p) = channel \<and> op_result p = None)
              (operations d)))))
         (\<lambda>n. ret \<lparr> es_channel = channel, es_service_instance = ch_instance r, es_boot_id = ch_boot r,
            es_state = ch_state r, es_reason = ch_lost r, es_replay_floor = ch_floor r,
            es_unknown_operations = n, es_evidence_available = (ch_lost r \<noteq> Some ''evidence_expired'') \<rparr>))"

section \<open>Opening the database\<close>

definition RCSV :: int where
  "RCSV = 0x52435356"

text \<open>\<open>preflight::check\<close>, on the identity, the version and whether there are tables.\<close>

definition preflight_check :: "bool \<Rightarrow> (server, unit) act" where
  "preflight_check tables =
    bnd (query ''STORAGE_ERROR'' ''cannot read database identity'' application_id) (\<lambda>app.
    bnd (query ''STORAGE_ERROR'' ''cannot read database version'' user_version) (\<lambda>version.
    bnd (query ''STORAGE_ERROR'' ''cannot inspect schema'' (\<lambda>_. tables)) (\<lambda>tables.
    if (app = RCSV \<and> version \<in> {2, 3}) \<or> (app = 0 \<and> version = 0 \<and> \<not> tables) then ret ()
    else err (Fault_new ''UNSUPPORTED_SCHEMA''
      ''database requires another service version or belongs to another application''))))"

definition remove_member :: "string \<Rightarrow> json \<Rightarrow> json" where
  "remove_member k v = (case v of JObj ps \<Rightarrow> JObj (filter (\<lambda>(k', _). k' \<noteq> k) ps) | _ \<Rightarrow> v)"

definition migrate_profile :: "serde \<Rightarrow> profile_row \<Rightarrow> (server, unit) act" where
  "migrate_profile S r =
    bnd (decode_text S ''INVALID_CONFIG'' ''invalid legacy configuration'' (pr_config r)) (\<lambda>v.
      (case config_of_json (remove_member ''codex'' v) of
         None \<Rightarrow> err (Fault_new ''INVALID_CONFIG'' ''invalid migrated configuration'')
       | Some c \<Rightarrow>
           update ''STORAGE_ERROR'' ''cannot migrate configuration''
             (\<lambda>d. d\<lparr> profiles := map_where (\<lambda>p. pr_id p = pr_id r)
                (\<lambda>p. p\<lparr> pr_config := to_text S (config_to_json c) \<rparr>) (profiles d) \<rparr>)))"

definition lost_reason_on_open :: "string \<Rightarrow> string \<Rightarrow> string" where
  "lost_reason_on_open old_boot boot =
    (if old_boot \<noteq> [] \<and> boot \<noteq> [] \<and> old_boot \<noteq> boot
     then ''host_restarted'' else ''service_restarted'')"

definition initialise_schema :: "(nat \<Rightarrow> string) \<Rightarrow> bool \<Rightarrow> serde \<Rightarrow> (server, unit) act" where
  "initialise_schema uuid tables S =
    bnd (query ''STORAGE_ERROR'' ''cannot read schema version'' user_version) (\<lambda>version.
    bnd (query ''STORAGE_ERROR'' ''cannot read database identity'' application_id) (\<lambda>app.
    bnd (query ''STORAGE_ERROR'' ''cannot inspect database'' (\<lambda>_. tables)) (\<lambda>tables.
    if app = 0 \<and> version = 0 \<and> \<not> tables then
      bnd (fresh_uuid uuid) (\<lambda>new_identity.
      thn (update ''STORAGE_ERROR'' ''cannot save remote identity''
        (\<lambda>d. d\<lparr> db_identity := Some new_identity \<rparr>))
      (update ''STORAGE_ERROR'' ''cannot save schema version''
        (\<lambda>d. d\<lparr> application_id := RCSV, user_version := 3 \<rparr>)))
    else if app = RCSV \<and> version = 2 then
      bnd (query ''STORAGE_ERROR'' ''cannot read legacy configurations'' profiles) (\<lambda>rows.
        thn (each (migrate_profile S) rows)
        (update ''STORAGE_ERROR'' ''cannot save migrated schema version''
          (\<lambda>d. d\<lparr> user_version := 3 \<rparr>)))
    else if app \<noteq> RCSV \<or> version \<noteq> 3 then
      err (Fault_new ''UNSUPPORTED_SCHEMA'' ''this release requires remote schema 3'')
    else ret ())))"

text \<open>\<open>Store::open\<close> after the file is there; \<open>boot\<close> is what \<open>boot_id()\<close> read, and every
  channel and job a previous service left running is reconciled.\<close>

definition Store_open :: "serde \<Rightarrow> (nat \<Rightarrow> string) \<Rightarrow> bool \<Rightarrow> Fault + string \<Rightarrow> (server, Store) act" where
  "Store_open S uuid tables boot =
    thn (preflight_check tables)
    (bnd (atomically ''STORAGE_ERROR'' ''cannot initialize remote database''
        ''cannot commit remote initialization''
       (thn (initialise_schema uuid tables S)
       (bnd (execute ''STORAGE_ERROR'' ''cannot read remote identity''
          (\<lambda>d. map_option (\<lambda>i. (i, d)) (db_identity d))) (\<lambda>identity.
        bnd (lift_result boot) (\<lambda>boot_id.
        thn (update ''STORAGE_ERROR'' ''cannot reconcile executors''
          (\<lambda>d. d\<lparr> channels := map_where (\<lambda>r. ch_state r = ''running'')
             (\<lambda>r. r\<lparr> ch_state := ''lost'', ch_lost := Some (lost_reason_on_open (ch_boot r) boot_id) \<rparr>)
             (channels d) \<rparr>))
        (thn (update ''STORAGE_ERROR'' ''cannot reconcile jobs''
          (\<lambda>d. d\<lparr> jobs := map_where unfinished (\<lambda>j. j\<lparr> job_state := ''unknown'' \<rparr>) (jobs d) \<rparr>))
        (ret (identity, boot_id))))))))
     (\<lambda>(identity, boot_id).
     bnd (fresh_uuid uuid) (\<lambda>inst.
       ret \<lparr> st_identity = identity, st_instance = inst, st_boot = boot_id \<rparr>)))"

end
