(* ===== verification/Server_Jobs.thy ===== *)
theory Server_Jobs
  imports Server_Store
begin

text \<open>
  Models \<open>server/src/storage/jobs.rs\<close>: the processes an execution channel started,
  their state and their bounded output.
\<close>

definition running_processes :: "string \<Rightarrow> bool \<Rightarrow> (server, string list) act" where
  "running_processes channel mcp_only =
    query ''STORAGE_ERROR'' ''cannot inspect running processes''
      (\<lambda>d. map job_process (filter (\<lambda>j. job_channel j = channel \<and> unfinished j
         \<and> (\<not> mcp_only \<or> job_kind j = ''mcp'')) (jobs d)))"

definition active_jobs :: "string \<Rightarrow> (server, int) act" where
  "active_jobs channel =
    query ''STORAGE_ERROR'' ''cannot inspect active jobs''
      (\<lambda>d. int (length (filter (\<lambda>j. job_channel j = channel \<and> job_kind j = ''command''
         \<and> unfinished j) (jobs d))))"

definition params_thread :: "json \<Rightarrow> string option" where
  "params_thread params =
    (case pointer_string [''env'', ''CODEX_THREAD_ID''] params of
       Some t \<Rightarrow> Some t
     | None \<Rightarrow> pointer_string [''auditMetadata'', ''conversationId''] params)"

definition record_job ::
  "(nat \<Rightarrow> string) \<Rightarrow> string \<Rightarrow> string \<Rightarrow> json \<Rightarrow> string \<Rightarrow> (server, string) act" where
  "record_job uuid profile channel params k =
    (case as_string (json_index params ''processId'') of
       None \<Rightarrow> err (Fault_new ''INVALID_EXECUTION'' ''process ID missing'')
     | Some process \<Rightarrow>
         bnd (fresh_uuid uuid) (\<lambda>i.
         thn (execute ''JOB_CONFLICT'' ''cannot persist process identity''
           (\<lambda>d. if list_ex (\<lambda>j. job_id j = i) (jobs d) then None
             else Some ((), d\<lparr> jobs := jobs d @
               [\<lparr> job_id = i, job_process = process, job_kind = k, job_profile = profile,
                  job_channel = channel, job_thread = params_thread params,
                  job_cwd = (case as_string (json_index params ''cwd'') of None \<Rightarrow> [] | Some c \<Rightarrow> c),
                  job_state = ''starting'', job_exit = None, job_created = now d, job_updated = now d,
                  job_bytes = 0, job_truncated = False \<rparr>] \<rparr>)))
         (ret i)))"

definition find_process :: "string \<Rightarrow> string \<Rightarrow> db \<Rightarrow> string option" where
  "find_process channel process d =
    map_option job_id (find (\<lambda>j. job_channel j = channel \<and> job_process j = process) (rev (jobs d)))"

definition process_job :: "string \<Rightarrow> string \<Rightarrow> (server, string option) act" where
  "process_job channel process =
    query ''STORAGE_ERROR'' ''cannot resolve execution process'' (find_process channel process)"

definition job_may_become :: "string \<Rightarrow> job_row \<Rightarrow> bool" where
  "job_may_become state j \<longleftrightarrow> unfinished j \<and> (state \<noteq> ''running'' \<or> job_state j = ''starting'')"

definition set_job_state :: "string \<Rightarrow> string \<Rightarrow> int option \<Rightarrow> (server, unit) act" where
  "set_job_state i state exit =
    update ''STORAGE_ERROR'' ''cannot update execution process''
      (\<lambda>d. d\<lparr> jobs := map_where (\<lambda>j. job_id j = i \<and> job_may_become state j)
         (\<lambda>j. j\<lparr> job_state := state, job_exit := exit, job_updated := now d \<rparr>) (jobs d) \<rparr>)"

definition OUTPUT_LIMIT :: int where
  "OUTPUT_LIMIT = 67108864"

definition record_output :: "serde \<Rightarrow> string \<Rightarrow> json \<Rightarrow> (server, unit) act" where
  "record_output S channel params =
    (case as_string (json_index params ''processId'') of
       None \<Rightarrow> ret ()
     | Some process \<Rightarrow>
         bnd (process_job channel process) (\<lambda>found. case found of
           None \<Rightarrow> ret ()
         | Some i \<Rightarrow>
             let encoded = to_text S params; n = record_size encoded in
             atomically ''STORAGE_ERROR'' ''cannot save process output'' ''cannot commit process output''
               (bnd (execute ''STORAGE_ERROR'' ''cannot account process output''
                  (\<lambda>d. let fits = (\<lambda>j. job_id j = i \<and> job_bytes j + n \<le> OUTPUT_LIMIT) in
                    Some (list_ex fits (jobs d),
                      d\<lparr> jobs := map_where fits
                         (\<lambda>j. j\<lparr> job_bytes := job_bytes j + n, job_updated := now d \<rparr>) (jobs d) \<rparr>)))
               (\<lambda>changed.
                 if changed then
                   update ''STORAGE_ERROR'' ''cannot save process output''
                     (\<lambda>d. d\<lparr> output_seq := output_seq d + 1, outputs := outputs d @
                        [\<lparr> out_cursor = output_seq d + 1, out_job = i, out_record = encoded \<rparr>] \<rparr>)
                 else
                   update ''STORAGE_ERROR'' ''cannot mark truncated output''
                     (\<lambda>d. d\<lparr> jobs := map_where (\<lambda>j. job_id j = i)
                        (\<lambda>j. j\<lparr> job_truncated := True \<rparr>) (jobs d) \<rparr>)))))"

text \<open>\<open>protocol::Job\<close>, what a client sees of a row, and its JSON form.\<close>

record Job =
  jb_id :: string
  jb_process_id :: string
  jb_kind :: string
  jb_channel :: string
  jb_thread :: "string option"
  jb_cwd :: string
  jb_state :: string
  jb_exit_code :: "int option"
  jb_created_at :: int
  jb_updated_at :: int
  jb_output_truncated :: bool

definition decode_job :: "job_row \<Rightarrow> Job" where
  "decode_job j =
    \<lparr> jb_id = job_id j, jb_process_id = job_process j, jb_kind = job_kind j,
      jb_channel = job_channel j, jb_thread = job_thread j, jb_cwd = job_cwd j,
      jb_state = job_state j, jb_exit_code = job_exit j, jb_created_at = job_created j,
      jb_updated_at = job_updated j, jb_output_truncated = job_truncated j \<rparr>"

definition json_option :: "('a \<Rightarrow> json) \<Rightarrow> 'a option \<Rightarrow> json" where
  "json_option f x = (case x of None \<Rightarrow> JNull | Some y \<Rightarrow> f y)"

definition job_to_json :: "Job \<Rightarrow> json" where
  "job_to_json j = JObj
    [(''id'', JStr (jb_id j)), (''process_id'', JStr (jb_process_id j)), (''kind'', JStr (jb_kind j)),
     (''channel'', JStr (jb_channel j)), (''thread'', json_option JStr (jb_thread j)),
     (''cwd'', JStr (jb_cwd j)), (''state'', JStr (jb_state j)),
     (''exit_code'', json_option JInt (jb_exit_code j)), (''created_at'', JInt (jb_created_at j)),
     (''updated_at'', JInt (jb_updated_at j)), (''output_truncated'', JBool (jb_output_truncated j))]"

definition list_jobs :: "string \<Rightarrow> string option \<Rightarrow> (server, Job list) act" where
  "list_jobs profile thread =
    bnd (query ''STORAGE_ERROR'' ''cannot list processes''
      (\<lambda>d. take 1000 (sort_key (\<lambda>j. (- job_created j, job_id j))
        (filter (\<lambda>j. job_profile j = profile \<and> job_kind j = ''command''
           \<and> (thread = None \<or> job_thread j = thread)) (jobs d)))))
    (\<lambda>rows. ret (map decode_job rows))"

definition find_job :: "string \<Rightarrow> string \<Rightarrow> (server, Job) act" where
  "find_job profile i =
    bnd (query ''STORAGE_ERROR'' ''cannot read process''
      (\<lambda>d. find (\<lambda>j. job_profile j = profile \<and> job_id j = i) (jobs d)))
    (\<lambda>row. case row of
       None \<Rightarrow> err (Fault_new ''JOB_NOT_FOUND''
         ''process does not belong to this execution environment'')
     | Some j \<Rightarrow> ret (decode_job j))"

definition MAX_FRAME :: nat where
  "MAX_FRAME = 2 * 1024 * 1024"

text \<open>The loop that fills a page: at least one record, then records while the page stays
  under half a frame.\<close>

fun output_page ::
  "serde \<Rightarrow> (int \<times> string) list \<Rightarrow> int \<Rightarrow> nat \<Rightarrow> json list \<Rightarrow> Fault + (json list \<times> int)" where
  "output_page S [] next_cursor bytes chunks = Inr (chunks, next_cursor)"
| "output_page S ((cursor, text) # rows) next_cursor bytes chunks =
    (if chunks \<noteq> [] \<and> bytes + length text > MAX_FRAME div 2 then Inr (chunks, next_cursor)
     else (case from_text S text of
         None \<Rightarrow> Inl (Fault_new ''STORAGE_ERROR'' ''invalid stored process output'')
       | Some v \<Rightarrow> output_page S rows cursor (bytes + length text) (chunks @ [v])))"

definition output_rows :: "string \<Rightarrow> int \<Rightarrow> db \<Rightarrow> (int \<times> string) list" where
  "output_rows i cursor d = map (\<lambda>r. (out_cursor r, out_record r))
    (sort_key out_cursor (filter (\<lambda>r. out_job r = i \<and> cursor < out_cursor r) (outputs d)))"

definition job_output :: "serde \<Rightarrow> string \<Rightarrow> string \<Rightarrow> int \<Rightarrow> (server, json) act" where
  "job_output S profile i cursor =
    bnd (find_job profile i) (\<lambda>j.
    bnd (query ''STORAGE_ERROR'' ''cannot read process output''
      (\<lambda>d. take 64 (output_rows i cursor d))) (\<lambda>rows.
    bnd (lift_result (output_page S rows cursor 0 [])) (\<lambda>(chunks, next_cursor).
    ret (JObj [(''job'', job_to_json j), (''chunks'', JArr chunks),
      (''next_cursor'', JInt next_cursor)]))))"

end
