(* ===== verification/Server_Policy.thy ===== *)
theory Server_Policy
  imports Server_Store Config_Environment
begin

text \<open>
  Models \<open>protocol/src/approval.rs\<close>, \<open>server/src/execution/policy.rs\<close> and the runtime
  settings of \<open>server/src/config.rs\<close>: which messages a channel may hand to the
  executor, and under which authorization.
\<close>

section \<open>Paths\<close>

text \<open>Equality of \<open>std::path::Path\<close> compares components: repeated and trailing slashes
  and inner dots do not count.\<close>

definition path_components :: "string \<Rightarrow> string list" where
  "path_components p =
    (if starts_with p ''/'' then [''/''] else if starts_with (p @ ''/'') ''./'' then [''.''] else [])
    @ filter (\<lambda>c. c \<noteq> [] \<and> c \<noteq> ''.'') (split_on CHR ''/'' p)"

definition path_eq :: "string \<Rightarrow> string \<Rightarrow> bool" where
  "path_eq p q \<longleftrightarrow> path_components p = path_components q"

section \<open>Approvals\<close>

definition file_mutations :: "string list" where
  "file_mutations = [''fs/writeFile'', ''fs/createDirectory'', ''fs/remove'', ''fs/copy'']"

definition message_thread :: "json \<Rightarrow> string option" where
  "message_thread message = pointer_string [''params'', ''env'', ''CODEX_THREAD_ID''] message"

definition permissions_match :: "SessionPermissions \<Rightarrow> string \<Rightarrow> json \<Rightarrow> bool" where
  "permissions_match p channel message =
    (if perm_id p = [] \<or> perm_thread p = [] \<or> perm_channel p \<noteq> channel then False
     else (case as_string (json_index message ''method'') of
         None \<Rightarrow> False
       | Some m \<Rightarrow>
           if m = ''process/start'' then message_thread message = Some (perm_thread p)
           else m \<in> set file_mutations))"

definition approval_matches :: "CommandApproval \<Rightarrow> json \<Rightarrow> bool" where
  "approval_matches a message \<longleftrightarrow>
     json_index message ''method'' = JStr ''process/start''
     \<and> json_index (json_index message ''params'') ''argv'' = JArr (map JStr (appr_argv a))
     \<and> as_string (json_index (json_index message ''params'') ''cwd'') = Some (appr_cwd a)
     \<and> is_null (json_index (json_index message ''params'') ''arg0'')
     \<and> message_thread message = Some (appr_thread a)"

definition approval_valid_for :: "CommandApproval \<Rightarrow> string \<Rightarrow> string \<Rightarrow> json \<Rightarrow> bool" where
  "approval_valid_for a channel operation message \<longleftrightarrow>
     appr_channel a = channel \<and> appr_id a = operation
     \<and> appr_thread a \<noteq> [] \<and> appr_turn a \<noteq> [] \<and> appr_item a \<noteq> []
     \<and> approval_matches a message"

section \<open>The runtime of a channel\<close>

record ExecutionCommand =
  cmd_argv :: "string list"
  cmd_cwd :: string

record Runtime =
  rt_config :: RemoteConfig
  rt_env :: "(string, string) btree"
  rt_background :: bool
  rt_grace :: nat
  rt_unrestricted :: bool
  rt_mcp :: "ExecutionCommand list"

text \<open>The loop of \<open>Runtime::load\<close> over the synchronized values: an environment value
  becomes a fresh credential reference, kept aside with its value.\<close>

fun load_layer ::
  "url_parser \<Rightarrow> (nat \<Rightarrow> string) \<Rightarrow> (string \<times> string) list \<Rightarrow> nat \<Rightarrow> ConfigLayer
    \<Rightarrow> (string, string) btree \<Rightarrow> Fault + ConfigLayer \<times> (string, string) btree" where
  "load_layer u uuid [] n layer secrets = Inr (layer, secrets)"
| "load_layer u uuid ((key, v) # rest) n layer secrets =
    (if starts_with key ''env.'' then
       (case SecretRef_new (uuid n) of
          Inl _ \<Rightarrow> Inl (Fault_new ''INVALID_CONFIG'' ''invalid environment identity'')
        | Inr (SecretRef i) \<Rightarrow>
            (case layer_set u key (Secret (SecretRef i) v) layer of
               Inl _ \<Rightarrow> Inl (Fault_new ''INVALID_CONFIG'' ''invalid remote environment setting'')
             | Inr layer' \<Rightarrow> load_layer u uuid rest (Suc n) layer' (bt_insert i v secrets)))
     else
       (case layer_set u key (Plain v) layer of
          Inl _ \<Rightarrow> Inl (Fault_new ''INVALID_CONFIG'' ''invalid remote configuration'')
        | Inr layer' \<Rightarrow> load_layer u uuid rest n layer' secrets))"

fun resolve_variables ::
  "(string, string) btree \<Rightarrow> (string \<times> ConfigValue) list \<Rightarrow> (string, string) btree
    \<Rightarrow> Fault + (string, string) btree" where
  "resolve_variables secrets [] env = Inr env"
| "resolve_variables secrets ((key, v) # rest) env =
    (case v of
       V_Text text \<Rightarrow> resolve_variables secrets rest (bt_insert key text env)
     | V_Secret (SecretRef i) \<Rightarrow>
         (case bt_get secrets i of
            None \<Rightarrow> Inl (Fault_new ''INVALID_CONFIG'' ''unresolved remote credential'')
          | Some text \<Rightarrow> resolve_variables secrets rest (bt_insert key text env))
     | _ \<Rightarrow> Inl (Fault_new ''INVALID_CONFIG'' ''invalid process environment value''))"

definition Runtime_load ::
  "url_parser \<Rightarrow> (nat \<Rightarrow> string) \<Rightarrow> (string, string) btree \<Rightarrow> RemoteConfig \<Rightarrow> Fault + Runtime" where
  "Runtime_load u uuid inherited config =
    rbind (load_layer u uuid (rc_values config) 0 [] []) (\<lambda>(layer, secrets).
    (case config_resolve layer of
       Inl _ \<Rightarrow> Inl (Fault_new ''INVALID_CONFIG'' ''invalid effective configuration'')
     | Inr core \<Rightarrow>
         (case plan_environment u core inherited of
            Inl _ \<Rightarrow> Inl (Fault_new ''INVALID_PROXY'' ''invalid or conflicting remote proxy settings'')
          | Inr plan \<Rightarrow>
              rbind (resolve_variables secrets (plan_set plan) []) (\<lambda>env.
                Inr \<lparr> rt_config = config, rt_env = env,
                  rt_background = (config_get core K_Background = Some (V_Boolean True)),
                  rt_grace = (case config_get core K_DisconnectGraceSeconds of
                      Some (V_Integer n) \<Rightarrow> unat n | _ \<Rightarrow> 30),
                  rt_unrestricted = (config_get core K_ExecutionMode = Some (V_Text ''unrestricted'')),
                  rt_mcp = [] \<rparr>))))"

section \<open>The policy\<close>

definition managed :: "json \<Rightarrow> bool" where
  "managed sandbox \<longleftrightarrow>
     pointer_string [''permissions'', ''type''] sandbox = Some ''managed''
     \<and> pointer_string [''permissions'', ''file_system'', ''type''] sandbox = Some ''restricted''"

text \<open>\<open>file_path\<close> stands for \<open>Url::parse\<close> followed by \<open>to_file_path\<close> of the crate \<open>url\<close>.\<close>

definition authorized_mcp :: "(string \<Rightarrow> string option) \<Rightarrow> Runtime \<Rightarrow> json \<Rightarrow> bool" where
  "authorized_mcp file_path runtime params =
    (case as_array (json_index params ''argv'') of
       None \<Rightarrow> False
     | Some argv \<Rightarrow>
         let cwd = Option.bind (as_string (json_index params ''cwd'')) file_path in
         list_ex (\<lambda>allowed.
           (case cwd of None \<Rightarrow> False | Some p \<Rightarrow> path_eq p (cmd_cwd allowed))
           \<and> length argv = length (cmd_argv allowed)
           \<and> list_all (\<lambda>(actual, expected). as_string actual = Some expected)
               (zip argv (cmd_argv allowed)))
           (rt_mcp runtime))"

definition plain_methods :: "string list" where
  "plain_methods = [''initialize'', ''initialized'', ''environment/info'', ''environment/status'',
     ''environmentConfig/read'', ''capabilityRoots/discoverV1'']"

definition method_prefixes :: "string list" where
  "method_prefixes = [''process/'', ''fs/'', ''http/'', ''network/'', ''shell/'']"

definition account_variables :: "string list" where
  "account_variables = [''OPENAI_API_KEY'', ''CODEX_API_KEY'', ''CODEX_ACCESS_TOKEN'', ''CODEX_AUTH_JSON'']"

definition permitted_method :: "string \<Rightarrow> bool" where
  "permitted_method m \<longleftrightarrow>
     m \<in> set plain_methods \<or> list_ex (\<lambda>prefix. starts_with m prefix) method_prefixes"

definition forwards_account :: "json \<Rightarrow> bool" where
  "forwards_account params =
    (case as_object (json_index params ''env'') of
       None \<Rightarrow> False
     | Some env \<Rightarrow> list_ex (\<lambda>key. obj_get env key \<noteq> None) account_variables)"

definition policy_validate ::
  "(string \<Rightarrow> string option) \<Rightarrow> Runtime \<Rightarrow> json \<Rightarrow> bool \<Rightarrow> bool \<Rightarrow> Fault + unit" where
  "policy_validate file_path runtime message approved_command full_access =
    (case as_string (json_index message ''method'') of
       None \<Rightarrow>
         if json_get message ''id'' \<noteq> None
            \<and> (json_get message ''result'' \<noteq> None \<or> json_get message ''error'' \<noteq> None)
         then Inr ()
         else Inl (Fault_new ''INVALID_EXECUTION'' ''invalid execution response'')
     | Some m \<Rightarrow>
         if \<not> permitted_method m
         then Inl (Fault_new ''EXECUTION_METHOD_DENIED''
           ''only execution environment methods are permitted'')
         else if m \<in> set file_mutations \<and> \<not> rt_unrestricted runtime \<and> \<not> full_access
           \<and> \<not> managed (json_index (json_index message ''params'') ''sandbox'')
         then Inl (Fault_new ''SANDBOX_REQUIRED''
           ''filesystem mutation requires the configured sandbox'')
         else if m = ''process/start'' then
           (let params = json_index message ''params'' in
            if \<not> rt_unrestricted runtime \<and> \<not> full_access
               \<and> \<not> managed (json_index params ''sandbox'')
               \<and> \<not> authorized_mcp file_path runtime params \<and> \<not> approved_command
            then Inl (Fault_new ''SANDBOX_REQUIRED''
              ''this environment requires sandboxed execution or an explicit one-time command approval'')
            else if forwards_account params
            then Inl (Fault_new ''CREDENTIAL_FORWARDING_DENIED''
              ''Codex account credentials cannot be forwarded to the execution environment'')
            else Inr ())
         else Inr ())"

end
