(* ===== verification/Server_Execution.thy ===== *)
theory Server_Execution
  imports Server_Jobs Server_Policy
begin

text \<open>
  Models \<open>server/src/execution/operations.rs\<close> and \<open>actor.rs\<close>: how one message of a
  client is dispatched to the executor at most once, how its response is collected,
  and the loop of the actor that owns a channel.
\<close>

text \<open>Code outside the repository a channel relies on: the JSON text form, SHA-256 in
  hexadecimal, the random identities, and the path of a \<open>file:\<close> URL.\<close>

record externals =
  ex_serde :: serde
  ex_sha :: "string \<Rightarrow> string"
  ex_uuid :: "nat \<Rightarrow> string"
  ex_file_path :: "string \<Rightarrow> string option"

definition approval_json :: "CommandApproval \<Rightarrow> json" where
  "approval_json a = JObj
    [(''id'', JStr (appr_id a)), (''channel'', JStr (appr_channel a)), (''thread'', JStr (appr_thread a)),
     (''turn'', JStr (appr_turn a)), (''item'', JStr (appr_item a)),
     (''argv'', JArr (map JStr (appr_argv a))), (''cwd'', JStr (appr_cwd a))]"

definition permissions_json :: "SessionPermissions \<Rightarrow> json" where
  "permissions_json p = JObj
    [(''id'', JStr (perm_id p)), (''channel'', JStr (perm_channel p)), (''thread'', JStr (perm_thread p))]"

definition operation_key :: "string \<Rightarrow> string \<Rightarrow> string" where
  "operation_key channel operation = channel @ ''/'' @ operation"

definition operation_digest ::
  "externals \<Rightarrow> json \<Rightarrow> CommandApproval option \<Rightarrow> SessionPermissions option \<Rightarrow> string" where
  "operation_digest X message approval perms =
    ex_sha X (to_text (ex_serde X) (JObj
      [(''message'', message), (''approval'', json_option approval_json approval),
       (''permissions'', json_option permissions_json perms)]))"

definition receipt_message :: "string \<Rightarrow> json" where
  "receipt_message operation = JObj
    [(''method'', JStr ''remoteCodex/operationAccepted''),
     (''params'', JObj [(''operation'', JStr operation)])]"

definition receipt :: "externals \<Rightarrow> string \<Rightarrow> string \<Rightarrow> (server, unit) act" where
  "receipt X channel operation =
    bnd (append_event (ex_serde X) channel (receipt_message operation)) (\<lambda>_. ret ())"

text \<open>A known operation is never dispatched again: its stored response, if any, is
  replayed.\<close>

definition dispatch_known ::
  "externals \<Rightarrow> string \<Rightarrow> string \<Rightarrow> json option \<Rightarrow> (server, unit) act" where
  "dispatch_known X channel operation existing =
    thn (case existing of
        None \<Rightarrow> ret ()
      | Some response \<Rightarrow>
          if is_null response then ret ()
          else bnd (append_event (ex_serde X) channel response) (\<lambda>_. ret ()))
    (receipt X channel operation)"

definition dispatch_permission ::
  "externals \<Rightarrow> Runtime \<Rightarrow> string \<Rightarrow> string \<Rightarrow> CommandApproval option \<Rightarrow> SessionPermissions option
    \<Rightarrow> json \<Rightarrow> Fault + unit" where
  "dispatch_permission X runtime channel operation approval perms message =
    (if approval \<noteq> None \<and> perms \<noteq> None
     then Inl (Fault_new ''APPROVAL_MISMATCH'' ''multiple execution authorization scopes'')
     else if (case perms of Some grant \<Rightarrow> \<not> permissions_match grant channel message | None \<Rightarrow> False)
     then Inl (Fault_new ''APPROVAL_MISMATCH'' ''session permissions do not authorize this operation'')
     else if (case approval of Some grant \<Rightarrow> \<not> approval_valid_for grant channel operation message
              | None \<Rightarrow> False)
     then Inl (Fault_new ''APPROVAL_MISMATCH'' ''approval does not authorize this operation'')
     else policy_validate (ex_file_path X) runtime message (approval \<noteq> None) (perms \<noteq> None))"

definition denial_response :: "json option \<Rightarrow> Fault \<Rightarrow> json" where
  "denial_response original e = JObj
    [(''id'', json_option id original),
     (''error'', JObj [(''code'', JInt (- 32000)), (''message'', JStr (Fault_text e))])]"

definition dispatch_denied ::
  "externals \<Rightarrow> string \<Rightarrow> string \<Rightarrow> json option \<Rightarrow> Fault \<Rightarrow> (server, unit) act" where
  "dispatch_denied X channel operation original e =
    (let response = denial_response original e in
     thn (complete_operation (ex_serde X) (operation_key channel operation) response)
     (bnd (append_event (ex_serde X) channel response) (\<lambda>_.
      receipt X channel operation)))"

definition executor_message :: "string \<Rightarrow> json \<Rightarrow> json" where
  "executor_message operation message =
    (if json_get message ''id'' = None then message else json_put ''id'' (JStr operation) message)"

definition dispatch_request ::
  "externals \<Rightarrow> Runtime \<Rightarrow> string \<Rightarrow> string \<Rightarrow> string \<Rightarrow> json \<Rightarrow> (server, unit) act" where
  "dispatch_request X runtime channel profile operation message =
    bnd (if json_index message ''method'' = JStr ''process/start'' then
           bnd (record_job (ex_uuid X) profile channel (json_index message ''params'')
                 (if authorized_mcp (ex_file_path X) runtime (json_index message ''params'')
                  then ''mcp'' else ''command''))
             (\<lambda>i. ret (Some i))
         else ret None) (\<lambda>job.
    thn (case json_get message ''id'' of
        None \<Rightarrow> ret ()
      | Some original \<Rightarrow>
          pending_insert channel operation \<lparr> pd_original = original, pd_job = job \<rparr>)
    (thn (Executor_send channel (Some operation) (executor_message operation message))
    (thn (if json_get (executor_message operation message) ''id'' = None
          then complete_operation (ex_serde X) (operation_key channel operation) JNull else ret ())
    (receipt X channel operation))))"

definition dispatch_allowed ::
  "externals \<Rightarrow> Runtime \<Rightarrow> string \<Rightarrow> string \<Rightarrow> string \<Rightarrow> CommandApproval option
    \<Rightarrow> SessionPermissions option \<Rightarrow> json \<Rightarrow> (server, unit) act" where
  "dispatch_allowed X runtime channel profile operation approval perms message =
    thn (case approval of None \<Rightarrow> ret () | Some a \<Rightarrow> record_approval (ex_serde X) a)
    (thn (case perms of None \<Rightarrow> ret () | Some p \<Rightarrow> record_permissions p)
    (if json_get message ''method'' = None then
       thn (Executor_send channel (Some operation) message)
       (thn (complete_operation (ex_serde X) (operation_key channel operation) JNull)
       (receipt X channel operation))
     else dispatch_request X runtime channel profile operation message))"

definition pending_count :: "string \<Rightarrow> (server, nat) act" where
  "pending_count channel = (\<lambda>s. (Inr (length (pending s channel)), s))"

definition dispatch_new ::
  "externals \<Rightarrow> Runtime \<Rightarrow> string \<Rightarrow> string \<Rightarrow> string \<Rightarrow> CommandApproval option
    \<Rightarrow> SessionPermissions option \<Rightarrow> json \<Rightarrow> (server, unit) act" where
  "dispatch_new X runtime channel profile operation approval perms message =
    bnd (pending_count channel) (\<lambda>n.
    if n \<ge> 64 then err (Fault_new ''EXECUTION_BUSY'' ''too many pending execution requests'')
    else bnd (begin_operation (ex_serde X) (operation_key channel operation)
                (operation_digest X message approval perms)) (\<lambda>_.
      (case dispatch_permission X runtime channel operation approval perms message of
         Inl e \<Rightarrow> dispatch_denied X channel operation (json_get message ''id'') e
       | Inr _ \<Rightarrow> dispatch_allowed X runtime channel profile operation approval perms message)))"

definition dispatch ::
  "externals \<Rightarrow> Runtime \<Rightarrow> string \<Rightarrow> string \<Rightarrow> string \<Rightarrow> CommandApproval option
    \<Rightarrow> SessionPermissions option \<Rightarrow> json \<Rightarrow> (server, unit) act" where
  "dispatch X runtime channel profile operation approval perms message =
    bnd (operation_state (ex_serde X) (operation_key channel operation)
          (operation_digest X message approval perms)) (\<lambda>known.
    case known of
      Some existing \<Rightarrow> dispatch_known X channel operation existing
    | None \<Rightarrow> dispatch_new X runtime channel profile operation approval perms message)"

section \<open>Collecting the executor's output\<close>

definition collect_response ::
  "externals \<Rightarrow> string \<Rightarrow> string \<Rightarrow> Pending \<Rightarrow> json \<Rightarrow> (server, json) act" where
  "collect_response X channel operation request v =
    (let v' = json_put ''id'' (pd_original request) v in
     thn (case pd_job request of
         None \<Rightarrow> ret ()
       | Some j \<Rightarrow> set_job_state j
           (if json_get v' ''error'' \<noteq> None then ''failed'' else ''running'') None)
     (thn (complete_operation (ex_serde X) (operation_key channel operation) v')
     (ret v')))"

definition collect_notification :: "externals \<Rightarrow> string \<Rightarrow> json \<Rightarrow> (server, unit) act" where
  "collect_notification X channel v =
    (let m = as_string (json_index v ''method'') in
     if m = Some ''process/output'' then record_output (ex_serde X) channel (json_index v ''params'')
     else if m = Some ''process/exited'' then
       (case pointer_string [''params'', ''processId''] v of
          None \<Rightarrow> ret ()
        | Some process \<Rightarrow>
            (let exit = Option.bind (json_pointer [''params'', ''exitCode''] v) as_int in
             bnd (process_job channel process) (\<lambda>found. case found of
               None \<Rightarrow> ret ()
             | Some j \<Rightarrow> set_job_state j (if exit = Some 0 then ''completed'' else ''failed'') exit)))
     else ret ())"

definition collect :: "externals \<Rightarrow> string \<Rightarrow> json \<Rightarrow> (server, unit) act" where
  "collect X channel v =
    (if json_get v ''method'' = None then
       (case as_string (json_index v ''id'') of
          None \<Rightarrow> ret ()
        | Some operation \<Rightarrow>
            bnd (pending_remove channel operation) (\<lambda>found. case found of
              None \<Rightarrow> ret ()
            | Some request \<Rightarrow>
                bnd (collect_response X channel operation request v) (\<lambda>v'.
                bnd (append_event (ex_serde X) channel v') (\<lambda>cursor.
                link_operation (operation_key channel operation) cursor))))
     else
       thn (collect_notification X channel v)
       (bnd (append_event (ex_serde X) channel v) (\<lambda>_. ret ())))"

section \<open>The actor\<close>

definition terminate_message :: "string \<Rightarrow> string \<Rightarrow> json" where
  "terminate_message i process = JObj
    [(''id'', JStr (''cleanup-'' @ i)), (''method'', JStr ''process/terminate''),
     (''params'', JObj [(''processId'', JStr process)])]"

definition terminate :: "externals \<Rightarrow> string \<Rightarrow> bool \<Rightarrow> (server, unit) act" where
  "terminate X channel mcp_only =
    bnd (running_processes channel mcp_only)
      (each (\<lambda>process. bnd (fresh_uuid (ex_uuid X)) (\<lambda>i.
        Executor_send channel None (terminate_message i process))))"

text \<open>\<open>execution::Input\<close> with the other events the loop selects on: output of the
  executor (\<open>None\<close> when it ended), live settings, and the timer.\<close>

datatype Input =
  Execute string json "CommandApproval option" "SessionPermissions option"
| Touch
| Detached
| RetireIdle
| Disconnected
| Stop
| Output "json option"
| Settings bool nat
| Settings_closed
| Tick

text \<open>The loop's variables; instants in nanoseconds, the grace period in seconds.\<close>

definition secs :: "nat \<Rightarrow> nat" where
  "secs n = n * 1000000000"

record actor =
  ac_runtime :: Runtime
  ac_touched :: nat
  ac_attached :: bool
  ac_detached :: bool

text \<open>\<open>is_ok_and\<close> on a storage read.\<close>

definition is_ok_and :: "(server, 'a) act \<Rightarrow> ('a \<Rightarrow> bool) \<Rightarrow> (server, bool) act" where
  "is_ok_and m p = (\<lambda>s. case m s of (Inl _, s') \<Rightarrow> (Inr False, s') | (Inr x, s') \<Rightarrow> (Inr (p x), s'))"

text \<open>One turn of the loop: the new variables, or \<open>None\<close> when it breaks.  A fault of the
  turn's result also breaks it.\<close>

definition continue :: "actor \<Rightarrow> (server, unit) act \<Rightarrow> (server, actor option) act" where
  "continue a m = (\<lambda>s. case m s of (Inl _, s') \<Rightarrow> (Inr None, s') | (Inr _, s') \<Rightarrow> (Inr (Some a), s'))"

definition actor_tick ::
  "externals \<Rightarrow> string \<Rightarrow> nat \<Rightarrow> actor \<Rightarrow> (server, actor option) act" where
  "actor_tick X channel time a =
    (let lapsed = ac_attached a \<and> time - ac_touched a > secs 15;
         a' = (if lapsed then a\<lparr> ac_attached := False, ac_touched := time \<rparr> else a);
         idle = time - ac_touched a' in
     thn (if lapsed then ignoring (terminate X channel True) else ret ())
     (if \<not> ac_attached a' \<and> \<not> rt_background (ac_runtime a') \<and> idle > secs (rt_grace (ac_runtime a'))
      then ret None
      else
        thn (if \<not> ac_attached a' \<and> idle > secs 15 then ignoring (terminate X channel True) else ret ())
        (if \<not> ac_attached a' \<and> rt_background (ac_runtime a') \<and> idle > secs 60
         then bnd (is_ok_and (active_jobs channel) (\<lambda>n. n = 0)) (\<lambda>quiet.
           ret (if quiet then None else Some a'))
         else ret (Some a'))))"

definition actor_turn ::
  "externals \<Rightarrow> string \<Rightarrow> string \<Rightarrow> nat \<Rightarrow> actor \<Rightarrow> Input \<Rightarrow> (server, actor option) act" where
  "actor_turn X channel profile time a i =
    (case i of
       Execute operation message approval perms \<Rightarrow>
         continue (a\<lparr> ac_touched := time \<rparr>)
           (dispatch X (ac_runtime a) channel profile operation approval perms message)
     | Touch \<Rightarrow> ret (Some (a\<lparr> ac_attached := True, ac_detached := False, ac_touched := time \<rparr>))
     | Detached \<Rightarrow>
         continue (a\<lparr> ac_attached := False, ac_detached := True, ac_touched := time \<rparr>)
           (terminate X channel True)
     | RetireIdle \<Rightarrow>
         if ac_detached a then
           bnd (pending_count channel) (\<lambda>n. if n \<noteq> 0 then ret (Some a) else
           bnd (is_ok_and (running_processes channel False) (\<lambda>js. js = [])) (\<lambda>idle.
             ret (if idle then None else Some a)))
         else ret (Some a)
     | Disconnected \<Rightarrow> ret (Some (a\<lparr> ac_attached := False, ac_touched := time \<rparr>))
     | Stop \<Rightarrow> ret None
     | Output (Some v) \<Rightarrow> continue a (collect X channel v)
     | Output None \<Rightarrow> ret None
     | Settings background grace \<Rightarrow>
         ret (Some (a\<lparr> ac_runtime := (ac_runtime a)\<lparr> rt_background := background, rt_grace := grace \<rparr> \<rparr>))
     | Settings_closed \<Rightarrow> ret None
     | Tick \<Rightarrow> actor_tick X channel time a)"

text \<open>After the loop: every process is told to end, the output that still arrives (the
  list is what came before the deadline) is collected until nothing runs, and the
  channel is marked lost.\<close>

fun drain :: "externals \<Rightarrow> string \<Rightarrow> json list \<Rightarrow> (server, unit) act" where
  "drain X channel [] = ignoring (running_processes channel False)"
| "drain X channel (v # vs) =
    bnd (is_ok_and (running_processes channel False) (\<lambda>js. js = [])) (\<lambda>done.
      if done then ret () else thn (ignoring (collect X channel v)) (drain X channel vs))"

definition actor_end :: "externals \<Rightarrow> string \<Rightarrow> json list \<Rightarrow> (server, unit) act" where
  "actor_end X channel late =
    thn (ignoring (terminate X channel False))
    (thn (drain X channel late)
    (ignoring (mark_channel_lost channel)))"

end
