(* ===== verification/Server_Log.thy ===== *)
theory Server_Log
  imports Server_Execution
begin

text \<open>
  The replay log of an execution channel: what \<open>append_record\<close> and
  \<open>prune_acknowledged\<close> do to the tables as pure functions, the invariant of the log,
  and the growth relation that every step of an actor respects.
\<close>

section \<open>Transactions that succeed or change nothing\<close>

lemma atomically_Inl:
  "atomically c b e body s = (Inl f, s') \<Longrightarrow> sdb s' = sdb s"
  by (auto simp: atomically_def transaction_def thn_def bnd_def attempt_def
      split: prod.splits sum.splits list.splits if_splits)

lemma atomically_Inr:
  assumes "atomically c b e body s = (Inr x, s')"
  obtains t t' s1 where "body (s\<lparr> trouble := t \<rparr>) = (Inr x, s1)" "s' = s1\<lparr> trouble := t' \<rparr>"
proof -
  obtain s1 where a: "attempt c b s = (Inr (), s1)"
    and m: "bnd body (\<lambda>x. thn (attempt c e) (ret x)) s1 = (Inr x, s')"
    using assms by (auto simp: atomically_def transaction_def thn_def bnd_def
        split: prod.splits sum.splits)
  obtain t where t: "s1 = s\<lparr> trouble := t \<rparr>" using attempt_Inr [OF a] by blast
  obtain s2 where b: "body s1 = (Inr x, s2)" and e: "attempt c e s2 = (Inr (), s')"
    using m by (auto simp: bnd_Inr thn_Inr)
  obtain t' where "s' = s2\<lparr> trouble := t' \<rparr>" using attempt_Inr [OF e] by blast
  then show thesis using that b t by blast
qed

lemma query_Inr:
  "query c m f s = (Inr x, s') \<Longrightarrow> x = f (sdb s) \<and> (\<exists>t. s' = s\<lparr> trouble := t \<rparr>)"
  by (auto simp: query_def reads_def thn_Inr dest!: attempt_Inr)

lemma query_db: "query c m f s = (r, s') \<Longrightarrow> \<exists>t. s' = s\<lparr> trouble := t \<rparr>"
  by (auto simp: query_def reads_def thn_def bnd_def attempt_def split: list.splits if_splits)
    (metis surjective server.surjective effects.update_convs(1) server.update_convs)

lemma execute_Inr:
  "execute c m f s = (Inr x, s') \<Longrightarrow> \<exists>d t. f (sdb s) = Some (x, d) \<and> s' = s\<lparr> trouble := t, sdb := d \<rparr>"
  by (auto simp: execute_def writes_def thn_Inr split: option.splits prod.splits dest!: attempt_Inr)

lemma update_Inr:
  "update c m f s = (Inr x, s') \<Longrightarrow> \<exists>t. s' = s\<lparr> trouble := t, sdb := f (sdb s) \<rparr>"
  unfolding update_def by (drule execute_Inr) auto

section \<open>The log as pure functions\<close>

fun trim_pure :: "event_row list \<Rightarrow> int \<Rightarrow> int \<Rightarrow> event_row list \<times> int \<times> int" where
  "trim_pure [] bytes low = ([], bytes, low)"
| "trim_pure (e # rows) bytes low =
    (if bytes > REPLAY_LIMIT
     then (case trim_pure rows (bytes - record_size (ev_record e)) (ev_cursor e) of
             (del, b, l) \<Rightarrow> (e # del, b, l))
     else ([], bytes, low))"

definition drop_cursors :: "int set \<Rightarrow> db \<Rightarrow> db" where
  "drop_cursors C d = d\<lparr> events := filter (\<lambda>r. ev_cursor r \<notin> C) (events d) \<rparr>"

definition push_event :: "string \<Rightarrow> string \<Rightarrow> db \<Rightarrow> db" where
  "push_event channel text d =
    d\<lparr> event_seq := event_seq d + 1, events := events d @
       [\<lparr> ev_cursor = event_seq d + 1, ev_channel = channel, ev_record = text \<rparr>] \<rparr>"

definition append_pure :: "string \<Rightarrow> string \<Rightarrow> db \<Rightarrow> db" where
  "append_pure channel text d =
    (let d1 = update_channel channel (\<lambda>r. r\<lparr> ch_bytes := ch_bytes r + record_size text \<rparr>)
           (push_event channel text d);
         bytes = (case find_channel channel d1 of None \<Rightarrow> 0 | Some r \<Rightarrow> ch_bytes r) in
     (case trim_pure (channel_events channel d1) bytes 0 of
        (del, b, l) \<Rightarrow>
          update_channel channel (\<lambda>r. r\<lparr> ch_bytes := b, ch_floor := max (ch_floor r) l \<rparr>)
            (drop_cursors (ev_cursor ` set del) d1)))"

lemma trim_replay_pure:
  "trim_replay rows b l s = (Inr (b', l'), s') \<Longrightarrow>
   \<exists>del t. trim_pure rows b l = (del, b', l')
     \<and> s' = s\<lparr> trouble := t, sdb := drop_cursors (ev_cursor ` set del) (sdb s) \<rparr>"
proof (induction rows arbitrary: b l s)
  case Nil
  then show ?case
    by (auto simp: drop_cursors_def thn_Inr split: if_splits dest!: query_Inr intro: exI [of _ "trouble s"])
next
  case (Cons e rows)
  show ?case
  proof (cases "b > REPLAY_LIMIT")
    case False
    then show ?thesis using Cons.prems
      by (auto simp: drop_cursors_def intro: exI [of _ "trouble s"])
  next
    case True
    then obtain s1 s2 where 1: "query ''STORAGE_ERROR'' ''cannot inspect replay buffer'' (\<lambda>_. ()) s = (Inr (), s1)"
      and 2: "update ''STORAGE_ERROR'' ''cannot trim replay buffer''
         (\<lambda>d. d\<lparr> events := filter (\<lambda>r. ev_cursor r \<noteq> ev_cursor e) (events d) \<rparr>) s1 = (Inr (), s2)"
      and 3: "trim_replay rows (b - record_size (ev_record e)) (ev_cursor e) s2 = (Inr (b', l'), s')"
      using Cons.prems by (auto simp: thn_Inr)
    from Cons.IH [OF 3] obtain del t where
      "trim_pure rows (b - record_size (ev_record e)) (ev_cursor e) = (del, b', l')"
      "s' = s2\<lparr> trouble := t, sdb := drop_cursors (ev_cursor ` set del) (sdb s2) \<rparr>" by blast
    then show ?thesis using True query_Inr [OF 1] update_Inr [OF 2]
      by (auto simp: drop_cursors_def conj_commute)
  qed
qed

lemma find_channel_update:
  "(\<And>r. ch_id (f r) = ch_id r) \<Longrightarrow>
   find_channel x (update_channel c f d) =
     (if x = c then map_option f (find_channel x d) else find_channel x d)"
  by (auto simp: find_channel_def update_channel_def find_map_where find_map_where_other)

lemma find_channel_events [simp]:
  "find_channel c (push_event c' t d) = find_channel c d"
  "find_channel c (drop_cursors C d) = find_channel c d"
  by (simp_all add: find_channel_def push_event_def drop_cursors_def)

lemma append_record_pure:
  assumes "append_record channel text s = (Inr cursor, s')"
  shows "cursor = event_seq (sdb s) + 1
    \<and> find_channel channel (sdb s) \<noteq> None
    \<and> (\<exists>t. s' = s\<lparr> trouble := t, sdb := append_pure channel text (sdb s) \<rparr>)"
proof -
  let ?d1 = "update_channel channel (\<lambda>r. r\<lparr> ch_bytes := ch_bytes r + record_size text \<rparr>)
      (push_event channel text (sdb s))"
  obtain t0 t9 s9 where body: "bnd (execute ''STORAGE_ERROR'' ''cannot persist execution response''
         (\<lambda>d. let c = event_seq d + 1 in Some (c, d\<lparr> event_seq := c, events := events d @
            [\<lparr> ev_cursor = c, ev_channel = channel, ev_record = text \<rparr>] \<rparr>)))
      (\<lambda>event.
       bnd (execute ''STORAGE_ERROR'' ''cannot account replay storage''
         (\<lambda>d. let d' = update_channel channel (\<lambda>r. r\<lparr> ch_bytes := ch_bytes r + record_size text \<rparr>) d in
           map_option (\<lambda>r. (ch_bytes r, d')) (find_channel channel d')))
      (\<lambda>bytes.
       bnd (\<lambda>s. trim_replay (channel_events channel (sdb s)) bytes 0 s)
      (\<lambda>(bytes, low).
       thn (update ''STORAGE_ERROR'' ''cannot update replay bounds''
         (update_channel channel (\<lambda>r. r\<lparr> ch_bytes := bytes, ch_floor := max (ch_floor r) low \<rparr>)))
       (ret event)))) (s\<lparr> trouble := t0 \<rparr>) = (Inr cursor, s9)"
    and s': "s' = s9\<lparr> trouble := t9 \<rparr>"
    using assms unfolding append_record_def by (rule atomically_Inr)
  from body obtain event s1 bytes s2 low b s3 where
    1: "execute ''STORAGE_ERROR'' ''cannot persist execution response''
         (\<lambda>d. let c = event_seq d + 1 in Some (c, d\<lparr> event_seq := c, events := events d @
            [\<lparr> ev_cursor = c, ev_channel = channel, ev_record = text \<rparr>] \<rparr>))
         (s\<lparr> trouble := t0 \<rparr>) = (Inr event, s1)"
    and 2: "execute ''STORAGE_ERROR'' ''cannot account replay storage''
         (\<lambda>d. let d' = update_channel channel (\<lambda>r. r\<lparr> ch_bytes := ch_bytes r + record_size text \<rparr>) d in
           map_option (\<lambda>r. (ch_bytes r, d')) (find_channel channel d')) s1 = (Inr bytes, s2)"
    and 3: "trim_replay (channel_events channel (sdb s2)) bytes 0 s2 = (Inr (b, low), s3)"
    and 4: "thn (update ''STORAGE_ERROR'' ''cannot update replay bounds''
         (update_channel channel (\<lambda>r. r\<lparr> ch_bytes := b, ch_floor := max (ch_floor r) low \<rparr>)))
       (ret event) s3 = (Inr cursor, s9)"
    by (auto simp: bnd_Inr)
  from execute_Inr [OF 1] obtain t1 where e: "event = event_seq (sdb s) + 1"
    and s1: "s1 = s\<lparr> trouble := t1, sdb := push_event channel text (sdb s) \<rparr>"
    by (auto simp: Let_def push_event_def)
  from execute_Inr [OF 2] obtain r t2 where r: "find_channel channel ?d1 = Some r"
    and bytes: "bytes = ch_bytes r" and s2: "s2 = s1\<lparr> trouble := t2, sdb := ?d1 \<rparr>"
    by (auto simp: Let_def s1)
  from trim_replay_pure [OF 3] obtain del t3 where
    trim: "trim_pure (channel_events channel ?d1) (ch_bytes r) 0 = (del, b, low)"
    and s3: "s3 = s2\<lparr> trouble := t3, sdb := drop_cursors (ev_cursor ` set del) ?d1 \<rparr>"
    by (auto simp: bytes s2)
  from 4 have c: "cursor = event" and "\<exists>t. s9 = s3\<lparr> trouble := t, sdb :=
      update_channel channel (\<lambda>r. r\<lparr> ch_bytes := b, ch_floor := max (ch_floor r) low \<rparr>) (sdb s3) \<rparr>"
    by (auto simp: thn_Inr dest!: update_Inr)
  then have rest: "\<exists>t. s' = s\<lparr> trouble := t, sdb := append_pure channel text (sdb s) \<rparr>"
    unfolding append_pure_def by (auto simp: s' s3 s2 s1 trim r Let_def)
  have "find_channel channel (sdb s) \<noteq> None"
    using r by (auto simp: find_channel_update split: if_splits)
  then show ?thesis using rest c e by simp
qed

lemma append_record_Inl: "append_record channel text s = (Inl f, s') \<Longrightarrow> sdb s' = sdb s"
  unfolding append_record_def by (rule atomically_Inl)

section \<open>The invariant of the log\<close>

definition events_of :: "string \<Rightarrow> event_row list \<Rightarrow> event_row list" where
  "events_of c es = filter (\<lambda>e. ev_channel e = c) es"

definition total_size :: "event_row list \<Rightarrow> int" where
  "total_size es = sum_list (map (\<lambda>e. record_size (ev_record e)) es)"

text \<open>Cursors increase in insertion order and never pass the counter; a channel's row
  accounts the bytes of its records, which fit the limit; and every record that is
  still there is above the channel's floor.\<close>

definition cursors_ok :: "db \<Rightarrow> bool" where
  "cursors_ok d \<longleftrightarrow> 0 \<le> event_seq d \<and> sorted_wrt (<) (map ev_cursor (events d))
     \<and> (\<forall>e \<in> set (events d). 0 < ev_cursor e \<and> ev_cursor e \<le> event_seq d)"

definition channel_log_ok :: "db \<Rightarrow> channel_row \<Rightarrow> bool" where
  "channel_log_ok d r \<longleftrightarrow>
     ch_bytes r = total_size (events_of (ch_id r) (events d)) \<and> ch_bytes r \<le> REPLAY_LIMIT
     \<and> 0 \<le> ch_floor r \<and> ch_floor r \<le> event_seq d
     \<and> (\<forall>e \<in> set (events_of (ch_id r) (events d)). ch_floor r < ev_cursor e)"

definition log_ok :: "db \<Rightarrow> bool" where
  "log_ok d \<longleftrightarrow> cursors_ok d \<and> distinct (map ch_id (channels d))
     \<and> (\<forall>r \<in> set (channels d). channel_log_ok d r)
     \<and> (\<forall>e \<in> set (events d). ev_channel e \<in> ch_id ` set (channels d))"

lemma total_size_append [simp]: "total_size (xs @ ys) = total_size xs + total_size ys"
  by (simp add: total_size_def)

lemma total_size_simps [simp]:
  "total_size [] = 0" "total_size (e # es) = record_size (ev_record e) + total_size es"
  by (simp_all add: total_size_def)

lemma total_size_nonneg: "0 \<le> total_size es"
  by (induction es) (simp_all add: record_size_def)

lemma events_of_append [simp]: "events_of c (xs @ ys) = events_of c xs @ events_of c ys"
  by (simp add: events_of_def)

lemma set_events_of: "e \<in> set (events_of c es) \<longleftrightarrow> e \<in> set es \<and> ev_channel e = c"
  by (auto simp: events_of_def)

lemma cursors_events_of: "sorted_wrt (<) (map ev_cursor es) \<Longrightarrow> sorted_wrt (<) (map ev_cursor (events_of c es))"
  by (simp add: events_of_def sorted_wrt_map sorted_wrt_filter)

lemma channel_events_sorted:
  "sorted_wrt (<) (map ev_cursor (events d)) \<Longrightarrow> channel_events c d = events_of c (events d)"
  unfolding channel_events_def events_of_def [symmetric]
  by (intro sort_key_id_if_sorted strict_sorted_imp_sorted cursors_events_of)

lemma trim_pure_split:
  "trim_pure rows b l = (del, b', l') \<Longrightarrow>
   \<exists>rest. rows = del @ rest \<and> b' = b - total_size del
     \<and> l' = (if del = [] then l else ev_cursor (last del))
     \<and> (rest = [] \<or> b' \<le> REPLAY_LIMIT)"
proof (induction rows arbitrary: b l del)
  case Nil
  then show ?case by simp
next
  case (Cons e rows)
  show ?case
  proof (cases "b > REPLAY_LIMIT")
    case False
    then show ?thesis using Cons.prems by auto
  next
    case True
    then obtain del1 where d: "trim_pure rows (b - record_size (ev_record e)) (ev_cursor e) = (del1, b', l')"
      "del = e # del1"
      using Cons.prems by (auto split: prod.splits)
    from Cons.IH [OF d(1)] show ?thesis by (auto simp: d(2))
  qed
qed

text \<open>Dropping a prefix of one channel's records, or the records up to a bound, from a
  list with increasing cursors.\<close>

lemma events_of_drop:
  assumes sorted: "sorted_wrt (<) (map ev_cursor es)" and split: "events_of c es = del @ rest"
  shows "events_of x (filter (\<lambda>e. ev_cursor e \<notin> ev_cursor ` set del) es)
    = (if x = c then rest else events_of x es)"
proof -
  have inj: "inj_on ev_cursor (set es)"
    using sorted by (simp add: strict_sorted_iff distinct_map)
  have del: "set del \<subseteq> set es" "\<And>e. e \<in> set del \<Longrightarrow> ev_channel e = c"
  proof -
    have "set del \<subseteq> set (events_of c es)" using split by simp
    then show "set del \<subseteq> set es" "\<And>e. e \<in> set del \<Longrightarrow> ev_channel e = c"
      by (auto simp: set_events_of)
  qed
  have mem: "ev_cursor e \<in> ev_cursor ` set del \<longleftrightarrow> e \<in> set del" if "e \<in> set es" for e
    using inj del(1) that by (auto simp: inj_on_def)
  have filter: "filter (\<lambda>e. ev_cursor e \<notin> ev_cursor ` set del) es = filter (\<lambda>e. e \<notin> set del) es"
    using mem by (intro filter_cong) auto
  show ?thesis
  proof (cases "x = c")
    case True
    have "distinct (del @ rest)"
      using cursors_events_of [OF sorted, of c] split by (metis distinct_map strict_sorted_iff)
    then have "filter (\<lambda>e. e \<notin> set del) (del @ rest) = rest"
      by (auto simp: filter_empty_conv filter_id_conv)
    moreover have "events_of c (filter (\<lambda>e. e \<notin> set del) es) = filter (\<lambda>e. e \<notin> set del) (events_of c es)"
      by (simp add: events_of_def conj_commute)
    ultimately show ?thesis unfolding filter by (simp add: split True)
  next
    case False
    then show ?thesis
      unfolding filter events_of_def filter_filter using del(2) by (auto intro!: filter_cong)
  qed
qed

text \<open>\<open>append_pure\<close> in terms of the split of the channel's records.\<close>

lemma append_pure_split:
  assumes ok: "log_ok d" and r0: "find_channel c d = Some r0"
  obtains del rest where
    "events_of c (events (push_event c text d)) = del @ rest"
    "events (append_pure c text d) = filter (\<lambda>e. ev_cursor e \<notin> ev_cursor ` set del) (events (push_event c text d))"
    "event_seq (append_pure c text d) = event_seq d + 1"
    "channels (append_pure c text d) = map_where (\<lambda>r. ch_id r = c)
       (\<lambda>r. r\<lparr> ch_bytes := total_size rest,
              ch_floor := max (ch_floor r) (if del = [] then 0 else ev_cursor (last del)) \<rparr>) (channels d)"
    "total_size rest \<le> REPLAY_LIMIT"
proof -
  let ?g = "\<lambda>r. r\<lparr> ch_bytes := ch_bytes r + record_size text \<rparr>"
  let ?d1 = "update_channel c ?g (push_event c text d)"
  let ?all = "events_of c (events (push_event c text d))"
  have sorted: "sorted_wrt (<) (map ev_cursor (events ?d1))"
    using ok by (auto simp: log_ok_def cursors_ok_def push_event_def update_channel_def sorted_wrt_append)
  have r0_ok: "channel_log_ok d r0" "ch_id r0 = c"
    using ok r0 by (auto simp: log_ok_def find_channel_def find_Some_iff)
  have found: "find_channel c ?d1 = Some (?g r0)" by (simp add: find_channel_update r0)
  have bytes: "ch_bytes (?g r0) = total_size ?all"
    using r0_ok by (simp add: channel_log_ok_def push_event_def events_of_def)
  have ce: "channel_events c ?d1 = ?all"
    using channel_events_sorted [OF sorted] by (simp add: update_channel_def)
  obtain del b l where trim: "trim_pure ?all (total_size ?all) 0 = (del, b, l)"
    by (cases "trim_pure ?all (total_size ?all) 0") auto
  from trim_pure_split [OF trim] obtain rest where rest: "?all = del @ rest"
    and b: "b = total_size ?all - total_size del" and l: "l = (if del = [] then 0 else ev_cursor (last del))"
    and lim: "rest = [] \<or> b \<le> REPLAY_LIMIT" by blast
  have b': "b = total_size rest" using b rest by simp
  have pure: "append_pure c text d =
      update_channel c (\<lambda>r. r\<lparr> ch_bytes := b, ch_floor := max (ch_floor r) l \<rparr>)
        (drop_cursors (ev_cursor ` set del) ?d1)"
    unfolding append_pure_def Let_def found option.simps bytes ce trim by simp
  show thesis
  proof (rule that [OF rest])
    show "total_size rest \<le> REPLAY_LIMIT"
      using lim b' by (cases "rest = []") (auto simp: REPLAY_LIMIT_def)
    show "channels (append_pure c text d) = map_where (\<lambda>r. ch_id r = c)
       (\<lambda>r. r\<lparr> ch_bytes := total_size rest,
              ch_floor := max (ch_floor r) (if del = [] then 0 else ev_cursor (last del)) \<rparr>) (channels d)"
      unfolding pure by (simp add: update_channel_def drop_cursors_def push_event_def b' l map_where_def)
  qed (simp_all add: pure update_channel_def drop_cursors_def push_event_def)
qed

lemma push_event_cursors: "cursors_ok d \<Longrightarrow> cursors_ok (push_event c text d)"
  by (fastforce simp: cursors_ok_def push_event_def sorted_wrt_append)

lemma cursors_ok_filter:
  "cursors_ok d \<Longrightarrow> events d' = filter p (events d) \<Longrightarrow> event_seq d' = event_seq d \<Longrightarrow> cursors_ok d'"
  by (auto simp: cursors_ok_def sorted_wrt_map sorted_wrt_filter)

lemma log_cut:
  assumes "cursors_ok d" "events_of c (events d) = del @ rest" "del \<noteq> []"
  shows "0 < ev_cursor (last del)" "ev_cursor (last del) \<le> event_seq d"
    and "e \<in> set rest \<Longrightarrow> ev_cursor (last del) < ev_cursor e"
proof -
  have "last del \<in> set (events_of c (events d))" using assms(2,3) by simp
  then show "0 < ev_cursor (last del)" "ev_cursor (last del) \<le> event_seq d"
    using assms(1) by (auto simp: cursors_ok_def set_events_of)
  have "sorted_wrt (<) (map ev_cursor (del @ rest))"
    using cursors_events_of [of "events d" c] assms(1,2) by (simp add: cursors_ok_def)
  then show "e \<in> set rest \<Longrightarrow> ev_cursor (last del) < ev_cursor e"
    using assms(3) by (auto simp: sorted_wrt_append)
qed

lemma append_pure_log_ok:
  assumes ok: "log_ok d" and r0: "find_channel c d = Some r0"
  shows "log_ok (append_pure c text d)"
proof (rule append_pure_split [OF ok r0, of "text"])
  fix del rest
  let ?es = "events (push_event c text d)" and ?d' = "append_pure c text d"
  assume split: "events_of c ?es = del @ rest"
    and es: "events ?d' = filter (\<lambda>e. ev_cursor e \<notin> ev_cursor ` set del) ?es"
    and seq: "event_seq ?d' = event_seq d + 1"
    and chans: "channels ?d' = map_where (\<lambda>r. ch_id r = c)
       (\<lambda>r. r\<lparr> ch_bytes := total_size rest,
              ch_floor := max (ch_floor r) (if del = [] then 0 else ev_cursor (last del)) \<rparr>) (channels d)"
    and lim: "total_size rest \<le> REPLAY_LIMIT"
  have push: "cursors_ok (push_event c text d)"
    using ok by (auto simp: log_ok_def intro: push_event_cursors)
  then have sorted: "sorted_wrt (<) (map ev_cursor ?es)" by (simp add: cursors_ok_def)
  note cut = log_cut [OF push split]
  have push_seq: "event_seq (push_event c text d) = event_seq d + 1" by (simp add: push_event_def)
  have of_x: "events_of x (events ?d') = (if x = c then rest else events_of x ?es)" for x
    unfolding es by (rule events_of_drop [OF sorted split])
  have other: "events_of x ?es = events_of x (events d)" if "x \<noteq> c" for x
    using that by (simp add: push_event_def events_of_def)
  have floor_below: "ch_floor r < ev_cursor e \<and> 0 < ev_cursor e"
    if "r \<in> set (channels d)" "ch_id r = c" "e \<in> set rest" for r e
  proof -
    have "e \<in> set (events_of c ?es)" using that(3) by (simp add: split)
    moreover have "channel_log_ok d r" using ok that(1) by (simp add: log_ok_def)
    ultimately show ?thesis
      using that(2) ok by (auto simp: channel_log_ok_def push_event_def set_events_of log_ok_def cursors_ok_def)
  qed
  have "cursors_ok ?d'"
    by (rule cursors_ok_filter [OF push es]) (simp add: seq push_seq)
  moreover have "distinct (map ch_id (channels ?d'))"
    using ok by (simp add: log_ok_def chans map_where_map)
  moreover have "channel_log_ok ?d' r'" if "r' \<in> set (channels ?d')" for r'
  proof -
    from that obtain r where r: "r \<in> set (channels d)" and r': "r' = (if ch_id r = c
        then r\<lparr> ch_bytes := total_size rest, ch_floor := max (ch_floor r) (if del = [] then 0 else ev_cursor (last del)) \<rparr> else r)"
      by (auto simp: chans set_map_where)
    have rok: "channel_log_ok d r" using ok r by (simp add: log_ok_def)
    show ?thesis
    proof (cases "ch_id r = c")
      case True
      then show ?thesis
        using rok r lim floor_below [OF r] cut
        by (auto simp: r' channel_log_ok_def of_x seq push_seq)
    next
      case False
      then show ?thesis using rok by (auto simp: r' channel_log_ok_def of_x other seq)
    qed
  qed
  moreover have "ev_channel e \<in> ch_id ` set (channels ?d')" if "e \<in> set (events ?d')" for e
  proof -
    have "map ch_id (channels ?d') = map ch_id (channels d)" by (simp add: chans map_where_map)
    then have "ch_id ` set (channels ?d') = ch_id ` set (channels d)" by (metis set_map)
    moreover have "c \<in> ch_id ` set (channels d)"
      using r0 by (auto simp: find_channel_def find_Some_iff)
    ultimately show ?thesis using that ok by (auto simp: es push_event_def log_ok_def split: if_splits)
  qed
  ultimately show ?thesis by (simp add: log_ok_def)
qed

section \<open>Acknowledged records\<close>

definition ack_bound :: "string \<Rightarrow> int \<Rightarrow> db \<Rightarrow> int" where
  "ack_bound c ack d = fold (\<lambda>e m. max m (ev_cursor e)) (acknowledged_rows c ack d) 0"

definition prune_pure :: "string \<Rightarrow> int \<Rightarrow> db \<Rightarrow> db" where
  "prune_pure c ack d =
    update_channel c (\<lambda>r. r\<lparr> ch_bytes := max 0 (ch_bytes r - total_size (acknowledged_rows c ack d)),
        ch_floor := max (ch_floor r) (ack_bound c ack d) \<rparr>)
      (d\<lparr> events := filter (\<lambda>e. \<not> (ev_channel e = c \<and> ev_cursor e \<le> ack_bound c ack d)) (events d) \<rparr>)"

lemma prune_acknowledged_pure:
  assumes "prune_acknowledged c ack s = (Inr u, s')"
  shows "\<exists>t. s' = s\<lparr> trouble := t, sdb := prune_pure c ack (sdb s) \<rparr>"
proof -
  let ?f = "\<lambda>d. let rows = acknowledged_rows c ack d in
     (sum_list (map (\<lambda>e. record_size (ev_record e)) rows), fold (\<lambda>e m. max m (ev_cursor e)) rows 0)"
  let ?del = "\<lambda>bound d. d\<lparr> events := filter (\<lambda>e. \<not> (ev_channel e = c \<and> ev_cursor e \<le> bound)) (events d) \<rparr>"
  let ?acc = "\<lambda>bytes bound. update_channel c (\<lambda>r. r\<lparr> ch_bytes := max 0 (ch_bytes r - bytes),
            ch_floor := max (ch_floor r) bound \<rparr>)"
  obtain t0 t9 s9 where body: "bnd (query ''STORAGE_ERROR'' ''cannot inspect acknowledged events'' ?f)
      (\<lambda>(bytes, bound).
       thn (update ''STORAGE_ERROR'' ''cannot retire acknowledged events'' (?del bound))
       (update ''STORAGE_ERROR'' ''cannot update replay bounds'' (?acc bytes bound)))
      (s\<lparr> trouble := t0 \<rparr>) = (Inr u, s9)" and s': "s' = s9\<lparr> trouble := t9 \<rparr>"
    using assms unfolding prune_acknowledged_def by (rule atomically_Inr)
  from body obtain bytes bound s1 s2 where
    1: "query ''STORAGE_ERROR'' ''cannot inspect acknowledged events'' ?f (s\<lparr> trouble := t0 \<rparr>)
        = (Inr (bytes, bound), s1)"
    and 2: "update ''STORAGE_ERROR'' ''cannot retire acknowledged events'' (?del bound) s1 = (Inr (), s2)"
    and 3: "update ''STORAGE_ERROR'' ''cannot update replay bounds'' (?acc bytes bound) s2 = (Inr u, s9)"
    by (auto simp: bnd_Inr thn_Inr)
  show ?thesis
    using query_Inr [OF 1] update_Inr [OF 2] update_Inr [OF 3]
    by (auto simp: s' prune_pure_def Let_def ack_bound_def total_size_def)
qed

lemma prune_acknowledged_Inl: "prune_acknowledged c ack s = (Inl f, s') \<Longrightarrow> sdb s' = sdb s"
  unfolding prune_acknowledged_def by (rule atomically_Inl)

lemma fold_max_cursor:
  "sorted_wrt (<) (map ev_cursor es) \<Longrightarrow> (\<And>e. e \<in> set es \<Longrightarrow> 0 < ev_cursor e) \<Longrightarrow>
   fold (\<lambda>e m. max m (ev_cursor e)) es 0 = (if es = [] then 0 else ev_cursor (last es))"
proof (induction es rule: rev_induct)
  case Nil
  then show ?case by simp
next
  case (snoc e es)
  have IH: "fold (\<lambda>e m. max m (ev_cursor e)) es 0 = (if es = [] then 0 else ev_cursor (last es))"
    using snoc by (simp add: sorted_wrt_append)
  have "es \<noteq> [] \<Longrightarrow> ev_cursor (last es) < ev_cursor e" "0 < ev_cursor e"
    using snoc.prems by (auto simp: sorted_wrt_append)
  then show ?case by (auto simp: IH)
qed

lemma filter_le_takeWhile:
  "sorted (map f xs) \<Longrightarrow> filter (\<lambda>x. f x \<le> a) xs = takeWhile (\<lambda>x. f x \<le> a) xs"
proof (induction xs)
  case Nil
  then show ?case by simp
next
  case (Cons y ys)
  show ?case
  proof (cases "f y \<le> a")
    case True
    then show ?thesis using Cons by simp
  next
    case False
    then have "filter (\<lambda>x. f x \<le> a) ys = []"
      using Cons.prems by (auto simp: filter_empty_conv)
    then show ?thesis using False by simp
  qed
qed

text \<open>With increasing cursors the acknowledged rows are a prefix of the channel's
  records that leaves the newest 128, and the bound is the cursor of the last of them.\<close>

lemma acknowledged_prefix:
  assumes ok: "cursors_ok d"
  obtains mid where
    "events_of c (events d) = acknowledged_rows c ack d @ mid
       @ drop (length (events_of c (events d)) - 128) (events_of c (events d))"
    "ack_bound c ack d =
      (if acknowledged_rows c ack d = [] then 0 else ev_cursor (last (acknowledged_rows c ack d)))"
proof -
  let ?rows = "events_of c (events d)"
  let ?head = "take (length ?rows - 128) ?rows"
  have sorted: "sorted_wrt (<) (map ev_cursor ?rows)"
    using ok cursors_events_of by (simp add: cursors_ok_def)
  have rows: "acknowledged_rows c ack d = filter (\<lambda>e. ev_cursor e \<le> ack) ?head"
    using ok by (simp add: acknowledged_rows_def Let_def channel_events_sorted cursors_ok_def)
  have head: "sorted_wrt (<) (map ev_cursor ?head)"
    using sorted by (metis sorted_wrt_take take_map)
  have prefix: "?head = acknowledged_rows c ack d @ dropWhile (\<lambda>e. ev_cursor e \<le> ack) ?head"
    unfolding rows filter_le_takeWhile [OF strict_sorted_imp_sorted [OF head]]
    by (rule takeWhile_dropWhile_id [symmetric])
  have "sorted_wrt (<) (map ev_cursor (acknowledged_rows c ack d))"
    using head by (simp add: rows sorted_wrt_map sorted_wrt_filter)
  moreover have "0 < ev_cursor e" if "e \<in> set (acknowledged_rows c ack d)" for e
    using that ok by (auto simp: rows cursors_ok_def set_events_of dest!: in_set_takeD)
  ultimately have "ack_bound c ack d =
      (if acknowledged_rows c ack d = [] then 0 else ev_cursor (last (acknowledged_rows c ack d)))"
    unfolding ack_bound_def by (rule fold_max_cursor)
  moreover have "?rows = ?head @ drop (length ?rows - 128) ?rows" by simp
  ultimately show thesis using prefix that by (metis append_assoc)
qed

lemma prune_pure_events:
  assumes ok: "cursors_ok d" and split: "events_of c (events d) = acknowledged_rows c ack d @ rest"
    and bound: "ack_bound c ack d =
      (if acknowledged_rows c ack d = [] then 0 else ev_cursor (last (acknowledged_rows c ack d)))"
  shows "events_of x (events (prune_pure c ack d)) = (if x = c then rest else events_of x (events d))"
proof -
  let ?del = "acknowledged_rows c ack d"
  have sorted: "sorted_wrt (<) (map ev_cursor (events d))" using ok by (simp add: cursors_ok_def)
  have "sorted_wrt (<) (map ev_cursor (?del @ rest))"
    using cursors_events_of [OF sorted, of c] by (simp add: split)
  then have le: "ev_cursor e \<le> ev_cursor (last ?del)" if "e \<in> set ?del" for e
    using that by (cases ?del rule: rev_cases) (auto simp: sorted_wrt_append)
  have mem: "ev_channel e = c \<and> ev_cursor e \<le> ack_bound c ack d \<longleftrightarrow> ev_cursor e \<in> ev_cursor ` set ?del"
    if e: "e \<in> set (events d)" for e
  proof -
    have pos: "0 < ev_cursor e" using ok e by (simp add: cursors_ok_def)
    have inj: "inj_on ev_cursor (set (events d))"
      using sorted by (simp add: strict_sorted_iff distinct_map)
    have sub: "set ?del \<subseteq> set (events_of c (events d))" by (simp add: split)
    have "set ?del \<subseteq> set (events d)" using sub by (auto simp: set_events_of)
    then have "ev_cursor e \<in> ev_cursor ` set ?del \<longleftrightarrow> e \<in> set ?del"
      by (rule inj_on_image_mem_iff [OF inj e])
    moreover have "e \<in> set ?del" if "ev_channel e = c" "ev_cursor e \<le> ack_bound c ack d"
    proof -
      have "e \<in> set (events_of c (events d))" using e that(1) by (simp add: set_events_of)
      then have "e \<in> set (?del @ rest)" unfolding split .
      moreover have "?del \<noteq> []" "ev_cursor e \<le> ev_cursor (last ?del)"
        using that(2) pos bound by (auto split: if_splits)
      ultimately show ?thesis using log_cut(3) [OF ok split, of e] by fastforce
    qed
    moreover have "ev_channel e = c \<and> ev_cursor e \<le> ack_bound c ack d" if "e \<in> set ?del"
      using that sub le [OF that] bound by (auto simp: set_events_of)
    ultimately show ?thesis by blast
  qed
  have "events (prune_pure c ack d) = filter (\<lambda>e. ev_cursor e \<notin> ev_cursor ` set ?del) (events d)"
    using mem by (auto simp: prune_pure_def update_channel_def intro!: filter_cong)
  then show ?thesis by (simp only: events_of_drop [OF sorted split])
qed

lemma prune_pure_channels:
  "channels (prune_pure c ack d) = map_where (\<lambda>r. ch_id r = c)
     (\<lambda>r. r\<lparr> ch_bytes := max 0 (ch_bytes r - total_size (acknowledged_rows c ack d)),
        ch_floor := max (ch_floor r) (ack_bound c ack d) \<rparr>) (channels d)"
  "event_seq (prune_pure c ack d) = event_seq d"
  "\<exists>p. events (prune_pure c ack d) = filter p (events d)"
  by (auto simp: prune_pure_def update_channel_def)

lemma prune_pure_log_ok:
  assumes ok: "log_ok d"
  shows "log_ok (prune_pure c ack d)"
proof -
  have cur: "cursors_ok d" using ok by (simp add: log_ok_def)
  let ?d' = "prune_pure c ack d" and ?del = "acknowledged_rows c ack d"
  obtain mid where "events_of c (events d) = ?del @ mid
       @ drop (length (events_of c (events d)) - 128) (events_of c (events d))"
    and bound: "ack_bound c ack d = (if ?del = [] then 0 else ev_cursor (last ?del))"
    using acknowledged_prefix [OF cur] by blast
  then obtain rest where split: "events_of c (events d) = ?del @ rest" by blast
  note of_x = prune_pure_events [OF cur split bound]
  note cut = log_cut [OF cur split]
  have "cursors_ok ?d'"
    using prune_pure_channels(3) [of c ack d] cursors_ok_filter [OF cur, of ?d']
    by (auto simp: prune_pure_channels(2))
  moreover have "distinct (map ch_id (channels ?d'))"
    using ok by (simp add: log_ok_def prune_pure_channels map_where_map)
  moreover have "channel_log_ok ?d' r'" if "r' \<in> set (channels ?d')" for r'
  proof -
    from that obtain r where r: "r \<in> set (channels d)" and r': "r' = (if ch_id r = c
        then r\<lparr> ch_bytes := max 0 (ch_bytes r - total_size ?del),
          ch_floor := max (ch_floor r) (ack_bound c ack d) \<rparr> else r)"
      by (auto simp: prune_pure_channels set_map_where)
    have rok: "channel_log_ok d r" using ok r by (simp add: log_ok_def)
    show ?thesis
    proof (cases "ch_id r = c")
      case True
      have above: "ch_floor r < ev_cursor e \<and> ack_bound c ack d < ev_cursor e" if "e \<in> set rest" for e
      proof -
        have "ch_floor r < ev_cursor e" "0 \<le> ch_floor r"
          using rok that True by (auto simp: channel_log_ok_def split)
        then show ?thesis using cut(3) [of e] that bound by auto
      qed
      have range: "ack_bound c ack d \<le> event_seq d"
        using cut(2) bound cur by (auto simp: cursors_ok_def)
      have sum: "ch_bytes r = total_size ?del + total_size rest"
        using rok True by (simp add: channel_log_ok_def split)
      show ?thesis
        using rok above range total_size_nonneg [of rest] total_size_nonneg [of ?del] True
        by (simp add: r' channel_log_ok_def of_x sum prune_pure_channels(2) le_max_iff_disj)
    next
      case False
      then show ?thesis using rok by (simp add: r' channel_log_ok_def of_x prune_pure_channels(2))
    qed
  qed
  moreover have "ev_channel e \<in> ch_id ` set (channels ?d')" if "e \<in> set (events ?d')" for e
  proof -
    have "map ch_id (channels ?d') = map ch_id (channels d)"
      by (simp add: prune_pure_channels map_where_map)
    then have "ch_id ` set (channels ?d') = ch_id ` set (channels d)" by (metis set_map)
    then show ?thesis
      using that ok prune_pure_channels(3) [of c ack d] by (auto simp: log_ok_def)
  qed
  ultimately show ?thesis by (simp add: log_ok_def)
qed

section \<open>Growth\<close>

definition rows_grow :: "('r \<Rightarrow> 'r \<Rightarrow> bool) \<Rightarrow> 'r list \<Rightarrow> 'r list \<Rightarrow> bool" where
  "rows_grow R xs ys \<longleftrightarrow> length xs \<le> length ys \<and> (\<forall>i < length xs. R (xs ! i) (ys ! i))"

definition op_le :: "op_row \<Rightarrow> op_row \<Rightarrow> bool" where
  "op_le r r' \<longleftrightarrow> op_id r' = op_id r \<and> op_digest r' = op_digest r
     \<and> (op_result r \<noteq> None \<longrightarrow> op_result r' \<noteq> None)"

definition chan_le :: "channel_row \<Rightarrow> channel_row \<Rightarrow> bool" where
  "chan_le r r' \<longleftrightarrow> ch_id r' = ch_id r \<and> ch_profile r' = ch_profile r \<and> ch_state r' = ch_state r
     \<and> ch_lost r' = ch_lost r \<and> ch_floor r \<le> ch_floor r'"

text \<open>A finished process keeps its state and exit code; nothing but the state, the
  accounting and the truncation mark of a process ever changes.\<close>

definition job_le :: "job_row \<Rightarrow> job_row \<Rightarrow> bool" where
  "job_le j j' \<longleftrightarrow>
     job_id j' = job_id j \<and> job_process j' = job_process j \<and> job_kind j' = job_kind j
     \<and> job_profile j' = job_profile j \<and> job_channel j' = job_channel j
     \<and> job_thread j' = job_thread j \<and> job_cwd j' = job_cwd j
     \<and> (\<not> unfinished j \<longrightarrow> job_state j' = job_state j \<and> job_exit j' = job_exit j)
     \<and> (job_state j = ''running'' \<longrightarrow> job_state j' \<noteq> ''starting'')
     \<and> job_bytes j \<le> job_bytes j' \<and> (job_truncated j \<longrightarrow> job_truncated j')"

definition events_kept :: "db \<Rightarrow> db \<Rightarrow> bool" where
  "events_kept d0 d \<longleftrightarrow> event_seq d0 \<le> event_seq d
     \<and> (\<forall>e \<in> set (events d0). (\<forall>r \<in> set (channels d). ch_id r = ev_channel e \<longrightarrow> ch_floor r < ev_cursor e)
          \<longrightarrow> e \<in> set (events d))
     \<and> (\<forall>e \<in> set (events d). e \<in> set (events d0) \<or> event_seq d0 < ev_cursor e)"

definition grows :: "db \<Rightarrow> db \<Rightarrow> bool" where
  "grows d0 d \<longleftrightarrow> rows_grow op_le (operations d0) (operations d)
     \<and> rows_grow chan_le (channels d0) (channels d) \<and> length (channels d0) = length (channels d)
     \<and> rows_grow job_le (jobs d0) (jobs d) \<and> events_kept d0 d
     \<and> set (approvals d0) \<subseteq> set (approvals d) \<and> set (permissions d0) \<subseteq> set (permissions d)"

definition sound :: "db \<Rightarrow> db \<Rightarrow> bool" where
  "sound d0 d \<longleftrightarrow> log_ok d \<and> grows d0 d"

lemma rows_grow_refl: "(\<And>x. R x x) \<Longrightarrow> rows_grow R xs xs"
  by (simp add: rows_grow_def)

lemma rows_grow_trans:
  "(\<And>x y z. R x y \<Longrightarrow> R y z \<Longrightarrow> R x z) \<Longrightarrow> rows_grow R xs ys \<Longrightarrow> rows_grow R ys zs \<Longrightarrow> rows_grow R xs zs"
  unfolding rows_grow_def by (meson le_trans less_le_trans)

lemma rows_grow_append: "(\<And>x. R x x) \<Longrightarrow> rows_grow R xs (xs @ ys)"
  by (simp add: rows_grow_def nth_append)

lemma rows_grow_map_where: "(\<And>x. R x x) \<Longrightarrow> (\<And>x. p x \<Longrightarrow> R x (f x)) \<Longrightarrow> rows_grow R xs (map_where p f xs)"
  by (simp add: rows_grow_def map_where_def)

lemma le_refl_rows [simp]: "op_le r r" "chan_le c c" "job_le j j"
  by (simp_all add: op_le_def chan_le_def job_le_def)

lemma le_trans_rows:
  "op_le r1 r2 \<Longrightarrow> op_le r2 r3 \<Longrightarrow> op_le r1 r3"
  "chan_le c1 c2 \<Longrightarrow> chan_le c2 c3 \<Longrightarrow> chan_le c1 c3"
  by (auto simp: op_le_def chan_le_def)

lemma job_le_trans: "job_le j1 j2 \<Longrightarrow> job_le j2 j3 \<Longrightarrow> job_le j1 j3"
  by (auto simp: job_le_def unfinished_def)

lemma rows_grow_mem:
  "rows_grow R xs ys \<Longrightarrow> x \<in> set xs \<Longrightarrow> \<exists>y \<in> set ys. R x y"
  unfolding rows_grow_def by (metis in_set_conv_nth order.strict_trans2)

lemma grows_refl: "log_ok d \<Longrightarrow> grows d d"
  by (auto simp: grows_def events_kept_def intro!: rows_grow_refl)

lemma events_kept_trans:
  assumes "events_kept d0 d1" "events_kept d1 d2" "rows_grow chan_le (channels d1) (channels d2)"
  shows "events_kept d0 d2"
  unfolding events_kept_def
proof (intro conjI ballI impI)
  show "event_seq d0 \<le> event_seq d2" using assms(1,2) by (auto simp: events_kept_def)
next
  fix e assume e: "e \<in> set (events d0)"
    and above: "\<forall>r \<in> set (channels d2). ch_id r = ev_channel e \<longrightarrow> ch_floor r < ev_cursor e"
  have "ch_floor r < ev_cursor e" if "r \<in> set (channels d1)" "ch_id r = ev_channel e" for r
    using rows_grow_mem [OF assms(3) that(1)] above that(2) by (auto simp: chan_le_def)
  then have "e \<in> set (events d1)" using assms(1) e by (auto simp: events_kept_def)
  then show "e \<in> set (events d2)" using assms(2) above by (auto simp: events_kept_def)
next
  fix e assume "e \<in> set (events d2)"
  then show "e \<in> set (events d0) \<or> event_seq d0 < ev_cursor e"
    using assms(1,2) by (force simp: events_kept_def)
qed

lemma grows_trans:
  assumes a: "grows d0 d1" and b: "grows d1 d2"
  shows "grows d0 d2"
proof -
  have "rows_grow op_le (operations d0) (operations d2)"
    using a b unfolding grows_def by (blast intro: rows_grow_trans le_trans_rows(1))
  moreover have "rows_grow chan_le (channels d0) (channels d2)"
    using a b unfolding grows_def by (blast intro: rows_grow_trans le_trans_rows(2))
  moreover have "rows_grow job_le (jobs d0) (jobs d2)"
    using a b unfolding grows_def by (blast intro: rows_grow_trans job_le_trans)
  moreover have "events_kept d0 d2"
    using a b unfolding grows_def by (blast intro: events_kept_trans)
  ultimately show ?thesis using a b unfolding grows_def by auto
qed

lemma soundI: "sound d0 d \<Longrightarrow> log_ok d' \<Longrightarrow> grows d d' \<Longrightarrow> sound d0 d'"
  by (auto simp: sound_def intro: grows_trans)

lemma sound_refl: "log_ok d \<Longrightarrow> sound d d"
  by (simp add: sound_def grows_refl)

lemma log_ok_cong:
  "events d' = events d \<Longrightarrow> event_seq d' = event_seq d \<Longrightarrow> channels d' = channels d \<Longrightarrow> log_ok d' = log_ok d"
  by (simp add: log_ok_def cursors_ok_def channel_log_ok_def)

lemma find_channel_mem: "find_channel c d = Some r \<Longrightarrow> r \<in> set (channels d) \<and> ch_id r = c"
  by (auto simp: find_channel_def find_Some_iff)

text \<open>A statement that leaves the log and the channels alone.\<close>

lemma sound_tables:
  assumes "sound d0 d" "events d' = events d" "event_seq d' = event_seq d" "channels d' = channels d"
    and "rows_grow op_le (operations d) (operations d')" "rows_grow job_le (jobs d) (jobs d')"
    and "set (approvals d) \<subseteq> set (approvals d')" "set (permissions d) \<subseteq> set (permissions d')"
  shows "sound d0 d'"
proof (rule soundI [OF assms(1)])
  show "log_ok d'"
    using assms(1) log_ok_cong [OF assms(2-4)] by (simp add: sound_def)
  show "grows d d'"
    using assms by (auto simp: grows_def events_kept_def intro!: rows_grow_refl)
qed

lemma append_pure_grows:
  assumes ok: "log_ok d" and r0: "find_channel c d = Some r0"
  shows "grows d (append_pure c text d)"
proof (rule append_pure_split [OF ok r0, of "text"])
  fix del rest
  let ?es = "events (push_event c text d)" and ?d' = "append_pure c text d"
  assume split: "events_of c ?es = del @ rest"
    and es: "events ?d' = filter (\<lambda>e. ev_cursor e \<notin> ev_cursor ` set del) ?es"
    and seq: "event_seq ?d' = event_seq d + 1"
    and chans: "channels ?d' = map_where (\<lambda>r. ch_id r = c)
       (\<lambda>r. r\<lparr> ch_bytes := total_size rest,
              ch_floor := max (ch_floor r) (if del = [] then 0 else ev_cursor (last del)) \<rparr>) (channels d)"
  have push: "cursors_ok (push_event c text d)"
    using ok by (auto simp: log_ok_def intro: push_event_cursors)
  have inj: "inj_on ev_cursor (set ?es)"
    using push by (simp add: cursors_ok_def strict_sorted_iff distinct_map)
  have sorted_del: "sorted_wrt (<) (map ev_cursor del)"
    using cursors_events_of [of ?es c] push split by (simp add: cursors_ok_def sorted_wrt_append)
  have kept: "e \<in> set (events ?d')" if e: "e \<in> set (events d)"
    and above: "\<forall>r \<in> set (channels ?d'). ch_id r = ev_channel e \<longrightarrow> ch_floor r < ev_cursor e" for e
  proof (rule ccontr)
    assume gone: "e \<notin> set (events ?d')"
    have in_es: "e \<in> set ?es" using e by (simp add: push_event_def)
    then obtain e' where e': "e' \<in> set del" "ev_cursor e = ev_cursor e'" using gone by (auto simp: es)
    have "e' \<in> set (events_of c ?es)" using e'(1) split by simp
    then have "e = e'" "ev_channel e = c"
      using inj in_es e'(2) by (auto simp: set_events_of inj_on_def)
    then have le: "ev_cursor e \<le> ev_cursor (last del)" "del \<noteq> []"
      using sorted_del e'(1) by (cases del rule: rev_cases; auto simp: sorted_wrt_append)+
    obtain r where r: "r \<in> set (channels d)" "ch_id r = c"
      using find_channel_mem [OF r0] by blast
    then have "r\<lparr> ch_bytes := total_size rest, ch_floor := max (ch_floor r) (ev_cursor (last del)) \<rparr>
        \<in> set (channels ?d')"
      using le(2) by (auto simp: chans set_map_where)
    then show False using above le(1) r(2) \<open>ev_channel e = c\<close> by fastforce
  qed
  have other: "operations ?d' = operations d" "jobs ?d' = jobs d" "approvals ?d' = approvals d"
    "permissions ?d' = permissions d"
    by (simp_all add: append_pure_def Let_def update_channel_def drop_cursors_def push_event_def
        split: prod.splits)
  have "events_kept d ?d'"
    using kept by (auto simp: events_kept_def seq es push_event_def split: if_splits)
  then show ?thesis
    by (auto simp: grows_def other chans chan_le_def intro!: rows_grow_refl rows_grow_map_where)
qed

lemma prune_pure_grows:
  assumes ok: "log_ok d"
  shows "grows d (prune_pure c ack d)"
proof -
  let ?d' = "prune_pure c ack d"
  have "e \<in> set (events ?d')" if e: "e \<in> set (events d)"
    and above: "\<forall>r \<in> set (channels ?d'). ch_id r = ev_channel e \<longrightarrow> ch_floor r < ev_cursor e" for e
  proof -
    obtain r where r: "r \<in> set (channels d)" "ch_id r = ev_channel e"
      using ok e by (auto simp: log_ok_def)
    then have "(if ch_id r = c then r\<lparr> ch_bytes := max 0 (ch_bytes r - total_size (acknowledged_rows c ack d)),
        ch_floor := max (ch_floor r) (ack_bound c ack d) \<rparr> else r) \<in> set (channels ?d')"
      unfolding prune_pure_channels set_map_where by blast
    then have "ev_channel e = c \<longrightarrow> ack_bound c ack d < ev_cursor e"
      using above r(2) by fastforce
    then show ?thesis using e by (auto simp: prune_pure_def update_channel_def)
  qed
  then have "events_kept d ?d'"
    by (auto simp: events_kept_def prune_pure_channels(2)) (simp add: prune_pure_def update_channel_def)
  then show ?thesis
    by (auto simp: grows_def prune_pure_def update_channel_def chan_le_def
        intro!: rows_grow_refl rows_grow_map_where)
qed

end
