(* ===== verification/Server_Sound.thy ===== *)
theory Server_Sound
  imports Server_Log
begin

text \<open>
  Every handler of a live channel only lets the tables grow, under any failures:
  operations keep their identity and digest, finished processes stay finished, and
  the replay log loses only what its floor declares lost.
\<close>

section \<open>Statements\<close>

lemma keeps_sound_update:
  assumes "\<And>d. events (f d) = events d \<and> event_seq (f d) = event_seq d \<and> channels (f d) = channels d
      \<and> set (approvals d) \<subseteq> set (approvals (f d)) \<and> set (permissions d) \<subseteq> set (permissions (f d))"
    and "\<And>d. rows_grow op_le (operations d) (operations (f d))"
    and "\<And>d. rows_grow job_le (jobs d) (jobs (f d))"
  shows "keeps (on_db (sound d0)) (update c m f)"
  by (rule keeps_update, rule sound_tables) (use assms in auto)

lemma keeps_sound_execute:
  assumes "\<And>d x d'. f d = Some (x, d') \<Longrightarrow> events d' = events d \<and> event_seq d' = event_seq d
      \<and> channels d' = channels d
      \<and> set (approvals d) \<subseteq> set (approvals d') \<and> set (permissions d) \<subseteq> set (permissions d')
      \<and> rows_grow op_le (operations d) (operations d') \<and> rows_grow job_le (jobs d) (jobs d')"
  shows "keeps (on_db (sound d0)) (execute c m f)"
proof (rule keeps_execute)
  fix d x d' assume "sound d0 d" "f d = Some (x, d')"
  then show "sound d0 d'" using assms [of d x d'] sound_tables [of d0 d d'] by blast
qed

lemmas grow_intros = rows_grow_refl rows_grow_append rows_grow_map_where

lemma sound_complete [keeps_rules]: "keeps (on_db (sound d0)) (complete_operation S i v)"
  unfolding complete_operation_def
  by (rule keeps_sound_update) (auto simp: op_le_def intro!: grow_intros)

lemma sound_link [keeps_rules]: "keeps (on_db (sound d0)) (link_operation i n)"
  unfolding link_operation_def
  by (rule keeps_sound_update) (auto simp: op_le_def intro!: grow_intros)

lemma sound_job_state [keeps_rules]:
  "state \<noteq> ''starting'' \<Longrightarrow> keeps (on_db (sound d0)) (set_job_state i state x)"
  unfolding set_job_state_def
  by (rule keeps_sound_update)
    (auto simp: job_le_def job_may_become_def intro!: grow_intros)

lemma keeps_decode [keeps_rules]: "keeps P (decode_text S c m v)"
  by (simp add: decode_text_def keeps_ret keeps_err split: option.splits)

lemma sound_begin_row [keeps_rules]:
  "keeps (on_db (sound d0)) (update c m (\<lambda>d. d\<lparr> operations := operations d @ [r] \<rparr>))"
  by (rule keeps_sound_update) (auto intro!: grow_intros)

lemma sound_begin [keeps_rules]: "keeps (on_db (sound d0)) (begin_operation S i digest)"
  unfolding begin_operation_def begin_existing_def by (intro keeps_rules stable_on_db)

lemma sound_state [keeps_rules]: "keeps (on_db (sound d0)) (operation_state S i digest)"
  unfolding operation_state_def by (intro keeps_rules stable_on_db)

lemma sound_permissions [keeps_rules]: "keeps (on_db (sound d0)) (record_permissions p)"
  unfolding record_permissions_def
  by (intro keeps_rules stable_on_db keeps_sound_execute) (auto split: option.splits intro!: grow_intros)

lemma sound_approval [keeps_rules]: "keeps (on_db (sound d0)) (record_approval S a)"
  unfolding record_approval_def
  by (intro keeps_sound_execute) (auto split: if_splits intro!: grow_intros)

lemma sound_record_job [keeps_rules]: "keeps (on_db (sound d0)) (record_job u p c v k)"
  unfolding record_job_def
  by (intro keeps_rules stable_on_db keeps_sound_execute) (auto split: if_splits intro!: grow_intros)

lemma sound_process_job [keeps_rules]: "keeps (on_db (sound d0)) (process_job c p)"
  unfolding process_job_def by (intro keeps_rules stable_on_db)

lemma sound_output [keeps_rules]: "keeps (on_db (sound d0)) (record_output S c v)"
  unfolding record_output_def Let_def
proof (intro keeps_rules stable_on_db)
  fix i process
  show "keeps (on_db (sound d0)) (execute ''STORAGE_ERROR'' ''cannot account process output''
      (\<lambda>d. Some (list_ex (\<lambda>j. job_id j = i \<and> job_bytes j + record_size (to_text S v) \<le> OUTPUT_LIMIT) (jobs d),
        d\<lparr> jobs := map_where (\<lambda>j. job_id j = i \<and> job_bytes j + record_size (to_text S v) \<le> OUTPUT_LIMIT)
          (\<lambda>j. j\<lparr> job_bytes := job_bytes j + record_size (to_text S v), job_updated := now d \<rparr>) (jobs d) \<rparr>)))"
    by (intro keeps_sound_execute)
      (auto simp: job_le_def record_size_def unfinished_def intro!: grow_intros)
  show "keeps (on_db (sound d0)) (update ''STORAGE_ERROR'' ''cannot save process output''
     (\<lambda>d. d\<lparr> output_seq := output_seq d + 1, outputs := outputs d @
        [\<lparr> out_cursor = output_seq d + 1, out_job = i, out_record = to_text S v \<rparr>] \<rparr>))"
    by (rule keeps_sound_update) (auto intro!: grow_intros)
  show "keeps (on_db (sound d0)) (update ''STORAGE_ERROR'' ''cannot mark truncated output''
     (\<lambda>d. d\<lparr> jobs := map_where (\<lambda>j. job_id j = i) (\<lambda>j. j\<lparr> job_truncated := True \<rparr>) (jobs d) \<rparr>))"
    by (rule keeps_sound_update) (auto simp: job_le_def unfinished_def intro!: grow_intros)
qed

lemma sound_append_record [keeps_rules]: "keeps (on_db (sound d0)) (append_record c v)"
  unfolding keeps_def
proof (intro allI impI)
  fix s assume s: "on_db (sound d0) s"
  obtain r s' where run: "append_record c v s = (r, s')" by fastforce
  show "on_db (sound d0) (snd (append_record c v s))"
  proof (cases r)
    case (Inl f)
    then show ?thesis using run s append_record_Inl [of c v s f s'] by (simp add: on_db_def)
  next
    case (Inr cursor)
    then obtain r0 where "find_channel c (sdb s) = Some r0" "sdb s' = append_pure c v (sdb s)"
      using run append_record_pure [of c v s cursor s'] by auto
    then show ?thesis
      using run s by (auto simp: on_db_def sound_def intro: append_pure_log_ok
          intro!: grows_trans [of d0 "sdb s"] append_pure_grows)
  qed
qed

lemma sound_append_event [keeps_rules]: "keeps (on_db (sound d0)) (append_event S c v)"
  unfolding append_event_def by (rule sound_append_record)

lemma sound_prune [keeps_rules]: "keeps (on_db (sound d0)) (prune_acknowledged c n)"
  unfolding keeps_def
proof (intro allI impI)
  fix s assume s: "on_db (sound d0) s"
  obtain r s' where run: "prune_acknowledged c n s = (r, s')" by fastforce
  show "on_db (sound d0) (snd (prune_acknowledged c n s))"
  proof (cases r)
    case (Inl f)
    then show ?thesis using run s prune_acknowledged_Inl [of c n s f s'] by (simp add: on_db_def)
  next
    case (Inr u)
    then have "sdb s' = prune_pure c n (sdb s)"
      using run prune_acknowledged_pure [of c n s u s'] by auto
    then show ?thesis
      using run s by (auto simp: on_db_def sound_def intro: prune_pure_log_ok
          intro!: grows_trans [of d0 "sdb s"] prune_pure_grows)
  qed
qed

lemma sound_acknowledge [keeps_rules]: "keeps (on_db (sound d0)) (acknowledge_events c n)"
  unfolding acknowledge_events_def
  by (intro keeps_rules keeps_sound_update) (auto simp: op_le_def intro!: grow_intros)

section \<open>Handlers\<close>

lemma sound_receipt [keeps_rules]: "keeps (on_db (sound d0)) (receipt X c t)"
  unfolding receipt_def by (intro keeps_rules)

lemma sound_count [keeps_rules]: "keeps P (pending_count c)"
  by (simp add: keeps_def pending_count_def)

lemma sound_dispatch [keeps_rules]: "keeps (on_db (sound d0)) (dispatch X rt c p t a g v)"
  unfolding dispatch_def dispatch_known_def dispatch_new_def dispatch_denied_def dispatch_allowed_def
    dispatch_request_def Let_def
  by (intro keeps_rules)

lemma sound_collect [keeps_rules]: "keeps (on_db (sound d0)) (collect X c v)"
  unfolding collect_def collect_response_def collect_notification_def Let_def
  by (intro keeps_rules) simp_all

lemma sound_terminate [keeps_rules]: "keeps (on_db (sound d0)) (terminate X c m)"
  unfolding terminate_def running_processes_def by (intro keeps_rules stable_on_db)

lemma keeps_continue [keeps_rules]: "keeps P m \<Longrightarrow> keeps P (continue a m)"
  unfolding keeps_def continue_def by (auto split: prod.splits sum.splits; metis snd_conv)

lemma keeps_is_ok_and [keeps_rules]: "keeps P m \<Longrightarrow> keeps P (is_ok_and m p)"
  unfolding keeps_def is_ok_and_def by (auto split: prod.splits sum.splits; metis snd_conv)

lemma sound_queries [keeps_rules]:
  "keeps (on_db (sound d0)) (active_jobs c)" "keeps (on_db (sound d0)) (running_processes c b)"
  unfolding active_jobs_def running_processes_def by (intro keeps_rules stable_on_db)+

lemma sound_turn: "keeps (on_db (sound d0)) (actor_turn X c p time a i)"
  unfolding actor_turn_def actor_tick_def Let_def
  by (cases i) (simp_all split: option.splits, (intro keeps_rules conjI allI impI)+)

end
