(* ===== verification/Server_Once.thy ===== *)
theory Server_Once
  imports Server_Sound
begin

text \<open>
  What a handler writes to the executor: nothing, or the one message it was given,
  after the operation's intent is stored, its authorization checked and recorded.
\<close>

definition quiet :: "(server, 'a) act \<Rightarrow> bool" where
  "quiet m \<longleftrightarrow> (\<forall>s. sent (snd (m s)) = sent s)"

definition once :: "string \<times> string option \<times> json \<Rightarrow> (server, 'a) act \<Rightarrow> bool" where
  "once x m \<longleftrightarrow> (\<forall>s. sent (snd (m s)) = sent s \<or> sent (snd (m s)) = sent s @ [x])"

lemma quiet_keeps: "(\<And>L. keeps (on_sent (\<lambda>l. l = L)) m) \<Longrightarrow> quiet m"
  by (simp add: quiet_def keeps_def on_sent_def)

lemma quietD: "quiet m \<Longrightarrow> m s = (r, s') \<Longrightarrow> sent s' = sent s"
  by (metis quiet_def snd_conv)

lemma onceD: "once x m \<Longrightarrow> m s = (r, s') \<Longrightarrow> sent s' = sent s \<or> sent s' = sent s @ [x]"
  by (metis once_def snd_conv)

lemma quiet_once: "quiet m \<Longrightarrow> once x m"
  by (simp add: quiet_def once_def)

lemma once_bnd_quiet: "once x m \<Longrightarrow> (\<And>y. quiet (k y)) \<Longrightarrow> once x (bnd m k)"
  unfolding once_def quiet_def bnd_def by (auto split: prod.splits sum.splits; metis snd_conv)

lemma quiet_bnd_once: "quiet m \<Longrightarrow> (\<And>y. once x (k y)) \<Longrightarrow> once x (bnd m k)"
  unfolding once_def quiet_def bnd_def by (auto split: prod.splits sum.splits; metis snd_conv)

lemma once_thn_quiet: "once x m \<Longrightarrow> quiet k \<Longrightarrow> once x (thn m k)"
  unfolding thn_def by (rule once_bnd_quiet)

lemma quiet_thn_once: "quiet m \<Longrightarrow> once x k \<Longrightarrow> once x (thn m k)"
  unfolding thn_def by (rule quiet_bnd_once)

lemma once_send: "once (c, t, v) (Executor_send c t v)"
  by (auto simp: once_def Executor_send_def Let_def split: list.splits bool.splits)

section \<open>Quiet actions\<close>

lemma sent_storage [keeps_rules]:
  "keeps (on_sent P) (complete_operation S i v)" "keeps (on_sent P) (link_operation i n)"
  "keeps (on_sent P) (set_job_state j state x)" "keeps (on_sent P) (record_permissions g)"
  "keeps (on_sent P) (record_approval S a)" "keeps (on_sent P) (process_job c p)"
  unfolding complete_operation_def link_operation_def set_job_state_def record_permissions_def
    record_approval_def process_job_def
  by (intro keeps_rules)+

lemma sent_record_job [keeps_rules]: "keeps (on_sent P) (record_job u p c v k)"
  unfolding record_job_def by (intro keeps_rules)

lemma sent_output [keeps_rules]: "keeps (on_sent P) (record_output S c v)"
  unfolding record_output_def Let_def by (intro keeps_rules)

lemma sent_begin [keeps_rules]: "keeps (on_sent P) (begin_operation S i digest)"
  unfolding begin_operation_def begin_existing_def by (intro keeps_rules)

lemma sent_state [keeps_rules]: "keeps (on_sent P) (operation_state S i digest)"
  unfolding operation_state_def by (intro keeps_rules)

lemma sent_trim [keeps_rules]: "keeps (on_sent P) (trim_replay rows b l)"
  by (induction rows arbitrary: b l) (auto intro!: keeps_rules simp: keeps_ret)

lemma sent_trim_here [keeps_rules]: "keeps (on_sent P) (\<lambda>s. trim_replay (f s) b l s)"
  using sent_trim by (simp add: keeps_def)

lemma sent_append_record [keeps_rules]: "keeps (on_sent P) (append_record c v)"
  unfolding append_record_def by (intro keeps_rules)

lemma sent_append_event [keeps_rules]: "keeps (on_sent P) (append_event S c v)"
  unfolding append_event_def by (rule sent_append_record)

lemma sent_receipt [keeps_rules]: "keeps (on_sent P) (receipt X c t)"
  unfolding receipt_def by (intro keeps_rules)

lemma quiet_collect: "quiet (collect X c v)"
  unfolding collect_def collect_response_def collect_notification_def Let_def
  by (intro quiet_keeps keeps_rules)

lemma quiet_known: "quiet (dispatch_known X c t e)"
  unfolding dispatch_known_def by (intro quiet_keeps keeps_rules)

lemma quiet_denied: "quiet (dispatch_denied X c t orig e)"
  unfolding dispatch_denied_def Let_def by (intro quiet_keeps keeps_rules)

lemma once_request: "once (c, Some t, executor_message t v) (dispatch_request X rt c p t v)"
  unfolding dispatch_request_def
  by (intro quiet_bnd_once quiet_thn_once once_thn_quiet once_send quiet_keeps keeps_rules)

lemma once_allowed_request:
  assumes "json_get v ''method'' \<noteq> None"
  shows "once (c, Some t, executor_message t v) (dispatch_allowed X rt c p t a g v)"
proof -
  have "(json_get v ''method'' = None) = False" using assms by simp
  then show ?thesis
    unfolding dispatch_allowed_def
    by (simp only: if_False) (intro quiet_thn_once once_request; intro quiet_keeps keeps_rules)
qed

lemma once_allowed_response:
  assumes "json_get v ''method'' = None"
  shows "once (c, Some t, v) (dispatch_allowed X rt c p t a g v)"
proof -
  have A: "once (c, Some t, v) (thn (Executor_send c (Some t) v)
      (thn (complete_operation (ex_serde X) (operation_key c t) JNull) (receipt X c t)))"
    by (intro once_thn_quiet once_send; intro quiet_keeps keeps_rules)
  show ?thesis
    unfolding dispatch_allowed_def if_P [OF assms]
    by (intro quiet_thn_once A; intro quiet_keeps keeps_rules)
qed

section \<open>The operation log\<close>

definition known :: "db \<Rightarrow> string \<Rightarrow> bool" where
  "known d k \<longleftrightarrow> k \<in> op_id ` set (operations d)"

lemma find_operation_known: "find_operation k d = None \<longleftrightarrow> \<not> known d k"
  by (auto simp: find_operation_def known_def find_None_iff)

lemma grows_known:
  assumes "grows d0 d" "known d0 k"
  shows "known d k"
proof -
  from assms(2) obtain r where r: "r \<in> set (operations d0)" "op_id r = k" by (auto simp: known_def)
  have "rows_grow op_le (operations d0) (operations d)" using assms(1) by (simp add: grows_def)
  from rows_grow_mem [OF this r(1)] obtain r' where "r' \<in> set (operations d)" "op_le r r'" by blast
  then have "op_id r' = k" using r(2) by (simp add: op_le_def)
  then show ?thesis using \<open>r' \<in> set (operations d)\<close> by (auto simp: known_def)
qed

lemma operation_state_None:
  assumes "operation_state S k digest s = (Inr None, s')"
  shows "\<not> known (sdb s) k \<and> sdb s' = sdb s"
proof -
  obtain row s1 where q: "query ''STORAGE_ERROR'' ''cannot inspect execution request'' (find_operation k) s = (Inr row, s1)"
    and rest: "(case row of
       None \<Rightarrow> ret None
     | Some r \<Rightarrow>
         if op_digest r \<noteq> digest
         then err (Fault_new ''REQUEST_CONFLICT'' ''request identity reused with different arguments'')
         else (case op_result r of
             None \<Rightarrow> ret (Some None)
           | Some text \<Rightarrow>
               bnd (decode_text S ''STORAGE_ERROR'' ''invalid execution result'' text)
                 (\<lambda>v. ret (Some (Some v))))) s1 = (Inr None, s')"
    using assms unfolding operation_state_def by (auto simp: bnd_Inr)
  have "row = None \<and> s' = s1"
    using rest by (cases row) (auto simp: bnd_Inr split: if_splits option.splits)
  then show ?thesis
    using query_Inr [OF q] find_operation_known [of k "sdb s"] by auto
qed

lemma begin_existing_db: "begin_existing S digest r s = (Inr v, s') \<Longrightarrow> s' = s"
  by (auto simp: begin_existing_def bnd_Inr decode_text_def split: if_splits option.splits)

lemma begin_operation_Inr:
  assumes "begin_operation S k digest s = (Inr v, s')"
  shows "known (sdb s') k"
proof -
  let ?find = "query ''STORAGE_ERROR'' ''cannot inspect operation'' (find_operation k)"
  let ?add = "update ''STORAGE_ERROR'' ''cannot persist operation intent''
     (\<lambda>d. d\<lparr> operations := operations d @
       [\<lparr> op_id = k, op_digest = digest, op_result = None, op_cursor = None \<rparr>] \<rparr>)"
  obtain t t' s1 where
    b: "bnd ?find (\<lambda>existing. case existing of
         Some r \<Rightarrow> begin_existing S digest r | None \<Rightarrow> thn ?add (ret None)) (s\<lparr> trouble := t \<rparr>) = (Inr v, s1)"
    and s': "s' = s1\<lparr> trouble := t' \<rparr>"
    using assms unfolding begin_operation_def by (rule atomically_Inr)
  from b obtain row s0 where q: "?find (s\<lparr> trouble := t \<rparr>) = (Inr row, s0)"
    and rest: "(case row of Some r \<Rightarrow> begin_existing S digest r | None \<Rightarrow> thn ?add (ret None)) s0 = (Inr v, s1)"
    by (auto simp: bnd_Inr)
  have row: "row = find_operation k (sdb s)" "sdb s0 = sdb s" using query_Inr [OF q] by auto
  show ?thesis
  proof (cases row)
    case None
    then have "thn ?add (ret None) s0 = (Inr v, s1)" using rest by simp
    then obtain x s2 where "?add s0 = (Inr x, s2)" "s1 = s2" by (auto simp: thn_Inr)
    then show ?thesis using update_Inr [of _ _ _ s0 x s2] s' by (fastforce simp: known_def)
  next
    case (Some r)
    then have "s1 = s0" using rest begin_existing_db by auto
    moreover have "known (sdb s) k" using row Some find_operation_known [of k "sdb s"] by (metis option.distinct(1))
    ultimately show ?thesis using row(2) s' by simp
  qed
qed

section \<open>Authorizations\<close>

text \<open>What the tables hold of the authorization a message was sent under.\<close>

definition recorded :: "db \<Rightarrow> CommandApproval option \<Rightarrow> SessionPermissions option \<Rightarrow> bool" where
  "recorded d approval perms \<longleftrightarrow>
     (case approval of None \<Rightarrow> True | Some a \<Rightarrow> appr_id a \<in> ap_id ` set (approvals d))
     \<and> (case perms of None \<Rightarrow> True
        | Some g \<Rightarrow> \<exists>p \<in> set (permissions d). perm_id p = perm_id g \<and> perm_channel p = perm_channel g
            \<and> perm_thread p = perm_thread g)"

lemma grows_recorded: "grows d0 d \<Longrightarrow> recorded d0 a g \<Longrightarrow> recorded d a g"
  unfolding recorded_def grows_def by (auto split: option.splits)

lemma record_approval_Inr:
  "record_approval S a s = (Inr u, s') \<Longrightarrow>
     appr_id a \<notin> ap_id ` set (approvals (sdb s)) \<and> appr_id a \<in> ap_id ` set (approvals (sdb s'))
     \<and> permissions (sdb s') = permissions (sdb s)"
  unfolding record_approval_def by (drule execute_Inr) (auto simp: list_ex_iff split: if_splits)

lemma record_permissions_Inr:
  assumes "record_permissions g s = (Inr u, s')"
  shows "(\<exists>p \<in> set (permissions (sdb s')). perm_id p = perm_id g \<and> perm_channel p = perm_channel g
            \<and> perm_thread p = perm_thread g) \<and> approvals (sdb s') = approvals (sdb s)"
proof -
  from assms obtain written where
    e: "execute ''PERMISSION_STORAGE'' ''cannot record session permissions''
      (\<lambda>d. case find (\<lambda>r. perm_id r = perm_id g) (permissions d) of
          None \<Rightarrow> Some (True, d\<lparr> permissions := permissions d @ [g] \<rparr>)
        | Some r \<Rightarrow> Some (perm_channel r = perm_channel g \<and> perm_thread r = perm_thread g, d)) s
      = (Inr written, s')" "written"
    unfolding record_permissions_def by (auto simp: bnd_Inr split: if_splits)
  show ?thesis
  proof (cases "find (\<lambda>r. perm_id r = perm_id g) (permissions (sdb s))")
    case None
    then show ?thesis using execute_Inr [OF e(1)] e(2) by auto
  next
    case (Some r)
    then have "r \<in> set (permissions (sdb s)) \<and> perm_id r = perm_id g"
      by (auto simp: find_Some_iff)
    then show ?thesis using execute_Inr [OF e(1)] e(2) Some by auto
  qed
qed

lemma authorization_Inr:
  assumes "thn (case approval of None \<Rightarrow> ret () | Some a \<Rightarrow> record_approval S a)
      (case perms of None \<Rightarrow> ret () | Some p \<Rightarrow> record_permissions p) s = (Inr u, s')"
  shows "recorded (sdb s') approval perms"
  using assms
  by (cases approval; cases perms)
    (auto simp: thn_Inr recorded_def dest!: record_approval_Inr record_permissions_Inr)

section \<open>Dispatch\<close>

definition sent_message :: "string \<Rightarrow> json \<Rightarrow> json" where
  "sent_message operation message =
    (if json_get message ''method'' = None then message else executor_message operation message)"

lemma once_allowed: "once (c, Some t, sent_message t v) (dispatch_allowed X rt c p t a g v)"
  by (cases "json_get v ''method''")
    (simp_all add: sent_message_def once_allowed_request once_allowed_response)

text \<open>A dispatch that writes has recorded the authorization first: if recording fails,
  nothing is written.\<close>

lemma dispatch_allowed_recorded:
  assumes ok: "log_ok (sdb s)" and run: "dispatch_allowed X rt c p t a g v s = (r, s')"
    and wrote: "sent s' \<noteq> sent s"
  shows "recorded (sdb s') a g"
proof -
  let ?auth = "thn (case a of None \<Rightarrow> ret () | Some a \<Rightarrow> record_approval (ex_serde X) a)
      (case g of None \<Rightarrow> ret () | Some p \<Rightarrow> record_permissions p)"
  let ?rest = "if json_get v ''method'' = None then
       thn (Executor_send c (Some t) v)
       (thn (complete_operation (ex_serde X) (operation_key c t) JNull) (receipt X c t))
     else dispatch_request X rt c p t v"
  have split: "dispatch_allowed X rt c p t a g v = thn ?auth ?rest"
    by (simp add: dispatch_allowed_def thn_def bnd_assoc)
  obtain r1 s1 where auth: "?auth s = (r1, s1)" by fastforce
  have "quiet ?auth" by (intro quiet_keeps keeps_rules)
  then have same: "sent s1 = sent s" using auth by (rule quietD)
  obtain u where r1: "r1 = Inr u" and rest: "?rest s1 = (r, s')"
    using run wrote same auth unfolding split by (cases r1) (auto simp: thn_def bnd_simp)
  have rec: "recorded (sdb s1) a g" using auth unfolding r1 by (rule authorization_Inr)
  have "keeps (on_db (sound (sdb s))) ?auth" by (intro keeps_rules)
  then have "log_ok (sdb s1)"
    using sound_refl [OF ok] keepsD [of "on_db (sound (sdb s))" ?auth s, OF _ _ auth]
    by (simp add: on_db_def sound_def)
  moreover have "keeps (on_db (sound (sdb s1))) ?rest"
    unfolding dispatch_request_def by (intro keeps_rules)
  ultimately have "sound (sdb s1) (sdb s')"
    using sound_refl keepsD [of "on_db (sound (sdb s1))" ?rest s1, OF _ _ rest] by (simp add: on_db_def)
  then show ?thesis using rec grows_recorded by (auto simp: sound_def)
qed

text \<open>The whole of \<open>dispatch\<close>.\<close>

lemma dispatch_once:
  assumes ok: "log_ok (sdb s)" and run: "dispatch X rt c p t a g v s = (r, s')"
  shows "sent s' = sent s
    \<or> (sent s' = sent s @ [(c, Some t, sent_message t v)]
       \<and> dispatch_permission X rt c t a g v = Inr ()
       \<and> \<not> known (sdb s) (operation_key c t) \<and> known (sdb s') (operation_key c t)
       \<and> recorded (sdb s') a g)"
proof (cases "sent s' = sent s")
  case False
  let ?state = "operation_state (ex_serde X) (operation_key c t) (operation_digest X v a g)"
  let ?start = "begin_operation (ex_serde X) (operation_key c t) (operation_digest X v a g)"
  obtain r1 s1 where st: "?state s = (r1, s1)" by fastforce
  have "quiet ?state" by (intro quiet_keeps keeps_rules)
  then have s1: "sent s1 = sent s" using st by (rule quietD)
  then have "r1 = Inr None"
    using False run st quietD [OF quiet_known] unfolding dispatch_def
    by (cases r1; cases "projr r1") (auto simp: bnd_simp)
  then have fresh: "\<not> known (sdb s) (operation_key c t)" "sdb s1 = sdb s"
    and new: "dispatch_new X rt c p t a g v s1 = (r, s')"
    using operation_state_None st run by (auto simp: dispatch_def bnd_simp)
  obtain r2 s2 where beg: "?start s1 = (r2, s2)" by fastforce
  have "quiet ?start" by (intro quiet_keeps keeps_rules)
  then have s2: "sent s2 = sent s1" using beg by (rule quietD)
  obtain u where r2: "r2 = Inr u"
    and rest: "(case dispatch_permission X rt c t a g v of
         Inl e \<Rightarrow> dispatch_denied X c t (json_get v ''id'') e
       | Inr _ \<Rightarrow> dispatch_allowed X rt c p t a g v) s2 = (r, s')"
    using new beg False s1 s2 unfolding dispatch_new_def
    by (cases r2) (auto simp: bnd_simp pending_count_def split: if_splits)
  have allowed: "dispatch_permission X rt c t a g v = Inr ()"
    using rest False s1 s2 quietD [OF quiet_denied]
    by (cases "dispatch_permission X rt c t a g v") auto
  then have run2: "dispatch_allowed X rt c p t a g v s2 = (r, s')" using rest by simp
  have known2: "known (sdb s2) (operation_key c t)" using beg unfolding r2 by (rule begin_operation_Inr)
  have "sound (sdb s1) (sdb s2)"
    using keepsD [of "on_db (sound (sdb s1))" ?start s1, OF _ _ beg] ok fresh(2)
    by (auto simp: on_db_def sound_refl sound_begin)
  then have ok2: "log_ok (sdb s2)" by (simp add: sound_def)
  have "keeps (on_db (sound (sdb s2))) (dispatch_allowed X rt c p t a g v)"
    unfolding dispatch_allowed_def dispatch_request_def by (intro keeps_rules)
  then have "sound (sdb s2) (sdb s')"
    using sound_refl [OF ok2] run2 keepsD by (fastforce simp: on_db_def)
  then have "known (sdb s') (operation_key c t)" using known2 grows_known by (auto simp: sound_def)
  moreover have "recorded (sdb s') a g"
    using dispatch_allowed_recorded [OF ok2 run2] False s1 s2 by simp
  ultimately show ?thesis
    using onceD [OF once_allowed run2] False s1 s2 allowed fresh(1) by auto
qed simp

end
