(* ===== verification/Server_System.thy ===== *)
theory Server_System
  imports Server_Once
begin

text \<open>
  The execution service as a transition system: channels are opened, their actors
  take turns in any interleaving and end, clients acknowledge events, configurations
  are saved, and the service restarts at any moment.  The oracle makes any storage
  or pipe call fail.  Each handler is one step.
\<close>

section \<open>Retention\<close>

definition retire_pure :: "string \<Rightarrow> db \<Rightarrow> db" where
  "retire_pure c d =
    d\<lparr> operations := filter (\<lambda>r. op_prefix (op_id r) \<noteq> c) (operations d),
       events := filter (\<lambda>e. ev_channel e \<noteq> c) (events d),
       approvals := filter (\<lambda>a. ap_channel a \<noteq> c) (approvals d),
       permissions := filter (\<lambda>p. perm_channel p \<noteq> c) (permissions d),
       channels := map_where (\<lambda>r. ch_id r = c)
         (\<lambda>r. r\<lparr> ch_lost := Some ''evidence_expired'', ch_bytes := 0 \<rparr>) (channels d) \<rparr>"

lemma retire_channel_Inr:
  "retire_channel c s = (Inr u, s') \<Longrightarrow> sdb s' = retire_pure c (sdb s)"
  unfolding retire_channel_def
  by (auto simp: thn_Inr retire_pure_def dest!: update_Inr)

lemma each_retire_Inr:
  "each retire_channel cs s = (Inr u, s') \<Longrightarrow> sdb s' = fold retire_pure cs (sdb s)"
  by (induction cs arbitrary: s) (auto simp: thn_Inr dest!: retire_channel_Inr)

lemma retire_closed_cases:
  assumes "retire_closed_evidence s = (r, s')"
  shows "sdb s' = sdb s \<or> sdb s' = fold retire_pure (closed_channels (sdb s)) (sdb s)"
proof (cases r)
  case (Inl f)
  then show ?thesis using assms unfolding retire_closed_evidence_def by (auto dest: atomically_Inl)
next
  case (Inr u)
  obtain t t' s1 where b: "bnd (query ''STORAGE_ERROR'' ''cannot inspect closed executions'' closed_channels)
        (each retire_channel) (s\<lparr> trouble := t \<rparr>) = (Inr u, s1)" "s' = s1\<lparr> trouble := t' \<rparr>"
    using assms unfolding retire_closed_evidence_def Inr by (rule atomically_Inr)
  then show ?thesis by (auto simp: bnd_Inr dest!: query_Inr each_retire_Inr)
qed

lemma closed_channels_lost:
  "c \<in> set (closed_channels d) \<Longrightarrow> \<exists>r \<in> set (channels d). ch_id r = c \<and> ch_state r = ''lost''"
  by (auto simp: closed_channels_def dest!: in_set_dropD)

lemma map_where_channel_log:
  assumes "\<And>r. ch_id (f r) = ch_id r"
    and "\<And>r. r \<in> set rs \<Longrightarrow> p r \<Longrightarrow> channel_log_ok d' (f r)"
    and "\<And>r. r \<in> set rs \<Longrightarrow> \<not> p r \<Longrightarrow> channel_log_ok d' r"
  shows "\<forall>r \<in> set (map_where p f rs). channel_log_ok d' r"
  using assms by (auto simp: set_map_where)

lemma retire_pure_log_ok:
  assumes ok: "log_ok d"
  shows "log_ok (retire_pure c d)"
proof -
  let ?d' = "retire_pure c d"
  have of_x: "events_of x (events ?d') = (if x = c then [] else events_of x (events d))" for x
    by (auto simp: retire_pure_def events_of_def intro!: filter_cong)
  have "cursors_ok ?d'"
    by (rule cursors_ok_filter [of d]) (use ok in \<open>auto simp: log_ok_def retire_pure_def\<close>)
  moreover have "distinct (map ch_id (channels ?d'))"
    using ok by (simp add: log_ok_def retire_pure_def map_where_map)
  moreover have "\<forall>r \<in> set (channels ?d'). channel_log_ok ?d' r"
  proof -
    have seq: "event_seq ?d' = event_seq d" by (simp add: retire_pure_def)
    have "channel_log_ok d r \<and> total_size (events_of (ch_id r) (events d)) \<le> REPLAY_LIMIT"
      if "r \<in> set (channels d)" for r
      using ok that by (metis channel_log_ok_def log_ok_def)
    then show ?thesis
      unfolding retire_pure_def [THEN arg_cong, of channels, simplified]
      by (intro map_where_channel_log)
        (auto simp: channel_log_ok_def of_x seq REPLAY_LIMIT_def)
  qed
  moreover have "ch_id ` set (channels ?d') = ch_id ` set (channels d)"
  proof -
    have "map ch_id (channels ?d') = map ch_id (channels d)" by (simp add: retire_pure_def map_where_map)
    then show ?thesis by (metis set_map)
  qed
  then have "\<forall>e \<in> set (events ?d'). ev_channel e \<in> ch_id ` set (channels ?d')"
    using ok by (auto simp: log_ok_def retire_pure_def)
  ultimately show ?thesis by (simp add: log_ok_def)
qed

text \<open>Channels a retirement leaves alone, and what it keeps of them.\<close>

definition running :: "db \<Rightarrow> string \<Rightarrow> bool" where
  "running d c \<longleftrightarrow> (c, ''running'') \<in> set (map (\<lambda>r. (ch_id r, ch_state r)) (channels d))"

definition channel_known :: "db \<Rightarrow> string \<Rightarrow> bool" where
  "channel_known d c \<longleftrightarrow> c \<in> set (map ch_id (channels d))"

lemma runningE:
  assumes "running d c"
  obtains r where "r \<in> set (channels d)" "ch_id r = c" "ch_state r = ''running''"
  using assms unfolding running_def by auto

lemma runningI: "r \<in> set (channels d) \<Longrightarrow> ch_id r = c \<Longrightarrow> ch_state r = ''running'' \<Longrightarrow> running d c"
  unfolding running_def by force

lemma split_once_slash: "CHR ''/'' \<notin> set c \<Longrightarrow> split_once ''/'' (c @ ''/'' @ t) = Some (c, t)"
  by (induction c) (auto simp: starts_with_def)

lemma op_prefix_key: "CHR ''/'' \<notin> set c \<Longrightarrow> op_prefix (operation_key c t) = c"
  using split_once_slash [of c t] by (simp add: op_prefix_def operation_key_def)

lemma retire_pure_keeps:
  "running (retire_pure x d) c \<longleftrightarrow> running d c"
  "channel_known (retire_pure x d) c \<longleftrightarrow> channel_known d c"
  "x \<noteq> c \<Longrightarrow> CHR ''/'' \<notin> set c \<Longrightarrow> known d (operation_key c t) \<Longrightarrow> known (retire_pure x d) (operation_key c t)"
proof -
  have "map (\<lambda>r. (ch_id r, ch_state r)) (channels (retire_pure x d)) = map (\<lambda>r. (ch_id r, ch_state r)) (channels d)"
    unfolding retire_pure_def by (simp add: map_where_map [where g = "\<lambda>r. (ch_id r, ch_state r)"])
  then show "running (retire_pure x d) c \<longleftrightarrow> running d c" by (simp only: running_def)
  have "map ch_id (channels (retire_pure x d)) = map ch_id (channels d)"
    by (simp add: retire_pure_def map_where_map)
  then show "channel_known (retire_pure x d) c \<longleftrightarrow> channel_known d c"
    by (simp only: channel_known_def)
  show "x \<noteq> c \<Longrightarrow> CHR ''/'' \<notin> set c \<Longrightarrow> known d (operation_key c t) \<Longrightarrow>
      known (retire_pure x d) (operation_key c t)"
    by (auto simp: known_def retire_pure_def op_prefix_key intro!: rev_image_eqI)
      (metis op_prefix_key)
qed

definition stays :: "db \<Rightarrow> db \<Rightarrow> bool" where
  "stays d d' \<longleftrightarrow> log_ok d'
     \<and> (\<forall>c. running d c \<longrightarrow> running d' c) \<and> (\<forall>c. channel_known d c \<longrightarrow> channel_known d' c)
     \<and> (\<forall>c t. running d c \<and> CHR ''/'' \<notin> set c \<and> known d (operation_key c t)
          \<longrightarrow> known d' (operation_key c t))"

lemma fold_retire_stays:
  assumes "log_ok d" "\<And>c. c \<in> set cs \<Longrightarrow> \<not> running d c"
  shows "stays d (fold retire_pure cs d)"
  using assms
proof (induction cs arbitrary: d)
  case Nil
  then show ?case by (simp add: stays_def)
next
  case (Cons x cs)
  have "stays (retire_pure x d) (fold retire_pure cs (retire_pure x d))"
    using Cons.prems by (intro Cons.IH) (auto simp: retire_pure_log_ok retire_pure_keeps)
  moreover have "\<not> running d x" using Cons.prems(2) by simp
  ultimately show ?case
    unfolding stays_def by (auto simp: retire_pure_keeps) (metis retire_pure_keeps(3))
qed

lemma closed_not_running:
  assumes "log_ok d" "c \<in> set (closed_channels d)"
  shows "\<not> running d c"
proof
  assume "running d c"
  then obtain r where r: "r \<in> set (channels d)" "ch_id r = c" "ch_state r = ''running''"
    by (rule runningE)
  obtain r' where r': "r' \<in> set (channels d)" "ch_id r' = c" "ch_state r' = ''lost''"
    using closed_channels_lost [OF assms(2)] by blast
  have "inj_on ch_id (set (channels d))" using assms(1) by (simp add: log_ok_def distinct_map)
  then have "r = r'" using r r' by (auto simp: inj_on_def)
  then show False using r r' by simp
qed

lemma retire_closed_stays:
  "retire_closed_evidence s = (r, s') \<Longrightarrow> log_ok (sdb s) \<Longrightarrow> stays (sdb s) (sdb s')"
  using retire_closed_cases [of s r s'] fold_retire_stays [of "sdb s"] closed_not_running [of "sdb s"]
  by (auto simp: stays_def)

lemma grows_stays: "log_ok d' \<Longrightarrow> grows d d' \<Longrightarrow> stays d d'"
  unfolding stays_def
proof (intro conjI allI impI)
  assume g: "grows d d'"
  then have rows: "rows_grow chan_le (channels d) (channels d')" by (simp add: grows_def)
  show "running d' c" if "running d c" for c
    using that by (rule runningE) (use rows_grow_mem [OF rows] in \<open>fastforce simp: chan_le_def intro: runningI\<close>)
  show "channel_known d' c" if k: "channel_known d c" for c
  proof -
    obtain r where r: "r \<in> set (channels d)" "c = ch_id r"
      using k unfolding channel_known_def set_map by blast
    then obtain r' where "r' \<in> set (channels d')" "c = ch_id r'"
      using rows_grow_mem [OF rows r(1)] by (auto simp: chan_le_def)
    then show ?thesis unfolding channel_known_def set_map by blast
  qed
  show "known d' (operation_key c t)"
    if "running d c \<and> CHR ''/'' \<notin> set c \<and> known d (operation_key c t)" for c t
    using that g grows_known by blast
qed

section \<open>Other operations on the tables\<close>

text \<open>Operations that leave the log, the operations and the identities of the channels.\<close>

definition framed :: "db \<Rightarrow> db \<Rightarrow> bool" where
  "framed d0 d \<longleftrightarrow> log_ok d \<and> operations d = operations d0
     \<and> map ch_id (channels d) = map ch_id (channels d0)"

lemma framed_known: "framed d0 d \<Longrightarrow> known d k = known d0 k"
  by (simp add: framed_def known_def)

lemma framed_channel: "framed d0 d \<Longrightarrow> channel_known d c = channel_known d0 c"
  by (simp add: framed_def channel_known_def)

lemma keeps_framed_same:
  assumes "\<And>d. events (f d) = events d \<and> event_seq (f d) = event_seq d \<and> operations (f d) = operations d
      \<and> channels (f d) = channels d"
  shows "keeps (on_db (framed d0)) (update c m f)"
proof (rule keeps_update)
  fix d assume "framed d0 d"
  then show "framed d0 (f d)"
    using assms [of d] log_ok_cong [of "f d" d] by (simp add: framed_def)
qed

lemma channel_log_ok_cong:
  "channel_log_ok d r \<Longrightarrow> ch_id r' = ch_id r \<Longrightarrow> ch_bytes r' = ch_bytes r \<Longrightarrow> ch_floor r' = ch_floor r \<Longrightarrow>
   events d' = events d \<Longrightarrow> event_seq d' = event_seq d \<Longrightarrow> channel_log_ok d' r'"
  unfolding channel_log_ok_def by metis

lemma framed_channels:
  assumes g: "\<And>r. ch_id (g r) = ch_id r \<and> ch_bytes (g r) = ch_bytes r \<and> ch_floor (g r) = ch_floor r"
    and d: "framed d0 d"
  shows "framed d0 (d\<lparr> channels := map_where p g (channels d) \<rparr>)"
proof -
  let ?d' = "d\<lparr> channels := map_where p g (channels d) \<rparr>"
  have ids: "map ch_id (channels ?d') = map ch_id (channels d)" by (simp add: map_where_map g)
  have log: "channel_log_ok d r" if "r \<in> set (channels d)" for r using d that by (simp add: framed_def log_ok_def)
  have "\<forall>r \<in> set (map_where p g (channels d)). channel_log_ok ?d' r"
  proof (rule map_where_channel_log)
    show "channel_log_ok ?d' (g r)" if "r \<in> set (channels d)" for r
      by (rule channel_log_ok_cong [OF log [OF that]]) (simp_all add: g)
    show "channel_log_ok ?d' r" if "r \<in> set (channels d)" for r
      by (rule channel_log_ok_cong [OF log [OF that]]) simp_all
  qed (simp add: g)
  moreover have "ch_id ` set (channels ?d') = ch_id ` set (channels d)" using ids by (metis set_map)
  moreover have "distinct (map ch_id (channels ?d'))"
    unfolding ids using d unfolding framed_def log_ok_def by blast
  moreover have "cursors_ok ?d'" using d by (simp add: framed_def log_ok_def cursors_ok_def)
  ultimately have "log_ok ?d'" using d by (auto simp: framed_def log_ok_def)
  moreover have "map ch_id (channels ?d') = map ch_id (channels d0)"
    unfolding ids using d by (simp add: framed_def)
  ultimately show ?thesis using d by (simp add: framed_def)
qed

lemma keeps_framed_channels:
  "(\<And>r. ch_id (g r) = ch_id r \<and> ch_bytes (g r) = ch_bytes r \<and> ch_floor (g r) = ch_floor r) \<Longrightarrow>
   keeps (on_db (framed d0)) (update c m (\<lambda>d. d\<lparr> channels := map_where p g (channels d) \<rparr>))"
  by (rule keeps_update) (rule framed_channels)

lemma framed_lost: "keeps (on_db (framed d0)) (mark_channel_lost c)"
  unfolding mark_channel_lost_def update_channel_def
  by (intro keeps_rules keeps_framed_channels keeps_framed_same) simp_all

lemma framed_open: "keeps (on_db (framed d0)) (Store_open S uuid tables boot)"
  unfolding Store_open_def preflight_check_def initialise_schema_def migrate_profile_def
  by (intro keeps_rules stable_on_db keeps_framed_channels keeps_framed_same; simp?)
    (rule keeps_execute, auto split: option.splits)

section \<open>The system\<close>

record system =
  sy_server :: server
  sy_actors :: "string \<Rightarrow> actor option"

definition save_refill :: "bool list \<Rightarrow> server \<Rightarrow> server" where
  "save_refill t s = s\<lparr> trouble := t \<rparr>"

text \<open>A channel identity is a UUID, so it has no slash.\<close>

inductive sys_step :: "externals \<Rightarrow> system \<Rightarrow> system \<Rightarrow> bool" for X where
  opened: "CHR ''/'' \<notin> set c \<Longrightarrow>
     create_channel st c profile revision (sy_server y) = (Inr u, s') \<Longrightarrow>
     sys_step X y (y\<lparr> sy_server := s'\<lparr> pending := (pending s')(c := []) \<rparr>,
       sy_actors := (sy_actors y)(c \<mapsto> a) \<rparr>)"
| not_opened: "create_channel st c profile revision (sy_server y) = (Inl f, s') \<Longrightarrow>
     sys_step X y (y\<lparr> sy_server := s' \<rparr>)"
| turn: "sy_actors y c = Some a \<Longrightarrow>
     actor_turn X c profile time a i (sy_server y) = (Inr next_actor, s') \<Longrightarrow>
     sys_step X y (y\<lparr> sy_server := s', sy_actors := (sy_actors y)(c := next_actor) \<rparr>)"
| closed: "sy_actors y c = None \<Longrightarrow> actor_end X c late (sy_server y) = (r, s') \<Longrightarrow>
     sys_step X y (y\<lparr> sy_server := s' \<rparr>)"
| acknowledged: "acknowledge_events c cursor (sy_server y) = (r, s') \<Longrightarrow>
     sys_step X y (y\<lparr> sy_server := s' \<rparr>)"
| configured: "save_config S profile config (sy_server y) = (r, s') \<Longrightarrow>
     sys_step X y (y\<lparr> sy_server := s' \<rparr>)"
| restarted: "Store_open S uuid tables boot (sy_server y) = (r, s') \<Longrightarrow>
     sys_step X y (y\<lparr> sy_server := s'\<lparr> pending := (\<lambda>_. []) \<rparr>, sy_actors := (\<lambda>_. None) \<rparr>)"
| ticked: "sys_step X y (y\<lparr> sy_server := (sy_server y)\<lparr> trouble := t,
     sdb := (sdb (sy_server y))\<lparr> now := n \<rparr> \<rparr> \<rparr>)"

inductive_cases sys_stepE: "sys_step X y y'"

text \<open>How often an operation of a channel was written to an executor.\<close>

definition tagged :: "(string \<times> string option \<times> json) list \<Rightarrow> (string \<times> string option \<times> json) list" where
  "tagged l = filter (\<lambda>(_, t, _). t \<noteq> None) l"

definition sends :: "string \<Rightarrow> string \<Rightarrow> server \<Rightarrow> nat" where
  "sends c t s = length (filter (\<lambda>(c', t', _). c' = c \<and> t' = Some t) (sent s))"

lemma sends_tagged: "tagged (sent s') = tagged (sent s) \<Longrightarrow> sends c t s' = sends c t s"
proof -
  have "filter (\<lambda>(c', t', _). c' = c \<and> t' = Some t) l
      = filter (\<lambda>(c', t', _). c' = c \<and> t' = Some t) (tagged l)" for l :: "(string \<times> string option \<times> json) list"
    unfolding tagged_def by (induction l) auto
  then show "tagged (sent s') = tagged (sent s) \<Longrightarrow> ?thesis" unfolding sends_def by metis
qed

lemma tagged_send: "keeps (on_sent (\<lambda>l. tagged l = L)) (Executor_send c None v)"
  by (auto simp: keeps_def on_sent_def Executor_send_def Let_def tagged_def split: list.splits bool.splits)

lemma sent_queries [keeps_rules]:
  "keeps (on_sent P) (active_jobs c)" "keeps (on_sent P) (running_processes c b)"
  unfolding active_jobs_def running_processes_def by (intro keeps_rules)+

lemma tagged_terminate: "keeps (on_sent (\<lambda>l. tagged l = L)) (terminate X c m)"
  unfolding terminate_def by (intro keeps_rules tagged_send)

lemma sent_collect [keeps_rules]: "keeps (on_sent P) (collect X c v)"
  unfolding collect_def collect_response_def collect_notification_def Let_def
  by (intro keeps_rules)

lemma tagged_turn:
  "(case i of Execute _ _ _ _ \<Rightarrow> False | _ \<Rightarrow> True) \<Longrightarrow>
   keeps (on_sent (\<lambda>l. tagged l = L)) (actor_turn X c p time a i)"
  unfolding actor_turn_def actor_tick_def Let_def
  by (cases i) (simp_all split: option.splits, (intro keeps_rules conjI allI impI tagged_terminate)+)

lemma sent_drain [keeps_rules]: "keeps (on_sent P) (drain X c vs)"
  by (induction vs) (auto intro!: keeps_rules)

lemma sent_lost [keeps_rules]: "keeps (on_sent P) (mark_channel_lost c)"
  unfolding mark_channel_lost_def by (intro keeps_rules)

lemma tagged_end: "keeps (on_sent (\<lambda>l. tagged l = L)) (actor_end X c late)"
  unfolding actor_end_def by (intro keeps_rules tagged_terminate)

lemma sent_create [keeps_rules]: "keeps (on_sent P) (create_channel st c p n)"
  unfolding create_channel_def retire_closed_evidence_def retire_channel_def by (intro keeps_rules)

lemma sent_prune [keeps_rules]: "keeps (on_sent P) (acknowledge_events c n)"
  unfolding acknowledge_events_def prune_acknowledged_def by (intro keeps_rules)

lemma sent_save [keeps_rules]: "keeps (on_sent P) (save_config S p config)"
  unfolding save_config_def by (intro keeps_rules)

lemma sent_open [keeps_rules]: "keeps (on_sent P) (Store_open S uuid tables boot)"
  unfolding Store_open_def preflight_check_def initialise_schema_def migrate_profile_def
  by (intro keeps_rules stable_on_sent)

section \<open>At most once\<close>

definition system_inv :: "system \<Rightarrow> bool" where
  "system_inv y \<longleftrightarrow>
     (let s = sy_server y; d = sdb s in
      log_ok d
      \<and> (\<forall>c. sy_actors y c \<noteq> None \<longrightarrow> CHR ''/'' \<notin> set c \<and> running d c)
      \<and> (\<forall>c t. sends c t s \<le> 1)
      \<and> (\<forall>c t. 0 < sends c t s \<longrightarrow> channel_known d c)
      \<and> (\<forall>c t. sy_actors y c \<noteq> None \<and> 0 < sends c t s \<longrightarrow> known d (operation_key c t)))"

lemma system_invD:
  assumes "system_inv y"
  shows "log_ok (sdb (sy_server y))"
    and "sy_actors y c \<noteq> None \<Longrightarrow> CHR ''/'' \<notin> set c"
    and "sy_actors y c \<noteq> None \<Longrightarrow> running (sdb (sy_server y)) c"
    and "sends c t (sy_server y) \<le> 1"
    and "0 < sends c t (sy_server y) \<Longrightarrow> channel_known (sdb (sy_server y)) c"
    and "sy_actors y c \<noteq> None \<Longrightarrow> 0 < sends c t (sy_server y) \<Longrightarrow>
      known (sdb (sy_server y)) (operation_key c t)"
  using assms unfolding system_inv_def Let_def by blast+

lemma system_invI:
  assumes "log_ok (sdb s)"
    and "\<And>c. actors c \<noteq> None \<Longrightarrow> CHR ''/'' \<notin> set c \<and> running (sdb s) c"
    and "\<And>c t. sends c t s \<le> 1" "\<And>c t. 0 < sends c t s \<Longrightarrow> channel_known (sdb s) c"
    and "\<And>c t. actors c \<noteq> None \<Longrightarrow> 0 < sends c t s \<Longrightarrow> known (sdb s) (operation_key c t)"
  shows "system_inv \<lparr> sy_server = s, sy_actors = actors \<rparr>"
  using assms unfolding system_inv_def Let_def by simp

text \<open>A step that writes nothing for an operation and lets the tables stay.\<close>

lemma system_inv_stays:
  assumes inv: "system_inv y" and stays: "stays (sdb (sy_server y)) (sdb s')"
    and same: "tagged (sent s') = tagged (sent (sy_server y))"
    and actors: "\<And>c. actors c \<noteq> None \<Longrightarrow> sy_actors y c \<noteq> None"
  shows "system_inv \<lparr> sy_server = s', sy_actors = actors \<rparr>"
proof (rule system_invI)
  note D = system_invD [OF inv]
  show "log_ok (sdb s')" using stays by (simp add: stays_def)
  show "CHR ''/'' \<notin> set c \<and> running (sdb s') c" if "actors c \<noteq> None" for c
    using D(2,3) actors [OF that] stays unfolding stays_def by blast
  show "sends c t s' \<le> 1" for c t using D(4) sends_tagged [OF same] by simp
  show "channel_known (sdb s') c" if "0 < sends c t s'" for c t
    using D(5) that stays unfolding sends_tagged [OF same] stays_def by blast
  show "known (sdb s') (operation_key c t)" if "actors c \<noteq> None" "0 < sends c t s'" for c t
    using D(2,3,6) that(2) actors [OF that(1)] stays unfolding sends_tagged [OF same] stays_def by blast
qed

lemma system_inv_framed:
  assumes inv: "system_inv y" and fr: "framed (sdb (sy_server y)) (sdb s')"
    and same: "tagged (sent s') = tagged (sent (sy_server y))"
    and actors: "\<And>c. actors c \<noteq> None \<Longrightarrow> sy_actors y c \<noteq> None \<and> running (sdb s') c"
  shows "system_inv \<lparr> sy_server = s', sy_actors = actors \<rparr>"
proof (rule system_invI)
  note D = system_invD [OF inv]
  show "log_ok (sdb s')" using fr by (simp add: framed_def)
  show "CHR ''/'' \<notin> set c \<and> running (sdb s') c" if "actors c \<noteq> None" for c
    using D(2) actors [OF that] by blast
  show "sends c t s' \<le> 1" for c t using D(4) sends_tagged [OF same] by simp
  show "channel_known (sdb s') c" if "0 < sends c t s'" for c t
    using D(5) that unfolding sends_tagged [OF same] framed_channel [OF fr] .
  show "known (sdb s') (operation_key c t)" if "actors c \<noteq> None" "0 < sends c t s'" for c t
    using D(6) that(2) actors [OF that(1)] unfolding sends_tagged [OF same] framed_known [OF fr] by blast
qed

lemma system_eta: "y\<lparr> sy_server := s, sy_actors := f \<rparr> = \<lparr> sy_server = s, sy_actors = f \<rparr>"
  "y\<lparr> sy_server := s \<rparr> = \<lparr> sy_server = s, sy_actors = sy_actors y \<rparr>"
  by (cases y; simp)+

lemma sound_on: "keeps (on_db (sound (sdb s))) m \<Longrightarrow> log_ok (sdb s) \<Longrightarrow> m s = (r, s') \<Longrightarrow> sound (sdb s) (sdb s')"
  using keepsD [of "on_db (sound (sdb s))" m s r s'] by (simp add: on_db_def sound_refl)

lemma sound_stays: "sound d d' \<Longrightarrow> stays d d'"
  by (auto simp: sound_def intro: grows_stays)

lemma tagged_on: "keeps (on_sent (\<lambda>l. tagged l = tagged (sent s))) m \<Longrightarrow> m s = (r, s') \<Longrightarrow>
   tagged (sent s') = tagged (sent s)"
  using keepsD [of "on_sent (\<lambda>l. tagged l = tagged (sent s))" m s r s'] by (simp add: on_sent_def)

lemma framed_on: "keeps (on_db (framed (sdb s))) m \<Longrightarrow> log_ok (sdb s) \<Longrightarrow> m s = (r, s') \<Longrightarrow> framed (sdb s) (sdb s')"
  using keepsD [of "on_db (framed (sdb s))" m s r s'] by (simp add: on_db_def framed_def)

lemma continue_result: "continue a m s = (r, s') \<Longrightarrow> \<exists>r'. m s = (r', s')"
  by (auto simp: continue_def split: prod.splits sum.splits)

lemma turn_preserves:
  assumes inv: "system_inv y" and live: "sy_actors y c = Some a"
    and run: "actor_turn X c p time a i (sy_server y) = (Inr next_actor, s')"
  shows "system_inv \<lparr> sy_server = s', sy_actors = (sy_actors y)(c := next_actor) \<rparr>"
proof -
  let ?s = "sy_server y"
  have log: "log_ok (sdb ?s)" using inv by (simp add: system_inv_def Let_def)
  have stays: "stays (sdb ?s) (sdb s')"
    by (rule sound_stays, rule sound_on [OF sound_turn log run])
  have actors: "((sy_actors y)(c := next_actor)) x \<noteq> None \<Longrightarrow> sy_actors y x \<noteq> None" for x
    using live by (auto split: if_splits)
  show ?thesis
  proof (cases "tagged (sent s') = tagged (sent ?s)")
    case True
    then show ?thesis using system_inv_stays [OF inv stays _ actors] by blast
  next
    case False
    then obtain t v g h where i: "i = Execute t v g h"
      using tagged_on [OF tagged_turn run] by (cases i) auto
    then obtain r where d: "dispatch X (ac_runtime a) c p t g h v ?s = (r, s')"
      using run by (auto simp: actor_turn_def dest: continue_result)
    from dispatch_once [OF log d] False
    have sent: "sent s' = sent ?s @ [(c, Some t, sent_message t v)]"
      and fresh: "\<not> known (sdb ?s) (operation_key c t)"
      and known': "known (sdb s') (operation_key c t)" by auto
    have count: "sends x u s' = sends x u ?s + (if x = c \<and> u = t then 1 else 0)" for x u
      by (auto simp: sends_def sent)
    note D = system_invD [OF inv]
    have alive: "sy_actors y c \<noteq> None" using live by simp
    then have zero: "sends c t ?s = 0" using D(6) fresh by (metis neq0_conv)
    have chan: "channel_known (sdb ?s) c"
      using D(3) [OF alive] by (auto simp: running_def channel_known_def)
    show ?thesis
    proof (rule system_invI)
      show "log_ok (sdb s')" using stays by (simp add: stays_def)
      show "CHR ''/'' \<notin> set x \<and> running (sdb s') x" if "((sy_actors y)(c := next_actor)) x \<noteq> None" for x
        using D(2,3) actors [OF that] stays unfolding stays_def by blast
      show "sends x u s' \<le> 1" for x u using D(4) [of x u] zero by (simp add: count)
      show "channel_known (sdb s') x" if "0 < sends x u s'" for x u
        using D(5) that chan stays unfolding count stays_def by (auto split: if_splits)
      show "known (sdb s') (operation_key x u)"
        if "((sy_actors y)(c := next_actor)) x \<noteq> None" "0 < sends x u s'" for x u
        using D(2,3,6) [of x] that(2) actors [OF that(1)] stays known'
        unfolding count stays_def by (auto split: if_splits)
    qed
  qed
qed

section \<open>Every step\<close>

text \<open>The end of a channel's actor touches the running state of its own channel only.\<close>

definition ends :: "string \<Rightarrow> db \<Rightarrow> db \<Rightarrow> bool" where
  "ends c d0 d \<longleftrightarrow> log_ok d \<and> (\<forall>x. x \<noteq> c \<and> running d0 x \<longrightarrow> running d x)
     \<and> (\<forall>x. channel_known d0 x \<longrightarrow> channel_known d x) \<and> (\<forall>k. known d0 k \<longrightarrow> known d k)"

lemma ends_sound: "ends c d0 d \<Longrightarrow> sound d d' \<Longrightarrow> ends c d0 d'"
  unfolding ends_def using sound_stays [of d d'] grows_known [of d d']
  by (auto simp: stays_def sound_def)

lemma keeps_ends:
  assumes "\<And>d. keeps (on_db (sound d)) m"
  shows "keeps (on_db (ends c d0)) m"
  unfolding keeps_def
proof (intro allI impI)
  fix s assume e: "on_db (ends c d0) s"
  obtain r s' where run: "m s = (r, s')" by fastforce
  have "log_ok (sdb s)" using e by (simp add: on_db_def ends_def)
  from sound_on [OF assms this run] e show "on_db (ends c d0) (snd (m s))"
    by (simp add: run on_db_def ends_sound)
qed

lemma ends_update_channel:
  assumes "ends c d0 d" "\<And>r. ch_id (f r) = ch_id r \<and> ch_bytes (f r) = ch_bytes r \<and> ch_floor (f r) = ch_floor r"
  shows "ends c d0 (update_channel c f d)"
proof -
  have "log_ok d" using assms(1) by (simp add: ends_def)
  then have "framed d d" by (simp add: framed_def)
  then have fr: "framed d (update_channel c f d)"
    unfolding update_channel_def using assms(2) by (intro framed_channels) auto
  have "running (update_channel c f d) x" if "x \<noteq> c" "running d x" for x
    using that(2)
  proof (rule runningE)
    fix r assume "r \<in> set (channels d)" "ch_id r = x" "ch_state r = ''running''"
    then show ?thesis using that(1)
      by (intro runningI [of r]) (auto simp: update_channel_def set_map_where intro!: rev_image_eqI [of r])
  qed
  then show ?thesis
    using assms(1) fr framed_known [OF fr] framed_channel [OF fr] by (simp add: ends_def framed_def)
qed

lemma ends_lost: "keeps (on_db (ends c d0)) (mark_channel_lost c)"
  unfolding mark_channel_lost_def
proof (intro keeps_rules)
  show "keeps (on_db (ends c d0)) (update ''STORAGE_ERROR'' ''cannot close execution''
     (update_channel c (\<lambda>r. r\<lparr> ch_state := ''lost'',
       ch_lost := (case ch_lost r of None \<Rightarrow> Some ''executor_stopped'' | Some x \<Rightarrow> Some x) \<rparr>)))"
    by (rule keeps_update) (erule ends_update_channel, simp)
  show "keeps (on_db (ends c d0)) (update ''STORAGE_ERROR'' ''cannot reconcile execution''
      (\<lambda>d. d\<lparr> jobs := map_where (\<lambda>j. job_channel j = c \<and> unfinished j)
         (\<lambda>j. j\<lparr> job_state := ''unknown'', job_updated := now d \<rparr>) (jobs d) \<rparr>))"
  proof (rule keeps_update)
    fix d assume e: "ends c d0 d"
    let ?d' = "d\<lparr> jobs := map_where (\<lambda>j. job_channel j = c \<and> unfinished j)
         (\<lambda>j. j\<lparr> job_state := ''unknown'', job_updated := now d \<rparr>) (jobs d) \<rparr>"
    have "log_ok ?d' = log_ok d" by (rule log_ok_cong) simp_all
    then show "ends c d0 ?d'"
      using e by (simp add: ends_def running_def channel_known_def known_def)
  qed
qed

lemma sound_drain: "keeps (on_db (sound d0)) (drain X c vs)"
  by (induction vs) (auto intro!: keeps_rules)

lemma ends_end: "keeps (on_db (ends c d0)) (actor_end X c late)"
  unfolding actor_end_def
  by (intro keeps_rules ends_lost; rule keeps_ends) (rule sound_terminate sound_drain)+

lemma closed_preserves:
  assumes inv: "system_inv y" and dead: "sy_actors y c = None"
    and run: "actor_end X c late (sy_server y) = (r, s')"
  shows "system_inv \<lparr> sy_server = s', sy_actors = sy_actors y \<rparr>"
proof (rule system_invI)
  note D = system_invD [OF inv]
  have "ends c (sdb (sy_server y)) (sdb (sy_server y))" using D(1) by (simp add: ends_def)
  then have e: "ends c (sdb (sy_server y)) (sdb s')"
    using keepsD [of "on_db (ends c (sdb (sy_server y)))", OF ends_end _ run] by (simp add: on_db_def)
  have same: "tagged (sent s') = tagged (sent (sy_server y))" by (rule tagged_on [OF tagged_end run])
  show "log_ok (sdb s')" using e by (simp add: ends_def)
  show "CHR ''/'' \<notin> set x \<and> running (sdb s') x" if "sy_actors y x \<noteq> None" for x
  proof -
    have "x \<noteq> c" using that dead by auto
    then show ?thesis using D(2,3) [OF that] e unfolding ends_def by blast
  qed
  show "sends x t s' \<le> 1" for x t using D(4) sends_tagged [OF same] by simp
  show "channel_known (sdb s') x" if "0 < sends x t s'" for x t
    using D(5) that e unfolding sends_tagged [OF same] ends_def by blast
  show "known (sdb s') (operation_key x t)" if "sy_actors y x \<noteq> None" "0 < sends x t s'" for x t
    using D(6) [OF that(1)] that(2) e unfolding sends_tagged [OF same] ends_def by blast
qed

text \<open>A new channel.\<close>

definition new_row :: "Store \<Rightarrow> string \<Rightarrow> string \<Rightarrow> int \<Rightarrow> db \<Rightarrow> channel_row" where
  "new_row st c p revision d =
    \<lparr> ch_id = c, ch_profile = p, ch_revision = revision, ch_state = ''running'', ch_created = now d,
      ch_bytes = 0, ch_floor = 0, ch_instance = st_instance st, ch_boot = st_boot st, ch_lost = None \<rparr>"

lemma create_channel_cases:
  assumes "create_channel st c p revision s = (r, s')" "log_ok (sdb s)"
  shows "\<exists>d1. stays (sdb s) d1 \<and> (case r of
      Inl _ \<Rightarrow> sdb s' = d1
    | Inr _ \<Rightarrow> \<not> channel_known d1 c
        \<and> sdb s' = d1\<lparr> channels := channels d1 @ [new_row st c p revision d1] \<rparr>)"
proof -
  obtain r1 s1 where retire: "retire_closed_evidence s = (r1, s1)" by fastforce
  have stays: "stays (sdb s) (sdb s1)" using retire assms(2) by (rule retire_closed_stays)
  let ?add = "execute ''EXECUTION_CONFLICT'' ''execution channel already exists''
        (\<lambda>d. if find_channel c d \<noteq> None then None
           else Some ((), d\<lparr> channels := channels d @ [new_row st c p revision d] \<rparr>))"
  have split: "create_channel st c p revision = thn retire_closed_evidence ?add"
    unfolding create_channel_def new_row_def by (rule refl)
  show ?thesis
  proof (cases r1)
    case (Inl f)
    then show ?thesis using assms(1) retire stays unfolding split by (auto simp: thn_def bnd_simp)
  next
    case (Inr u)
    then have add: "?add s1 = (r, s')" using assms(1) retire unfolding split by (simp add: thn_def bnd_simp)
    show ?thesis
    proof (cases r)
      case (Inl f)
      then have "sdb s' = sdb s1" using add
        by (auto simp: execute_def writes_def thn_def bnd_def attempt_def split: option.splits list.splits if_splits)
      then show ?thesis using stays Inl by auto
    next
      case (Inr v)
      have "find_channel c d = None \<longleftrightarrow> \<not> channel_known d c" for d
        by (auto simp: find_channel_def channel_known_def find_None_iff)
      then show ?thesis using execute_Inr [OF add [unfolded Inr]] stays Inr
        by (intro exI [of _ "sdb s1"]) (auto split: if_splits)
    qed
  qed
qed

lemma new_channel_log_ok:
  assumes ok: "log_ok d" and new: "\<not> channel_known d c"
  shows "log_ok (d\<lparr> channels := channels d @ [new_row st c p revision d] \<rparr>)"
proof -
  let ?d' = "d\<lparr> channels := channels d @ [new_row st c p revision d] \<rparr>"
  have none: "events_of c (events d) = []"
    using ok new by (auto simp: log_ok_def channel_known_def events_of_def filter_empty_conv)
  have "channel_log_ok ?d' r" if "r \<in> set (channels d)" for r
    by (rule channel_log_ok_cong [of d r]) (use ok that in \<open>simp_all add: log_ok_def\<close>)
  moreover have "channel_log_ok ?d' (new_row st c p revision d)"
    using ok by (simp add: channel_log_ok_def new_row_def none log_ok_def cursors_ok_def REPLAY_LIMIT_def)
  ultimately show ?thesis
    using ok new by (auto simp: log_ok_def cursors_ok_def channel_known_def new_row_def)
qed

lemma opened_preserves:
  assumes inv: "system_inv y" and slash: "CHR ''/'' \<notin> set c"
    and run: "create_channel st c p revision (sy_server y) = (Inr u, s')"
  shows "system_inv \<lparr> sy_server = s'\<lparr> pending := f \<rparr>, sy_actors = (sy_actors y)(c \<mapsto> a) \<rparr>"
proof (rule system_invI)
  note D = system_invD [OF inv]
  let ?s = "s'\<lparr> pending := f \<rparr>"
  obtain d1 where stays: "stays (sdb (sy_server y)) d1" and new: "\<not> channel_known d1 c"
    and d': "sdb s' = d1\<lparr> channels := channels d1 @ [new_row st c p revision d1] \<rparr>"
    using create_channel_cases [OF run D(1)] by auto
  have same: "tagged (sent ?s) = tagged (sent (sy_server y))"
    using tagged_on [OF sent_create run] by simp
  have fresh: "sends c t (sy_server y) = 0" for t
    using D(5) [of c t] new stays unfolding stays_def by blast
  show "log_ok (sdb ?s)" using stays new_channel_log_ok [OF _ new] by (simp add: d' stays_def)
  show "CHR ''/'' \<notin> set x \<and> running (sdb ?s) x" if "((sy_actors y)(c \<mapsto> a)) x \<noteq> None" for x
    using that slash D(2,3) [of x] stays
    by (cases "x = c") (auto simp: d' running_def new_row_def stays_def)
  show "sends x t ?s \<le> 1" for x t using D(4) sends_tagged [OF same] by simp
  show "channel_known (sdb ?s) x" if "0 < sends x t ?s" for x t
    using D(5) that stays unfolding sends_tagged [OF same] by (auto simp: d' channel_known_def stays_def)
  show "known (sdb ?s) (operation_key x t)"
    if "((sy_actors y)(c \<mapsto> a)) x \<noteq> None" "0 < sends x t ?s" for x t
  proof -
    have pos: "0 < sends x t (sy_server y)" using that(2) unfolding sends_tagged [OF same] .
    then have "x \<noteq> c" using fresh by auto
    then have "sy_actors y x \<noteq> None" using that(1) by simp
    then have "known d1 (operation_key x t)"
      using D(2,3,6) pos stays unfolding stays_def by blast
    then show ?thesis by (simp add: d' known_def)
  qed
qed

lemma sound_save: "keeps (on_db (sound d0)) (save_config S p config)"
  unfolding save_config_def
  by (intro keeps_rules keeps_sound_execute)
    (auto simp: Let_def split: prod.splits intro!: grow_intros)

text \<open>A turn always comes to an end with or without the actor going on.\<close>

lemma actor_turn_total: "\<exists>next_actor s'. actor_turn X c p time a i s = (Inr next_actor, s')"
proof -
  have total: "\<exists>n s'. continue a m s = (Inr n, s')" for a m s
    by (auto simp: continue_def split: prod.splits sum.splits)
  have ok: "\<exists>b s'. is_ok_and m p s = (Inr b, s')" for m :: "(server, 'z) act" and p s
    by (auto simp: is_ok_and_def split: prod.splits sum.splits)
  have bnd: "\<exists>n s'. bnd m k s = (Inr n, s')"
    if "\<exists>x s1. m s = (Inr x, s1)" "\<And>x s1. \<exists>n s'. k x s1 = (Inr n, s')"
    for m :: "(server, 'y) act" and k :: "'y \<Rightarrow> (server, 'z) act" and s
    using that by (fastforce simp: bnd_simp)
  have ignoring: "\<exists>s1. ignoring m s = (Inr (), s1)" for m :: "(server, 'z) act" and s
    by (simp add: ignoring_def)
  have ign: "\<exists>x s1. (if b then ignoring m else ret ()) s = (Inr x, s1)" for b and m :: "(server, 'z) act" and s
    by (simp add: ignoring_def)
  show ?thesis
    unfolding actor_turn_def actor_tick_def Let_def thn_def
    by (cases i) (auto simp: total ignoring pending_count_def split: option.splits intro!: bnd ok ign)
qed

lemma sys_step_inv:
  assumes "sys_step X y y'" and inv: "system_inv y"
  shows "system_inv y'"
  using assms(1)
proof (cases rule: sys_step.cases)
  case (opened c st profile revision u s' a)
  then show ?thesis using opened_preserves [OF inv] by (simp add: system_eta)
next
  case (not_opened st c profile revision f s')
  have log: "log_ok (sdb (sy_server y))" using system_invD(1) [OF inv] .
  have "stays (sdb (sy_server y)) (sdb s')" using create_channel_cases [OF not_opened(2) log] by auto
  then show ?thesis
    unfolding not_opened system_eta
    by (rule system_inv_stays [OF inv]) (rule tagged_on [OF sent_create not_opened(2)], simp)
next
  case (turn c a profile time i next_actor s')
  then show ?thesis using turn_preserves [OF inv] by (simp add: system_eta)
next
  case (closed c late r s')
  then show ?thesis using closed_preserves [OF inv] by (simp add: system_eta)
next
  case (acknowledged c cursor r s')
  show ?thesis unfolding acknowledged system_eta
    by (rule system_inv_stays [OF inv])
      (rule sound_stays, rule sound_on [OF sound_acknowledge system_invD(1) [OF inv] acknowledged(2)],
       rule tagged_on [OF sent_prune acknowledged(2)], simp)
next
  case (configured S profile config r s')
  show ?thesis unfolding configured system_eta
    by (rule system_inv_stays [OF inv])
      (rule sound_stays, rule sound_on [OF sound_save system_invD(1) [OF inv] configured(2)],
       rule tagged_on [OF sent_save configured(2)], simp)
next
  case (restarted S uuid tables boot r s')
  have fr: "framed (sdb (sy_server y)) (sdb s')"
    by (rule framed_on [OF framed_open system_invD(1) [OF inv] restarted(2)])
  show ?thesis unfolding restarted system_eta(1)
    by (rule system_inv_framed [OF inv])
      (use fr tagged_on [OF sent_open restarted(2)] in simp_all)
next
  case (ticked n t)
  let ?d = "sdb (sy_server y)"
  have "log_ok (?d\<lparr> now := n \<rparr>) = log_ok ?d" by (rule log_ok_cong) simp_all
  then have "stays ?d (?d\<lparr> now := n \<rparr>)"
    using system_invD(1) [OF inv] by (simp add: stays_def running_def channel_known_def known_def)
  then show ?thesis unfolding ticked system_eta
    by (intro system_inv_stays [OF inv]) simp_all
qed

lemma reachable_inv: "(sys_step X)\<^sup>*\<^sup>* y0 y \<Longrightarrow> system_inv y0 \<Longrightarrow> system_inv y"
  by (induction rule: rtranclp_induct) (auto intro: sys_step_inv)

text \<open>C1: an operation is written to an executor at most once. Whatever the clients
  send, repeat and acknowledge, however the channels interleave, whichever storage or
  pipe calls fail and whenever the service restarts, the number of writes for one
  operation of one channel never exceeds one.\<close>

theorem dispatched_at_most_once:
  assumes "(sys_step X)\<^sup>*\<^sup>* y0 y"
    and "log_ok (sdb (sy_server y0))" "sy_actors y0 = (\<lambda>_. None)" "sent (sy_server y0) = []"
  shows "sends c t (sy_server y) \<le> 1"
proof -
  have none: "sends x u (sy_server y0) = 0" for x u by (simp add: sends_def assms(4))
  have "system_inv \<lparr> sy_server = sy_server y0, sy_actors = (\<lambda>_. None) \<rparr>"
    by (rule system_invI) (simp_all add: none assms(2))
  then have "system_inv y0" using assms(3) by (cases y0) simp
  then have "system_inv y" by (rule reachable_inv [OF assms(1)])
  then show ?thesis by (rule system_invD(4))
qed

text \<open>A run for the witnesses: a fresh database, one channel, and a request sent twice.\<close>

definition demo_externals :: externals where
  "demo_externals = \<lparr> ex_serde = \<lparr> to_text = (\<lambda>_. ''null''), from_text = (\<lambda>_. Some JNull) \<rparr>,
     ex_sha = (\<lambda>s. s), ex_uuid = (\<lambda>_. ''u''), ex_file_path = (\<lambda>_. None) \<rparr>"

definition empty_db :: db where
  "empty_db = \<lparr> application_id = RCSV, user_version = 3, db_identity = Some ''i'', profiles = [],
     operations = [], channels = [], events = [], event_seq = 0, jobs = [], outputs = [], output_seq = 0,
     approvals = [], permissions = [], now = 0 \<rparr>"

definition empty_server :: server where
  "empty_server = \<lparr> trouble = [], sdb = empty_db, drawn = 0, pending = (\<lambda>_. []), sent = [] \<rparr>"

definition demo_runtime :: Runtime where
  "demo_runtime = \<lparr> rt_config = \<lparr> rc_values = [], rc_revision = 0 \<rparr>, rt_env = [], rt_background = True,
     rt_grace = 30, rt_unrestricted = False, rt_mcp = [] \<rparr>"

definition demo_message :: json where
  "demo_message = JObj [(''id'', JInt 1), (''method'', JStr ''initialize'')]"

definition demo_open :: server where
  "demo_open = (let s = snd (create_channel \<lparr> st_identity = ''i'', st_instance = ''s'', st_boot = ''b'' \<rparr>
      ''c'' ''p'' 0 empty_server) in s\<lparr> pending := (pending s)(''c'' := []) \<rparr>)"

definition demo_actor :: actor where
  "demo_actor = \<lparr> ac_runtime = demo_runtime, ac_touched = 0, ac_attached = True, ac_detached = False \<rparr>"

definition demo_turn :: "server \<Rightarrow> server" where
  "demo_turn s = snd (actor_turn demo_externals ''c'' ''p'' 0 demo_actor
     (Execute ''op'' demo_message None None) s)"

lemma empty_log_ok: "log_ok empty_db"
  by (simp add: log_ok_def cursors_ok_def empty_db_def)

lemma demo_turn_result:
  "fst (actor_turn demo_externals ''c'' ''p'' 0 demo_actor (Execute ''op'' demo_message None None) demo_open)
     = Inr (Some demo_actor)"
  "fst (actor_turn demo_externals ''c'' ''p'' 0 demo_actor (Execute ''op'' demo_message None None)
     (demo_turn demo_open)) = Inr (Some demo_actor)"
  "sends ''c'' ''op'' (demo_turn (demo_turn demo_open)) = 1"
  by code_simp+

lemma demo_open_result:
  "fst (create_channel \<lparr> st_identity = ''i'', st_instance = ''s'', st_boot = ''b'' \<rparr> ''c'' ''p'' 0 empty_server)
     = Inr ()"
  by code_simp

lemma demo_reach:
  "(sys_step demo_externals)\<^sup>*\<^sup>* \<lparr> sy_server = empty_server, sy_actors = (\<lambda>_. None) \<rparr>
     \<lparr> sy_server = demo_turn (demo_turn demo_open), sy_actors = [''c'' \<mapsto> demo_actor] \<rparr>"
proof -
  let ?start = "\<lparr> sy_server = empty_server, sy_actors = (\<lambda>_. None) \<rparr>"
  let ?at = "\<lambda>s. \<lparr> sy_server = s, sy_actors = [''c'' \<mapsto> demo_actor] \<rparr>"
  let ?st = "\<lparr> st_identity = ''i'', st_instance = ''s'', st_boot = ''b'' \<rparr>"
  have "create_channel ?st ''c'' ''p'' 0 empty_server =
      (Inr (), snd (create_channel ?st ''c'' ''p'' 0 empty_server))"
    using demo_open_result by (metis prod.collapse)
  then have 1: "sys_step demo_externals ?start (?at demo_open)"
    using opened [of "''c''" ?st "''p''" 0 ?start] by (fastforce simp: demo_open_def Let_def)
  have turn: "sys_step demo_externals (?at s) (?at (demo_turn s))"
    if "fst (actor_turn demo_externals ''c'' ''p'' 0 demo_actor (Execute ''op'' demo_message None None) s)
        = Inr (Some demo_actor)" for s
  proof -
    have "actor_turn demo_externals ''c'' ''p'' 0 demo_actor (Execute ''op'' demo_message None None) s
        = (Inr (Some demo_actor), demo_turn s)"
      using that unfolding demo_turn_def by (metis prod.collapse)
    then show ?thesis using turn [of "?at s" "''c''" demo_actor] by fastforce
  qed
  show ?thesis
    using 1 turn [OF demo_turn_result(1)] turn [OF demo_turn_result(2)]
    by (meson converse_rtranclp_into_rtranclp rtranclp.rtrancl_refl)
qed

lemma dispatched_at_most_once_witness:
  "sends ''c'' ''op'' (demo_turn (demo_turn demo_open)) \<le> 1"
  using dispatched_at_most_once [OF demo_reach, of "''c''" "''op''"] empty_log_ok
  by (simp add: empty_server_def)

end
