(* ===== verification/Server_Claims.thy ===== *)
theory Server_Claims
  imports Server_System
begin

text \<open>
  The properties of the execution service's storage and handlers, on top of the
  invariants of the log and of the system.
\<close>

section \<open>Authorization\<close>

lemma policy_validate_Inr:
  "policy_validate file_path rt v approved full = Inr () \<longleftrightarrow>
    (case as_string (json_index v ''method'') of
       None \<Rightarrow> json_get v ''id'' \<noteq> None \<and> (json_get v ''result'' \<noteq> None \<or> json_get v ''error'' \<noteq> None)
     | Some m \<Rightarrow> permitted_method m
         \<and> (m \<in> set file_mutations \<longrightarrow>
              rt_unrestricted rt \<or> full \<or> managed (json_index (json_index v ''params'') ''sandbox''))
         \<and> (m = ''process/start'' \<longrightarrow>
              \<not> forwards_account (json_index v ''params'')
              \<and> (rt_unrestricted rt \<or> full \<or> managed (json_index (json_index v ''params'') ''sandbox'')
                 \<or> authorized_mcp file_path rt (json_index v ''params'') \<or> approved)))"
proof (cases "as_string (json_index v ''method'')")
  case None
  then show ?thesis by (simp add: policy_validate_def)
next
  case (Some m)
  have "''process/start'' \<notin> set file_mutations" by code_simp
  then show ?thesis using Some by (auto simp: policy_validate_def Let_def split: if_splits)
qed

lemma dispatch_permission_Inr:
  assumes "dispatch_permission X rt c t a g v = Inr ()"
  shows "(\<forall>h. g = Some h \<longrightarrow> permissions_match h c v)" "(\<forall>h. a = Some h \<longrightarrow> approval_valid_for h c t v)"
    and "policy_validate (ex_file_path X) rt v (a \<noteq> None) (g \<noteq> None) = Inr ()"
  using assms by (auto simp: dispatch_permission_def split: if_splits option.splits)

text \<open>C2: nothing reaches an executor unless the policy of the channel allows it. A
  process starts, and a file changes, only unrestricted, inside the managed sandbox, as
  an authorized MCP command, or under an approval or a session permission that was
  issued for exactly this message and has been recorded; and account credentials are
  never part of a started process.\<close>

theorem dispatch_enforces_policy:
  assumes ok: "log_ok (sdb s)" and run: "dispatch X rt c p t a g v s = (r, s')"
    and wrote: "sent s' \<noteq> sent s"
  shows "sent s' = sent s @ [(c, Some t, sent_message t v)] \<and> recorded (sdb s') a g
    \<and> (\<forall>m. json_index v ''method'' = JStr m \<longrightarrow> permitted_method m)
    \<and> (json_index v ''method'' = JStr ''process/start'' \<longrightarrow>
         \<not> forwards_account (json_index v ''params'')
         \<and> (rt_unrestricted rt \<or> managed (json_index (json_index v ''params'') ''sandbox'')
            \<or> authorized_mcp (ex_file_path X) rt (json_index v ''params'')
            \<or> (\<exists>h. a = Some h \<and> approval_valid_for h c t v)
            \<or> (\<exists>h. g = Some h \<and> permissions_match h c v)))
    \<and> (\<forall>m. json_index v ''method'' = JStr m \<and> m \<in> set file_mutations \<longrightarrow>
         rt_unrestricted rt \<or> managed (json_index (json_index v ''params'') ''sandbox'')
         \<or> (\<exists>h. g = Some h \<and> permissions_match h c v))"
proof -
  from dispatch_once [OF ok run] wrote
  have sent: "sent s' = sent s @ [(c, Some t, sent_message t v)]" and rec: "recorded (sdb s') a g"
    and perm: "dispatch_permission X rt c t a g v = Inr ()" by auto
  note P = dispatch_permission_Inr [OF perm]
  have valid: "(case as_string (json_index v ''method'') of
       None \<Rightarrow> json_get v ''id'' \<noteq> None \<and> (json_get v ''result'' \<noteq> None \<or> json_get v ''error'' \<noteq> None)
     | Some m \<Rightarrow> permitted_method m
         \<and> (m \<in> set file_mutations \<longrightarrow>
              rt_unrestricted rt \<or> g \<noteq> None \<or> managed (json_index (json_index v ''params'') ''sandbox''))
         \<and> (m = ''process/start'' \<longrightarrow>
              \<not> forwards_account (json_index v ''params'')
              \<and> (rt_unrestricted rt \<or> g \<noteq> None \<or> managed (json_index (json_index v ''params'') ''sandbox'')
                 \<or> authorized_mcp (ex_file_path X) rt (json_index v ''params'') \<or> a \<noteq> None)))"
    using P(3) by (simp only: policy_validate_Inr)
  show ?thesis using sent rec valid P(1,2) by auto
qed

lemma dispatch_enforces_policy_witness:
  "recorded (sdb (demo_turn demo_open)) None None \<and> permitted_method ''initialize''"
proof -
  have log: "log_ok (sdb demo_open)"
  proof -
    let ?st = "\<lparr> st_identity = ''i'', st_instance = ''s'', st_boot = ''b'' \<rparr>"
    have empty: "log_ok (sdb empty_server)" by (simp add: empty_server_def empty_log_ok)
    have "create_channel ?st ''c'' ''p'' 0 empty_server
        = (Inr (), snd (create_channel ?st ''c'' ''p'' 0 empty_server))"
      using demo_open_result by (metis prod.collapse)
    from create_channel_cases [OF this empty]
    show ?thesis by (auto simp: demo_open_def Let_def stays_def intro!: new_channel_log_ok)
  qed
  let ?d = "dispatch demo_externals demo_runtime ''c'' ''p'' ''op'' None None demo_message demo_open"
  have run: "?d = (fst ?d, snd ?d)" by simp
  have wrote: "sent (snd ?d) \<noteq> sent demo_open" by code_simp
  have same: "sdb (snd ?d) = sdb (demo_turn demo_open)" by code_simp
  have m: "json_index demo_message ''method'' = JStr ''initialize''" by code_simp
  from dispatch_enforces_policy [OF log run wrote] show ?thesis unfolding same using m by blast
qed

end
