(* ===== verification/Adapter_Policy.thy ===== *)
theory Adapter_Policy
  imports Server_Policy
begin

text \<open>
  Models \<open>codex-adapter/src/thread/execution_policy.rs\<close> and \<open>settings.rs\<close>: which native
  settings a bound session may ask for, and which defaults it may save.  Canonical
  paths come from the file system and are a parameter, as is the text form of JSON.
\<close>

section \<open>Sessions and paths\<close>

text \<open>\<open>core::session::Session\<close> and \<open>SessionBinding\<close>.\<close>

record Session =
  se_id :: string
  se_title :: string
  se_cwd :: string
  se_created_at :: int
  se_updated_at :: int
  se_archived :: bool
  se_state :: string

record SessionBinding =
  bi_server_id :: string
  bi_remote_identity :: string
  bi_environment_id :: string
  bi_codex_home :: string
  bi_codex_version :: string
  bi_execution_mode :: string
  bi_revision :: int
  bi_session :: Session

text \<open>\<open>Path::starts_with\<close> and \<open>Path::join\<close>.\<close>

definition path_starts_with :: "string \<Rightarrow> string \<Rightarrow> bool" where
  "path_starts_with p q \<longleftrightarrow>
     take (length (path_components q)) (path_components p) = path_components q"

definition path_join :: "string \<Rightarrow> string \<Rightarrow> string" where
  "path_join p q = (if starts_with q ''/'' then q else if p = [] then q
     else if ends_with p ''/'' then p @ q else p @ ''/'' @ q)"

text \<open>\<open>params.get(key).filter(|v| !v.is_null())\<close>\<close>

definition non_null :: "json \<Rightarrow> string \<Rightarrow> json option" where
  "non_null params key = (case json_get params key of
      Some v \<Rightarrow> if is_null v then None else Some v | None \<Rightarrow> None)"

section \<open>Execution policy\<close>

definition exceeds_limit :: Fault where
  "exceeds_limit = Fault_new ''EXECUTION_PERMISSION_LIMIT''
     ''these permissions require an explicit Full Access choice for this session''"

definition validate_reviewer :: "json \<Rightarrow> Fault + unit" where
  "validate_reviewer value =
    (if is_null value
        \<or> (case as_string value of
             Some s \<Rightarrow> s \<in> {''user'', ''auto_review'', ''guardian_subagent''} | None \<Rightarrow> False)
     then Inr () else Inl (Fault_new ''INVALID_APPROVALS_REVIEWER'' ''unsupported native approval reviewer''))"

fun check_roots :: "bool \<Rightarrow> string \<Rightarrow> json list \<Rightarrow> Fault + unit" where
  "check_roots unrestricted cwd [] = Inr ()"
| "check_roots unrestricted cwd (root # roots) =
    (case as_string root of
       None \<Rightarrow> Inl exceeds_limit
     | Some path \<Rightarrow>
         if \<not> unrestricted \<and> (\<not> path_starts_with path cwd \<or> ''..'' \<in> set (path_components path))
         then Inl exceeds_limit else check_roots unrestricted cwd roots)"

definition check_permissions :: "bool \<Rightarrow> json option \<Rightarrow> Fault + unit" where
  "check_permissions unrestricted preset =
    (case preset of
       None \<Rightarrow> Inr ()
     | Some v \<Rightarrow>
         if as_string v = Some '':workspace'' then Inr ()
         else if as_string v = Some '':danger-full-access''
         then (if unrestricted then Inr () else Inl exceeds_limit)
         else Inl (Fault_new ''UNSUPPORTED_PERMISSION_PRESET''
           ''this workspace supports the native workspace and Full Access presets''))"

definition check_sandbox :: "bool \<Rightarrow> string \<Rightarrow> json option \<Rightarrow> Fault + unit" where
  "check_sandbox unrestricted cwd sandbox =
    (case sandbox of
       None \<Rightarrow> Inr ()
     | Some policy \<Rightarrow>
         let t = as_string (json_index policy ''type'') in
         if t = Some ''dangerFullAccess'' \<and> unrestricted then Inr ()
         else if t \<in> {Some ''readOnly'', Some ''workspaceWrite''}
         then
           (if \<not> unrestricted \<and> json_index policy ''networkAccess'' = JBool True then Inl exceeds_limit
            else (case json_get policy ''writableRoots'' of
                None \<Rightarrow> Inr ()
              | Some roots \<Rightarrow>
                  (case as_array roots of
                     None \<Rightarrow> Inl exceeds_limit
                   | Some rs \<Rightarrow> check_roots unrestricted cwd rs)))
         else Inl exceeds_limit)"

definition execution_validate :: "json \<Rightarrow> SessionBinding \<Rightarrow> bool \<Rightarrow> Fault + unit" where
  "execution_validate params binding full_access =
    (let cwd = se_cwd (bi_session binding);
         unrestricted = (bi_execution_mode binding = ''unrestricted'' \<or> full_access);
         preset = non_null params ''permissions'';
         sandbox = non_null params ''sandboxPolicy'' in
     if (case non_null params ''cwd'' of Some v \<Rightarrow> as_string v \<noteq> Some cwd | None \<Rightarrow> False)
     then Inl (Fault_new ''WORKSPACE_SETTINGS_LOCKED''
       ''the session's execution directory cannot change'')
     else if preset \<noteq> None \<and> sandbox \<noteq> None
     then Inl (Fault_new ''INVALID_NATIVE_SETTINGS''
       ''choose a permissions preset or a sandbox policy, not both'')
     else rbind (check_permissions unrestricted preset) (\<lambda>_.
       rbind (check_sandbox unrestricted cwd sandbox) (\<lambda>_.
       (case json_get params ''approvalsReviewer'' of
          None \<Rightarrow> Inr ()
        | Some reviewer \<Rightarrow> validate_reviewer reviewer))))"

section \<open>Settings\<close>

definition settings_invalid :: Fault where
  "settings_invalid = Fault_new ''INVALID_NATIVE_SETTINGS''
     ''unsupported or invalid native settings parameters''"

definition known_fields :: "json \<Rightarrow> string list \<Rightarrow> Fault + unit" where
  "known_fields value allowed =
    (case as_object value of
       None \<Rightarrow> Inl settings_invalid
     | Some ps \<Rightarrow> if list_ex (\<lambda>(k, _). k \<notin> set allowed) ps then Inl settings_invalid else Inr ())"

definition running_fields :: "string list" where
  "running_fields = [''threadId'', ''turnId'', ''model'', ''effort'', ''summary'', ''serviceTier'',
     ''approvalsReviewer'']"

definition thread_fields :: "string list" where
  "thread_fields = [''threadId'', ''model'', ''effort'', ''summary'', ''serviceTier'', ''personality'',
     ''collaborationMode'', ''multiAgentMode'', ''disabledPluginIds'', ''cwd'', ''permissions'',
     ''sandboxPolicy'', ''approvalPolicy'', ''approvalsReviewer'']"

definition asks_full_access :: "json \<Rightarrow> bool" where
  "asks_full_access params \<longleftrightarrow> json_index params ''permissions'' = JStr '':danger-full-access''
     \<or> pointer_string [''sandboxPolicy'', ''type''] params = Some ''dangerFullAccess''"

definition prepare_thread :: "string \<Rightarrow> json \<Rightarrow> SessionBinding \<Rightarrow> Fault + unit" where
  "prepare_thread m params binding =
    rbind (known_fields params (if m = ''turn/settings/update'' then running_fields else thread_fields))
      (\<lambda>_. if as_string (json_index params ''threadId'') \<noteq> Some (se_id (bi_session binding))
       then Inl (Fault_new ''SESSION_MISMATCH'' ''settings belong to another session'')
       else execution_validate params binding (asks_full_access params))"

definition restored_keys :: "string list" where
  "restored_keys = [''model'', ''effort'', ''summary'', ''serviceTier'', ''personality'',
     ''collaborationMode'', ''disabledPluginIds'', ''approvalPolicy'', ''approvalsReviewer'']"

definition restore_key :: "json \<Rightarrow> string \<Rightarrow> json \<Rightarrow> json" where
  "restore_key snapshot key params =
    (case json_get snapshot key of
       Some v \<Rightarrow> if \<not> is_null v \<or> key = ''serviceTier'' then json_put key v params else params
     | None \<Rightarrow> params)"

definition settings_restore :: "json \<Rightarrow> SessionBinding \<Rightarrow> bool \<Rightarrow> Fault + json" where
  "settings_restore snapshot binding full_access =
    (let params = fold (restore_key snapshot) restored_keys
           (JObj [(''threadId'', JStr (se_id (bi_session binding)))]);
         policy = json_index snapshot ''sandboxPolicy'';
         t = as_string (json_index policy ''type'') in
     rbind (if t = Some ''dangerFullAccess'' \<and> full_access
            then Inr (json_put ''permissions'' (JStr '':danger-full-access'') params)
            else if t \<in> {Some ''readOnly'', Some ''workspaceWrite''}
            then Inr (json_put ''sandboxPolicy'' policy params)
            else Inl (Fault_new ''SETTINGS_UNCONFIRMED''
              ''execution permissions were not confirmed before interruption; review the session settings before continuing''))
       (\<lambda>params. rbind (prepare_thread ''thread/settings/update'' params binding) (\<lambda>_. Inr params)))"

section \<open>Saved defaults\<close>

definition PREFERENCE_KEYS :: "string list" where
  "PREFERENCE_KEYS = [''model'', ''model_reasoning_effort'', ''model_reasoning_summary'',
     ''model_verbosity'', ''plan_mode_reasoning_effort'', ''service_tier'', ''personality'',
     ''review_model'', ''approvals_reviewer'']"

definition preference_key :: "string \<Rightarrow> bool" where
  "preference_key key \<longleftrightarrow> key \<in> set PREFERENCE_KEYS
     \<or> (case Option.bind (strip_prefix key ''profiles.'') (\<lambda>k. split_once ''.'' k) of
          None \<Rightarrow> False
        | Some (profile, k) \<Rightarrow> profile \<noteq> []
            \<and> list_all (\<lambda>b. is_ascii_alphanumeric b \<or> b = CHR ''_'' \<or> b = CHR ''-'') profile
            \<and> k \<in> set PREFERENCE_KEYS)"

definition project_trust_key :: "serde \<Rightarrow> string \<Rightarrow> string" where
  "project_trust_key S cwd = ''projects.'' @ to_text S (JStr cwd) @ ''.trust_level''"

definition validate_edit :: "serde \<Rightarrow> json \<Rightarrow> string \<Rightarrow> Fault + unit" where
  "validate_edit S edit cwd =
    (case as_string (json_index edit ''keyPath'') of
       None \<Rightarrow> Inl settings_invalid
     | Some key \<Rightarrow>
         let project_trust = (key = project_trust_key S cwd) in
         if \<not> preference_key key \<and> \<not> project_trust
         then Inl (Fault_new ''UNSUPPORTED_CONFIG_SETTING''
           ''this workspace can save native model and reviewer preferences and its own project trust; the execution ceiling is managed by remote-codex config -n NAME'')
         else if as_string (json_index edit ''mergeStrategy'') \<notin> {Some ''replace'', Some ''upsert''}
           \<or> (case json_get edit ''value'' of
                None \<Rightarrow> True | Some v \<Rightarrow> \<not> is_null v \<and> as_string v = None)
         then Inl settings_invalid
         else if project_trust
           \<and> as_string (json_index edit ''value'') \<notin> {Some ''trusted'', Some ''untrusted''}
         then Inl settings_invalid
         else if last (split_on CHR ''.'' key) = ''approvals_reviewer''
         then validate_reviewer (json_index edit ''value'')
         else Inr ())"

fun validate_edits :: "serde \<Rightarrow> string \<Rightarrow> json list \<Rightarrow> Fault + unit" where
  "validate_edits S cwd [] = Inr ()"
| "validate_edits S cwd (edit # edits) =
    rbind (known_fields edit [''keyPath'', ''value'', ''mergeStrategy'']) (\<lambda>_.
    rbind (validate_edit S edit cwd) (\<lambda>_. validate_edits S cwd edits))"

definition prepare_config ::
  "serde \<Rightarrow> (string \<Rightarrow> string option) \<Rightarrow> string \<Rightarrow> json \<Rightarrow> SessionBinding \<Rightarrow> Fault + json" where
  "prepare_config S canonicalize m params binding =
    (let batch = (m = ''config/batchWrite'');
         cwd = se_cwd (bi_session binding);
         target = path_join (bi_codex_home binding) ''config.toml'' in
     rbind (known_fields params
       (if batch then [''edits'', ''filePath'', ''expectedVersion'', ''reloadUserConfig'']
        else [''keyPath'', ''value'', ''mergeStrategy'', ''filePath'', ''expectedVersion''])) (\<lambda>_.
     rbind (case non_null params ''filePath'' of
         None \<Rightarrow> Inr ()
       | Some v \<Rightarrow>
           (case as_string v of
              None \<Rightarrow> Inl settings_invalid
            | Some path \<Rightarrow>
                if \<not> path_eq path target
                  \<and> (case canonicalize target of Some c \<Rightarrow> \<not> path_eq c path | None \<Rightarrow> True)
                then Inl (Fault_new ''CONFIG_TARGET_MISMATCH''
                  ''defaults must be saved to this computer's Codex user config'')
                else Inr ())) (\<lambda>_.
     if (case json_get params ''expectedVersion'' of
           None \<Rightarrow> False | Some v \<Rightarrow> \<not> is_null v \<and> as_string v = None)
     then Inl settings_invalid
     else rbind
       (if batch then
          (if (case json_get params ''reloadUserConfig'' of None \<Rightarrow> False | Some v \<Rightarrow> as_bool v = None)
           then Inl settings_invalid
           else (case as_array (json_index params ''edits'') of
               None \<Rightarrow> Inl settings_invalid
             | Some edits \<Rightarrow>
                 if edits = [] \<or> length edits > 64 then Inl settings_invalid
                 else validate_edits S cwd edits))
        else validate_edit S params cwd)
       (\<lambda>_. let params = json_put ''filePath'' (JStr target) params in
         Inr (if batch then json_put ''reloadUserConfig'' (JBool False) params else params)))))"

section \<open>What validation guarantees\<close>

text \<open>The authority of a session that was not given Full Access.\<close>

definition root_inside :: "string \<Rightarrow> json \<Rightarrow> bool" where
  "root_inside cwd root \<longleftrightarrow> (case as_string root of
      Some path \<Rightarrow> path_starts_with path cwd \<and> ''..'' \<notin> set (path_components path)
    | None \<Rightarrow> False)"

definition sandbox_inside :: "string \<Rightarrow> json \<Rightarrow> bool" where
  "sandbox_inside cwd policy \<longleftrightarrow>
     as_string (json_index policy ''type'') \<in> {Some ''readOnly'', Some ''workspaceWrite''}
     \<and> json_index policy ''networkAccess'' \<noteq> JBool True
     \<and> (case json_get policy ''writableRoots'' of
          None \<Rightarrow> True
        | Some roots \<Rightarrow> (case as_array roots of
              None \<Rightarrow> False | Some rs \<Rightarrow> list_all (root_inside cwd) rs))"

definition reviewer_ok :: "json \<Rightarrow> bool" where
  "reviewer_ok v \<longleftrightarrow>
     v = JNull \<or> v = JStr ''user'' \<or> v = JStr ''auto_review'' \<or> v = JStr ''guardian_subagent''"

definition inside_workspace :: "SessionBinding \<Rightarrow> json \<Rightarrow> bool" where
  "inside_workspace binding params \<longleftrightarrow>
     (let cwd = se_cwd (bi_session binding);
          preset = non_null params ''permissions''; sandbox = non_null params ''sandboxPolicy'' in
      non_null params ''cwd'' \<in> {None, Some (JStr cwd)}
      \<and> preset \<in> {None, Some (JStr '':workspace'')}
      \<and> (case sandbox of None \<Rightarrow> True | Some policy \<Rightarrow> preset = None \<and> sandbox_inside cwd policy)
      \<and> (case json_get params ''approvalsReviewer'' of None \<Rightarrow> True | Some v \<Rightarrow> reviewer_ok v))"

lemma check_roots_inside: "check_roots False cwd roots = Inr () \<longleftrightarrow> list_all (root_inside cwd) roots"
  by (induction roots) (auto simp: root_inside_def split: option.splits)

lemma check_permissions_inside:
  "check_permissions False preset = Inr () \<longleftrightarrow> preset \<in> {None, Some (JStr '':workspace'')}"
  by (auto simp: check_permissions_def split: option.splits)

lemma check_sandbox_inside:
  "check_sandbox False cwd sandbox = Inr () \<longleftrightarrow>
     (case sandbox of None \<Rightarrow> True | Some policy \<Rightarrow> sandbox_inside cwd policy)"
  by (auto simp: check_sandbox_def sandbox_inside_def Let_def check_roots_inside
      split: option.splits)

lemma validate_reviewer_ok: "validate_reviewer v = Inr () \<longleftrightarrow> reviewer_ok v"
  by (auto simp: validate_reviewer_def reviewer_ok_def is_null_def split: option.splits)

lemma execution_validate_inside:
  assumes "bi_execution_mode binding \<noteq> ''unrestricted''"
  shows "execution_validate params binding False = Inr () \<longleftrightarrow> inside_workspace binding params"
proof -
  have cwd: "(case non_null params ''cwd'' of Some v \<Rightarrow> as_string v \<noteq> Some c | None \<Rightarrow> False)
      \<longleftrightarrow> non_null params ''cwd'' \<notin> {None, Some (JStr c)}" for c
    by (auto split: option.splits)
  have preset: "non_null params ''permissions'' \<noteq> None \<and> non_null params ''sandboxPolicy'' \<noteq> None
      \<longleftrightarrow> \<not> (case non_null params ''sandboxPolicy'' of
            None \<Rightarrow> True | Some _ \<Rightarrow> non_null params ''permissions'' = None)"
    by (auto split: option.splits)
  have reviewer: "(case json_get params ''approvalsReviewer'' of
        None \<Rightarrow> Inr () | Some reviewer \<Rightarrow> validate_reviewer reviewer) = Inr ()
      \<longleftrightarrow> (case json_get params ''approvalsReviewer'' of None \<Rightarrow> True | Some v \<Rightarrow> reviewer_ok v)"
    by (simp add: validate_reviewer_ok split: option.splits)
  have false: "(bi_execution_mode binding = ''unrestricted'' \<or> False) = False" using assms by simp
  show ?thesis
    unfolding execution_validate_def Let_def cwd preset false inside_workspace_def
    by (auto simp: rbind_Inr_iff check_permissions_inside check_sandbox_inside reviewer
        split: option.splits)
qed

lemma prepare_thread_Inr:
  assumes "prepare_thread m params binding = Inr ()"
  shows "json_index params ''threadId'' = JStr (se_id (bi_session binding))"
    and "execution_validate params binding (asks_full_access params) = Inr ()"
    and "\<exists>ps. params = JObj ps"
  using assms by (auto simp: prepare_thread_def rbind_Inr_iff known_fields_def split: if_splits option.splits)
    (cases params; simp)+

lemma prepare_thread_confined:
  assumes "prepare_thread m params binding = Inr ()" "\<not> asks_full_access params"
    and "bi_execution_mode binding \<noteq> ''unrestricted''"
  shows "inside_workspace binding params"
  using prepare_thread_Inr(2) [OF assms(1)] execution_validate_inside [OF assms(3)] assms(2) by simp

lemma fold_restore_key:
  assumes "x \<notin> set ks"
  shows "\<exists>ps'. fold (restore_key snapshot) ks (JObj ps) = JObj ps' \<and> obj_get ps' x = obj_get ps x"
  using assms
proof (induction ks arbitrary: ps)
  case Nil
  then show ?case by simp
next
  case (Cons k ks)
  have "\<exists>ps1. restore_key snapshot k (JObj ps) = JObj ps1 \<and> obj_get ps1 x = obj_get ps x"
    using Cons.prems by (auto simp: restore_key_def split: option.splits)
  then obtain ps1 where 1: "restore_key snapshot k (JObj ps) = JObj ps1" "obj_get ps1 x = obj_get ps x"
    by blast
  have "x \<notin> set ks" using Cons.prems by simp
  from Cons.IH [OF this, of ps1] show ?case using 1 by simp
qed


definition demo_binding :: SessionBinding where
  "demo_binding = \<lparr> bi_server_id = ''srv'', bi_remote_identity = ''rid'', bi_environment_id = ''env'',
     bi_codex_home = ''/home/u/.codex'', bi_codex_version = ''1'', bi_execution_mode = ''managed'',
     bi_revision = 1, bi_session = \<lparr> se_id = ''s'', se_title = ''t'', se_cwd = ''/work'', se_created_at = 0,
       se_updated_at = 0, se_archived = False, se_state = ''idle'' \<rparr> \<rparr>"


text \<open>The edits a request carries, and what one may change.\<close>

definition config_edits :: "string \<Rightarrow> json \<Rightarrow> json list" where
  "config_edits m params =
    (if m = ''config/batchWrite''
     then (case as_array (json_index params ''edits'') of Some edits \<Rightarrow> edits | None \<Rightarrow> [])
     else [params])"

definition edit_allowed :: "serde \<Rightarrow> string \<Rightarrow> json \<Rightarrow> bool" where
  "edit_allowed S cwd edit \<longleftrightarrow> (case as_string (json_index edit ''keyPath'') of
      None \<Rightarrow> False
    | Some key \<Rightarrow> preference_key key
        \<or> key = project_trust_key S cwd
          \<and> json_index edit ''value'' \<in> {JStr ''trusted'', JStr ''untrusted''})"

lemma validate_edit_allowed: "validate_edit S edit cwd = Inr () \<Longrightarrow> edit_allowed S cwd edit"
  by (auto simp: validate_edit_def edit_allowed_def Let_def split: option.splits if_splits)

lemma validate_edits_allowed:
  "validate_edits S cwd edits = Inr () \<Longrightarrow> list_all (edit_allowed S cwd) edits"
  by (induction edits) (auto simp: rbind_Inr_iff intro: validate_edit_allowed)

text \<open>C16: saving defaults only ever writes this computer's Codex user configuration, without
  reloading it, and only native preferences or the trust choice of the session's own
  workspace; between 1 and 64 edits, all of them validated before any is forwarded.\<close>

theorem prepare_config_confined:
  assumes "prepare_config S canonicalize m params binding = Inr params'"
  shows "json_get params' ''filePath'' = Some (JStr (path_join (bi_codex_home binding) ''config.toml''))
    \<and> list_all (edit_allowed S (se_cwd (bi_session binding))) (config_edits m params')
    \<and> 0 < length (config_edits m params') \<and> length (config_edits m params') \<le> 64
    \<and> (m = ''config/batchWrite'' \<longrightarrow> json_get params' ''reloadUserConfig'' = Some (JBool False))"
proof -
  let ?cwd = "se_cwd (bi_session binding)"
  let ?target = "JStr (path_join (bi_codex_home binding) ''config.toml'')"
  let ?p = "json_put ''filePath'' ?target params"
  obtain ps where ps: "params = JObj ps"
    using assms by (auto simp: prepare_config_def Let_def rbind_Inr_iff known_fields_def split: if_splits option.splits)
      (cases params; simp)+
  show ?thesis
  proof (cases "m = ''config/batchWrite''")
    case True
    obtain edits where edits: "as_array (json_index params ''edits'') = Some edits"
      and some: "edits \<noteq> []" "length edits \<le> 64" and ok: "validate_edits S ?cwd edits = Inr ()"
      and p': "params' = json_put ''reloadUserConfig'' (JBool False) ?p"
      using assms True by (auto simp: prepare_config_def Let_def rbind_Inr_iff split: if_splits option.splits)
    have "config_edits m params' = edits"
      using edits True by (simp add: config_edits_def p' ps json_index_def)
    then show ?thesis using some validate_edits_allowed [OF ok] True by (simp add: p' ps)
  next
    case False
    have ok: "validate_edit S params ?cwd = Inr ()" and p': "params' = ?p"
      using assms False by (auto simp: prepare_config_def Let_def rbind_Inr_iff split: if_splits option.splits)
    have same: "json_index params' ''keyPath'' = json_index params ''keyPath''"
      "json_index params' ''value'' = json_index params ''value''" by (simp_all add: p' ps)
    have "edit_allowed S ?cwd params'"
      using validate_edit_allowed [OF ok] unfolding edit_allowed_def same .
    then show ?thesis using False by (simp add: config_edits_def p' ps)
  qed
qed

definition name_serde :: serde where
  "name_serde = \<lparr> to_text = (\<lambda>v. case v of JStr s \<Rightarrow> ''\"'' @ s @ ''\"'' | _ \<Rightarrow> []), from_text = (\<lambda>_. None) \<rparr>"

lemma prepare_config_confined_witness:
  "edit_allowed name_serde ''/work'' (JObj [(''keyPath'', JStr ''profiles.fast.model''), (''value'', JStr ''m''),
     (''mergeStrategy'', JStr ''replace''), (''filePath'', JStr ''/home/u/.codex/config.toml'')])"
proof -
  let ?p = "JObj [(''keyPath'', JStr ''profiles.fast.model''), (''value'', JStr ''m''),
     (''mergeStrategy'', JStr ''replace'')]"
  let ?p' = "JObj [(''keyPath'', JStr ''profiles.fast.model''), (''value'', JStr ''m''),
     (''mergeStrategy'', JStr ''replace''), (''filePath'', JStr ''/home/u/.codex/config.toml'')]"
  have r: "prepare_config name_serde (\<lambda>_. None) ''config/value/write'' ?p demo_binding = Inr ?p'"
    by code_simp
  have e: "config_edits ''config/value/write'' ?p' = [?p']" by code_simp
  have c: "se_cwd (bi_session demo_binding) = ''/work''" by code_simp
  from prepare_config_confined [OF r] have "list_all (edit_allowed name_serde ''/work'') [?p']"
    unfolding e c by blast
  then show ?thesis by simp
qed

end
