(* ===== verification/Adapter_Request.thy ===== *)
theory Adapter_Request
  imports Adapter_Policy
begin

text \<open>
  Models \<open>codex-adapter/src/thread/request.rs\<close>, \<open>attachments.rs\<close> and the parameters of
  \<open>binding.rs\<close>: how a frontend's request to the native backend is checked, bound to the
  session's workspace and classified.  What the host's file system and the UUID parser
  answer is the parameter \<open>host\<close>.
\<close>

section \<open>Attachments\<close>

datatype Link_Kind = Link | Entry | Missing | Unreadable

record host =
  ho_canonicalize :: "string \<Rightarrow> string option"
  ho_link :: "string \<Rightarrow> Link_Kind"
  ho_uuid :: "string \<Rightarrow> string option"

definition attachment_denied :: Fault where
  "attachment_denied = Fault_new ''ATTACHMENT_PATH_DENIED''
     ''The native composer can only access files in this local Codex home's attachment directories.''"

definition path_strip_prefix :: "string \<Rightarrow> string \<Rightarrow> string list option" where
  "path_strip_prefix p q =
    (if path_starts_with p q then Some (drop (length (path_components q)) (path_components p)) else None)"

text \<open>\<open>Component::Normal\<close>: a name.\<close>

definition normal_component :: "string \<Rightarrow> bool" where
  "normal_component c \<longleftrightarrow> c \<noteq> [] \<and> CHR ''/'' \<notin> set c \<and> c \<notin> {''.'', ''..''}"

fun resolve_links :: "(string \<Rightarrow> Link_Kind) \<Rightarrow> string list \<Rightarrow> string \<Rightarrow> Fault + string" where
  "resolve_links link [] resolved = Inr resolved"
| "resolve_links link (c # cs) resolved =
    (let p = path_join resolved c in
     if link p \<in> {Link, Unreadable} then Inl attachment_denied else resolve_links link cs p)"

definition attachment_fields :: "string \<Rightarrow> string list option" where
  "attachment_fields m =
    (if m = ''fs/createDirectory'' then Some [''path'', ''recursive'']
     else if m = ''fs/writeFile'' then Some [''path'', ''dataBase64'']
     else if m = ''fs/readFile'' then Some [''path''] else None)"

definition attachment_relative :: "host \<Rightarrow> string \<Rightarrow> string \<Rightarrow> string \<Rightarrow> string list option" where
  "attachment_relative H home canonical path =
    (case path_strip_prefix path (path_join home ''attachments'') of
       Some r \<Rightarrow> Some r
     | None \<Rightarrow> path_strip_prefix path (path_join canonical ''attachments''))"

definition attachment_shape :: "host \<Rightarrow> string \<Rightarrow> string list \<Rightarrow> bool" where
  "attachment_shape H m relative \<longleftrightarrow>
    (case relative of
       [] \<Rightarrow> False
     | i # rest \<Rightarrow> normal_component i \<and> ho_uuid H i = Some i \<and> list_all normal_component rest
         \<and> (m = ''fs/createDirectory'' \<or> rest \<noteq> []))"

definition attachment_prepare :: "host \<Rightarrow> string \<Rightarrow> json \<Rightarrow> string \<Rightarrow> Fault + json" where
  "attachment_prepare H m params home =
    rbind (ok_or attachment_denied (attachment_fields m)) (\<lambda>fields.
    rbind (known_fields params fields) (\<lambda>_.
    rbind (ok_or attachment_denied (as_string (json_index params ''path''))) (\<lambda>path.
    rbind (ok_or attachment_denied (ho_canonicalize H home)) (\<lambda>canonical.
    rbind (ok_or attachment_denied (attachment_relative H home canonical path)) (\<lambda>relative.
    if \<not> attachment_shape H m relative then Inl attachment_denied
    else if m = ''fs/createDirectory''
      \<and> (case json_get params ''recursive'' of
           None \<Rightarrow> False | Some v \<Rightarrow> \<not> is_null v \<and> as_bool v = None)
    then Inl attachment_denied
    else if m = ''fs/writeFile'' \<and> as_string (json_index params ''dataBase64'') = None
    then Inl attachment_denied
    else rbind (resolve_links (ho_link H) (''attachments'' # relative) canonical) (\<lambda>resolved.
      Inr (json_put ''path'' (JStr resolved) params)))))))"

section \<open>Binding\<close>

definition mode_full_access :: "string \<Rightarrow> bool" where
  "mode_full_access mode \<longleftrightarrow> mode = ''unrestricted''"

definition start_params :: "string \<Rightarrow> string \<Rightarrow> string \<Rightarrow> json" where
  "start_params environment cwd mode = JObj
    [(''cwd'', JStr cwd),
     (''environments'', JArr [JObj [(''environmentId'', JStr environment), (''cwd'', JStr cwd)]]),
     (''approvalPolicy'', JStr ''on-request''),
     (''sandbox'', JStr (if mode_full_access mode then ''danger-full-access'' else ''workspace-write'')),
     (''experimentalRawEvents'', JBool False)]"

definition bound_environments :: "SessionBinding \<Rightarrow> json" where
  "bound_environments b = JArr [JObj [(''environmentId'', JStr (bi_environment_id b)),
     (''cwd'', JStr (se_cwd (bi_session b)))]]"

definition turn_params :: "json \<Rightarrow> SessionBinding \<Rightarrow> json" where
  "turn_params params b =
    json_put ''runtimeWorkspaceRoots'' (JArr [JStr (se_cwd (bi_session b))])
      (json_put ''environments'' (bound_environments b)
        (json_put ''cwd'' (JStr (se_cwd (bi_session b))) params))"

section \<open>Requests\<close>

datatype OperationKind =
  Op_Read
| Op_Turn
| Op_Steer
| Op_Settings "bool option"
| Op_GoalStart
| Op_GoalDefine
| Op_GoalControl

record Operation =
  on_kind :: OperationKind
  on_method :: string
  on_params :: json

datatype Prepared = Immediate json | Operation Operation

record Thread =
  th_initialized :: json
  th_binding :: SessionBinding
  th_bootstrap :: json

definition client_message_id :: "Operation \<Rightarrow> string option" where
  "client_message_id x =
    (if on_kind x \<in> {Op_Turn, Op_Steer}
     then as_string (json_index (on_params x) ''clientUserMessageId'') else None)"

definition permission_intent :: "json \<Rightarrow> bool option" where
  "permission_intent params =
    (case as_string (json_index params ''permissions'') of
       Some preset \<Rightarrow> Some (preset = '':danger-full-access'')
     | None \<Rightarrow> map_option (\<lambda>p. p = ''dangerFullAccess'')
         (pointer_string [''sandboxPolicy'', ''type''] params))"

definition read_methods :: "string list" where
  "read_methods = [''thread/read'', ''thread/turns/list'', ''thread/items/list'', ''thread/goal/get'',
     ''thread/name/set'', ''turn/interrupt'', ''model/list'', ''collaborationMode/list'',
     ''account/read'', ''account/login/start'', ''account/login/cancel'', ''account/rateLimits/read'',
     ''config/read'', ''configRequirements/read'', ''skills/list'', ''plugin/list'', ''hooks/list'',
     ''mcpServerStatus/list'']"

definition is_string :: "json \<Rightarrow> bool" where
  "is_string v \<longleftrightarrow> as_string v \<noteq> None"

text \<open>The \<open>match\<close> on the method: the kind with the rewritten parameters, or an immediate
  answer.\<close>

definition classify ::
  "serde \<Rightarrow> host \<Rightarrow> Thread \<Rightarrow> bool \<Rightarrow> string \<Rightarrow> json \<Rightarrow> Fault + (json + OperationKind \<times> json)" where
  "classify S H t persisted m params =
    (let b = th_binding t; kind = (\<lambda>k p. Inr (Inr (k, p))) in
     if m \<in> {''fs/createDirectory'', ''fs/writeFile'', ''fs/readFile''}
     then rbind (attachment_prepare H m params (bi_codex_home b)) (kind Op_Read)
     else if m = ''thread/goal/set''
     then rbind (known_fields params [''threadId'', ''objective'', ''status'', ''tokenBudget'', ''origin''])
       (\<lambda>_. let status = json_index params ''status''; objective = is_string (json_index params ''objective'') in
         kind (if status = JStr ''active'' \<or> objective \<and> status \<noteq> JStr ''paused'' then Op_GoalStart
               else if objective then Op_GoalDefine else Op_GoalControl) params)
     else if m = ''thread/goal/clear''
     then rbind (known_fields params [''threadId'', ''origin'']) (\<lambda>_. kind Op_GoalControl params)
     else if m \<in> {''thread/settings/update'', ''turn/settings/update''}
     then rbind (prepare_thread m params b) (\<lambda>_. kind (Op_Settings (permission_intent params)) params)
     else if m \<in> {''config/batchWrite'', ''config/value/write''}
     then rbind (prepare_config S (ho_canonicalize H) m params b) (kind Op_Read)
     else if m = ''turn/start'' then kind Op_Turn (turn_params params b)
     else if m = ''turn/steer''
     then (if (case as_string (json_index params ''expectedTurnId'') of None \<Rightarrow> True | Some s \<Rightarrow> s = [])
       then Inl (Fault_new ''EXPECTED_TURN_REQUIRED''
         ''Select the running turn before sending a follow-up.'')
       else kind Op_Steer params)
     else if m = ''thread/resume''
     then (if \<not> persisted then Inr (Inl (th_bootstrap t))
       else let bound = JObj [(''threadId'', JStr (se_id (bi_session b))), (''excludeTurns'', JBool True)] in
         kind Op_Read (case json_get params ''initialTurnsPage'' of
             None \<Rightarrow> bound | Some page \<Rightarrow> json_put ''initialTurnsPage'' page bound))
     else if m \<in> set read_methods then kind Op_Read params
     else Inl (Fault_new ''UNSUPPORTED_CODEX_METHOD''
       ''this native operation is not validated for a bound remote workspace''))"

definition map_skill :: "(string, string) btree \<Rightarrow> json \<Rightarrow> json" where
  "map_skill skills input =
    (if json_index input ''type'' = JStr ''skill''
     then (case Option.bind (as_string (json_index input ''path'')) (bt_get skills) of
         Some path \<Rightarrow> json_put ''path'' (JStr path) input | None \<Rightarrow> input)
     else input)"

text \<open>\<open>params["input"].as_array_mut()\<close>: the mutable index adds a null member that was
  missing.\<close>

definition map_inputs :: "(string, string) btree \<Rightarrow> json \<Rightarrow> json" where
  "map_inputs skills params =
    (case as_array (json_index params ''input'') of
       Some inputs \<Rightarrow> json_put ''input'' (JArr (map (map_skill skills) inputs)) params
     | None \<Rightarrow> json_put ''input'' (json_index params ''input'') params)"

definition to_prepared ::
  "(string, string) btree \<Rightarrow> string \<Rightarrow> json + OperationKind \<times> json \<Rightarrow> Fault + Prepared" where
  "to_prepared skills m c =
    (case c of
       Inl v \<Rightarrow> Inr (Immediate v)
     | Inr (kind, params) \<Rightarrow> Inr (Operation \<lparr> on_kind = kind, on_method = m,
         on_params = (if kind \<in> {Op_Turn, Op_Steer} then map_inputs skills params else params) \<rparr>))"

definition prepare_request ::
  "serde \<Rightarrow> host \<Rightarrow> Thread \<Rightarrow> string \<Rightarrow> json \<Rightarrow> bool \<Rightarrow> (string, string) btree \<Rightarrow> Fault + Prepared" where
  "prepare_request S H t m params persisted skills =
    (let i = se_id (bi_session (th_binding t)) in
     if m = ''initialize'' then Inr (Immediate (th_initialized t))
     else if m = ''thread/list''
     then Inr (Immediate (JObj [(''data'', JArr []), (''nextCursor'', JNull)]))
     else if m = ''thread/loaded/list''
     then Inr (Immediate (JObj [(''data'', JArr [JStr i]), (''nextCursor'', JNull)]))
     else if (starts_with m ''thread/'' \<or> starts_with m ''turn/'')
       \<and> as_string (json_index params ''threadId'') \<noteq> Some i
     then Inl (Fault_new ''SESSION_MISMATCH'' ''use remote-codex to select or create another session'')
     else if m = ''thread/unsubscribe''
     then Inr (Immediate (JObj [(''status'', JStr ''unsubscribed'')]))
     else if m \<in> {''thread/turns/list'', ''thread/items/list''} \<and> \<not> persisted
     then Inr (Immediate (JObj [(''data'', JArr []), (''nextCursor'', JNull), (''backwardsCursor'', JNull)]))
     else rbind (classify S H t persisted m params) (to_prepared skills m))"

text \<open>\<open>Thread::validate_execution\<close> and the reply to a frontend.\<close>

definition validate_execution :: "Thread \<Rightarrow> Operation \<Rightarrow> bool \<Rightarrow> Fault + unit" where
  "validate_execution t x full_access =
    (if on_kind x = Op_Turn then execution_validate (on_params x) (th_binding t) full_access else Inr ())"

definition native_response :: "json \<Rightarrow> Fault + json \<Rightarrow> json" where
  "native_response i r =
    (case r of
       Inr v \<Rightarrow> JObj [(''id'', i), (''result'', v)]
     | Inl f \<Rightarrow> JObj [(''id'', i), (''error'', JObj [(''code'', JInt (- 32000)),
         (''message'', JStr (fault_message f)),
         (''data'', JObj [(''code'', JStr (fault_code f)), (''outcome_unknown'', JBool (outcome_unknown f))])])])"

section \<open>What a prepared request guarantees\<close>

lemma map_inputs_object: "\<exists>ps'. map_inputs skills (JObj ps) = JObj ps'"
  by (simp add: map_inputs_def split: option.splits)

lemma map_inputs_other [simp]:
  "x \<noteq> ''input'' \<Longrightarrow> json_get (map_inputs skills (JObj ps)) x = obj_get ps x"
  by (simp add: map_inputs_def split: option.splits)

lemma inside_workspace_cong:
  assumes "\<And>x. x \<in> {''permissions'', ''sandboxPolicy'', ''cwd'', ''approvalsReviewer''} \<Longrightarrow> json_get p x = json_get q x"
  shows "inside_workspace b p = inside_workspace b q"
  using assms by (simp add: inside_workspace_def non_null_def)

lemma index_object: "as_string (json_index v k) = Some s \<Longrightarrow> \<exists>ps. v = JObj ps"
  by (cases v) (simp_all add: json_index_def)

lemma prepare_request_operation:
  assumes "prepare_request S H t m params persisted skills = Inr (Operation x)"
  shows "on_method x = m"
    and "starts_with m ''thread/'' \<or> starts_with m ''turn/'' \<Longrightarrow>
      json_index params ''threadId'' = JStr (se_id (bi_session (th_binding t)))"
    and "\<exists>q. classify S H t persisted m params = Inr (Inr (on_kind x, q))
      \<and> on_params x = (if on_kind x \<in> {Op_Turn, Op_Steer} then map_inputs skills q else q)"
proof -
  let ?i = "se_id (bi_session (th_binding t))"
  have tail: "rbind (classify S H t persisted m params) (to_prepared skills m) = Inr (Operation x)"
    and guard: "\<not> ((starts_with m ''thread/'' \<or> starts_with m ''turn/'')
       \<and> as_string (json_index params ''threadId'') \<noteq> Some ?i)"
    using assms unfolding prepare_request_def Let_def by (simp_all split: if_split_asm)
  from tail obtain c where c: "classify S H t persisted m params = Inr c"
    and x: "to_prepared skills m c = Inr (Operation x)" unfolding rbind_Inr_iff by blast
  from x obtain kind q where "c = Inr (kind, q)"
    and "x = \<lparr> on_kind = kind, on_method = m,
           on_params = (if kind \<in> {Op_Turn, Op_Steer} then map_inputs skills q else q) \<rparr>"
    by (cases c) (auto simp: to_prepared_def)
  then show "on_method x = m" "\<exists>q. classify S H t persisted m params = Inr (Inr (on_kind x, q))
      \<and> on_params x = (if on_kind x \<in> {Op_Turn, Op_Steer} then map_inputs skills q else q)"
    using c by auto
  show "starts_with m ''thread/'' \<or> starts_with m ''turn/'' \<Longrightarrow>
      json_index params ''threadId'' = JStr ?i" using guard by auto
qed

lemma attachment_prepare_Inr:
  assumes "attachment_prepare H m params home = Inr p"
  obtains canonical relative resolved ps where "ho_canonicalize H home = Some canonical" "params = JObj ps"
    "attachment_shape H m relative" "resolve_links (ho_link H) (''attachments'' # relative) canonical = Inr resolved"
    "p = json_put ''path'' (JStr resolved) params"
proof -
  have obj: "\<exists>ps. params = JObj ps" if "as_string (json_index params ''path'') = Some path" for path
    using that by (rule index_object)
  from assms obtain path canonical relative where
    "as_string (json_index params ''path'') = Some path" "ho_canonicalize H home = Some canonical"
    and rest: "(if \<not> attachment_shape H m relative then Inl attachment_denied
    else if m = ''fs/createDirectory''
      \<and> (case json_get params ''recursive'' of
           None \<Rightarrow> False | Some v \<Rightarrow> \<not> is_null v \<and> as_bool v = None)
    then Inl attachment_denied
    else if m = ''fs/writeFile'' \<and> as_string (json_index params ''dataBase64'') = None
    then Inl attachment_denied
    else rbind (resolve_links (ho_link H) (''attachments'' # relative) canonical) (\<lambda>resolved.
      Inr (json_put ''path'' (JStr resolved) params))) = Inr p"
    unfolding attachment_prepare_def rbind_Inr_iff ok_or_Inr_iff by blast
  then show thesis using that obj
    by (auto simp: rbind_Inr_iff split: if_splits)
qed


definition demo_thread :: Thread where
  "demo_thread = \<lparr> th_initialized = JNull, th_binding = demo_binding, th_bootstrap = JNull \<rparr>"

text \<open>What is documented of the parts of the host: the canonical form of a path is absolute, and a UUID
  prints as groups of 8, 4, 4, 4 and 12 lower-case hexadecimal digits with hyphens between.\<close>

definition lower_hex :: "char \<Rightarrow> bool" where
  "lower_hex c \<longleftrightarrow> c \<in> set ''0123456789abcdef''"

definition hyphenated :: "string \<Rightarrow> bool" where
  "hyphenated s \<longleftrightarrow> map length (split_on CHR ''-'' s) = [8, 4, 4, 4, 12]
     \<and> list_all (list_all lower_hex) (split_on CHR ''-'' s)"

definition host_ok :: "host \<Rightarrow> bool" where
  "host_ok H \<longleftrightarrow> (\<forall>p c. ho_canonicalize H p = Some c \<longrightarrow> starts_with c ''/'')
     \<and> (\<forall>s u. ho_uuid H s = Some u \<longrightarrow> hyphenated u)"

definition demo_host :: host where
  "demo_host = \<lparr> ho_canonicalize = (\<lambda>p. if starts_with p ''/'' then Some p else None), ho_link = (\<lambda>_. Missing),
     ho_uuid = (\<lambda>s. if hyphenated s then Some s else None) \<rparr>"


text \<open>C18: no request a frontend makes reaches another session: what is forwarded under a
  thread or turn method names the session's own thread.\<close>

theorem request_stays_in_session:
  assumes prep: "prepare_request S H t m params persisted skills = Inr (Operation x)"
    and m: "starts_with m ''thread/'' \<or> starts_with m ''turn/''"
  shows "on_method x = m
    \<and> json_get (on_params x) ''threadId'' = Some (JStr (se_id (bi_session (th_binding t))))"
proof -
  let ?id = "JStr (se_id (bi_session (th_binding t)))"
  note P = prepare_request_operation [OF prep]
  have thread: "json_index params ''threadId'' = ?id" using P(2) m by simp
  then obtain ps where ps: "params = JObj ps" by (metis as_string.simps(1) index_object)
  have own: "obj_get ps ''threadId'' = Some ?id"
    using thread by (simp add: ps json_index_def split: option.splits)
  obtain q where c: "classify S H t persisted m params = Inr (Inr (on_kind x, q))"
    and x: "on_params x = (if on_kind x \<in> {Op_Turn, Op_Steer} then map_inputs skills q else q)"
    using P(3) by blast
  have no: "m \<notin> {''fs/createDirectory'', ''fs/writeFile'', ''fs/readFile'', ''config/batchWrite'',
      ''config/value/write''}" using m by (auto simp: starts_with_def)
  have "q = params \<or> q = turn_params params (th_binding t)
      \<or> (m = ''thread/resume'' \<and> json_get q ''threadId'' = Some ?id \<and> on_kind x = Op_Read)"
    using c no unfolding classify_def Let_def
    by (auto simp: rbind_Inr_iff split: if_split_asm option.splits)
  then have "\<exists>qs. q = JObj qs \<and> obj_get qs ''threadId'' = Some ?id"
    using own by (auto simp: ps turn_params_def dest: json_get_object) (metis json_get.simps(1) json_get_object)
  then show ?thesis using P(1) by (auto simp: x)
qed

lemma request_stays_in_session_witness:
  "\<exists>x :: Operation. json_get (on_params x) ''threadId'' = Some (JStr ''s'') \<and> on_method x = ''thread/resume''"
proof -
  let ?r = "prepare_request name_serde demo_host demo_thread ''thread/resume''
      (JObj [(''threadId'', JStr ''s'')]) True []"
  let ?x = "case ?r of Inr (Operation x) \<Rightarrow> x"
  have r: "?r = Inr (Operation ?x)" by code_simp
  have m: "starts_with ''thread/resume'' ''thread/'' \<or> starts_with ''thread/resume'' ''turn/''" by code_simp
  have c: "se_id (bi_session (th_binding demo_thread)) = ''s''" by code_simp
  note R = request_stays_in_session [OF r m, unfolded c]
  from R show ?thesis by (intro exI [of _ ?x]) (simp only: simp_thms)
qed

lemma resolve_links_Inr:
  assumes "resolve_links link cs root = Inr p"
  shows "p = fold (\<lambda>c d. path_join d c) cs root"
    and "0 < n \<Longrightarrow> n \<le> length cs \<Longrightarrow> link (fold (\<lambda>c d. path_join d c) (take n cs) root) \<in> {Entry, Missing}"
  using assms
proof (induction cs arbitrary: root n)
  case Nil
  { case 1 then show ?case by simp next case 2 then show ?case by simp }
next
  case (Cons c cs)
  have link: "link (path_join root c) \<in> {Entry, Missing}"
    and rest: "resolve_links link cs (path_join root c) = Inr p" if "resolve_links link (c # cs) root = Inr p" for root
    using that by (cases "link (path_join root c)"; simp add: Let_def)+
  { case 1 show ?case using Cons.IH(1) [OF rest [OF 1]] by simp
  next
    case 2
    show ?case
    proof (cases n)
      case 0
      then show ?thesis using 2 by simp
    next
      case (Suc k)
      then show ?thesis using Cons.IH(2) [of k "path_join root c"] rest [OF 2(3)] link [OF 2(3)] 2(2)
        by (cases k) auto
    qed }
qed

lemma path_components_join:
  assumes "starts_with p ''/''" "normal_component c"
  shows "path_components (path_join p c) = path_components p @ [c] \<and> starts_with (path_join p c) ''/''"
proof -
  obtain t where p: "p = CHR ''/'' # t" using assms(1) by (auto simp: starts_with_iff)
  have c: "c \<noteq> []" "split_on CHR ''/'' c = [c]" "\<not> starts_with c ''/''" "c \<noteq> ''.''"
    using assms(2) by (auto simp: normal_component_def split_on_whole starts_with_iff)
  show ?thesis
  proof (cases "ends_with p ''/''")
    case True
    then have "p = butlast p @ [CHR ''/'']" using p
      by (metis append_butlast_last_id append_take_drop_id ends_with_def last_appendR last_ConsL list.distinct(1))
    then obtain q where q: "p = q @ [CHR ''/'']" by blast
    have "starts_with (p @ c) ''/''" by (simp add: p starts_with_def)
    moreover have "split_on CHR ''/'' (p @ c) = split_on CHR ''/'' q @ [c]" "split_on CHR ''/'' p = split_on CHR ''/'' q @ [[]]"
      using split_on_sep [of "CHR ''/''" q c] split_on_sep [of "CHR ''/''" q "[]"] c(2) by (simp_all add: q)
    moreover have "path_join p c = p @ c" using True c(3) by (simp add: path_join_def p)
    ultimately show ?thesis using c assms(1) by (simp add: path_components_def)
  next
    case False
    have "starts_with (p @ ''/'' @ c) ''/''" by (simp add: p starts_with_def)
    then show ?thesis using False c assms(1) split_on_sep [of "CHR ''/''" p c]
      by (simp add: path_join_def path_components_def p)
  qed
qed

lemma path_components_joins:
  "starts_with p ''/'' \<Longrightarrow> list_all normal_component cs \<Longrightarrow>
    path_components (fold (\<lambda>c d. path_join d c) cs p) = path_components p @ cs"
  by (induction cs arbitrary: p) (simp_all add: path_components_join)

text \<open>C19: the native composer's file access stays in this computer's Codex home.  When a request is let
  through, it is one of the three file methods, and the path that is forwarded has the components of
  the canonical home, then \<open>attachments\<close>, then a directory named by a UUID as it is printed (lower
  case, with hyphens), then names: not empty, without a slash, and neither \<open>.\<close> nor \<open>..\<close>.  No step from the
  home to the path is a link, a file is never the UUID directory itself, and nothing else of the
  request changes.\<close>

theorem attachment_confined:
  assumes prepared: "attachment_prepare H m params home = Inr p" and host: "host_ok H"
  shows "\<exists>canonical i rest resolved. ho_canonicalize H home = Some canonical
    \<and> json_get p ''path'' = Some (JStr resolved)
    \<and> path_components resolved = path_components canonical @ ''attachments'' # i # rest
    \<and> hyphenated i
    \<and> list_all (\<lambda>c. c \<noteq> [] \<and> CHR ''/'' \<notin> set c \<and> c \<noteq> ''.'' \<and> c \<noteq> ''..'') (i # rest)
    \<and> (\<forall>n\<in>{1..length (''attachments'' # i # rest)}.
         ho_link H (fold (\<lambda>c d. path_join d c) (take n (''attachments'' # i # rest)) canonical)
           \<in> {Entry, Missing})
    \<and> m \<in> {''fs/createDirectory'', ''fs/writeFile'', ''fs/readFile''} \<and> (m = ''fs/createDirectory'' \<or> rest \<noteq> [])
    \<and> (\<forall>k. k \<noteq> ''path'' \<longrightarrow> json_get p k = json_get params k)"
proof -
  obtain canonical relative resolved ps where home: "ho_canonicalize H home = Some canonical"
    and ps: "params = JObj ps" and shape: "attachment_shape H m relative"
    and links: "resolve_links (ho_link H) (''attachments'' # relative) canonical = Inr resolved"
    and p: "p = json_put ''path'' (JStr resolved) params"
    using attachment_prepare_Inr [OF prepared] .
  obtain i rest where r: "relative = i # rest" and id: "ho_uuid H i = Some i"
    and names: "list_all normal_component (i # rest)" "m = ''fs/createDirectory'' \<or> rest \<noteq> []"
    using shape by (cases relative) (auto simp: attachment_shape_def)
  have m: "m \<in> {''fs/createDirectory'', ''fs/writeFile'', ''fs/readFile''}"
    using prepared by (auto simp: attachment_prepare_def attachment_fields_def ok_or_def split: if_splits)
  have link: "\<forall>n\<in>{1..length (''attachments'' # i # rest)}.
      ho_link H (fold (\<lambda>c d. path_join d c) (take n (''attachments'' # i # rest)) canonical) \<in> {Entry, Missing}"
    using resolve_links_Inr(2) [OF links] unfolding r by simp
  have absolute: "starts_with canonical ''/''" and uuid: "hyphenated i" using host home id unfolding host_ok_def by blast+
  have "list_all normal_component (''attachments'' # i # rest)" using names(1) by (simp add: normal_component_def)
  then have path: "path_components resolved = path_components canonical @ ''attachments'' # i # rest"
    using resolve_links_Inr(1) [OF links] path_components_joins [OF absolute] unfolding r by metis
  have forwarded: "json_get p ''path'' = Some (JStr resolved)" "\<forall>k. k \<noteq> ''path'' \<longrightarrow> json_get p k = json_get params k"
    by (simp_all add: p ps)
  have plain: "list_all (\<lambda>c. c \<noteq> [] \<and> CHR ''/'' \<notin> set c \<and> c \<noteq> ''.'' \<and> c \<noteq> ''..'') (i # rest)"
    using names(1) by (auto simp: normal_component_def list_all_iff)
  show ?thesis
    by (intro exI [of _ canonical] exI [of _ i] exI [of _ rest] exI [of _ resolved] conjI;
        fact home forwarded path uuid plain link m names(2))
qed

lemma attachment_confined_witness:
  "\<exists>resolved. path_components resolved =
     [''/'', ''h'', ''attachments'', ''0f8fad5b-d9cb-469f-a165-70867728950e'', ''f''] \<and> host_ok demo_host"
proof -
  let ?p = "JObj [(''path'', JStr ''/h/attachments/0f8fad5b-d9cb-469f-a165-70867728950e/f'')]"
  have r: "attachment_prepare demo_host ''fs/readFile'' ?p ''/h'' = Inr ?p" by code_simp
  have h: "host_ok demo_host" by (simp add: host_ok_def demo_host_def)
  have "path_components ''/h/attachments/0f8fad5b-d9cb-469f-a165-70867728950e/f'' =
     [''/'', ''h'', ''attachments'', ''0f8fad5b-d9cb-469f-a165-70867728950e'', ''f'']" by code_simp
  then show ?thesis using attachment_confined [OF r h] h by auto
qed

end
