(* ===== verification/Core_Types.thy ===== *)
theory Core_Types
  imports Adapter_Policy
begin

text \<open>
  The data of \<open>core/src/session.rs\<close>, \<open>status.rs\<close>, \<open>goals.rs\<close> and \<open>desktop.rs\<close>, and the
  JSON conversions to them that the adapter uses.  A 64-bit float is the rational it
  denotes; JSON has no infinities.
\<close>

section \<open>Numbers and texts\<close>

fun as_u64 :: "json \<Rightarrow> nat option" where
  "as_u64 (JInt i) = (if 0 \<le> i \<and> i < 2 ^ 64 then Some (nat i) else None)"
| "as_u64 _ = None"

text \<open>The value of a finite binary64 word, and the conversion of an integer to the nearest
  binary64 value, ties to even.\<close>

definition f64_value :: "64 word \<Rightarrow> rat" where
  "f64_value w =
    (let n = unat w; e = (n div 2 ^ 52) mod 2 ^ 11; m = n mod 2 ^ 52;
         sign = (if n \<ge> 2 ^ 63 then - 1 else 1);
         mag = (if e = 0 then of_nat m else of_nat (2 ^ 52 + m) * 2 ^ (e - 1)) / 2 ^ 1074 in
     sign * mag)"

definition round_f64 :: "nat \<Rightarrow> nat" where
  "round_f64 n =
    (let k = length (takeWhile (\<lambda>k. 2 ^ (53 + k) \<le> n) [0..<12]); u = 2 ^ k; q = n div u; r = n mod u in
     if 2 * r < u \<or> (2 * r = u \<and> even q) then q * u else (q + 1) * u)"

fun as_f64 :: "json \<Rightarrow> rat option" where
  "as_f64 (JInt i) = Some ((if i < 0 then - 1 else 1) * of_nat (round_f64 (nat \<bar>i\<bar>)))"
| "as_f64 (JFloat w) = Some (f64_value w)"
| "as_f64 _ = None"

text \<open>\<open>s.trim().is_empty()\<close>, \<open>as_str().unwrap_or_default()\<close>, and the elements of an array or
  none.\<close>

definition blank :: "string \<Rightarrow> bool" where
  "blank s \<longleftrightarrow> list_all is_whitespace (str_chars s)"

definition or_empty :: "string option \<Rightarrow> string" where
  "or_empty x = (case x of Some s \<Rightarrow> s | None \<Rightarrow> [])"

definition json_text :: "json \<Rightarrow> string \<Rightarrow> string" where
  "json_text v k = or_empty (as_string (json_index v k))"

definition json_array :: "json \<Rightarrow> json list" where
  "json_array v = (case as_array v of Some xs \<Rightarrow> xs | None \<Rightarrow> [])"

definition json_truthy :: "json \<Rightarrow> bool" where
  "json_truthy v \<longleftrightarrow> v = JBool True"

fun join_with :: "string \<Rightarrow> string list \<Rightarrow> string" where
  "join_with sep [] = []"
| "join_with sep [x] = x"
| "join_with sep (x # y # ys) = x @ sep @ join_with sep (y # ys)"

text \<open>The middle dot of titles, in UTF-8.\<close>

definition middle_dot :: string where
  "middle_dot = [CHR '' '', CHR 0xC2, CHR 0xB7, CHR '' '']"

section \<open>Goals and plans\<close>

datatype CollaborationMode = Mode_Agent | Mode_Plan

datatype GoalStatus =
  Goal_Active | Goal_Paused | Goal_Blocked | Goal_UsageLimited | Goal_BudgetLimited | Goal_Complete

record Goal =
  go_thread_id :: string
  go_objective :: string
  go_status :: GoalStatus
  go_token_budget :: "nat option"
  go_tokens_used :: nat
  go_time_used :: nat

datatype GoalAction =
  Goal_Set string "nat option"
| Goal_Pause
| Goal_Resume
| Goal_Budget "nat option"
| Goal_Clear

record PlanStep =
  ps_step :: string
  ps_status :: string

record Plan =
  pl_turn :: string
  pl_explanation :: "string option"
  pl_steps :: "PlanStep list"

section \<open>Status\<close>

record TurnTiming =
  ti_started_at :: "int option"
  ti_completed_at :: "int option"
  ti_duration_ms :: "nat option"

definition TurnTiming_default :: TurnTiming where
  "TurnTiming_default = \<lparr> ti_started_at = None, ti_completed_at = None, ti_duration_ms = None \<rparr>"

record TurnState =
  ts_id :: string
  ts_status :: string
  ts_timing :: TurnTiming

record TokenUsage =
  us_last :: nat
  us_total :: nat
  us_input :: nat
  us_cached_input :: nat
  us_output :: nat
  us_reasoning :: nat
  us_context_window :: "nat option"

record RateWindow =
  rw_used_percent :: rat
  rw_window_minutes :: "nat option"
  rw_resets_at :: "int option"

record RateLimit =
  rl_id :: "string option"
  rl_is_default :: bool
  rl_name :: string
  rl_primary :: "RateWindow option"
  rl_secondary :: "RateWindow option"

record SessionStatus =
  ss_provider :: "string option"
  ss_activity :: string
  ss_active_flags :: "string list"
  ss_usage :: "TokenUsage option"
  ss_limits :: "RateLimit list"
  ss_limits_error :: "string option"
  ss_limits_updated_at :: "int option"

definition SessionStatus_default :: SessionStatus where
  "SessionStatus_default = \<lparr> ss_provider = None, ss_activity = ''notLoaded'', ss_active_flags = [],
     ss_usage = None, ss_limits = [], ss_limits_error = None, ss_limits_updated_at = None \<rparr>"

section \<open>The desktop's data\<close>

record ConfirmedSettings =
  cs_mode :: CollaborationMode
  cs_model :: string
  cs_effort :: "string option"
  cs_full_access :: bool
  cs_approval_policy :: string
  cs_reviewer :: string

record ToolOutputSource =
  to_session :: string
  to_turn :: string
  to_cursor :: "string option"
  to_item :: string

record ToolLink =
  tl_title :: string
  tl_url :: string
  tl_description :: "string option"

record FileChange =
  fc_path :: string
  fc_diff :: string

record ToolItem =
  tool_id :: string
  tool_kind :: string
  tool_title :: string
  tool_output :: string
  tool_output_source :: "ToolOutputSource option"
  tool_status :: string
  tool_changes :: "FileChange list"
  tool_input :: "string option"
  tool_links :: "ToolLink list"

record InputField =
  if_id :: string
  if_label :: string
  if_description :: string
  if_kind :: string
  if_required :: bool
  if_choices :: "string list"
  if_secret :: bool

datatype Interaction =
  Questions "InputField list"
| McpForm string string "InputField list"
| McpUrl string string string
| Unsupported string

datatype InteractionDecision = Decide_Accept | Decide_Decline | Decide_Cancel

record InteractionAnswer =
  an_action :: InteractionDecision
  an_values :: "(string, string) btree"

section \<open>Sessions\<close>

datatype PermissionPreset = Preset_Workspace | Preset_FullAccess

datatype ApprovalsReviewer = Reviewer_User | Reviewer_AutoReview | Reviewer_GuardianSubagent

record SessionSettings =
  st_mode :: "CollaborationMode option"
  st_model :: "string option"
  st_effort :: "string option"
  st_permissions :: "PermissionPreset option"
  st_reviewer :: "ApprovalsReviewer option"

datatype ApprovalDecision = AcceptOnce | Cancel_Approval

record AsyncQuestion =
  aq_title :: string
  aq_options :: "string list"

datatype EnvironmentState =
  Env_Ready
| Env_Reconnecting nat nat nat
| Env_Recovering string
| Env_ActionRequired string string
| Env_Closed

datatype TurnOutcome = Turn_Completed | Turn_Interrupted | Turn_Failed string

datatype SessionEvent =
  SessionUpdated Session
| ActivityChanged string "string list"
| UsageChanged TokenUsage
| RateLimitsChanged "RateLimit list"
| UserMessage string "string option" string string
| GoalChanged "Goal option"
| PlanChanged Plan
| PlanMessage string string string bool
| ToolChanged ToolItem string
| SettingsChanged ConfirmedSettings
| InteractionRequested string Interaction
| InteractionResolved string
| Event_Warning string
| EnvironmentChanged EnvironmentState
| Message string string "string option" string bool "string option" "AsyncQuestion list"
| ToolOutput string string string
| ApprovalRequested string string
| InteractionRequired string string
| TurnStarted string TurnTiming
| TurnCompleted string TurnTiming TurnOutcome
| Session_Closed "string option"

record HistoryItem =
  hi_id :: string
  hi_client_id :: "string option"
  hi_sent_at :: "int option"
  hi_phase :: "string option"
  hi_kind :: string
  hi_text :: string
  hi_delivery :: "string option"
  hi_questions :: "AsyncQuestion list"
  hi_tool :: "ToolItem option"

record HistoryTurn =
  ht_id :: string
  ht_status :: string
  ht_timing :: TurnTiming
  ht_items :: "HistoryItem list"
  ht_items_before :: bool

end
