(* ===== verification/Adapter_Tools.thy ===== *)
theory Adapter_Tools
  imports Core_Types
begin

text \<open>
  Models \<open>codex-adapter/src/tools.rs\<close>: what the desktop shows of a tool call.  Pretty
  printing of JSON and URL parsing are parameters.
\<close>

record link_url =
  lk_scheme :: string
  lk_username :: string
  lk_password :: "string option"

record printer =
  pr_pretty :: "json \<Rightarrow> string"
  pr_url :: "string \<Rightarrow> link_url option"

definition line_break :: string where
  "line_break = [CHR 0x0A]"

definition blank_line :: string where
  "blank_line = [CHR 0x0A, CHR 0x0A]"

definition formatted :: "printer \<Rightarrow> json \<Rightarrow> string" where
  "formatted P v =
    (if is_null v then [] else (case as_string v of Some s \<Rightarrow> s | None \<Rightarrow> pr_pretty P v))"

definition joined :: "string list \<Rightarrow> string \<Rightarrow> string" where
  "joined parts separator = join_with separator (filter (\<lambda>s. \<not> blank s) parts)"

definition content_part :: "printer \<Rightarrow> json \<Rightarrow> string" where
  "content_part P part =
    (case as_string part of
       Some t \<Rightarrow> t
     | None \<Rightarrow>
       (case as_string (json_index part ''text'') of
          Some t \<Rightarrow> t
        | None \<Rightarrow>
            let t = json_text part ''type'' in
            if t \<in> {''image'', ''inputImage''} then ''Image result (preview unavailable).''
            else if t \<in> {''audio'', ''inputAudio''} then ''Audio result (preview unavailable).''
            else if t = ''resource''
            then (case as_string (json_index (json_index part ''resource'') ''text'') of
                Some s \<Rightarrow> s | None \<Rightarrow> ''Resource result (preview unavailable).'')
            else formatted P part))"

definition tool_content :: "printer \<Rightarrow> json \<Rightarrow> string" where
  "tool_content P v = joined (map (content_part P) (json_array v)) blank_line"

definition tool_link :: "printer \<Rightarrow> string \<Rightarrow> string \<Rightarrow> string option \<Rightarrow> ToolLink option" where
  "tool_link P url title description =
    (case pr_url P url of
       None \<Rightarrow> None
     | Some parsed \<Rightarrow>
         if lk_scheme parsed \<notin> {''http'', ''https''} \<or> lk_username parsed \<noteq> [] \<or> lk_password parsed \<noteq> None
         then None
         else Some \<lparr> tl_title = title, tl_url = url,
           tl_description = (case description of
               Some s \<Rightarrow> if s = [] then None else Some s | None \<Rightarrow> None) \<rparr>)"

text \<open>The loop over the results: links found, and the texts of the other results.\<close>

fun search_results :: "printer \<Rightarrow> json list \<Rightarrow> ToolLink list \<times> string list" where
  "search_results P [] = ([], [])"
| "search_results P (result # rs) =
    (let url = json_text result ''url'';
         title = (case as_string (json_index result ''title'') of
             Some s \<Rightarrow> if s = [] then url else s | None \<Rightarrow> url);
         description = (case as_string (json_index result ''snippet'') of
             Some s \<Rightarrow> Some s | None \<Rightarrow> as_string (json_index result ''description''));
         (links, other) = search_results P rs in
     (case tool_link P url title description of
        Some l \<Rightarrow> (l # links, other) | None \<Rightarrow> (links, formatted P result # other)))"

definition search_queries :: "json \<Rightarrow> json \<Rightarrow> string list" where
  "search_queries v action =
    (let queries = filter (\<lambda>q. \<not> blank q)
           (List.map_filter as_string (json_array (json_index action ''queries''))) in
     if queries \<noteq> [] then queries
     else
       let query = (case as_string (json_index action ''query'') of
             Some q \<Rightarrow> if blank q then json_text v ''query'' else q
           | None \<Rightarrow> json_text v ''query'') in
       if blank query then [] else [query])"

definition web_search :: "printer \<Rightarrow> json \<Rightarrow> ToolItem \<Rightarrow> string \<times> ToolItem" where
  "web_search P v item =
    (let action = json_index v ''action'';
         queries = search_queries v action;
         t = json_text action ''type'';
         pattern = json_text action ''pattern''; url = json_text action ''url'';
         (label, target, input) =
           (if t = ''openPage'' then (''Open webpage'', url, [])
            else if t = ''findInPage'' then (''Find in page'', pattern, pattern)
            else (''Search the web'', (case queries of q # _ \<Rightarrow> q | [] \<Rightarrow> []), join_with line_break queries));
         own = (case tool_link P url url None of Some l \<Rightarrow> [l] | None \<Rightarrow> []);
         (links, other) = search_results P (json_array (json_index v ''results''));
         item = item\<lparr> tool_title := joined [label, target] middle_dot,
           tool_links := tool_links item @ own @ links, tool_output := joined other blank_line \<rparr> in
     (if input = [] \<and> tool_links item = [] then join_with line_break queries else input, item))"

definition file_change :: "json \<Rightarrow> FileChange" where
  "file_change c = \<lparr> fc_path = json_text c ''path'', fc_diff = json_text c ''diff'' \<rparr>"

definition call_error :: "printer \<Rightarrow> json \<Rightarrow> string" where
  "call_error P e = (case as_string (json_index e ''message'') of Some s \<Rightarrow> s | None \<Rightarrow> formatted P e)"

text \<open>The branches of \<open>project\<close>: the completed item and the input to show.\<close>

definition command_input :: "json \<Rightarrow> string" where
  "command_input v =
    (json_text v ''command''
      @ (case as_string (json_index v ''cwd'') of
           Some cwd \<Rightarrow> if cwd = [] then [] else blank_line @ ''Directory: '' @ cwd | None \<Rightarrow> [])
      @ (case as_int (json_index v ''exitCode'') of
           Some code \<Rightarrow> line_break @ ''Exit code: '' @ show_int code | None \<Rightarrow> []))"

definition call_item :: "printer \<Rightarrow> string \<Rightarrow> json \<Rightarrow> ToolItem \<Rightarrow> ToolItem" where
  "call_item P k v item =
    (let owner = json_text v (if k = ''mcpToolCall'' then ''server'' else ''namespace'');
         output = (if k = ''mcpToolCall''
           then joined [tool_content P (json_index (json_index v ''result'') ''content''),
             formatted P (json_index (json_index v ''result'') ''structuredContent'')] blank_line
           else tool_content P (json_index v ''contentItems'')) in
     item\<lparr> tool_title := joined [owner, json_text v ''tool''] middle_dot,
       tool_output := (if is_null (json_index v ''error'') then output
         else joined [output, ''Error: '' @ call_error P (json_index v ''error'')] blank_line) \<rparr>)"

definition changes_title :: "nat \<Rightarrow> string" where
  "changes_title n =
    (if n = 0 then ''File changes''
     else if n = 1 then ''File changes'' @ middle_dot @ ''1 file''
     else ''File changes'' @ middle_dot @ show_nat n @ '' files'')"

definition tool_project :: "printer \<Rightarrow> json \<Rightarrow> ToolItem option" where
  "tool_project P v =
    (case as_string (json_index v ''type'') of
       None \<Rightarrow> None
     | Some k \<Rightarrow>
         let item = \<lparr> tool_id = json_text v ''id'', tool_kind = k, tool_title = [], tool_output = [],
               tool_output_source = None, tool_status = json_text v ''status'', tool_changes = [],
               tool_input = None, tool_links = [] \<rparr>;
             finish = (\<lambda>(input, item). Some (item\<lparr> tool_input := (if blank input then None else Some input) \<rparr>)) in
         if k = ''commandExecution''
         then finish (command_input v, item\<lparr> tool_title := json_text v ''command'',
           tool_output := json_text v ''aggregatedOutput'' \<rparr>)
         else if k = ''fileChange''
         then (let changes = map file_change (json_array (json_index v ''changes'')) in
           finish ([], item\<lparr> tool_changes := changes, tool_title := changes_title (length changes) \<rparr>))
         else if k = ''reasoning''
         then finish ([], item\<lparr> tool_title := ''Reasoning summary'',
           tool_output := tool_content P (json_index v ''summary'') \<rparr>)
         else if k \<in> {''mcpToolCall'', ''dynamicToolCall''}
         then finish (formatted P (json_index v ''arguments''), call_item P k v item)
         else if k = ''webSearch'' then finish (web_search P v item)
         else None)"

section \<open>Links that are shown\<close>

definition link_ok :: "printer \<Rightarrow> ToolLink \<Rightarrow> bool" where
  "link_ok P l \<longleftrightarrow> (case pr_url P (tl_url l) of
      None \<Rightarrow> False
    | Some u \<Rightarrow> lk_scheme u \<in> {''http'', ''https''} \<and> lk_username u = [] \<and> lk_password u = None)"

lemma tool_link_ok: "tool_link P url title description = Some l \<Longrightarrow> link_ok P l"
  by (auto simp: tool_link_def link_ok_def split: option.splits if_splits)

lemma search_results_ok: "list_all (link_ok P) (fst (search_results P rs))"
  by (induction rs) (auto simp: Let_def split: prod.splits option.splits intro: tool_link_ok)

lemma tool_links_web_search:
  "tool_links (snd (web_search P v item)) = tool_links item
    @ (let url = json_text (json_index v ''action'') ''url'' in
       case tool_link P url url None of Some l \<Rightarrow> [l] | None \<Rightarrow> [])
    @ fst (search_results P (json_array (json_index v ''results'')))"
  by (simp add: web_search_def Let_def split: prod.split)

lemma web_search_links:
  assumes "web_search P v item = (input, item')" "tool_links item = []"
  shows "list_all (link_ok P) (tool_links item')"
  using assms search_results_ok [of P "json_array (json_index v ''results'')"]
  by (auto simp: web_search_def Let_def split: prod.splits option.splits intro: tool_link_ok)

text \<open>Every link the desktop offers is a plain web address: it parses, its scheme is HTTP
  or HTTPS, and it carries no credentials.\<close>

theorem tool_links_safe:
  assumes "tool_project P v = Some item"
  shows "list_all (link_ok P) (tool_links item)"
  using assms
  by (auto simp: tool_project_def Let_def call_item_def dest!: web_search_links
      split: option.splits if_splits prod.splits)

definition demo_printer :: printer where
  "demo_printer = \<lparr> pr_pretty = (\<lambda>_. ''{}''),
     pr_url = (\<lambda>u. case strip_prefix u ''https://'' of
         Some h \<Rightarrow> Some \<lparr> lk_scheme = ''https'', lk_username = [], lk_password = None \<rparr> | None \<Rightarrow> None) \<rparr>"

definition demo_search :: json where
  "demo_search = JObj [(''type'', JStr ''webSearch''), (''results'', JArr [JObj [(''url'', JStr ''https://x''),
      (''title'', JStr ''T'')], JObj [(''url'', JStr ''ftp:y'')]])]"

definition demo_item :: ToolItem where
  "demo_item = \<lparr> tool_id = [], tool_kind = ''webSearch'', tool_title = [], tool_output = [],
     tool_output_source = None, tool_status = [], tool_changes = [], tool_input = None, tool_links = [] \<rparr>"

lemma tool_links_safe_witness:
  "list_all (link_ok demo_printer) [\<lparr> tl_title = ''T'', tl_url = ''https://x'', tl_description = None \<rparr>]"
proof -
  let ?w = "web_search demo_printer demo_search demo_item"
  have t: "as_string (json_index demo_search ''type'') = Some ''webSearch''"
    "json_text demo_search ''id'' = []" "json_text demo_search ''status'' = []"
    by code_simp+
  have i: "tool_project demo_printer demo_search
      = Some ((snd ?w)\<lparr> tool_input := (if blank (fst ?w) then None else Some (fst ?w)) \<rparr>)"
    unfolding tool_project_def t by (simp add: Let_def demo_item_def t split: prod.split)
  have l: "tool_links (snd ?w) = [\<lparr> tl_title = ''T'', tl_url = ''https://x'', tl_description = None \<rparr>]"
    unfolding tool_links_web_search by code_simp
  from tool_links_safe [OF i] show ?thesis by (simp add: l)
qed

end
