(* ===== verification/Adapter_Interactions.thy ===== *)
theory Adapter_Interactions
  imports Adapter_Tools
begin

text \<open>
  Models \<open>codex-adapter/src/interactions.rs\<close>: how a request of the native backend is
  shown as a form and how the user's answer becomes a response.
\<close>

definition interaction_invalid :: Fault where
  "interaction_invalid = Fault_new ''INVALID_INTERACTION_RESPONSE''
     ''Complete the requested fields with valid values.''"

definition interaction_unsupported :: Interaction where
  "interaction_unsupported =
     Unsupported ''This native interaction is not supported yet. Cancel it to continue safely.''"

definition field_choices :: "json \<Rightarrow> string list" where
  "field_choices v =
    (let v = (if json_index v ''type'' = JStr ''array'' then json_index v ''items'' else v) in
     case as_array (json_index v ''enum'') of
       Some values \<Rightarrow> List.map_filter as_string values
     | None \<Rightarrow> List.map_filter (\<lambda>c. as_string (json_index c ''const''))
         (case as_array (json_index v ''oneOf'') of
            Some xs \<Rightarrow> xs | None \<Rightarrow> json_array (json_index v ''anyOf'')))"

definition question_field :: "json \<Rightarrow> InputField" where
  "question_field q = \<lparr> if_id = json_text q ''id'', if_label = json_text q ''question'',
     if_description = json_text q ''header'', if_kind = ''string'', if_required = True,
     if_choices = List.map_filter (\<lambda>c. as_string (json_index c ''label'')) (json_array (json_index q ''options'')),
     if_secret = (json_index q ''isSecret'' = JBool True) \<rparr>"

definition field_kinds :: "string list" where
  "field_kinds = [''string'', ''boolean'', ''number'', ''integer'', ''array'']"

text \<open>The loop over the properties; \<open>None\<close> is an unsupported property.\<close>

fun form_fields :: "json \<Rightarrow> (string \<times> json) list \<Rightarrow> InputField list option" where
  "form_fields schema [] = Some []"
| "form_fields schema ((i, v) # ps) =
    (let k = json_text v ''type''; cs = field_choices v in
     if k \<notin> set field_kinds then None
     else if k = ''array'' \<and> cs = [] then None
     else map_option ((#) \<lparr> if_id = i,
         if_label = (case as_string (json_index v ''title'') of Some t \<Rightarrow> t | None \<Rightarrow> i),
         if_description = json_text v ''description'', if_kind = k,
         if_required = (case as_array (json_index schema ''required'') of
             Some r \<Rightarrow> JStr i \<in> set r | None \<Rightarrow> False),
         if_choices = cs, if_secret = False \<rparr>) (form_fields schema ps))"

definition interaction_project :: "json \<Rightarrow> Interaction" where
  "interaction_project event =
    (let params = json_index event ''params''; m = json_index event ''method'' in
     if m = JStr ''item/tool/requestUserInput''
     then Questions (map question_field (json_array (json_index params ''questions'')))
     else if m = JStr ''mcpServer/elicitation/request''
     then
       (let server = json_text params ''serverName''; message = json_text params ''message'';
            mode = json_index params ''mode''; schema = json_index params ''requestedSchema'' in
        if mode = JStr ''url'' then McpUrl server message (json_text params ''url'')
        else if mode = JStr ''form''
        then (case as_object (json_index schema ''properties'') of
            None \<Rightarrow> interaction_unsupported
          | Some ps \<Rightarrow>
              (case form_fields schema ps of
                 None \<Rightarrow> interaction_unsupported
               | Some shown \<Rightarrow> McpForm server message shown))
        else interaction_unsupported)
     else interaction_unsupported)"

section \<open>Answers\<close>

definition within :: "('a :: linorder) option \<Rightarrow> 'a \<Rightarrow> 'a option \<Rightarrow> bool" where
  "within low x high \<longleftrightarrow>
     (case low of None \<Rightarrow> True | Some l \<Rightarrow> l \<le> x) \<and> (case high of None \<Rightarrow> True | Some h \<Rightarrow> x \<le> h)"

text \<open>\<open>v.fract() == 0.0\<close>\<close>

definition whole :: "rat \<Rightarrow> bool" where
  "whole x \<longleftrightarrow> of_int \<lfloor>x\<rfloor> = x"

definition answer_valid :: "json \<Rightarrow> json \<Rightarrow> InputField \<Rightarrow> bool" where
  "answer_valid v schema field \<longleftrightarrow>
    (let k = if_kind field in
     if k = ''string'' then
       (case as_string v of
          None \<Rightarrow> False
        | Some s \<Rightarrow>
            within (as_u64 (json_index schema ''minLength'')) (length (str_chars s))
              (as_u64 (json_index schema ''maxLength''))
            \<and> (if_choices field = [] \<or> s \<in> set (if_choices field)))
     else if k = ''boolean'' then as_bool v \<noteq> None
     else if k \<in> {''number'', ''integer''} then
       (case as_f64 v of
          None \<Rightarrow> False
        | Some x \<Rightarrow> (k = ''integer'' \<longrightarrow> whole x)
            \<and> within (as_f64 (json_index schema ''minimum'')) x (as_f64 (json_index schema ''maximum'')))
     else if k = ''array'' then
       (case as_array v of
          None \<Rightarrow> False
        | Some xs \<Rightarrow>
            list_all (\<lambda>x. case as_string x of Some s \<Rightarrow> s \<in> set (if_choices field) | None \<Rightarrow> False) xs
            \<and> within (as_u64 (json_index schema ''minItems'')) (length xs)
                (as_u64 (json_index schema ''maxItems'')))
     else False)"

definition action_text :: "InteractionDecision \<Rightarrow> string" where
  "action_text d = (case d of Decide_Accept \<Rightarrow> ''accept'' | Decide_Decline \<Rightarrow> ''decline''
     | Decide_Cancel \<Rightarrow> ''cancel'')"

fun question_answers ::
  "bool \<Rightarrow> (string, string) btree \<Rightarrow> InputField list \<Rightarrow> (string \<times> json) list \<Rightarrow> Fault + (string \<times> json) list" where
  "question_answers accept values [] acc = Inr acc"
| "question_answers accept values (field # shown) acc =
    (case bt_get values (if_id field) of
       None \<Rightarrow> if accept then Inl interaction_invalid
         else question_answers accept values shown (obj_put (if_id field) (JObj [(''answers'', JArr [])]) acc)
     | Some v \<Rightarrow> question_answers accept values shown (obj_put (if_id field)
         (JObj [(''answers'', JArr (if accept then [JStr v] else []))]) acc))"

definition parse_answer :: "serde \<Rightarrow> InputField \<Rightarrow> string \<Rightarrow> json option" where
  "parse_answer S field v = (if if_kind field = ''string'' then Some (JStr v) else from_text S v)"

fun form_content ::
  "serde \<Rightarrow> json \<Rightarrow> (string, string) btree \<Rightarrow> InputField list \<Rightarrow> (string \<times> json) list
    \<Rightarrow> Fault + (string \<times> json) list" where
  "form_content S properties values [] acc = Inr acc"
| "form_content S properties values (field # shown) acc =
    (case bt_get values (if_id field) of
       Some (c # cs) \<Rightarrow>
         (case parse_answer S field (c # cs) of
            None \<Rightarrow> Inl interaction_invalid
          | Some parsed \<Rightarrow>
              if answer_valid parsed (json_index properties (if_id field)) field
              then form_content S properties values shown (obj_put (if_id field) parsed acc)
              else Inl interaction_invalid)
     | _ \<Rightarrow>
         if if_required field then Inl interaction_invalid
         else form_content S properties values shown acc)"

definition answer_interaction :: "serde \<Rightarrow> json \<Rightarrow> InteractionAnswer \<Rightarrow> Fault + json" where
  "answer_interaction S event a =
    (let accept = (an_action a = Decide_Accept); action = JStr (action_text (an_action a));
         reply = (\<lambda>result. JObj [(''id'', json_index event ''id''), (''result'', result)]) in
     case interaction_project event of
       Questions shown \<Rightarrow>
         rbind (question_answers accept (an_values a) shown [])
           (\<lambda>answers. Inr (reply (JObj [(''answers'', JObj answers)])))
     | McpForm server message shown \<Rightarrow>
         if accept
         then rbind (form_content S (json_index (json_index (json_index event ''params'') ''requestedSchema'')
             ''properties'') (an_values a) shown [])
           (\<lambda>content. Inr (reply (JObj [(''action'', action), (''content'', JObj content)])))
         else Inr (reply (JObj [(''action'', action), (''content'', JNull)]))
     | McpUrl _ _ _ \<Rightarrow> Inr (reply (JObj [(''action'', action)]))
     | Unsupported _ \<Rightarrow>
         if accept then Inl interaction_invalid
         else Inr (JObj [(''id'', json_index event ''id''), (''error'', JObj [(''code'', JInt (- 32601)),
           (''message'', JStr ''This interaction is not supported by Remote Codex Desktop.'')])]))"

section \<open>Accepted forms\<close>

text \<open>What the form asks, said by itself: what a field holds (nothing when the user left it empty),
  which value a text stands for, and when a value is of the field's type, inside the bounds of its
  schema, and one of its choices.\<close>

definition given :: "(string, string) btree \<Rightarrow> InputField \<Rightarrow> string option" where
  "given values field = (case bt_get values (if_id field) of Some [] \<Rightarrow> None | x \<Rightarrow> x)"

definition stands_for :: "serde \<Rightarrow> InputField \<Rightarrow> string \<Rightarrow> json \<Rightarrow> bool" where
  "stands_for S field text' v \<longleftrightarrow>
    (if if_kind field = ''string'' then v = JStr text' else from_text S text' = Some v)"

definition bounded :: "json \<Rightarrow> string \<Rightarrow> string \<Rightarrow> nat \<Rightarrow> bool" where
  "bounded schema low high n \<longleftrightarrow> (\<forall>m. as_u64 (json_index schema low) = Some m \<longrightarrow> m \<le> n)
     \<and> (\<forall>m. as_u64 (json_index schema high) = Some m \<longrightarrow> n \<le> m)"

inductive meets :: "json \<Rightarrow> InputField \<Rightarrow> json \<Rightarrow> bool" for schema field where
  meets_string: "if_kind field = ''string'' \<Longrightarrow> bounded schema ''minLength'' ''maxLength'' (length (str_chars s)) \<Longrightarrow>
    (if_choices field \<noteq> [] \<longrightarrow> s \<in> set (if_choices field)) \<Longrightarrow> meets schema field (JStr s)"
| meets_boolean: "if_kind field = ''boolean'' \<Longrightarrow> meets schema field (JBool b)"
| meets_number: "if_kind field = ''number'' \<or> (if_kind field = ''integer'' \<and> x \<in> \<int>) \<Longrightarrow> as_f64 v = Some x \<Longrightarrow>
    (\<forall>m. as_f64 (json_index schema ''minimum'') = Some m \<longrightarrow> m \<le> x) \<Longrightarrow>
    (\<forall>m. as_f64 (json_index schema ''maximum'') = Some m \<longrightarrow> x \<le> m) \<Longrightarrow> meets schema field v"
| meets_array: "if_kind field = ''array'' \<Longrightarrow> set xs \<subseteq> set (if_choices field) \<Longrightarrow>
    bounded schema ''minItems'' ''maxItems'' (length xs) \<Longrightarrow> meets schema field (JArr (map JStr xs))"

lemma whole_Ints: "whole x \<longleftrightarrow> x \<in> \<int>"
  unfolding whole_def by (metis Ints_of_int Ints_cases floor_of_int)

lemma within_iff: "within low x high \<longleftrightarrow> (\<forall>m. low = Some m \<longrightarrow> m \<le> x) \<and> (\<forall>m. high = Some m \<longrightarrow> x \<le> m)"
  by (cases low; cases high) (simp_all add: within_def)

lemma within_bounded: "within (as_u64 (json_index schema low)) n (as_u64 (json_index schema high)) \<longleftrightarrow> bounded schema low high n"
  by (auto simp: within_def bounded_def split: option.split)

lemma all_strings:
  "list_all (\<lambda>x. case as_string x of Some s \<Rightarrow> s \<in> A | None \<Rightarrow> False) xs \<longleftrightarrow> (\<exists>ss. xs = map JStr ss \<and> set ss \<subseteq> A)"
proof (induction xs)
  case (Cons x xs)
  have "(\<exists>ss. x # xs = map JStr ss \<and> set ss \<subseteq> A) \<longleftrightarrow> (\<exists>s ss. x = JStr s \<and> xs = map JStr ss \<and> s \<in> A \<and> set ss \<subseteq> A)"
    by (auto simp: Cons_eq_map_conv) (metis insert_subset list.simps(15))
  then show ?case using Cons by (cases x) auto
qed simp

inductive_simps meets_iff: "meets schema field v"

lemma answer_valid_meets: "answer_valid v schema field \<longleftrightarrow> meets schema field v"
proof -
  consider "if_kind field = ''string''" | "if_kind field = ''boolean''" | "if_kind field \<in> {''number'', ''integer''}"
    | "if_kind field = ''array''" | "if_kind field \<notin> set field_kinds"
    by (auto simp: field_kinds_def)
  then show ?thesis
  proof cases
    case 1
    then show ?thesis by (auto simp: answer_valid_def meets_iff within_bounded split: option.split)
  next
    case 2
    then show ?thesis by (cases v) (auto simp: answer_valid_def meets_iff)
  next
    case 3
    then have "meets schema field v \<longleftrightarrow> (\<exists>x. as_f64 v = Some x \<and> (if_kind field = ''integer'' \<longrightarrow> x \<in> \<int>)
        \<and> within (as_f64 (json_index schema ''minimum'')) x (as_f64 (json_index schema ''maximum'')))"
      by (cases "if_kind field = ''number''") (simp_all add: meets_iff within_iff conj_left_commute)
    moreover have "answer_valid v schema field \<longleftrightarrow> (\<exists>x. as_f64 v = Some x \<and> (if_kind field = ''integer'' \<longrightarrow> whole x)
        \<and> within (as_f64 (json_index schema ''minimum'')) x (as_f64 (json_index schema ''maximum'')))"
      using 3 by (cases "as_f64 v") (auto simp: answer_valid_def)
    ultimately show ?thesis by (simp add: whole_Ints)
  next
    case 4
    then show ?thesis by (cases v) (auto simp: answer_valid_def meets_iff within_bounded all_strings)
  next
    case 5
    then show ?thesis by (auto simp: answer_valid_def meets_iff field_kinds_def)
  qed
qed

text \<open>A field is filled when its text stands for a value that meets the schema, or when it is empty
  and not required; the loop sends exactly the values of the filled fields.\<close>

definition filled :: "serde \<Rightarrow> json \<Rightarrow> (string, string) btree \<Rightarrow> InputField \<Rightarrow> bool" where
  "filled S properties values field \<longleftrightarrow>
    (case given values field of
       None \<Rightarrow> \<not> if_required field
     | Some text' \<Rightarrow> \<exists>v. stands_for S field text' v \<and> meets (json_index properties (if_id field)) field v)"

definition sends :: "serde \<Rightarrow> (string, string) btree \<Rightarrow> InputField \<Rightarrow> json option \<Rightarrow> bool" where
  "sends S values field v \<longleftrightarrow>
    (case given values field of None \<Rightarrow> v = None | Some text' \<Rightarrow> \<exists>w. v = Some w \<and> stands_for S field text' w)"

lemma stands_for_parse: "stands_for S field text' v \<longleftrightarrow> parse_answer S field text' = Some v"
  by (auto simp: stands_for_def parse_answer_def)

lemma form_step:
  "form_content S properties values (field # todo) acc =
    (case given values field of
       None \<Rightarrow> if if_required field then Inl interaction_invalid else form_content S properties values todo acc
     | Some text' \<Rightarrow>
         (case parse_answer S field text' of
            None \<Rightarrow> Inl interaction_invalid
          | Some v \<Rightarrow>
              if meets (json_index properties (if_id field)) field v
              then form_content S properties values todo (obj_put (if_id field) v acc) else Inl interaction_invalid))"
  by (auto simp: given_def answer_valid_meets split: option.split list.split)

lemma form_content_fills:
  "(\<exists>content. form_content S properties values todo acc = Inr content) \<longleftrightarrow> list_all (filled S properties values) todo"
proof (induction todo arbitrary: acc)
  case (Cons field todo)
  then show ?case
    by (auto simp: form_step filled_def stands_for_parse simp del: form_content.simps split: option.split)
qed simp

lemma form_content_sends:
  "form_content S properties values todo acc = Inr content \<Longrightarrow> distinct (map if_id todo) \<Longrightarrow>
    (\<forall>f\<in>set todo. obj_get acc (if_id f) = None) \<Longrightarrow>
    (\<forall>f\<in>set todo. sends S values f (obj_get content (if_id f)))
    \<and> (\<forall>k. k \<notin> if_id ` set todo \<longrightarrow> obj_get content k = obj_get acc k)"
proof (induction todo arbitrary: acc)
  case (Cons field todo)
  show ?case
  proof (cases "given values field")
    case None
    then have "form_content S properties values todo acc = Inr content"
      using Cons.prems(1) by (simp add: form_step del: form_content.simps split: if_splits)
    then show ?thesis using Cons.IH [of acc] Cons.prems(2,3) None by (auto simp: sends_def)
  next
    case (Some text')
    then obtain v where v: "parse_answer S field text' = Some v"
        "form_content S properties values todo (obj_put (if_id field) v acc) = Inr content"
      using Cons.prems(1) by (auto simp: form_step simp del: form_content.simps split: option.splits if_splits)
    have fresh: "if_id field \<notin> if_id ` set todo" using Cons.prems(2) by simp
    then have "\<forall>f\<in>set todo. obj_get (obj_put (if_id field) v acc) (if_id f) = None"
      using Cons.prems(3) by (auto simp: image_iff)
    then show ?thesis using Cons.IH [OF v(2)] Cons.prems(2,3) Some v(1) fresh
      by (auto simp: sends_def stands_for_parse)
  qed
qed simp

text \<open>C20: accepting a form succeeds exactly when every field is filled: a text stands for a value of
  the field's type, within the schema's bounds and choices, and no required field is empty.  Then the
  response names the request and carries, for every field the user filled, the value of the user's own
  text, nothing for a field left empty, and nothing else.  (The properties of a form are a JSON
  object, so its fields have different names.)\<close>

theorem form_answer_valid:
  assumes form: "interaction_project event = McpForm server message shown" "distinct (map if_id shown)"
    and accept: "an_action a = Decide_Accept"
    and "properties = json_index (json_index (json_index event ''params'') ''requestedSchema'') ''properties''"
  shows "((\<exists>r. answer_interaction S event a = Inr r) \<longleftrightarrow> list_all (filled S properties (an_values a)) shown)
    \<and> (\<forall>r. answer_interaction S event a = Inr r \<longrightarrow>
         (\<exists>content. r = JObj [(''id'', json_index event ''id''),
             (''result'', JObj [(''action'', JStr ''accept''), (''content'', JObj content)])]
           \<and> list_all (\<lambda>f. sends S (an_values a) f (obj_get content (if_id f))) shown
           \<and> (\<forall>k. k \<notin> if_id ` set shown \<longrightarrow> obj_get content k = None)))"
proof -
  have answer: "answer_interaction S event a = rbind (form_content S properties (an_values a) shown [])
      (\<lambda>content. Inr (JObj [(''id'', json_index event ''id''),
        (''result'', JObj [(''action'', JStr ''accept''), (''content'', JObj content)])]))"
    using form(1) accept assms(4) by (simp add: answer_interaction_def action_text_def)
  have "(\<exists>r. answer_interaction S event a = Inr r) \<longleftrightarrow> list_all (filled S properties (an_values a)) shown"
    using form_content_fills [of S properties "an_values a" shown "[]"] by (auto simp: answer rbind_Inr_iff)
  then show ?thesis using form_content_sends [OF _ form(2), of S properties "an_values a" "[]"]
    by (auto simp: answer rbind_Inr_iff list_all_iff)
qed

definition demo_form :: json where
  "demo_form = JObj [(''id'', JInt 7), (''method'', JStr ''mcpServer/elicitation/request''),
     (''params'', JObj [(''mode'', JStr ''form''), (''requestedSchema'', JObj
        [(''required'', JArr [JStr ''n'']), (''properties'', JObj
           [(''n'', JObj [(''type'', JStr ''string''), (''enum'', JArr [JStr ''a'', JStr ''b''])])])])])]"

definition demo_answer :: InteractionAnswer where
  "demo_answer = \<lparr> an_action = Decide_Accept, an_values = [(''n'', ''b'')] \<rparr>"

lemma form_answer_valid_witness:
  "list_all (filled name_serde (JObj [(''n'', JObj [(''type'', JStr ''string''), (''enum'', JArr [JStr ''a'', JStr ''b''])])])
      (an_values demo_answer))
    [\<lparr> if_id = ''n'', if_label = ''n'', if_description = [], if_kind = ''string'', if_required = True,
      if_choices = [''a'', ''b''], if_secret = False \<rparr>]"
proof -
  let ?f = "\<lparr> if_id = ''n'', if_label = ''n'', if_description = [], if_kind = ''string'', if_required = True,
      if_choices = [''a'', ''b''], if_secret = False \<rparr>"
  let ?r = "JObj [(''id'', JInt 7), (''result'', JObj [(''action'', JStr ''accept''),
      (''content'', JObj [(''n'', JStr ''b'')])])]"
  have p: "interaction_project demo_form = McpForm [] [] [?f]" by code_simp
  have a: "an_action demo_answer = Decide_Accept" by code_simp
  have r: "answer_interaction name_serde demo_form demo_answer = Inr ?r" by code_simp
  have s: "JObj [(''n'', JObj [(''type'', JStr ''string''), (''enum'', JArr [JStr ''a'', JStr ''b''])])]
      = json_index (json_index (json_index demo_form ''params'') ''requestedSchema'') ''properties''"
    by (simp add: demo_form_def json_index_def)
  show ?thesis
    using form_answer_valid [OF p _ a s, of name_serde] r by simp
qed

end
