(* ===== verification/Adapter_Events.thy ===== *)
theory Adapter_Events
  imports Adapter_Interactions
begin

text \<open>
  Models \<open>codex-adapter/src/events.rs\<close>, \<open>status.rs\<close>, \<open>goals.rs\<close> and the projections of
  \<open>thread/history.rs\<close> and \<open>desktop.rs\<close>: native notifications as session events.  JSON
  text, shell splitting and file URLs are parameters.
\<close>

section \<open>Status\<close>

definition turn_timing :: "json \<Rightarrow> TurnTiming" where
  "turn_timing turn = \<lparr> ti_started_at = as_int (json_index turn ''startedAt''),
     ti_completed_at = as_int (json_index turn ''completedAt''),
     ti_duration_ms = as_u64 (json_index turn ''durationMs'') \<rparr>"

definition rate_window :: "json \<Rightarrow> RateWindow option" where
  "rate_window v = map_option (\<lambda>used. \<lparr> rw_used_percent = used,
     rw_window_minutes = as_u64 (json_index v ''windowDurationMins''),
     rw_resets_at = as_int (json_index v ''resetsAt'') \<rparr>) (as_f64 (json_index v ''usedPercent''))"

definition limit_snapshots :: "json \<Rightarrow> (string option \<times> json) list" where
  "limit_snapshots v =
    (case as_object (json_index v ''rateLimitsByLimitId'') of
       Some (p # ps) \<Rightarrow> map (\<lambda>(i, w). (Some i, w)) (p # ps)
     | _ \<Rightarrow>
       (case json_get v ''rateLimits'' of
          Some w \<Rightarrow> if as_object w \<noteq> None then [(None, w)] else []
        | None \<Rightarrow> []))"

definition rate_limit :: "json \<Rightarrow> string option \<times> json \<Rightarrow> RateLimit" where
  "rate_limit main s =
    (let (key, v) = s;
         i = (case as_string (json_index v ''limitId'') of Some x \<Rightarrow> Some x | None \<Rightarrow> key) in
     \<lparr> rl_id = i,
       rl_is_default = (key = None \<or> (i = as_string (json_index main ''limitId'') \<and> i \<noteq> None) \<or> v = main),
       rl_name = (case as_string (json_index v ''limitName'') of
           Some n \<Rightarrow> n | None \<Rightarrow> (case i of Some x \<Rightarrow> x | None \<Rightarrow> ''Codex'')),
       rl_primary = rate_window (json_index v ''primary''),
       rl_secondary = rate_window (json_index v ''secondary'') \<rparr>)"

definition rate_limits :: "json \<Rightarrow> RateLimit list" where
  "rate_limits v = map (rate_limit (json_index v ''rateLimits'')) (limit_snapshots v)"

definition token_number :: "json \<Rightarrow> string \<Rightarrow> string \<Rightarrow> nat option" where
  "token_number v native saved =
    (case as_u64 (json_index v native) of Some n \<Rightarrow> Some n | None \<Rightarrow> as_u64 (json_index v saved))"

definition token_usage :: "json \<Rightarrow> json \<Rightarrow> json \<Rightarrow> TokenUsage option" where
  "token_usage last_usage total_usage context_size =
    Option.bind (token_number last_usage ''totalTokens'' ''total_tokens'') (\<lambda>a.
    Option.bind (token_number total_usage ''totalTokens'' ''total_tokens'') (\<lambda>b.
    Option.bind (token_number last_usage ''inputTokens'' ''input_tokens'') (\<lambda>c.
    Option.bind (token_number last_usage ''cachedInputTokens'' ''cached_input_tokens'') (\<lambda>d.
    Option.bind (token_number last_usage ''outputTokens'' ''output_tokens'') (\<lambda>e.
    Option.bind (token_number last_usage ''reasoningOutputTokens'' ''reasoning_output_tokens'') (\<lambda>f.
    Some \<lparr> us_last = a, us_total = b, us_input = c, us_cached_input = d, us_output = e,
      us_reasoning = f, us_context_window = as_u64 context_size \<rparr>))))))"

definition active_flags :: "json \<Rightarrow> string list" where
  "active_flags status = List.map_filter as_string (json_array (json_index status ''activeFlags''))"

definition initial_status :: "json \<Rightarrow> SessionStatus" where
  "initial_status response =
    (let status = json_index (json_index response ''thread'') ''status'' in
     SessionStatus_default\<lparr> ss_provider := as_string (json_index response ''modelProvider''),
       ss_activity := (case as_string (json_index status ''type'') of Some t \<Rightarrow> t | None \<Rightarrow> ''notLoaded''),
       ss_active_flags := active_flags status \<rparr>)"

definition status_event :: "json \<Rightarrow> SessionEvent option" where
  "status_event v =
    (let params = json_index v ''params''; m = as_string (json_index v ''method'') in
     if m = Some ''thread/status/changed''
     then map_option (\<lambda>t. ActivityChanged t (active_flags (json_index params ''status'')))
       (as_string (json_index (json_index params ''status'') ''type''))
     else if m = Some ''thread/tokenUsage/updated''
     then (let usage = json_index params ''tokenUsage'' in
       map_option UsageChanged (token_usage (json_index usage ''last'') (json_index usage ''total'')
         (json_index usage ''modelContextWindow'')))
     else if m = Some ''account/rateLimits/updated'' then Some (RateLimitsChanged (rate_limits params))
     else None)"

section \<open>Goals\<close>

definition invalid_goal :: "string \<Rightarrow> Fault" where
  "invalid_goal m = Fault_new ''INVALID_GOAL'' m"

definition goal_limit_text :: string where
  "goal_limit_text = ''Enter a goal of 1'' @ [CHR 0xE2, CHR 0x80, CHR 0x93]
     @ ''4,000 characters and a positive optional token budget.''"

definition json_budget :: "nat option \<Rightarrow> json" where
  "json_budget b = (case b of Some n \<Rightarrow> JInt (int n) | None \<Rightarrow> JNull)"

definition goal_params :: "string \<Rightarrow> GoalAction \<Rightarrow> Fault + string \<times> json" where
  "goal_params thread action =
    (let v = JObj [(''threadId'', JStr thread)]; set_goal = (\<lambda>v. Inr (''thread/goal/set'', v)) in
     case action of
       Goal_Set objective budget \<Rightarrow>
         if blank objective \<or> length (str_chars objective) > 4000 \<or> budget = Some 0
         then Inl (invalid_goal goal_limit_text)
         else set_goal (json_put ''status'' (JStr ''active'')
           (json_put ''tokenBudget'' (json_budget budget) (json_put ''objective'' (JStr objective) v)))
     | Goal_Pause \<Rightarrow> set_goal (json_put ''status'' (JStr ''paused'') v)
     | Goal_Resume \<Rightarrow> set_goal (json_put ''status'' (JStr ''active'') v)
     | Goal_Budget budget \<Rightarrow>
         if budget = Some 0 then Inl (invalid_goal ''The token budget must be positive.'')
         else set_goal (json_put ''tokenBudget'' (json_budget budget) v)
     | Goal_Clear \<Rightarrow> Inr (''thread/goal/clear'', v))"

definition goal_mode :: "json \<Rightarrow> CollaborationMode \<Rightarrow> json" where
  "goal_mode settings mode = JObj
    [(''mode'', JStr (if mode = Mode_Plan then ''plan'' else ''default'')),
     (''settings'', JObj [(''model'', json_index settings ''model''),
        (''reasoning_effort'', json_index settings ''effort''), (''developer_instructions'', JNull)])]"

text \<open>\<open>serde\<close>'s derived reading of a goal: a status by its snake-case name or its alias, a
  field by its name or its alias but not both, the budget optional.\<close>

definition goal_status_name :: "string \<Rightarrow> GoalStatus option" where
  "goal_status_name s =
    (if s = ''active'' then Some Goal_Active else if s = ''paused'' then Some Goal_Paused
     else if s = ''blocked'' then Some Goal_Blocked
     else if s \<in> {''usage_limited'', ''usageLimited''} then Some Goal_UsageLimited
     else if s \<in> {''budget_limited'', ''budgetLimited''} then Some Goal_BudgetLimited
     else if s = ''complete'' then Some Goal_Complete else None)"

fun goal_status_of :: "json \<Rightarrow> GoalStatus option" where
  "goal_status_of (JStr s) = goal_status_name s"
| "goal_status_of (JObj [(s, JNull)]) = goal_status_name s"
| "goal_status_of _ = None"

definition either_field :: "(string \<times> json) list \<Rightarrow> string \<Rightarrow> string \<Rightarrow> json option option" where
  "either_field ps a b =
    (case (obj_get ps a, obj_get ps b) of
       (Some _, Some _) \<Rightarrow> None | (Some v, None) \<Rightarrow> Some (Some v) | (None, r) \<Rightarrow> Some r)"

definition optional_u64 :: "json \<Rightarrow> nat option option" where
  "optional_u64 v = (if is_null v then Some None else map_option Some (as_u64 v))"

definition goal_of_parts ::
  "json \<Rightarrow> json \<Rightarrow> json \<Rightarrow> json \<Rightarrow> json \<Rightarrow> json \<Rightarrow> Goal option" where
  "goal_of_parts thread objective status budget tokens seconds =
    Option.bind (as_string thread) (\<lambda>t. Option.bind (as_string objective) (\<lambda>obj.
    Option.bind (goal_status_of status) (\<lambda>s. Option.bind (optional_u64 budget) (\<lambda>b.
    Option.bind (as_u64 tokens) (\<lambda>n. Option.bind (as_u64 seconds) (\<lambda>m.
      Some \<lparr> go_thread_id = t, go_objective = obj, go_status = s, go_token_budget = b,
        go_tokens_used = n, go_time_used = m \<rparr>))))))"

fun goal_of_json :: "json \<Rightarrow> Goal option" where
  "goal_of_json (JObj ps) =
    Option.bind (Option.bind (either_field ps ''thread_id'' ''threadId'') id) (\<lambda>thread.
    Option.bind (obj_get ps ''objective'') (\<lambda>objective.
    Option.bind (obj_get ps ''status'') (\<lambda>status.
    Option.bind (either_field ps ''token_budget'' ''tokenBudget'') (\<lambda>budget.
    Option.bind (Option.bind (either_field ps ''tokens_used'' ''tokensUsed'') id) (\<lambda>tokens.
    Option.bind (Option.bind (either_field ps ''time_used_seconds'' ''timeUsedSeconds'') id) (\<lambda>seconds.
      goal_of_parts thread objective status (case budget of Some b \<Rightarrow> b | None \<Rightarrow> JNull) tokens seconds))))))"
| "goal_of_json (JArr [a, b, c, d, e, f]) = goal_of_parts a b c d e f"
| "goal_of_json _ = None"

definition goal_read :: "json \<Rightarrow> Fault + Goal option" where
  "goal_read v =
    (let g = json_index v ''goal'' in
     if is_null g then Inr None
     else (case goal_of_json g of
         Some goal \<Rightarrow> Inr (Some goal)
       | None \<Rightarrow> Inl (Fault_new ''INVALID_NATIVE_GOAL'' ''Codex returned an invalid goal.'')))"

definition plan_step :: "json \<Rightarrow> PlanStep option" where
  "plan_step s =
    Option.bind (as_string (json_index s ''step'')) (\<lambda>a.
    Option.bind (as_string (json_index s ''status'')) (\<lambda>b. Some \<lparr> ps_step = a, ps_status = b \<rparr>))"

definition plan_message :: "json \<Rightarrow> json \<Rightarrow> json \<Rightarrow> bool \<Rightarrow> SessionEvent option" where
  "plan_message turn item t complete =
    Option.bind (as_string turn) (\<lambda>turn. Option.bind (as_string item) (\<lambda>item.
    Option.bind (as_string t) (\<lambda>t. Some (PlanMessage item turn t complete))))"

definition goal_event :: "json \<Rightarrow> SessionEvent option" where
  "goal_event v =
    (let p = json_index v ''params''; m = as_string (json_index v ''method''); item = json_index p ''item'' in
     if m = Some ''thread/goal/updated''
     then (case goal_read p of Inl _ \<Rightarrow> None | Inr g \<Rightarrow> Some (GoalChanged g))
     else if m = Some ''thread/goal/cleared'' then Some (GoalChanged None)
     else if m = Some ''turn/plan/updated''
     then Option.bind (as_string (json_index p ''turnId'')) (\<lambda>turn.
       Option.bind (as_array (json_index p ''plan'')) (\<lambda>steps.
         Some (PlanChanged \<lparr> pl_turn = turn, pl_explanation = as_string (json_index p ''explanation''),
           pl_steps = List.map_filter plan_step steps \<rparr>)))
     else if m = Some ''item/plan/delta''
     then plan_message (json_index p ''turnId'') (json_index p ''itemId'') (json_index p ''delta'') False
     else if m = Some ''item/completed'' \<and> json_index item ''type'' = JStr ''plan''
     then plan_message (json_index p ''turnId'') (json_index item ''id'') (json_index item ''text'') True
     else None)"

section \<open>History projection\<close>

definition item_text :: "json \<Rightarrow> string" where
  "item_text item =
    (let parts = (\<lambda>xs. join_with line_break (List.map_filter (\<lambda>p. case as_string p of
           Some s \<Rightarrow> Some s | None \<Rightarrow> as_string (json_index p ''text'')) xs)) in
     case as_string (json_index item ''text'') of
       Some t \<Rightarrow> t
     | None \<Rightarrow>
       (case as_array (json_index item ''content'') of
          Some xs \<Rightarrow> parts xs
        | None \<Rightarrow>
          (case as_array (json_index item ''summary'') of Some xs \<Rightarrow> parts xs | None \<Rightarrow> [])))"

definition async_questions :: "json \<Rightarrow> AsyncQuestion list" where
  "async_questions item = List.map_filter (\<lambda>q. map_option (\<lambda>t. \<lparr> aq_title = t,
     aq_options = List.map_filter as_string (json_array (json_index q ''options'')) \<rparr>)
     (as_string (json_index q ''title''))) (json_array (json_index item ''questions''))"

definition history_item :: "printer \<Rightarrow> json \<Rightarrow> json \<Rightarrow> HistoryItem" where
  "history_item P v item =
    (let tool = map_option (\<lambda>t. if tool_status t = [] \<and> json_index v ''status'' = JStr ''completed''
           then t\<lparr> tool_status := ''completed'' \<rparr> else t) (tool_project P item) in
     \<lparr> hi_id = json_text item ''id'', hi_client_id = as_string (json_index item ''clientId''),
       hi_sent_at = None, hi_phase = as_string (json_index item ''phase''),
       hi_kind = json_text item ''type'',
       hi_text = (if tool \<noteq> None then [] else item_text item),
       hi_delivery = as_string (json_index item ''delivery''),
       hi_questions = async_questions item, hi_tool = tool \<rparr>)"

definition history_turn :: "printer \<Rightarrow> json \<Rightarrow> HistoryTurn" where
  "history_turn P v = \<lparr> ht_id = json_text v ''id'', ht_status = json_text v ''status'',
     ht_timing = turn_timing v, ht_items = map (history_item P v) (json_array (json_index v ''items'')),
     ht_items_before = False \<rparr>"

definition confirmed_settings :: "json \<Rightarrow> ConfirmedSettings" where
  "confirmed_settings v =
    \<lparr> cs_mode = (if json_index (json_index v ''collaborationMode'') ''mode'' = JStr ''plan''
         then Mode_Plan else Mode_Agent),
      cs_model = json_text v ''model'', cs_effort = as_string (json_index v ''effort''),
      cs_full_access = (json_index (json_index v ''sandboxPolicy'') ''type'' = JStr ''dangerFullAccess''),
      cs_approval_policy = (case as_string (json_index v ''approvalPolicy'') of
          Some s \<Rightarrow> s | None \<Rightarrow> ''custom''),
      cs_reviewer = (case as_string (json_index v ''approvalsReviewer'') of
          Some s \<Rightarrow> s | None \<Rightarrow> ''user'') \<rparr>"

section \<open>Notices\<close>

record Approval =
  apv_request_id :: string
  apv_thread :: string
  apv_environment :: string
  apv_turn :: string
  apv_item :: string
  apv_argv :: "string list"
  apv_cwd :: string

datatype Notice =
  Notice_Approval Approval
| Notice_Completed "string option" "string option"
| Notice_Permissions string bool
| Notice_Closed "Fault option"
| Notice_Other

record native =
  na_serde :: serde
  na_printer :: printer
  na_split :: "string \<Rightarrow> string list option"
  na_file_url :: "string \<Rightarrow> string option"

definition event_invalid :: Fault where
  "event_invalid = Fault_new ''INVALID_NATIVE_EVENT'' ''Codex emitted an invalid session event''"

definition fault_of_parts :: "json \<Rightarrow> json \<Rightarrow> json \<Rightarrow> Fault option" where
  "fault_of_parts c m u =
    Option.bind (as_string c) (\<lambda>c. Option.bind (as_string m) (\<lambda>m. Option.bind (as_bool u) (\<lambda>u.
      Some \<lparr> fault_code = c, fault_message = m, outcome_unknown = u \<rparr>)))"

fun fault_of_json :: "json \<Rightarrow> Fault option" where
  "fault_of_json (JObj ps) =
    Option.bind (obj_get ps ''code'') (\<lambda>c. Option.bind (obj_get ps ''message'') (\<lambda>m.
    Option.bind (obj_get ps ''outcome_unknown'') (fault_of_parts c m)))"
| "fault_of_json (JArr [c, m, u]) = fault_of_parts c m u"
| "fault_of_json _ = None"

definition event_text :: "json \<Rightarrow> string \<Rightarrow> string option" where
  "event_text event k = pointer_string [''params'', k] event"

definition approval_of :: "native \<Rightarrow> json \<Rightarrow> Approval option" where
  "approval_of N event =
    Option.bind (json_get event ''id'') (\<lambda>request.
    Option.bind (event_text event ''threadId'') (\<lambda>thread.
    Option.bind (event_text event ''environmentId'') (\<lambda>environment.
    Option.bind (event_text event ''turnId'') (\<lambda>turn.
    Option.bind (event_text event ''itemId'') (\<lambda>item.
    Option.bind (Option.bind (event_text event ''command'') (na_split N)) (\<lambda>argv.
    if argv = [] then None else
    Option.bind (Option.bind (event_text event ''cwd'') (na_file_url N)) (\<lambda>cwd.
      Some \<lparr> apv_request_id = to_text (na_serde N) request, apv_thread = thread,
        apv_environment = environment, apv_turn = turn, apv_item = item, apv_argv = argv,
        apv_cwd = cwd \<rparr>)))))))"

text \<open>What a restricted approval request becomes: one acceptance or a cancellation, and no
  policy amendment.\<close>

definition restrict_decisions :: "json \<Rightarrow> json" where
  "restrict_decisions event =
    json_put ''params'' (json_put ''proposedExecpolicyAmendment'' JNull
      (json_put ''availableDecisions'' (JArr [JStr ''accept'', JStr ''cancel''])
        (json_index event ''params''))) event"

definition notice :: "native \<Rightarrow> json \<Rightarrow> bool \<Rightarrow> (Fault + Notice) \<times> json" where
  "notice N event restrict_commands =
    (let m = as_string (json_index event ''method'') in
     if m \<in> {Some ''item/completed'', Some ''turn/completed''}
     then (Inr (Notice_Completed (pointer_string [''params'', ''item'', ''id''] event)
       (pointer_string [''params'', ''turn'', ''id''] event)), event)
     else if m = Some ''thread/settings/updated''
     then (case event_text event ''threadId'' of
         None \<Rightarrow> (Inl event_invalid, event)
       | Some thread \<Rightarrow> (Inr (Notice_Permissions thread
           (pointer_string [''params'', ''threadSettings'', ''sandboxPolicy'', ''type''] event
             = Some ''dangerFullAccess'')), event))
     else if m = Some ''remoteCodex/engineClosed''
     then (case json_pointer [''params'', ''fault''] event of
         None \<Rightarrow> (Inr (Notice_Closed None), event)
       | Some v \<Rightarrow>
           if is_null v then (Inr (Notice_Closed None), event)
           else (case fault_of_json v of
               None \<Rightarrow> (Inl event_invalid, event) | Some f \<Rightarrow> (Inr (Notice_Closed (Some f)), event)))
     else if m = Some ''item/commandExecution/requestApproval'' \<and> restrict_commands
     then
       (if (case event_text event ''kind'' of Some k \<Rightarrow> k \<noteq> ''command'' | None \<Rightarrow> False)
        then (Inr Notice_Other, event)
        else (case approval_of N event of
            None \<Rightarrow> (Inl event_invalid, event)
          | Some a \<Rightarrow> (Inr (Notice_Approval a), restrict_decisions event)))
     else (Inr Notice_Other, event))"

section \<open>Session events\<close>

definition thread_id :: "json \<Rightarrow> string option" where
  "thread_id event =
    Option.bind (case json_pointer [''params'', ''threadId''] event of
        Some v \<Rightarrow> Some v | None \<Rightarrow> json_pointer [''params'', ''thread'', ''id''] event) as_string"

definition request_event :: "string \<Rightarrow> string \<Rightarrow> json \<Rightarrow> SessionEvent" where
  "request_event i m event =
    (if m \<in> {''item/commandExecution/requestApproval'', ''item/fileChange/requestApproval''}
     then ApprovalRequested i
       (case Option.bind (case json_pointer [''params'', ''command''] event of
            Some v \<Rightarrow> Some v | None \<Rightarrow> json_pointer [''params'', ''reason''] event) as_string of
          Some d \<Rightarrow> d | None \<Rightarrow> ''Codex requests approval'')
     else InteractionRequested i (interaction_project event))"

definition pointer_text :: "json \<Rightarrow> string list \<Rightarrow> string" where
  "pointer_text event ks = or_empty (pointer_string (''params'' # ks) event)"

definition turn_outcome :: "json \<Rightarrow> TurnOutcome" where
  "turn_outcome event =
    (case pointer_string [''params'', ''turn'', ''status''] event of
       Some s \<Rightarrow>
         if s = ''completed'' then Turn_Completed
         else if s = ''interrupted'' then Turn_Interrupted
         else Turn_Failed (case pointer_string [''params'', ''turn'', ''error'', ''message''] event of
             Some t \<Rightarrow> t | None \<Rightarrow> ''native turn failed'')
     | None \<Rightarrow> Turn_Failed (case pointer_string [''params'', ''turn'', ''error'', ''message''] event of
             Some t \<Rightarrow> t | None \<Rightarrow> ''native turn failed''))"

definition warning_text :: "json \<Rightarrow> string" where
  "warning_text params =
    (case as_string (json_index params ''message'') of
       Some s \<Rightarrow> s
     | None \<Rightarrow> (case as_string (json_index (json_index params ''error'') ''message'') of
           Some s \<Rightarrow> s | None \<Rightarrow> ''Codex reported an error.''))"

text \<open>The final \<open>match\<close> on the method.\<close>

definition method_event :: "native \<Rightarrow> string \<Rightarrow> json \<Rightarrow> SessionEvent option" where
  "method_event N m event =
    (let params = json_index event ''params''; item = json_index params ''item'';
         t = pointer_text event; turn = json_index params ''turn'' in
     if m \<in> {''warning'', ''error''} then Some (Event_Warning (warning_text params))
     else if m = ''serverRequest/resolved''
     then Some (InteractionResolved (to_text (na_serde N) (json_index params ''requestId'')))
     else if m \<in> {''item/started'', ''item/completed''} \<and> json_index item ''type'' = JStr ''userMessage''
     then Some (UserMessage (t [''item'', ''id'']) (as_string (json_index item ''clientId''))
       (t [''turnId'']) (item_text item))
     else if m = ''item/agentMessage/delta''
     then Some (Message (t [''itemId'']) (t [''turnId'']) (as_string (json_index item ''phase''))
       (t [''delta'']) False None [])
     else if m = ''item/completed'' \<and> pointer_string [''params'', ''item'', ''type''] event = Some ''agentMessage''
     then Some (Message (t [''item'', ''id'']) (t [''turnId'']) (as_string (json_index item ''phase''))
       (t [''item'', ''text'']) True (as_string (json_index item ''delivery'')) (async_questions item))
     else if m = ''item/commandExecution/outputDelta''
     then Some (ToolOutput (t [''itemId'']) (t [''turnId'']) (t [''delta'']))
     else if m = ''turn/started'' then Some (TurnStarted (t [''turn'', ''id'']) (turn_timing turn))
     else if m = ''turn/completed''
     then Some (TurnCompleted (t [''turn'', ''id'']) (turn_timing turn) (turn_outcome event))
     else if m = ''thread/settings/updated''
     then Some (SettingsChanged (confirmed_settings (json_index params ''threadSettings'')))
     else None)"

definition tool_event :: "native \<Rightarrow> string \<Rightarrow> json \<Rightarrow> SessionEvent option" where
  "tool_event N m event =
    (if m \<in> {''item/started'', ''item/completed''}
     then map_option (\<lambda>item. ToolChanged
         (if tool_status item = []
          then item\<lparr> tool_status := (if m = ''item/started'' then ''inProgress'' else ''completed'') \<rparr> else item)
         (pointer_text event [''turnId'']))
       (tool_project (na_printer N) (json_index (json_index event ''params'') ''item''))
     else None)"

definition public_event :: "native \<Rightarrow> json \<Rightarrow> SessionEvent option" where
  "public_event N event =
    (case (json_get event ''id'', as_string (json_index event ''method'')) of
       (Some i, Some m) \<Rightarrow> Some (request_event (to_text (na_serde N) i) m event)
     | (_, m) \<Rightarrow>
       (case status_event event of
          Some e \<Rightarrow> Some e
        | None \<Rightarrow>
          (case goal_event event of
             Some e \<Rightarrow> Some e
           | None \<Rightarrow>
             (case m of
                None \<Rightarrow> None
              | Some m \<Rightarrow>
                (case tool_event N m event of Some e \<Rightarrow> Some e | None \<Rightarrow> method_event N m event)))))"

definition session_event :: "native \<Rightarrow> json \<Rightarrow> string \<Rightarrow> SessionEvent option" where
  "session_event N event thread =
    (if (case thread_id event of Some i \<Rightarrow> i \<noteq> thread | None \<Rightarrow> False)
       \<and> json_get event ''id'' = None
       \<and> json_index event ''method'' \<noteq> JStr ''serverRequest/resolved''
     then None else public_event N event)"

section \<open>Messages to the backend\<close>

definition approval_response :: "native \<Rightarrow> string \<Rightarrow> ApprovalDecision \<Rightarrow> Fault + json" where
  "approval_response N i decision =
    (case from_text (na_serde N) i of
       None \<Rightarrow> Inl event_invalid
     | Some v \<Rightarrow> Inr (JObj [(''id'', v), (''result'', JObj [(''decision'',
         JStr (case decision of AcceptOnce \<Rightarrow> ''accept'' | Cancel_Approval \<Rightarrow> ''cancel''))])]))"

definition approval_decision :: "json \<Rightarrow> Fault + bool" where
  "approval_decision response =
    (case pointer_string [''result'', ''decision''] response of
       None \<Rightarrow> Inr False
     | Some d \<Rightarrow>
         if d = ''accept'' then Inr True
         else if d \<in> {''cancel'', ''decline''} then Inr False
         else Inl (Fault_new ''UNSUPPORTED_APPROVAL_SCOPE'' ''approve this command once or cancel it''))"

definition put_if :: "string \<Rightarrow> ('a \<Rightarrow> json) \<Rightarrow> 'a option \<Rightarrow> json \<Rightarrow> json" where
  "put_if k f x v = (case x of None \<Rightarrow> v | Some y \<Rightarrow> json_put k (f y) v)"

definition settings_request :: "string \<Rightarrow> SessionSettings \<Rightarrow> json" where
  "settings_request thread options =
    (let v = put_if ''effort'' JStr (st_effort options)
           (put_if ''model'' JStr (st_model options) (JObj [(''threadId'', JStr thread)]));
         v = (case st_permissions options of
             None \<Rightarrow> v
           | Some preset \<Rightarrow>
               let (p, a) = (case preset of Preset_Workspace \<Rightarrow> ('':workspace'', ''on-request'')
                     | Preset_FullAccess \<Rightarrow> ('':danger-full-access'', ''never'')) in
               json_put ''approvalPolicy'' (JStr a) (json_put ''permissions'' (JStr p) v)) in
     put_if ''approvalsReviewer'' (\<lambda>r. JStr (case r of Reviewer_User \<Rightarrow> ''user''
       | Reviewer_AutoReview \<Rightarrow> ''auto_review'' | Reviewer_GuardianSubagent \<Rightarrow> ''guardian_subagent''))
       (st_reviewer options) v)"

definition prompt_request :: "string \<Rightarrow> string \<Rightarrow> json" where
  "prompt_request thread t = JObj [(''threadId'', JStr thread),
     (''input'', JArr [JObj [(''type'', JStr ''text''), (''text'', JStr t)]])]"

definition interrupt_request :: "string \<Rightarrow> string \<Rightarrow> json" where
  "interrupt_request thread turn = JObj [(''threadId'', JStr thread), (''turnId'', JStr turn)]"

definition turn_ended :: "string \<Rightarrow> string \<Rightarrow> string \<Rightarrow> json \<Rightarrow> json" where
  "turn_ended thread turn status error = JObj [(''method'', JStr ''turn/completed''),
     (''params'', JObj [(''threadId'', JStr thread), (''turn'', JObj [(''id'', JStr turn), (''items'', JArr []),
        (''status'', JStr status), (''error'', error)])])]"

definition interrupted_event :: "string \<Rightarrow> string \<Rightarrow> json" where
  "interrupted_event thread turn = turn_ended thread turn ''interrupted'' JNull"

definition failed_event :: "string \<Rightarrow> string \<Rightarrow> string \<Rightarrow> json" where
  "failed_event thread turn message = turn_ended thread turn ''failed''
     (JObj [(''message'', JStr message), (''codexErrorInfo'', JStr ''other''), (''additionalDetails'', JNull)])"

definition warning_event :: "string \<Rightarrow> string \<Rightarrow> json" where
  "warning_event thread message = JObj [(''method'', JStr ''warning''),
     (''params'', JObj [(''threadId'', JStr thread), (''message'', JStr message)])]"

definition resolved_event :: "native \<Rightarrow> string \<Rightarrow> string \<Rightarrow> Fault + json" where
  "resolved_event N thread i =
    (case from_text (na_serde N) i of
       None \<Rightarrow> Inl event_invalid
     | Some v \<Rightarrow> Inr (JObj [(''method'', JStr ''serverRequest/resolved''),
         (''params'', JObj [(''threadId'', JStr thread), (''requestId'', v)])]))"

section \<open>Round trips with the backend\<close>

lemma notice_approval:
  assumes "notice N event True = (Inr (Notice_Approval a), event')"
  shows "event' = restrict_decisions event" "approval_of N event = Some a"
    and "json_index event ''method'' = JStr ''item/commandExecution/requestApproval''"
    and "event_text event ''kind'' \<in> {None, Some ''command''}"
  using assms by (auto simp: notice_def Let_def split: if_splits option.splits)

lemma approval_of_id:
  "approval_of N event = Some a \<Longrightarrow> \<exists>i. json_get event ''id'' = Some i \<and> apv_request_id a = to_text (na_serde N) i
     \<and> apv_argv a \<noteq> []"
  by (auto simp: approval_of_def bind_eq_Some_conv split: if_splits)

text \<open>C21: a command approval that is shown can only be accepted once or cancelled, the answer
  names the request it answers, and what is read back from it is the user's choice.\<close>

theorem approval_answers_request:
  assumes serde: "serde_ok (na_serde N)"
    and shown: "notice N event True = (Inr (Notice_Approval a), event')"
  shows "\<exists>r i. approval_response N (apv_request_id a) decision = Inr r
    \<and> json_get event ''id'' = Some i \<and> json_get r ''id'' = Some i \<and> json_get event' ''id'' = Some i
    \<and> approval_decision r = Inr (decision = AcceptOnce)
    \<and> json_index (json_index event' ''params'') ''availableDecisions''
        = JArr [JStr ''accept'', JStr ''cancel'']
    \<and> json_index (json_index event' ''params'') ''proposedExecpolicyAmendment'' = JNull
    \<and> apv_argv a \<noteq> []"
proof -
  obtain i where i: "json_get event ''id'' = Some i" "apv_request_id a = to_text (na_serde N) i"
    and argv: "apv_argv a \<noteq> []"
    using approval_of_id [OF notice_approval(2) [OF shown]] by blast
  obtain ps where ps: "event = JObj ps" using json_get_object [OF i(1)] by blast
  have "event_text event ''threadId'' \<noteq> None"
    using notice_approval(2) [OF shown] by (auto simp: approval_of_def bind_eq_Some_conv)
  then obtain qs where qs: "json_index event ''params'' = JObj qs"
    by (auto simp: event_text_def pointer_string_def ps json_index_def bind_eq_Some_conv
        split: option.splits dest: json_get_object)
  have "from_text (na_serde N) (to_text (na_serde N) i) = Some i" using serde by (simp add: serde_ok_def)
  then show ?thesis
    using i argv qs unfolding notice_approval(1) [OF shown]
    by (cases decision) (auto simp: approval_response_def approval_decision_def pointer_string_def
        restrict_decisions_def ps)
qed

definition demo_native :: native where
  "demo_native = \<lparr> na_serde = unary_serde, na_printer = demo_printer, na_split = (\<lambda>s. Some [s]),
     na_file_url = Some \<rparr>"

definition demo_approval_event :: json where
  "demo_approval_event = JObj [(''id'', JInt 3), (''method'', JStr ''item/commandExecution/requestApproval''),
     (''params'', JObj [(''threadId'', JStr ''t''), (''environmentId'', JStr ''e''), (''turnId'', JStr ''u''),
        (''itemId'', JStr ''i''), (''command'', JStr ''ls''), (''cwd'', JStr ''/w'')])]"

lemma approval_answers_request_witness:
  "\<exists>r. approval_decision r = Inr True \<and> json_get r ''id'' = Some (JInt 3)"
proof -
  let ?a = "\<lparr> apv_request_id = to_text unary_serde (JInt 3), apv_thread = ''t'', apv_environment = ''e'',
      apv_turn = ''u'', apv_item = ''i'', apv_argv = [''ls''], apv_cwd = ''/w'' \<rparr>"
  have n: "notice demo_native demo_approval_event True
      = (Inr (Notice_Approval ?a), restrict_decisions demo_approval_event)"
    by (simp add: notice_def demo_approval_event_def json_index_def event_text_def pointer_string_def
        approval_of_def demo_native_def Let_def)
  have s: "serde_ok (na_serde demo_native)" by (simp add: demo_native_def unary_serde_ok)
  have i: "json_get demo_approval_event ''id'' = Some (JInt 3)" by code_simp
  from approval_answers_request [OF s n, of AcceptOnce] i show ?thesis by auto
qed

text \<open>What the history shows of an item of a completed turn, as the events that show it live: a tool
  call, a message of the agent or the user, or a plan.\<close>

definition live_of :: "string \<Rightarrow> HistoryItem \<Rightarrow> SessionEvent option" where
  "live_of turn h =
    (case hi_tool h of
       Some tool \<Rightarrow> Some (ToolChanged tool turn)
     | None \<Rightarrow>
         if hi_kind h = ''userMessage'' then Some (UserMessage (hi_id h) (hi_client_id h) turn (hi_text h))
         else if hi_kind h = ''agentMessage''
         then Some (Message (hi_id h) turn (hi_phase h) (hi_text h) True (hi_delivery h) (hi_questions h))
         else if hi_kind h = ''plan'' then Some (PlanMessage (hi_id h) turn (hi_text h) True)
         else None)"

definition completed_item :: "string \<Rightarrow> string \<Rightarrow> json \<Rightarrow> json" where
  "completed_item thread turn item = JObj [(''method'', JStr ''item/completed''),
     (''params'', JObj [(''threadId'', JStr thread), (''turnId'', JStr turn), (''item'', item)])]"

text \<open>The backend's messages of the agent and its plans have an identity and a text.\<close>

definition has_text :: "json \<Rightarrow> bool" where
  "has_text item \<longleftrightarrow> (\<exists>i s. json_index item ''id'' = JStr i \<and> json_index item ''text'' = JStr s)"

lemma or_empty_simps [simp]: "or_empty (Some s) = s" "or_empty None = []"
  by (simp_all add: or_empty_def)

lemma tool_kind_known:
  "tool_project P item = Some tool \<Longrightarrow> json_index item ''type'' \<notin> {JStr ''plan'', JStr ''userMessage'', JStr ''agentMessage''}"
  by (auto simp: tool_project_def Let_def split: option.splits if_splits)

lemma pointer_text_item [simp]:
  "pointer_text (completed_item thread turn item) [''turnId''] = turn"
  "pointer_text (completed_item thread turn item) [''item'', k] = json_text item k"
  by (auto simp: pointer_text_def completed_item_def pointer_string_def or_empty_def json_text_def json_index_def
      split: option.split)

lemma completed_item_index [simp]:
  "json_get (completed_item thread turn item) ''id'' = None"
  "json_index (completed_item thread turn item) ''method'' = JStr ''item/completed''"
  "json_index (json_index (completed_item thread turn item) ''params'') ''item'' = item"
  "json_index (json_index (completed_item thread turn item) ''params'') ''turnId'' = JStr turn"
  "thread_id (completed_item thread turn item) = Some thread"
  by (simp_all add: completed_item_def json_index_def thread_id_def)

lemma completed_item_type [simp]:
  "pointer_string [''params'', ''item'', ''type''] (completed_item thread turn item) = as_string (json_index item ''type'')"
  by (auto simp: completed_item_def pointer_string_def json_index_def split: option.split)

lemma live_item:
  assumes "json_index v ''status'' = JStr ''completed''"
    and "json_index item ''type'' \<in> {JStr ''agentMessage'', JStr ''plan''} \<longrightarrow> has_text item"
  shows "session_event N (completed_item thread turn item) thread = live_of turn (history_item (na_printer N) v item)"
proof (cases "tool_project (na_printer N) item")
  case (Some tool)
  then show ?thesis using tool_kind_known [OF Some] assms(1)
    by (auto simp: session_event_def public_event_def status_event_def goal_event_def tool_event_def live_of_def
        history_item_def Let_def)
next
  case None
  show ?thesis
  proof (cases "json_index item ''type'' \<in> {JStr ''agentMessage'', JStr ''plan''}")
    case True
    then obtain i s where "json_index item ''id'' = JStr i" "json_index item ''text'' = JStr s"
      using assms(2) unfolding has_text_def by blast
    then show ?thesis using None True
      by (auto simp: session_event_def public_event_def status_event_def goal_event_def tool_event_def method_event_def
          live_of_def history_item_def plan_message_def item_text_def json_text_def Let_def)
  next
    case False
    then show ?thesis using None
      by (cases "json_index item ''type''")
        (auto simp: session_event_def public_event_def status_event_def goal_event_def tool_event_def method_event_def
          live_of_def history_item_def json_text_def Let_def)
  qed
qed


definition demo_turn :: json where
  "demo_turn = JObj [(''id'', JStr ''t''), (''status'', JStr ''completed''), (''items'', JArr
     [JObj [(''type'', JStr ''reasoning''), (''id'', JStr ''r'')],
      JObj [(''type'', JStr ''agentMessage''), (''id'', JStr ''a''), (''text'', JStr ''done'')]])]"


end
