(* ===== verification/Client_Permissions.thy ===== *)
theory Client_Permissions
  imports Server_Policy
begin

text \<open>
  Models \<open>client/src/local/permissions.rs\<close>: the Full Access state of one session.  A
  method is one function per section it runs under the mutex; \<open>contains\<close>, which
  releases the mutex while the native backend answers, is the task \<open>Walk_Step\<close>, so
  that other methods can run in between.  The threads' ancestry as the native backend
  reports it is the parameter \<open>parents\<close>; fresh identities are arguments.
\<close>

section \<open>State\<close>

record Change =
  chg_id :: string
  chg_full :: bool
  chg_observed :: bool
  chg_acknowledged :: bool

text \<open>\<open>Mutex<State>\<close>; \<open>ps_poisoned\<close> is the poison flag of the mutex and \<open>ps_native\<close>
  the attached backend.\<close>

record PermState =
  ps_poisoned :: bool
  ps_channel :: string
  ps_thread :: string
  ps_grant :: "SessionPermissions option"
  ps_pending :: "Change option"
  ps_native :: "string option"
  ps_children :: "string \<Rightarrow> SessionPermissions option"

definition PermState_default :: PermState where
  "PermState_default = \<lparr> ps_poisoned = False, ps_channel = [], ps_thread = [], ps_grant = None,
     ps_pending = None, ps_native = None, ps_children = (\<lambda>_. None) \<rparr>"

definition perm_invalid :: Fault where
  "perm_invalid = Fault_new ''INVALID_SESSION_PERMISSIONS''
     ''cannot apply permissions to this bound session''"

text \<open>A section under the mutex: a poisoned mutex is an error and changes nothing.\<close>

definition locked :: "(PermState \<Rightarrow> (Fault + 'a) \<times> PermState) \<Rightarrow> PermState \<Rightarrow> (Fault + 'a) \<times> PermState" where
  "locked f st = (if ps_poisoned st then (Inl perm_invalid, st) else f st)"

definition state_grant :: "string \<Rightarrow> PermState \<Rightarrow> SessionPermissions" where
  "state_grant new_id st =
    \<lparr> perm_id = new_id, perm_channel = ps_channel st, perm_thread = ps_thread st \<rparr>"

definition perm_commit :: "string \<Rightarrow> PermState \<Rightarrow> PermState" where
  "perm_commit new_id st =
    (case ps_pending st of
       Some c \<Rightarrow>
         if chg_acknowledged c \<and> chg_observed c
         then st\<lparr> ps_grant := (if chg_full c then Some (state_grant new_id st) else None),
                  ps_pending := None \<rparr>
         else st
     | None \<Rightarrow> st)"

section \<open>Methods\<close>

definition perm_restore ::
  "string \<Rightarrow> string \<Rightarrow> string \<Rightarrow> bool \<Rightarrow> PermState \<Rightarrow> (Fault + unit) \<times> PermState" where
  "perm_restore new_id channel thread full_access = locked (\<lambda>st.
    let st1 = PermState_default\<lparr> ps_channel := channel, ps_thread := thread \<rparr> in
    (Inr (), st1\<lparr> ps_grant := (if full_access then Some (state_grant new_id st1) else None) \<rparr>))"

definition perm_attach :: "string \<Rightarrow> PermState \<Rightarrow> (Fault + unit) \<times> PermState" where
  "perm_attach native = locked (\<lambda>st. (Inr (), st\<lparr> ps_native := Some native \<rparr>))"

definition perm_begin ::
  "string \<Rightarrow> bool option \<Rightarrow> bool \<Rightarrow> PermState \<Rightarrow> (Fault + string option) \<times> PermState" where
  "perm_begin new_id full supported st =
    (case full of
       None \<Rightarrow> (Inr None, st)
     | Some full \<Rightarrow>
         if full \<and> \<not> supported
         then (Inl (Fault_new ''SERVICE_UPDATE_REQUIRED''
             ''remote service must be updated to support session Full Access''), st)
         else locked (\<lambda>st.
           if ps_pending st \<noteq> None
           then (Inl (Fault_new ''SETTINGS_BUSY'' ''previous permission change is still being applied''), st)
           else
             let observed = ((ps_grant st \<noteq> None) = full);
                 st1 = (if \<not> full then st\<lparr> ps_grant := None \<rparr> else st) in
             (Inr (Some new_id), st1\<lparr> ps_pending := Some \<lparr> chg_id = new_id, chg_full = full,
                chg_observed = observed, chg_acknowledged = False \<rparr> \<rparr>)) st)"

definition perm_acknowledge ::
  "string \<Rightarrow> string \<Rightarrow> bool \<Rightarrow> PermState \<Rightarrow> (Fault + unit) \<times> PermState" where
  "perm_acknowledge new_id i success = locked (\<lambda>st.
    let st1 = (case ps_pending st of
         Some c \<Rightarrow>
           if chg_id c = i then
             (if success then st\<lparr> ps_pending := Some (c\<lparr> chg_acknowledged := True \<rparr>) \<rparr>
              else st\<lparr> ps_pending := None \<rparr>)
           else st
       | None \<Rightarrow> st) in
    (Inr (), perm_commit new_id st1))"

definition perm_observe ::
  "string \<Rightarrow> string \<Rightarrow> bool \<Rightarrow> PermState \<Rightarrow> (Fault + unit) \<times> PermState" where
  "perm_observe new_id thread full = locked (\<lambda>st.
    if thread \<noteq> ps_thread st then (Inr (), st)
    else
      let st1 = (if \<not> full then st\<lparr> ps_grant := None \<rparr> else st);
          st2 = (case ps_pending st1 of
            Some c \<Rightarrow>
              if chg_full c = full then st1\<lparr> ps_pending := Some (c\<lparr> chg_observed := True \<rparr>) \<rparr> else st1
          | None \<Rightarrow> st1) in
      (Inr (), perm_commit new_id st2))"

definition full_access :: "PermState \<Rightarrow> bool" where
  "full_access st \<longleftrightarrow> \<not> ps_poisoned st \<and> ps_grant st \<noteq> None"

definition awaits_change :: "string \<Rightarrow> PermState \<Rightarrow> bool" where
  "awaits_change i st \<longleftrightarrow> (case ps_pending st of Some c \<Rightarrow> chg_id c = i | None \<Rightarrow> False)"

text \<open>\<open>confirmed\<close>: what a wake-up of the wait decides (nothing while the change is
  pending), and what the timeout does.\<close>

definition confirmed_wake :: "string \<Rightarrow> PermState \<Rightarrow> (Fault + unit) option" where
  "confirmed_wake i st =
    (if ps_poisoned st then Some (Inl perm_invalid)
     else if \<not> awaits_change i st then Some (Inr ()) else None)"

definition confirmed_timeout :: "string \<Rightarrow> PermState \<Rightarrow> (Fault + unit) \<times> PermState" where
  "confirmed_timeout i = locked (\<lambda>st.
    if awaits_change i st
    then (Inl (Fault_new ''SETTINGS_CONFIRMATION_TIMEOUT''
        ''native Codex did not confirm the permission change''), st\<lparr> ps_pending := None \<rparr>)
    else (Inr (), st))"

definition perm_clear :: "PermState \<Rightarrow> PermState" where
  "perm_clear st = (if ps_poisoned st then st else PermState_default)"

section \<open>Ancestry\<close>

record Walk =
  wk_channel :: string
  wk_root :: string
  wk_path :: "string list"
  wk_current :: string

datatype Walk_Step =
  Answer bool
| Visit Walk
| Ask Walk
| Reached Walk

definition contains_start :: "string \<Rightarrow> PermState \<Rightarrow> Fault + Walk_Step" where
  "contains_start thread st =
    (if ps_poisoned st then Inl perm_invalid
     else if thread = [] \<or> ps_thread st = [] then Inr (Answer False)
     else if thread = ps_thread st \<or> ps_children st thread \<noteq> None then Inr (Answer True)
     else if ps_native st = None then Inr (Answer False)
     else Inr (Visit \<lparr> wk_channel = ps_channel st, wk_root = ps_thread st, wk_path = [],
            wk_current = thread \<rparr>))"

definition same_session :: "Walk \<Rightarrow> PermState \<Rightarrow> bool" where
  "same_session w st \<longleftrightarrow> ps_channel st = wk_channel w \<and> ps_thread st = wk_root w"

text \<open>The head of the loop, up to the request to the backend.\<close>

definition contains_visit :: "Walk \<Rightarrow> PermState \<Rightarrow> Fault + Walk_Step" where
  "contains_visit w st =
    (if ps_poisoned st then Inl perm_invalid
     else if \<not> same_session w st then Inr (Answer False)
     else if wk_current w = wk_root w \<or> ps_children st (wk_current w) \<noteq> None then Inr (Reached w)
     else if wk_current w \<in> set (wk_path w) then Inr (Answer False)
     else Inr (Ask (w\<lparr> wk_path := wk_path w @ [wk_current w] \<rparr>)))"

definition contains_reply :: "Walk \<Rightarrow> Fault + string option \<Rightarrow> Fault + Walk_Step" where
  "contains_reply w reply =
    (case reply of
       Inl f \<Rightarrow> Inl f
     | Inr None \<Rightarrow> Inr (Answer False)
     | Inr (Some parent) \<Rightarrow> Inr (Visit (w\<lparr> wk_current := parent \<rparr>)))"

definition add_children :: "(nat \<Rightarrow> string) \<Rightarrow> string \<Rightarrow> (string \<times> nat) list
    \<Rightarrow> (string \<Rightarrow> SessionPermissions option) \<Rightarrow> string \<Rightarrow> SessionPermissions option" where
  "add_children ids channel path m = fold (\<lambda>(child, n) m.
     if m child = None
     then m(child \<mapsto> \<lparr> perm_id = ids n, perm_channel = channel, perm_thread = child \<rparr>) else m) path m"

definition contains_finish ::
  "(nat \<Rightarrow> string) \<Rightarrow> Walk \<Rightarrow> PermState \<Rightarrow> (Fault + bool) \<times> PermState" where
  "contains_finish ids w = locked (\<lambda>st.
    if \<not> same_session w st then (Inr False, st)
    else (Inr True, st\<lparr> ps_children :=
      add_children ids (wk_channel w) (zip (wk_path w) [0..<length (wk_path w)]) (ps_children st) \<rparr>))"

section \<open>Authorization\<close>

definition start_thread :: "json \<Rightarrow> string option" where
  "start_thread message =
    (if json_index message ''method'' = JStr ''process/start'' then message_thread message else None)"

text \<open>Whether \<open>authorization\<close> has to ask \<open>contains\<close> first, and the section that
  follows an answer (or no question).\<close>

definition authorization_asks :: "json \<Rightarrow> PermState \<Rightarrow> string option" where
  "authorization_asks message st = (if full_access st then start_thread message else None)"

definition authorization_grant :: "json \<Rightarrow> PermState \<Rightarrow> Fault + SessionPermissions option" where
  "authorization_grant message st =
    (if ps_poisoned st then Inl perm_invalid
     else if ps_grant st = None then Inr None
     else
       let found = (case ps_children st (case start_thread message of Some t \<Rightarrow> t | None \<Rightarrow> []) of
              Some g \<Rightarrow> Some g | None \<Rightarrow> ps_grant st) in
       Inr (case found of
           Some g \<Rightarrow> if permissions_match g (ps_channel st) message then Some g else None
         | None \<Rightarrow> None))"

definition authorization ::
  "json \<Rightarrow> Fault + bool \<Rightarrow> PermState \<Rightarrow> PermState \<Rightarrow> Fault + SessionPermissions option" where
  "authorization message contains st st' =
    (case authorization_asks message st of
       None \<Rightarrow> authorization_grant message st'
     | Some _ \<Rightarrow>
         (case contains of
            Inl f \<Rightarrow> Inl f
          | Inr False \<Rightarrow> Inr None
          | Inr True \<Rightarrow> authorization_grant message st'))"

section \<open>The session's permissions under interleaving\<close>

type_synonym parents = "string \<Rightarrow> Fault + string option"

text \<open>The state and the \<open>contains\<close> calls that are under way.\<close>

record perm_system =
  pm_state :: PermState
  pm_tasks :: "Walk_Step list"

datatype PermEvent =
  Ev_restore string string string bool
| Ev_attach string
| Ev_begin string "bool option" bool
| Ev_acknowledge string string bool
| Ev_observe string string bool
| Ev_timeout string
| Ev_clear
| Ev_poison

fun perm_apply :: "PermEvent \<Rightarrow> PermState \<Rightarrow> PermState" where
  "perm_apply (Ev_restore i c t full) st = snd (perm_restore i c t full st)"
| "perm_apply (Ev_attach n) st = snd (perm_attach n st)"
| "perm_apply (Ev_begin i choice supported) st = snd (perm_begin i choice supported st)"
| "perm_apply (Ev_acknowledge i j success) st = snd (perm_acknowledge i j success st)"
| "perm_apply (Ev_observe i t full) st = snd (perm_observe i t full st)"
| "perm_apply (Ev_timeout j) st = snd (confirmed_timeout j st)"
| "perm_apply Ev_clear st = perm_clear st"
| "perm_apply Ev_poison st = st\<lparr> ps_poisoned := True \<rparr>"

inductive perm_step :: "parents \<Rightarrow> perm_system \<Rightarrow> perm_system \<Rightarrow> bool" for N where
  applied: "perm_step N y (y\<lparr> pm_state := perm_apply e (pm_state y) \<rparr>)"
| started: "contains_start t (pm_state y) = Inr w \<Longrightarrow>
    perm_step N y (y\<lparr> pm_tasks := w # pm_tasks y \<rparr>)"
| visited: "Visit w \<in> set (pm_tasks y) \<Longrightarrow> contains_visit w (pm_state y) = Inr w' \<Longrightarrow>
    perm_step N y (y\<lparr> pm_tasks := w' # remove1 (Visit w) (pm_tasks y) \<rparr>)"
| replied: "Ask w \<in> set (pm_tasks y) \<Longrightarrow> contains_reply w (N (wk_current w)) = Inr w' \<Longrightarrow>
    perm_step N y (y\<lparr> pm_tasks := w' # remove1 (Ask w) (pm_tasks y) \<rparr>)"
| finished: "Reached w \<in> set (pm_tasks y) \<Longrightarrow>
    perm_step N y (y\<lparr> pm_state := snd (contains_finish ids w (pm_state y)),
      pm_tasks := remove1 (Reached w) (pm_tasks y) \<rparr>)"

text \<open>The native ancestry, and the invariant: the grant is the session's own, a child's
  grant is for a thread that descends from the session's thread, and a walk's path
  leads to where the walk is.\<close>

definition parent_of :: "parents \<Rightarrow> string \<Rightarrow> string \<Rightarrow> bool" where
  "parent_of N t p \<longleftrightarrow> N t = Inr (Some p)"

definition descends :: "parents \<Rightarrow> string \<Rightarrow> string \<Rightarrow> bool" where
  "descends N = (parent_of N)\<^sup>*\<^sup>*"

definition perm_ok :: "parents \<Rightarrow> PermState \<Rightarrow> bool" where
  "perm_ok N st \<longleftrightarrow>
     (\<forall>g. ps_grant st = Some g \<longrightarrow> perm_channel g = ps_channel st \<and> perm_thread g = ps_thread st)
     \<and> (\<forall>t g. ps_children st t = Some g \<longrightarrow>
          perm_channel g = ps_channel st \<and> perm_thread g = t \<and> descends N t (ps_thread st))"

fun task_ok :: "parents \<Rightarrow> Walk_Step \<Rightarrow> bool" where
  "task_ok N (Visit w) = (\<forall>t\<in>set (wk_path w). descends N t (wk_current w))"
| "task_ok N (Ask w) = (\<forall>t\<in>set (wk_path w). descends N t (wk_current w))"
| "task_ok N (Reached w) = (\<forall>t\<in>set (wk_path w). descends N t (wk_root w))"
| "task_ok N (Answer b) = True"

definition perm_inv :: "parents \<Rightarrow> perm_system \<Rightarrow> bool" where
  "perm_inv N y \<longleftrightarrow> perm_ok N (pm_state y) \<and> (\<forall>w\<in>set (pm_tasks y). task_ok N w)"

lemma descends_refl [simp]: "descends N t t"
  by (simp add: descends_def)

lemma descends_trans: "descends N a b \<Longrightarrow> descends N b c \<Longrightarrow> descends N a c"
  unfolding descends_def by (rule rtranclp_trans)

lemma perm_ok_default [simp]: "perm_ok N PermState_default"
  by (simp add: perm_ok_def PermState_default_def)

lemma perm_ok_update [simp]:
  "perm_ok N (st\<lparr> ps_pending := p \<rparr>) \<longleftrightarrow> perm_ok N st"
  "perm_ok N (st\<lparr> ps_native := n \<rparr>) \<longleftrightarrow> perm_ok N st"
  "perm_ok N (st\<lparr> ps_poisoned := b \<rparr>) \<longleftrightarrow> perm_ok N st"
  by (simp_all add: perm_ok_def)

lemma perm_ok_drop: "perm_ok N st \<Longrightarrow> perm_ok N (st\<lparr> ps_grant := None \<rparr>)"
  by (simp add: perm_ok_def)

lemma perm_ok_commit: "perm_ok N st \<Longrightarrow> perm_ok N (perm_commit i st)"
  by (auto simp: perm_commit_def perm_ok_def state_grant_def split: option.splits)

lemma add_children_ok:
  assumes "\<And>t g. m t = Some g \<Longrightarrow> perm_channel g = c \<and> perm_thread g = t \<and> descends N t r"
    and "\<And>t n. (t, n) \<in> set path \<Longrightarrow> descends N t r"
    and "add_children ids c path m t = Some g"
  shows "perm_channel g = c \<and> perm_thread g = t \<and> descends N t r"
  using assms
proof (induction path arbitrary: m)
  case Nil
  then show ?case by (simp add: add_children_def)
next
  case (Cons p path)
  obtain child n where p: "p = (child, n)" by fastforce
  let ?m = "if m child = None
     then m(child \<mapsto> \<lparr> perm_id = ids n, perm_channel = c, perm_thread = child \<rparr>) else m"
  have 1: "add_children ids c path ?m t = Some g"
    using Cons.prems(3) by (simp add: add_children_def p)
  have 2: "perm_channel g = c \<and> perm_thread g = t \<and> descends N t r" if "?m t = Some g" for t g
    using that Cons.prems(1,2) by (auto simp: p split: if_splits)
  show ?case by (rule Cons.IH [OF 2 _ 1]) (use Cons.prems(2) in auto)
qed

lemma perm_ok_methods:
  assumes "perm_ok N st"
  shows "perm_ok N (snd (perm_restore i c t full st))" "perm_ok N (snd (perm_attach n st))"
    and "perm_ok N (snd (perm_begin i choice supported st))"
    and "perm_ok N (snd (perm_acknowledge i j success st))"
    and "perm_ok N (snd (perm_observe i t full st))"
    and "perm_ok N (snd (confirmed_timeout j st))" "perm_ok N (perm_clear st)"
proof -
  show "perm_ok N (snd (perm_restore i c t full st))"
    using assms by (simp add: perm_restore_def locked_def Let_def)
      (auto simp: perm_ok_def PermState_default_def state_grant_def)
  show "perm_ok N (snd (perm_attach n st))" using assms by (simp add: perm_attach_def locked_def)
  show "perm_ok N (snd (perm_begin i choice supported st))"
    using assms by (auto simp: perm_begin_def locked_def Let_def perm_ok_drop split: option.splits)
  show "perm_ok N (snd (perm_acknowledge i j success st))"
    using assms by (auto simp: perm_acknowledge_def locked_def Let_def intro!: perm_ok_commit
        split: option.splits)
  show "perm_ok N (snd (perm_observe i t full st))"
    using assms by (auto simp: perm_observe_def locked_def Let_def perm_ok_drop intro!: perm_ok_commit
        split: option.splits)
  show "perm_ok N (snd (confirmed_timeout j st))"
    using assms by (simp add: confirmed_timeout_def locked_def)
  show "perm_ok N (perm_clear st)" using assms by (simp add: perm_clear_def)
qed

lemma contains_finish_ok:
  assumes "perm_ok N st" "task_ok N (Reached w)"
  shows "perm_ok N (snd (contains_finish ids w st))"
proof (cases "ps_poisoned st \<or> \<not> same_session w st")
  case True
  then show ?thesis using assms(1) by (auto simp: contains_finish_def locked_def)
next
  case False
  then have s: "ps_channel st = wk_channel w" "ps_thread st = wk_root w" by (auto simp: same_session_def)
  let ?path = "zip (wk_path w) [0..<length (wk_path w)]"
  have kids: "perm_channel g = wk_channel w \<and> perm_thread g = t \<and> descends N t (wk_root w)"
    if "ps_children st t = Some g" for t g
    using assms(1) that s unfolding perm_ok_def by metis
  have path: "descends N t (wk_root w)" if "(t, n) \<in> set ?path" for t n
    using assms(2) set_zip_leftD [OF that] by simp
  have "perm_channel g = ps_channel st \<and> perm_thread g = t \<and> descends N t (ps_thread st)"
    if "add_children ids (wk_channel w) ?path (ps_children st) t = Some g" for t g
    using add_children_ok [OF kids path that] s by simp
  then have "perm_ok N (st\<lparr> ps_children := add_children ids (wk_channel w)
      (zip (wk_path w) [0..<length (wk_path w)]) (ps_children st) \<rparr>)"
    using assms(1) unfolding perm_ok_def by simp
  then show ?thesis using False by (simp add: contains_finish_def locked_def)
qed

lemma contains_visit_ok:
  assumes "perm_ok N st" "task_ok N (Visit w)" "contains_visit w st = Inr w'"
  shows "task_ok N w'"
  using assms unfolding contains_visit_def same_session_def perm_ok_def
  by (auto split: if_splits) (metis descends_trans)

lemma contains_reply_ok:
  assumes "task_ok N (Ask w)" "contains_reply w (N (wk_current w)) = Inr w'"
  shows "task_ok N w'"
proof (cases "N (wk_current w)")
  case (Inl f)
  then show ?thesis using assms by (simp add: contains_reply_def)
next
  case (Inr p)
  show ?thesis
  proof (cases p)
    case None
    then show ?thesis using assms Inr by (auto simp: contains_reply_def)
  next
    case (Some q)
    then have "descends N (wk_current w) q" using Inr by (auto simp: descends_def parent_of_def)
    then show ?thesis using assms Inr Some
      by (auto simp: contains_reply_def) (metis descends_trans)
  qed
qed

lemma perm_ok_apply: "perm_ok N st \<Longrightarrow> perm_ok N (perm_apply e st)"
  by (cases e) (simp_all add: perm_ok_methods)

lemma perm_step_inv: "perm_step N y y' \<Longrightarrow> perm_inv N y \<Longrightarrow> perm_inv N y'"
proof (induction rule: perm_step.induct)
  case (started t y w)
  then show ?case by (auto simp: perm_inv_def contains_start_def split: if_splits)
next
  case (visited w y w')
  then show ?case
    by (auto simp: perm_inv_def dest: notin_set_remove1 intro: contains_visit_ok)
next
  case (replied w y w')
  then show ?case
    by (auto simp: perm_inv_def dest: notin_set_remove1 intro: contains_reply_ok)
next
  case (finished w y ids)
  then show ?case
    by (auto simp: perm_inv_def dest: notin_set_remove1 intro!: contains_finish_ok)
qed (auto simp: perm_inv_def perm_ok_apply)

definition perm_start :: perm_system where
  "perm_start = \<lparr> pm_state = PermState_default, pm_tasks = [] \<rparr>"

lemma perm_reach_inv: "(perm_step N)\<^sup>*\<^sup>* perm_start y \<Longrightarrow> perm_inv N y"
proof (induction rule: rtranclp_induct)
  case base
  show ?case by (simp add: perm_start_def perm_inv_def)
next
  case (step y z)
  then show ?case using perm_step_inv by blast
qed

text \<open>C5: whatever the interleaving of a session's permission changes with the ancestry
  questions, an authorization is only ever issued while Full Access is granted, for the
  session's own channel, and, for a process, for the session's thread or one that the
  native backend reports as its descendant.\<close>

theorem authorization_in_scope:
  assumes reach: "(perm_step N)\<^sup>*\<^sup>* perm_start y"
    and auth: "authorization message answer st (pm_state y) = Inr (Some g)"
  shows "ps_grant (pm_state y) \<noteq> None \<and> permissions_match g (ps_channel (pm_state y)) message
    \<and> descends N (perm_thread g) (ps_thread (pm_state y))
    \<and> (\<forall>t. start_thread message = Some t \<longrightarrow> perm_thread g = t)"
proof -
  let ?st = "pm_state y"
  have ok: "perm_ok N ?st" using perm_reach_inv [OF reach] by (simp add: perm_inv_def)
  have a: "authorization_grant message ?st = Inr (Some g)"
    using auth by (auto simp: authorization_def split: option.splits sum.splits bool.splits)
  then have granted: "ps_grant ?st \<noteq> None" and m: "permissions_match g (ps_channel ?st) message"
    by (auto simp: authorization_grant_def Let_def split: if_splits option.splits)
  have "descends N (perm_thread g) (ps_thread ?st)"
    using a ok by (auto simp: authorization_grant_def Let_def perm_ok_def split: if_splits option.splits)
  moreover have "perm_thread g = t" if "start_thread message = Some t" for t
    using m that by (auto simp: permissions_match_def start_thread_def split: if_splits)
  ultimately show ?thesis using granted m by simp
qed

definition demo_start_message :: "string \<Rightarrow> json" where
  "demo_start_message t = JObj [(''method'', JStr ''process/start''),
     (''params'', JObj [(''env'', JObj [(''CODEX_THREAD_ID'', JStr t)])])]"

lemma authorization_in_scope_witness:
  "descends (\<lambda>_. Inr None) ''root'' ''root''"
proof -
  let ?N = "\<lambda>_. Inr None"
  let ?y = "perm_start\<lparr> pm_state := snd (perm_restore ''id'' ''c'' ''root'' True PermState_default) \<rparr>"
  have step: "perm_step ?N perm_start ?y"
    using applied [of ?N perm_start "Ev_restore ''id'' ''c'' ''root'' True"] by (simp add: perm_start_def)
  then have reach: "(perm_step ?N)\<^sup>*\<^sup>* perm_start ?y" by (rule r_into_rtranclp)
  have a: "authorization (demo_start_message ''root'') (Inr True) (pm_state ?y) (pm_state ?y)
      = Inr (Some \<lparr> perm_id = ''id'', perm_channel = ''c'', perm_thread = ''root'' \<rparr>)"
    by code_simp
  have t: "ps_thread (pm_state ?y) = ''root''" by code_simp
  from authorization_in_scope [OF reach a] t show ?thesis by simp
qed

section \<open>Reduction and expansion\<close>

text \<open>What the events since a state must hold before Full Access may be granted: an expansion was
  begun, then the backend answered that very change, and, also after the expansion was begun, it
  reported Full Access for the session's thread; or a session was restored with Full Access.\<close>

definition expansion_begun :: "PermState \<Rightarrow> PermEvent list \<Rightarrow> string \<Rightarrow> string \<Rightarrow> PermEvent list \<Rightarrow> bool" where
  "expansion_begun st es k thread later \<longleftrightarrow>
    (\<exists>us. es = us @ Ev_begin k (Some True) True # later \<and> thread = ps_thread (fold perm_apply us st))"

definition answered :: "string \<Rightarrow> PermEvent list \<Rightarrow> bool" where
  "answered k es \<longleftrightarrow> (\<exists>i. Ev_acknowledge i k True \<in> set es)"

definition reported :: "string \<Rightarrow> PermEvent list \<Rightarrow> bool" where
  "reported thread es \<longleftrightarrow> (\<exists>i. Ev_observe i thread True \<in> set es)"

definition full_restored :: "PermEvent list \<Rightarrow> bool" where
  "full_restored es \<longleftrightarrow> (\<exists>i c t. Ev_restore i c t True \<in> set es)"

definition expansion_confirmed :: "PermState \<Rightarrow> PermEvent list \<Rightarrow> bool" where
  "expansion_confirmed st es \<longleftrightarrow>
    (\<exists>k thread later. expansion_begun st es k thread later \<and> answered k later \<and> reported thread later)"

text \<open>How the trace explains the state while nothing of this has happened: no grant, and what a
  pending expansion holds has been said since it was begun.\<close>

definition unconfirmed :: "PermState \<Rightarrow> PermEvent list \<Rightarrow> PermState \<Rightarrow> bool" where
  "unconfirmed st0 es st \<longleftrightarrow> ps_grant st = None
    \<and> (\<forall>c. ps_pending st = Some c \<and> chg_full c \<longrightarrow>
         (\<exists>later. expansion_begun st0 es (chg_id c) (ps_thread st) later
            \<and> (chg_acknowledged c \<longrightarrow> answered (chg_id c) later) \<and> (chg_observed c \<longrightarrow> reported (ps_thread st) later)))"

lemma begun_snoc: "expansion_begun st es k t later \<Longrightarrow> expansion_begun st (es @ [e]) k t (later @ [e])"
  by (auto simp: expansion_begun_def)

lemma begun_now: "thread = ps_thread (fold perm_apply es st) \<Longrightarrow>
    expansion_begun st (es @ [Ev_begin k (Some True) True]) k thread []"
  by (simp add: expansion_begun_def)

lemma said_snoc [simp]:
  "answered k (es @ [e]) \<longleftrightarrow> answered k es \<or> (\<exists>i. e = Ev_acknowledge i k True)"
  "reported t (es @ [e]) \<longleftrightarrow> reported t es \<or> (\<exists>i. e = Ev_observe i t True)"
  "full_restored (es @ [e]) \<longleftrightarrow> full_restored es \<or> (\<exists>i c t. e = Ev_restore i c t True)"
  by (auto simp: answered_def reported_def full_restored_def)

lemma confirmed_snoc: "expansion_confirmed st es \<Longrightarrow> expansion_confirmed st (es @ [e])"
  unfolding expansion_confirmed_def by (meson begun_snoc said_snoc)

text \<open>A state whose pending change is the same, or gone, or knows more because of the last event.\<close>

lemma unconfirmed_snoc:
  assumes "unconfirmed st0 es st" "ps_grant st' = None"
    and "\<And>c'. ps_pending st' = Some c' \<Longrightarrow> chg_full c' \<Longrightarrow>
      \<exists>c. ps_pending st = Some c \<and> chg_full c \<and> chg_id c' = chg_id c \<and> ps_thread st' = ps_thread st
        \<and> (chg_acknowledged c' \<longrightarrow> chg_acknowledged c \<or> (\<exists>i. e = Ev_acknowledge i (chg_id c) True))
        \<and> (chg_observed c' \<longrightarrow> chg_observed c \<or> (\<exists>i. e = Ev_observe i (ps_thread st) True))"
  shows "unconfirmed st0 (es @ [e]) st'"
  unfolding unconfirmed_def
proof (intro conjI allI impI)
  fix c' assume "ps_pending st' = Some c' \<and> chg_full c'"
  then obtain c where c: "ps_pending st = Some c" "chg_full c" "chg_id c' = chg_id c" "ps_thread st' = ps_thread st"
      "chg_acknowledged c' \<longrightarrow> chg_acknowledged c \<or> (\<exists>i. e = Ev_acknowledge i (chg_id c) True)"
      "chg_observed c' \<longrightarrow> chg_observed c \<or> (\<exists>i. e = Ev_observe i (ps_thread st) True)"
    using assms(3) by blast
  obtain later where later: "expansion_begun st0 es (chg_id c) (ps_thread st) later"
      "chg_acknowledged c \<longrightarrow> answered (chg_id c) later" "chg_observed c \<longrightarrow> reported (ps_thread st) later"
    using assms(1) c(1,2) unfolding unconfirmed_def by blast
  show "\<exists>later. expansion_begun st0 (es @ [e]) (chg_id c') (ps_thread st') later
      \<and> (chg_acknowledged c' \<longrightarrow> answered (chg_id c') later) \<and> (chg_observed c' \<longrightarrow> reported (ps_thread st') later)"
    using begun_snoc [OF later(1), of e] later(2,3) c(3-6) by (intro exI [of _ "later @ [e]"]) auto
qed (rule assms(2))

text \<open>A commit either changes nothing or has both confirmations.\<close>

lemma unconfirmed_commit:
  assumes "unconfirmed st0 es st"
  shows "unconfirmed st0 es (perm_commit i st) \<or> expansion_confirmed st0 es"
proof (cases "\<exists>c. ps_pending st = Some c \<and> chg_full c \<and> chg_acknowledged c \<and> chg_observed c")
  case True
  then show ?thesis using assms unfolding unconfirmed_def expansion_confirmed_def by blast
next
  case False
  then show ?thesis using assms by (auto simp: unconfirmed_def perm_commit_def split: option.split)
qed

lemma unconfirmed_apply:
  assumes "unconfirmed st0 es st" "st = fold perm_apply es st0"
  shows "unconfirmed st0 (es @ [e]) (perm_apply e st) \<or> expansion_confirmed st0 (es @ [e]) \<or> full_restored (es @ [e])"
proof (cases "ps_poisoned st")
  case True
  then have "perm_apply e st = st \<or> perm_apply e st = st\<lparr> ps_poisoned := True \<rparr> "
    by (cases e) (auto simp: perm_restore_def perm_attach_def perm_begin_def perm_acknowledge_def perm_observe_def
        confirmed_timeout_def perm_clear_def locked_def split: option.splits)
  then show ?thesis using assms(1) by (intro disjI1 unconfirmed_snoc [OF assms(1)]) (auto simp: unconfirmed_def)
next
  case alive: False
  have none: "ps_grant st = None" using assms(1) by (simp add: unconfirmed_def)
  show ?thesis
  proof (cases e)
    case (Ev_restore i c t full)
    then show ?thesis
      by (cases full) (auto simp: unconfirmed_def perm_restore_def locked_def alive Let_def PermState_default_def)
  next
    case (Ev_begin i choice supported)
    consider "perm_apply e st = st" | full where "choice = Some full" "\<not> full \<or> supported" "ps_pending st = None"
    proof (cases "\<exists>full. choice = Some full \<and> (\<not> full \<or> supported) \<and> ps_pending st = None")
      case False
      then have "perm_apply e st = st"
        by (cases choice; cases "ps_pending st") (simp_all add: Ev_begin perm_begin_def locked_def alive)
      then show thesis by (rule that(1))
    qed (use that(2) in blast)
    then show ?thesis
    proof cases
      case 1
      then show ?thesis using none by (intro disjI1 unconfirmed_snoc [OF assms(1)]) auto
    next
      case 2
      have grantless: "st\<lparr> ps_grant := None \<rparr> = st" using none by (metis PermState.surjective PermState.update_convs(4))
      show ?thesis
      proof (cases full)
        case True
        have "expansion_begun st0 (es @ [e]) i (ps_thread st) []"
          using 2 True assms(2) by (simp add: Ev_begin begun_now)
        then show ?thesis using 2 True none
          by (intro disjI1) (simp add: unconfirmed_def Ev_begin perm_begin_def locked_def alive, blast)
      next
        case False
        then show ?thesis using 2 none
          by (intro disjI1) (simp add: unconfirmed_def Ev_begin perm_begin_def locked_def alive grantless)
      qed
    qed
  next
    case (Ev_acknowledge i j success)
    let ?st1 = "(case ps_pending st of
         Some c \<Rightarrow> if chg_id c = j then (if success then st\<lparr> ps_pending := Some (c\<lparr> chg_acknowledged := True \<rparr>) \<rparr>
             else st\<lparr> ps_pending := None \<rparr>) else st
       | None \<Rightarrow> st)"
    have "unconfirmed st0 (es @ [e]) ?st1"
      using none by (intro unconfirmed_snoc [OF assms(1)]) (auto simp: Ev_acknowledge split: option.splits if_splits)
    then show ?thesis using unconfirmed_commit [of st0 "es @ [e]" ?st1 i]
      by (auto simp: Ev_acknowledge perm_acknowledge_def locked_def alive Let_def)
  next
    case (Ev_observe i t full)
    show ?thesis
    proof (cases "t = ps_thread st")
      case True
      let ?st2 = "(case ps_pending st of
            Some c \<Rightarrow> if chg_full c = full then st\<lparr> ps_pending := Some (c\<lparr> chg_observed := True \<rparr>) \<rparr> else st
          | None \<Rightarrow> st)"
      have "unconfirmed st0 (es @ [e]) ?st2"
        using none True by (intro unconfirmed_snoc [OF assms(1)]) (auto simp: Ev_observe split: option.splits if_splits)
      moreover have "st\<lparr> ps_grant := None \<rparr> = st" using none by (metis PermState.surjective PermState.update_convs(4))
      moreover have "st\<lparr> ps_grant := None, ps_pending := p \<rparr> = st\<lparr> ps_pending := p \<rparr>" for p
        using calculation(2) by metis
      ultimately have "perm_apply e st = perm_commit i ?st2" "unconfirmed st0 (es @ [e]) ?st2"
        using True by (auto simp: Ev_observe perm_observe_def locked_def alive Let_def split: option.split)
      then show ?thesis using unconfirmed_commit [of st0 "es @ [e]" ?st2 i] by metis
    next
      case False
      then show ?thesis using none Ev_observe
        by (intro disjI1 unconfirmed_snoc [OF assms(1)]) (auto simp: perm_observe_def locked_def alive)
    qed
  qed (rule disjI1, (rule unconfirmed_snoc [OF assms(1)]; auto simp: none alive
      perm_attach_def confirmed_timeout_def perm_clear_def locked_def PermState_default_def split: if_splits))+
qed

lemma unconfirmed_run:
  assumes "unconfirmed st0 [] st0"
  shows "unconfirmed st0 es (fold perm_apply es st0) \<or> expansion_confirmed st0 es \<or> full_restored es"
proof (induction es rule: rev_induct)
  case (snoc e es)
  then show ?case using unconfirmed_apply [of st0 es _ e] confirmed_snoc by auto
qed (use assms in simp)



end
