(* ===== verification/Client_Approvals.thy ===== *)
theory Client_Approvals
  imports Adapter_Events Client_Permissions
begin

text \<open>
  Models \<open>client/src/local/approvals.rs\<close>: the approvals a session has been asked for
  and has accepted, each of which authorizes one execution.  Instants are naturals in
  nanoseconds; fresh identities are arguments.
\<close>

record ApprovalState =
  as_poisoned :: bool
  as_pending :: "(string, CommandApproval) btree"
  as_accepted :: "(nat \<times> CommandApproval) list"

definition ApprovalState_default :: ApprovalState where
  "ApprovalState_default = \<lparr> as_poisoned = False, as_pending = [], as_accepted = [] \<rparr>"

definition approval_invalid :: Fault where
  "approval_invalid = Fault_new ''INVALID_EXECUTION_APPROVAL''
     ''cannot bind this approval to a remote command''"

text \<open>A grant outlives a completion notice that names neither its item nor its turn.\<close>

definition survives :: "string option \<Rightarrow> string option \<Rightarrow> CommandApproval \<Rightarrow> bool" where
  "survives item turn grant \<longleftrightarrow> item \<noteq> Some (appr_item grant) \<and> turn \<noteq> Some (appr_turn grant)"

text \<open>\<open>contains\<close> is what the session's permissions answered for the approval's thread.\<close>

definition approvals_observe ::
  "string \<Rightarrow> Notice \<Rightarrow> string \<Rightarrow> string \<Rightarrow> Fault + bool \<Rightarrow> ApprovalState
    \<Rightarrow> (Fault + unit) \<times> ApprovalState" where
  "approvals_observe new_id seen environment channel contains st =
    (let update = (if as_poisoned st then (Inl approval_invalid, st)
       else (case seen of
          Notice_Completed item turn \<Rightarrow>
            (Inr (), st\<lparr> as_accepted := filter (\<lambda>(_, g). survives item turn g) (as_accepted st),
               as_pending := filter (\<lambda>(_, g). survives item turn g) (as_pending st) \<rparr>)
        | Notice_Approval a \<Rightarrow>
            if length (as_pending st) + length (as_accepted st) \<ge> 64 then (Inl approval_invalid, st)
            else (Inr (), st\<lparr> as_pending := bt_insert (apv_request_id a)
               \<lparr> appr_id = new_id, appr_channel = channel, appr_thread = apv_thread a,
                  appr_turn = apv_turn a, appr_item = apv_item a, appr_argv = apv_argv a,
                  appr_cwd = apv_cwd a \<rparr> (as_pending st) \<rparr>)
        | _ \<Rightarrow> (Inr (), st))) in
     case seen of
       Notice_Approval a \<Rightarrow>
         if apv_environment a \<noteq> environment then (Inl approval_invalid, st)
         else (case contains of
             Inl f \<Rightarrow> (Inl f, st)
           | Inr b \<Rightarrow> if \<not> b then (Inl approval_invalid, st) else update)
     | _ \<Rightarrow> update)"

definition approvals_respond ::
  "nat \<Rightarrow> string \<Rightarrow> bool \<Rightarrow> ApprovalState \<Rightarrow> (Fault + unit) \<times> ApprovalState" where
  "approvals_respond time i accepted st =
    (if as_poisoned st then (Inl approval_invalid, st)
     else (case bt_get (as_pending st) i of
         None \<Rightarrow> (Inr (), st)
       | Some grant \<Rightarrow>
           (Inr (), st\<lparr> as_pending := bt_remove i (as_pending st),
              as_accepted := (if accepted then as_accepted st @ [(time, grant)] else as_accepted st) \<rparr>)))"

definition grant_lifetime :: nat where
  "grant_lifetime = 60 * 1000000000"

text \<open>\<open>iter().position\<close> and \<open>remove\<close>: the first match and the list without it.\<close>

fun take_first :: "('a \<Rightarrow> bool) \<Rightarrow> 'a list \<Rightarrow> ('a \<times> 'a list) option" where
  "take_first p [] = None"
| "take_first p (x # xs) =
    (if p x then Some (x, xs) else map_option (\<lambda>(y, ys). (y, x # ys)) (take_first p xs))"

definition approvals_take ::
  "nat \<Rightarrow> json \<Rightarrow> ApprovalState \<Rightarrow> (Fault + CommandApproval option) \<times> ApprovalState" where
  "approvals_take time message st =
    (if as_poisoned st then (Inl approval_invalid, st)
     else
       let live = filter (\<lambda>(t, _). time - t < grant_lifetime) (as_accepted st) in
       (case take_first (\<lambda>(_, g). approval_matches g message) live of
          None \<Rightarrow> (Inr None, st\<lparr> as_accepted := live \<rparr>)
        | Some ((_, g), rest) \<Rightarrow> (Inr (Some g), st\<lparr> as_accepted := rest \<rparr>)))"

definition approvals_clear :: "ApprovalState \<Rightarrow> ApprovalState" where
  "approvals_clear st = (if as_poisoned st then st else ApprovalState_default)"

section \<open>One command per approval\<close>

text \<open>The calls of a session on its approvals, in the order their locked sections run.  A
  fresh identity is drawn for every observed approval, and \<open>ah_taken\<close> records what
  \<open>take\<close> handed out; \<open>ah_asked\<close> the approvals that were observed in the session's scope,
  and \<open>ah_accepted\<close> the identities accepted by the user.\<close>

datatype ApprovalEvent =
  Saw Notice string string "Fault + bool"
| Answered nat string bool
| Took nat json
| Cleared_Approvals

record approval_history =
  ah_state :: ApprovalState
  ah_drawn :: nat
  ah_asked :: "(CommandApproval \<times> string) list"
  ah_accepted :: "(nat \<times> string) list"
  ah_taken :: "(nat \<times> json \<times> CommandApproval) list"

definition approval_start :: approval_history where
  "approval_start = \<lparr> ah_state = ApprovalState_default, ah_drawn = 0, ah_asked = [], ah_accepted = [],
     ah_taken = [] \<rparr>"

fun approval_apply :: "(nat \<Rightarrow> string) \<Rightarrow> ApprovalEvent \<Rightarrow> approval_history \<Rightarrow> approval_history" where
  "approval_apply uuid (Saw n environment channel contains) h =
    (let (r, st) = approvals_observe (uuid (ah_drawn h)) n environment channel contains (ah_state h) in
     h\<lparr> ah_state := st, ah_drawn := Suc (ah_drawn h),
        ah_asked := (case n of
            Notice_Approval a \<Rightarrow>
              if r = Inr () then ah_asked h @ [(\<lparr> appr_id = uuid (ah_drawn h), appr_channel = channel,
                appr_thread = apv_thread a, appr_turn = apv_turn a, appr_item = apv_item a,
                appr_argv = apv_argv a, appr_cwd = apv_cwd a \<rparr>, apv_request_id a)] else ah_asked h
          | _ \<Rightarrow> ah_asked h) \<rparr>)"
| "approval_apply uuid (Answered time i accepted) h =
    h\<lparr> ah_state := snd (approvals_respond time i accepted (ah_state h)),
       ah_accepted := (case bt_get (as_pending (ah_state h)) i of
           Some g \<Rightarrow> if accepted \<and> \<not> as_poisoned (ah_state h) then ah_accepted h @ [(time, appr_id g)]
             else ah_accepted h
         | None \<Rightarrow> ah_accepted h) \<rparr>"
| "approval_apply uuid (Took time message) h =
    (let (r, st) = approvals_take time message (ah_state h) in
     h\<lparr> ah_state := st, ah_taken := (case r of
         Inr (Some g) \<Rightarrow> ah_taken h @ [(time, message, g)] | _ \<Rightarrow> ah_taken h) \<rparr>)"
| "approval_apply uuid Cleared_Approvals h = h\<lparr> ah_state := approvals_clear (ah_state h) \<rparr>"

text \<open>Every identity stands for one observed approval, in one place: pending, accepted, or
  already taken.\<close>

definition approval_ids :: "approval_history \<Rightarrow> string list" where
  "approval_ids h = map (appr_id \<circ> snd) (as_pending (ah_state h))
     @ map (appr_id \<circ> snd) (as_accepted (ah_state h)) @ map (appr_id \<circ> snd \<circ> snd) (ah_taken h)"

definition pending_ok :: "approval_history \<Rightarrow> (string \<times> CommandApproval) list \<Rightarrow> bool" where
  "pending_ok h = list_all (\<lambda>(i, g). (g, i) \<in> set (ah_asked h))"

definition accepted_ok :: "approval_history \<Rightarrow> (nat \<times> CommandApproval) list \<Rightarrow> bool" where
  "accepted_ok h = list_all (\<lambda>(t, g).
     g \<in> fst ` set (ah_asked h) \<and> (t, appr_id g) \<in> set (ah_accepted h))"

definition taken_ok :: "approval_history \<Rightarrow> (nat \<times> json \<times> CommandApproval) list \<Rightarrow> bool" where
  "taken_ok h = list_all (\<lambda>(t, m, g). g \<in> fst ` set (ah_asked h) \<and> approval_matches g m
     \<and> (\<exists>t0. (t0, appr_id g) \<in> set (ah_accepted h) \<and> t - t0 < grant_lifetime))"

definition approval_inv :: "(nat \<Rightarrow> string) \<Rightarrow> approval_history \<Rightarrow> bool" where
  "approval_inv uuid h \<longleftrightarrow>
     bt_sorted (as_pending (ah_state h))
     \<and> length (as_pending (ah_state h)) + length (as_accepted (ah_state h)) \<le> 64
     \<and> distinct (approval_ids h) \<and> set (approval_ids h) \<subseteq> uuid ` {..<ah_drawn h}
     \<and> pending_ok h (as_pending (ah_state h)) \<and> accepted_ok h (as_accepted (ah_state h))
     \<and> taken_ok h (ah_taken h)"

lemma history_ok_mono:
  assumes "set (ah_asked h) \<subseteq> set (ah_asked h')" "set (ah_accepted h) \<subseteq> set (ah_accepted h')"
  shows "pending_ok h ps \<Longrightarrow> pending_ok h' ps" "accepted_ok h gs \<Longrightarrow> accepted_ok h' gs"
    and "taken_ok h ts \<Longrightarrow> taken_ok h' ts"
  using assms unfolding pending_ok_def accepted_ok_def taken_ok_def
  by (auto elim!: list.pred_mono_strong)

lemma history_ok_subset:
  "pending_ok h ps \<Longrightarrow> set ps' \<subseteq> set ps \<Longrightarrow> pending_ok h ps'"
  "accepted_ok h gs \<Longrightarrow> set gs' \<subseteq> set gs \<Longrightarrow> accepted_ok h gs'"
  unfolding pending_ok_def accepted_ok_def by (auto simp: list_all_iff)

lemma history_ok_append:
  "pending_ok h (ps @ ps') \<longleftrightarrow> pending_ok h ps \<and> pending_ok h ps'"
  "accepted_ok h (gs @ gs') \<longleftrightarrow> accepted_ok h gs \<and> accepted_ok h gs'"
  "taken_ok h (ts @ ts') \<longleftrightarrow> taken_ok h ts \<and> taken_ok h ts'"
  by (simp_all add: pending_ok_def accepted_ok_def taken_ok_def)

lemma history_ok_single:
  "pending_ok h (p # ps) \<longleftrightarrow> (snd p, fst p) \<in> set (ah_asked h) \<and> pending_ok h ps"
  "accepted_ok h ((t, g) # gs) \<longleftrightarrow> g \<in> fst ` set (ah_asked h) \<and> (t, appr_id g) \<in> set (ah_accepted h)
     \<and> accepted_ok h gs"
  "taken_ok h ((t, m, g) # ts) \<longleftrightarrow> g \<in> fst ` set (ah_asked h) \<and> approval_matches g m
     \<and> (\<exists>t0. (t0, appr_id g) \<in> set (ah_accepted h) \<and> t - t0 < grant_lifetime) \<and> taken_ok h ts"
  "pending_ok h []" "accepted_ok h []" "taken_ok h []"
  by (simp_all add: pending_ok_def accepted_ok_def taken_ok_def split: prod.split)

lemmas history_ok_simps = history_ok_append history_ok_single

lemma history_ok_fields [simp]:
  "pending_ok (h\<lparr> ah_state := st \<rparr>) = pending_ok h" "accepted_ok (h\<lparr> ah_state := st \<rparr>) = accepted_ok h"
  "taken_ok (h\<lparr> ah_state := st \<rparr>) = taken_ok h"
  "pending_ok (h\<lparr> ah_taken := ts \<rparr>) = pending_ok h" "accepted_ok (h\<lparr> ah_taken := ts \<rparr>) = accepted_ok h"
  "taken_ok (h\<lparr> ah_taken := ts \<rparr>) = taken_ok h"
  "pending_ok (h\<lparr> ah_drawn := n \<rparr>) = pending_ok h" "accepted_ok (h\<lparr> ah_drawn := n \<rparr>) = accepted_ok h"
  "taken_ok (h\<lparr> ah_drawn := n \<rparr>) = taken_ok h"
  by (simp_all add: pending_ok_def accepted_ok_def taken_ok_def)

lemma take_first_Some:
  "take_first p xs = Some (x, ys) \<Longrightarrow> \<exists>as bs. xs = as @ x # bs \<and> ys = as @ bs \<and> p x"
proof (induction xs arbitrary: ys)
  case Nil
  then show ?case by simp
next
  case (Cons y xs)
  show ?case
  proof (cases "p y")
    case True
    then show ?thesis using Cons.prems by (intro exI [of _ "[]"] exI [of _ xs]) auto
  next
    case False
    then obtain zs where "take_first p xs = Some (x, zs)" "ys = y # zs"
      using Cons.prems by auto
    then show ?thesis using Cons.IH by (metis append_Cons)
  qed
qed

lemma bt_remove_filter: "bt_sorted m \<Longrightarrow> bt_remove k m = filter (\<lambda>p. fst p \<noteq> k) m"
proof (induction m)
  case Nil
  then show ?case by simp
next
  case (Cons p m)
  obtain k' v where p: "p = (k', v)" by fastforce
  show ?case
  proof (cases "k = k'")
    case True
    then have "\<forall>q\<in>set m. fst q \<noteq> k" using Cons.prems by (auto simp: p)
    then have "filter (\<lambda>p. fst p \<noteq> k) m = m" by (simp add: filter_id_conv)
    then show ?thesis using True p by simp
  next
    case False
    then show ?thesis using Cons by (simp add: p)
  qed
qed

lemma bt_insert_split:
  "\<exists>as bs cs. m = as @ cs @ bs \<and> bt_insert k v m = as @ (k, v) # bs \<and> length cs \<le> 1"
proof (induction m)
  case Nil
  then show ?case by simp
next
  case (Cons p m)
  obtain k' v' where p: "p = (k', v')" by fastforce
  from Cons obtain as bs cs where m: "m = as @ cs @ bs" "bt_insert k v m = as @ (k, v) # bs" "length cs \<le> 1"
    by blast
  consider "k < k'" | "k = k'" | "k > k'" by (rule linorder_cases)
  then show ?case
  proof cases
    case 1
    then show ?thesis by (intro exI [of _ "[]"] exI [of _ "p # m"]) (simp add: p)
  next
    case 2
    then show ?thesis by (intro exI [of _ "[]"] exI [of _ m] exI [of _ "[p]"]) (simp add: p)
  next
    case 3
    then show ?thesis using m by (intro exI [of _ "p # as"] exI [of _ bs] exI [of _ cs]) (auto simp: p)
  qed
qed

lemma approval_ids_fewer:
  assumes inv: "approval_inv uuid h" and st: "st = ah_state h"
    and pending: "as_pending st' = filter P (as_pending st)"
    and accepted: "as_accepted st' = filter Q (as_accepted st)"
  shows "approval_inv uuid (h\<lparr> ah_state := st' \<rparr>)"
proof -
  have sorted: "bt_sorted (as_pending st')"
    using inv unfolding st pending approval_inv_def bt_sorted_def
    by (metis sorted_wrt_filter sorted_wrt_map)
  have "length (as_pending st') + length (as_accepted st') \<le> 64"
    using inv length_filter_le [of P "as_pending st"] length_filter_le [of Q "as_accepted st"]
    unfolding pending accepted approval_inv_def st by linarith
  moreover have "distinct (approval_ids (h\<lparr> ah_state := st' \<rparr>))"
    using inv unfolding approval_inv_def approval_ids_def st
    by (auto simp: pending accepted st distinct_map_filter)
  moreover have "set (approval_ids (h\<lparr> ah_state := st' \<rparr>)) \<subseteq> uuid ` {..<ah_drawn h}"
    using inv unfolding approval_inv_def approval_ids_def by (auto simp: pending accepted st)
  moreover have "pending_ok h (as_pending st')" "accepted_ok h (as_accepted st')" "taken_ok h (ah_taken h)"
    using inv history_ok_subset [of h] unfolding approval_inv_def pending accepted st
    by (meson filter_is_subset)+
  ultimately show ?thesis using sorted unfolding approval_inv_def by simp
qed

lemma approval_inv_respond:
  assumes inv: "approval_inv uuid h"
  shows "approval_inv uuid (approval_apply uuid (Answered time i accepted) h)"
proof (cases "as_poisoned (ah_state h) \<or> bt_get (as_pending (ah_state h)) i = None")
  case True
  then show ?thesis using inv
    by (auto simp: approvals_respond_def approval_inv_def approval_ids_def split: option.splits)
next
  case False
  then obtain g where g: "bt_get (as_pending (ah_state h)) i = Some g" and p: "\<not> as_poisoned (ah_state h)"
    by blast
  have sorted: "bt_sorted (as_pending (ah_state h))" using inv by (simp add: approval_inv_def)
  obtain xs ys where xs: "as_pending (ah_state h) = xs @ (i, g) # ys"
    using bt_get_Some_set [OF g] by (meson split_list)
  have rem: "bt_remove i (as_pending (ah_state h)) = xs @ ys"
  proof -
    have "distinct (map fst (as_pending (ah_state h)))"
      using sorted by (simp add: bt_sorted_def strict_sorted_iff)
    then have "filter (\<lambda>p. fst p \<noteq> i) (as_pending (ah_state h)) = xs @ ys"
      unfolding xs by (auto simp: filter_id_conv intro!: arg_cong2 [where f = append])
    then show ?thesis using bt_remove_filter [OF sorted] by simp
  qed
  show ?thesis
  proof (cases accepted)
    case True
    let ?h = "h\<lparr> ah_accepted := ah_accepted h @ [(time, appr_id g)] \<rparr>"
    have sub: "set (ah_asked h) \<subseteq> set (ah_asked ?h)" "set (ah_accepted h) \<subseteq> set (ah_accepted ?h)" by auto
    have "pending_ok h (xs @ (i, g) # ys)" "accepted_ok h (as_accepted (ah_state h))" "taken_ok h (ah_taken h)"
      using inv by (simp_all add: approval_inv_def xs)
    then have ok: "pending_ok ?h (xs @ ys)" "accepted_ok ?h (as_accepted (ah_state h) @ [(time, g)])"
      "taken_ok ?h (ah_taken h)"
      using history_ok_mono [OF sub] by (auto simp: history_ok_simps intro: rev_image_eqI)
    have "approval_apply uuid (Answered time i accepted) h = ?h\<lparr> ah_state := (ah_state h)\<lparr>
        as_pending := xs @ ys, as_accepted := as_accepted (ah_state h) @ [(time, g)] \<rparr> \<rparr>"
      using True p g rem by (simp add: approvals_respond_def)
    moreover have "bt_sorted (xs @ ys)" using sorted rem by (metis bt_sorted_remove)
    ultimately show ?thesis using inv ok
      by (auto simp: approval_inv_def approval_ids_def xs)
  next
    case no: False
    have "approval_inv uuid (h\<lparr> ah_state := snd (approvals_respond time i accepted (ah_state h)) \<rparr>)"
      by (rule approval_ids_fewer [OF inv refl, where P = "\<lambda>p. fst p \<noteq> i" and Q = "\<lambda>_. True"])
        (use no p g bt_remove_filter [OF sorted] in \<open>simp_all add: approvals_respond_def\<close>)
    then show ?thesis using no g by simp
  qed
qed

lemma approval_inv_take:
  assumes inv: "approval_inv uuid h"
  shows "approval_inv uuid (approval_apply uuid (Took time message) h)"
proof (cases "as_poisoned (ah_state h)")
  case True
  then show ?thesis using inv by (simp add: approvals_take_def)
next
  case False
  let ?live = "filter (\<lambda>(t, _). time - t < grant_lifetime) (as_accepted (ah_state h))"
  let ?h = "h\<lparr> ah_state := (ah_state h)\<lparr> as_accepted := ?live \<rparr> \<rparr>"
  have live: "approval_inv uuid ?h"
    by (rule approval_ids_fewer [OF inv refl, where P = "\<lambda>_. True"]) simp_all
  show ?thesis
  proof (cases "take_first (\<lambda>(_, g). approval_matches g message) ?live")
    case None
    then show ?thesis using live False by (simp add: approvals_take_def Let_def)
  next
    case (Some found)
    obtain t0 g rest where found: "found = ((t0, g), rest)" by (metis prod.collapse)
    obtain xs ys where xs: "?live = xs @ (t0, g) # ys" "rest = xs @ ys" "approval_matches g message"
      using take_first_Some [OF Some [unfolded found]] by auto
    have "(t0, g) \<in> set ?live" unfolding xs(1) by simp
    then have fresh: "time - t0 < grant_lifetime" by simp
    show ?thesis using live False Some fresh xs(3) unfolding approval_inv_def approval_ids_def
      by (auto simp: approvals_take_def Let_def found xs(1,2) history_ok_simps)
  qed
qed

lemma approval_inv_saw:
  assumes inv: "approval_inv uuid h" and inj: "inj uuid"
  shows "approval_inv uuid (approval_apply uuid (Saw n environment channel contains) h)"
proof -
  let ?new = "uuid (ah_drawn h)"
  obtain r st where run: "approvals_observe ?new n environment channel contains (ah_state h) = (r, st)"
    by fastforce
  have sub: "uuid ` {..<ah_drawn h} \<subseteq> uuid ` {..<Suc (ah_drawn h)}" by auto
  have drawn: "approval_inv uuid (h'\<lparr> ah_drawn := Suc (ah_drawn h) \<rparr>)"
    if "approval_inv uuid h'" "ah_drawn h' = ah_drawn h" for h'
    using that sub by (auto simp: approval_inv_def approval_ids_def)
  show ?thesis
  proof (cases "\<exists>a. n = Notice_Approval a \<and> r = Inr ()")
    case False
    have asked: "(case n of
            Notice_Approval a \<Rightarrow>
              if r = Inr () then ah_asked h @ [(\<lparr> appr_id = ?new, appr_channel = channel,
                appr_thread = apv_thread a, appr_turn = apv_turn a, appr_item = apv_item a,
                appr_argv = apv_argv a, appr_cwd = apv_cwd a \<rparr>, apv_request_id a)] else ah_asked h
          | _ \<Rightarrow> ah_asked h) = ah_asked h" using False by (auto split: Notice.split)
    have "\<exists>P Q. as_pending st = filter P (as_pending (ah_state h)) \<and> as_accepted st = filter Q (as_accepted (ah_state h))"
    proof (cases "st = ah_state h")
      case True
      then show ?thesis by (intro exI [of _ "\<lambda>_. True"]) simp
    next
      case changed: False
      then obtain item turn where "as_accepted st = filter (\<lambda>(_, g). survives item turn g) (as_accepted (ah_state h))"
          "as_pending st = filter (\<lambda>(_, g). survives item turn g) (as_pending (ah_state h))"
        using run False by (auto simp: approvals_observe_def Let_def split: Notice.splits if_splits sum.splits)
      then show ?thesis by blast
    qed
    then have "approval_inv uuid (h\<lparr> ah_state := st \<rparr>)" using approval_ids_fewer [OF inv refl] by blast
    from drawn [OF this] show ?thesis by (simp add: run asked)
  next
    case True
    then obtain a where n: "n = Notice_Approval a" and r: "r = Inr ()" by blast
    let ?g = "\<lparr> appr_id = ?new, appr_channel = channel, appr_thread = apv_thread a, appr_turn = apv_turn a,
        appr_item = apv_item a, appr_argv = apv_argv a, appr_cwd = apv_cwd a \<rparr>"
    have st: "st = (ah_state h)\<lparr> as_pending := bt_insert (apv_request_id a) ?g (as_pending (ah_state h)) \<rparr>"
      and room: "length (as_pending (ah_state h)) + length (as_accepted (ah_state h)) < 64"
      using run n r by (auto simp: approvals_observe_def Let_def split: if_splits sum.splits)
    obtain as bs cs where ps: "as_pending (ah_state h) = as @ cs @ bs"
      and ins: "bt_insert (apv_request_id a) ?g (as_pending (ah_state h)) = as @ (apv_request_id a, ?g) # bs"
      using bt_insert_split [of "as_pending (ah_state h)" "apv_request_id a" ?g] by (elim exE conjE)
    have sorted: "bt_sorted (as @ (apv_request_id a, ?g) # bs)"
      using inv bt_sorted_insert unfolding approval_inv_def by (metis ins)
    let ?h = "h\<lparr> ah_asked := ah_asked h @ [(?g, apv_request_id a)] \<rparr>"
    have mono: "set (ah_asked h) \<subseteq> set (ah_asked ?h)" "set (ah_accepted h) \<subseteq> set (ah_accepted ?h)" by auto
    have "pending_ok h (as @ cs @ bs)" "accepted_ok h (as_accepted (ah_state h))" "taken_ok h (ah_taken h)"
      using inv by (simp_all add: approval_inv_def ps)
    then have ok: "pending_ok ?h (as @ (apv_request_id a, ?g) # bs)"
      "accepted_ok ?h (as_accepted (ah_state h))" "taken_ok ?h (ah_taken h)"
      using history_ok_mono [OF mono] by (auto simp: history_ok_simps)
    have new: "?new \<notin> uuid ` {..<ah_drawn h}" using inj by (auto dest: injD)
    have ids: "set (approval_ids h) \<subseteq> uuid ` {..<ah_drawn h}" "distinct (approval_ids h)"
      using inv by (simp_all add: approval_inv_def)
    let ?h' = "?h\<lparr> ah_state := st, ah_drawn := Suc (ah_drawn h) \<rparr>"
    let ?f = "appr_id \<circ> snd"
    let ?rest = "map ?f (as_accepted (ah_state h)) @ map (appr_id \<circ> snd \<circ> snd) (ah_taken h)"
    have old: "approval_ids h = (map ?f as @ map ?f cs) @ map ?f bs @ ?rest"
      by (simp add: approval_ids_def ps)
    have now: "approval_ids ?h' = map ?f as @ ?new # map ?f bs @ ?rest"
      by (simp add: approval_ids_def st ins)
    have "distinct (approval_ids ?h')" using ids new unfolding old now by auto
    moreover have "set (approval_ids ?h') \<subseteq> uuid ` {..<ah_drawn ?h'}"
      using ids(1) unfolding old now by (auto simp: lessThan_Suc)
    moreover have "bt_sorted (as_pending (ah_state ?h'))" using sorted by (simp add: st ins)
    moreover have "length (as_pending (ah_state ?h')) + length (as_accepted (ah_state ?h')) \<le> 64"
      using room ins ps by (simp add: st)
    moreover have "pending_ok ?h' (as_pending (ah_state ?h'))" "accepted_ok ?h' (as_accepted (ah_state ?h'))"
      "taken_ok ?h' (ah_taken ?h')" using ok by (simp_all add: st ins)
    moreover have "approval_apply uuid (Saw n environment channel contains) h = ?h'" using run r unfolding n by simp
    ultimately show ?thesis unfolding approval_inv_def by simp
  qed
qed

lemma approval_inv_step:
  assumes "approval_inv uuid h" "inj uuid"
  shows "approval_inv uuid (approval_apply uuid e h)"
proof (cases e)
  case (Saw n environment channel contains)
  then show ?thesis using approval_inv_saw [OF assms] by simp
next
  case (Answered time i accepted)
  then show ?thesis using approval_inv_respond [OF assms(1)] by simp
next
  case (Took time message)
  then show ?thesis using approval_inv_take [OF assms(1)] by simp
next
  case Cleared_Approvals
  have "approval_inv uuid (h\<lparr> ah_state := approvals_clear (ah_state h) \<rparr>)"
  proof (cases "as_poisoned (ah_state h)")
    case True
    then show ?thesis using assms(1) by (simp add: approvals_clear_def)
  next
    case False
    then show ?thesis
      by (intro approval_ids_fewer [OF assms(1) refl, where P = "\<lambda>_. False" and Q = "\<lambda>_. False"])
        (simp_all add: approvals_clear_def ApprovalState_default_def)
  qed
  then show ?thesis using Cleared_Approvals by simp
qed

lemma approval_inv_run: "approval_inv uuid h \<Longrightarrow> inj uuid \<Longrightarrow> approval_inv uuid (fold (approval_apply uuid) es h)"
  by (induction es arbitrary: h) (simp_all add: approval_inv_step)

text \<open>C3: an approval authorizes at most one command.  Through any sequence of notices,
  answers, executions and resets, the approvals handed out are pairwise distinct; each
  was asked for, was accepted by the user less than a minute before, and matches the
  command it is handed to; and never more than 64 are outstanding.\<close>

theorem approvals_single_use:
  assumes inj: "inj uuid"
    and h: "h = fold (approval_apply uuid) es approval_start"
  shows "distinct (map (appr_id \<circ> snd \<circ> snd) (ah_taken h))
    \<and> length (as_pending (ah_state h)) + length (as_accepted (ah_state h)) \<le> 64
    \<and> (\<forall>(t, message, g)\<in>set (ah_taken h). g \<in> fst ` set (ah_asked h) \<and> approval_matches g message
         \<and> (\<exists>t0. (t0, appr_id g) \<in> set (ah_accepted h) \<and> t - t0 < grant_lifetime))"
proof -
  have "approval_inv uuid approval_start"
    by (simp add: approval_inv_def approval_start_def approval_ids_def ApprovalState_default_def history_ok_simps)
  then have "approval_inv uuid h" unfolding h by (rule approval_inv_run [OF _ inj])
  then show ?thesis unfolding approval_inv_def approval_ids_def taken_ok_def list_all_iff by simp
qed

definition demo_approval :: Approval where
  "demo_approval = \<lparr> apv_request_id = ''1'', apv_thread = ''t'', apv_environment = ''e'', apv_turn = ''u'',
     apv_item = ''i'', apv_argv = [''ls''], apv_cwd = ''/w'' \<rparr>"

definition demo_command :: json where
  "demo_command = JObj [(''method'', JStr ''process/start''), (''params'', JObj [(''argv'', JArr [JStr ''ls'']),
     (''cwd'', JStr ''/w''), (''env'', JObj [(''CODEX_THREAD_ID'', JStr ''t'')])])]"

definition demo_events :: "ApprovalEvent list" where
  "demo_events = [Saw (Notice_Approval demo_approval) ''e'' ''c'' (Inr True), Answered 5 ''1'' True,
     Took 6 demo_command, Took 7 demo_command]"

lemma approvals_single_use_witness:
  "distinct (map (appr_id \<circ> snd \<circ> snd)
     (ah_taken (fold (approval_apply (\<lambda>n. replicate n CHR ''x'')) demo_events approval_start)))
   \<and> length (ah_taken (fold (approval_apply (\<lambda>n. replicate n CHR ''x'')) demo_events approval_start)) = 1"
proof -
  let ?uuid = "\<lambda>n. replicate n CHR ''x''"
  have inj: "inj ?uuid" by (auto simp: inj_def)
  have "length (ah_taken (fold (approval_apply ?uuid) demo_events approval_start)) = 1"
    by (simp add: demo_events_def approval_start_def ApprovalState_default_def approvals_observe_def
        approvals_respond_def approvals_take_def demo_approval_def demo_command_def approval_matches_def
        json_index_def is_null_def message_thread_def pointer_string_def grant_lifetime_def)
  with conjunct1 [OF approvals_single_use [OF inj refl, of demo_events]] show ?thesis by (rule conjI)
qed

end
