(* ===== verification/Protocol_Codec.thy ===== *)
theory Protocol_Codec
  imports Json
begin

text \<open>
  Models \<open>protocol/src/codec.rs\<close> and \<open>protocol/src/transfer/wire.rs\<close>: JSON lines with a
  length bound and length-prefixed binary packets.  The locale \<open>framing\<close> is the contract
  of both: a stream of encoded messages has exactly one reading.
\<close>

section \<open>Framings\<close>

locale framing =
  fixes valid :: "'m \<Rightarrow> bool"
    and encode :: "'m \<Rightarrow> string"
    and decode :: "string \<Rightarrow> ('m \<times> string) option"
  assumes decode_encode: "valid m \<Longrightarrow> decode (encode m @ rest) = Some (m, rest)"
    and encode_nonempty: "valid m \<Longrightarrow> encode m \<noteq> []"
begin

lemma same_first:
  assumes "valid m" "valid n" "encode m @ s = encode n @ t"
  shows "m = n \<and> s = t"
proof -
  have "decode (encode n @ t) = Some (m, s)" using decode_encode [OF assms(1), of s] unfolding assms(3) .
  then show ?thesis unfolding decode_encode [OF assms(2)] by (simp only: option.inject prod.inject)
qed

lemma unique_reading:
  "list_all valid ms \<Longrightarrow> list_all valid ns \<Longrightarrow> concat (map encode ms) = concat (map encode ns) \<Longrightarrow> ms = ns"
proof (induction ms arbitrary: ns)
  case Nil
  then show ?case by (cases ns) (auto simp: encode_nonempty)
next
  case (Cons m ms)
  have "encode m \<noteq> []" using Cons.prems(1) encode_nonempty by simp
  with Cons.prems(3) have "ns \<noteq> []" by (intro notI) simp
  then obtain n ns' where ns: "ns = n # ns'" by (cases ns) simp_all
  have "m = n \<and> concat (map encode ms) = concat (map encode ns')"
    by (rule same_first) (use Cons.prems in \<open>simp_all add: ns\<close>)
  moreover from this have "ms = ns'" by (intro Cons.IH) (use Cons.prems in \<open>simp_all add: ns\<close>)
  ultimately show ?case by (simp add: ns)
qed

end

section \<open>Input and output\<close>

text \<open>\<open>Json_Error\<close> is \<open>io::Error::other\<close> of a serde error, whose text is serde's.\<close>

datatype io_error =
  Unexpected_Eof
| Invalid_Data string
| Timed_Out string
| Json_Error
| Io_Failed string

text \<open>What an \<open>AsyncBufRead\<close> answers to \<open>fill_buf\<close>, in order: a buffer, a failure, or not
  yet, in which case \<open>select!\<close> may drop the future.  The end of the list is the end of the
  stream, where \<open>fill_buf\<close> keeps answering an empty buffer.\<close>

datatype poll = Buffered string | Broken io_error | Pending

datatype 'a outcome = Got 'a | At_End | Io_Error io_error | Cancelled

section \<open>JSON lines\<close>

definition MAX_FRAME :: nat where
  "MAX_FRAME = 2 * 1024 * 1024"

definition newline :: char where
  "newline = CHR 0x0A"

record Reader =
  rd_bytes :: string
  rd_limit :: nat

definition Reader_with_limit :: "nat \<Rightarrow> Reader" where
  "Reader_with_limit limit = \<lparr> rd_bytes = [], rd_limit = limit \<rparr>"

definition Reader_new :: Reader where
  "Reader_new = Reader_with_limit MAX_FRAME"

definition frame_too_long :: "nat \<Rightarrow> io_error" where
  "frame_too_long limit = Invalid_Data (''protocol frame exceeds '' @ show_nat limit @ '' byte limit'')"

definition invalid_frame :: io_error where
  "invalid_frame = Invalid_Data ''invalid protocol frame''"

definition parse_frame :: "serde \<Rightarrow> string \<Rightarrow> json outcome" where
  "parse_frame S bytes = (case from_text S bytes of Some v \<Rightarrow> Got v | None \<Rightarrow> Io_Error invalid_frame)"

text \<open>The position of the first newline, and how much of the chunk belongs to the frame.\<close>

fun newline_position :: "string \<Rightarrow> nat option" where
  "newline_position [] = None"
| "newline_position (b # bs) = (if b = newline then Some 0 else map_option Suc (newline_position bs))"

definition frame_count :: "string \<Rightarrow> nat" where
  "frame_count chunk = (case newline_position chunk of None \<Rightarrow> length chunk | Some i \<Rightarrow> i + 1)"

text \<open>\<open>Reader::next\<close>; the last component is the input still to be read.\<close>

fun reader_next :: "serde \<Rightarrow> Reader \<Rightarrow> poll list \<Rightarrow> json outcome \<times> Reader \<times> poll list" where
  "reader_next S r [] = ((if rd_bytes r = [] then At_End else Io_Error Unexpected_Eof), r, [])"
| "reader_next S r (Pending # input) = (Cancelled, r, input)"
| "reader_next S r (Broken e # input) = (Io_Error e, r, input)"
| "reader_next S r (Buffered chunk # input) =
    (if chunk = [] then ((if rd_bytes r = [] then At_End else Io_Error Unexpected_Eof), r, Buffered chunk # input)
     else if length (rd_bytes r) + frame_count chunk > rd_limit r
     then (Io_Error (frame_too_long (rd_limit r)), r, Buffered chunk # input)
     else
       let bytes = rd_bytes r @ take (frame_count chunk) chunk;
           unread = drop (frame_count chunk) chunk;
           input' = (if unread = [] then input else Buffered unread # input) in
       if newline_position chunk = None then reader_next S (r\<lparr> rd_bytes := bytes \<rparr>) input
       else (parse_frame S bytes, r\<lparr> rd_bytes := [] \<rparr>, input'))"

text \<open>\<open>write_with_limit\<close>.  The peer takes everything, stalls after some bytes until the ten
  seconds are over, or breaks; what it has taken is the second component.\<close>

datatype peer = Takes_All | Stalls nat | Breaks nat io_error

definition peer_error :: "peer \<Rightarrow> io_error option" where
  "peer_error p = (case p of Takes_All \<Rightarrow> None
     | Stalls _ \<Rightarrow> Some (Timed_Out ''protocol peer stopped accepting data'') | Breaks _ e \<Rightarrow> Some e)"

definition peer_takes :: "peer \<Rightarrow> string \<Rightarrow> string" where
  "peer_takes p bytes = (case p of Takes_All \<Rightarrow> bytes | Stalls n \<Rightarrow> take n bytes | Breaks n _ \<Rightarrow> take n bytes)"

definition write_with_limit :: "serde \<Rightarrow> nat \<Rightarrow> json \<Rightarrow> peer \<Rightarrow> (io_error + unit) \<times> string" where
  "write_with_limit S limit v p =
    (let bytes = to_text S v @ [newline] in
     if length bytes > limit then (Inl (frame_too_long limit), [])
     else ((case peer_error p of Some e \<Rightarrow> Inl e | None \<Rightarrow> Inr ()), peer_takes p bytes))"

definition codec_write :: "serde \<Rightarrow> json \<Rightarrow> peer \<Rightarrow> (io_error + unit) \<times> string" where
  "codec_write S v p = write_with_limit S MAX_FRAME v p"

section \<open>The reader against the stream\<close>

lemma newline_position_append:
  "newline_position (xs @ ys) = (case newline_position xs of
     Some i \<Rightarrow> Some i | None \<Rightarrow> map_option (\<lambda>i. length xs + i) (newline_position ys))"
  by (induction xs) (auto simp: option.map_comp comp_def map_option_case split: option.splits)

lemma newline_position_less: "newline_position xs = Some i \<Longrightarrow> i < length xs"
  by (induction xs arbitrary: i) (auto split: if_splits)

lemma frame_count_bounds: "chunk \<noteq> [] \<Longrightarrow> 0 < frame_count chunk \<and> frame_count chunk \<le> length chunk"
  by (auto simp: frame_count_def split: option.splits dest: newline_position_less)

text \<open>What a stream of bytes says, read at one go: the frames up to the end or the first
  error.\<close>

function stream_frames :: "serde \<Rightarrow> nat \<Rightarrow> string \<Rightarrow> json list \<times> io_error option" where
  "stream_frames S limit s =
    (case newline_position s of
       None \<Rightarrow> ([], if s = [] then None
           else Some (if length s > limit then frame_too_long limit else Unexpected_Eof))
     | Some i \<Rightarrow>
         if i + 1 > limit then ([], Some (frame_too_long limit))
         else (case from_text S (take (i + 1) s) of
             None \<Rightarrow> ([], Some invalid_frame)
           | Some v \<Rightarrow> apfst ((#) v) (stream_frames S limit (drop (i + 1) s))))"
  by auto
termination
  by (relation "measure (\<lambda>(S, limit, s). length s)") (auto dest: newline_position_less)

declare stream_frames.simps [simp del]

text \<open>Calling \<open>next\<close> until the end or an error; a call that was dropped is made again.\<close>

fun poll_size :: "poll \<Rightarrow> nat" where
  "poll_size (Buffered bs) = Suc (length bs)"
| "poll_size _ = 1"

abbreviation input_size :: "poll list \<Rightarrow> nat" where
  "input_size input \<equiv> sum_list (map poll_size input)"

lemma reader_next_consumes:
  "reader_next S r input = (out, r', input') \<Longrightarrow> out \<noteq> At_End \<Longrightarrow> (\<forall>e. out \<noteq> Io_Error e)
    \<Longrightarrow> input_size input' < input_size input"
proof (induction S r input arbitrary: r' input' out rule: reader_next.induct)
  case (4 S r chunk input)
  show ?case
  proof (cases "chunk = [] \<or> length (rd_bytes r) + frame_count chunk > rd_limit r")
    case True
    then show ?thesis using 4 by (auto split: if_splits)
  next
    case False
    with frame_count_bounds have "0 < frame_count chunk" by simp
    then show ?thesis using 4 False by (auto simp: Let_def less_Suc_eq trans_less_add2 split: if_splits)
  qed
qed (auto split: if_splits)

function read_all :: "serde \<Rightarrow> Reader \<Rightarrow> poll list \<Rightarrow> json list \<times> io_error option" where
  "read_all S r input =
    (case reader_next S r input of
       (Got v, r', input') \<Rightarrow> apfst ((#) v) (read_all S r' input')
     | (Cancelled, r', input') \<Rightarrow> read_all S r' input'
     | (At_End, r', input') \<Rightarrow> ([], None)
     | (Io_Error e, r', input') \<Rightarrow> ([], Some e))"
  by pat_completeness auto
termination
  by (relation "measure (\<lambda>(S, r, input). input_size input)")
    (auto dest!: reader_next_consumes [OF sym])

declare read_all.simps [simp del]

text \<open>The bytes an input delivers; it never answers an empty buffer before the end, and does
  not fail.\<close>

fun poll_bytes :: "poll \<Rightarrow> string" where
  "poll_bytes (Buffered bs) = bs"
| "poll_bytes _ = []"

definition delivered :: "poll list \<Rightarrow> string" where
  "delivered input = concat (map poll_bytes input)"

definition steady :: "poll \<Rightarrow> bool" where
  "steady p \<longleftrightarrow> p \<noteq> Buffered [] \<and> (\<forall>e. p \<noteq> Broken e)"

text \<open>A reader between two calls holds the start of a line that is within the bound.\<close>

definition reader_ok :: "Reader \<Rightarrow> bool" where
  "reader_ok r \<longleftrightarrow> newline_position (rd_bytes r) = None \<and> length (rd_bytes r) \<le> rd_limit r"

lemma delivered_simps [simp]:
  "delivered [] = []" "delivered (p # ps) = poll_bytes p @ delivered ps"
  by (simp_all add: delivered_def)

definition next_agrees :: "serde \<Rightarrow> nat \<Rightarrow> string \<Rightarrow> json outcome \<times> Reader \<times> poll list \<Rightarrow> bool" where
  "next_agrees S limit s z = (case z of (out, r, input) \<Rightarrow>
     rd_limit r = limit \<and> (case out of
       At_End \<Rightarrow> s = []
     | Io_Error e \<Rightarrow> stream_frames S limit s = ([], Some e)
     | Cancelled \<Rightarrow> reader_ok r \<and> list_all steady input \<and> rd_bytes r @ delivered input = s
     | Got v \<Rightarrow> reader_ok r \<and> list_all steady input
         \<and> stream_frames S limit s = apfst ((#) v) (stream_frames S limit (rd_bytes r @ delivered input))))"

lemma next_agrees_frame:
  assumes ok: "reader_ok r" and st: "list_all steady input" and i: "newline_position chunk = Some i"
    and fits: "length (rd_bytes r) + (i + 1) \<le> rd_limit r"
  shows "next_agrees S (rd_limit r) (rd_bytes r @ chunk @ delivered input)
    (parse_frame S (rd_bytes r @ take (i + 1) chunk), r\<lparr> rd_bytes := [] \<rparr>,
     if drop (i + 1) chunk = [] then input else Buffered (drop (i + 1) chunk) # input)"
proof -
  let ?s = "rd_bytes r @ chunk @ delivered input" and ?n = "length (rd_bytes r) + i"
  have less: "i < length chunk" using i by (rule newline_position_less)
  have n: "newline_position ?s = Some ?n"
    using ok i by (simp add: newline_position_append reader_ok_def)
  have t: "take (?n + 1) ?s = rd_bytes r @ take (i + 1) chunk"
    and d: "drop (?n + 1) ?s = drop (i + 1) chunk @ delivered input"
    using less by simp_all
  have "stream_frames S (rd_limit r) ?s =
      (case from_text S (rd_bytes r @ take (i + 1) chunk) of None \<Rightarrow> ([], Some invalid_frame)
       | Some v \<Rightarrow> apfst ((#) v) (stream_frames S (rd_limit r) (drop (i + 1) chunk @ delivered input)))"
    using fits by (subst stream_frames.simps) (simp only: n t d option.case, simp)
  then show ?thesis using st
    by (simp add: next_agrees_def parse_frame_def reader_ok_def steady_def split: option.split)
qed

lemma stream_too_long:
  assumes "reader_ok r" "length (rd_bytes r) + frame_count chunk > rd_limit r" "chunk \<noteq> []"
  shows "stream_frames S (rd_limit r) (rd_bytes r @ chunk @ rest) = ([], Some (frame_too_long (rd_limit r)))"
  using assms
  by (subst stream_frames.simps)
    (auto simp: newline_position_append reader_ok_def frame_count_def split: option.splits)

lemma reader_next_agrees:
  "reader_ok r \<Longrightarrow> list_all steady input
    \<Longrightarrow> next_agrees S (rd_limit r) (rd_bytes r @ delivered input) (reader_next S r input)"
proof (induction S r input rule: reader_next.induct)
  case (1 S r)
  then show ?case
    by (simp add: next_agrees_def reader_ok_def stream_frames.simps [of S _ "rd_bytes r"])
next
  case (2 S r input)
  then show ?case by (simp add: next_agrees_def)
next
  case (3 S r e input)
  then show ?case by (simp add: steady_def)
next
  case (4 S r chunk input)
  have ne: "chunk \<noteq> []" and st: "list_all steady input"
    using "4.prems"(2) by (auto simp: steady_def [of "Buffered chunk"])
  consider "length (rd_bytes r) + frame_count chunk > rd_limit r"
    | (whole) "newline_position chunk = None" "length (rd_bytes r) + frame_count chunk \<le> rd_limit r"
    | (line) i where "newline_position chunk = Some i" "length (rd_bytes r) + frame_count chunk \<le> rd_limit r"
    by (cases "newline_position chunk") force+
  then show ?case
  proof cases
    case 1
    then show ?thesis using ne stream_too_long [OF "4.prems"(1) 1 ne]
      by (simp add: next_agrees_def)
  next
    case whole
    have count: "frame_count chunk = length chunk" using whole by (simp add: frame_count_def)
    let ?r = "r\<lparr> rd_bytes := rd_bytes r @ chunk \<rparr>"
    have "reader_ok ?r" using "4.prems"(1) whole count by (simp add: reader_ok_def newline_position_append)
    then have "next_agrees S (rd_limit ?r) (rd_bytes ?r @ delivered input) (reader_next S ?r input)"
      using "4.IH" [OF ne] whole count st by simp
    then show ?thesis using ne whole count by simp
  next
    case line
    have count: "frame_count chunk = i + 1" using line by (simp add: frame_count_def)
    show ?thesis
      using next_agrees_frame [OF "4.prems"(1) st line(1), of S] line count ne
      by (cases "length chunk \<le> Suc i") (simp_all add: Let_def)
  qed
qed

lemma read_all_stream:
  "reader_ok r \<Longrightarrow> list_all steady input
    \<Longrightarrow> read_all S r input = stream_frames S (rd_limit r) (rd_bytes r @ delivered input)"
proof (induction S r input rule: read_all.induct)
  case (1 S r input)
  obtain out r' input' where n: "reader_next S r input = (out, r', input')" by (cases "reader_next S r input")
  have a: "next_agrees S (rd_limit r) (rd_bytes r @ delivered input) (out, r', input')"
    using reader_next_agrees [OF "1.prems", of S] n by simp
  show ?case
  proof (cases out)
    case (Got v)
    note IH = "1.IH"(1) [OF n [symmetric] Got refl]
    show ?thesis using a IH by (subst read_all.simps) (simp add: n Got next_agrees_def)
  next
    case At_End
    then show ?thesis using a
      by (subst read_all.simps) (simp add: n next_agrees_def stream_frames.simps [of S "rd_limit r" "[]"])
  next
    case (Io_Error e)
    then show ?thesis using a by (subst read_all.simps) (simp add: n next_agrees_def)
  next
    case Cancelled
    note IH = "1.IH"(2) [OF n [symmetric] Cancelled refl]
    show ?thesis using a IH by (subst read_all.simps) (simp add: n Cancelled next_agrees_def)
  qed
qed

lemma reader_independent_stream:
  "list_all steady input \<Longrightarrow> delivered input = s
    \<Longrightarrow> read_all S (Reader_with_limit limit) input = stream_frames S limit s"
  using read_all_stream [of "Reader_with_limit limit" input S]
  by (simp add: Reader_with_limit_def reader_ok_def)

text \<open>C24: the frames a reader delivers are those of the byte stream, whatever the sizes of the
  buffers it arrives in and wherever a read is dropped by \<open>select!\<close> and made again: the
  same values in the same order, then the end of the stream or the same error.\<close>

theorem reader_independent_of_chunks:
  assumes "list_all steady input" "delivered input = s"
  shows "read_all S (Reader_with_limit limit) input = stream_frames S limit s"
  using assms by (rule reader_independent_stream)

section \<open>Both framings\<close>

text \<open>A line: no newline inside, within the bound.\<close>

definition line_valid :: "string \<Rightarrow> bool" where
  "line_valid line \<longleftrightarrow> newline \<notin> set line"

definition line_encode :: "string \<Rightarrow> string" where
  "line_encode line = line @ [newline]"

definition line_decode :: "string \<Rightarrow> (string \<times> string) option" where
  "line_decode s = map_option (\<lambda>i. (take i s, drop (i + 1) s)) (newline_position s)"

lemma newline_position_line:
  "newline \<notin> set line \<Longrightarrow> newline_position (line @ newline # rest) = Some (length line)"
  by (induction line) auto

interpretation jsonl: framing line_valid line_encode line_decode
  by unfold_locales
    (simp_all add: line_valid_def line_encode_def line_decode_def newline_position_line)

text \<open>serde\_json's texts: no newline, and reading one back with its newline gives the value.\<close>

definition line_serde_ok :: "serde \<Rightarrow> json \<Rightarrow> bool" where
  "line_serde_ok S v \<longleftrightarrow> newline \<notin> set (to_text S v) \<and> from_text S (to_text S v @ [newline]) = Some v"

fun write_each :: "serde \<Rightarrow> nat \<Rightarrow> json list \<Rightarrow> (io_error + unit) \<times> string" where
  "write_each S limit [] = (Inr (), [])"
| "write_each S limit (v # vs) =
    (case write_with_limit S limit v Takes_All of
       (Inl e, out) \<Rightarrow> (Inl e, out)
     | (Inr _, out) \<Rightarrow> apsnd (append out) (write_each S limit vs))"

lemma stream_of_writes:
  "list_all (line_serde_ok S) vs \<Longrightarrow> write_each S limit vs = (Inr (), out)
    \<Longrightarrow> stream_frames S limit out = (vs, None) \<and> out = concat (map (line_encode \<circ> to_text S) vs)"
proof (induction vs arbitrary: out)
  case Nil
  then show ?case by (simp add: stream_frames.simps)
next
  case (Cons v vs)
  have "Suc (length (to_text S v)) \<le> limit" (is ?fits)
  proof (rule ccontr)
    assume "\<not> ?fits"
    then show False using Cons.prems by (simp add: write_with_limit_def Let_def)
  qed
  then have fits: ?fits and one: "write_with_limit S limit v Takes_All = (Inr (), to_text S v @ [newline])"
    by (simp_all add: write_with_limit_def Let_def peer_error_def peer_takes_def)
  obtain x rest where e: "write_each S limit vs = (x, rest)" by (rule prod.exhaust)
  have "x = Inr () \<and> to_text S v @ newline # rest = out" using Cons.prems by (simp add: one e)
  then have w: "write_each S limit vs = (Inr (), rest)" and out: "out = to_text S v @ newline # rest"
    by (simp_all add: e)
  have "list_all (line_serde_ok S) vs" using Cons.prems(1) by simp
  note IH = Cons.IH [OF this w]
  have pos: "newline_position out = Some (length (to_text S v))"
    using Cons.prems(1) unfolding out by (intro newline_position_line) (simp add: line_serde_ok_def)
  have "from_text S (to_text S v @ [newline]) = Some v" using Cons.prems(1) by (simp add: line_serde_ok_def)
  then have "stream_frames S limit out = apfst ((#) v) (stream_frames S limit rest)"
    using fits by (subst stream_frames.simps) (simp add: pos, simp add: out)
  then show ?case unfolding conjunct1 [OF IH] using conjunct2 [OF IH] by (simp add: out line_encode_def)
qed

text \<open>C25: what one end writes, the other end reads: if every value was accepted by
  \<open>write\<close> within the bound, a reader with that bound delivers exactly these values
  and then the end, however the bytes are cut; and the byte stream has no other
  reading.\<close>

theorem codec_roundtrip:
  assumes ok: "list_all (line_serde_ok S) vs" and w: "write_each S limit vs = (Inr (), out)"
    and st: "list_all steady input" "delivered input = out"
  shows "read_all S (Reader_with_limit limit) input = (vs, None)
    \<and> (\<forall>ws. list_all (line_serde_ok S) ws \<and> write_each S limit ws = (Inr (), out) \<longrightarrow> ws = vs)"
proof (intro conjI allI impI)
  show "read_all S (Reader_with_limit limit) input = (vs, None)"
    using reader_independent_stream [OF st, of S limit] stream_of_writes [OF ok w] by (simp only: conj_imp_eq_imp_imp)
next
  fix ws assume w': "list_all (line_serde_ok S) ws \<and> write_each S limit ws = (Inr (), out)"
  have valid: "list_all line_valid (map (to_text S) xs)" if "list_all (line_serde_ok S) xs" for xs
    using that by (simp add: list_all_iff line_valid_def line_serde_ok_def)
  have "map (to_text S) ws = map (to_text S) vs"
    using stream_of_writes [OF ok w] stream_of_writes [OF conjunct1 [OF w'] conjunct2 [OF w']]
    by (intro jsonl.unique_reading valid ok conjunct1 [OF w']) simp
  moreover have "map (from_text S \<circ> (\<lambda>t. t @ [newline]) \<circ> to_text S) xs = map Some xs"
    if "list_all (line_serde_ok S) xs" for xs
    using that by (simp add: list_all_iff line_serde_ok_def)
  ultimately have "map Some ws = map Some vs" using ok w' by (metis list.map_comp)
  then show "ws = vs" by (simp add: inj_map_eq_map inj_Some)
qed

definition demo_cuts :: "poll list" where
  "demo_cuts = [Pending, Buffered [CHR ''x''], Pending, Buffered [CHR ''x'', newline, CHR ''x''], Buffered [newline]]"

definition text_serde :: serde where
  "text_serde = \<lparr> to_text = (\<lambda>v. case v of JStr s \<Rightarrow> s | _ \<Rightarrow> []),
     from_text = (\<lambda>s. Some (JStr (filter (\<lambda>c. c \<noteq> newline) s))) \<rparr>"

lemma reader_independent_of_chunks_witness:
  "read_all text_serde (Reader_with_limit 3) demo_cuts
    = stream_frames text_serde 3 [CHR ''x'', CHR ''x'', newline, CHR ''x'', newline]"
  by (rule reader_independent_of_chunks) (simp_all add: demo_cuts_def steady_def)

lemma codec_roundtrip_witness:
  "read_all text_serde (Reader_with_limit 3)
     [Buffered ''a'', Pending, Buffered [CHR ''b'', newline, CHR ''c''], Pending, Buffered [newline]]
   = ([JStr ''ab'', JStr ''c''], None)"
  by (rule conjunct1 [OF codec_roundtrip [where out = "[CHR ''a'', CHR ''b'', newline, CHR ''c'', newline]"]])
    (simp_all add: write_with_limit_def peer_error_def peer_takes_def steady_def text_serde_def
      line_serde_ok_def newline_def)

end
