(* ===== verification/Protocol_Wire.thy ===== *)
theory Protocol_Wire
  imports Protocol_Codec
begin

text \<open>
  Models \<open>protocol/src/transfer.rs\<close> and \<open>protocol/src/transfer/wire.rs\<close>: the commands and
  replies of a file transfer, and the packets that carry them with a block of data.  A
  stream is its bytes; \<open>read_exact\<close> waits until it has them all or the stream ends.
\<close>

section \<open>Messages\<close>

definition CHUNK :: nat where
  "CHUNK = 256 * 1024"

record RootIdentity =
  ri_device :: "64 word"
  ri_inode :: "64 word"

datatype Kind = Kind_File | Kind_Directory | Kind_Unsupported

record Stamp =
  sp_kind :: Kind
  sp_length :: nat
  sp_modified_ns :: nat
  sp_device :: nat
  sp_inode :: nat
  sp_mode :: nat

record Entry =
  en_name :: string
  en_stamp :: Stamp

record Page =
  pg_entries :: "Entry list"
  pg_after :: "string option"

datatype Command =
  Cmd_Stat string
| Cmd_List string "string option"
| Cmd_Read string Stamp nat
| Cmd_Hash string Stamp
| Cmd_Prepare string string Stamp "Stamp option"
| Cmd_Write string string nat string
| Cmd_Commit string string string
| Cmd_Cancel string string
| Cmd_Directory string
| Cmd_Metadata string Stamp

datatype Reply =
  Reply_Stat "Stamp option"
| Reply_List Page
| Reply_Ready nat bool
| Reply_Data string
| Reply_Hash string
| Reply_Done

section \<open>Packets\<close>

definition be32 :: "32 word \<Rightarrow> string" where
  "be32 w = map (\<lambda>k. char_of (unat (drop_bit k w) mod 256)) [24, 16, 8, 0]"

fun of_be32 :: "string \<Rightarrow> 32 word" where
  "of_be32 [a, b, c, d] = of_nat (byte a * 2 ^ 24 + byte b * 2 ^ 16 + byte c * 2 ^ 8 + byte d)"
| "of_be32 _ = 0"

definition read_exact :: "nat \<Rightarrow> string \<Rightarrow> io_error + string \<times> string" where
  "read_exact n s = (if length s < n then Inl Unexpected_Eof else Inr (take n s, drop n s))"

definition read_u32 :: "string \<Rightarrow> io_error + 32 word \<times> string" where
  "read_u32 s = rbind (read_exact 4 s) (\<lambda>(bs, s). Inr (of_be32 bs, s))"

definition packet_too_long :: io_error where
  "packet_too_long = Invalid_Data ''Transfer packet exceeds its limit.''"

definition wire_read :: "serde \<Rightarrow> string \<Rightarrow> io_error + (json \<times> string) \<times> string" where
  "wire_read S s =
    rbind (read_u32 s) (\<lambda>(header, s).
    rbind (read_u32 s) (\<lambda>(size, s).
      if unat header > MAX_FRAME \<or> unat size > CHUNK then Inl packet_too_long
      else
        rbind (read_exact (unat header) s) (\<lambda>(text, s).
        rbind (ok_or Json_Error (from_text S text)) (\<lambda>v.
        rbind (read_exact (unat size) s) (\<lambda>(bytes, s). Inr ((v, bytes), s))))))"

definition wire_write :: "serde \<Rightarrow> json \<Rightarrow> string \<Rightarrow> io_error + string" where
  "wire_write S v bytes =
    (let text = to_text S v in
     if length text > MAX_FRAME \<or> length bytes > CHUNK then Inl packet_too_long
     else Inr (be32 (of_nat (length text)) @ be32 (of_nat (length bytes)) @ text @ bytes))"

section \<open>Round trip\<close>

lemma be32_split:
  fixes n :: nat
  assumes "n < 2 ^ 32"
  shows "(n div 2 ^ 24 mod 256) * 2 ^ 24 + (n div 2 ^ 16 mod 256) * 2 ^ 16
     + (n div 2 ^ 8 mod 256) * 2 ^ 8 + n mod 256 = n"
proof -
  let ?a = "n div 256" let ?b = "?a div 256" let ?c = "?b div 256"
  have d: "n div 2 ^ 8 = ?a" "n div 2 ^ 16 = ?b" "n div 2 ^ 24 = ?c" by (simp_all add: div_mult2_eq [symmetric])
  have "?c < 256" using assms by (simp add: less_mult_imp_div_less)
  moreover have "x * 16777216 + y * 65536 + z * 256 + u = n"
    if "n = a * 256 + u" "a = b * 256 + z" "b = x * 256 + y" for a b x y z u :: nat
    using that by simp
  from this [OF div_mult_mod_eq [symmetric] div_mult_mod_eq [symmetric] div_mult_mod_eq [symmetric]]
  have "?c * 16777216 + ?b mod 256 * 65536 + ?a mod 256 * 256 + n mod 256 = n" .
  ultimately show ?thesis unfolding d by simp
qed

lemma of_be32_be32 [simp]: "of_be32 (be32 w) = w"
proof -
  have "of_be32 (be32 w) = of_nat ((unat w div 2 ^ 24 mod 256) * 2 ^ 24
      + (unat w div 2 ^ 16 mod 256) * 2 ^ 16 + (unat w div 2 ^ 8 mod 256) * 2 ^ 8 + unat w mod 256)"
    by (simp add: be32_def unat_drop_bit_eq drop_bit_eq_div unat_div_distrib)
  also have "\<dots> = of_nat (unat w)"
  proof -
    have "unat w < 2 ^ 32" using unsigned_less [of w, where 'a = nat] by simp
    then show ?thesis by (simp only: be32_split)
  qed
  finally show ?thesis by simp
qed

lemma length_be32 [simp]: "length (be32 w) = 4"
  by (simp add: be32_def)

lemma read_u32_be32 [simp]: "read_u32 (be32 w @ s) = Inr (w, s)"
  by (simp add: read_u32_def read_exact_def)

lemma read_exact_append [simp]: "n = length a \<Longrightarrow> read_exact n (a @ s) = Inr (a, s)"
  by (simp add: read_exact_def)

lemma unat_length [simp]: "n < 2 ^ 32 \<Longrightarrow> unat (of_nat n :: 32 word) = n"
  by (simp add: unat_of_nat take_bit_eq_mod)

text \<open>The framing beneath: two lengths, a text and a block.\<close>

definition packet_valid :: "string \<times> string \<Rightarrow> bool" where
  "packet_valid p \<longleftrightarrow> length (fst p) \<le> MAX_FRAME \<and> length (snd p) \<le> CHUNK"

definition packet_encode :: "string \<times> string \<Rightarrow> string" where
  "packet_encode p = be32 (of_nat (length (fst p))) @ be32 (of_nat (length (snd p))) @ fst p @ snd p"

definition packet_decode :: "string \<Rightarrow> ((string \<times> string) \<times> string) option" where
  "packet_decode s =
    (case rbind (read_u32 s) (\<lambda>(header, s). rbind (read_u32 s) (\<lambda>(size, s).
        rbind (read_exact (unat header) s) (\<lambda>(text, s).
        rbind (read_exact (unat size) s) (\<lambda>(bytes, s). Inr ((text, bytes), s))))) of
       Inl _ \<Rightarrow> None | Inr z \<Rightarrow> Some z)"

lemma packet_lengths:
  "length text \<le> MAX_FRAME \<Longrightarrow> unat (of_nat (length text) :: 32 word) = length text"
  "length bytes \<le> CHUNK \<Longrightarrow> unat (of_nat (length bytes) :: 32 word) = length bytes"
  by (simp_all add: MAX_FRAME_def CHUNK_def)

interpretation wire: framing packet_valid packet_encode packet_decode
proof unfold_locales
  fix m rest assume "packet_valid m"
  then show "packet_decode (packet_encode m @ rest) = Some (m, rest)"
    by (simp add: packet_valid_def packet_encode_def packet_decode_def packet_lengths)
next
  fix m show "packet_encode m \<noteq> []" by (simp add: packet_encode_def be32_def)
qed

lemma wire_write_packet:
  "wire_write S v bytes = Inr out \<longleftrightarrow> packet_valid (to_text S v, bytes) \<and> out = packet_encode (to_text S v, bytes)"
  by (auto simp: wire_write_def packet_valid_def packet_encode_def Let_def)

lemma wire_read_write:
  assumes "from_text S (to_text S v) = Some v" "packet_valid (to_text S v, bytes)"
  shows "wire_read S (packet_encode (to_text S v, bytes) @ rest) = Inr ((v, bytes), rest)"
  using assms by (simp add: wire_read_def packet_encode_def packet_valid_def packet_lengths)

text \<open>Reading a whole stream, packet by packet.\<close>

lemma wire_read_shorter: "wire_read S s = Inr (p, rest) \<Longrightarrow> length rest < length s"
  by (auto simp: wire_read_def read_u32_def read_exact_def rbind_Inr_iff ok_or_Inr_iff split: if_splits)

function wire_read_all :: "serde \<Rightarrow> string \<Rightarrow> (json \<times> string) list \<times> io_error option" where
  "wire_read_all S s =
    (if s = [] then ([], None)
     else (case wire_read S s of
         Inl e \<Rightarrow> ([], Some e)
       | Inr (p, rest) \<Rightarrow> apfst ((#) p) (wire_read_all S rest)))"
  by pat_completeness auto
termination
  by (relation "measure (\<lambda>(S, s). length s)") (auto dest: wire_read_shorter)

declare wire_read_all.simps [simp del]

text \<open>C26: the packets of a transfer arrive as they were sent: a stream of written packets is
  read back as the same commands or replies with the same blocks, has no other reading,
  and no packet that is read is longer than its limits, whatever a peer sends.\<close>

theorem wire_roundtrip:
  assumes ok: "list_all (\<lambda>(v, bytes). from_text S (to_text S v) = Some v) ps"
    and w: "list_all2 (\<lambda>(v, bytes) out. wire_write S v bytes = Inr out) ps outs"
  shows "wire_read_all S (concat outs) = (ps, None)
    \<and> (\<forall>qs. list_all packet_valid qs \<and> concat (map packet_encode qs) = concat outs
         \<longrightarrow> qs = map (apfst (to_text S)) ps)
    \<and> (\<forall>s v bytes rest. wire_read S s = Inr ((v, bytes), rest) \<longrightarrow>
         length bytes \<le> CHUNK \<and> length s \<le> 8 + MAX_FRAME + CHUNK + length rest)"
proof (intro conjI allI impI)
  show "wire_read_all S (concat outs) = (ps, None)"
    using w ok
  proof (induction ps outs rule: list_all2_induct)
    case Nil
    then show ?case by (simp add: wire_read_all.simps)
  next
    case (Cons p ps out outs)
    obtain v bytes where p: "p = (v, bytes)" by (cases p)
    have valid: "packet_valid (to_text S v, bytes)" and out: "out = packet_encode (to_text S v, bytes)"
      using Cons.hyps(1) by (simp_all add: p wire_write_packet)
    have "wire_read S (out @ concat outs) = Inr ((v, bytes), concat outs)"
      unfolding out by (rule wire_read_write) (use Cons.prems valid in \<open>simp_all add: p\<close>)
    moreover have "out @ concat outs \<noteq> []" using wire.encode_nonempty [OF valid] by (simp add: out)
    ultimately show ?case using Cons.IH Cons.prems by (subst wire_read_all.simps) (simp add: p)
  qed
next
  have outs: "concat outs = concat (map packet_encode (map (apfst (to_text S)) ps))
      \<and> list_all packet_valid (map (apfst (to_text S)) ps)"
    using w by (induction ps outs rule: list_all2_induct) (auto simp: wire_write_packet)
  fix qs assume "list_all packet_valid qs \<and> concat (map packet_encode qs) = concat outs"
  then show "qs = map (apfst (to_text S)) ps" using outs by (intro wire.unique_reading) simp_all
next
  fix s v bytes rest assume "wire_read S s = Inr ((v, bytes), rest)"
  then show "length bytes \<le> CHUNK" "length s \<le> 8 + MAX_FRAME + CHUNK + length rest"
    by (auto simp: wire_read_def read_u32_def read_exact_def rbind_Inr_iff ok_or_Inr_iff split: if_splits)
qed

lemma wire_roundtrip_witness:
  "wire_read_all text_serde (be32 2 @ be32 3 @ ''ab'' @ ''xyz'' @ be32 1 @ be32 0 @ ''c'')
    = ([(JStr ''ab'', ''xyz''), (JStr ''c'', [])], None)"
proof -
  let ?outs = "[be32 2 @ be32 3 @ ''ab'' @ ''xyz'', be32 1 @ be32 0 @ ''c'']"
  have "wire_read_all text_serde (concat ?outs) = ([(JStr ''ab'', ''xyz''), (JStr ''c'', [])], None)"
    by (rule conjunct1 [OF wire_roundtrip])
      (simp_all add: wire_write_def text_serde_def MAX_FRAME_def CHUNK_def newline_def)
  then show ?thesis by simp
qed

end
