(* ===== verification/Client_Intent.thy ===== *)
theory Client_Intent
  imports Adapter_Events
begin

text \<open>
  Models \<open>client/src/local/intent.rs\<close> and the critical sections of
  \<open>message_recovery.rs\<close>, \<open>supervisor.rs\<close>, \<open>events.rs\<close>, \<open>status.rs\<close>, \<open>goals.rs\<close>, \<open>route.rs\<close>
  and \<open>editing.rs\<close> that change the intent of a session: what the user is doing, and what
  may be continued after a lost connection.  Each section runs under the intent's lock,
  so a run of the session is a sequence of sections; a lock poisoned by a panic is left
  out.
\<close>

section \<open>State\<close>

text \<open>\<open>it_pending_message\<close> is the value last sent to the message that waits: whether it was
  cancelled.\<close>

record Intent =
  it_active :: "string option"
  it_status :: SessionStatus
  it_current_turn :: "TurnState option"
  it_limits_revision :: "64 word"
  it_completed :: "string option"
  it_goal :: "Goal option"
  it_goal_revision :: "64 word"
  it_plan :: "Plan option"
  it_resume_goal :: "string option"
  it_interrupted :: "string option"
  it_episode :: "string option"
  it_settings :: json
  it_pending_message :: "bool option"
  it_resend :: bool
  it_cancelled :: "string option"

definition Intent_with_status :: "SessionStatus \<Rightarrow> Intent" where
  "Intent_with_status status = \<lparr> it_active = None, it_status = status, it_current_turn = None,
     it_limits_revision = 0, it_completed = None, it_goal = None, it_goal_revision = 0, it_plan = None,
     it_resume_goal = None, it_interrupted = None, it_episode = None, it_settings = JNull,
     it_pending_message = None, it_resend = False, it_cancelled = None \<rparr>"

section \<open>Methods\<close>

fun outcome_name :: "TurnOutcome \<Rightarrow> string" where
  "outcome_name Turn_Completed = ''completed''"
| "outcome_name Turn_Interrupted = ''interrupted''"
| "outcome_name (Turn_Failed _) = ''failed''"

definition observe_completed :: "string \<Rightarrow> TurnTiming \<Rightarrow> TurnOutcome \<Rightarrow> Intent \<Rightarrow> Intent" where
  "observe_completed i timing outcome st =
    (let st1 = st\<lparr> it_completed := Some i,
           it_active := (if it_active st = Some i then None else it_active st),
           it_interrupted := (if outcome = Turn_Completed then None else it_interrupted st) \<rparr> in
     case it_current_turn st of
       None \<Rightarrow> st1\<lparr> it_current_turn := Some \<lparr> ts_id = i, ts_status = outcome_name outcome, ts_timing = timing \<rparr> \<rparr>
     | Some previous \<Rightarrow>
         if ts_id previous \<noteq> i then st1
         else st1\<lparr> it_current_turn := Some \<lparr> ts_id = i, ts_status = outcome_name outcome,
           ts_timing = timing\<lparr> ti_started_at := (case ti_started_at timing of
               Some t \<Rightarrow> Some t | None \<Rightarrow> ti_started_at (ts_timing previous)) \<rparr> \<rparr> \<rparr>)"

text \<open>\<open>at\<close> is the clock's answer when rate limits change.\<close>

fun intent_observe :: "int \<Rightarrow> SessionEvent \<Rightarrow> Intent \<Rightarrow> Intent" where
  "intent_observe at (GoalChanged goal) st =
    st\<lparr> it_goal := goal, it_goal_revision := it_goal_revision st + 1 \<rparr>"
| "intent_observe at (PlanChanged plan) st = st\<lparr> it_plan := Some plan \<rparr>"
| "intent_observe at (ActivityChanged activity flags) st =
    st\<lparr> it_status := (it_status st)\<lparr> ss_activity := activity, ss_active_flags := flags \<rparr> \<rparr>"
| "intent_observe at (UsageChanged usage) st = st\<lparr> it_status := (it_status st)\<lparr> ss_usage := Some usage \<rparr> \<rparr>"
| "intent_observe at (RateLimitsChanged limits) st =
    st\<lparr> it_status := (it_status st)\<lparr> ss_limits := limits, ss_limits_error := None,
          ss_limits_updated_at := Some at \<rparr>,
        it_limits_revision := it_limits_revision st + 1 \<rparr>"
| "intent_observe at (TurnStarted i timing) st =
    st\<lparr> it_active := Some i, it_plan := None,
        it_current_turn := Some \<lparr> ts_id = i, ts_status = ''inProgress'', ts_timing = timing \<rparr> \<rparr>"
| "intent_observe at (TurnCompleted i timing outcome) st = observe_completed i timing outcome st"
| "intent_observe at _ st = st"

text \<open>\<open>episode\<close> is the fresh UUID of the disconnection.\<close>

definition intent_disconnect :: "string \<Rightarrow> Intent \<Rightarrow> Intent" where
  "intent_disconnect episode st =
    (if it_episode st \<noteq> None then st
     else st\<lparr> it_episode := Some episode,
       it_interrupted := (case it_active st of
           Some t \<Rightarrow> if it_cancelled st = Some t then None else Some t | None \<Rightarrow> None) \<rparr>)"

definition intent_cancel :: "string \<Rightarrow> Intent \<Rightarrow> Intent" where
  "intent_cancel turn st = st\<lparr> it_resume_goal := None,
     it_pending_message := map_option (\<lambda>_. True) (it_pending_message st),
     it_cancelled := Some turn,
     it_interrupted := (if it_interrupted st = Some turn then None else it_interrupted st) \<rparr>"

definition is_cancelled :: "string \<Rightarrow> Intent \<Rightarrow> bool" where
  "is_cancelled turn st \<longleftrightarrow> it_cancelled st = Some turn"

definition intent_continuation :: "bool \<Rightarrow> Intent \<Rightarrow> (string \<times> string) option \<times> Intent" where
  "intent_continuation rebuilt st =
    (if it_pending_message st \<noteq> None then (None, st)
     else if \<not> rebuilt \<and> it_active st \<noteq> None then (None, st)
     else
       ((case (it_episode st, it_interrupted st) of
           (Some episode, Some turn) \<Rightarrow> Some (episode, turn) | _ \<Rightarrow> None),
        st\<lparr> it_episode := None, it_interrupted := None,
            it_active := (if rebuilt then None else it_active st) \<rparr>))"

section \<open>Sections of the session owner\<close>

text \<open>\<open>message_recovery.rs\<close>: the states a message may be retried in, the native frontend's
  message, the desktop's message that waits for the connection, and its end.\<close>

definition can_retry :: "EnvironmentState \<Rightarrow> bool" where
  "can_retry state = (case state of
     Env_ActionRequired c _ \<Rightarrow>
       c \<in> {''RECOVERY_RETRIES_EXHAUSTED'', ''MCP_CONFIGURATION_INVALID'', ''MCP_NAME_CONFLICT''}
   | _ \<Rightarrow> False)"

definition drop_continuation :: "Intent \<Rightarrow> Intent" where
  "drop_continuation st = st\<lparr> it_interrupted := None, it_episode := None, it_resume_goal := None \<rparr>"

definition retry_for_message :: "Intent \<Rightarrow> Intent" where
  "retry_for_message st = (drop_continuation st)\<lparr> it_resend := True \<rparr>"

definition message_pending :: Fault where
  "message_pending = Fault_new ''MESSAGE_PENDING'' ''A message is already waiting for the connection.''"

definition recover_for_message :: "Intent \<Rightarrow> (Fault + unit) \<times> Intent" where
  "recover_for_message st =
    (if it_pending_message st \<noteq> None then (Inl message_pending, st)
     else (Inr (), (drop_continuation st)\<lparr> it_pending_message := Some False \<rparr>))"

definition pending_message_drop :: "Intent \<Rightarrow> Intent" where
  "pending_message_drop st = st\<lparr> it_pending_message := None \<rparr>"

text \<open>\<open>route.rs\<close>: the last looks at the intent before an operation is sent.\<close>

definition recovery_not_cancelled :: "string option \<Rightarrow> Intent \<Rightarrow> Fault + unit" where
  "recovery_not_cancelled recovery_turn st =
    (case recovery_turn of
       Some turn \<Rightarrow> if is_cancelled turn st
         then Inl (Fault_new ''RECOVERY_CANCELLED'' ''automatic continuation was cancelled'') else Inr ()
     | None \<Rightarrow> Inr ())"

definition message_not_cancelled :: "bool \<Rightarrow> Intent \<Rightarrow> Fault + unit" where
  "message_not_cancelled is_turn st =
    (if is_turn \<and> it_pending_message st = Some True
     then Inl (Fault_new ''MESSAGE_CANCELLED'' ''Message cancelled before submission.'') else Inr ())"

text \<open>\<open>supervisor.rs\<close>: a continuation that was submitted is the active turn, unless it is
  already over.\<close>

definition continuation_submitted :: "string \<Rightarrow> Intent \<Rightarrow> Intent" where
  "continuation_submitted i st = (if it_completed st \<noteq> Some i then st\<lparr> it_active := Some i \<rparr> else st)"

text \<open>\<open>editing.rs\<close>: a history that was reverted leaves no work to continue.\<close>

definition intent_reverted :: "Intent \<Rightarrow> Intent" where
  "intent_reverted st = (Intent_with_status ((it_status st)\<lparr> ss_usage := None \<rparr>))
     \<lparr> it_settings := it_settings st, it_goal := it_goal st \<rparr>"

text \<open>\<open>goals.rs\<close>: the two halves of \<open>load_goal\<close> around the native read, \<open>idle\<close>, the suspension
  of an active goal and the tests of \<open>restore_goal\<close> around its read.\<close>

definition load_goal_finish :: "64 word \<Rightarrow> Goal option \<Rightarrow> Intent \<Rightarrow> Intent" where
  "load_goal_finish revision goal st =
    (if it_goal_revision st = revision
     then st\<lparr> it_goal := goal, it_goal_revision := it_goal_revision st + 1 \<rparr> else st)"

definition intent_idle :: "Intent \<Rightarrow> Fault + unit" where
  "intent_idle st =
    (if it_active st \<noteq> None
     then Inl (Fault_new ''TURN_ACTIVE'' ''Stop the current turn before changing mode or starting a goal.'')
     else Inr ())"

definition goal_is_active :: "Intent \<Rightarrow> bool" where
  "goal_is_active st = (case it_goal st of Some g \<Rightarrow> go_status g = Goal_Active | None \<Rightarrow> False)"

definition active_objective :: "Intent \<Rightarrow> string option" where
  "active_objective st =
    (case it_goal st of
       Some g \<Rightarrow> if go_status g = Goal_Active then Some (go_objective g) else None
     | None \<Rightarrow> None)"

definition suspend_goal :: "string \<Rightarrow> Intent \<Rightarrow> Intent" where
  "suspend_goal objective st = st\<lparr> it_resume_goal := Some objective \<rparr>"

text \<open>A replaced backend reports the goal it was restored with.\<close>

definition goal_replaced :: "Goal option \<Rightarrow> Intent \<Rightarrow> Intent" where
  "goal_replaced goal st = st\<lparr> it_goal := goal, it_goal_revision := it_goal_revision st + 1 \<rparr>"

definition forget_goal :: "Intent \<Rightarrow> Intent" where
  "forget_goal st = st\<lparr> it_resume_goal := None \<rparr>"

definition work_pending :: "Intent \<Rightarrow> bool" where
  "work_pending st \<longleftrightarrow> it_interrupted st \<noteq> None \<or> it_episode st \<noteq> None \<or> it_pending_message st \<noteq> None"

definition restore_goal_start :: "Intent \<Rightarrow> string option" where
  "restore_goal_start st = (if work_pending st then None else it_resume_goal st)"

definition goal_paused :: "string \<Rightarrow> Goal option \<Rightarrow> bool" where
  "goal_paused objective goal =
    (case goal of Some g \<Rightarrow> go_objective g = objective \<and> go_status g = Goal_Paused | None \<Rightarrow> False)"

definition restore_goal_check :: "string \<Rightarrow> Goal option \<Rightarrow> Intent \<Rightarrow> bool \<times> Intent" where
  "restore_goal_check objective goal st =
    (if it_resume_goal st \<noteq> Some objective \<or> work_pending st then (False, st)
     else if \<not> goal_paused objective goal then (False, st\<lparr> it_resume_goal := None \<rparr>)
     else (True, st))"

definition restore_goal_finish :: "string \<Rightarrow> Intent \<Rightarrow> Intent" where
  "restore_goal_finish objective st =
    (if it_resume_goal st = Some objective then st\<lparr> it_resume_goal := None \<rparr> else st)"

text \<open>\<open>status.rs\<close>: the end of reading the rate limits.\<close>

definition status_finish :: "64 word \<Rightarrow> int \<Rightarrow> Fault + RateLimit list \<Rightarrow> Intent \<Rightarrow> Intent" where
  "status_finish revision at limits st =
    (if it_limits_revision st = revision
     then (case limits of
         Inr limits \<Rightarrow> st\<lparr> it_status := (it_status st)\<lparr> ss_limits := limits, ss_limits_error := None,
             ss_limits_updated_at := Some at \<rparr> \<rparr>
       | Inl error \<Rightarrow> st\<lparr> it_status := (it_status st)\<lparr> ss_limits_error := Some (fault_message error) \<rparr> \<rparr>)
     else st)"

text \<open>\<open>events.rs\<close>: the end of the visible turn whose backend is gone: the intent, what is sent
  to the desktop and what is sent to the native frontend.\<close>

definition finish_disconnected_turn ::
  "native \<Rightarrow> int \<Rightarrow> string \<Rightarrow> string option \<Rightarrow> Intent \<Rightarrow> bool \<times> Intent \<times> SessionEvent list \<times> json list" where
  "finish_disconnected_turn N at session message st =
    (case it_current_turn st of
       None \<Rightarrow> (False, st, [], [])
     | Some turn \<Rightarrow>
         if ts_status turn \<noteq> ''inProgress'' then (False, st, [], [])
         else
           let event = (case message of Some m \<Rightarrow> failed_event session (ts_id turn) m
                        | None \<Rightarrow> interrupted_event session (ts_id turn));
               shown = (case public_event N event of Some e \<Rightarrow> [e] | None \<Rightarrow> []);
               activity = ActivityChanged ''idle'' [] in
           (True, intent_observe at activity (fold (intent_observe at) shown st),
            shown @ [activity], [event]))"

section \<open>Runs of a session\<close>

text \<open>Every section that changes the intent, in any order.  A reading of the goal or of the
  limits ends with the revision it started from.\<close>

datatype IntentEvent =
  Observed int SessionEvent
| Disconnected string
| User_Cancels string
| Continues bool
| Continuation_Submitted string
| Native_Message
| Desktop_Message
| Desktop_Message_Ends
| Goal_Suspended string
| Goal_Replaced "Goal option"
| Goal_Forgotten
| Goal_Read "64 word" "Goal option"
| Goal_Checked string "Goal option"
| Goal_Restored string
| Limits_Read "64 word" int "Fault + RateLimit list"
| Settings_Confirmed json
| Recovery_Announced
| Reverted

fun intent_apply :: "IntentEvent \<Rightarrow> Intent \<Rightarrow> Intent" where
  "intent_apply (Observed at e) st = intent_observe at e st"
| "intent_apply (Disconnected episode) st = intent_disconnect episode st"
| "intent_apply (User_Cancels turn) st = intent_cancel turn st"
| "intent_apply (Continues rebuilt) st = snd (intent_continuation rebuilt st)"
| "intent_apply (Continuation_Submitted i) st = continuation_submitted i st"
| "intent_apply Native_Message st = retry_for_message st"
| "intent_apply Desktop_Message st = snd (recover_for_message st)"
| "intent_apply Desktop_Message_Ends st = pending_message_drop st"
| "intent_apply (Goal_Suspended objective) st = suspend_goal objective st"
| "intent_apply (Goal_Replaced goal) st = goal_replaced goal st"
| "intent_apply Goal_Forgotten st = forget_goal st"
| "intent_apply (Goal_Read revision goal) st = load_goal_finish revision goal st"
| "intent_apply (Goal_Checked objective goal) st = snd (restore_goal_check objective goal st)"
| "intent_apply (Goal_Restored objective) st = restore_goal_finish objective st"
| "intent_apply (Limits_Read revision at limits) st = status_finish revision at limits st"
| "intent_apply (Settings_Confirmed v) st = st\<lparr> it_settings := v \<rparr>"
| "intent_apply Recovery_Announced st = st\<lparr> it_resend := False \<rparr>"
| "intent_apply Reverted st = intent_reverted st"

definition intent_run :: "IntentEvent list \<Rightarrow> Intent \<Rightarrow> Intent" where
  "intent_run es st = fold intent_apply es st"

lemma intent_run_simps [simp]:
  "intent_run [] st = st" "intent_run (e # es) st = intent_run es (intent_apply e st)"
  "intent_run (as @ bs) st = intent_run bs (intent_run as st)"
  by (simp_all add: intent_run_def)

text \<open>What ends the claim of a turn to be continued: its cancellation, a new instruction of the
  user, a turn that ran to its end, a reverted history, or a continuation.\<close>

fun ends_claim :: "string \<Rightarrow> Intent \<Rightarrow> IntentEvent \<Rightarrow> bool" where
  "ends_claim t st (User_Cancels u) = (u = t)"
| "ends_claim t st Native_Message = True"
| "ends_claim t st Desktop_Message = (it_pending_message st = None)"
| "ends_claim t st (Observed at (TurnCompleted i timing outcome)) = (outcome = Turn_Completed)"
| "ends_claim t st Reverted = True"
| "ends_claim t st (Continues rebuilt) =
    (it_pending_message st = None \<and> (rebuilt \<or> it_active st = None))"
| "ends_claim t st _ = False"

fun undisturbed :: "string \<Rightarrow> Intent \<Rightarrow> IntentEvent list \<Rightarrow> bool" where
  "undisturbed t st [] = True"
| "undisturbed t st (e # es) = (\<not> ends_claim t st e \<and> undisturbed t (intent_apply e st) es)"

lemma undisturbed_snoc:
  "undisturbed t st (es @ [e]) = (undisturbed t st es \<and> \<not> ends_claim t (intent_run es st) e)"
  by (induction es arbitrary: st) auto

lemma intent_step_interrupted:
  assumes "it_interrupted (intent_apply e st) = Some t" "it_episode (intent_apply e st) = Some ep"
  shows "(it_interrupted st = Some t \<and> it_episode st = Some ep \<and> \<not> ends_claim t st e)
    \<or> (e = Disconnected ep \<and> it_episode st = None \<and> it_active st = Some t \<and> it_cancelled st \<noteq> Some t)"
proof (cases e)
  case (Observed at event)
  then show ?thesis using assms
    by (cases event) (auto simp: observe_completed_def Let_def split: option.splits if_splits)
next
  case (Disconnected u)
  then show ?thesis using assms by (auto simp: intent_disconnect_def split: if_splits option.splits)
next
  case (User_Cancels u)
  then show ?thesis using assms by (auto simp: intent_cancel_def split: if_splits)
next
  case (Continues r)
  then show ?thesis using assms by (auto simp: intent_continuation_def split: if_splits)
next
  case Desktop_Message
  then show ?thesis using assms by (auto simp: recover_for_message_def drop_continuation_def split: if_splits)
next
  case (Limits_Read r at limits)
  then show ?thesis using assms by (auto simp: status_finish_def split: if_splits sum.splits)
qed (use assms in \<open>auto simp: continuation_submitted_def retry_for_message_def drop_continuation_def
      pending_message_drop_def suspend_goal_def goal_replaced_def forget_goal_def load_goal_finish_def
      restore_goal_check_def restore_goal_finish_def intent_reverted_def Intent_with_status_def
      split: if_splits option.splits\<close>)

text \<open>A claim goes back to one disconnection.\<close>

definition claimed :: "IntentEvent list \<Rightarrow> Intent \<Rightarrow> string \<Rightarrow> string \<Rightarrow> bool" where
  "claimed es start ep t \<longleftrightarrow> (\<exists>as bs. es = as @ Disconnected ep # bs
     \<and> it_active (intent_run as start) = Some t \<and> it_cancelled (intent_run as start) \<noteq> Some t
     \<and> it_episode (intent_run as start) = None
     \<and> undisturbed t (intent_run (as @ [Disconnected ep]) start) bs)"

lemma claimed_step:
  assumes "claimed es start ep t" "\<not> ends_claim t (intent_run es start) e"
  shows "claimed (es @ [e]) start ep t"
proof -
  obtain as bs where "es = as @ Disconnected ep # bs \<and> it_active (intent_run as start) = Some t
      \<and> it_cancelled (intent_run as start) \<noteq> Some t \<and> it_episode (intent_run as start) = None
      \<and> undisturbed t (intent_run (as @ [Disconnected ep]) start) bs"
    using assms(1) unfolding claimed_def by blast
  then show ?thesis using assms(2) unfolding claimed_def
    by (intro exI [of _ as] exI [of _ "bs @ [e]"]) (simp add: undisturbed_snoc)
qed

lemma interrupted_claimed:
  "it_episode start = None \<Longrightarrow> it_interrupted (intent_run es start) = Some t
    \<Longrightarrow> it_episode (intent_run es start) = Some ep \<Longrightarrow> claimed es start ep t"
proof (induction es rule: rev_induct)
  case Nil
  then show ?case by simp
next
  case (snoc e es)
  let ?st = "intent_run es start"
  from snoc.prems intent_step_interrupted [of e ?st t ep]
  consider "it_interrupted ?st = Some t" "it_episode ?st = Some ep" "\<not> ends_claim t ?st e"
    | "e = Disconnected ep" "it_episode ?st = None" "it_active ?st = Some t" "it_cancelled ?st \<noteq> Some t"
    by auto
  then show ?case
  proof cases
    case 1
    then show ?thesis using snoc.IH [OF snoc.prems(1) 1(1,2)] claimed_step by blast
  next
    case 2
    then show ?thesis unfolding claimed_def by (intro exI [of _ es] exI [of _ "[]"]) simp
  qed
qed

text \<open>C6: automatic continuation never repeats or revives work.  Whatever a session does, a
  turn is continued only for one disconnection: the turn was active and not cancelled
  then, and since then it was not cancelled, no turn ran to its end, the user gave no new
  instruction, the history was not reverted, and nothing was continued; and no message
  is waiting.\<close>

theorem continuation_justified:
  assumes start: "it_episode start = None"
    and cont: "fst (intent_continuation rebuilt (intent_run es start)) = Some (ep, t)"
  shows "claimed es start ep t \<and> it_pending_message (intent_run es start) = None
    \<and> (rebuilt \<or> it_active (intent_run es start) = None)
    \<and> fst (intent_continuation rebuilt' (snd (intent_continuation rebuilt (intent_run es start)))) = None"
proof -
  let ?st = "intent_run es start"
  have p: "it_pending_message ?st = None" and a: "rebuilt \<or> it_active ?st = None"
    and e: "it_episode ?st = Some ep" "it_interrupted ?st = Some t"
    using cont by (auto simp: intent_continuation_def split: if_splits option.splits)
  have "fst (intent_continuation rebuilt' (snd (intent_continuation rebuilt ?st))) = None"
    using a p by (cases rebuilt) (simp_all add: intent_continuation_def)
  then show ?thesis using interrupted_claimed [OF start e(2,1)] p a by simp
qed

definition demo_session :: "IntentEvent list" where
  "demo_session = [Observed 0 (TurnStarted ''t1'' TurnTiming_default), User_Cancels ''t0'',
     Disconnected ''e1'', Disconnected ''e2'', Observed 1 (ActivityChanged ''idle'' [])]"

lemma continuation_justified_witness:
  "claimed demo_session (Intent_with_status SessionStatus_default) ''e1'' ''t1''"
  by (rule conjunct1 [OF continuation_justified [where rebuilt = True]])
    (simp_all add: demo_session_def Intent_with_status_def intent_continuation_def intent_disconnect_def
      intent_cancel_def)

section \<open>Readings that race with notifications\<close>

fun changes_goal :: "Intent \<Rightarrow> IntentEvent \<Rightarrow> bool" where
  "changes_goal st (Observed at (GoalChanged goal)) = True"
| "changes_goal st (Goal_Read revision goal) = (it_goal_revision st = revision)"
| "changes_goal st (Goal_Replaced goal) = True"
| "changes_goal st _ = False"

fun goal_changes :: "Intent \<Rightarrow> IntentEvent list \<Rightarrow> nat" where
  "goal_changes st [] = 0"
| "goal_changes st (e # es) = (if changes_goal st e then 1 else 0) + goal_changes (intent_apply e st) es"

lemma goal_revision_step:
  "e \<noteq> Reverted \<Longrightarrow> it_goal_revision (intent_apply e st) =
    it_goal_revision st + (if changes_goal st e then 1 else 0)
    \<and> (\<not> changes_goal st e \<longrightarrow> it_goal (intent_apply e st) = it_goal st)"
proof (cases e)
  case (Observed at event)
  then show ?thesis by (cases event) (auto simp: observe_completed_def Let_def split: option.splits)
qed (auto simp: continuation_submitted_def retry_for_message_def drop_continuation_def
      pending_message_drop_def suspend_goal_def goal_replaced_def forget_goal_def load_goal_finish_def
      restore_goal_check_def restore_goal_finish_def intent_disconnect_def intent_cancel_def
      intent_continuation_def recover_for_message_def status_finish_def
      split: if_splits option.splits sum.splits)

lemma goal_revision_run:
  "Reverted \<notin> set es \<Longrightarrow> it_goal_revision (intent_run es st) = it_goal_revision st + of_nat (goal_changes st es)
    \<and> (goal_changes st es = 0 \<longrightarrow> it_goal (intent_run es st) = it_goal st)"
proof (induction es arbitrary: st)
  case Nil
  then show ?case by simp
next
  case (Cons e es)
  then show ?case using goal_revision_step [of e st] by (auto split: if_splits)
qed

text \<open>\<open>goal_gate\<close>: the lock that goal operations and reverts hold.  Its holder is a task; while the
  task waits in \<open>load_goal\<close> for the backend, the gate also has the revision it started from.  The
  one reading without the gate, at the end of \<open>start\<close>, runs before any other task has the session.\<close>

record goal_gated =
  gg_intent :: Intent
  gg_gate :: "(nat \<times> 64 word option) option"

datatype GateEvent =
  Gate_Locks nat
| Gate_Unlocks nat
| Reading_Starts nat
| Reading_Fails nat
| Reading_Ends nat "Goal option"
| Gate_Reverts nat
| Ungated IntentEvent

definition ungated :: "IntentEvent \<Rightarrow> bool" where
  "ungated e \<longleftrightarrow> (case e of Goal_Read revision goal \<Rightarrow> False | Reverted \<Rightarrow> False | _ \<Rightarrow> True)"

text \<open>An event that is not possible, such as locking a gate that is held, changes nothing: the task
  waits.\<close>

fun gate_apply :: "GateEvent \<Rightarrow> goal_gated \<Rightarrow> goal_gated" where
  "gate_apply (Gate_Locks i) y = (if gg_gate y = None then y\<lparr> gg_gate := Some (i, None) \<rparr> else y)"
| "gate_apply (Gate_Unlocks i) y =
    (case gg_gate y of Some (j, r) \<Rightarrow> if i = j then y\<lparr> gg_gate := None \<rparr> else y | None \<Rightarrow> y)"
| "gate_apply (Reading_Starts i) y =
    (if gg_gate y = Some (i, None) then y\<lparr> gg_gate := Some (i, Some (it_goal_revision (gg_intent y))) \<rparr> else y)"
| "gate_apply (Reading_Fails i) y =
    (case gg_gate y of Some (j, Some r) \<Rightarrow> if i = j then y\<lparr> gg_gate := Some (i, None) \<rparr> else y | _ \<Rightarrow> y)"
| "gate_apply (Reading_Ends i goal) y =
    (case gg_gate y of
       Some (j, Some r) \<Rightarrow>
         if i = j then y\<lparr> gg_intent := load_goal_finish r goal (gg_intent y), gg_gate := Some (i, None) \<rparr> else y
     | _ \<Rightarrow> y)"
| "gate_apply (Gate_Reverts i) y =
    (if gg_gate y = Some (i, None) then y\<lparr> gg_intent := intent_reverted (gg_intent y) \<rparr> else y)"
| "gate_apply (Ungated e) y = (if ungated e then y\<lparr> gg_intent := intent_apply e (gg_intent y) \<rparr> else y)"

fun gate_actor :: "GateEvent \<Rightarrow> nat option" where
  "gate_actor (Gate_Locks i) = Some i"
| "gate_actor (Gate_Unlocks i) = Some i"
| "gate_actor (Reading_Starts i) = Some i"
| "gate_actor (Reading_Fails i) = Some i"
| "gate_actor (Reading_Ends i goal) = Some i"
| "gate_actor (Gate_Reverts i) = Some i"
| "gate_actor (Ungated e) = None"

definition gate_run :: "GateEvent list \<Rightarrow> goal_gated \<Rightarrow> goal_gated" where
  "gate_run es y = fold gate_apply es y"

fun gate_sections :: "GateEvent list \<Rightarrow> IntentEvent list" where
  "gate_sections [] = []"
| "gate_sections (Ungated e # es) = (if ungated e then e # gate_sections es else gate_sections es)"
| "gate_sections (_ # es) = gate_sections es"

text \<open>While a task holds the gate and waits, the others only run sections that need no gate.\<close>

lemma gate_held:
  "gg_gate y = Some (i, Some r) \<Longrightarrow> \<forall>e\<in>set es. gate_actor e \<noteq> Some i \<Longrightarrow>
    gg_gate (gate_run es y) = Some (i, Some r) \<and> gg_intent (gate_run es y) = intent_run (gate_sections es) (gg_intent y)"
proof (induction es arbitrary: y)
  case (Cons e es)
  have "gg_gate (gate_apply e y) = Some (i, Some r)
      \<and> intent_run (gate_sections (e # es)) (gg_intent y) = intent_run (gate_sections es) (gg_intent (gate_apply e y))"
    using Cons.prems by (cases e) auto
  then show ?case using Cons.IH [of "gate_apply e y"] Cons.prems(2) by (simp add: gate_run_def)
qed (simp add: gate_run_def)

lemma gate_sections_ungated: "Reverted \<notin> set (gate_sections es)"
proof (induction es)
  case (Cons e es)
  then show ?case by (cases e) (auto simp: ungated_def)
qed simp

text \<open>C27: reading the goal never overwrites a newer one.  A task that holds the goal gate asks the
  backend for the goal; until the answer is there, other tasks do whatever they do in any order,
  attempts to take the gate, to read or to revert included.  If the goal changed meanwhile, the answer
  is dropped, and if it did not, the answer is stored; the revisions tell these apart as long as
  fewer than \<open>2 ^ 64\<close> changes fall into one reading.\<close>

theorem goal_reading_never_stale:
  assumes held: "gg_gate y = Some (i, None)" and others: "\<forall>e\<in>set es. gate_actor e \<noteq> Some i"
    and "y' = gate_run es (gate_apply (Reading_Starts i) y)"
    and "n = goal_changes (gg_intent y) (gate_sections es)" "n < 2 ^ 64"
  shows "it_goal (gg_intent (gate_apply (Reading_Ends i goal) y')) = (if n = 0 then goal else it_goal (gg_intent y'))
    \<and> (n = 0 \<longrightarrow> it_goal (gg_intent y') = it_goal (gg_intent y))"
proof -
  let ?st = "gg_intent y" and ?es = "gate_sections es"
  have y': "gg_gate y' = Some (i, Some (it_goal_revision ?st))" "gg_intent y' = intent_run ?es ?st"
    using gate_held [OF _ others, of "gate_apply (Reading_Starts i) y" "it_goal_revision ?st"] held assms(3) by simp_all
  have "(of_nat n :: 64 word) = 0 \<longleftrightarrow> n = 0"
    using assms(5) by (auto simp: word_of_nat_eq_0_iff dest: nat_dvd_not_less)
  then show ?thesis using goal_revision_run [OF gate_sections_ungated, of es ?st] assms(4) y'
    by (simp add: load_goal_finish_def)
qed

definition demo_goal :: Goal where
  "demo_goal = \<lparr> go_thread_id = ''t'', go_objective = ''tidy'', go_status = Goal_Active,
     go_token_budget = None, go_tokens_used = 0, go_time_used = 0 \<rparr>"

lemma goal_reading_never_stale_witness:
  "it_goal (gg_intent (gate_apply (Reading_Ends 1 (Some demo_goal)) (gate_run [Gate_Reverts 2, Ungated (Observed 0 (GoalChanged None))]
      (gate_apply (Reading_Starts 1)
        \<lparr> gg_intent = Intent_with_status SessionStatus_default, gg_gate = Some (1, None) \<rparr>)))) = None"
proof -
  let ?y = "\<lparr> gg_intent = Intent_with_status SessionStatus_default, gg_gate = Some (1, None) \<rparr>"
  let ?es = "[Gate_Reverts 2, Ungated (Observed 0 (GoalChanged None))]"
  have n: "1 = goal_changes (gg_intent ?y) (gate_sections ?es)" by (simp add: ungated_def)
  have "it_goal (gg_intent (gate_run ?es (gate_apply (Reading_Starts 1) ?y))) = None"
    by (simp add: gate_run_def ungated_def)
  then show ?thesis
    using goal_reading_never_stale [of ?y 1 ?es _ 1 "Some demo_goal", OF _ _ refl n] by simp
qed

section \<open>The turn of a lost backend\<close>

lemma ended_event_public:
  "public_event N (interrupted_event session turn) = Some (TurnCompleted turn TurnTiming_default Turn_Interrupted)"
  "public_event N (failed_event session turn m) = Some (TurnCompleted turn TurnTiming_default (Turn_Failed m))"
  "thread_id (interrupted_event session turn) = Some session" "thread_id (failed_event session turn m) = Some session"
  by (simp_all add: interrupted_event_def failed_event_def warning_event_def turn_ended_def
      thread_id_def json_index_def public_event_def status_event_def goal_event_def tool_event_def
      method_event_def turn_timing_def turn_outcome_def pointer_text_def pointer_string_def or_empty_def
      TurnTiming_default_def)

text \<open>C28: a visible turn whose backend is gone is ended exactly once, as the turn it was: the
  intent, the desktop and the native frontend are told the same turn and outcome, the
  time it started is kept, the session is idle, and ending it again does nothing.\<close>

theorem disconnected_turn_finished_once:
  assumes turn: "it_current_turn st = Some turn" and running: "ts_status turn = ''inProgress''"
    and ended: "ended = (case message of Some m \<Rightarrow> Turn_Failed m | None \<Rightarrow> Turn_Interrupted)"
  shows "\<exists>st' event. finish_disconnected_turn N at session message st
      = (True, st', [TurnCompleted (ts_id turn) TurnTiming_default ended, ActivityChanged ''idle'' []], [event])
    \<and> session_event N event session = Some (TurnCompleted (ts_id turn) TurnTiming_default ended)
    \<and> it_current_turn st' = Some (turn\<lparr> ts_status := outcome_name ended,
         ts_timing := TurnTiming_default\<lparr> ti_started_at := ti_started_at (ts_timing turn) \<rparr> \<rparr>)
    \<and> it_active st' \<noteq> Some (ts_id turn) \<and> it_interrupted st' = it_interrupted st
    \<and> finish_disconnected_turn N at session message' st' = (False, st', [], [])"
proof -
  define event where "event = (case message of Some m \<Rightarrow> failed_event session (ts_id turn) m
    | None \<Rightarrow> interrupted_event session (ts_id turn))"
  have public: "public_event N event = Some (TurnCompleted (ts_id turn) TurnTiming_default ended)"
    and thread: "thread_id event = Some session"
    by (simp_all add: event_def ended ended_event_public split: option.split)
  let ?st = "intent_observe at (ActivityChanged ''idle'' []) (observe_completed (ts_id turn) TurnTiming_default ended st)"
  have run: "finish_disconnected_turn N at session message st
      = (True, ?st, [TurnCompleted (ts_id turn) TurnTiming_default ended, ActivityChanged ''idle'' []], [event])"
    using public by (simp add: finish_disconnected_turn_def turn running event_def Let_def)
  let ?turn = "turn\<lparr> ts_status := outcome_name ended,
      ts_timing := TurnTiming_default\<lparr> ti_started_at := ti_started_at (ts_timing turn) \<rparr> \<rparr>"
  have kept: "it_current_turn ?st = Some ?turn"
    using turn by (cases turn) (simp add: observe_completed_def TurnTiming_default_def)
  moreover have "ts_status ?turn \<noteq> ''inProgress''" by (cases ended) simp_all
  ultimately have again: "finish_disconnected_turn N at session message' ?st = (False, ?st, [], [])"
    by (simp add: finish_disconnected_turn_def del: intent_observe.simps)
  have "ended \<noteq> Turn_Completed" by (simp add: ended split: option.split)
  then have "it_active ?st \<noteq> Some (ts_id turn)" "it_interrupted ?st = it_interrupted st"
    using turn by (simp_all add: observe_completed_def)
  then show ?thesis using run kept again public thread
    by (intro exI [of _ ?st] exI [of _ event]) (simp add: session_event_def del: intent_observe.simps)
qed

lemma disconnected_turn_finished_once_witness:
  "\<exists>st' event. finish_disconnected_turn demo_native 0 ''s'' (Some ''gone'')
      (intent_observe 0 (TurnStarted ''t'' TurnTiming_default) (Intent_with_status SessionStatus_default))
    = (True, st', [TurnCompleted ''t'' TurnTiming_default (Turn_Failed ''gone''), ActivityChanged ''idle'' []], [event])"
proof -
  let ?st = "intent_observe 0 (TurnStarted ''t'' TurnTiming_default) (Intent_with_status SessionStatus_default)"
  let ?turn = "\<lparr> ts_id = ''t'', ts_status = ''inProgress'', ts_timing = TurnTiming_default \<rparr>"
  have t: "it_current_turn ?st = Some ?turn" and r: "ts_status ?turn = ''inProgress''"
    and e: "Turn_Failed ''gone'' = (case Some ''gone'' of Some m \<Rightarrow> Turn_Failed m | None \<Rightarrow> Turn_Interrupted)"
    by simp_all
  from disconnected_turn_finished_once [OF t r e, of demo_native 0 "''s''" None]
  show ?thesis by (elim exE conjE) (intro exI, simp)
qed

end
