(* ===== verification/Core_Connection.thy ===== *)
theory Core_Connection
  imports Prelude "HOL-Library.Word"
begin

text \<open>
  Models \<open>core/src/connection.rs\<close>: SSH targets and the names of connections.  The addresses of
  the standard library (\<open>std::net\<close>) are read by its recursive descent parser and printed in the
  form of RFC 5952; an address is its list of groups, four of 8 or eight of 16 bits.
\<close>

section \<open>Addresses\<close>

definition decimal_digit :: "char \<Rightarrow> nat option" where
  "decimal_digit c = (if is_ascii_digit c then Some (byte c - 48) else None)"

definition hex_digit :: "char \<Rightarrow> nat option" where
  "hex_digit c =
    (if is_ascii_digit c then Some (byte c - 48)
     else if 97 \<le> byte c \<and> byte c \<le> 102 then Some (byte c - 87)
     else if 65 \<le> byte c \<and> byte c \<le> 70 then Some (byte c - 55)
     else None)"

fun read_digits :: "(char \<Rightarrow> nat option) \<Rightarrow> string \<Rightarrow> nat list \<times> string" where
  "read_digits conv [] = ([], [])"
| "read_digits conv (c # s) =
    (case conv c of None \<Rightarrow> ([], c # s)
     | Some d \<Rightarrow> let (ds, r) = read_digits conv s in (d # ds, r))"

definition number_of :: "nat \<Rightarrow> nat list \<Rightarrow> nat" where
  "number_of radix ds = foldl (\<lambda>n d. n * radix + d) 0 ds"

text \<open>\<open>read_number(radix, Some(digits), zeros)\<close> of a type whose largest value is the bound.\<close>

definition read_number ::
  "(char \<Rightarrow> nat option) \<Rightarrow> nat \<Rightarrow> nat \<Rightarrow> bool \<Rightarrow> nat \<Rightarrow> string \<Rightarrow> (nat \<times> string) option" where
  "read_number conv radix digits zeros bound s =
    (let (ds, r) = read_digits conv s in
     if ds = [] \<or> length ds > digits \<or> (\<not> zeros \<and> length ds > 1 \<and> hd ds = 0) \<or> number_of radix ds > bound
     then None else Some (number_of radix ds, r))"

abbreviation read_octet :: "string \<Rightarrow> (nat \<times> string) option" where
  "read_octet \<equiv> read_number decimal_digit 10 3 False 255"

abbreviation read_group :: "string \<Rightarrow> (nat \<times> string) option" where
  "read_group \<equiv> read_number hex_digit 16 4 True 65535"

text \<open>\<open>read_separator\<close>: the separator precedes every element but the first.\<close>

definition read_separator :: "char \<Rightarrow> bool \<Rightarrow> (string \<Rightarrow> ('a \<times> string) option) \<Rightarrow> string \<Rightarrow> ('a \<times> string) option" where
  "read_separator sep first p s =
    (if first then p s else (case s of [] \<Rightarrow> None | c # r \<Rightarrow> if c = sep then p r else None))"

fun read_octets :: "nat \<Rightarrow> bool \<Rightarrow> string \<Rightarrow> (nat list \<times> string) option" where
  "read_octets 0 first s = Some ([], s)"
| "read_octets (Suc k) first s =
    (case read_separator CHR ''.'' first read_octet s of None \<Rightarrow> None
     | Some (n, r) \<Rightarrow>
         (case read_octets k False r of None \<Rightarrow> None | Some (ns, r) \<Rightarrow> Some (n # ns, r)))"

definition read_ipv4_addr :: "string \<Rightarrow> (nat list \<times> string) option" where
  "read_ipv4_addr = read_octets 4 True"

text \<open>\<open>read_groups\<close>: up to so many groups; the last two may be an IPv4 address, which is
  reported.\<close>

fun read_groups :: "nat \<Rightarrow> bool \<Rightarrow> string \<Rightarrow> nat list \<times> bool \<times> string" where
  "read_groups 0 first s = ([], False, s)"
| "read_groups (Suc k) first s =
    (case (if k > 0 then read_separator CHR '':'' first read_ipv4_addr s else None) of
       Some (os, r) \<Rightarrow> ([os ! 0 * 256 + os ! 1, os ! 2 * 256 + os ! 3], True, r)
     | None \<Rightarrow>
         (case read_separator CHR '':'' first read_group s of
            None \<Rightarrow> ([], False, s)
          | Some (g, r) \<Rightarrow> let (gs, v4, r) = read_groups k False r in (g # gs, v4, r)))"

definition read_ipv6_addr :: "string \<Rightarrow> (nat list \<times> string) option" where
  "read_ipv6_addr s =
    (let (front, v4, r) = read_groups 8 True s in
     if length front = 8 then Some (front, r)
     else if v4 then None
     else if \<not> starts_with r ''::'' then None
     else
       let (rear, _, r) = read_groups (8 - (length front + 1)) True (drop 2 r) in
       Some (front @ replicate (8 - length front - length rear) 0 @ rear, r))"

definition parse_whole :: "(string \<Rightarrow> ('a \<times> string) option) \<Rightarrow> string \<Rightarrow> 'a option" where
  "parse_whole p s = (case p s of Some (x, []) \<Rightarrow> Some x | _ \<Rightarrow> None)"

definition Ipv6Addr_parse :: "string \<Rightarrow> nat list option" where
  "Ipv6Addr_parse = parse_whole read_ipv6_addr"

datatype IpAddr = V4 "nat list" | V6 "nat list"

definition IpAddr_parse :: "string \<Rightarrow> IpAddr option" where
  "IpAddr_parse = parse_whole (\<lambda>s. case read_ipv4_addr s of
     Some (os, r) \<Rightarrow> Some (V4 os, r)
   | None \<Rightarrow> map_option (\<lambda>(gs, r). (V6 gs, r)) (read_ipv6_addr s))"

text \<open>\<open>Display\<close>.\<close>

definition hex_char :: "nat \<Rightarrow> char" where
  "hex_char d = (if d < 10 then char_of (48 + d) else char_of (87 + d))"

fun show_hex :: "nat \<Rightarrow> string" where
  "show_hex n = (if n < 16 then [hex_char n] else show_hex (n div 16) @ [hex_char (n mod 16)])"

declare show_hex.simps [simp del]

definition Ipv4Addr_to_string :: "nat list \<Rightarrow> string" where
  "Ipv4Addr_to_string os =
    show_nat (os ! 0) @ ''.'' @ show_nat (os ! 1) @ ''.'' @ show_nat (os ! 2) @ ''.'' @ show_nat (os ! 3)"

fun show_groups :: "nat list \<Rightarrow> string" where
  "show_groups [] = []"
| "show_groups [g] = show_hex g"
| "show_groups (g # gs) = show_hex g @ '':'' @ show_groups gs"

text \<open>The first of the longest runs of zero groups, as its start and length: position, the run
  that ends here, the longest one.\<close>

fun longest_zeros :: "nat \<Rightarrow> nat \<times> nat \<Rightarrow> nat \<times> nat \<Rightarrow> nat list \<Rightarrow> nat \<times> nat" where
  "longest_zeros i current longest [] = longest"
| "longest_zeros i current longest (g # gs) =
    (if g = 0 then
       let current = (if snd current = 0 then i else fst current, snd current + 1) in
       longest_zeros (i + 1) current (if snd current > snd longest then current else longest) gs
     else longest_zeros (i + 1) (0, 0) longest gs)"

definition to_ipv4_mapped :: "nat list \<Rightarrow> nat list option" where
  "to_ipv4_mapped gs =
    (if take 6 gs = [0, 0, 0, 0, 0, 65535]
     then Some [gs ! 6 div 256, gs ! 6 mod 256, gs ! 7 div 256, gs ! 7 mod 256] else None)"

definition Ipv6Addr_to_string :: "nat list \<Rightarrow> string" where
  "Ipv6Addr_to_string gs =
    (case to_ipv4_mapped gs of
       Some os \<Rightarrow> ''::ffff:'' @ Ipv4Addr_to_string os
     | None \<Rightarrow>
         let (start, len) = longest_zeros 0 (0, 0) (0, 0) gs in
         if len > 1 then show_groups (take start gs) @ ''::'' @ show_groups (drop (start + len) gs)
         else show_groups gs)"

fun IpAddr_to_string :: "IpAddr \<Rightarrow> string" where
  "IpAddr_to_string (V4 os) = Ipv4Addr_to_string os"
| "IpAddr_to_string (V6 gs) = Ipv6Addr_to_string gs"

section \<open>Endpoints\<close>

datatype EndpointError = InvalidTarget | InvalidPort | InvalidName

record SshEndpoint =
  ep_host :: string
  ep_user :: "string option"
  ep_port :: "16 word option"

definition valid_word :: "string \<Rightarrow> bool" where
  "valid_word word \<longleftrightarrow> word \<noteq> [] \<and> length word \<le> 253 \<and> \<not> starts_with word ''-''
     \<and> list_all (\<lambda>b. is_ascii_alphanumeric b \<or> b \<in> set ''._-'') word"

definition strip_suffix :: "string \<Rightarrow> string \<Rightarrow> string option" where
  "strip_suffix s p = (if ends_with s p then Some (take (length s - length p) s) else None)"

definition bracketed :: "string \<Rightarrow> string option" where
  "bracketed host = (case strip_prefix host ''['' of None \<Rightarrow> None | Some h \<Rightarrow> strip_suffix h '']'')"

definition parse_host :: "string \<Rightarrow> (EndpointError, string) result" where
  "parse_host host =
    (case bracketed host of
       Some inner \<Rightarrow> rbind (ok_or InvalidTarget (Ipv6Addr_parse inner)) (\<lambda>a. Inr (Ipv6Addr_to_string a))
     | None \<Rightarrow>
         (case IpAddr_parse host of
            Some address \<Rightarrow> Inr (IpAddr_to_string address)
          | None \<Rightarrow> if valid_word host then Inr host else Inl InvalidTarget))"

definition SshEndpoint_parse :: "string \<Rightarrow> 16 word option \<Rightarrow> (EndpointError, SshEndpoint) result" where
  "SshEndpoint_parse target port =
    (if port = Some 0 then Inl InvalidPort
     else
       rbind (case split_once ''@'' target of
           Some (user, host) \<Rightarrow> if valid_word user then Inr (Some user, host) else Inl InvalidTarget
         | None \<Rightarrow> Inr (None, target)) (\<lambda>(user, host).
       rbind (parse_host host) (\<lambda>host. Inr \<lparr> ep_host = host, ep_user = user, ep_port = port \<rparr>)))"

definition destination_of :: "SshEndpoint \<Rightarrow> string" where
  "destination_of e =
    (let host = (if CHR '':'' \<in> set (ep_host e) then ''['' @ ep_host e @ '']'' else ep_host e) in
     case ep_user e of Some user \<Rightarrow> user @ ''@'' @ host | None \<Rightarrow> host)"

definition SshEndpoint_validate :: "SshEndpoint \<Rightarrow> (EndpointError, unit) result" where
  "SshEndpoint_validate e =
    rbind (SshEndpoint_parse (destination_of e) (ep_port e)) (\<lambda>parsed.
      if parsed = e then Inr () else Inl InvalidTarget)"

definition default_name :: "SshEndpoint \<Rightarrow> string" where
  "default_name e = (case ep_port e of
     Some port \<Rightarrow> destination_of e @ '':'' @ show_nat (unat port) | None \<Rightarrow> destination_of e)"

text \<open>\<open>trim\<close> leaves a text alone when neither its first nor its last character is white.\<close>

definition validate_name :: "string \<Rightarrow> (EndpointError, unit) result" where
  "validate_name name =
    (if name = [] \<or> length name > 128 \<or> starts_with name ''-''
        \<or> is_whitespace (hd (str_chars name)) \<or> is_whitespace (last (str_chars name))
        \<or> list_ex is_control (str_chars name)
     then Inl InvalidName else Inr ())"

section \<open>Printed numbers are read back\<close>

definition stops_at :: "(char \<Rightarrow> nat option) \<Rightarrow> string \<Rightarrow> bool" where
  "stops_at conv s \<longleftrightarrow> (case s of [] \<Rightarrow> True | c # _ \<Rightarrow> conv c = None)"

lemma read_digits_append:
  "map conv s = map Some ds \<Longrightarrow> stops_at conv r \<Longrightarrow> read_digits conv (s @ r) = (ds, r)"
proof (induction s arbitrary: ds)
  case Nil
  then show ?case by (cases r) (simp_all add: stops_at_def)
next
  case (Cons c s)
  then show ?case by (cases ds) simp_all
qed

text \<open>What any positional printing gives: its digits, their value, no leading zero.\<close>

lemma printed_digits:
  fixes n :: nat
  assumes print: "\<And>n. sh n = (if n < radix then [chr n] else sh (n div radix) @ [chr (n mod radix)])"
    and digit: "\<And>d. d < radix \<Longrightarrow> conv (chr d) = Some d" and "1 < radix"
  shows "\<exists>ds. map conv (sh n) = map Some ds \<and> number_of radix ds = n \<and> ds \<noteq> [] \<and> (length ds > 1 \<longrightarrow> hd ds \<noteq> 0)
    \<and> (n > 0 \<longrightarrow> hd ds \<noteq> 0) \<and> (\<forall>k > 0. n < radix ^ k \<longrightarrow> length ds \<le> k)"
proof (induction n rule: less_induct)
  case (less n)
  show ?case
  proof (cases "n < radix")
    case True
    have "sh n = [chr n]" using print [of n] True by simp
    with True digit show ?thesis by (intro exI [of _ "[n]"]) (auto simp: number_of_def)
  next
    case False
    then have "n div radix < n" "0 < n div radix" using assms(3) by (auto intro: div_less_dividend simp: div_greater_zero_iff)
    then obtain ds where ds: "map conv (sh (n div radix)) = map Some ds" "number_of radix ds = n div radix" "ds \<noteq> []"
        "hd ds \<noteq> 0" "\<forall>k > 0. n div radix < radix ^ k \<longrightarrow> length ds \<le> k"
      using less.IH by blast
    have "length (ds @ [n mod radix]) \<le> k" if "0 < k" "n < radix ^ k" for k
    proof -
      obtain j where k: "k = Suc j" using \<open>0 < k\<close> by (cases k) auto
      have "n div radix < radix ^ j" using that k assms(3) by (simp add: less_mult_imp_div_less mult.commute)
      moreover have "j > 0" using False that k by (cases j) auto
      ultimately show ?thesis using ds(5) k by auto
    qed
    moreover have "sh n = sh (n div radix) @ [chr (n mod radix)]" using print [of n] False by simp
    moreover have "conv (chr (n mod radix)) = Some (n mod radix)" using digit assms(3) by simp
    ultimately show ?thesis using ds
      by (intro exI [of _ "ds @ [n mod radix]"]) (auto simp: number_of_def hd_append)
  qed
qed

lemma digit_printed: "d < 10 \<Longrightarrow> decimal_digit (digit_char d) = Some d"
  by (simp add: decimal_digit_def digit_char_def is_ascii_digit_def)

lemma hex_printed: "d < 16 \<Longrightarrow> hex_digit (hex_char d) = Some d"
  by (simp add: hex_digit_def hex_char_def is_ascii_digit_def)

lemma read_octet_printed:
  assumes "n \<le> 255" "stops_at decimal_digit r"
  shows "read_octet (show_nat n @ r) = Some (n, r)"
proof -
  obtain ds where ds: "map decimal_digit (show_nat n) = map Some ds" "number_of 10 ds = n" "ds \<noteq> []"
      "length ds > 1 \<longrightarrow> hd ds \<noteq> 0" "\<forall>k > 0. n < 10 ^ k \<longrightarrow> length ds \<le> k"
    using printed_digits [OF show_nat.simps digit_printed, of n] by auto
  have "length ds \<le> 3" using ds(5) [rule_format, of 3] assms(1) by simp
  then show ?thesis using read_digits_append [OF ds(1) assms(2)] ds(2-4) assms(1) by (auto simp: read_number_def)
qed

lemma read_group_printed:
  assumes "n \<le> 65535" "stops_at hex_digit r"
  shows "read_group (show_hex n @ r) = Some (n, r)"
proof -
  obtain ds where ds: "map hex_digit (show_hex n) = map Some ds" "number_of 16 ds = n" "ds \<noteq> []"
      "\<forall>k > 0. n < 16 ^ k \<longrightarrow> length ds \<le> k"
    using printed_digits [OF show_hex.simps hex_printed, of n] by auto
  have "length ds \<le> 4" using ds(4) [rule_format, of 4] assms(1) by simp
  then show ?thesis using read_digits_append [OF ds(1) assms(2)] ds(2,3) assms(1) by (auto simp: read_number_def)
qed

lemma printed_chars:
  "list_all (\<lambda>c. decimal_digit c \<noteq> None) (show_nat n)" "list_all (\<lambda>c. hex_digit c \<noteq> None) (show_hex n)"
proof -
  have "\<exists>ds. map decimal_digit (show_nat n) = map Some ds" "\<exists>ds. map hex_digit (show_hex n) = map Some ds"
    using printed_digits [OF show_nat.simps digit_printed, of n] printed_digits [OF show_hex.simps hex_printed, of n] by auto
  then show "list_all (\<lambda>c. decimal_digit c \<noteq> None) (show_nat n)" "list_all (\<lambda>c. hex_digit c \<noteq> None) (show_hex n)"
    by (auto simp: list_all_iff) (metis in_set_conv_nth length_map nth_map option.distinct(1))+
qed

section \<open>Printed addresses are read back\<close>

definition octets_ok :: "nat list \<Rightarrow> bool" where
  "octets_ok os \<longleftrightarrow> length os = 4 \<and> list_all (\<lambda>n. n \<le> 255) os"

definition groups_ok :: "nat list \<Rightarrow> bool" where
  "groups_ok gs \<longleftrightarrow> list_all (\<lambda>n. n \<le> 65535) gs"

lemma stops_simps [simp]:
  "stops_at conv []" "stops_at conv (c # s) \<longleftrightarrow> conv c = None"
  by (simp_all add: stops_at_def)

lemma digit_simps [simp]:
  "decimal_digit CHR ''.'' = None" "decimal_digit CHR '':'' = None" "hex_digit CHR ''.'' = None" "hex_digit CHR '':'' = None"
  by (simp_all add: decimal_digit_def hex_digit_def is_ascii_digit_def)

lemma read_ipv4_steps: "read_ipv4_addr = read_octets (Suc (Suc (Suc (Suc 0)))) True"
  by (simp add: read_ipv4_addr_def numeral_eq_Suc)

lemma read_ipv4_printed:
  assumes "octets_ok os" "stops_at decimal_digit r"
  shows "read_ipv4_addr (Ipv4Addr_to_string os @ r) = Some (os, r)"
proof -
  obtain a b c d where os: "os = [a, b, c, d]" "a \<le> 255" "b \<le> 255" "c \<le> 255" "d \<le> 255"
    using assms(1) by (auto simp: octets_ok_def eval_nat_numeral length_Suc_conv)
  then show ?thesis using assms(2)
    by (simp add: read_ipv4_steps Ipv4Addr_to_string_def read_separator_def read_octet_printed)
qed

lemma read_digits_nonempty: "read_digits conv s = (d # ds, r) \<Longrightarrow> \<exists>c t. s = c # t \<and> conv c \<noteq> None"
  by (cases s) (auto split: option.splits)

lemma read_digits_rest: "read_digits conv s = (ds, r) \<Longrightarrow> \<exists>u. s = u @ r \<and> list_all (\<lambda>c. conv c \<noteq> None) u"
proof (induction s arbitrary: ds)
  case (Cons c s)
  then show ?case
    by (cases "conv c") (auto split: prod.splits intro: exI [of _ "c # _"])
qed simp

lemma read_number_rest: "read_number conv radix k z b s = Some (n, r) \<Longrightarrow> set r \<subseteq> set s"
  by (auto simp: read_number_def Let_def split: prod.splits if_splits dest!: read_digits_rest)

text \<open>An IPv4 address has a dot after its first number.\<close>

lemma no_ipv4: "CHR ''.'' \<notin> set s \<Longrightarrow> read_ipv4_addr s = None"
  by (auto simp: read_ipv4_steps read_separator_def dest!: read_number_rest split: option.splits list.splits)

definition groups_end :: "string \<Rightarrow> bool" where
  "groups_end r \<longleftrightarrow> r = [] \<or> (starts_with r ''::'' \<and> CHR ''.'' \<notin> set r)"

definition groups_text :: "bool \<Rightarrow> nat list \<Rightarrow> string" where
  "groups_text first gs = (if first \<or> gs = [] then show_groups gs else CHR '':'' # show_groups gs)"

lemma groups_text_Cons: "groups_text first (g # gs) = (if first then [] else '':'') @ show_hex g @ groups_text False gs"
  by (cases gs) (simp_all add: groups_text_def)

lemma hex_no_dot: "CHR ''.'' \<notin> set (show_hex g)" "CHR ''@'' \<notin> set (show_hex g)"
  using printed_chars(2) [of g] by (auto simp: list_all_iff hex_digit_def is_ascii_digit_def)

lemma groups_no_dot: "CHR ''.'' \<notin> set (show_groups gs)" "CHR ''@'' \<notin> set (show_groups gs)"
  by (induction gs rule: show_groups.induct) (simp_all add: hex_no_dot)

lemma read_group_None: "stops_at hex_digit s \<Longrightarrow> read_group s = None"
  by (cases s) (simp_all add: read_number_def)

lemma separator_no_ipv4: "CHR ''.'' \<notin> set s \<Longrightarrow> read_separator c first read_ipv4_addr s = None"
  by (auto simp: read_separator_def no_ipv4 split: list.splits)

lemma read_groups_printed:
  "groups_ok gs \<Longrightarrow> length gs \<le> k \<Longrightarrow> groups_end r \<Longrightarrow> read_groups k first (groups_text first gs @ r) = (gs, False, r)"
proof (induction gs arbitrary: k first)
  case Nil
  have dot: "CHR ''.'' \<notin> set r" using Nil(3) by (auto simp: groups_end_def)
  have "read_separator CHR '':'' first read_group r = None"
    using Nil(3) by (cases first) (auto simp: groups_end_def read_separator_def starts_with_iff read_group_None)
  then show ?case by (cases k) (simp_all add: groups_text_def separator_no_ipv4 [OF dot])
next
  case (Cons g gs)
  obtain j where k: "k = Suc j" "length gs \<le> j" using Cons.prems(2) by (cases k) auto
  have r: "CHR ''.'' \<notin> set (groups_text first (g # gs) @ r)"
    using Cons.prems(3) groups_no_dot(1) by (auto simp: groups_text_def groups_end_def)
  have "stops_at hex_digit (groups_text False gs @ r)"
    using Cons.prems(3) by (cases gs) (auto simp: groups_text_def groups_end_def starts_with_iff)
  moreover have "g \<le> 65535" using Cons.prems(1) by (simp add: groups_ok_def)
  ultimately have "read_group (show_hex g @ groups_text False gs @ r) = Some (g, groups_text False gs @ r)"
    by (simp add: read_group_printed)
  then have "read_separator CHR '':'' first read_group (groups_text first (g # gs) @ r) = Some (g, groups_text False gs @ r)"
    by (simp add: groups_text_Cons read_separator_def)
  moreover have "read_groups j False (groups_text False gs @ r) = (gs, False, r)"
    using Cons.IH [of j False] Cons.prems k by (simp add: groups_ok_def)
  moreover have "(if j > 0 then read_separator CHR '':'' first read_ipv4_addr (groups_text first (g # gs) @ r) else None) = None"
    by (simp add: separator_no_ipv4 [OF r])
  ultimately show ?case unfolding k(1) read_groups.simps by (simp only: option.case prod.case Let_def)
qed

lemma read_groups_plain:
  "groups_ok gs \<Longrightarrow> length gs \<le> k \<Longrightarrow> groups_end r \<Longrightarrow> read_groups k True (show_groups gs @ r) = (gs, False, r)"
  using read_groups_printed [of gs k r True] by (simp add: groups_text_def)

text \<open>The compressed form: what is left out is a run of zeros.\<close>

lemma read_compressed:
  assumes "groups_ok front" "groups_ok rear" "length front + length rear < 8"
  shows "read_ipv6_addr (show_groups front @ ''::'' @ show_groups rear)
    = Some (front @ replicate (8 - length front - length rear) 0 @ rear, [])"
proof -
  have "groups_end (''::'' @ show_groups rear)"
    using groups_no_dot(1) by (simp add: groups_end_def starts_with_def)
  then have "read_groups 8 True (show_groups front @ ''::'' @ show_groups rear) = (front, False, ''::'' @ show_groups rear)"
    using assms by (intro read_groups_plain) auto
  moreover have "read_groups (8 - (length front + 1)) True (show_groups rear @ []) = (rear, False, [])"
    using assms by (intro read_groups_plain) (auto simp: groups_end_def)
  ultimately show ?thesis using assms(3) by (simp add: read_ipv6_addr_def starts_with_def)
qed

lemma read_full: "groups_ok gs \<Longrightarrow> length gs = 8 \<Longrightarrow> read_ipv6_addr (show_groups gs) = Some (gs, [])"
  using read_groups_plain [of gs 8 "[]"] by (simp add: read_ipv6_addr_def groups_end_def)

text \<open>The longest run is one of zeros, inside the groups.\<close>

definition run_ok :: "nat list \<Rightarrow> nat \<times> nat \<Rightarrow> bool" where
  "run_ok xs run \<longleftrightarrow> snd run = 0 \<or> (fst run + snd run \<le> length xs \<and> take (snd run) (drop (fst run) xs) = replicate (snd run) 0)"

lemma run_ok_append: "run_ok xs run \<Longrightarrow> run_ok (xs @ ys) run"
  by (auto simp: run_ok_def)

lemma run_ok_extend:
  assumes "run_ok xs run" "snd run > 0 \<longrightarrow> fst run + snd run = length xs"
  shows "run_ok (xs @ [0]) (if snd run = 0 then length xs else fst run, snd run + 1)"
proof (cases "snd run = 0")
  case False
  then have "fst run \<le> length xs" "drop (fst run) xs = replicate (snd run) 0" using assms by (auto simp: run_ok_def)
  then show ?thesis using assms False by (simp add: run_ok_def replicate_append_same)
qed (simp add: run_ok_def)

lemma longest_zeros_run:
  "run_ok xs current \<Longrightarrow> snd current > 0 \<longrightarrow> fst current + snd current = length xs \<Longrightarrow> run_ok xs longest \<Longrightarrow>
    run_ok (xs @ gs) (longest_zeros (length xs) current longest gs)"
proof (induction gs arbitrary: xs current longest)
  case (Cons g gs)
  show ?case
  proof (cases "g = 0")
    case True
    define run where "run = (if snd current = 0 then length xs else fst current, snd current + 1)"
    define best where "best = (if snd run > snd longest then run else longest)"
    have "run_ok (xs @ [0]) run" unfolding run_def using Cons.prems(1,2) by (rule run_ok_extend)
    moreover have "fst run + snd run = length (xs @ [0])" using Cons.prems(2) by (auto simp: run_def)
    moreover have "run_ok (xs @ [0]) best" using calculation(1) Cons.prems(3) by (simp add: best_def run_ok_append)
    ultimately have "run_ok ((xs @ [0]) @ gs) (longest_zeros (length (xs @ [0])) run best gs)" by (intro Cons.IH) auto
    moreover have "longest_zeros (length xs) current longest (g # gs) = longest_zeros (length (xs @ [0])) run best gs"
      by (simp add: True run_def best_def Let_def)
    ultimately show ?thesis by (simp add: True)
  next
    case False
    have "run_ok (xs @ [g]) (0, 0)" by (simp add: run_ok_def)
    then have "run_ok ((xs @ [g]) @ gs) (longest_zeros (length (xs @ [g])) (0, 0) longest gs)"
      using Cons.prems(3) by (intro Cons.IH) (simp_all add: run_ok_append)
    then show ?thesis using False by simp
  qed
qed simp

lemma longest_zeros_split:
  assumes "longest_zeros 0 (0, 0) (0, 0) gs = (start, len)" "len > 0"
  shows "gs = take start gs @ replicate len 0 @ drop (start + len) gs" "start + len \<le> length gs"
proof -
  have "run_ok gs (start, len)" using longest_zeros_run [of "[]" "(0, 0)" "(0, 0)" gs] assms(1) by (simp add: run_ok_def)
  then have run: "start + len \<le> length gs" "take len (drop start gs) = replicate len 0" using assms(2) by (auto simp: run_ok_def)
  then show "start + len \<le> length gs" by blast
  show "gs = take start gs @ replicate len 0 @ drop (start + len) gs"
    using run by (metis append_take_drop_id add.commute drop_drop)
qed

text \<open>Every address is read back from its text.\<close>

lemma groups_ok_parts: "groups_ok gs \<Longrightarrow> groups_ok (take n gs)" "groups_ok gs \<Longrightarrow> groups_ok (drop n gs)"
  by (auto simp: groups_ok_def list_all_iff dest: in_set_takeD in_set_dropD)

lemma five_zeros: "replicate 5 (0::nat) = [0, 0, 0, 0, 0]"
  by (simp add: numeral_eq_Suc)

lemma mapped_read:
  assumes "octets_ok os"
  shows "read_ipv6_addr (''::ffff:'' @ Ipv4Addr_to_string os)
    = Some ([0, 0, 0, 0, 0, 65535, os ! 0 * 256 + os ! 1, os ! 2 * 256 + os ! 3], [])"
proof -
  let ?t = "Ipv4Addr_to_string os"
  have v4: "read_ipv4_addr ?t = Some (os, [])" using read_ipv4_printed [OF assms, of "[]"] by simp
  have f: "read_group (''ffff:'' @ ?t) = Some (65535, CHR '':'' # ?t)"
    by (simp add: read_number_def hex_digit_def is_ascii_digit_def number_of_def)
  have seven: "(7::nat) = Suc (Suc (Suc (Suc (Suc (Suc (Suc 0))))))"
    by (simp add: numeral_eq_Suc)
  have "read_ipv4_addr (''ffff:'' @ ?t) = None"
    by (simp add: read_ipv4_steps read_separator_def read_number_def decimal_digit_def is_ascii_digit_def)
  then have "read_groups (Suc (Suc (Suc (Suc (Suc (Suc (Suc 0))))))) True (''ffff:'' @ ?t)
      = ([65535, os ! 0 * 256 + os ! 1, os ! 2 * 256 + os ! 3], True, [])"
    using f v4 by (simp add: read_separator_def)
  then have rear: "read_groups 7 True (''ffff:'' @ ?t) = ([65535, os ! 0 * 256 + os ! 1, os ! 2 * 256 + os ! 3], True, [])"
    unfolding seven .
  have "read_ipv4_addr (''::ffff:'' @ ?t) = None" "read_group (''::ffff:'' @ ?t) = None"
    by (simp_all add: read_ipv4_steps read_separator_def read_number_def)
  then have "read_groups (Suc 7) True (''::ffff:'' @ ?t) = ([], False, ''::ffff:'' @ ?t)"
    unfolding read_groups.simps by (simp add: read_separator_def)
  then have "read_groups 8 True (''::ffff:'' @ ?t) = ([], False, ''::ffff:'' @ ?t)" by simp
  then show ?thesis using rear by (simp add: read_ipv6_addr_def starts_with_def five_zeros)
qed

lemma ipv6_printed:
  assumes "groups_ok gs" "length gs = 8"
  shows "read_ipv6_addr (Ipv6Addr_to_string gs) = Some (gs, [])"
proof (cases "to_ipv4_mapped gs")
  case (Some os)
  then have first: "take 6 gs = [0, 0, 0, 0, 0, 65535]" and os: "os = [gs ! 6 div 256, gs ! 6 mod 256, gs ! 7 div 256, gs ! 7 mod 256]"
    by (auto simp: to_ipv4_mapped_def split: if_splits)
  have "gs ! 6 \<le> 65535" "gs ! 7 \<le> 65535" using assms by (auto simp: groups_ok_def list_all_iff)
  then have "octets_ok os" by (auto simp: octets_ok_def os)
  have "drop 6 gs = [gs ! 6, gs ! 7]" using assms(2) by (simp add: Cons_nth_drop_Suc [symmetric])
  then have "gs = [0, 0, 0, 0, 0, 65535, gs ! 6, gs ! 7]" using first append_take_drop_id [of 6 gs] by simp
  then show ?thesis using mapped_read [OF \<open>octets_ok os\<close>] by (simp add: Ipv6Addr_to_string_def Some) (simp add: os)
next
  case None
  obtain start len where z: "longest_zeros 0 (0, 0) (0, 0) gs = (start, len)" by fastforce
  show ?thesis
  proof (cases "len > 1")
    case True
    then have split: "gs = take start gs @ replicate len 0 @ drop (start + len) gs" "start + len \<le> 8"
      using longest_zeros_split [OF z] assms(2) by auto
    have "read_ipv6_addr (show_groups (take start gs) @ ''::'' @ show_groups (drop (start + len) gs))
        = Some (take start gs @ replicate (8 - length (take start gs) - length (drop (start + len) gs)) 0 @ drop (start + len) gs, [])"
      using assms split(2) True by (intro read_compressed groups_ok_parts) auto
    moreover have "8 - length (take start gs) - length (drop (start + len) gs) = len" using assms(2) split(2) by simp
    ultimately show ?thesis using split(1) None z True by (simp add: Ipv6Addr_to_string_def)
  qed (use None z assms in \<open>simp add: Ipv6Addr_to_string_def read_full\<close>)
qed

section \<open>What is read has the bounds of its type\<close>

lemma read_number_bound: "read_number conv radix k z b s = Some (n, r) \<Longrightarrow> n \<le> b"
  by (auto simp: read_number_def Let_def split: prod.splits if_splits)

lemma read_octets_ok: "read_octets k first s = Some (os, r) \<Longrightarrow> length os = k \<and> list_all (\<lambda>n. n \<le> 255) os"
proof (induction k arbitrary: first s os)
  case (Suc k)
  then show ?case
    by (auto simp: read_separator_def dest!: read_number_bound split: option.splits list.splits if_splits)
qed simp

lemma read_ipv4_ok: "read_ipv4_addr s = Some (os, r) \<Longrightarrow> octets_ok os"
  using read_octets_ok unfolding read_ipv4_addr_def octets_ok_def by blast

lemma octets_nth: "octets_ok os \<Longrightarrow> i < 4 \<Longrightarrow> os ! i \<le> 255"
  by (auto simp: octets_ok_def list_all_length)

lemma read_groups_ok: "read_groups k first s = (gs, v4, r) \<Longrightarrow> groups_ok gs \<and> length gs \<le> k"
proof (induction k arbitrary: first s gs v4)
  case (Suc k)
  show ?case
  proof (cases "if k > 0 then read_separator CHR '':'' first read_ipv4_addr s else None")
    case (Some p)
    then obtain os r' where os: "p = (os, r')" "octets_ok os" "k > 0"
      by (cases p) (auto simp: read_separator_def dest: read_ipv4_ok split: if_splits list.splits)
    then have "groups_ok [os ! 0 * 256 + os ! 1, os ! 2 * 256 + os ! 3]"
      using octets_nth [OF os(2), of 0] octets_nth [OF os(2), of 1] octets_nth [OF os(2), of 2] octets_nth [OF os(2), of 3]
      by (simp add: groups_ok_def)
    then show ?thesis using Suc.prems Some os by auto
  next
    case None
    then show ?thesis using Suc
      by (fastforce simp: read_separator_def groups_ok_def dest: read_number_bound split: option.splits prod.splits if_splits list.splits)
  qed
qed (simp add: groups_ok_def)

lemma read_ipv6_ok:
  assumes "read_ipv6_addr s = Some (gs, r)"
  shows "groups_ok gs \<and> length gs = 8"
proof -
  obtain front v4 r1 where f: "read_groups 8 True s = (front, v4, r1)" by (cases "read_groups 8 True s") auto
  obtain rear v6 r2 where b: "read_groups (8 - (length front + 1)) True (drop 2 r1) = (rear, v6, r2)"
    by (cases "read_groups (8 - (length front + 1)) True (drop 2 r1)") auto
  have "groups_ok front" "length front \<le> 8" "groups_ok rear" "length rear \<le> 8 - (length front + 1)"
    using read_groups_ok [OF f] read_groups_ok [OF b] by auto
  then show ?thesis using assms f b
    by (auto simp: read_ipv6_addr_def groups_ok_def list_all_iff split: if_splits)
qed

section \<open>Endpoints are stable\<close>

definition address_ok :: "IpAddr \<Rightarrow> bool" where
  "address_ok a = (case a of V4 os \<Rightarrow> octets_ok os | V6 gs \<Rightarrow> groups_ok gs \<and> length gs = 8)"

lemma IpAddr_parse_ok: "IpAddr_parse s = Some a \<Longrightarrow> address_ok a"
  by (auto simp: IpAddr_parse_def parse_whole_def address_ok_def dest: read_ipv4_ok read_ipv6_ok
      split: option.splits prod.splits list.splits)

lemma Ipv6Addr_parse_ok: "Ipv6Addr_parse s = Some gs \<Longrightarrow> address_ok (V6 gs)"
  by (auto simp: Ipv6Addr_parse_def parse_whole_def address_ok_def dest: read_ipv6_ok split: option.splits prod.splits list.splits)

definition host_char :: "char \<Rightarrow> bool" where
  "host_char c \<longleftrightarrow> is_ascii_alphanumeric c \<or> c \<in> set ''._-:''"

lemma digits_host: "decimal_digit c \<noteq> None \<Longrightarrow> is_ascii_digit c" "hex_digit c \<noteq> None \<Longrightarrow> is_ascii_alphanumeric c"
  by (auto simp: decimal_digit_def hex_digit_def ascii_defs split: if_splits)

lemma show_chars: "c \<in> set (show_nat n) \<Longrightarrow> is_ascii_digit c" "c \<in> set (show_hex n) \<Longrightarrow> is_ascii_alphanumeric c"
  using printed_chars digits_host by (force simp: list_all_iff)+

lemma ipv4_chars: "c \<in> set (Ipv4Addr_to_string os) \<Longrightarrow> is_ascii_digit c \<or> c = CHR ''.''"
  by (auto simp: Ipv4Addr_to_string_def dest: show_chars)

lemma groups_chars: "c \<in> set (show_groups gs) \<Longrightarrow> is_ascii_alphanumeric c \<or> c = CHR '':''"
  by (induction gs rule: show_groups.induct) (auto dest: show_chars)

lemma host_char_simps [simp]:
  "host_char CHR '':''" "host_char CHR ''f''" "\<not> host_char CHR ''[''" "\<not> host_char CHR ''@''"
  by (simp_all add: host_char_def ascii_defs)

lemma address_chars: "list_all host_char (Ipv4Addr_to_string os)" "list_all host_char (show_groups gs)"
proof -
  have "host_char c" if "c \<in> set (Ipv4Addr_to_string os)" for c
    using ipv4_chars [OF that] by (auto simp: host_char_def is_ascii_alphanumeric_def)
  then show "list_all host_char (Ipv4Addr_to_string os)" by (simp add: list_all_iff)
  have "host_char c" if "c \<in> set (show_groups gs)" for c
    using groups_chars [OF that] by (auto simp: host_char_def)
  then show "list_all host_char (show_groups gs)" by (simp add: list_all_iff)
qed

lemma ipv6_chars: "list_all host_char (Ipv6Addr_to_string gs)"
  using address_chars
  by (cases "longest_zeros 0 (0, 0) (0, 0) gs") (simp add: Ipv6Addr_to_string_def list_all_append split: option.split)

lemma show_nat_not_Nil: "show_nat n \<noteq> []"
  by (subst show_nat.simps) simp

lemma ipv4_host:
  "octets_ok os \<Longrightarrow> IpAddr_parse (Ipv4Addr_to_string os) = Some (V4 os)"
  "CHR '':'' \<notin> set (Ipv4Addr_to_string os)" "Ipv4Addr_to_string os \<noteq> []" "\<not> starts_with (Ipv4Addr_to_string os) ''-''"
  "\<not> starts_with (Ipv4Addr_to_string os) ''[''"
proof -
  show "octets_ok os \<Longrightarrow> IpAddr_parse (Ipv4Addr_to_string os) = Some (V4 os)"
    using read_ipv4_printed [of os "[]"] by (simp add: IpAddr_parse_def parse_whole_def)
  show "CHR '':'' \<notin> set (Ipv4Addr_to_string os)" using ipv4_chars by (force simp: is_ascii_digit_def)
  show "Ipv4Addr_to_string os \<noteq> []" by (simp add: Ipv4Addr_to_string_def)
  then obtain c s where cs: "Ipv4Addr_to_string os = c # s" by (cases "Ipv4Addr_to_string os") auto
  then have "is_ascii_digit c \<or> c = CHR ''.''" using ipv4_chars [of c os] by simp
  then have "c \<noteq> CHR ''-''" "c \<noteq> CHR ''[''" by (auto simp: is_ascii_digit_def)
  then show "\<not> starts_with (Ipv4Addr_to_string os) ''-''" "\<not> starts_with (Ipv4Addr_to_string os) ''[''"
    using cs by (simp_all add: starts_with_def)
qed

lemma show_groups_colon: "length gs \<ge> 2 \<Longrightarrow> CHR '':'' \<in> set (show_groups gs)"
  by (induction gs rule: show_groups.induct) auto

lemma ipv6_host:
  assumes "address_ok (V6 gs)"
  shows "Ipv6Addr_parse (Ipv6Addr_to_string gs) = Some gs" "CHR '':'' \<in> set (Ipv6Addr_to_string gs)"
proof -
  show "Ipv6Addr_parse (Ipv6Addr_to_string gs) = Some gs"
    using ipv6_printed assms by (simp add: Ipv6Addr_parse_def parse_whole_def address_ok_def)
  show "CHR '':'' \<in> set (Ipv6Addr_to_string gs)"
    using assms show_groups_colon [of gs]
    by (cases "longest_zeros 0 (0, 0) (0, 0) gs") (simp add: Ipv6Addr_to_string_def address_ok_def split: option.split)
qed

lemma valid_word_chars: "valid_word w \<Longrightarrow> c \<in> set w \<Longrightarrow> host_char c \<and> c \<noteq> CHR '':''"
  by (auto simp: valid_word_def list_all_iff host_char_def is_ascii_alphanumeric_def is_ascii_digit_def
      is_ascii_alphabetic_def is_ascii_uppercase_def is_ascii_lowercase_def)

lemma bracketed_plain: "\<not> starts_with h ''['' \<Longrightarrow> bracketed h = None"
  by (simp add: bracketed_def strip_prefix_def)

lemma bracketed_brackets: "bracketed (''['' @ h @ '']'') = Some h"
  by (simp add: bracketed_def strip_prefix_def starts_with_def strip_suffix_def ends_with_def)

definition host_text :: "string \<Rightarrow> string" where
  "host_text h = (if CHR '':'' \<in> set h then ''['' @ h @ '']'' else h)"

lemma host_word: "valid_word h \<Longrightarrow> \<not> starts_with h ''['' \<and> CHR '':'' \<notin> set h"
  using valid_word_chars [of h "hd h"] valid_word_chars [of h "CHR '':''"] by (cases h) (auto simp: starts_with_def)

lemma parse_host_stable:
  assumes "parse_host h = Inr h'"
  shows "parse_host (host_text h') = Inr h'" "list_all host_char h'" "h' \<noteq> []" "\<not> starts_with (host_text h') ''-''"
proof -
  have "(\<exists>gs. address_ok (V6 gs) \<and> h' = Ipv6Addr_to_string gs) \<or> (\<exists>os. octets_ok os \<and> h' = Ipv4Addr_to_string os)
      \<or> (valid_word h' \<and> IpAddr_parse h' = None)"
  proof (cases "bracketed h")
    case (Some inner)
    then show ?thesis using assms by (auto simp: parse_host_def result_simps dest: Ipv6Addr_parse_ok)
  next
    case None
    show ?thesis
    proof (cases "IpAddr_parse h")
      case (Some a)
      then have "h' = IpAddr_to_string a" "address_ok a"
        using None assms IpAddr_parse_ok by (auto simp: parse_host_def)
      then show ?thesis by (cases a) (auto simp: address_ok_def)
    qed (use None assms in \<open>auto simp: parse_host_def split: if_splits\<close>)
  qed
  then consider gs where "address_ok (V6 gs)" "h' = Ipv6Addr_to_string gs" | os where "octets_ok os" "h' = Ipv4Addr_to_string os"
    | "valid_word h'" "IpAddr_parse h' = None" by (elim disjE exE conjE)
  then have "parse_host (host_text h') = Inr h' \<and> list_all host_char h' \<and> h' \<noteq> [] \<and> \<not> starts_with (host_text h') ''-''"
  proof cases
    case 1
    note six = ipv6_host [OF 1(1)]
    have "list_all host_char h'" using ipv6_chars by (simp add: 1(2))
    moreover have "host_text h' = ''['' @ h' @ '']''" using six(2) by (simp add: host_text_def 1(2))
    moreover have "parse_host (''['' @ h' @ '']'') = Inr h'"
      using six(1) by (simp only: parse_host_def bracketed_brackets option.case 1(2) ok_or_simps rbind_simps)
    ultimately show ?thesis using six(2) by (auto simp: starts_with_def 1(2))
  next
    case 2
    have "list_all host_char h'" using address_chars(1) by (simp add: 2(2))
    then show ?thesis using ipv4_host [of os] 2 by (simp add: host_text_def parse_host_def bracketed_plain)
  next
    case 3
    have "list_all host_char h'" using valid_word_chars [OF 3(1)] by (auto simp: list_all_iff)
    then show ?thesis using host_word [OF 3(1)] 3 by (auto simp: host_text_def parse_host_def bracketed_plain valid_word_def)
  qed
  then show "parse_host (host_text h') = Inr h'" "list_all host_char h'" "h' \<noteq> []" "\<not> starts_with (host_text h') ''-''"
    by blast+
qed

lemma split_at: "CHR ''@'' \<notin> set u \<Longrightarrow> split_once ''@'' (u @ ''@'' @ h) = Some (u, h)"
  by (induction u) (auto simp: starts_with_def)

lemma split_at_none: "CHR ''@'' \<notin> set u \<Longrightarrow> split_once ''@'' u = None"
  by (induction u) (auto simp: starts_with_def)

definition destination_char :: "char \<Rightarrow> bool" where
  "destination_char c \<longleftrightarrow> host_char c \<or> c \<in> set ''@[]''"

text \<open>C9: An endpoint that was accepted is stored in a form that is accepted again as the same
  endpoint: the text handed to SSH, read back, gives the host, user and port it was made of, for
  names as for addresses in any spelling.  That text is not empty, never begins with a dash, so it
  is no option, and has only letters, digits, and the characters of addresses and user names.\<close>

theorem endpoint_stable:
  assumes "SshEndpoint_parse target port = Inr e"
  shows "SshEndpoint_parse (destination_of e) (ep_port e) = Inr e \<and> SshEndpoint_validate e = Inr ()
    \<and> destination_of e \<noteq> [] \<and> \<not> starts_with (destination_of e) ''-'' \<and> list_all destination_char (destination_of e)
    \<and> ep_port e = port \<and> port \<noteq> Some 0"
proof -
  obtain h where h: "parse_host h = Inr (ep_host e)" and port: "ep_port e = port" "port \<noteq> Some 0"
    and user: "\<And>u. ep_user e = Some u \<Longrightarrow> valid_word u"
    using assms by (auto simp: SshEndpoint_parse_def result_simps split: if_splits option.splits prod.splits)
  note host = parse_host_stable [OF h]
  have part: "list_all destination_char (host_text (ep_host e))" "CHR ''@'' \<notin> set (host_text (ep_host e))"
      "host_text (ep_host e) \<noteq> []"
    using host(2,3) by (auto simp: host_text_def list_all_iff destination_char_def)
  have "SshEndpoint_parse (destination_of e) (ep_port e) = Inr e \<and> destination_of e \<noteq> []
      \<and> \<not> starts_with (destination_of e) ''-'' \<and> list_all destination_char (destination_of e)"
  proof (cases "ep_user e")
    case None
    then have "destination_of e = host_text (ep_host e)" by (simp add: destination_of_def host_text_def)
    then show ?thesis using None host part port
      by (simp add: SshEndpoint_parse_def split_at_none)
  next
    case (Some u)
    have word: "valid_word u" by (rule user [OF Some])
    have u: "CHR ''@'' \<notin> set u" "list_all destination_char u"
      using valid_word_chars [OF word] host_char_simps(4) by (auto simp: list_all_iff destination_char_def simp del: host_char_simps)
    have "u \<noteq> []" "\<not> starts_with u ''-''" using word by (simp_all add: valid_word_def)
    then have dash: "\<not> starts_with (u @ ''@'' @ host_text (ep_host e)) ''-''" by (cases u) (simp_all add: starts_with_def)
    have d: "destination_of e = u @ ''@'' @ host_text (ep_host e)" by (simp add: destination_of_def host_text_def Some)
    have "SshEndpoint_parse (u @ ''@'' @ host_text (ep_host e)) port = Inr e"
      using port(2) host(1) word by (simp add: SshEndpoint_parse_def split_at [OF u(1), simplified]) (simp add: Some port(1) [symmetric])
    then show ?thesis using dash u(2) part(1) by (simp add: d port destination_char_def)
  qed
  then show ?thesis using port by (simp add: SshEndpoint_validate_def)
qed

lemma endpoint_stable_witness:
  "SshEndpoint_validate \<lparr> ep_host = ''2001:db8::1'', ep_user = Some ''root'', ep_port = Some 43256 \<rparr> = Inr ()
    \<and> destination_of \<lparr> ep_host = ''2001:db8::1'', ep_user = Some ''root'', ep_port = Some 43256 \<rparr> = ''root@[2001:db8::1]''"
proof
  let ?e = "\<lparr> ep_host = ''2001:db8::1'', ep_user = Some ''root'', ep_port = Some 43256 \<rparr>"
  have print: "show_groups [8193, 3512] = ''2001:db8''" "show_groups [1] = ''1''"
    by (simp_all add: show_hex.simps) code_simp+
  have "Ipv6Addr_parse ''2001:db8::1'' = Some [8193, 3512, 0, 0, 0, 0, 0, 1]"
    using read_compressed [of "[8193, 3512]" "[1]", unfolded print]
    by (simp add: Ipv6Addr_parse_def parse_whole_def groups_ok_def five_zeros)
  moreover have "Ipv6Addr_to_string [8193, 3512, 0, 0, 0, 0, 0, 1] = ''2001:db8::1''"
    using print by (simp add: Ipv6Addr_to_string_def to_ipv4_mapped_def)
  ultimately have "parse_host ''[2001:db8::1]'' = Inr ''2001:db8::1''"
    using bracketed_brackets [of "''2001:db8::1''"] by (simp add: parse_host_def)
  then have "SshEndpoint_parse ''root@[2001:db8::1]'' (Some 43256) = Inr ?e"
    by (simp add: SshEndpoint_parse_def starts_with_def valid_word_def ascii_defs)
  then show "SshEndpoint_validate ?e = Inr ()" using endpoint_stable by blast
  show "destination_of ?e = ''root@[2001:db8::1]''" by (simp add: destination_of_def)
qed

end
