(* ===== verification/Client_Error.thy ===== *)
theory Client_Error
  imports Json Config_Key Core_Connection
begin

text \<open>
  Models \<open>client/src/error.rs\<close>: the errors of the client, their code, text, exit status,
  whether they may be retried and whether the remote outcome is unknown, and their
  conversion to and from the protocol's faults.  The texts of errors that other crates
  produce (sqlx, std::io, serde\_json, reqwest) come with the error.
\<close>

datatype io_kind =
  Broken_Pipe | Connection_Reset | Connection_Refused | Unexpected_End | Io_Timed_Out | Other_Kind

datatype ClientError =
  Err_Argument string
| Err_SessionInUse
| Err_McpNameConflict
| Err_Config ConfigError
| Err_Endpoint EndpointError
| Err_Storage
| Err_Io io_kind string
| Err_Data
| Err_Schema
| Err_PrivatePath
| Err_NotFound
| Err_NameConflict
| Err_RevisionConflict
| Err_Unsupported string
| Err_Ssh int
| Err_Timeout
| Err_RemoteResponse
| Err_Integrity
| Err_Download
| Err_Credentials
| Err_RemoteFault string string bool
| Err_CodexExit "8 word"

fun ConfigError_text :: "ConfigError \<Rightarrow> string" where
  "ConfigError_text UnknownKey = ''unknown configuration key''"
| "ConfigError_text InvalidEnvironmentName = ''invalid environment variable name''"
| "ConfigError_text ReservedEnvironment = ''environment variable is reserved by remote-codex''"
| "ConfigError_text ReadOnlySetting = ''configuration key is read-only''"
| "ConfigError_text (InvalidValue m) = ''invalid configuration value: '' @ m"
| "ConfigError_text SecretRequired = ''sensitive values require a credential reference''"
| "ConfigError_text SecretNotAllowed = ''secret values are supported only for environment settings''"
| "ConfigError_text ConflictingProxyAliases = ''conflicting proxy aliases in server settings''"
| "ConfigError_text MissingCustomProxy =
    ''custom proxy mode requires at least one configured proxy address''"

text \<open>The dash of the last text is the three bytes of U+2013.\<close>

fun EndpointError_text :: "EndpointError \<Rightarrow> string" where
  "EndpointError_text InvalidTarget = ''invalid SSH target; expected host, user@host or user@[IPv6]''"
| "EndpointError_text InvalidPort = ''SSH port must be between 1 and 65535''"
| "EndpointError_text InvalidName = ''connection name must contain 1'' @ [CHR 0xE2, CHR 0x80, CHR 0x93]
     @ ''128 visible characters and cannot start with '' @ [CHR 0x27, CHR ''-'', CHR 0x27, CHR '' '']"

fun ClientError_text :: "ClientError \<Rightarrow> string" where
  "ClientError_text (Err_Argument m) = m"
| "ClientError_text Err_SessionInUse =
    ''session is already open in another frontend; use --takeover to transfer control''"
| "ClientError_text Err_McpNameConflict =
    ''local and project MCP names conflict; select --mcp-source local or --mcp-source remote''"
| "ClientError_text (Err_Config e) = ConfigError_text e"
| "ClientError_text (Err_Endpoint e) = EndpointError_text e"
| "ClientError_text Err_Storage = ''local storage operation failed''"
| "ClientError_text (Err_Io k m) = ''filesystem operation failed: '' @ m"
| "ClientError_text Err_Data = ''invalid stored data''"
| "ClientError_text Err_Schema = ''unsupported database format; this release requires local schema 13''"
| "ClientError_text Err_PrivatePath = ''state directory and database must be private, regular paths''"
| "ClientError_text Err_NotFound = ''connection was not found''"
| "ClientError_text Err_NameConflict = ''connection name refers to another SSH endpoint''"
| "ClientError_text Err_RevisionConflict = ''configuration changed; read the new revision and retry''"
| "ClientError_text (Err_Unsupported m) = ''this capability is not implemented: '' @ m"
| "ClientError_text (Err_Ssh n) = ''SSH operation failed (exit '' @ show_int n
     @ ''); the saved connection is available for retry''"
| "ClientError_text Err_Timeout = ''operation timed out; remote outcome must be inspected before retrying''"
| "ClientError_text Err_RemoteResponse = ''invalid remote response''"
| "ClientError_text Err_Integrity = ''runtime package verification failed''"
| "ClientError_text Err_Download = ''download failed; check network settings''"
| "ClientError_text Err_Credentials = ''local credential store is unavailable; unlock it and retry''"
| "ClientError_text (Err_RemoteFault c m u) = c @ '': '' @ m"
| "ClientError_text (Err_CodexExit n) = ''Codex frontend exited with '' @ show_nat (unat n)"

fun client_code :: "ClientError \<Rightarrow> string" where
  "client_code Err_SessionInUse = ''SESSION_IN_USE''"
| "client_code Err_McpNameConflict = ''MCP_NAME_CONFLICT''"
| "client_code (Err_Argument _) = ''INVALID_ARGUMENT''"
| "client_code (Err_Config _) = ''INVALID_CONFIGURATION''"
| "client_code (Err_Endpoint _) = ''INVALID_SSH_TARGET''"
| "client_code Err_Storage = ''STORAGE_ERROR''"
| "client_code (Err_Io _ _) = ''IO_ERROR''"
| "client_code Err_Data = ''INVALID_STORED_DATA''"
| "client_code Err_Schema = ''UNSUPPORTED_SCHEMA''"
| "client_code Err_PrivatePath = ''INSECURE_STATE_PATH''"
| "client_code Err_NotFound = ''NOT_FOUND''"
| "client_code Err_NameConflict = ''CONNECTION_NAME_CONFLICT''"
| "client_code Err_RevisionConflict = ''REVISION_CONFLICT''"
| "client_code (Err_Unsupported _) = ''UNSUPPORTED_CAPABILITY''"
| "client_code (Err_Ssh n) = (if n = 255 then ''SSH_FAILED'' else if n = 75 then ''REMOTE_BUSY''
     else ''REMOTE_OPERATION_FAILED'')"
| "client_code Err_Timeout = ''OPERATION_TIMEOUT''"
| "client_code Err_RemoteResponse = ''INVALID_REMOTE_RESPONSE''"
| "client_code Err_Integrity = ''INTEGRITY_MISMATCH''"
| "client_code Err_Download = ''DOWNLOAD_FAILED''"
| "client_code Err_Credentials = ''CREDENTIAL_BACKEND_UNAVAILABLE''"
| "client_code (Err_RemoteFault c _ _) = c"
| "client_code (Err_CodexExit _) = ''CODEX_EXITED''"

definition client_retryable :: "ClientError \<Rightarrow> bool" where
  "client_retryable e = (case e of
     Err_RevisionConflict \<Rightarrow> True
   | Err_Ssh n \<Rightarrow> n = 255 \<or> n = 75
   | Err_Timeout \<Rightarrow> True
   | Err_Download \<Rightarrow> True
   | Err_RemoteFault c _ u \<Rightarrow> \<not> u \<and> c \<in> {''SERVICE_UPDATE_BUSY'', ''SETTINGS_BUSY''}
   | _ \<Rightarrow> False)"

definition outcome_is_unknown :: "ClientError \<Rightarrow> bool" where
  "outcome_is_unknown e = (case e of
     Err_RemoteFault _ _ u \<Rightarrow> u
   | Err_Storage \<Rightarrow> True | Err_Io _ _ \<Rightarrow> True | Err_Ssh _ \<Rightarrow> True
   | Err_Timeout \<Rightarrow> True | Err_RemoteResponse \<Rightarrow> True
   | _ \<Rightarrow> False)"

definition client_exit_code :: "ClientError \<Rightarrow> 8 word" where
  "client_exit_code e = (case e of
     Err_CodexExit n \<Rightarrow> n
   | Err_NameConflict \<Rightarrow> 6 | Err_RevisionConflict \<Rightarrow> 6
   | Err_Ssh n \<Rightarrow> if n = 255 then 3 else if n = 75 then 6 else 7
   | Err_Timeout \<Rightarrow> 3 | Err_Download \<Rightarrow> 3
   | Err_RemoteFault c _ _ \<Rightarrow> if c = ''SERVICE_UPDATE_BUSY'' then 6 else 7
   | Err_Unsupported _ \<Rightarrow> 5 | Err_Integrity \<Rightarrow> 5 | Err_Schema \<Rightarrow> 5
   | Err_Config _ \<Rightarrow> 2 | Err_Endpoint _ \<Rightarrow> 2 | Err_NotFound \<Rightarrow> 2 | Err_Argument _ \<Rightarrow> 2
   | Err_McpNameConflict \<Rightarrow> 2
   | _ \<Rightarrow> 7)"

definition into_fault :: "ClientError \<Rightarrow> Fault" where
  "into_fault e = (case e of
     Err_RemoteFault c m u \<Rightarrow> \<lparr> fault_code = c, fault_message = m, outcome_unknown = u \<rparr>
   | _ \<Rightarrow> \<lparr> fault_code = client_code e, fault_message = ClientError_text e,
       outcome_unknown = outcome_is_unknown e \<rparr>)"

definition from_fault :: "Fault \<Rightarrow> ClientError" where
  "from_fault f = Err_RemoteFault (fault_code f) (fault_message f) (outcome_unknown f)"

text \<open>An error keeps its identity across the protocol.  A fault that becomes a client error
  and goes back is the same fault; any client error, sent as a fault and received again,
  keeps its code, its text and whether its outcome is unknown; an unknown outcome that
  the other side reported is never offered as a retry, and a successful exit status is
  never reported for an error of the client itself.\<close>

theorem error_identity_kept:
  "into_fault (from_fault f) = f
    \<and> client_code (from_fault (into_fault e)) = client_code e
    \<and> outcome_is_unknown (from_fault (into_fault e)) = outcome_is_unknown e
    \<and> into_fault (from_fault (into_fault e)) = into_fault e
    \<and> \<not> (outcome_unknown f \<and> client_retryable (from_fault f))
    \<and> (client_exit_code e = 0) = (e = Err_CodexExit 0)"
  by (cases e) (auto simp: into_fault_def from_fault_def outcome_is_unknown_def client_retryable_def
      client_exit_code_def split: if_splits)

end
