(* ===== verification/Client_Store.thy ===== *)
theory Client_Store
  imports Client_Error Config_Resolve "HOL-Library.Multiset"
begin

text \<open>
  Models \<open>client/src/store/codec.rs\<close>, \<open>configuration.rs\<close>, \<open>credentials.rs\<close>,
  \<open>ssh_credentials.rs\<close> and the removal of a server (\<open>servers.rs\<close>): the tables of the
  client's database that hold settings and the handles of secrets, and every transaction
  on them.  A transaction is a function to an error or the new tables: SQLite rolls back
  what fails.  Tables the transactions do not read are left out.
\<close>

section \<open>Tables\<close>

datatype cred_state = Cred_Pending | Cred_Active | Cred_Retired

record credential_row =
  cr_id :: string
  cr_state :: cred_state
  cr_created :: int
  cr_managed :: bool

record ssh_row =
  sh_id :: string
  sh_server :: string
  sh_target :: string
  sh_state :: cred_state
  sh_created :: int

record setting_row =
  sg_server :: string
  sg_key :: string
  sg_spelling :: string
  sg_secret :: bool
  sg_value :: string

record local_db =
  ld_revisions :: "(string \<times> int) list"
  ld_connections :: "string list"
  ld_settings :: "setting_row list"
  ld_credentials :: "credential_row list"
  ld_ssh :: "ssh_row list"

type_synonym 'a txn = "local_db \<Rightarrow> (ClientError, 'a \<times> local_db) result"

definition local_db_empty :: local_db where
  "local_db_empty = \<lparr> ld_revisions = [], ld_connections = [], ld_settings = [], ld_credentials = [], ld_ssh = [] \<rparr>"

definition lift_config :: "(ConfigError, 'a) result \<Rightarrow> (ClientError, 'a) result" where
  "lift_config r = (case r of Inl e \<Rightarrow> Inl (Err_Config e) | Inr x \<Rightarrow> Inr x)"

lemma lift_config_Inr [simp]: "lift_config r = Inr x \<longleftrightarrow> r = Inr x"
  by (cases r) (simp_all add: lift_config_def)

section \<open>Rows of a layer\<close>

fun proxy_mode_name :: "ProxyMode \<Rightarrow> string" where
  "proxy_mode_name Inherit = ''inherit''"
| "proxy_mode_name Custom = ''custom''"
| "proxy_mode_name Direct = ''direct''"

fun plain_value :: "ConfigValue \<Rightarrow> (ClientError, string) result" where
  "plain_value (V_Text s) = Inr s"
| "plain_value (V_Boolean b) = Inr (if b then ''true'' else ''false'')"
| "plain_value (V_Integer n) = Inr (show_nat (unat n))"
| "plain_value (V_ProxyMode m) = Inr (proxy_mode_name m)"
| "plain_value (V_Secret _) = Inl Err_Credentials"

definition load_row :: "url_parser \<Rightarrow> setting_row \<Rightarrow> ConfigLayer \<Rightarrow> (ClientError, ConfigLayer) result" where
  "load_row u row layer =
    rbind (lift_config (ConfigKey_parse (sg_spelling row))) (\<lambda>k.
      if ConfigKey_name k \<noteq> sg_key row then Inl Err_Schema
      else if \<not> sg_secret row
        then lift_config (layer_set u (sg_spelling row) (Plain (sg_value row)) layer)
      else rbind (lift_config (SecretRef_new (sg_value row)))
        (\<lambda>r. lift_config (restore_secret (sg_spelling row) r layer)))"

fun load_rows :: "url_parser \<Rightarrow> setting_row list \<Rightarrow> ConfigLayer \<Rightarrow> (ClientError, ConfigLayer) result" where
  "load_rows u [] layer = Inr layer"
| "load_rows u (row # rows) layer = rbind (load_row u row layer) (load_rows u rows)"

definition server_rows :: "string \<Rightarrow> local_db \<Rightarrow> setting_row list" where
  "server_rows server db = filter (\<lambda>r. sg_server r = server) (ld_settings db)"

text \<open>\<open>ORDER BY key\<close> compares the bytes of the names.\<close>

definition codec_load :: "url_parser \<Rightarrow> string \<Rightarrow> local_db \<Rightarrow> (ClientError, ConfigLayer) result" where
  "codec_load u server db = load_rows u (sort_key sg_key (server_rows server db)) []"

definition update_rows :: "('r \<Rightarrow> bool) \<Rightarrow> ('r \<Rightarrow> 'r) \<Rightarrow> 'r list \<Rightarrow> 'r list" where
  "update_rows p f rows = map (\<lambda>r. if p r then f r else r) rows"

definition activate_credential :: "string \<Rightarrow> local_db \<Rightarrow> (ClientError, local_db) result" where
  "activate_credential i db =
    (let p = (\<lambda>c. cr_id c = i \<and> cr_state c \<in> {Cred_Pending, Cred_Active}) in
     if length (filter p (ld_credentials db)) \<noteq> 1 then Inl Err_Credentials
     else Inr (db\<lparr> ld_credentials := update_rows p (\<lambda>c. c\<lparr> cr_state := Cred_Active \<rparr>) (ld_credentials db) \<rparr>))"

definition insert_setting :: "setting_row \<Rightarrow> local_db \<Rightarrow> (ClientError, local_db) result" where
  "insert_setting row db =
    (if list_ex (\<lambda>r. sg_server r = sg_server row \<and> sg_key r = sg_key row) (ld_settings db) then Inl Err_Storage
     else Inr (db\<lparr> ld_settings := ld_settings db @ [row] \<rparr>))"

definition save_entry :: "string \<Rightarrow> ConfigKey \<times> str \<times> ConfigValue \<Rightarrow> local_db \<Rightarrow> (ClientError, local_db) result" where
  "save_entry server entry db =
    (case entry of (key, spell, v) \<Rightarrow>
       (case v of
          V_Secret (SecretRef i) \<Rightarrow>
            rbind (activate_credential i db) (insert_setting
              \<lparr> sg_server = server, sg_key = ConfigKey_name key, sg_spelling = spell, sg_secret = True, sg_value = i \<rparr>)
        | _ \<Rightarrow>
            rbind (plain_value v) (\<lambda>raw. insert_setting
              \<lparr> sg_server = server, sg_key = ConfigKey_name key, sg_spelling = spell, sg_secret = False, sg_value = raw \<rparr>
              db)))"

fun save_entries :: "string \<Rightarrow> (ConfigKey \<times> str \<times> ConfigValue) list \<Rightarrow> local_db \<Rightarrow> (ClientError, local_db) result" where
  "save_entries server [] db = Inr db"
| "save_entries server (e # es) db = rbind (save_entry server e db) (save_entries server es)"

definition secret_referenced :: "string \<Rightarrow> local_db \<Rightarrow> bool" where
  "secret_referenced i db \<longleftrightarrow> list_ex (\<lambda>r. sg_secret r \<and> sg_value r = i) (ld_settings db)"

definition retire_unreferenced :: "local_db \<Rightarrow> local_db" where
  "retire_unreferenced db = db\<lparr> ld_credentials := update_rows
     (\<lambda>c. cr_managed c \<and> cr_state c = Cred_Active \<and> \<not> secret_referenced (cr_id c) db)
     (\<lambda>c. c\<lparr> cr_state := Cred_Retired \<rparr>) (ld_credentials db) \<rparr>"

definition codec_save :: "string \<Rightarrow> ConfigLayer \<Rightarrow> local_db \<Rightarrow> (ClientError, local_db) result" where
  "codec_save server layer db =
    rbind (save_entries server (layer_entries layer)
        (db\<lparr> ld_settings := filter (\<lambda>r. sg_server r \<noteq> server) (ld_settings db) \<rparr>))
      (\<lambda>db. Inr (retire_unreferenced db))"

section \<open>Configuration\<close>

definition config_revision :: "string \<Rightarrow> local_db \<Rightarrow> (ClientError, int) result" where
  "config_revision server db =
    (if server \<in> set (ld_connections db)
     then ok_or Err_NotFound (map_of (ld_revisions db) server) else Inl Err_NotFound)"

record ConfigSnapshot =
  cg_revision :: int
  cg_layer :: ConfigLayer
  cg_effective :: EffectiveConfig

definition config_snapshot :: "url_parser \<Rightarrow> string \<Rightarrow> local_db \<Rightarrow> (ClientError, ConfigSnapshot) result" where
  "config_snapshot u server db =
    rbind (config_revision server db) (\<lambda>revision.
    rbind (codec_load u server db) (\<lambda>layer.
    rbind (lift_config (config_resolve layer)) (\<lambda>effective.
    Inr \<lparr> cg_revision = revision, cg_layer = layer, cg_effective = effective \<rparr>)))"

definition bump_revision :: "string \<Rightarrow> local_db \<Rightarrow> (ClientError, local_db) result" where
  "bump_revision server db =
    (let p = (\<lambda>(i, revision). i = server \<and> revision < 9223372036854775807) in
     if length (filter p (ld_revisions db)) \<noteq> 1 then Inl Err_RevisionConflict
     else Inr (db\<lparr> ld_revisions := update_rows p (\<lambda>(i, revision). (i, revision + 1)) (ld_revisions db) \<rparr>))"

definition config_replace :: "string \<Rightarrow> ConfigLayer \<Rightarrow> ConfigLayer \<Rightarrow> int txn" where
  "config_replace server before after db =
    (if before = after then rbind (config_revision server db) (\<lambda>revision. Inr (revision, db))
     else
       rbind (lift_config (config_resolve after)) (\<lambda>_.
       rbind (codec_save server after db) (\<lambda>db.
       rbind (bump_revision server db) (\<lambda>db.
       rbind (config_revision server db) (\<lambda>revision. Inr (revision, db))))))"

definition update_config ::
  "url_parser \<Rightarrow> string \<Rightarrow> int \<Rightarrow> (ConfigLayer \<Rightarrow> (ClientError, ConfigLayer) result) \<Rightarrow> int txn" where
  "update_config u server expected change db =
    rbind (config_snapshot u server db) (\<lambda>state.
      if cg_revision state \<noteq> expected then Inl Err_RevisionConflict
      else rbind (change (cg_layer state)) (\<lambda>after. config_replace server (cg_layer state) after db))"

definition set_config :: "url_parser \<Rightarrow> string \<Rightarrow> str \<Rightarrow> ConfigInput \<Rightarrow> int \<Rightarrow> int txn" where
  "set_config u server key input expected =
    update_config u server expected (\<lambda>layer. lift_config (layer_set u key input layer))"

fun set_each :: "url_parser \<Rightarrow> (str \<times> str) list \<Rightarrow> ConfigLayer \<Rightarrow> (ClientError, ConfigLayer) result" where
  "set_each u [] layer = Inr layer"
| "set_each u ((key, v) # changes) layer =
    rbind (lift_config (layer_set u key (Plain v) layer)) (set_each u changes)"

definition set_many_config :: "url_parser \<Rightarrow> string \<Rightarrow> (str \<times> str) list \<Rightarrow> int \<Rightarrow> int txn" where
  "set_many_config u server changes expected = update_config u server expected (set_each u changes)"

definition unset_config :: "url_parser \<Rightarrow> string \<Rightarrow> str \<Rightarrow> int \<Rightarrow> int txn" where
  "unset_config u server key expected =
    update_config u server expected (\<lambda>layer. map_sum id snd (lift_config (layer_unset key layer)))"

section \<open>Credentials\<close>

definition reserve_credential :: "int \<Rightarrow> string \<Rightarrow> unit txn" where
  "reserve_credential at i db =
    (if list_ex (\<lambda>c. cr_id c = i) (ld_credentials db) then Inl Err_Storage
     else Inr ((), db\<lparr> ld_credentials := ld_credentials db @
       [\<lparr> cr_id = i, cr_state = Cred_Pending, cr_created = at, cr_managed = True \<rparr>] \<rparr>))"

definition retire_credential :: "string \<Rightarrow> unit txn" where
  "retire_credential i db = Inr ((), db\<lparr> ld_credentials := update_rows
     (\<lambda>c. cr_id c = i \<and> cr_managed c \<and> cr_state c = Cred_Pending) (\<lambda>c. c\<lparr> cr_state := Cred_Retired \<rparr>)
     (ld_credentials db) \<rparr>)"

definition has_credential_cleanup :: "int \<Rightarrow> local_db \<Rightarrow> bool" where
  "has_credential_cleanup at db \<longleftrightarrow>
     list_ex (\<lambda>c. cr_managed c \<and> (cr_state c = Cred_Retired \<or> (cr_state c = Cred_Pending \<and> cr_created c < at - 86400))
       \<and> \<not> secret_referenced (cr_id c) db) (ld_credentials db)
     \<or> list_ex (\<lambda>c. sh_state c = Cred_Retired \<or> (sh_state c = Cred_Pending \<and> sh_created c < at - 86400)) (ld_ssh db)"

datatype RetiredCredential = Retired_Environment string | Retired_Ssh string

fun retired_reference :: "RetiredCredential \<Rightarrow> string" where
  "retired_reference (Retired_Environment i) = i"
| "retired_reference (Retired_Ssh i) = i"

definition expire_pending :: "int \<Rightarrow> local_db \<Rightarrow> local_db" where
  "expire_pending at db = db\<lparr>
     ld_credentials := update_rows (\<lambda>c. cr_managed c \<and> cr_state c = Cred_Pending \<and> cr_created c < at - 86400)
       (\<lambda>c. c\<lparr> cr_state := Cred_Retired \<rparr>) (ld_credentials db),
     ld_ssh := update_rows (\<lambda>c. sh_state c = Cred_Pending \<and> sh_created c < at - 86400)
       (\<lambda>c. c\<lparr> sh_state := Cred_Retired \<rparr>) (ld_ssh db) \<rparr>"

text \<open>The identifiers are checked after the transaction has been committed.\<close>

definition retired_credentials :: "int \<Rightarrow> local_db \<Rightarrow> (ClientError, RetiredCredential list) result \<times> local_db" where
  "retired_credentials at db =
    (let db = expire_pending at db;
         environment = map cr_id (filter (\<lambda>c. cr_managed c \<and> cr_state c = Cred_Retired
           \<and> \<not> secret_referenced (cr_id c) db) (ld_credentials db));
         ssh = map sh_id (filter (\<lambda>c. sh_state c = Cred_Retired) (ld_ssh db)) in
     (if list_all (\<lambda>i. SecretRef_new i = Inr (SecretRef i)) (environment @ ssh)
      then Inr (map Retired_Environment environment @ map Retired_Ssh ssh)
      else Inl (Err_Config (InvalidValue ''invalid credential reference'')), db))"

fun forget_retired_credential :: "RetiredCredential \<Rightarrow> unit txn" where
  "forget_retired_credential (Retired_Environment i) db = Inr ((), db\<lparr> ld_credentials :=
     filter (\<lambda>c. \<not> (cr_id c = i \<and> cr_managed c \<and> cr_state c = Cred_Retired)) (ld_credentials db) \<rparr>)"
| "forget_retired_credential (Retired_Ssh i) db = Inr ((), db\<lparr> ld_ssh :=
     filter (\<lambda>c. \<not> (sh_id c = i \<and> sh_state c = Cred_Retired)) (ld_ssh db) \<rparr>)"

section \<open>SSH passwords\<close>

definition ssh_credential :: "string \<Rightarrow> local_db \<Rightarrow> string option" where
  "ssh_credential server db =
    map_option sh_id (find (\<lambda>c. sh_server c = server \<and> sh_state c = Cred_Active) (ld_ssh db))"

definition reserve_ssh_credential :: "int \<Rightarrow> string \<Rightarrow> string \<Rightarrow> string \<Rightarrow> unit txn" where
  "reserve_ssh_credential at server i target db =
    (if server \<notin> set (ld_connections db) then Inl Err_NotFound
     else if list_ex (\<lambda>c. sh_id c = i) (ld_ssh db) then Inl Err_Storage
     else Inr ((), db\<lparr> ld_ssh := ld_ssh db @
       [\<lparr> sh_id = i, sh_server = server, sh_target = target, sh_state = Cred_Pending, sh_created = at \<rparr>] \<rparr>))"

definition ssh_credential_target :: "string \<Rightarrow> string \<Rightarrow> local_db \<Rightarrow> (ClientError, string) result" where
  "ssh_credential_target server i db = ok_or Err_NotFound (map_option sh_target
     (find (\<lambda>c. sh_server c = server \<and> sh_id c = i \<and> sh_state c \<in> {Cred_Active, Cred_Pending}) (ld_ssh db)))"

definition activate_ssh_credential :: "string \<Rightarrow> string option \<Rightarrow> string \<Rightarrow> unit txn" where
  "activate_ssh_credential server expected next_id db =
    (if ssh_credential server db \<noteq> expected then Inl Err_RevisionConflict
     else
       let retired = update_rows (\<lambda>c. sh_server c = server \<and> sh_state c = Cred_Active)
             (\<lambda>c. c\<lparr> sh_state := Cred_Retired \<rparr>) (ld_ssh db);
           p = (\<lambda>c. sh_id c = next_id \<and> sh_server c = server \<and> sh_state c = Cred_Pending
             \<and> server \<in> set (ld_connections db)) in
       if length (filter p retired) \<noteq> 1 then Inl Err_RevisionConflict
       else Inr ((), db\<lparr> ld_ssh := update_rows p (\<lambda>c. c\<lparr> sh_state := Cred_Active \<rparr>) retired \<rparr>))"

definition retire_ssh_credential :: "string \<Rightarrow> unit txn" where
  "retire_ssh_credential i db = Inr ((), db\<lparr> ld_ssh := update_rows
     (\<lambda>c. sh_id c = i \<and> sh_state c = Cred_Pending) (\<lambda>c. c\<lparr> sh_state := Cred_Retired \<rparr>) (ld_ssh db) \<rparr>)"

definition forget_ssh_credentials :: "string \<Rightarrow> unit txn" where
  "forget_ssh_credentials server db = Inr ((), db\<lparr> ld_ssh := update_rows
     (\<lambda>c. sh_server c = server) (\<lambda>c. c\<lparr> sh_state := Cred_Retired \<rparr>) (ld_ssh db) \<rparr>)"

section \<open>Servers\<close>

text \<open>The rows a new connection adds; the foreign key of \<open>settings\<close> lets a server's rows go
  with its revision.  Unfinished transfers, which the caller is told to finish first, are
  a parameter.\<close>

definition insert_connection :: "string \<Rightarrow> unit txn" where
  "insert_connection i db =
    (if i \<in> set (map fst (ld_revisions db)) then Inl Err_Storage
     else Inr ((), db\<lparr> ld_revisions := ld_revisions db @ [(i, 0)], ld_connections := ld_connections db @ [i] \<rparr>))"

definition remove_server :: "bool \<Rightarrow> string \<Rightarrow> unit txn" where
  "remove_server transfers_pending i db =
    (if transfers_pending
     then Inl (Err_Argument ''Finish or cancel this server's file transfers before removing it.'')
     else
       let db = db\<lparr> ld_ssh := update_rows (\<lambda>c. sh_server c = i) (\<lambda>c. c\<lparr> sh_state := Cred_Retired \<rparr>) (ld_ssh db),
             ld_connections := filter (\<lambda>c. c \<noteq> i) (ld_connections db),
             ld_revisions := filter (\<lambda>(c, _). c \<noteq> i) (ld_revisions db),
             ld_settings := filter (\<lambda>r. sg_server r \<noteq> i) (ld_settings db) \<rparr> in
       Inr ((), retire_unreferenced db))"

section \<open>Reading back what was saved\<close>

lemma show_nat_digits: "list_all is_ascii_digit (show_nat n) \<and> show_nat n \<noteq> []"
proof (induction n rule: show_nat.induct)
  case (1 n)
  have digit: "d < 10 \<Longrightarrow> is_ascii_digit (digit_char d)" for d
    by (simp add: digit_char_def is_ascii_digit_def)
  show ?case using 1 digit by (subst (1 2) show_nat.simps) simp
qed

lemma digits_value_append: "digits_value acc (xs @ [c]) = 10 * digits_value acc xs + (byte c - 48)"
  by (induction xs arbitrary: acc) simp_all

lemma digits_value_show_nat: "digits_value 0 (show_nat n) = n"
proof (induction n rule: show_nat.induct)
  case (1 n)
  have digit: "d < 10 \<Longrightarrow> byte (digit_char d) - 48 = d" for d by (simp add: digit_char_def)
  show ?case
  proof (cases "n < 10")
    case True
    then show ?thesis using digit by (subst show_nat.simps) simp
  next
    case False
    then show ?thesis using 1 digit [of "n mod 10"] by (subst show_nat.simps) (simp add: digits_value_append)
  qed
qed

lemma length_show_nat: "length (show_nat n) \<le> Suc n"
proof (induction n rule: show_nat.induct)
  case (1 n)
  show ?case
  proof (cases "n < 10")
    case False
    then have "length (show_nat n) = Suc (length (show_nat (n div 10)))" by (subst show_nat.simps) simp
    also have "\<dots> \<le> Suc (Suc (n div 10))" using 1 False by simp
    finally show ?thesis using False by simp
  qed (subst show_nat.simps, simp)
qed

lemma length_show_u16: "length (show_nat (unat (n :: 16 word))) \<le> 32768"
proof -
  have step: "length (show_nat m) \<le> Suc (length (show_nat (m div 10)))" for m
    by (subst show_nat.simps) (simp add: show_nat.simps [of "m div 10"])
  have "unat n < 65536" using unsigned_less [of n, where 'a = nat] by simp
  then have "unat n div 10 \<le> 6553" by simp
  then have "length (show_nat (unat n div 10)) \<le> 6554" using length_show_nat [of "unat n div 10"] by linarith
  then show ?thesis using step [of "unat n"] by linarith
qed

lemma no_nul_digits: "list_all is_ascii_digit s \<Longrightarrow> CHR 0x00 \<notin> set s"
  by (auto simp: list_all_iff is_ascii_digit_def)

lemma parse_integer_show:
  "p n \<Longrightarrow> parse_integer p e (show_nat (unat n)) = Inr (V_Integer n)"
  using show_nat_digits [of "unat n"] unsigned_less [of n, where 'a = nat]
  by (simp add: parse_integer_Inr digits_value_show_nat)

text \<open>The text of a typed value parses back to it.\<close>

lemma parse_plain_value:
  assumes "value_typed u k v" "plain_value v = Inr raw"
  shows "parse_value u k raw = Inr v"
proof (cases v)
  case (V_Integer n)
  have raw: "raw = show_nat (unat n)" using assms(2) V_Integer by simp
  have small: "\<not> length raw > 32 * 1024" "CHR 0x00 \<notin> set raw"
    using length_show_u16 [of n] show_nat_digits [of "unat n"] no_nul_digits by (simp_all add: raw)
  show ?thesis using assms(1) small
    by (cases k) (simp_all add: V_Integer value_typed_def parse_value_def raw parse_integer_show)
next
  case (V_Text s)
  then show ?thesis using assms
    by (cases k) (auto simp: value_typed_def parse_value_environment, auto simp: parse_value_def)
next
  case (V_Boolean b)
  then show ?thesis using assms by (cases k; cases b) (auto simp: value_typed_def parse_value_def)
next
  case (V_ProxyMode m)
  then show ?thesis using assms by (cases k; cases m) (auto simp: value_typed_def parse_value_def)
qed (use assms in simp)

definition setting_value :: "ConfigValue \<Rightarrow> string" where
  "setting_value v = (case v of V_Secret (SecretRef i) \<Rightarrow> i
     | _ \<Rightarrow> (case plain_value v of Inr raw \<Rightarrow> raw | Inl _ \<Rightarrow> []))"

definition entry_row :: "string \<Rightarrow> ConfigKey \<times> StoredSetting \<Rightarrow> setting_row" where
  "entry_row server p = \<lparr> sg_server = server, sg_key = ConfigKey_name (fst p), sg_spelling = spelling (snd p),
     sg_secret = is_secret (stored_value (snd p)), sg_value = setting_value (stored_value (snd p)) \<rparr>"

lemma load_plain_row:
  assumes parse: "ConfigKey_parse (spelling e) = Inr k" "writable_key (spelling e) = Inr k"
    and raw: "plain_value (stored_value e) = Inr raw" "parse_value u k raw = Inr (stored_value e)"
      "\<not> requires_secret k raw" and new: "bt_get layer k = None"
  shows "load_row u (entry_row server (k, e)) layer = Inr (bt_insert k e layer)"
proof -
  have no_alias: "\<not> conflicting_alias layer t k v" for t v
    using new by (auto simp: conflicting_alias_def split: ConfigKey.split)
  have plain: "\<not> is_secret (stored_value e)" using raw(1) by (cases "stored_value e") (simp_all add: is_secret_def)
  have same: "setting_value (stored_value e) = raw"
    using raw(1) by (cases "stored_value e") (simp_all add: setting_value_def)
  have set: "layer_set u (spelling e) (Plain raw) layer = Inr (bt_insert k e layer)"
    using parse raw(2,3) new no_alias by (cases e) (simp add: layer_set_def)
  show ?thesis using parse(1) plain same set by (simp add: load_row_def entry_row_def lift_config_def)
qed

lemma load_entry_row:
  assumes ok: "entry_ok u k e" and new: "bt_get layer k = None"
  shows "load_row u (entry_row server (k, e)) layer = Inr (bt_insert k e layer)"
proof -
  have parse: "ConfigKey_parse (spelling e) = Inr k" and typed: "value_typed u k (stored_value e)"
    and plain: "not_plain_secret k (stored_value e)" using ok by (simp_all add: entry_ok_def)
  have writable: "writable_key (spelling e) = Inr k"
    using parse typed by (cases k) (simp_all add: writable_key_def spec_writable_iff value_typed_def)
  show ?thesis
  proof (cases "is_secret (stored_value e)")
    case True
    then obtain i where r: "stored_value e = V_Secret (SecretRef i)"
      unfolding is_secret_iff by (metis SecretRef.exhaust)
    have "secret_ref_ok (SecretRef i)" and env: "is_environment k"
      using typed by (cases k; simp add: r value_typed_def is_environment_def)+
    then have "SecretRef_new i = Inr (SecretRef i)" by (simp add: SecretRef_new_iff)
    then show ?thesis
      using parse writable env new r
      by (cases e) (simp add: load_row_def entry_row_def setting_value_def is_secret_def
          restore_secret_def lift_config_def)
  next
    case False
    then obtain raw where raw: "plain_value (stored_value e) = Inr raw"
      by (cases "stored_value e") (auto simp: is_secret_def)
    have "\<not> requires_secret k raw"
    proof (cases "stored_value e")
      case (V_Text s)
      then show ?thesis using plain raw by (simp add: not_plain_secret_def)
    qed (use typed False in \<open>cases k; simp add: value_typed_def requires_secret_def is_secret_def\<close>)+
    then show ?thesis using parse writable raw parse_plain_value [OF typed raw] new by (intro load_plain_row)
  qed
qed

lemma load_entry_rows:
  "\<forall>k e. (k, e) \<in> set ps \<longrightarrow> entry_ok u k e \<Longrightarrow> distinct (map fst ps) \<Longrightarrow> \<forall>k\<in>fst ` set ps. bt_get layer k = None
    \<Longrightarrow> load_rows u (map (entry_row server) ps) layer = Inr (bt_insert_all ps layer)"
proof (induction ps arbitrary: layer)
  case Nil
  then show ?case by (simp add: bt_insert_all_def)
next
  case (Cons p ps)
  obtain k e where p: "p = (k, e)" by (cases p)
  have "load_row u (entry_row server (k, e)) layer = Inr (bt_insert k e layer)"
    using Cons.prems by (intro load_entry_row) (auto simp: p)
  moreover have "load_rows u (map (entry_row server) ps) (bt_insert k e layer)
      = Inr (bt_insert_all ps (bt_insert k e layer))"
    by (rule Cons.IH) (use Cons.prems in \<open>auto simp: p image_iff\<close>)
  ultimately show ?case by (simp add: p bt_insert_all_def)
qed

lemma bt_insert_all_distinct:
  "distinct (map fst ps) \<Longrightarrow> bt_get (bt_insert_all ps m) k
    = (case map_of ps k of Some v \<Rightarrow> Some v | None \<Rightarrow> bt_get m k)"
  unfolding bt_insert_all_def
proof (induction ps arbitrary: m)
  case (Cons p ps)
  then show ?case by (cases p) (auto split: option.splits dest: map_of_SomeD simp: image_iff)
qed simp

lemma bt_get_map_of: "bt_get m k = map_of m k"
  by (induction m) auto

lemma sort_key_map: "sort_key f (map g xs) = map g (sort_key (f \<circ> g) xs)"
proof (induction xs)
  case (Cons x xs)
  have "insort_key f (g x) (map g ys) = map g (insort_key (f \<circ> g) x ys)" for ys by (induction ys) simp_all
  then show ?case using Cons by (simp add: comp_def)
qed simp

lemma codec_load_rows:
  assumes ok: "layer_ok u layer" and rows: "server_rows server db = map (entry_row server) layer"
  shows "codec_load u server db = Inr layer"
proof -
  let ?ps = "sort_key (sg_key \<circ> entry_row server) layer"
  have sorted: "bt_sorted layer" using ok by (rule layer_ok_sorted)
  then have dist: "distinct (map fst layer)" by (rule bt.get_distinct)
  have "mset (map fst ?ps) = mset (map fst layer)" by simp
  then have dist': "distinct (map fst ?ps)" using dist mset_eq_imp_distinct_iff by blast
  have "load_rows u (map (entry_row server) ?ps) [] = Inr (bt_insert_all ?ps [])"
    by (rule load_entry_rows) (use ok dist' in \<open>auto simp: layer_ok_def\<close>)
  moreover have "bt_insert_all ?ps [] = layer"
  proof (rule bt_ext)
    have "map_of ?ps = map_of layer" using dist dist' by (simp add: map_of_inject_set)
    then show "bt_get (bt_insert_all ?ps []) k = bt_get layer k" for k
      using bt_insert_all_distinct [OF dist'] by (simp add: bt_get_map_of split: option.split)
  qed (use sorted in simp_all)
  ultimately show ?thesis by (simp add: codec_load_def rows sort_key_map)
qed

section \<open>What saving does\<close>

text \<open>Which rows a sequence of entries becomes, and what happens to the credentials.\<close>

definition saved_rows :: "string \<Rightarrow> (ConfigKey \<times> str \<times> ConfigValue) list \<Rightarrow> setting_row list" where
  "saved_rows server es = map (\<lambda>(k, s, v). \<lparr> sg_server = server, sg_key = ConfigKey_name k, sg_spelling = s,
     sg_secret = is_secret v, sg_value = setting_value v \<rparr>) es"

lemma layer_rows: "saved_rows server (layer_entries layer) = map (entry_row server) layer"
  by (simp add: saved_rows_def layer_entries_def entry_row_def case_prod_beta comp_def)

definition same_ids :: "local_db \<Rightarrow> local_db \<Rightarrow> bool" where
  "same_ids db db' \<longleftrightarrow> map cr_id (ld_credentials db') = map cr_id (ld_credentials db)
     \<and> ld_ssh db' = ld_ssh db \<and> ld_connections db' = ld_connections db \<and> ld_revisions db' = ld_revisions db"

definition credential_active :: "string \<Rightarrow> local_db \<Rightarrow> bool" where
  "credential_active i db \<longleftrightarrow> (\<exists>c\<in>set (ld_credentials db). cr_id c = i \<and> cr_state c = Cred_Active)"

text \<open>Only pending credentials may become active.\<close>

definition only_activates :: "local_db \<Rightarrow> local_db \<Rightarrow> bool" where
  "only_activates db db' \<longleftrightarrow> list_all2 (\<lambda>c c'. c' = c \<or> (cr_state c = Cred_Pending \<and> c' = c\<lparr> cr_state := Cred_Active \<rparr>))
     (ld_credentials db) (ld_credentials db')"

lemma only_activates_refl: "only_activates db db"
  by (simp add: only_activates_def list_all2_same)

lemma only_activates_trans:
  assumes "only_activates a b" "only_activates b c"
  shows "only_activates a c"
  unfolding only_activates_def
  by (rule list_all2_trans [OF _ assms [unfolded only_activates_def]]) auto

lemma only_activates_active:
  "only_activates db db' \<Longrightarrow> credential_active i db \<Longrightarrow> credential_active i db'"
  unfolding only_activates_def credential_active_def
  by (fastforce simp: in_set_conv_nth list_all2_conv_all_nth)

lemma activate_credential_Inr:
  assumes "activate_credential i db = Inr db'"
  shows "same_ids db db' \<and> ld_settings db' = ld_settings db \<and> only_activates db db' \<and> credential_active i db'
    \<and> (\<exists>c\<in>set (ld_credentials db). cr_id c = i \<and> cr_state c \<noteq> Cred_Retired)"
proof -
  let ?p = "\<lambda>c. cr_id c = i \<and> cr_state c \<in> {Cred_Pending, Cred_Active}"
  let ?f = "\<lambda>c. if ?p c then c\<lparr> cr_state := Cred_Active \<rparr> else c"
  have one: "length (filter ?p (ld_credentials db)) = 1"
    and db': "db' = db\<lparr> ld_credentials := map ?f (ld_credentials db) \<rparr>"
    using assms by (auto simp: activate_credential_def update_rows_def Let_def split: if_splits)
  have "filter ?p (ld_credentials db) \<noteq> []" using one by auto
  then obtain c where c: "c \<in> set (ld_credentials db)" "?p c" unfolding filter_empty_conv by blast
  have "?f c \<in> set (ld_credentials db')" "cr_id (?f c) = i" "cr_state (?f c) = Cred_Active"
    using c by (auto simp: db')
  then have "credential_active i db'" unfolding credential_active_def by blast
  moreover have "only_activates db db'"
    by (auto simp: db' only_activates_def list_all2_conv_all_nth)
  ultimately show ?thesis using c by (auto simp: db' same_ids_def)
qed

lemma insert_setting_Inr:
  "insert_setting row db = Inr db' \<Longrightarrow> db' = db\<lparr> ld_settings := ld_settings db @ [row] \<rparr>"
  by (auto simp: insert_setting_def split: if_splits)

lemma save_entry_Inr:
  assumes "save_entry server (k, s, v) db = Inr db'"
  shows "same_ids db db' \<and> only_activates db db'
    \<and> ld_settings db' = ld_settings db @ saved_rows server [(k, s, v)]
    \<and> (\<forall>i. v = V_Secret (SecretRef i) \<longrightarrow> credential_active i db'
         \<and> (\<exists>c\<in>set (ld_credentials db). cr_id c = i \<and> cr_state c \<noteq> Cred_Retired))"
proof (cases v)
  case (V_Secret r)
  obtain i where r: "r = SecretRef i" by (cases r)
  obtain db1 where a: "activate_credential i db = Inr db1"
    and ins: "insert_setting \<lparr> sg_server = server, sg_key = ConfigKey_name k, sg_spelling = s,
        sg_secret = True, sg_value = i \<rparr> db1 = Inr db'"
    using assms by (auto simp: save_entry_def V_Secret r rbind_Inr_iff)
  show ?thesis
    using activate_credential_Inr [OF a] insert_setting_Inr [OF ins] V_Secret r
    by (auto simp: saved_rows_def is_secret_def setting_value_def same_ids_def only_activates_def credential_active_def)
qed (use assms in \<open>auto simp: save_entry_def rbind_Inr_iff saved_rows_def is_secret_def setting_value_def
      same_ids_def only_activates_refl dest!: insert_setting_Inr
      intro: only_activates_refl [unfolded only_activates_def] simp: only_activates_def\<close>)

lemma save_entries_Inr:
  "save_entries server es db = Inr db' \<Longrightarrow> same_ids db db' \<and> only_activates db db'
    \<and> ld_settings db' = ld_settings db @ saved_rows server es
    \<and> (\<forall>k s i. (k, s, V_Secret (SecretRef i)) \<in> set es \<longrightarrow> credential_active i db'
         \<and> (\<exists>c\<in>set (ld_credentials db). cr_id c = i \<and> cr_state c \<noteq> Cred_Retired))"
proof (induction es arbitrary: db)
  case Nil
  then show ?case by (simp add: same_ids_def only_activates_refl saved_rows_def)
next
  case (Cons e es)
  obtain k s v where e: "e = (k, s, v)" by (cases e)
  obtain db1 where one: "save_entry server (k, s, v) db = Inr db1" and rest: "save_entries server es db1 = Inr db'"
    using Cons.prems by (auto simp: e rbind_Inr_iff)
  note A = save_entry_Inr [OF one] and B = Cons.IH [OF rest]
  have earlier: "\<exists>c\<in>set (ld_credentials db). cr_id c = i \<and> cr_state c \<noteq> Cred_Retired"
    if "\<exists>c\<in>set (ld_credentials db1). cr_id c = i \<and> cr_state c \<noteq> Cred_Retired" for i
    using that A unfolding only_activates_def list_all2_conv_all_nth
    by (fastforce simp: in_set_conv_nth)
  show ?case
    using A B earlier only_activates_trans only_activates_active [of db1 db']
    by (auto simp: e same_ids_def saved_rows_def)
qed

section \<open>The invariant of the tables\<close>

definition settings_ok :: "url_parser \<Rightarrow> local_db \<Rightarrow> bool" where
  "settings_ok u db \<longleftrightarrow> (\<forall>server. \<exists>layer c. layer_ok u layer \<and> config_resolve layer = Inr c
     \<and> server_rows server db = map (entry_row server) layer)"

definition secrets_active :: "local_db \<Rightarrow> bool" where
  "secrets_active db \<longleftrightarrow> (\<forall>r\<in>set (ld_settings db). sg_secret r \<longrightarrow> credential_active (sg_value r) db)"

definition ids_ok :: "local_db \<Rightarrow> bool" where
  "ids_ok db \<longleftrightarrow> distinct (map cr_id (ld_credentials db)) \<and> distinct (map sh_id (ld_ssh db))
     \<and> distinct (map fst (ld_revisions db)) \<and> set (ld_connections db) \<subseteq> fst ` set (ld_revisions db)"

definition store_ok :: "url_parser \<Rightarrow> local_db \<Rightarrow> bool" where
  "store_ok u db \<longleftrightarrow> settings_ok u db \<and> secrets_active db \<and> ids_ok db"

lemma settings_ok_layer:
  assumes "settings_ok u db"
  obtains layer c where "layer_ok u layer" "server_rows server db = map (entry_row server) layer"
    "codec_load u server db = Inr layer" "config_resolve layer = Inr c"
  using assms codec_load_rows unfolding settings_ok_def by metis

lemma retire_unreferenced_simps [simp]:
  "ld_settings (retire_unreferenced db) = ld_settings db" "ld_ssh (retire_unreferenced db) = ld_ssh db"
  "ld_connections (retire_unreferenced db) = ld_connections db"
  "ld_revisions (retire_unreferenced db) = ld_revisions db"
  "map cr_id (ld_credentials (retire_unreferenced db)) = map cr_id (ld_credentials db)"
  by (simp_all add: retire_unreferenced_def update_rows_def comp_def if_distrib cong: if_cong)

lemma retire_unreferenced_active:
  assumes "credential_active i db" "secret_referenced i db"
  shows "credential_active i (retire_unreferenced db)"
proof -
  obtain c where c: "c \<in> set (ld_credentials db)" "cr_id c = i" "cr_state c = Cred_Active"
    using assms(1) unfolding credential_active_def by blast
  then have "c \<in> set (ld_credentials (retire_unreferenced db))"
    using assms(2) by (force simp: retire_unreferenced_def update_rows_def image_iff)
  then show ?thesis using c unfolding credential_active_def by blast
qed

lemma retire_unreferenced_secrets: "secrets_active db \<Longrightarrow> secrets_active (retire_unreferenced db)"
  unfolding secrets_active_def
  by (auto intro!: retire_unreferenced_active simp: secret_referenced_def list_ex_iff)

lemma server_rows_simps [simp]:
  "server_rows s (db\<lparr> ld_revisions := x \<rparr>) = server_rows s db"
  "server_rows s (db\<lparr> ld_credentials := y \<rparr>) = server_rows s db"
  "server_rows s (db\<lparr> ld_ssh := z \<rparr>) = server_rows s db"
  "server_rows s (db\<lparr> ld_connections := w \<rparr>) = server_rows s db"
  "server_rows s (retire_unreferenced db) = server_rows s db"
  by (simp_all add: server_rows_def)

lemma saved_rows_server: "r \<in> set (saved_rows server es) \<Longrightarrow> sg_server r = server"
  by (auto simp: saved_rows_def)

lemma codec_save_Inr:
  assumes "codec_save server layer db = Inr db'" and "secrets_active db"
  shows "server_rows s db' = (if s = server then map (entry_row server) layer else server_rows s db)
    \<and> same_ids db db' \<and> secrets_active db'"
proof -
  let ?cut = "db\<lparr> ld_settings := filter (\<lambda>r. sg_server r \<noteq> server) (ld_settings db) \<rparr>"
  obtain db1 where s1: "save_entries server (layer_entries layer) ?cut = Inr db1"
    and db': "db' = retire_unreferenced db1"
    using assms(1) by (auto simp: codec_save_def rbind_Inr_iff)
  note S = save_entries_Inr [OF s1]
  have rows: "ld_settings db1 = filter (\<lambda>r. sg_server r \<noteq> server) (ld_settings db) @ map (entry_row server) layer"
    using S by (simp add: layer_rows)
  have "server_rows s db1 = (if s = server then map (entry_row server) layer else server_rows s db)"
    by (auto simp: server_rows_def rows entry_row_def filter_empty_conv intro: filter_cong)
  moreover have "secrets_active db1"
    unfolding secrets_active_def
  proof (intro ballI impI)
    fix r assume r: "r \<in> set (ld_settings db1)" "sg_secret r"
    show "credential_active (sg_value r) db1"
    proof (cases "r \<in> set (ld_settings db)")
      case True
      then have "credential_active (sg_value r) ?cut"
        using assms(2) r(2) unfolding secrets_active_def credential_active_def by simp
      then show ?thesis using S only_activates_active by blast
    next
      case False
      then obtain k e where e: "(k, e) \<in> set layer" "r = entry_row server (k, e)" using r(1) rows by auto
      then obtain i where i: "stored_value e = V_Secret (SecretRef i)"
        using r(2) unfolding entry_row_def by (auto simp: is_secret_iff) (metis SecretRef.exhaust)
      then have "(k, spelling e, V_Secret (SecretRef i)) \<in> set (layer_entries layer)"
        using e(1) by (force simp: layer_entries_def)
      then show ?thesis using S e(2) i by (auto simp: entry_row_def setting_value_def)
    qed
  qed
  ultimately show ?thesis using S by (auto simp: db' same_ids_def retire_unreferenced_secrets)
qed

lemma bump_revision_Inr:
  assumes "bump_revision server db = Inr db'" "distinct (map fst (ld_revisions db))"
    and "map_of (ld_revisions db) server = Some r"
  shows "map_of (ld_revisions db') server = Some (r + 1)
    \<and> db' = db\<lparr> ld_revisions := ld_revisions db' \<rparr> \<and> map fst (ld_revisions db') = map fst (ld_revisions db)"
proof -
  let ?p = "\<lambda>(i, revision). i = server \<and> revision < 9223372036854775807"
  let ?f = "\<lambda>x. if ?p x then (fst x, snd x + 1) else x"
  have db': "db' = db\<lparr> ld_revisions := map ?f (ld_revisions db) \<rparr>"
    and one: "filter ?p (ld_revisions db) \<noteq> []"
    using assms(1) by (auto simp: bump_revision_def update_rows_def Let_def case_prod_beta split: if_splits)
  have in_r: "(server, r) \<in> set (ld_revisions db)" using assms(3) by (rule map_of_SomeD)
  obtain r' where "(server, r') \<in> set (ld_revisions db)" "r' < 9223372036854775807"
    using one unfolding filter_empty_conv by auto
  then have less: "r < 9223372036854775807" using in_r assms(2) eq_key_imp_eq_value by metis
  have fst: "map fst (map ?f (ld_revisions db)) = map fst (ld_revisions db)" by (auto simp: case_prod_beta)
  have d: "distinct (map fst (map ?f (ld_revisions db)))" unfolding fst by (rule assms(2))
  have "(server, r + 1) \<in> set (map ?f (ld_revisions db))" using in_r less by force
  with d have "map_of (map ?f (ld_revisions db)) server = Some (r + 1)" by (rule map_of_is_SomeI)
  then show ?thesis using fst by (simp add: db')
qed

text \<open>The only ways an update succeeds.\<close>

lemma update_config_Inr:
  assumes ok: "store_ok u db" and up: "update_config u server expected change db = Inr (revision, db')"
  obtains layer layer' where "codec_load u server db = Inr layer" "layer_ok u layer"
    "server_rows server db = map (entry_row server) layer" "change layer = Inr layer'"
    "config_revision server db = Inr expected"
    "layer' = layer \<and> db' = db \<and> revision = expected
     \<or> layer' \<noteq> layer \<and> (\<exists>c. config_resolve layer' = Inr c) \<and> revision = expected + 1
       \<and> config_revision server db' = Inr revision \<and> map fst (ld_revisions db') = map fst (ld_revisions db)
       \<and> (\<exists>db1. codec_save server layer' db = Inr db1 \<and> db' = db1\<lparr> ld_revisions := ld_revisions db' \<rparr>)"
proof -
  obtain layer where layer: "layer_ok u layer" "server_rows server db = map (entry_row server) layer"
    "codec_load u server db = Inr layer"
    using ok settings_ok_layer unfolding store_ok_def by metis
  obtain layer' where rev: "config_revision server db = Inr expected" and ch: "change layer = Inr layer'"
    and rep: "config_replace server layer layer' db = Inr (revision, db')"
    using up by (auto simp: update_config_def config_snapshot_def rbind_Inr_iff layer(3) split: if_splits)
  have con: "server \<in> set (ld_connections db)" "map_of (ld_revisions db) server = Some expected"
    using rev by (auto simp: config_revision_def ok_or_Inr_iff split: if_splits)
  show thesis
  proof (cases "layer = layer'")
    case True
    then have "db' = db \<and> revision = expected" using rep rev by (auto simp: config_replace_def)
    then show thesis using that [OF layer(3,1,2) ch rev] True by simp
  next
    case False
    obtain c db1 where res: "config_resolve layer' = Inr c" and save: "codec_save server layer' db = Inr db1"
      and bump: "bump_revision server db1 = Inr db'" and r: "config_revision server db' = Inr revision"
      using rep False by (auto simp: config_replace_def rbind_Inr_iff)
    have same: "same_ids db db1"
      using codec_save_Inr [OF save] ok unfolding store_ok_def by blast
    then have "map_of (ld_revisions db1) server = Some expected" "distinct (map fst (ld_revisions db1))"
      using con ok by (simp_all add: same_ids_def store_ok_def ids_ok_def)
    note B = bump_revision_Inr [OF bump this(2,1)]
    have "config_revision server db' = Inr (expected + 1)"
      using B same con by (auto simp: config_revision_def same_ids_def) (metis local_db.select_convs(2) local_db.surjective local_db.update_convs(1))+
    then show thesis using that [OF layer(3,1,2) ch rev] False res save B r same by (auto simp: same_ids_def)
  qed
qed

lemma update_config_store_ok:
  assumes ok: "store_ok u db" and up: "update_config u server expected change db = Inr (revision, db')"
    and keep: "\<And>layer layer'. layer_ok u layer \<Longrightarrow> change layer = Inr layer' \<Longrightarrow> layer_ok u layer'"
  shows "store_ok u db'"
  using ok up
proof (rule update_config_Inr)
  fix layer layer'
  assume layer: "layer_ok u layer" and ch: "change layer = Inr layer'"
    and alt: "layer' = layer \<and> db' = db \<and> revision = expected
     \<or> layer' \<noteq> layer \<and> (\<exists>c. config_resolve layer' = Inr c) \<and> revision = expected + 1
       \<and> config_revision server db' = Inr revision \<and> map fst (ld_revisions db') = map fst (ld_revisions db)
       \<and> (\<exists>db1. codec_save server layer' db = Inr db1 \<and> db' = db1\<lparr> ld_revisions := ld_revisions db' \<rparr>)"
  show "store_ok u db'"
  proof (cases "db' = db")
    case False
    then obtain db1 where save: "codec_save server layer' db = Inr db1"
      and db': "db' = db1\<lparr> ld_revisions := ld_revisions db' \<rparr>" "map fst (ld_revisions db') = map fst (ld_revisions db)"
      using alt by blast
    have parts: "settings_ok u db" "secrets_active db" "ids_ok db" using ok by (simp_all add: store_ok_def)
    note S = codec_save_Inr [OF save parts(2)]
    have "server_rows s db' = server_rows s db1" for s by (subst db'(1)) simp
    then have "settings_ok u db'"
      using S keep [OF layer ch] parts(1) alt False unfolding settings_ok_def by (metis (full_types))
    moreover have "secrets_active db'"
      using S by (subst db'(1)) (simp add: secrets_active_def credential_active_def)
    moreover have "ids_ok db'"
    proof -
      have "ld_credentials db' = ld_credentials db1 \<and> ld_ssh db' = ld_ssh db1
          \<and> ld_connections db' = ld_connections db1" by (subst (1 2 3) db'(1)) simp
      then show ?thesis using S parts(3) db'(2) unfolding ids_ok_def same_ids_def by (metis list.set_map)
    qed
    ultimately show ?thesis by (simp add: store_ok_def)
  qed (use ok in simp)
qed

section \<open>Every transaction\<close>

datatype StoreOp =
  Op_Set string str ConfigInput int
| Op_SetMany string "(str \<times> str) list" int
| Op_Unset string str int
| Op_Reserve int string
| Op_Retire string
| Op_Expire int
| Op_Forget RetiredCredential
| Op_SshReserve int string string string
| Op_SshActivate string "string option" string
| Op_SshRetire string
| Op_SshForget string
| Op_Connect string
| Op_RemoveServer bool string

definition committed :: "local_db \<Rightarrow> (ClientError, 'a \<times> local_db) result \<Rightarrow> local_db" where
  "committed db r = (case r of Inl _ \<Rightarrow> db | Inr (_, db') \<Rightarrow> db')"

lemma committed_simps [simp]: "committed db (Inl e) = db" "committed db (Inr (x, db')) = db'"
  by (simp_all add: committed_def)

fun store_apply :: "url_parser \<Rightarrow> StoreOp \<Rightarrow> local_db \<Rightarrow> local_db" where
  "store_apply u (Op_Set server key input expected) db = committed db (set_config u server key input expected db)"
| "store_apply u (Op_SetMany server changes expected) db = committed db (set_many_config u server changes expected db)"
| "store_apply u (Op_Unset server key expected) db = committed db (unset_config u server key expected db)"
| "store_apply u (Op_Reserve at i) db = committed db (reserve_credential at i db)"
| "store_apply u (Op_Retire i) db = committed db (retire_credential i db)"
| "store_apply u (Op_Expire at) db = snd (retired_credentials at db)"
| "store_apply u (Op_Forget c) db = committed db (forget_retired_credential c db)"
| "store_apply u (Op_SshReserve at server i target) db = committed db (reserve_ssh_credential at server i target db)"
| "store_apply u (Op_SshActivate server expected i) db = committed db (activate_ssh_credential server expected i db)"
| "store_apply u (Op_SshRetire i) db = committed db (retire_ssh_credential i db)"
| "store_apply u (Op_SshForget server) db = committed db (forget_ssh_credentials server db)"
| "store_apply u (Op_Connect i) db = committed db (insert_connection i db)"
| "store_apply u (Op_RemoveServer pending i) db = committed db (remove_server pending i db)"

fun op_ok :: "StoreOp \<Rightarrow> bool" where
  "op_ok (Op_Set server key input expected) = input_ok input"
| "op_ok _ = True"

lemma map_update_rows: "(\<And>r. p r \<Longrightarrow> g (f r) = g r) \<Longrightarrow> map g (update_rows p f rows) = map g rows"
  by (simp add: update_rows_def)

lemma set_each_ok: "layer_ok u layer \<Longrightarrow> set_each u changes layer = Inr layer' \<Longrightarrow> layer_ok u layer'"
proof (induction changes arbitrary: layer)
  case (Cons c changes)
  then show ?case by (cases c) (auto simp: rbind_Inr_iff, metis input_ok.simps(1) layer_set_preserves)
qed simp

lemma secrets_active_weaken:
  assumes "secrets_active db" "set (ld_settings db') \<subseteq> set (ld_settings db)"
    and "\<And>c. c \<in> set (ld_credentials db) \<Longrightarrow> cr_state c = Cred_Active \<Longrightarrow> c \<in> set (ld_credentials db')"
  shows "secrets_active db'"
  using assms unfolding secrets_active_def credential_active_def by blast

lemma update_rows_keeps: "c \<in> set rows \<Longrightarrow> \<not> p c \<Longrightarrow> c \<in> set (update_rows p f rows)"
  by (force simp: update_rows_def image_iff)

lemma settings_ok_same: "settings_ok u db \<Longrightarrow> ld_settings db' = ld_settings db \<Longrightarrow> settings_ok u db'"
  by (simp add: settings_ok_def server_rows_def)

lemma resolve_empty: "\<exists>c. config_resolve [] = Inr c"
  by (simp add: config_resolve_def overlay_def bt_insert_all_def default_settings_eval proxy_mode_def
      config_get_def Let_def)

lemma settings_ok_remove:
  assumes "settings_ok u db" "ld_settings db' = filter (\<lambda>r. sg_server r \<noteq> i) (ld_settings db)"
  shows "settings_ok u db'"
  unfolding settings_ok_def
proof
  fix server
  have "server_rows server db' = (if server = i then [] else server_rows server db)"
    by (auto simp: server_rows_def assms(2) filter_empty_conv intro: filter_cong)
  then show "\<exists>layer c. layer_ok u layer \<and> config_resolve layer = Inr c
      \<and> server_rows server db' = map (entry_row server) layer"
    using assms(1) resolve_empty unfolding settings_ok_def by (cases "server = i") (auto intro!: exI [of _ "[]"])
qed

lemma credential_ops_ok:
  assumes "store_ok u db" "ld_settings db' = ld_settings db" "ld_connections db' = ld_connections db"
    "ld_revisions db' = ld_revisions db"
    and "distinct (map cr_id (ld_credentials db'))" "distinct (map sh_id (ld_ssh db'))"
    and "\<And>c. c \<in> set (ld_credentials db) \<Longrightarrow> cr_state c = Cred_Active \<Longrightarrow> c \<in> set (ld_credentials db')"
  shows "store_ok u db'"
  using assms settings_ok_same [of u db db'] secrets_active_weaken [of db db']
  by (simp add: store_ok_def ids_ok_def)

lemma store_apply_ok:
  assumes ok: "store_ok u db" and op: "op_ok e"
  shows "store_ok u (store_apply u e db)"
proof -
  have ids: "distinct (map cr_id (ld_credentials db))" "distinct (map sh_id (ld_ssh db))"
    using ok by (simp_all add: store_ok_def ids_ok_def)
  note keep = credential_ops_ok [OF ok]
  show ?thesis
  proof (cases e)
    case (Op_Set server key input expected)
    then have "input_ok input" using op by simp
    then have keep: "layer_ok u layer'"
      if "layer_ok u layer" "lift_config (layer_set u key input layer) = Inr layer'" for layer layer'
      using that layer_set_preserves by (metis lift_config_Inr)
    show ?thesis using Op_Set ok
      by (cases "set_config u server key input expected db")
        (auto simp: set_config_def intro: update_config_store_ok [OF ok _ keep])
  next
    case (Op_SetMany server changes expected)
    then show ?thesis using ok
      by (cases "set_many_config u server changes expected db")
        (auto simp: set_many_config_def intro: update_config_store_ok [OF ok _ set_each_ok])
  next
    case (Op_Unset server key expected)
    have keep: "layer_ok u layer'" if "layer_ok u layer"
      "map_sum id snd (lift_config (layer_unset key layer)) = Inr layer'" for layer layer'
      using that by (cases "layer_unset key layer") (auto simp: lift_config_def intro: layer_unset_preserves)
    show ?thesis using Op_Unset ok
      by (cases "unset_config u server key expected db")
        (auto simp: unset_config_def intro: update_config_store_ok [OF ok _ keep])
  next
    case (Op_RemoveServer pending i)
    have parts: "settings_ok u db" "secrets_active db" "ids_ok db" using ok by (simp_all add: store_ok_def)
    let ?db = "db\<lparr> ld_ssh := update_rows (\<lambda>c. sh_server c = i) (\<lambda>c. c\<lparr> sh_state := Cred_Retired \<rparr>) (ld_ssh db),
       ld_connections := filter (\<lambda>c. c \<noteq> i) (ld_connections db),
       ld_revisions := filter (\<lambda>(c, _). c \<noteq> i) (ld_revisions db),
       ld_settings := filter (\<lambda>r. sg_server r \<noteq> i) (ld_settings db) \<rparr>"
    have "settings_ok u (retire_unreferenced ?db)" by (rule settings_ok_remove [OF parts(1)]) simp
    moreover have "secrets_active ?db" by (rule secrets_active_weaken [OF parts(2)]) auto
    then have "secrets_active (retire_unreferenced ?db)" by (rule retire_unreferenced_secrets)
    moreover have "ids_ok (retire_unreferenced ?db)"
      using parts(3) by (auto simp: ids_ok_def map_update_rows distinct_map_filter case_prod_beta)
    ultimately have "store_ok u (retire_unreferenced ?db)" by (simp add: store_ok_def)
    then show ?thesis using Op_RemoveServer ok by (simp add: remove_server_def Let_def)
  next
    case (Op_Connect i)
    then show ?thesis using ok
      by (auto simp: insert_connection_def store_ok_def ids_ok_def settings_ok_def server_rows_def
          secrets_active_def credential_active_def)
  next
    case (Op_Forget c)
    show ?thesis unfolding Op_Forget
      by (cases c) (simp_all, (rule keep; use ids in \<open>auto simp: distinct_map_filter\<close>)+)
  next
    case (Op_SshActivate server expected i)
    show ?thesis unfolding Op_SshActivate using ok ids
      by (auto simp: activate_ssh_credential_def Let_def map_update_rows intro!: keep)
  qed (use ok ids in \<open>auto intro!: keep update_rows_keeps simp: reserve_credential_def retire_credential_def
        retired_credentials_def expire_pending_def Let_def reserve_ssh_credential_def retire_ssh_credential_def
        forget_ssh_credentials_def map_update_rows list_ex_iff\<close>)
qed

section \<open>Claims\<close>

definition store_run :: "url_parser \<Rightarrow> StoreOp list \<Rightarrow> local_db \<Rightarrow> local_db" where
  "store_run u es db = fold (store_apply u) es db"

lemma store_ok_empty: "store_ok u local_db_empty"
  using resolve_empty
  by (auto simp: store_ok_def settings_ok_def secrets_active_def ids_ok_def local_db_empty_def server_rows_def
      intro!: exI [of _ "[]"])

lemma store_run_ok: "store_ok u db \<Longrightarrow> list_all op_ok es \<Longrightarrow> store_ok u (store_run u es db)"
  unfolding store_run_def by (induction es arbitrary: db) (simp_all add: store_apply_ok)

text \<open>C30: whatever transactions have run, the saved settings of every known server read back as
  a layer that is well typed and resolves, every handle of a secret in the table refers to an
  active credential, and a text in the table is never the value of a variable with a word for
  a secret in its name, nor a proxy URL with user information where RFC 3986 has it.\<close>

theorem saved_settings_readable:
  assumes ops: "list_all op_ok es" and db: "db = store_run u es local_db_empty"
    and known: "server \<in> set (ld_connections db)"
  shows "\<exists>snapshot. config_snapshot u server db = Inr snapshot \<and> layer_ok u (cg_layer snapshot)
    \<and> (\<forall>r\<in>set (server_rows server db). if sg_secret r then credential_active (sg_value r) db
         else (\<forall>k. ConfigKey_parse (sg_spelling r) = Inr k \<longrightarrow> \<not> secret_setting k (sg_value r)))"
proof -
  have ok: "store_ok u db" unfolding db by (rule store_run_ok [OF store_ok_empty ops])
  then obtain layer c where layer: "layer_ok u layer" "server_rows server db = map (entry_row server) layer"
    "codec_load u server db = Inr layer" "config_resolve layer = Inr c"
    using settings_ok_layer unfolding store_ok_def by metis
  obtain r where "map_of (ld_revisions db) server = Some r"
    using ok known unfolding store_ok_def ids_ok_def by (meson in_mono map_of_eq_None_iff option.exhaust)
  then have "config_snapshot u server db = Inr \<lparr> cg_revision = r, cg_layer = layer, cg_effective = c \<rparr>"
    using known layer by (simp add: config_snapshot_def config_revision_def lift_config_def)
  moreover have "if sg_secret row then credential_active (sg_value row) db
      else (\<forall>k. ConfigKey_parse (sg_spelling row) = Inr k \<longrightarrow> \<not> secret_setting k (sg_value row))"
    if row: "row \<in> set (server_rows server db)" for row
  proof (cases "sg_secret row")
    case True
    then show ?thesis using row ok by (simp add: store_ok_def secrets_active_def server_rows_def)
  next
    case False
    obtain k e where e: "(k, e) \<in> set layer" "row = entry_row server (k, e)" using row layer(2) by auto
    have entry: "entry_ok u k e" using e(1) layer(1) by (auto simp: layer_ok_def)
    have "\<not> requires_secret k (sg_value row)"
    proof (cases "stored_value e")
      case (V_Text s)
      then show ?thesis using entry e(2) by (simp add: entry_ok_def not_plain_secret_def entry_row_def setting_value_def)
    qed (use entry e(2) False in
        \<open>cases k; simp add: entry_ok_def value_typed_def requires_secret_def entry_row_def is_secret_def\<close>)+
    then show ?thesis using False entry e(2) by (auto simp: entry_ok_def entry_row_def dest: secret_required)
  qed
  ultimately show ?thesis using layer(1) by auto
qed

lemma saved_settings_readable_witness:
  "\<exists>snapshot. config_snapshot (\<lambda>_. None) ''s''
     (store_run (\<lambda>_. None) [Op_Connect ''s'', Op_Reserve 5 ''r''] local_db_empty) = Inr snapshot"
proof -
  let ?es = "[Op_Connect ''s'', Op_Reserve 5 ''r'']"
  have "list_all op_ok ?es" by simp
  moreover have "''s'' \<in> set (ld_connections (store_run (\<lambda>_. None) ?es local_db_empty))"
    by (simp add: store_run_def insert_connection_def reserve_credential_def local_db_empty_def)
  ultimately show ?thesis using saved_settings_readable [OF _ refl] by blast
qed

text \<open>C31: an update is an atomic compare and swap of one server's layer.  When it succeeds, the
  revision was the expected one, the new layer is what the change made of the old one
  and reads back exactly, every other server reads back as before, and the revision grew by
  one exactly if the layer changed; and then no second update that expects the same
  revision succeeds.\<close>

theorem update_is_compare_and_swap:
  assumes ops: "list_all op_ok es" and db: "db = store_run u es local_db_empty"
    and input: "input_ok input" and up: "set_config u server key input expected db = Inr (revision, db')"
  shows "\<exists>layer layer'. codec_load u server db = Inr layer \<and> layer_set u key input layer = Inr layer'
    \<and> config_revision server db = Inr expected \<and> config_revision server db' = Inr revision
    \<and> revision = (if layer' = layer then expected else expected + 1)
    \<and> codec_load u server db' = Inr layer'
    \<and> (\<forall>other. other \<noteq> server \<longrightarrow> codec_load u other db' = codec_load u other db)
    \<and> (layer' \<noteq> layer \<longrightarrow> update_config u server expected change db' = Inl Err_RevisionConflict)"
proof -
  have ok: "store_ok u db" unfolding db by (rule store_run_ok [OF store_ok_empty ops])
  have up': "update_config u server expected (\<lambda>layer. lift_config (layer_set u key input layer)) db = Inr (revision, db')"
    using up by (simp add: set_config_def)
  from ok up' show ?thesis
  proof (rule update_config_Inr)
    fix layer layer'
    assume load: "codec_load u server db = Inr layer" and lok: "layer_ok u layer"
      and set: "lift_config (layer_set u key input layer) = Inr layer'"
      and rev: "config_revision server db = Inr expected"
      and alt: "layer' = layer \<and> db' = db \<and> revision = expected
       \<or> layer' \<noteq> layer \<and> (\<exists>c. config_resolve layer' = Inr c) \<and> revision = expected + 1
       \<and> config_revision server db' = Inr revision \<and> map fst (ld_revisions db') = map fst (ld_revisions db)
       \<and> (\<exists>db1. codec_save server layer' db = Inr db1 \<and> db' = db1\<lparr> ld_revisions := ld_revisions db' \<rparr>)"
    show ?thesis
    proof (cases "layer' = layer")
      case True
      then show ?thesis using load set rev alt by (intro exI [of _ layer]) auto
    next
      case False
      then obtain c db1 where save: "codec_save server layer' db = Inr db1" and res: "config_resolve layer' = Inr c"
        and db': "db' = db1\<lparr> ld_revisions := ld_revisions db' \<rparr>" and rev': "config_revision server db' = Inr revision"
        and r: "revision = expected + 1" using alt by blast
      have rows: "server_rows s db' = (if s = server then map (entry_row server) layer' else server_rows s db)" for s
        using codec_save_Inr [OF save, of s] ok by (subst db') (simp add: store_ok_def)
      have "layer_ok u layer'" using layer_set_preserves [OF lok input] set by simp
      then have load': "codec_load u server db' = Inr layer'" by (intro codec_load_rows) (simp_all add: rows)
      have "update_config u server expected change db' = Inl Err_RevisionConflict"
        using load' rev' r res by (simp add: update_config_def config_snapshot_def lift_config_def)
      then show ?thesis using load load' set rev rev' r False
        by (intro exI [of _ layer] exI [of _ layer']) (simp add: codec_load_def rows)
    qed
  qed
qed

lemma update_is_compare_and_swap_witness:
  "\<exists>db'. set_config (\<lambda>_. None) ''s'' ''env.LANG'' (Plain ''C'') 0
     (store_run (\<lambda>_. None) [Op_Connect ''s''] local_db_empty) = Inr (1, db')
   \<and> config_revision ''s'' db' = Inr 1"
proof -
  let ?db = "store_run (\<lambda>_. None) [Op_Connect ''s''] local_db_empty"
  let ?L = "[(K_Environment (EnvironmentName ''LANG''), \<lparr> spelling = ''env.LANG'', stored_value = V_Text ''C'' \<rparr>)]"
  have db: "?db = local_db_empty\<lparr> ld_revisions := [(''s'', 0)], ld_connections := [''s''] \<rparr>"
    by (simp add: store_run_def insert_connection_def local_db_empty_def)
  have set: "layer_set (\<lambda>_. None) ''env.LANG'' (Plain ''C'') [] = Inr ?L" by code_simp
  obtain c where res: "config_resolve ?L = Inr c"
    using overlay_get [of ?L K_ProxyMode]
    by (auto simp: config_resolve_def Let_def proxy_mode_def config_get_def setting_spec_def)
  obtain e where empty: "config_resolve [] = Inr e" using resolve_empty by blast
  obtain db' where run: "set_config (\<lambda>_. None) ''s'' ''env.LANG'' (Plain ''C'') 0 ?db = Inr (1, db')"
    unfolding db
    by (simp add: set_config_def update_config_def config_snapshot_def config_revision_def codec_load_def
        server_rows_def set res empty lift_config_def config_replace_def codec_save_def layer_entries_def
        save_entry_def insert_setting_def bump_revision_def update_rows_def retire_unreferenced_def
        local_db_empty_def)
  have "list_all op_ok [Op_Connect ''s'']" "input_ok (Plain ''C'')" by simp_all
  from update_is_compare_and_swap [OF this(1) refl this(2) run] run show ?thesis by blast
qed

end
