(* ===== verification/Client_Vault.thy ===== *)
theory Client_Vault
  imports Client_Store
begin

text \<open>
  Models \<open>client/src/credentials.rs\<close>, \<open>credentials/locking.rs\<close>, the vault of
  \<open>credentials/vault.rs\<close> and the staging of a password in \<open>servers/authentication.rs\<close>:
  how a secret gets from the user into the system's vault while other tasks and
  processes write settings, remove servers and clean up.  The steps of every writer and of
  the cleanup are interleaved; each vault or database call may fail before or after it
  took effect; and a task may be dropped or a process killed between any two steps.
\<close>

section \<open>Writers and cleanup\<close>

definition validate_password :: "string \<Rightarrow> (ClientError, unit) result" where
  "validate_password v =
    (if v = [] \<or> length v > 1023 \<or> CHR 0x00 \<in> set v \<or> CHR 0x0A \<in> set v \<or> CHR 0x0D \<in> set v
     then Inl (Err_Argument (''SSH password must contain 1'' @ [CHR 0xE2, CHR 0x80, CHR 0x93]
       @ ''1023 bytes without NUL or line breaks''))
     else Inr ())"

datatype attempt = Works | Fails_Before | Fails_After

text \<open>What a writer is going to do with its secret: \<open>set_secret\<close> or the \<open>connect\<close> of a password.\<close>

datatype purpose =
  For_Setting string str int
| For_Password string string "string option"

text \<open>A writer holds the shared lock.  \<open>Phase_Detached\<close> is a blocking vault write whose task was
  dropped: it keeps the lock until it is over.\<close>

datatype phase = Phase_Holding | Phase_Reserved | Phase_Stored | Phase_Failed | Phase_Detached

record writer =
  wr_phase :: phase
  wr_id :: string
  wr_raw :: string
  wr_purpose :: purpose

datatype cleaner =
  Cleaner_Locked
| Cleaner_Deleting "RetiredCredential list"
| Cleaner_Forgetting RetiredCredential "RetiredCredential list"

text \<open>\<open>vs_late\<close> are the deletions whose cleanup is gone, \<open>vs_drawn\<close> the identifiers that were drawn,
  with the secret they were drawn for.\<close>

record vault_system =
  vs_db :: local_db
  vs_vault :: "string \<rightharpoonup> string"
  vs_writers :: "nat \<Rightarrow> writer option"
  vs_cleaner :: "cleaner option"
  vs_late :: "string list"
  vs_drawn :: "string \<rightharpoonup> string"

definition vault_start :: vault_system where
  "vault_start = \<lparr> vs_db = local_db_empty, vs_vault = Map.empty, vs_writers = (\<lambda>_. None),
     vs_cleaner = None, vs_late = [], vs_drawn = Map.empty \<rparr>"

datatype VaultEvent =
  Begin_Write nat string string purpose
| Reserve_Write nat int attempt
| Put_Write nat attempt
| Detach_Write nat
| Commit_Write nat attempt
| Retire_Write nat attempt
| End_Write nat
| Lock_Cleanup
| List_Cleanup int
| Delete_Secret attempt
| Forget_Secret attempt
| Abandon_Cleanup
| Late_Delete
| Other_Op StoreOp

section \<open>Steps\<close>

text \<open>A database call: whether it is reported as a success, and the tables it leaves.\<close>

definition tried :: "attempt \<Rightarrow> local_db \<Rightarrow> (ClientError, 'a \<times> local_db) result \<Rightarrow> bool \<times> local_db" where
  "tried a db r = (case (a, r) of
     (Fails_Before, _) \<Rightarrow> (False, db)
   | (_, Inl _) \<Rightarrow> (False, db)
   | (Works, Inr (_, db')) \<Rightarrow> (True, db')
   | (Fails_After, Inr (_, db')) \<Rightarrow> (False, db'))"

definition reserve_for :: "purpose \<Rightarrow> int \<Rightarrow> string \<Rightarrow> unit txn" where
  "reserve_for p at i = (case p of
     For_Setting _ _ _ \<Rightarrow> reserve_credential at i
   | For_Password server target _ \<Rightarrow> reserve_ssh_credential at server i target)"

definition commit_for :: "url_parser \<Rightarrow> purpose \<Rightarrow> string \<Rightarrow> string \<Rightarrow> unit txn" where
  "commit_for u p i raw db = (case p of
     For_Setting server key expected \<Rightarrow>
       rbind (set_config u server key (Secret (SecretRef i) raw) expected db) (\<lambda>(_, db'). Inr ((), db'))
   | For_Password server _ previous \<Rightarrow> activate_ssh_credential server previous i db)"

definition retire_for :: "purpose \<Rightarrow> string \<Rightarrow> unit txn" where
  "retire_for p i = (case p of
     For_Setting _ _ _ \<Rightarrow> retire_credential i | For_Password _ _ _ \<Rightarrow> retire_ssh_credential i)"

definition set_phase :: "nat \<Rightarrow> writer \<Rightarrow> phase option \<Rightarrow> vault_system \<Rightarrow> vault_system" where
  "set_phase n w p s = s\<lparr> vs_writers := (vs_writers s)(n :=
     (case p of None \<Rightarrow> None | Some p \<Rightarrow> Some (w\<lparr> wr_phase := p \<rparr>))) \<rparr>"

definition writer_in :: "vault_system \<Rightarrow> nat \<Rightarrow> phase \<Rightarrow> writer option" where
  "writer_in s n p = (case vs_writers s n of Some w \<Rightarrow> if wr_phase w = p then Some w else None | None \<Rightarrow> None)"

definition begin_write :: "nat \<Rightarrow> string \<Rightarrow> string \<Rightarrow> purpose \<Rightarrow> vault_system \<Rightarrow> vault_system" where
  "begin_write n i raw p s =
    (if vs_writers s n \<noteq> None \<or> vs_cleaner s \<noteq> None \<or> vs_drawn s i \<noteq> None \<or> \<not> secret_ref_ok (SecretRef i) then s
     else s\<lparr> vs_writers := (vs_writers s)(n \<mapsto>
         \<lparr> wr_phase = Phase_Holding, wr_id = i, wr_raw = raw, wr_purpose = p \<rparr>),
       vs_drawn := (vs_drawn s)(i \<mapsto> raw) \<rparr>)"

definition reserve_write :: "nat \<Rightarrow> int \<Rightarrow> attempt \<Rightarrow> vault_system \<Rightarrow> vault_system" where
  "reserve_write n at a s = (case writer_in s n Phase_Holding of None \<Rightarrow> s | Some w \<Rightarrow>
     let (ok, db) = tried a (vs_db s) (reserve_for (wr_purpose w) at (wr_id w) (vs_db s)) in
     set_phase n w (if ok then Some Phase_Reserved else None) (s\<lparr> vs_db := db \<rparr>))"

definition put_write :: "nat \<Rightarrow> attempt \<Rightarrow> vault_system \<Rightarrow> vault_system" where
  "put_write n a s =
    (let stored = (\<lambda>w. if a = Fails_Before then s else s\<lparr> vs_vault := (vs_vault s)(wr_id w \<mapsto> wr_raw w) \<rparr>) in
     case writer_in s n Phase_Reserved of
       Some w \<Rightarrow> set_phase n w (Some (if a = Works then Phase_Stored else Phase_Failed)) (stored w)
     | None \<Rightarrow>
       (case writer_in s n Phase_Detached of
          Some w \<Rightarrow> set_phase n w None (stored w)
        | None \<Rightarrow> s))"

definition commit_write :: "url_parser \<Rightarrow> nat \<Rightarrow> attempt \<Rightarrow> vault_system \<Rightarrow> vault_system" where
  "commit_write u n a s = (case writer_in s n Phase_Stored of None \<Rightarrow> s | Some w \<Rightarrow>
     let (ok, db) = tried a (vs_db s) (commit_for u (wr_purpose w) (wr_id w) (wr_raw w) (vs_db s)) in
     set_phase n w (if ok then None else Some Phase_Failed) (s\<lparr> vs_db := db \<rparr>))"

definition retire_write :: "nat \<Rightarrow> attempt \<Rightarrow> vault_system \<Rightarrow> vault_system" where
  "retire_write n a s = (case writer_in s n Phase_Failed of None \<Rightarrow> s | Some w \<Rightarrow>
     let (ok, db) = tried a (vs_db s) (retire_for (wr_purpose w) (wr_id w) (vs_db s)) in
     set_phase n w None (s\<lparr> vs_db := db \<rparr>))"

definition detach_write :: "nat \<Rightarrow> vault_system \<Rightarrow> vault_system" where
  "detach_write n s = (case writer_in s n Phase_Reserved of None \<Rightarrow> s
     | Some w \<Rightarrow> set_phase n w (Some Phase_Detached) s)"

text \<open>A writer returns, is dropped or dies with its process.\<close>

definition end_write :: "nat \<Rightarrow> vault_system \<Rightarrow> vault_system" where
  "end_write n s = s\<lparr> vs_writers := (vs_writers s)(n := None) \<rparr>"

text \<open>The exclusive lock is taken only while nobody holds the shared one.\<close>

definition lock_cleanup :: "vault_system \<Rightarrow> vault_system" where
  "lock_cleanup s = (if vs_cleaner s = None \<and> vs_writers s = (\<lambda>_. None)
     then s\<lparr> vs_cleaner := Some Cleaner_Locked \<rparr> else s)"

definition list_cleanup :: "int \<Rightarrow> vault_system \<Rightarrow> vault_system" where
  "list_cleanup at s = (if vs_cleaner s = Some Cleaner_Locked
     then (case retired_credentials at (vs_db s) of
         (Inl _, db) \<Rightarrow> s\<lparr> vs_db := db, vs_cleaner := None \<rparr>
       | (Inr cs, db) \<Rightarrow> s\<lparr> vs_db := db, vs_cleaner := Some (Cleaner_Deleting cs) \<rparr>)
     else s)"

definition delete_secret :: "attempt \<Rightarrow> vault_system \<Rightarrow> vault_system" where
  "delete_secret a s = (case vs_cleaner s of
     Some (Cleaner_Deleting (c # cs)) \<Rightarrow>
       (let s' = (if a = Fails_Before then s
                  else s\<lparr> vs_vault := (vs_vault s)(retired_reference c := None) \<rparr>) in
        s'\<lparr> vs_cleaner := Some (if a = Works then Cleaner_Forgetting c cs else Cleaner_Deleting cs) \<rparr>)
   | _ \<Rightarrow> s)"

definition forget_secret :: "attempt \<Rightarrow> vault_system \<Rightarrow> vault_system" where
  "forget_secret a s = (case vs_cleaner s of
     Some (Cleaner_Forgetting c cs) \<Rightarrow>
       s\<lparr> vs_db := snd (tried a (vs_db s) (forget_retired_credential c (vs_db s))),
          vs_cleaner := Some (Cleaner_Deleting cs) \<rparr>
   | _ \<Rightarrow> s)"

text \<open>The cleanup ends, is dropped or dies; a deletion that was under way may still happen.\<close>

definition abandon_cleanup :: "vault_system \<Rightarrow> vault_system" where
  "abandon_cleanup s = s\<lparr> vs_cleaner := None,
     vs_late := (case vs_cleaner s of Some (Cleaner_Deleting (c # cs)) \<Rightarrow> retired_reference c # vs_late s | _ \<Rightarrow> vs_late s) \<rparr>"

definition late_delete :: "vault_system \<Rightarrow> vault_system" where
  "late_delete s = (case vs_late s of [] \<Rightarrow> s
     | i # late \<Rightarrow> s\<lparr> vs_vault := (vs_vault s)(i := None), vs_late := late \<rparr>)"

text \<open>The transactions of the rest of the client; only writers bring in secrets.\<close>

fun other_op :: "StoreOp \<Rightarrow> bool" where
  "other_op (Op_Set server key (Plain raw) expected) = True"
| "other_op (Op_SetMany server changes expected) = True"
| "other_op (Op_Unset server key expected) = True"
| "other_op (Op_SshForget server) = True"
| "other_op (Op_Connect i) = True"
| "other_op (Op_RemoveServer pending i) = True"
| "other_op _ = False"

fun vault_apply :: "url_parser \<Rightarrow> VaultEvent \<Rightarrow> vault_system \<Rightarrow> vault_system" where
  "vault_apply u (Begin_Write n i raw p) s = begin_write n i raw p s"
| "vault_apply u (Reserve_Write n at a) s = reserve_write n at a s"
| "vault_apply u (Put_Write n a) s = put_write n a s"
| "vault_apply u (Detach_Write n) s = detach_write n s"
| "vault_apply u (Commit_Write n a) s = commit_write u n a s"
| "vault_apply u (Retire_Write n a) s = retire_write n a s"
| "vault_apply u (End_Write n) s = end_write n s"
| "vault_apply u Lock_Cleanup s = lock_cleanup s"
| "vault_apply u (List_Cleanup at) s = list_cleanup at s"
| "vault_apply u (Delete_Secret a) s = delete_secret a s"
| "vault_apply u (Forget_Secret a) s = forget_secret a s"
| "vault_apply u Abandon_Cleanup s = abandon_cleanup s"
| "vault_apply u Late_Delete s = late_delete s"
| "vault_apply u (Other_Op e) s = (if other_op e then s\<lparr> vs_db := store_apply u e (vs_db s) \<rparr> else s)"

end
