(* ===== verification/Client_Secrets.thy ===== *)
theory Client_Secrets
  imports Client_Vault
begin

text \<open>
  The invariant of the secrets of \<open>Client_Vault\<close>: every handle the client can use has its
  secret in the vault, and no secret is in the vault without a row the cleanup can find.
\<close>

section \<open>States of the handles\<close>

definition cred_state :: "local_db \<Rightarrow> string \<Rightarrow> cred_state option" where
  "cred_state db i = map_option cr_state (find (\<lambda>c. cr_id c = i) (ld_credentials db))"

definition ssh_state :: "local_db \<Rightarrow> string \<Rightarrow> cred_state option" where
  "ssh_state db i = map_option sh_state (find (\<lambda>c. sh_id c = i) (ld_ssh db))"

lemma find_update_rows:
  "(\<And>r. k (f r) = k r) \<Longrightarrow> find (\<lambda>r. k r = i) (update_rows p f rows)
     = map_option (\<lambda>r. if p r then f r else r) (find (\<lambda>r. k r = i) rows)"
  unfolding update_rows_def by (induction rows) auto

lemma find_None_id: "i \<notin> set (map k rows) \<Longrightarrow> find (\<lambda>r. k r = i) rows = None"
  by (auto simp: find_None_iff)

lemma find_append: "find p (xs @ ys) = (case find p xs of Some x \<Rightarrow> Some x | None \<Rightarrow> find p ys)"
  by (induction xs) auto

lemma find_Some_D: "find p xs = Some x \<Longrightarrow> x \<in> set xs \<and> p x"
  by (auto simp: find_Some_iff)

lemma find_distinct:
  "distinct (map k rows) \<Longrightarrow> r \<in> set rows \<Longrightarrow> find (\<lambda>x. k x = k r) rows = Some r"
  by (induction rows) (auto simp: image_iff)

lemma find_remove:
  "distinct (map k rows) \<Longrightarrow> find (\<lambda>r. k r = i) (filter (\<lambda>r. \<not> q r) rows)
     = (case find (\<lambda>r. k r = i) rows of Some r \<Rightarrow> if q r then None else Some r | None \<Rightarrow> None)"
proof (induction rows)
  case (Cons r rows)
  then show ?case
    by (cases "k r = i") (auto simp: find_None_id split: option.splits dest: find_Some_D)
qed simp

lemma credential_active_iff:
  "distinct (map cr_id (ld_credentials db)) \<Longrightarrow> credential_active i db \<longleftrightarrow> cred_state db i = Some Cred_Active"
  unfolding credential_active_def cred_state_def
  using find_distinct [of cr_id "ld_credentials db"] by (fastforce dest: find_Some_D)

text \<open>How a transaction may move the handles: only the one it names becomes active.\<close>

definition state_moves :: "bool \<Rightarrow> cred_state option \<Rightarrow> cred_state option \<Rightarrow> bool" where
  "state_moves own a b \<longleftrightarrow> b = a \<or> (b = Some Cred_Retired \<and> a \<noteq> None)
     \<or> (own \<and> a = Some Cred_Pending \<and> b = Some Cred_Active)"

definition db_moves :: "string set \<Rightarrow> local_db \<Rightarrow> local_db \<Rightarrow> bool" where
  "db_moves own db db' \<longleftrightarrow> (\<forall>i. state_moves (i \<in> own) (cred_state db i) (cred_state db' i)
     \<and> state_moves (i \<in> own) (ssh_state db i) (ssh_state db' i))"

lemma db_moves_refl [simp]: "db_moves own db db"
  by (simp add: db_moves_def state_moves_def)

lemma state_moves_trans: "state_moves o1 a b \<Longrightarrow> state_moves o1 b c \<Longrightarrow> state_moves o1 a c"
  by (auto simp: state_moves_def)

lemma db_moves_trans: "db_moves own a b \<Longrightarrow> db_moves own b c \<Longrightarrow> db_moves own a c"
  unfolding db_moves_def using state_moves_trans by blast

lemma cred_retire_moves:
  assumes "(\<And>r. cr_id (f r) = cr_id r)" "\<And>r. cr_state (f r) = Cred_Retired"
  shows "state_moves own (cred_state db i) (cred_state (db\<lparr> ld_credentials := update_rows p f (ld_credentials db) \<rparr>) i)"
  using assms
  by (cases "find (\<lambda>c. cr_id c = i) (ld_credentials db)") (auto simp: cred_state_def find_update_rows state_moves_def)

lemma ssh_retire_moves:
  assumes "(\<And>r. sh_id (f r) = sh_id r)" "\<And>r. sh_state (f r) = Cred_Retired"
  shows "state_moves own (ssh_state db i) (ssh_state (db\<lparr> ld_ssh := update_rows p f (ld_ssh db) \<rparr>) i)"
  using assms
  by (cases "find (\<lambda>c. sh_id c = i) (ld_ssh db)") (auto simp: ssh_state_def find_update_rows state_moves_def)

lemma state_updates [simp]:
  "cred_state (db\<lparr> ld_ssh := x \<rparr>) = cred_state db" "cred_state (db\<lparr> ld_settings := y \<rparr>) = cred_state db"
  "cred_state (db\<lparr> ld_revisions := z \<rparr>) = cred_state db" "cred_state (db\<lparr> ld_connections := w \<rparr>) = cred_state db"
  "ssh_state (db\<lparr> ld_credentials := v \<rparr>) = ssh_state db" "ssh_state (db\<lparr> ld_settings := y \<rparr>) = ssh_state db"
  "ssh_state (db\<lparr> ld_revisions := z \<rparr>) = ssh_state db" "ssh_state (db\<lparr> ld_connections := w \<rparr>) = ssh_state db"
  by (simp_all add: cred_state_def ssh_state_def fun_eq_iff)

lemma cred_retire_db:
  "(\<And>r. cr_id (f r) = cr_id r) \<Longrightarrow> (\<And>r. cr_state (f r) = Cred_Retired)
    \<Longrightarrow> db_moves own db (db\<lparr> ld_credentials := update_rows p f (ld_credentials db) \<rparr>)"
  unfolding db_moves_def by (simp add: cred_retire_moves) (simp add: state_moves_def)

lemma ssh_retire_db:
  "(\<And>r. sh_id (f r) = sh_id r) \<Longrightarrow> (\<And>r. sh_state (f r) = Cred_Retired)
    \<Longrightarrow> db_moves own db (db\<lparr> ld_ssh := update_rows p f (ld_ssh db) \<rparr>)"
  unfolding db_moves_def by (simp add: ssh_retire_moves) (simp add: state_moves_def)

lemma db_moves_same:
  "db_moves own db db1 \<Longrightarrow> ld_credentials db' = ld_credentials db1 \<Longrightarrow> ld_ssh db' = ld_ssh db1 \<Longrightarrow> db_moves own db db'"
  by (simp add: db_moves_def cred_state_def ssh_state_def)

lemma retire_unreferenced_moves: "db_moves own db (retire_unreferenced db)"
  unfolding retire_unreferenced_def by (rule cred_retire_db) simp_all

section \<open>Saving a layer\<close>

lemma activate_credential_state:
  assumes "activate_credential j db = Inr db'"
  shows "cred_state db' i = cred_state db i
    \<or> (i = j \<and> cred_state db i = Some Cred_Pending \<and> cred_state db' i = Some Cred_Active)"
  using assms
  by (cases "find (\<lambda>c. cr_id c = i) (ld_credentials db)")
    (auto simp: activate_credential_def Let_def cred_state_def find_update_rows split: if_splits dest: find_Some_D)

lemma save_entries_state:
  assumes "save_entries server es db = Inr db'"
  shows "cred_state db' i = cred_state db i
    \<or> ((\<exists>k s. (k, s, V_Secret (SecretRef i)) \<in> set es)
       \<and> cred_state db i = Some Cred_Pending \<and> cred_state db' i = Some Cred_Active)"
  using assms
proof (induction es arbitrary: db)
  case (Cons e es)
  obtain k s v where e: "e = (k, s, v)" by (cases e)
  obtain db1 where one: "save_entry server e db = Inr db1" and rest: "save_entries server es db1 = Inr db'"
    using Cons.prems by (auto simp: rbind_Inr_iff)
  have "cred_state db1 i = cred_state db i \<or> (v = V_Secret (SecretRef i)
      \<and> cred_state db i = Some Cred_Pending \<and> cred_state db1 i = Some Cred_Active)"
  proof (cases v)
    case (V_Secret r)
    then obtain j where j: "v = V_Secret (SecretRef j)" by (cases r) simp
    then obtain db2 where "activate_credential j db = Inr db2" "cred_state db1 = cred_state db2"
      using one by (auto simp: e save_entry_def rbind_Inr_iff dest!: insert_setting_Inr)
    then show ?thesis using activate_credential_state [of j db db2 i] by (auto simp: j)
  qed (use one in \<open>auto simp: e save_entry_def rbind_Inr_iff dest!: insert_setting_Inr\<close>)
  with Cons.IH [OF rest] show ?case by (auto simp: e)
qed simp

definition layer_secrets :: "ConfigLayer \<Rightarrow> string set" where
  "layer_secrets layer = {i. \<exists>k e. (k, e) \<in> set layer \<and> stored_value e = V_Secret (SecretRef i)}"

lemma saved_layer_secrets:
  "server_rows server db = map (entry_row server) layer \<Longrightarrow> secrets_active db \<Longrightarrow> i \<in> layer_secrets layer
    \<Longrightarrow> credential_active i db"
proof -
  assume rows: "server_rows server db = map (entry_row server) layer" and act: "secrets_active db"
    and "i \<in> layer_secrets layer"
  then obtain k e where e: "(k, e) \<in> set layer" "stored_value e = V_Secret (SecretRef i)"
    unfolding layer_secrets_def by blast
  then have "entry_row server (k, e) \<in> set (server_rows server db)" by (simp add: rows)
  then have "entry_row server (k, e) \<in> set (ld_settings db)" by (simp add: server_rows_def)
  moreover have "sg_secret (entry_row server (k, e))" "sg_value (entry_row server (k, e)) = i"
    using e(2) by (simp_all add: entry_row_def is_secret_def setting_value_def)
  ultimately show ?thesis using act unfolding secrets_active_def by metis
qed

lemma update_config_moves:
  assumes ok: "store_ok u db" and up: "update_config u server expected change db = Inr (revision, db')"
    and new: "\<And>layer layer'. change layer = Inr layer' \<Longrightarrow> layer_secrets layer' \<subseteq> layer_secrets layer \<union> own"
  shows "db_moves own db db'"
  using ok up
proof (rule update_config_Inr)
  fix layer layer'
  assume rows: "server_rows server db = map (entry_row server) layer" and ch: "change layer = Inr layer'"
    and alt: "layer' = layer \<and> db' = db \<and> revision = expected
     \<or> layer' \<noteq> layer \<and> (\<exists>c. config_resolve layer' = Inr c) \<and> revision = expected + 1
       \<and> config_revision server db' = Inr revision \<and> map fst (ld_revisions db') = map fst (ld_revisions db)
       \<and> (\<exists>db1. codec_save server layer' db = Inr db1 \<and> db' = db1\<lparr> ld_revisions := ld_revisions db' \<rparr>)"
  show ?thesis
  proof (cases "db' = db")
    case False
    then obtain db1 where save: "codec_save server layer' db = Inr db1"
      and db': "db' = db1\<lparr> ld_revisions := ld_revisions db' \<rparr>" using alt by blast
    let ?cut = "db\<lparr> ld_settings := filter (\<lambda>r. sg_server r \<noteq> server) (ld_settings db) \<rparr>"
    obtain db2 where s: "save_entries server (layer_entries layer') ?cut = Inr db2"
      and db1: "db1 = retire_unreferenced db2"
      using save by (auto simp: codec_save_def rbind_Inr_iff)
    have "db_moves own db db2"
      unfolding db_moves_def
    proof (intro allI conjI)
      fix i
      have "ld_ssh db2 = ld_ssh db" using save_entries_Inr [OF s] by (simp add: same_ids_def)
      then show "state_moves (i \<in> own) (ssh_state db i) (ssh_state db2 i)"
        by (simp add: ssh_state_def state_moves_def)
      show "state_moves (i \<in> own) (cred_state db i) (cred_state db2 i)"
      proof (cases "cred_state db2 i = cred_state db i")
        case False
        then obtain k s where k: "(k, s, V_Secret (SecretRef i)) \<in> set (layer_entries layer')"
          and m: "cred_state db i = Some Cred_Pending" "cred_state db2 i = Some Cred_Active"
          using save_entries_state [OF s, of i] by auto
        then have "i \<in> layer_secrets layer'" unfolding layer_entries_def layer_secrets_def by fastforce
        moreover have "i \<notin> layer_secrets layer"
          using saved_layer_secrets [OF rows, of i] ok m
          by (auto simp: store_ok_def ids_ok_def credential_active_iff)
        ultimately show ?thesis using new [OF ch] m by (auto simp: state_moves_def)
      qed (simp add: state_moves_def)
    qed
    then have "db_moves own db db1" using db1 retire_unreferenced_moves db_moves_trans by blast
    then show ?thesis by (subst db') (simp add: db_moves_def)
  qed simp
qed

lemma bt_insert_subset: "set (bt_insert k v m) \<subseteq> insert (k, v) (set m)"
  by (induction m) (auto split: if_splits)

lemma bt_remove_subset: "set (bt_remove k m) \<subseteq> set m"
  by (induction m) (auto split: if_splits)

lemma parse_value_plain: "parse_value u k raw = Inr v \<Longrightarrow> v \<noteq> V_Secret r"
  by (cases k) (auto simp: parse_value_def parse_integer_def rbind_Inr_iff Let_def split: if_splits option.splits)

lemma layer_set_secrets:
  assumes "layer_set u key input layer = Inr layer'"
  shows "layer_secrets layer' \<subseteq> layer_secrets layer \<union> (case input of Secret (SecretRef i) _ \<Rightarrow> {i} | Plain _ \<Rightarrow> {})"
  using assms
proof (rule layer_set_Inr)
  fix k raw r v plain
  assume parts: "input_parts input = (raw, r)" and plain: "parse_value u k raw = Inr plain"
    and v: "v = (case r of Some s \<Rightarrow> V_Secret s | None \<Rightarrow> plain)"
    and layer': "layer' = bt_insert k \<lparr> spelling = (case bt_get layer k of None \<Rightarrow> key | Some e \<Rightarrow> spelling e),
       stored_value = v \<rparr> layer"
  have not_secret: "plain \<noteq> V_Secret x" for x using plain by (rule parse_value_plain)
  have "(k', e) \<in> set layer' \<Longrightarrow> (k', e) \<in> set layer \<or> stored_value e = v" for k' e
    unfolding layer' by (auto dest!: set_mp [OF bt_insert_subset])
  then have only: "layer_secrets layer' \<subseteq> layer_secrets layer \<union> {i. v = V_Secret (SecretRef i)}"
    unfolding layer_secrets_def by fastforce
  have "v = V_Secret (SecretRef i) \<Longrightarrow> \<exists>raw. input = Secret (SecretRef i) raw" for i
    using not_secret parts by (cases input) (auto simp: v)
  then show ?thesis using only by fastforce
qed

lemma layer_unset_secrets:
  "layer_unset key layer = Inr (b, layer') \<Longrightarrow> layer_secrets layer' \<subseteq> layer_secrets layer"
  using bt_remove_subset by (fastforce simp: layer_unset_def layer_secrets_def rbind_Inr_iff)

lemma set_each_secrets: "set_each u changes layer = Inr layer' \<Longrightarrow> layer_secrets layer' \<subseteq> layer_secrets layer"
proof (induction changes arbitrary: layer)
  case (Cons c changes)
  obtain key v where c: "c = (key, v)" by (cases c)
  then obtain layer1 where one: "layer_set u key (Plain v) layer = Inr layer1"
    and rest: "set_each u changes layer1 = Inr layer'" using Cons.prems by (auto simp: rbind_Inr_iff)
  show ?case using Cons.IH [OF rest] layer_set_secrets [OF one] by auto
qed simp

section \<open>How the transactions move the handles\<close>

lemma set_config_moves:
  assumes "store_ok u db" "set_config u server key input expected db = Inr (revision, db')"
  shows "db_moves (case input of Secret (SecretRef i) _ \<Rightarrow> {i} | Plain _ \<Rightarrow> {}) db db'"
  using assms unfolding set_config_def
  by (rule update_config_moves) (simp add: layer_set_secrets)

lemma set_many_config_moves:
  assumes "store_ok u db" "set_many_config u server changes expected db = Inr (revision, db')"
  shows "db_moves {} db db'"
  using assms unfolding set_many_config_def
  by (rule update_config_moves) (simp add: set_each_secrets)

lemma unset_config_moves:
  assumes "store_ok u db" "unset_config u server key expected db = Inr (revision, db')"
  shows "db_moves {} db db'"
  using assms unfolding unset_config_def
proof (rule update_config_moves)
  fix layer layer'
  assume "map_sum id snd (lift_config (layer_unset key layer)) = Inr layer'"
  then have "\<exists>b. layer_unset key layer = Inr (b, layer')"
  proof (cases "layer_unset key layer")
    case (Inr x)
    then show ?thesis using \<open>map_sum _ _ _ = _\<close> by (cases x) (simp add: lift_config_def)
  qed (simp add: lift_config_def)
  then obtain b where "layer_unset key layer = Inr (b, layer')" ..
  then show "layer_secrets layer' \<subseteq> layer_secrets layer \<union> {}" by (simp add: layer_unset_secrets)
qed

lemma remove_server_moves:
  assumes "remove_server pending server db = Inr (x, db')"
  shows "db_moves {} db db'"
proof -
  let ?db = "db\<lparr> ld_ssh := update_rows (\<lambda>c. sh_server c = server) (\<lambda>c. c\<lparr> sh_state := Cred_Retired \<rparr>) (ld_ssh db),
       ld_connections := filter (\<lambda>c. c \<noteq> server) (ld_connections db),
       ld_revisions := filter (\<lambda>(c, _). c \<noteq> server) (ld_revisions db),
       ld_settings := filter (\<lambda>r. sg_server r \<noteq> server) (ld_settings db) \<rparr>"
  have db': "db' = retire_unreferenced ?db" using assms by (simp add: remove_server_def Let_def split: if_splits)
  have "db_moves {} db (db\<lparr> ld_ssh := update_rows (\<lambda>c. sh_server c = server) (\<lambda>c. c\<lparr> sh_state := Cred_Retired \<rparr>)
      (ld_ssh db) \<rparr>)" by (rule ssh_retire_db) simp_all
  then have "db_moves {} db ?db" by (rule db_moves_same) simp_all
  then show ?thesis unfolding db' using retire_unreferenced_moves db_moves_trans by blast
qed

lemma expire_pending_moves: "db_moves own db (expire_pending at db)"
proof -
  let ?mid = "db\<lparr> ld_credentials := ld_credentials (expire_pending at db) \<rparr>"
  have "db_moves own db ?mid"
    using cred_retire_db [of "\<lambda>c. c\<lparr> cr_state := Cred_Retired \<rparr>" own db] by (simp add: expire_pending_def)
  moreover have "db_moves own ?mid (?mid\<lparr> ld_ssh := ld_ssh (expire_pending at db) \<rparr>)"
    using ssh_retire_db [of "\<lambda>c. c\<lparr> sh_state := Cred_Retired \<rparr>" own ?mid] by (simp add: expire_pending_def)
  moreover have "?mid\<lparr> ld_ssh := ld_ssh (expire_pending at db) \<rparr> = expire_pending at db"
    by (simp add: expire_pending_def)
  ultimately show ?thesis using db_moves_trans by metis
qed

lemma retire_credential_moves: "retire_credential i db = Inr (x, db') \<Longrightarrow> db_moves own db db'"
  by (auto simp: retire_credential_def intro: cred_retire_db)

lemma retire_ssh_moves:
  "retire_ssh_credential i db = Inr (x, db') \<Longrightarrow> db_moves own db db'"
  "forget_ssh_credentials server db = Inr (x, db') \<Longrightarrow> db_moves own db db'"
  by (auto simp: retire_ssh_credential_def forget_ssh_credentials_def intro: ssh_retire_db)

lemma activate_ssh_moves:
  assumes "activate_ssh_credential server expected i db = Inr (x, db')"
  shows "db_moves {i} db db'"
proof -
  let ?retired = "update_rows (\<lambda>c. sh_server c = server \<and> sh_state c = Cred_Active)
    (\<lambda>c. c\<lparr> sh_state := Cred_Retired \<rparr>) (ld_ssh db)"
  let ?p = "\<lambda>c. sh_id c = i \<and> sh_server c = server \<and> sh_state c = Cred_Pending \<and> server \<in> set (ld_connections db)"
  have db': "db' = db\<lparr> ld_ssh := update_rows ?p (\<lambda>c. c\<lparr> sh_state := Cred_Active \<rparr>) ?retired \<rparr>"
    using assms by (simp add: activate_ssh_credential_def Let_def split: if_splits)
  have "state_moves (j \<in> {i}) (ssh_state db j) (ssh_state db' j)" for j
    by (cases "find (\<lambda>c. sh_id c = j) (ld_ssh db)")
      (auto simp: ssh_state_def db' find_update_rows state_moves_def dest: find_Some_D)
  then show ?thesis by (simp add: db_moves_def db') (simp add: state_moves_def)
qed

lemma other_op_moves:
  assumes "store_ok u db" "other_op e"
  shows "db_moves {} db (store_apply u e db)"
proof (cases e)
  case (Op_Set server key input expected)
  then obtain raw where "input = Plain raw" using assms(2) by (cases input) auto
  then show ?thesis using Op_Set set_config_moves [OF assms(1), of server key input expected]
    by (cases "set_config u server key input expected db") auto
next
  case (Op_SetMany server changes expected)
  then show ?thesis using set_many_config_moves [OF assms(1)]
    by (cases "set_many_config u server changes expected db") auto
next
  case (Op_Unset server key expected)
  then show ?thesis using unset_config_moves [OF assms(1)]
    by (cases "unset_config u server key expected db") auto
next
  case (Op_SshForget server)
  then show ?thesis using retire_ssh_moves(2) by (cases "forget_ssh_credentials server db") auto
next
  case (Op_Connect i)
  then show ?thesis by (cases "insert_connection i db")
    (auto simp: insert_connection_def db_moves_def state_moves_def split: if_splits)
next
  case (Op_RemoveServer pending i)
  then show ?thesis using remove_server_moves by (cases "remove_server pending i db") auto
qed (use assms in auto)

section \<open>The invariant\<close>

fun row_state :: "purpose \<Rightarrow> local_db \<Rightarrow> string \<Rightarrow> cred_state option" where
  "row_state (For_Setting _ _ _) = cred_state"
| "row_state (For_Password _ _ _) = ssh_state"

definition has_row :: "local_db \<Rightarrow> string \<Rightarrow> bool" where
  "has_row db i \<longleftrightarrow> cred_state db i \<noteq> None \<or> ssh_state db i \<noteq> None"

definition usable :: "local_db \<Rightarrow> string \<Rightarrow> bool" where
  "usable db i \<longleftrightarrow> cred_state db i = Some Cred_Active \<or> ssh_state db i = Some Cred_Active"

definition retired_or_gone :: "local_db \<Rightarrow> string \<Rightarrow> bool" where
  "retired_or_gone db i \<longleftrightarrow> cred_state db i \<in> {None, Some Cred_Retired} \<and> ssh_state db i \<in> {None, Some Cred_Retired}"

fun cleaner_ids :: "cleaner option \<Rightarrow> string set" where
  "cleaner_ids (Some (Cleaner_Deleting cs)) = retired_reference ` set cs"
| "cleaner_ids (Some (Cleaner_Forgetting c cs)) = insert (retired_reference c) (retired_reference ` set cs)"
| "cleaner_ids _ = {}"

definition writer_ok :: "vault_system \<Rightarrow> writer \<Rightarrow> bool" where
  "writer_ok s w \<longleftrightarrow> vs_drawn s (wr_id w) = Some (wr_raw w) \<and> wr_id w \<notin> set (vs_late s)
     \<and> (if wr_phase w = Phase_Holding then \<not> has_row (vs_db s) (wr_id w)
        else row_state (wr_purpose w) (vs_db s) (wr_id w) \<noteq> None)
     \<and> (wr_phase w = Phase_Stored \<longrightarrow> vs_vault s (wr_id w) \<noteq> None)"

definition writers_ok :: "vault_system \<Rightarrow> bool" where
  "writers_ok s \<longleftrightarrow> (\<forall>n w. vs_writers s n = Some w \<longrightarrow> writer_ok s w)
     \<and> (\<forall>n m w w'. vs_writers s n = Some w \<longrightarrow> vs_writers s m = Some w' \<longrightarrow> wr_id w = wr_id w' \<longrightarrow> n = m)"

definition cleaner_ok :: "vault_system \<Rightarrow> bool" where
  "cleaner_ok s \<longleftrightarrow> (vs_cleaner s \<noteq> None \<longrightarrow> vs_writers s = (\<lambda>_. None))
     \<and> (\<forall>i\<in>cleaner_ids (vs_cleaner s) \<union> set (vs_late s). vs_drawn s i \<noteq> None \<and> retired_or_gone (vs_db s) i)
     \<and> (\<forall>c cs. vs_cleaner s = Some (Cleaner_Forgetting c cs) \<longrightarrow> vs_vault s (retired_reference c) = None)"

definition handles_ok :: "url_parser \<Rightarrow> local_db \<Rightarrow> (string \<rightharpoonup> string) \<Rightarrow> bool" where
  "handles_ok u db drawn \<longleftrightarrow> store_ok u db
     \<and> (\<forall>i. drawn i \<noteq> None \<longrightarrow> secret_ref_ok (SecretRef i))
     \<and> (\<forall>i. has_row db i \<longrightarrow> drawn i \<noteq> None)
     \<and> (\<forall>i. cred_state db i = None \<or> ssh_state db i = None)"

definition secrets_ok :: "local_db \<Rightarrow> (string \<rightharpoonup> string) \<Rightarrow> (string \<rightharpoonup> string) \<Rightarrow> bool" where
  "secrets_ok db drawn vault \<longleftrightarrow> (\<forall>i. usable db i \<longrightarrow> vault i \<noteq> None)
     \<and> (\<forall>i v. vault i = Some v \<longrightarrow> drawn i = Some v \<and> has_row db i)"

definition vault_inv :: "url_parser \<Rightarrow> vault_system \<Rightarrow> bool" where
  "vault_inv u s \<longleftrightarrow> handles_ok u (vs_db s) (vs_drawn s) \<and> secrets_ok (vs_db s) (vs_drawn s) (vs_vault s)
     \<and> writers_ok s \<and> cleaner_ok s"

lemma state_moves_None: "state_moves own a b \<Longrightarrow> b = None \<longleftrightarrow> a = None"
  by (auto simp: state_moves_def)

lemma db_moves_rows:
  assumes "db_moves own db db'"
  shows "has_row db' i = has_row db i" "row_state p db' i = None \<longleftrightarrow> row_state p db i = None"
    "cred_state db' i = None \<longleftrightarrow> cred_state db i = None" "ssh_state db' i = None \<longleftrightarrow> ssh_state db i = None"
proof -
  show c: "cred_state db' i = None \<longleftrightarrow> cred_state db i = None" and s: "ssh_state db' i = None \<longleftrightarrow> ssh_state db i = None"
    using assms state_moves_None unfolding db_moves_def by blast+
  then show "has_row db' i = has_row db i" by (simp add: has_row_def)
  show "row_state p db' i = None \<longleftrightarrow> row_state p db i = None" using c s by (cases p) simp_all
qed

lemma retired_or_gone_moves: "db_moves own db db' \<Longrightarrow> retired_or_gone db i \<Longrightarrow> retired_or_gone db' i"
  unfolding db_moves_def retired_or_gone_def state_moves_def by (metis cred_state.distinct(3) insertE insertI1 insertI2 option.distinct(1) option.inject singletonD)

lemma usable_moves: "db_moves own db db' \<Longrightarrow> usable db' i \<Longrightarrow> usable db i \<or> i \<in> own"
  unfolding db_moves_def usable_def state_moves_def by (metis cred_state.distinct(5) option.inject)

lemma vault_inv_moves:
  assumes inv: "vault_inv u s" and mv: "db_moves own (vs_db s) db'" and ok: "store_ok u db'"
    and own: "\<And>i. i \<in> own \<Longrightarrow> vs_vault s i \<noteq> None"
  shows "vault_inv u (s\<lparr> vs_db := db' \<rparr>)"
proof -
  have "handles_ok u db' (vs_drawn s)"
    using inv ok by (auto simp: vault_inv_def handles_ok_def db_moves_rows [OF mv])
  moreover have "secrets_ok db' (vs_drawn s) (vs_vault s)"
    using inv own usable_moves [OF mv] by (auto simp: vault_inv_def secrets_ok_def db_moves_rows [OF mv])
  moreover have "writers_ok (s\<lparr> vs_db := db' \<rparr>)"
    using inv by (simp add: vault_inv_def writers_ok_def writer_ok_def db_moves_rows [OF mv])
  moreover have "cleaner_ok (s\<lparr> vs_db := db' \<rparr>)"
    using inv retired_or_gone_moves [OF mv] by (simp add: vault_inv_def cleaner_ok_def)
  ultimately show ?thesis by (simp add: vault_inv_def)
qed

lemma vault_inv_phase:
  assumes inv: "vault_inv u s" and w: "vs_writers s n = Some w"
    and p: "\<And>p'. p = Some p' \<Longrightarrow> writer_ok s (w\<lparr> wr_phase := p' \<rparr>)"
  shows "vault_inv u (set_phase n w p s)"
proof -
  have same: "writer_ok (set_phase n w p s) = writer_ok s" by (simp add: fun_eq_iff writer_ok_def set_phase_def)
  have "writers_ok (set_phase n w p s)"
    using inv w p unfolding vault_inv_def writers_ok_def same
    by (auto simp: set_phase_def split: option.splits if_splits)
  moreover have "vs_cleaner s = None" using inv w by (auto simp: vault_inv_def cleaner_ok_def)
  then have "cleaner_ok (set_phase n w p s)" using inv by (auto simp: vault_inv_def cleaner_ok_def set_phase_def)
  ultimately show ?thesis using inv by (simp add: vault_inv_def set_phase_def)
qed

lemma vault_inv_writer:
  "vault_inv u s \<Longrightarrow> vs_writers s n = Some w \<Longrightarrow> writer_ok s w \<and> vs_cleaner s = None"
  by (auto simp: vault_inv_def writers_ok_def cleaner_ok_def)

lemma writer_in_Some: "writer_in s n p = Some w \<longleftrightarrow> vs_writers s n = Some w \<and> wr_phase w = p"
  by (auto simp: writer_in_def split: option.splits)

lemma tried_cases:
  assumes "tried a db r = (ok, db')"
  shows "(db' = db \<and> \<not> ok) \<or> (\<exists>x. r = Inr (x, db'))"
  using assms by (auto simp: tried_def split: attempt.splits sum.splits)

lemma begin_write_inv:
  assumes inv: "vault_inv u s"
  shows "vault_inv u (begin_write n i raw p s)"
proof (cases "vs_writers s n \<noteq> None \<or> vs_cleaner s \<noteq> None \<or> vs_drawn s i \<noteq> None \<or> \<not> secret_ref_ok (SecretRef i)")
  case False
  then have new: "vs_drawn s i = None" "vs_cleaner s = None" "vs_writers s n = None" "secret_ref_ok (SecretRef i)" by auto
  have fresh: "\<not> has_row (vs_db s) i" "i \<notin> set (vs_late s)" "vs_vault s i = None"
    using inv new(1) unfolding vault_inv_def handles_ok_def cleaner_ok_def secrets_ok_def
    by (blast, blast, cases "vs_vault s i") auto
  have others: "\<And>m w. vs_writers s m = Some w \<Longrightarrow> wr_id w \<noteq> i"
    using inv new by (auto simp: vault_inv_def writers_ok_def writer_ok_def)
  let ?s = "s\<lparr> vs_writers := (vs_writers s)(n \<mapsto> \<lparr> wr_phase = Phase_Holding, wr_id = i, wr_raw = raw, wr_purpose = p \<rparr>),
    vs_drawn := (vs_drawn s)(i \<mapsto> raw) \<rparr>"
  have "writers_ok ?s"
    using inv new fresh others unfolding vault_inv_def writers_ok_def writer_ok_def by auto
  moreover have "cleaner_ok ?s" using inv new by (auto simp: vault_inv_def cleaner_ok_def)
  moreover have "handles_ok u (vs_db s) ((vs_drawn s)(i \<mapsto> raw))" "secrets_ok (vs_db s) ((vs_drawn s)(i \<mapsto> raw)) (vs_vault s)"
    using inv new fresh by (auto simp: vault_inv_def handles_ok_def secrets_ok_def)
  ultimately have "vault_inv u ?s" by (simp add: vault_inv_def)
  then show ?thesis using False by (simp add: begin_write_def)
qed (use inv in \<open>auto simp: begin_write_def\<close>)

lemma tried_step:
  assumes inv: "vault_inv u s" and t: "tried a (vs_db s) r = (ok, db')"
    and mv: "\<And>x. r = Inr (x, db') \<Longrightarrow> db_moves own (vs_db s) db' \<and> store_ok u db'"
    and own: "\<And>i. i \<in> own \<Longrightarrow> vs_vault s i \<noteq> None"
  shows "vault_inv u (s\<lparr> vs_db := db' \<rparr>)"
proof (cases "db' = vs_db s")
  case True
  then show ?thesis using inv by simp
next
  case False
  then show ?thesis using tried_cases [OF t] mv own vault_inv_moves [OF inv] by blast
qed

lemma vault_inv_store_ok: "vault_inv u s \<Longrightarrow> store_ok u (vs_db s)"
  by (simp add: vault_inv_def handles_ok_def)

text \<open>A transaction through its entry in \<open>store_apply\<close>.\<close>

lemma store_ok_committed:
  "store_ok u db \<Longrightarrow> op_ok e \<Longrightarrow> store_apply u e db = db' \<Longrightarrow> store_ok u db'"
  using store_apply_ok by blast

lemma commit_write_inv:
  assumes inv: "vault_inv u s"
  shows "vault_inv u (commit_write u n a s)"
proof (cases "writer_in s n Phase_Stored")
  case (Some w)
  then have w: "vs_writers s n = Some w" "wr_phase w = Phase_Stored" by (simp_all add: writer_in_Some)
  have wok: "writer_ok s w" using vault_inv_writer [OF inv w(1)] by simp
  have ref: "secret_ref_ok (SecretRef (wr_id w))"
    using wok inv unfolding writer_ok_def vault_inv_def handles_ok_def by blast
  obtain ok db' where t: "tried a (vs_db s) (commit_for u (wr_purpose w) (wr_id w) (wr_raw w) (vs_db s)) = (ok, db')"
    by fastforce
  note st = vault_inv_store_ok [OF inv]
  have "db_moves {wr_id w} (vs_db s) db' \<and> store_ok u db'"
    if r: "commit_for u (wr_purpose w) (wr_id w) (wr_raw w) (vs_db s) = Inr (x, db')" for x
  proof (cases "wr_purpose w")
    case (For_Setting server key expected)
    then obtain rev where run: "set_config u server key (Secret (SecretRef (wr_id w)) (wr_raw w)) expected (vs_db s)
        = Inr (rev, db')" using r by (auto simp: commit_for_def rbind_Inr_iff)
    show ?thesis using set_config_moves [OF st run]
        store_ok_committed [OF st, of "Op_Set server key (Secret (SecretRef (wr_id w)) (wr_raw w)) expected"] run ref
      by simp
  next
    case (For_Password server target previous)
    then have run: "activate_ssh_credential server previous (wr_id w) (vs_db s) = Inr (x, db')"
      using r by (simp add: commit_for_def)
    show ?thesis using activate_ssh_moves [OF run]
        store_ok_committed [OF st, of "Op_SshActivate server previous (wr_id w)"] run by simp
  qed
  moreover have "vs_vault s (wr_id w) \<noteq> None" using wok w by (simp add: writer_ok_def)
  ultimately have inv': "vault_inv u (s\<lparr> vs_db := db' \<rparr>)" using tried_step [OF inv t, of "{wr_id w}"] by simp
  have "writer_ok (s\<lparr> vs_db := db' \<rparr>) w" using vault_inv_writer [OF inv'] w(1) by simp
  then have "writer_ok (s\<lparr> vs_db := db' \<rparr>) (w\<lparr> wr_phase := Phase_Failed \<rparr>)" using w(2) by (simp add: writer_ok_def)
  then have "vault_inv u (set_phase n w (if ok then None else Some Phase_Failed) (s\<lparr> vs_db := db' \<rparr>))"
    using w(1) by (intro vault_inv_phase [OF inv']) (auto split: if_splits)
  then show ?thesis by (simp add: commit_write_def Some t)
qed (simp add: commit_write_def inv)

lemma retire_write_inv:
  assumes inv: "vault_inv u s"
  shows "vault_inv u (retire_write n a s)"
proof (cases "writer_in s n Phase_Failed")
  case (Some w)
  then have w: "vs_writers s n = Some w" by (simp add: writer_in_Some)
  obtain ok db' where t: "tried a (vs_db s) (retire_for (wr_purpose w) (wr_id w) (vs_db s)) = (ok, db')" by fastforce
  note st = vault_inv_store_ok [OF inv]
  have "db_moves {} (vs_db s) db' \<and> store_ok u db'"
    if r: "retire_for (wr_purpose w) (wr_id w) (vs_db s) = Inr (x, db')" for x
  proof (cases "wr_purpose w")
    case (For_Setting server key expected)
    then show ?thesis using r retire_credential_moves store_ok_committed [OF st, of "Op_Retire (wr_id w)"]
      by (simp add: retire_for_def)
  next
    case (For_Password server target previous)
    then show ?thesis using r retire_ssh_moves(1) store_ok_committed [OF st, of "Op_SshRetire (wr_id w)"]
      by (simp add: retire_for_def)
  qed
  then have inv': "vault_inv u (s\<lparr> vs_db := db' \<rparr>)" using tried_step [OF inv t, of "{}"] by simp
  then have "vault_inv u (set_phase n w None (s\<lparr> vs_db := db' \<rparr>))" using w by (intro vault_inv_phase) simp_all
  then show ?thesis by (simp add: retire_write_def Some t)
qed (simp add: retire_write_def inv)

lemma detach_write_inv:
  assumes inv: "vault_inv u s"
  shows "vault_inv u (detach_write n s)"
proof (cases "writer_in s n Phase_Reserved")
  case (Some w)
  then have w: "vs_writers s n = Some w" "wr_phase w = Phase_Reserved" by (simp_all add: writer_in_Some)
  have "writer_ok s w" using vault_inv_writer [OF inv w(1)] by simp
  then show ?thesis using w Some by (auto simp: detach_write_def writer_ok_def intro!: vault_inv_phase [OF inv])
qed (simp add: detach_write_def inv)

lemma end_write_inv:
  assumes inv: "vault_inv u s"
  shows "vault_inv u (end_write n s)"
proof (cases "vs_writers s n")
  case None
  then have "end_write n s = s" by (simp add: end_write_def fun_upd_idem)
  then show ?thesis using inv by simp
next
  case (Some w)
  have "end_write n s = set_phase n w None s" by (simp add: end_write_def set_phase_def)
  then show ?thesis using vault_inv_phase [OF inv Some, of None] by simp
qed

lemma put_write_inv:
  assumes inv: "vault_inv u s"
  shows "vault_inv u (put_write n a s)"
proof -
  let ?stored = "\<lambda>w. if a = Fails_Before then s else s\<lparr> vs_vault := (vs_vault s)(wr_id w \<mapsto> wr_raw w) \<rparr>"
  have stored: "vault_inv u (?stored w)"
    if w: "vs_writers s n = Some w" "wr_phase w \<noteq> Phase_Holding" for w
  proof -
    have wok: "writer_ok s w" and cl: "vs_cleaner s = None" using vault_inv_writer [OF inv w(1)] by simp_all
    then have row: "has_row (vs_db s) (wr_id w)" "vs_drawn s (wr_id w) = Some (wr_raw w)"
      using w(2) by (cases "wr_purpose w"; simp add: writer_ok_def has_row_def)+
    let ?s = "s\<lparr> vs_vault := (vs_vault s)(wr_id w \<mapsto> wr_raw w) \<rparr>"
    have "secrets_ok (vs_db s) (vs_drawn s) (vs_vault ?s)" using inv row by (auto simp: vault_inv_def secrets_ok_def)
    moreover have "writers_ok ?s" using inv unfolding vault_inv_def writers_ok_def by (auto simp: writer_ok_def)
    moreover have "cleaner_ok ?s" using inv cl by (auto simp: vault_inv_def cleaner_ok_def)
    ultimately have "vault_inv u ?s" using inv by (simp add: vault_inv_def)
    then show ?thesis using inv by simp
  qed
  show ?thesis
  proof (cases "writer_in s n Phase_Reserved")
    case (Some w)
    then have w: "vs_writers s n = Some w" "wr_phase w = Phase_Reserved" by (simp_all add: writer_in_Some)
    have inv': "vault_inv u (?stored w)" using stored w by simp
    have w': "vs_writers (?stored w) n = Some w" using w by simp
    have "writer_ok (?stored w) w" using vault_inv_writer [OF inv' w'] by simp
    then have "writer_ok (?stored w) (w\<lparr> wr_phase := if a = Works then Phase_Stored else Phase_Failed \<rparr>)"
      using w(2) by (auto simp: writer_ok_def split: if_splits)
    then have "vault_inv u (set_phase n w (Some (if a = Works then Phase_Stored else Phase_Failed)) (?stored w))"
      by (intro vault_inv_phase [OF inv' w']) simp
    then show ?thesis by (simp add: put_write_def Some Let_def)
  next
    case None
    show ?thesis
    proof (cases "writer_in s n Phase_Detached")
      case (Some w)
      then have w: "vs_writers s n = Some w" "wr_phase w = Phase_Detached" by (simp_all add: writer_in_Some)
      have inv': "vault_inv u (?stored w)" using stored w by simp
      have "vs_writers (?stored w) n = Some w" using w by simp
      then have "vault_inv u (set_phase n w None (?stored w))" by (intro vault_inv_phase [OF inv']) simp_all
      then show ?thesis by (simp add: put_write_def None Some Let_def)
    qed (simp add: put_write_def None inv)
  qed
qed

lemma cred_state_insert:
  "cred_state (db\<lparr> ld_credentials := ld_credentials db @ [c] \<rparr>) i
    = (case cred_state db i of None \<Rightarrow> if cr_id c = i then Some (cr_state c) else None | Some x \<Rightarrow> Some x)"
  by (simp add: cred_state_def find_append split: option.split)

lemma ssh_state_insert:
  "ssh_state (db\<lparr> ld_ssh := ld_ssh db @ [c] \<rparr>) i
    = (case ssh_state db i of None \<Rightarrow> if sh_id c = i then Some (sh_state c) else None | Some x \<Rightarrow> Some x)"
  by (simp add: ssh_state_def find_append split: option.split)

text \<open>A reservation adds one pending row for its own identifier, in the table of its purpose.\<close>

lemma reserve_for_states:
  assumes r: "reserve_for p at i db = Inr (x, db')" and fresh: "\<not> has_row db i"
  shows "row_state p db' i = Some Cred_Pending" "cred_state db' i = None \<or> ssh_state db' i = None"
    "j \<noteq> i \<Longrightarrow> cred_state db' j = cred_state db j \<and> ssh_state db' j = ssh_state db j" "\<not> usable db' i"
proof -
  consider (setting) "db' = db\<lparr> ld_credentials := ld_credentials db @
      [\<lparr> cr_id = i, cr_state = Cred_Pending, cr_created = at, cr_managed = True \<rparr>] \<rparr>" "row_state p = cred_state"
    | (password) server target where "db' = db\<lparr> ld_ssh := ld_ssh db @
      [\<lparr> sh_id = i, sh_server = server, sh_target = target, sh_state = Cred_Pending, sh_created = at \<rparr>] \<rparr>"
      "row_state p = ssh_state"
    using r by (cases p) (auto simp: reserve_for_def reserve_credential_def reserve_ssh_credential_def split: if_splits)
  then have "row_state p db' i = Some Cred_Pending \<and> (cred_state db' i = None \<or> ssh_state db' i = None)
    \<and> (j \<noteq> i \<longrightarrow> cred_state db' j = cred_state db j \<and> ssh_state db' j = ssh_state db j) \<and> \<not> usable db' i"
    using fresh
    by cases (auto simp: has_row_def usable_def cred_state_insert ssh_state_insert split: option.split)
  then show "row_state p db' i = Some Cred_Pending" "cred_state db' i = None \<or> ssh_state db' i = None"
    "j \<noteq> i \<Longrightarrow> cred_state db' j = cred_state db j \<and> ssh_state db' j = ssh_state db j" "\<not> usable db' i" by simp_all
qed

lemma reserve_for_store_ok:
  assumes st: "store_ok u db" and r: "reserve_for p at i db = Inr (x, db')"
  shows "store_ok u db'"
proof (cases p)
  case (For_Setting server key expected)
  then show ?thesis using r store_ok_committed [OF st, of "Op_Reserve at i"] by (simp add: reserve_for_def)
next
  case (For_Password server target previous)
  then show ?thesis using r store_ok_committed [OF st, of "Op_SshReserve at server i target"]
    by (simp add: reserve_for_def)
qed

lemma row_state_other:
  assumes "cred_state db' j = cred_state db j \<and> ssh_state db' j = ssh_state db j"
  shows "has_row db' j = has_row db j" "usable db' j = usable db j" "retired_or_gone db' j = retired_or_gone db j"
    "row_state p db' j = row_state p db j"
  using assms by (auto simp: has_row_def usable_def retired_or_gone_def) (cases p; simp)+

lemma reserve_write_inv:
  assumes inv: "vault_inv u s"
  shows "vault_inv u (reserve_write n at a s)"
proof (cases "writer_in s n Phase_Holding")
  case (Some w)
  then have w: "vs_writers s n = Some w" "wr_phase w = Phase_Holding" by (simp_all add: writer_in_Some)
  have wok: "writer_ok s w" and cl: "vs_cleaner s = None" using vault_inv_writer [OF inv w(1)] by simp_all
  then have fresh: "\<not> has_row (vs_db s) (wr_id w)" "vs_drawn s (wr_id w) = Some (wr_raw w)" "wr_id w \<notin> set (vs_late s)"
    using w(2) by (simp_all add: writer_ok_def)
  obtain ok db' where t: "tried a (vs_db s) (reserve_for (wr_purpose w) at (wr_id w) (vs_db s)) = (ok, db')" by fastforce
  let ?p = "if ok then Some Phase_Reserved else None"
  have goal: "vault_inv u (set_phase n w ?p (s\<lparr> vs_db := db' \<rparr>))"
    using tried_cases [OF t]
  proof
    assume "db' = vs_db s \<and> \<not> ok"
    then show ?thesis using vault_inv_phase [OF inv w(1), of None] by simp
  next
    assume "\<exists>x. reserve_for (wr_purpose w) at (wr_id w) (vs_db s) = Inr (x, db')"
    then obtain x where r: "reserve_for (wr_purpose w) at (wr_id w) (vs_db s) = Inr (x, db')" ..
    note S = reserve_for_states [OF r fresh(1)]
    note same = row_state_other [OF S(3)]
    have row: "has_row db' (wr_id w)" using S(1) by (cases "wr_purpose w") (simp_all add: has_row_def)
    have "handles_ok u db' (vs_drawn s)"
      unfolding handles_ok_def
    proof (intro conjI allI)
      fix i
      show "has_row db' i \<longrightarrow> vs_drawn s i \<noteq> None"
        using inv fresh(2) same(1) [of i] by (cases "i = wr_id w") (auto simp: vault_inv_def handles_ok_def)
      show "cred_state db' i = None \<or> ssh_state db' i = None"
        using inv S(2) S(3) [of i] by (cases "i = wr_id w") (auto simp: vault_inv_def handles_ok_def)
    qed (use inv reserve_for_store_ok [OF vault_inv_store_ok [OF inv] r] in \<open>auto simp: vault_inv_def handles_ok_def\<close>)
    moreover have "secrets_ok db' (vs_drawn s) (vs_vault s)"
      unfolding secrets_ok_def
    proof (intro conjI allI impI)
      fix i assume "usable db' i"
      then show "vs_vault s i \<noteq> None"
        using inv S(4) same(2) [of i] by (cases "i = wr_id w") (auto simp: vault_inv_def secrets_ok_def)
    next
      fix i v assume "vs_vault s i = Some v"
      then show "vs_drawn s i = Some v" "has_row db' i"
        using inv row same(1) [of i] by (cases "i = wr_id w"; auto simp: vault_inv_def secrets_ok_def)+
    qed
    moreover have "writers_ok (set_phase n w ?p (s\<lparr> vs_db := db' \<rparr>))"
    proof -
      have "writer_ok (s\<lparr> vs_db := db' \<rparr>) (w\<lparr> wr_phase := Phase_Reserved \<rparr>)"
        using wok S(1) by (simp add: writer_ok_def)
      moreover have "writer_ok (s\<lparr> vs_db := db' \<rparr>) w'" if "vs_writers s m = Some w'" "m \<noteq> n" for m w'
      proof -
        have ne: "wr_id w' \<noteq> wr_id w" using inv that w(1) unfolding vault_inv_def writers_ok_def by blast
        have "writer_ok s w'" using inv that unfolding vault_inv_def writers_ok_def by blast
        then show ?thesis using same [OF ne] by (simp add: writer_ok_def)
      qed
      moreover have "writer_ok (set_phase n w ?p (s\<lparr> vs_db := db' \<rparr>)) = writer_ok (s\<lparr> vs_db := db' \<rparr>)"
        by (simp add: fun_eq_iff writer_ok_def set_phase_def)
      ultimately show ?thesis using inv w(1) unfolding vault_inv_def writers_ok_def
        by (auto simp: set_phase_def split: if_splits)
    qed
    moreover have "cleaner_ok (set_phase n w ?p (s\<lparr> vs_db := db' \<rparr>))"
    proof -
      have "retired_or_gone db' i" if "i \<in> set (vs_late s)" for i
        using inv that fresh(3) same(3) [of i] by (cases "i = wr_id w") (auto simp: vault_inv_def cleaner_ok_def)
      then show ?thesis using inv cl by (simp add: vault_inv_def cleaner_ok_def set_phase_def)
    qed
    ultimately show ?thesis by (simp add: vault_inv_def set_phase_def)
  qed
  then show ?thesis by (simp add: reserve_write_def Some t)
qed (simp add: reserve_write_def inv)

section \<open>The cleanup keeps the invariant\<close>

lemma lock_cleanup_inv: "vault_inv u s \<Longrightarrow> vault_inv u (lock_cleanup s)"
  by (auto simp: lock_cleanup_def vault_inv_def cleaner_ok_def writers_ok_def writer_ok_def)

lemma listed_retired:
  assumes "handles_ok u db drawn" and r: "retired_credentials at db0 = (Inr cs, db)"
    and i: "i \<in> retired_reference ` set cs"
  shows "drawn i \<noteq> None \<and> retired_or_gone db i"
proof -
  have ids: "distinct (map cr_id (ld_credentials db))" "distinct (map sh_id (ld_ssh db))"
    using assms(1) by (simp_all add: handles_ok_def store_ok_def ids_ok_def)
  have db: "db = expire_pending at db0"
    using r by (auto simp: retired_credentials_def Let_def split: if_splits)
  have "(\<exists>c\<in>set (ld_credentials db). cr_id c = i \<and> cr_state c = Cred_Retired)
      \<or> (\<exists>c\<in>set (ld_ssh db). sh_id c = i \<and> sh_state c = Cred_Retired)"
    using r i unfolding retired_credentials_def Let_def db by (force split: if_splits)
  then have "cred_state db i = Some Cred_Retired \<or> ssh_state db i = Some Cred_Retired"
    using find_distinct [OF ids(1)] find_distinct [OF ids(2)] by (auto simp: cred_state_def ssh_state_def)
  then show ?thesis using assms(1) unfolding handles_ok_def retired_or_gone_def has_row_def
    by (metis insertCI option.distinct(1))
qed

lemma list_cleanup_inv:
  assumes inv: "vault_inv u s"
  shows "vault_inv u (list_cleanup at s)"
proof (cases "vs_cleaner s = Some Cleaner_Locked")
  case True
  obtain r db' where l: "retired_credentials at (vs_db s) = (r, db')" by fastforce
  have db': "db' = expire_pending at (vs_db s)" using l by (simp add: retired_credentials_def Let_def)
  have "store_ok u db'" using store_ok_committed [OF vault_inv_store_ok [OF inv], of "Op_Expire at"] l by simp
  then have inv': "vault_inv u (s\<lparr> vs_db := db' \<rparr>)"
    using vault_inv_moves [OF inv expire_pending_moves [of "{}" _ at]] by (simp add: db')
  have none: "vs_writers s = (\<lambda>_. None)" using inv True by (simp add: vault_inv_def cleaner_ok_def)
  have writers: "writers_ok (s\<lparr> vs_db := db', vs_cleaner := c \<rparr>)" for c by (simp add: writers_ok_def none)
  have ok: "handles_ok u db' (vs_drawn s)" using inv' by (simp add: vault_inv_def)
  have "cleaner_ok (s\<lparr> vs_db := db', vs_cleaner := (case r of Inl _ \<Rightarrow> None | Inr cs \<Rightarrow> Some (Cleaner_Deleting cs)) \<rparr>)"
  proof (cases r)
    case (Inr cs)
    then have l': "retired_credentials at (vs_db s) = (Inr cs, db')" using l by simp
    have old: "\<And>i. i \<in> set (vs_late s) \<Longrightarrow> vs_drawn s i \<noteq> None \<and> retired_or_gone db' i"
      using inv' by (simp add: vault_inv_def cleaner_ok_def)
    show ?thesis using listed_retired [OF ok l'] old none by (auto simp: Inr cleaner_ok_def)
  qed (use inv' in \<open>simp add: vault_inv_def cleaner_ok_def\<close>)
  then show ?thesis using inv' writers True
    by (cases r) (simp_all add: list_cleanup_def l vault_inv_def)
qed (simp add: list_cleanup_def inv)

text \<open>Deleting a secret nobody can use any more.\<close>

lemma delete_secrets_ok: "secrets_ok db drawn vault \<Longrightarrow> retired_or_gone db i \<Longrightarrow> secrets_ok db drawn (vault(i := None))"
  by (auto simp: secrets_ok_def usable_def retired_or_gone_def)

lemma delete_secret_inv:
  assumes inv: "vault_inv u s"
  shows "vault_inv u (delete_secret a s)"
proof (cases "\<exists>c cs. vs_cleaner s = Some (Cleaner_Deleting (c # cs))")
  case True
  then obtain c cs where c: "vs_cleaner s = Some (Cleaner_Deleting (c # cs))" by blast
  have none: "vs_writers s = (\<lambda>_. None)" using inv c by (simp add: vault_inv_def cleaner_ok_def)
  have gone: "\<And>i. i \<in> retired_reference ` set (c # cs) \<union> set (vs_late s) \<Longrightarrow> vs_drawn s i \<noteq> None \<and> retired_or_gone (vs_db s) i"
    using inv c unfolding vault_inv_def cleaner_ok_def by auto
  have "secrets_ok (vs_db s) (vs_drawn s) ((vs_vault s)(retired_reference c := None))"
    using inv gone [of "retired_reference c"] by (auto simp: vault_inv_def intro: delete_secrets_ok)
  then show ?thesis using inv gone none
    by (simp add: delete_secret_def c Let_def vault_inv_def writers_ok_def cleaner_ok_def)
next
  case False
  then have "delete_secret a s = s"
    by (auto simp: delete_secret_def split: option.splits cleaner.splits list.splits)
  then show ?thesis using inv by simp
qed

lemma forget_states:
  assumes "store_ok u db" and f: "forget_retired_credential c db = Inr (x, db')"
  shows "(if j = retired_reference c then retired_or_gone db j \<longrightarrow> retired_or_gone db' j \<and> \<not> usable db' j
      else cred_state db' j = cred_state db j \<and> ssh_state db' j = ssh_state db j)
    \<and> (cred_state db j = None \<longrightarrow> cred_state db' j = None) \<and> (ssh_state db j = None \<longrightarrow> ssh_state db' j = None)"
proof -
  have ids: "distinct (map cr_id (ld_credentials db))" "distinct (map sh_id (ld_ssh db))"
    using assms(1) by (simp_all add: store_ok_def ids_ok_def)
  show ?thesis
  proof (cases c)
    case (Retired_Environment i)
    then have "cred_state db' j = (case find (\<lambda>c. cr_id c = j) (ld_credentials db) of None \<Rightarrow> None
        | Some r \<Rightarrow> if cr_id r = i \<and> cr_managed r \<and> cr_state r = Cred_Retired then None else Some (cr_state r))"
      "ssh_state db' j = ssh_state db j"
      using f find_remove [OF ids(1), of j "\<lambda>c. cr_id c = i \<and> cr_managed c \<and> cr_state c = Cred_Retired"]
      by (auto simp: cred_state_def split: option.split)
    then show ?thesis
      by (auto simp: Retired_Environment cred_state_def retired_or_gone_def usable_def split: option.split dest: find_Some_D)
  next
    case (Retired_Ssh i)
    then have "ssh_state db' j = (case find (\<lambda>c. sh_id c = j) (ld_ssh db) of None \<Rightarrow> None
        | Some r \<Rightarrow> if sh_id r = i \<and> sh_state r = Cred_Retired then None else Some (sh_state r))"
      "cred_state db' j = cred_state db j"
      using f find_remove [OF ids(2), of j "\<lambda>c. sh_id c = i \<and> sh_state c = Cred_Retired"]
      by (auto simp: ssh_state_def split: option.split)
    then show ?thesis
      by (auto simp: Retired_Ssh ssh_state_def retired_or_gone_def usable_def split: option.split dest: find_Some_D)
  qed
qed

lemma forget_secret_inv:
  assumes inv: "vault_inv u s"
  shows "vault_inv u (forget_secret a s)"
proof (cases "\<exists>c cs. vs_cleaner s = Some (Cleaner_Forgetting c cs)")
  case True
  then obtain c cs where c: "vs_cleaner s = Some (Cleaner_Forgetting c cs)" by blast
  have none: "vs_writers s = (\<lambda>_. None)" and vault: "vs_vault s (retired_reference c) = None"
    and gone: "\<And>i. i = retired_reference c \<or> i \<in> retired_reference ` set cs \<or> i \<in> set (vs_late s)
      \<Longrightarrow> vs_drawn s i \<noteq> None \<and> retired_or_gone (vs_db s) i"
    using inv c unfolding vault_inv_def cleaner_ok_def by auto
  note st = vault_inv_store_ok [OF inv]
  obtain ok db' where t: "tried a (vs_db s) (forget_retired_credential c (vs_db s)) = (ok, db')" by fastforce
  let ?s = "s\<lparr> vs_db := db', vs_cleaner := Some (Cleaner_Deleting cs) \<rparr>"
  have "vault_inv u ?s"
    using tried_cases [OF t]
  proof
    assume "db' = vs_db s \<and> \<not> ok"
    then show ?thesis using inv none gone by (simp add: vault_inv_def writers_ok_def cleaner_ok_def)
  next
    assume "\<exists>x. forget_retired_credential c (vs_db s) = Inr (x, db')"
    then obtain x where f: "forget_retired_credential c (vs_db s) = Inr (x, db')" ..
    note F = forget_states [OF st f]
    have st': "store_ok u db'" using store_ok_committed [OF st, of "Op_Forget c"] f by simp
    have other: "has_row db' j = has_row (vs_db s) j" "usable db' j = usable (vs_db s) j"
      "retired_or_gone db' j = retired_or_gone (vs_db s) j" if "j \<noteq> retired_reference c" for j
    proof -
      have "cred_state db' j = cred_state (vs_db s) j \<and> ssh_state db' j = ssh_state (vs_db s) j"
        using F [of j] that by simp
      then show "has_row db' j = has_row (vs_db s) j" "usable db' j = usable (vs_db s) j"
        "retired_or_gone db' j = retired_or_gone (vs_db s) j" by (rule row_state_other)+
    qed
    have self: "retired_or_gone db' (retired_reference c)" "\<not> usable db' (retired_reference c)"
      using F [of "retired_reference c"] gone [of "retired_reference c"] by auto
    have "handles_ok u db' (vs_drawn s)"
      unfolding handles_ok_def
    proof (intro conjI allI impI)
      fix i
      show "has_row db' i \<Longrightarrow> vs_drawn s i \<noteq> None"
        using inv other(1) [of i] gone by (cases "i = retired_reference c") (auto simp: vault_inv_def handles_ok_def)
      show "cred_state db' i = None \<or> ssh_state db' i = None"
      proof -
        have "cred_state (vs_db s) i = None \<or> ssh_state (vs_db s) i = None"
          using inv by (simp add: vault_inv_def handles_ok_def)
        then show ?thesis using F [THEN conjunct2, of i] by auto
      qed
    qed (use inv st' in \<open>auto simp: vault_inv_def handles_ok_def\<close>)
    moreover have "secrets_ok db' (vs_drawn s) (vs_vault s)"
      unfolding secrets_ok_def
    proof (intro conjI allI impI)
      fix i assume "usable db' i"
      then show "vs_vault s i \<noteq> None" using inv self other(2) [of i]
        by (cases "i = retired_reference c") (auto simp: vault_inv_def secrets_ok_def)
    next
      fix i v assume v: "vs_vault s i = Some v"
      then have "i \<noteq> retired_reference c" using vault by auto
      then show "vs_drawn s i = Some v" "has_row db' i"
        using v inv other(1) [of i] by (auto simp: vault_inv_def secrets_ok_def)
    qed
    moreover have "cleaner_ok ?s"
    proof -
      have "vs_drawn s i \<noteq> None \<and> retired_or_gone db' i" if "i \<in> retired_reference ` set cs \<or> i \<in> set (vs_late s)" for i
        using gone [of i] self other(3) [of i] that by (cases "i = retired_reference c") auto
      then show ?thesis using none by (auto simp: cleaner_ok_def)
    qed
    ultimately show ?thesis using none by (simp add: vault_inv_def writers_ok_def)
  qed
  then show ?thesis by (simp add: forget_secret_def c t)
next
  case False
  then have "forget_secret a s = s" by (auto simp: forget_secret_def split: option.splits cleaner.splits)
  then show ?thesis using inv by simp
qed

lemma abandon_cleanup_inv:
  assumes inv: "vault_inv u s"
  shows "vault_inv u (abandon_cleanup s)"
proof (cases "vs_cleaner s")
  case None
  then have "abandon_cleanup s = s" by (simp add: abandon_cleanup_def)
  then show ?thesis using inv by simp
next
  case (Some c)
  then have "vs_writers s = (\<lambda>_. None)" using inv by (simp add: vault_inv_def cleaner_ok_def)
  then show ?thesis using inv Some
    by (auto simp: abandon_cleanup_def vault_inv_def cleaner_ok_def writers_ok_def split: cleaner.splits list.splits)
qed

lemma late_delete_inv:
  assumes inv: "vault_inv u s"
  shows "vault_inv u (late_delete s)"
proof (cases "vs_late s")
  case (Cons i late)
  have "retired_or_gone (vs_db s) i" using inv Cons by (simp add: vault_inv_def cleaner_ok_def)
  then have "secrets_ok (vs_db s) (vs_drawn s) ((vs_vault s)(i := None))"
    using inv by (simp add: vault_inv_def delete_secrets_ok)
  moreover have "writers_ok (s\<lparr> vs_vault := (vs_vault s)(i := None), vs_late := late \<rparr>)"
    using inv Cons unfolding vault_inv_def writers_ok_def by (auto simp: writer_ok_def)
  moreover have "cleaner_ok (s\<lparr> vs_vault := (vs_vault s)(i := None), vs_late := late \<rparr>)"
    using inv Cons by (auto simp: vault_inv_def cleaner_ok_def)
  ultimately show ?thesis using inv Cons by (simp add: late_delete_def vault_inv_def)
qed (simp add: late_delete_def inv)

lemma other_op_inv:
  assumes inv: "vault_inv u s" and e: "other_op e"
  shows "vault_inv u (s\<lparr> vs_db := store_apply u e (vs_db s) \<rparr>)"
proof -
  note st = vault_inv_store_ok [OF inv]
  have "op_ok e" using e by (induction e rule: other_op.induct) simp_all
  then show ?thesis using vault_inv_moves [OF inv other_op_moves [OF st e]] store_apply_ok [OF st] by simp
qed

lemma vault_apply_inv: "vault_inv u s \<Longrightarrow> vault_inv u (vault_apply u e s)"
  by (cases e) (simp_all add: begin_write_inv reserve_write_inv put_write_inv detach_write_inv commit_write_inv
      retire_write_inv end_write_inv lock_cleanup_inv list_cleanup_inv delete_secret_inv forget_secret_inv
      abandon_cleanup_inv late_delete_inv other_op_inv)

definition vault_run :: "url_parser \<Rightarrow> VaultEvent list \<Rightarrow> vault_system" where
  "vault_run u es = fold (vault_apply u) es vault_start"

lemma vault_start_inv: "vault_inv u vault_start"
  using store_ok_empty [of u]
  by (simp add: vault_inv_def vault_start_def handles_ok_def secrets_ok_def writers_ok_def cleaner_ok_def
      has_row_def usable_def cred_state_def ssh_state_def)
    (simp add: local_db_empty_def)

lemma vault_run_inv: "vault_inv u (vault_run u es)"
proof -
  have "vault_inv u s \<Longrightarrow> vault_inv u (fold (vault_apply u) es s)" for s
    by (induction es arbitrary: s) (simp_all add: vault_apply_inv)
  then show ?thesis by (simp add: vault_run_def vault_start_inv)
qed

lemma has_row_iff: "has_row db i \<longleftrightarrow> i \<in> cr_id ` set (ld_credentials db) \<or> i \<in> sh_id ` set (ld_ssh db)"
  by (auto simp: has_row_def cred_state_def ssh_state_def find_None_iff)

section \<open>Claims\<close>

text \<open>C29: however writers, cleanups, failures, dropped tasks and killed processes interleave, every
  handle a setting refers to and every active SSH password of a server has its secret in
  the vault, the very text it was drawn for; and every secret in the vault still has a
  row that the cleanup can find: none is lost, mixed up or orphaned.\<close>

theorem secrets_never_lost:
  "(\<forall>r\<in>set (ld_settings (vs_db (vault_run u es))). sg_secret r \<longrightarrow>
      vs_vault (vault_run u es) (sg_value r) \<noteq> None
      \<and> vs_vault (vault_run u es) (sg_value r) = vs_drawn (vault_run u es) (sg_value r))
   \<and> (\<forall>server i. ssh_credential server (vs_db (vault_run u es)) = Some i \<longrightarrow>
      vs_vault (vault_run u es) i \<noteq> None \<and> vs_vault (vault_run u es) i = vs_drawn (vault_run u es) i)
   \<and> (\<forall>i\<in>dom (vs_vault (vault_run u es)).
      i \<in> cr_id ` set (ld_credentials (vs_db (vault_run u es))) \<union> sh_id ` set (ld_ssh (vs_db (vault_run u es))))"
proof -
  let ?s = "vault_run u es"
  have inv: "vault_inv u ?s" by (rule vault_run_inv)
  have st: "store_ok u (vs_db ?s)" by (rule vault_inv_store_ok [OF inv])
  have S: "secrets_ok (vs_db ?s) (vs_drawn ?s) (vs_vault ?s)" using inv by (simp add: vault_inv_def)
  have good: "vs_vault ?s i \<noteq> None \<and> vs_vault ?s i = vs_drawn ?s i" if "usable (vs_db ?s) i" for i
    using S that unfolding secrets_ok_def by (metis not_None_eq)
  have "usable (vs_db ?s) (sg_value r)" if "r \<in> set (ld_settings (vs_db ?s))" "sg_secret r" for r
    using st that by (auto simp: store_ok_def secrets_active_def ids_ok_def credential_active_iff usable_def)
  moreover have "usable (vs_db ?s) i" if "ssh_credential server (vs_db ?s) = Some i" for server i
    using st that find_distinct [of sh_id "ld_ssh (vs_db ?s)"]
    by (auto simp: store_ok_def ids_ok_def ssh_credential_def usable_def ssh_state_def dest!: find_Some_D)
  moreover have "has_row (vs_db ?s) i" if "i \<in> dom (vs_vault ?s)" for i
    using S that unfolding secrets_ok_def by blast
  ultimately show ?thesis using good unfolding has_row_iff Un_iff by blast
qed

lemma secrets_never_lost_witness:
  "let s = vault_run (\<lambda>_. None) [Other_Op (Op_Connect ''s''), Begin_Write 0 ''a'' ''pw'' (For_Password ''s'' ''t'' None),
     Reserve_Write 0 0 Works, Put_Write 0 Works, Commit_Write 0 Works] in
   ssh_credential ''s'' (vs_db s) = Some ''a'' \<and> vs_vault s ''a'' = vs_drawn s ''a'' \<and> vs_vault s ''a'' = Some ''pw''"
proof -
  let ?s = "vault_run (\<lambda>_. None) [Other_Op (Op_Connect ''s''), Begin_Write 0 ''a'' ''pw'' (For_Password ''s'' ''t'' None),
     Reserve_Write 0 0 Works, Put_Write 0 Works, Commit_Write 0 Works]"
  have a: "secret_ref_ok (SecretRef ''a'')" by code_simp
  have run: "ssh_credential ''s'' (vs_db ?s) = Some ''a''" "vs_drawn ?s ''a'' = Some ''pw''"
    by (simp_all add: vault_run_def vault_start_def local_db_empty_def insert_connection_def begin_write_def
        a [simplified] reserve_write_def writer_in_def tried_def reserve_for_def reserve_ssh_credential_def
        set_phase_def put_write_def commit_write_def commit_for_def activate_ssh_credential_def
        ssh_credential_def update_rows_def Let_def)
  then show ?thesis using secrets_never_lost [of "\<lambda>_. None"] by (simp add: Let_def)
qed

end
