(* ===== verification/Transfer_Disk.thy ===== *)
theory Transfer_Disk
  imports Protocol_Wire Effects
begin

text \<open>
  The file system below \<open>transfer/src\<close>: the standard library's and rustix's calls the
  crate makes.  Names reach the disk in the order they were changed, at the latest when
  their directory is synced; of a file that was written to since its last sync, only what
  comes before the first change is sure.  Any call may fail, before or after it took
  effect, or be the last one of its process; and between two calls other programs may
  change other files.  A directory handle is the path it was opened by, a file handle its
  inode.
\<close>

section \<open>Disk\<close>

type_synonym path = "string list"

datatype node_kind = Node_File | Node_Directory | Node_Link | Node_Special

text \<open>Of a file that is not clean, the first \<open>nd_firm\<close> bytes are as they were at the last sync.\<close>

record inode =
  nd_kind :: node_kind
  nd_bytes :: string
  nd_clean :: bool
  nd_firm :: nat
  nd_modified :: nat
  nd_mode :: nat

text \<open>\<open>dk_past\<close> are the earlier names the disk may still hold; the root is inode 0.\<close>

record disk =
  dk_names :: "(path \<times> nat) list"
  dk_past :: "(path \<times> nat) list list"
  dk_inodes :: "nat \<Rightarrow> inode"
  dk_next :: nat
  dk_device :: nat

definition firm :: "inode \<Rightarrow> nat" where
  "firm n = (if nd_clean n then length (nd_bytes n) else min (nd_firm n) (length (nd_bytes n)))"

definition named :: "disk \<Rightarrow> path \<Rightarrow> nat option" where
  "named d p = (if p = [] then Some 0 else map_of (dk_names d) p)"

definition set_names :: "(path \<times> nat) list \<Rightarrow> disk \<Rightarrow> disk" where
  "set_names m d = d\<lparr> dk_names := m, dk_past := dk_names d # dk_past d \<rparr>"

text \<open>What is below a name goes with it.\<close>

definition without :: "path \<Rightarrow> (path \<times> nat) list \<Rightarrow> (path \<times> nat) list" where
  "without p m = filter (\<lambda>(q, _). \<not> prefix p q) m"

definition drop_name :: "path \<Rightarrow> disk \<Rightarrow> disk" where
  "drop_name p d = set_names (without p (dk_names d)) d"

definition set_name :: "path \<Rightarrow> nat \<Rightarrow> disk \<Rightarrow> disk" where
  "set_name p i d = set_names ((p, i) # without p (dk_names d)) d"

definition set_inode :: "nat \<Rightarrow> inode \<Rightarrow> disk \<Rightarrow> disk" where
  "set_inode i n d = d\<lparr> dk_inodes := (dk_inodes d)(i := n) \<rparr>"

definition new_inode :: "path \<Rightarrow> inode \<Rightarrow> disk \<Rightarrow> disk" where
  "new_inode p n d = (set_name p (dk_next d) (set_inode (dk_next d) n d))\<lparr> dk_next := dk_next d + 1 \<rparr>"

definition is_dir :: "disk \<Rightarrow> path \<Rightarrow> bool" where
  "is_dir d p = (case named d p of None \<Rightarrow> False | Some i \<Rightarrow> nd_kind (dk_inodes d i) = Node_Directory)"

definition empty_file :: inode where
  "empty_file = \<lparr> nd_kind = Node_File, nd_bytes = [], nd_clean = False, nd_firm = 0, nd_modified = 0, nd_mode = 384 \<rparr>"

definition empty_dir :: inode where
  "empty_dir = \<lparr> nd_kind = Node_Directory, nd_bytes = [], nd_clean = True, nd_firm = 0, nd_modified = 0, nd_mode = 511 \<rparr>"

section \<open>Other programs, power loss\<close>

datatype change = Put path inode | Edit path inode | Gone path

fun apply_change :: "change \<Rightarrow> disk \<Rightarrow> disk" where
  "apply_change (Put p n) d = new_inode p n d"
| "apply_change (Edit p n) d = (case named d p of None \<Rightarrow> d | Some i \<Rightarrow> set_inode i n d)"
| "apply_change (Gone p) d = drop_name p d"

text \<open>The names are some that the disk may hold; a file that is not clean keeps its firm bytes,
  and anything may follow.\<close>

definition settle :: "string \<Rightarrow> inode \<Rightarrow> inode" where
  "settle junk n = (if nd_clean n then n
     else n\<lparr> nd_bytes := take (firm n) (nd_bytes n) @ junk, nd_clean := True \<rparr>)"

definition images :: "disk \<Rightarrow> (path \<times> nat) list list" where
  "images d = dk_names d # dk_past d"

definition power_loss :: "nat \<Rightarrow> (nat \<Rightarrow> string) \<Rightarrow> disk \<Rightarrow> disk" where
  "power_loss k junk d =
    d\<lparr> dk_names := images d ! (k mod length (images d)), dk_past := [],
       dk_inodes := (\<lambda>i. settle (junk i) (dk_inodes d i)) \<rparr>"

text \<open>Two images that agree on the entries of a directory.\<close>

definition entry_of :: "path \<Rightarrow> path \<Rightarrow> bool" where
  "entry_of p q \<longleftrightarrow> q \<noteq> [] \<and> butlast q = p"

definition agree :: "path \<Rightarrow> (path \<times> nat) list \<Rightarrow> (path \<times> nat) list \<Rightarrow> bool" where
  "agree p m m' \<longleftrightarrow> list_all (\<lambda>(q, _). entry_of p q \<longrightarrow> map_of m q = map_of m' q) (m @ m')"

lemma agreeD:
  assumes "agree p m m'" "entry_of p q"
  shows "map_of m q = map_of m' q"
proof (cases "q \<in> fst ` set (m @ m')")
  case True
  then show ?thesis using assms by (auto simp: agree_def list_all_iff)
next
  case False
  then have "map_of m q = None" "map_of m' q = None" unfolding map_of_eq_None_iff by (simp_all add: image_Un)
  then show ?thesis by simp
qed

lemma map_of_without: "map_of (without p m) q = (if prefix p q then None else map_of m q)"
  unfolding without_def by (induction m) auto

section \<open>Calls\<close>

datatype errno = Not_Found | Already_Exists | Errno string

fun errno_text :: "errno \<Rightarrow> string" where
  "errno_text Not_Found = ''No such file or directory (os error 2)''"
| "errno_text Already_Exists = ''File exists (os error 17)''"
| "errno_text (Errno m) = m"

text \<open>A call gets the number of bytes after which a write stops short.\<close>

type_synonym 'a syscall = "nat option \<Rightarrow> disk \<Rightarrow> (errno + 'a) \<times> disk"

definition nothing :: "unit syscall" where
  "nothing lim d = (Inr (), d)"

definition missing_or :: "string \<Rightarrow> disk \<Rightarrow> path \<Rightarrow> errno" where
  "missing_or m d p = (case named d p of None \<Rightarrow> Not_Found | Some _ \<Rightarrow> Errno m)"

definition open_dir :: "path \<Rightarrow> unit syscall" where
  "open_dir p lim d = (if is_dir d p then Inr () else Inl (missing_or ''Not a directory (os error 20)'' d p), d)"

definition create_dir :: "path \<Rightarrow> unit syscall" where
  "create_dir p lim d =
    (if named d p \<noteq> None then (Inl Already_Exists, d)
     else if \<not> is_dir d (butlast p) then (Inl Not_Found, d)
     else (Inr (), new_inode p empty_dir d))"

definition open_file :: "path \<Rightarrow> bool \<Rightarrow> bool \<Rightarrow> bool \<Rightarrow> nat syscall" where
  "open_file p writable create trunc lim d =
    (case named d p of
       None \<Rightarrow>
         if create \<and> is_dir d (butlast p) then (Inr (dk_next d), new_inode p empty_file d)
         else (Inl Not_Found, d)
     | Some i \<Rightarrow>
         (case nd_kind (dk_inodes d i) of
            Node_Link \<Rightarrow> (Inl (Errno ''Too many levels of symbolic links (os error 40)''), d)
          | Node_Directory \<Rightarrow>
              if writable \<or> create then (Inl (Errno ''Is a directory (os error 21)''), d) else (Inr i, d)
          | Node_Special \<Rightarrow> (Inr i, d)
          | Node_File \<Rightarrow>
              (Inr i, if trunc then set_inode i ((dk_inodes d i)\<lparr> nd_bytes := [], nd_clean := False, nd_firm := 0 \<rparr>) d
                 else d)))"

definition fstat :: "nat \<Rightarrow> inode syscall" where
  "fstat i lim d = (Inr (dk_inodes d i), d)"

definition lstat :: "path \<Rightarrow> (nat \<times> inode) syscall" where
  "lstat p lim d = (case named d p of None \<Rightarrow> Inl Not_Found | Some i \<Rightarrow> Inr (i, dk_inodes d i), d)"

definition read_file :: "nat \<Rightarrow> string syscall" where
  "read_file i lim d = (Inr (nd_bytes (dk_inodes d i)), d)"

definition write_bytes :: "nat \<Rightarrow> string \<Rightarrow> string \<Rightarrow> string" where
  "write_bytes at bytes old =
    take at old @ replicate (at - length old) (CHR 0x00) @ bytes @ drop (at + length bytes) old"

definition write_file :: "nat \<Rightarrow> nat \<Rightarrow> string \<Rightarrow> unit syscall" where
  "write_file i at bytes lim d =
    (let n = dk_inodes d i;
         bytes = (case lim of None \<Rightarrow> bytes | Some k \<Rightarrow> take k bytes) in
     (Inr (), if bytes = [] then d
        else set_inode i (n\<lparr> nd_bytes := write_bytes at bytes (nd_bytes n), nd_clean := False,
          nd_firm := min (firm n) at \<rparr>) d))"

definition set_len :: "nat \<Rightarrow> nat \<Rightarrow> unit syscall" where
  "set_len i k lim d =
    (let n = dk_inodes d i in
     (Inr (), set_inode i (n\<lparr> nd_bytes := take k (nd_bytes n) @ replicate (k - length (nd_bytes n)) (CHR 0x00),
        nd_clean := False, nd_firm := min (firm n) k \<rparr>) d))"

definition sync_file :: "nat \<Rightarrow> unit syscall" where
  "sync_file i lim d = (Inr (), set_inode i ((dk_inodes d i)\<lparr> nd_clean := True \<rparr>) d)"

definition set_mode :: "nat \<Rightarrow> nat \<Rightarrow> unit syscall" where
  "set_mode i mode lim d = (Inr (), set_inode i ((dk_inodes d i)\<lparr> nd_mode := mode \<rparr>) d)"

definition set_dir_mode :: "path \<Rightarrow> nat \<Rightarrow> unit syscall" where
  "set_dir_mode p mode lim d =
    (case named d p of
       None \<Rightarrow> (Inl Not_Found, d)
     | Some i \<Rightarrow> (Inr (), set_inode i ((dk_inodes d i)\<lparr> nd_mode := mode \<rparr>) d))"

definition set_times :: "nat \<Rightarrow> nat \<Rightarrow> unit syscall" where
  "set_times i t lim d = (Inr (), set_inode i ((dk_inodes d i)\<lparr> nd_modified := t \<rparr>) d)"

definition sync_dir :: "path \<Rightarrow> unit syscall" where
  "sync_dir p lim d = (Inr (), d\<lparr> dk_past := filter (agree p (dk_names d)) (dk_past d) \<rparr>)"

definition rename :: "path \<Rightarrow> path \<Rightarrow> bool \<Rightarrow> unit syscall" where
  "rename p q replace lim d =
    (case named d p of
       None \<Rightarrow> (Inl Not_Found, d)
     | Some i \<Rightarrow>
         if named d q \<noteq> None \<and> \<not> replace then (Inl Already_Exists, d)
         else if named d q = Some i then (Inr (), d)
         else if is_dir d q then (Inl (Errno ''Is a directory (os error 21)''), d)
         else if \<not> is_dir d (butlast q) then (Inl Not_Found, d)
         else (Inr (), set_names ((q, i) # without q (without p (dk_names d))) d))"

definition remove_file :: "path \<Rightarrow> unit syscall" where
  "remove_file p lim d =
    (case named d p of
       None \<Rightarrow> (Inl Not_Found, d)
     | Some i \<Rightarrow>
         if nd_kind (dk_inodes d i) = Node_Directory then (Inl (Errno ''Is a directory (os error 21)''), d)
         else (Inr (), drop_name p d))"

definition remove_dir :: "path \<Rightarrow> unit syscall" where
  "remove_dir p lim d =
    (if \<not> is_dir d p then (Inl (missing_or ''Not a directory (os error 20)'' d p), d)
     else if list_ex (\<lambda>(q, _). entry_of p q) (dk_names d)
       then (Inl (Errno ''Directory not empty (os error 39)''), d)
     else (Inr (), drop_name p d))"

section \<open>Fates\<close>

text \<open>What happens at a call: the changes other programs make before it, and how it ends.  \<open>None\<close>
  is a call without effect, \<open>Some\<close> one that took effect, a write perhaps in part.\<close>

datatype ending = Works | Fails string "nat option option" | Dies "nat option option"

record fate =
  ft_changes :: "change list"
  ft_ending :: ending

record world =
  w_disk :: disk
  w_fates :: "fate list"
  w_stops :: "bool list"
  w_dead :: bool

definition dead_fault :: Fault where
  "dead_fault = Fault_new [] []"

definition effect :: "'a syscall \<Rightarrow> nat option option \<Rightarrow> disk \<Rightarrow> disk" where
  "effect c e d = (case e of None \<Rightarrow> d | Some lim \<Rightarrow> snd (c lim d))"

definition syscall :: "'a syscall \<Rightarrow> (world, errno + 'a) act" where
  "syscall c w =
    (if w_dead w then (Inl dead_fault, w)
     else
       case w_fates w of
         [] \<Rightarrow> (Inr (fst (c None (w_disk w))), w\<lparr> w_disk := snd (c None (w_disk w)) \<rparr>)
       | f # fs \<Rightarrow>
           let d = fold apply_change (ft_changes f) (w_disk w); w = w\<lparr> w_fates := fs \<rparr> in
           (case ft_ending f of
              Works \<Rightarrow> (Inr (fst (c None d)), w\<lparr> w_disk := snd (c None d) \<rparr>)
            | Fails m e \<Rightarrow> (Inr (Inl (Errno m)), w\<lparr> w_disk := effect c e d \<rparr>)
            | Dies e \<Rightarrow> (Inl dead_fault, w\<lparr> w_disk := effect c e d, w_dead := True \<rparr>)))"

text \<open>\<open>io(error)\<close>, and a fault the code looks at instead of returning it.\<close>

definition io_fault :: "errno \<Rightarrow> Fault" where
  "io_fault e = Fault_new ''TRANSFER_IO'' (errno_text e)"

definition io_call :: "'a syscall \<Rightarrow> (world, 'a) act" where
  "io_call c = bnd (syscall c) (\<lambda>r. case r of Inl e \<Rightarrow> err (io_fault e) | Inr x \<Rightarrow> ret x)"

definition catching :: "(world, 'a) act \<Rightarrow> (world, Fault + 'a) act" where
  "catching m w = (case m w of (r, w') \<Rightarrow> if w_dead w' then (Inl dead_fault, w') else (Inr r, w'))"

text \<open>\<open>check_cancelled\<close>: another thread may stop the endpoint at any time.\<close>

definition check_cancelled :: "(world, unit) act" where
  "check_cancelled w =
    (case w_stops w of
       True # _ \<Rightarrow> (Inl (Fault_new ''TRANSFER_CANCELLED'' ''Transfer paused.''), w)
     | False # bs \<Rightarrow> (Inr (), w\<lparr> w_stops := bs \<rparr>)
     | [] \<Rightarrow> (Inr (), w))"

end
