(* ===== verification/Transfer_Endpoint.thy ===== *)
theory Transfer_Endpoint
  imports Transfer_Disk
begin

text \<open>
  Models \<open>transfer/src/lib.rs\<close>, \<open>paths.rs\<close>, \<open>journal.rs\<close>, \<open>inspect.rs\<close> and \<open>staging.rs\<close>:
  the end of a file transfer that reads or writes files below one directory.  Every call of
  the operating system is a \<open>syscall\<close> of \<open>Transfer_Disk\<close>, in the order of the code.  A read
  of a whole file is one call.
\<close>

section \<open>Endpoint\<close>

record Journal =
  jn_owner :: string
  jn_path :: string
  jn_source :: Stamp
  jn_expected :: "Stamp option"
  jn_offset :: nat
  jn_digest :: "string option"
  jn_committed :: bool

text \<open>Parameters: \<open>uuid\<close> reads an identifier into its canonical form, \<open>sha\<close> is the SHA-256 text,
  \<open>enc\<close> and \<open>dec\<close> are serde's JSON of a journal.\<close>

record Endpoint =
  ep_owner :: string
  ep_uuid :: "string \<Rightarrow> string option"
  ep_sha :: "string \<Rightarrow> string"
  ep_enc :: "Journal \<Rightarrow> string"
  ep_dec :: "string \<Rightarrow> Journal option"

text \<open>An open staging directory; the lock is held while an operation runs.\<close>

record Stage =
  sg_parent :: path
  sg_name :: string
  sg_dir :: path
  sg_journal :: Journal

section \<open>Paths\<close>

definition path_fault :: "string \<Rightarrow> Fault" where
  "path_fault m = Fault_new ''TRANSFER_PATH'' m"

text \<open>\<open>Path::components\<close>: empty parts and inner dots vanish, a leading slash or dot does not.\<close>

definition path_components :: "string \<Rightarrow> Fault + string list" where
  "path_components p =
    (if CHR 0x00 \<in> set p \<or> length p > 4096 then Inl (path_fault ''Invalid transfer path.'')
     else
       let parts = split_on (CHR ''/'') p in
       if starts_with p ''/'' \<or> hd parts = ''.'' \<or> ''..'' \<in> set parts
         then Inl (path_fault ''Transfer path escapes the selected directory.'')
       else Inr (filter (\<lambda>c. c \<noteq> [] \<and> c \<noteq> ''.'') parts))"

fun open_each :: "path \<Rightarrow> string list \<Rightarrow> (world, path) act" where
  "open_each dir [] = ret dir"
| "open_each dir (name # names) = thn (io_call (open_dir (dir @ [name]))) (open_each (dir @ [name]) names)"

definition ep_directory :: "string \<Rightarrow> (world, path) act" where
  "ep_directory p = thn (io_call nothing) (bnd (lift_result (path_components p)) (open_each []))"

definition ep_parent :: "string \<Rightarrow> (world, path \<times> string) act" where
  "ep_parent p =
    bnd (lift_result (path_components p)) (\<lambda>parts.
      if parts = [] then err (path_fault ''A file name is required.'')
      else
        thn (io_call nothing)
          (bnd (open_each [] (butlast parts)) (\<lambda>dir. ret (dir, last parts))))"

definition open_regular :: "path \<Rightarrow> bool \<Rightarrow> bool \<Rightarrow> bool \<Rightarrow> (world, nat) act" where
  "open_regular p writable create trunc =
    bnd (io_call (open_file p writable create trunc)) (\<lambda>i.
    bnd (io_call (fstat i)) (\<lambda>n.
      if nd_kind n = Node_File then ret i
      else err (Fault_new ''TRANSFER_TYPE'' ''Only regular files can be transferred.'')))"

section \<open>Inspection\<close>

definition stamp_of :: "nat \<Rightarrow> nat \<times> inode \<Rightarrow> Stamp" where
  "stamp_of device m = (case m of (i, n) \<Rightarrow>
     \<lparr> sp_kind = (case nd_kind n of Node_File \<Rightarrow> Kind_File | Node_Directory \<Rightarrow> Kind_Directory | _ \<Rightarrow> Kind_Unsupported),
       sp_length = length (nd_bytes n), sp_modified_ns = min (nd_modified n) (2 ^ 64 - 1),
       sp_device = device, sp_inode = i, sp_mode = nd_mode n mod 512 \<rparr>)"

text \<open>The device comes with the metadata.\<close>

definition lstamp :: "path \<Rightarrow> Stamp syscall" where
  "lstamp p lim d = (map_sum id (stamp_of (dk_device d)) (fst (lstat p lim d)), d)"

definition ep_stat :: "string \<Rightarrow> (world, Stamp option) act" where
  "ep_stat p =
    bnd (if p = [] then thn (io_call nothing) (ret []) else bnd (ep_parent p) (\<lambda>(dir, name). ret (dir @ [name])))
      (\<lambda>q. bnd (syscall (lstamp q)) (\<lambda>r. case r of
         Inr m \<Rightarrow> ret (Some m)
       | Inl Not_Found \<Rightarrow> ret None
       | Inl e \<Rightarrow> err (io_fault e)))"

text \<open>The entries of a directory, in the order the enumeration gives them.\<close>

definition stage_prefix :: string where
  "stage_prefix = ''.remote-codex-transfer-''"

definition insert_bounded :: "string \<Rightarrow> string list \<Rightarrow> string list" where
  "insert_bounded name names =
    (let names = remdups_adj (insort name names) in if length names > 101 then butlast names else names)"

definition is_internal :: "Endpoint \<Rightarrow> path \<Rightarrow> string \<Rightarrow> (world, bool) act" where
  "is_internal E dir name =
    (case strip_prefix name stage_prefix of
       None \<Rightarrow> ret False
     | Some rest \<Rightarrow>
         if ep_uuid E rest = None then ret False
         else
           bnd (syscall (open_dir (dir @ [name]))) (\<lambda>r. case r of
             Inl _ \<Rightarrow> ret False
           | Inr _ \<Rightarrow>
               bnd (syscall (lstat (dir @ [name, ''state.json'']))) (\<lambda>m. case m of
                 Inl _ \<Rightarrow> ret False
               | Inr (i, n) \<Rightarrow> ret (nd_kind n = Node_File))))"

fun collect_names :: "Endpoint \<Rightarrow> path \<Rightarrow> string option \<Rightarrow> string list \<Rightarrow> string list \<Rightarrow> (world, string list) act" where
  "collect_names E dir after [] names = ret names"
| "collect_names E dir after (name # rest) names =
    thn check_cancelled
      (thn (io_call nothing)
        (bnd (is_internal E dir name) (\<lambda>internal.
          if internal \<or> (case after of None \<Rightarrow> False | Some a \<Rightarrow> name \<le> a)
            then collect_names E dir after rest names
          else collect_names E dir after rest (insert_bounded name names))))"

fun stamp_entries :: "path \<Rightarrow> string list \<Rightarrow> (world, Entry list) act" where
  "stamp_entries dir [] = ret []"
| "stamp_entries dir (name # names) =
    bnd (io_call (lstamp (dir @ [name]))) (\<lambda>m.
    bnd (stamp_entries dir names) (\<lambda>es. ret (\<lparr> en_name = name, en_stamp = m \<rparr> # es)))"

definition ep_list :: "Endpoint \<Rightarrow> (path \<Rightarrow> string list) \<Rightarrow> string \<Rightarrow> string option \<Rightarrow> (world, Page) act" where
  "ep_list E enumeration p after =
    bnd (ep_directory p) (\<lambda>dir.
    thn (io_call nothing)
    (bnd (collect_names E dir after (enumeration dir) []) (\<lambda>names.
      let more = length names > 100;
          names = (if more then butlast names else names);
          next_name = (if more then Some (last names) else None) in
      bnd (stamp_entries dir names) (\<lambda>es. ret \<lparr> pg_entries = es, pg_after = next_name \<rparr>))))"

definition ep_source :: "string \<Rightarrow> Stamp \<Rightarrow> (world, nat) act" where
  "ep_source p expected =
    bnd (ep_parent p) (\<lambda>(dir, name).
    bnd (open_regular (dir @ [name]) False False False) (\<lambda>i.
    bnd (io_call (\<lambda>lim d. (Inr (stamp_of (dk_device d) (i, dk_inodes d i)), d))) (\<lambda>m.
      if sp_length m \<noteq> sp_length expected \<or> sp_inode m \<noteq> sp_inode expected
          \<or> sp_device m \<noteq> sp_device expected \<or> sp_modified_ns m \<noteq> sp_modified_ns expected
        then err (Fault_new ''TRANSFER_SOURCE_CHANGED'' ''Source changed. Restart this file to transfer its new contents.'')
      else ret i)))"

definition ep_read :: "Endpoint \<Rightarrow> string \<Rightarrow> Stamp \<Rightarrow> nat \<Rightarrow> (world, Reply \<times> string) act" where
  "ep_read E p expected offset =
    (if offset > sp_length expected then err (Fault_new ''TRANSFER_OFFSET'' ''Invalid source offset.'')
     else
       bnd (ep_source p expected) (\<lambda>i.
       bnd (io_call (read_file i)) (\<lambda>content.
         let n = min CHUNK (sp_length expected - offset) in
         if length content < offset + n then err (io_fault (Errno ''failed to fill whole buffer''))
         else
           thn (ep_source p expected)
             (let bytes = take n (drop offset content) in ret (Reply_Data (ep_sha E bytes), bytes)))))"

definition hash_file :: "Endpoint \<Rightarrow> nat \<Rightarrow> (world, string) act" where
  "hash_file E i =
    thn (io_call nothing) (thn check_cancelled
      (bnd (io_call (read_file i)) (\<lambda>content. ret (ep_sha E content))))"

definition ep_hash :: "Endpoint \<Rightarrow> string \<Rightarrow> Stamp \<Rightarrow> (world, string) act" where
  "ep_hash E p expected =
    bnd (ep_source p expected) (\<lambda>i.
    bnd (hash_file E i) (\<lambda>digest. thn (ep_source p expected) (ret digest)))"

definition set_metadata :: "nat \<Rightarrow> Stamp \<Rightarrow> (world, unit) act" where
  "set_metadata i m =
    thn (io_call (set_mode i (sp_mode m mod 512)))
      (thn (io_call (set_times i (sp_modified_ns m))) (io_call (sync_file i)))"

definition ep_metadata :: "string \<Rightarrow> Stamp \<Rightarrow> (world, unit) act" where
  "ep_metadata p m =
    bnd (if sp_kind m = Kind_Directory
         then bnd (ep_directory p) (\<lambda>dir. bnd (io_call (lstat dir)) (\<lambda>(i, _). ret i))
         else bnd (ep_parent p) (\<lambda>(dir, name). open_regular (dir @ [name]) False False False))
      (\<lambda>i. set_metadata i m)"

section \<open>The journal\<close>

definition stage_name :: "Endpoint \<Rightarrow> string \<Rightarrow> Fault + string" where
  "stage_name E token =
    (case ep_uuid E token of
       None \<Rightarrow> Inl (Fault_new ''TRANSFER_TOKEN'' ''Invalid transfer token.'')
     | Some i \<Rightarrow> Inr (stage_prefix @ i))"

definition stage_save :: "Endpoint \<Rightarrow> Stage \<Rightarrow> (world, unit) act" where
  "stage_save E st =
    bnd (open_regular (sg_dir st @ [''next.json'']) True True True) (\<lambda>i.
    thn (io_call (write_file i 0 (ep_enc E (sg_journal st))))
    (thn (io_call (sync_file i))
    (thn (io_call (rename (sg_dir st @ [''next.json'']) (sg_dir st @ [''state.json'']) True))
    (thn (io_call nothing) (io_call (sync_dir (sg_dir st)))))))"

definition stage_data :: "Stage \<Rightarrow> (world, nat) act" where
  "stage_data st = open_regular (sg_dir st @ [''data'']) True False False"

definition transfer_missing :: "string \<Rightarrow> Fault" where
  "transfer_missing m = Fault_new ''TRANSFER_MISSING'' m"

definition stage_load :: "Endpoint \<Rightarrow> path \<Rightarrow> Journal option \<Rightarrow> (world, Journal \<times> bool) act" where
  "stage_load E dir initial =
    bnd (syscall (lstat (dir @ [''state.json'']))) (\<lambda>m.
      let missing = (m = Inl Not_Found); initialize = (missing \<and> initial \<noteq> None) in
      bnd (catching (open_regular (dir @ [''state.json'']) False False False)) (\<lambda>r. case r of
        Inr i \<Rightarrow>
          bnd (io_call (read_file i)) (\<lambda>content. case ep_dec E (take 16384 content) of
            None \<Rightarrow> err (io_fault (Errno ''invalid journal''))
          | Some j \<Rightarrow> ret (j, initialize))
      | Inl e \<Rightarrow>
          if initialize
            then (case initial of Some j \<Rightarrow> ret (j, True) | None \<Rightarrow> err (transfer_missing ''Transfer checkpoint is unavailable.''))
          else if missing then err (transfer_missing ''Transfer initialization was interrupted.'')
          else err e))"

definition stage_start :: "Endpoint \<Rightarrow> string \<Rightarrow> path \<Rightarrow> string \<Rightarrow> Journal \<times> bool \<Rightarrow> (world, Stage) act" where
  "stage_start E p parent name r =
    (case r of (j, initialize) \<Rightarrow>
      if jn_owner j \<noteq> ep_owner E \<or> jn_path j \<noteq> p
        then err (Fault_new ''TRANSFER_OWNER'' ''Transfer belongs to another destination or owner.'')
      else
        let st = \<lparr> sg_parent = parent, sg_name = name, sg_dir = parent @ [name], sg_journal = j \<rparr> in
        if initialize
          then
            bnd (open_regular (parent @ [name] @ [''data'']) True True True) (\<lambda>i.
            thn (io_call (sync_file i))
            (thn (stage_save E st)
            (thn (io_call nothing) (thn (io_call (sync_dir parent)) (ret st)))))
        else ret st)"

definition stage_locked :: "Endpoint \<Rightarrow> string \<Rightarrow> path \<Rightarrow> string \<Rightarrow> Journal option \<Rightarrow> (world, Stage) act" where
  "stage_locked E p parent name initial =
    bnd (syscall nothing) (\<lambda>locked.
      if locked \<noteq> Inr () then err (Fault_new ''TRANSFER_BUSY'' ''Another transfer owns this staging file.'')
      else bnd (stage_load E (parent @ [name]) initial) (stage_start E p parent name))"

definition stage_create :: "path \<Rightarrow> Journal option \<Rightarrow> (world, bool) act" where
  "stage_create dir initial =
    (if initial = None then ret False
     else bnd (syscall (create_dir dir)) (\<lambda>r. case r of
       Inr _ \<Rightarrow> ret True | Inl Already_Exists \<Rightarrow> ret False | Inl e \<Rightarrow> err (io_fault e)))"

definition ep_stage :: "Endpoint \<Rightarrow> string \<Rightarrow> string \<Rightarrow> Journal option \<Rightarrow> (world, Stage) act" where
  "ep_stage E p token initial =
    bnd (ep_parent p) (\<lambda>(parent, _).
    bnd (lift_result (stage_name E token)) (\<lambda>name.
    bnd (stage_create (parent @ [name]) initial) (\<lambda>created.
    thn (io_call (open_dir (parent @ [name])))
    (thn (if created then io_call (set_dir_mode (parent @ [name]) 448) else ret ())
    (thn (open_regular (parent @ [name] @ [''lock'']) True True False)
    (stage_locked E p parent name initial))))))"

section \<open>Staging\<close>

definition ep_reconcile :: "Endpoint \<Rightarrow> Stage \<Rightarrow> (world, Stage) act" where
  "ep_reconcile E st =
    (let j = sg_journal st in
     bnd (ep_stat (jn_path j)) (\<lambda>m. case m of
       None \<Rightarrow> err (Fault_new ''TRANSFER_CONFLICT'' ''Committed destination is missing.'')
     | Some m \<Rightarrow>
         bnd (if sp_kind m \<noteq> Kind_File \<or> sp_length m \<noteq> sp_length (jn_source j) then ret True
              else bnd (ep_hash E (jn_path j) m) (\<lambda>h. ret (Some h \<noteq> jn_digest j))) (\<lambda>changed.
           if changed then err (Fault_new ''TRANSFER_CONFLICT'' ''Destination changed after transfer commit.'')
           else
             let st = st\<lparr> sg_journal := j\<lparr> jn_committed := True \<rparr> \<rparr> in
             thn (stage_save E st) (ret st))))"

definition data_missing :: "Stage \<Rightarrow> (world, bool) act" where
  "data_missing st = bnd (syscall (lstat (sg_dir st @ [''data'']))) (\<lambda>r. ret (case r of Inl _ \<Rightarrow> True | Inr _ \<Rightarrow> False))"

definition prepare_reconcile :: "Endpoint \<Rightarrow> Stage \<Rightarrow> (world, Stage) act" where
  "prepare_reconcile E st =
    (if jn_digest (sg_journal st) = None then ret st
     else bnd (data_missing st) (\<lambda>gone. if gone then ep_reconcile E st else ret st))"

definition prepare_resume :: "string \<Rightarrow> Stamp option \<Rightarrow> Stage \<Rightarrow> (world, Reply) act" where
  "prepare_resume p expected st =
    (let j = sg_journal st in
     thn (if jn_committed j then ret ()
          else bnd (ep_stat p) (\<lambda>m.
            if m \<noteq> expected
              then err (Fault_new ''TRANSFER_CONFLICT'' ''Destination changed. Review the conflict before continuing.'')
            else ret ()))
     (thn (if jn_committed j then ret ()
          else
            bnd (open_regular (sg_dir st @ [''data'']) False False False) (\<lambda>i.
            bnd (io_call (fstat i)) (\<lambda>n.
              let size = length (nd_bytes n) in
              if size < jn_offset j
                then err (Fault_new ''TRANSFER_CHECKPOINT'' ''Staged file is shorter than its durable checkpoint.'')
              else if size > jn_offset j
                then bnd (stage_data st) (\<lambda>i. io_call (set_len i (jn_offset j)))
              else ret ())))
     (ret (Reply_Ready (jn_offset j) (jn_committed j)))))"

definition ep_prepare :: "Endpoint \<Rightarrow> string \<Rightarrow> string \<Rightarrow> Stamp \<Rightarrow> Stamp option \<Rightarrow> (world, Reply) act" where
  "ep_prepare E p token source expected =
    (if sp_kind source \<noteq> Kind_File then err (Fault_new ''TRANSFER_TYPE'' ''Only regular files can be staged.'')
     else
       bnd (ep_stage E p token (Some \<lparr> jn_owner = ep_owner E, jn_path = p, jn_source = source,
         jn_expected = expected, jn_offset = 0, jn_digest = None, jn_committed = False \<rparr>)) (\<lambda>st.
       if jn_source (sg_journal st) \<noteq> source \<or> jn_expected (sg_journal st) \<noteq> expected
         then err (Fault_new ''TRANSFER_SOURCE_CHANGED'' ''Transfer checkpoint describes a different source or destination.'')
       else bnd (prepare_reconcile E st) (prepare_resume p expected)))"

definition ep_write :: "Endpoint \<Rightarrow> string \<Rightarrow> string \<Rightarrow> nat \<Rightarrow> string \<Rightarrow> string \<Rightarrow> (world, Reply) act" where
  "ep_write E p token offset digest bytes =
    bnd (ep_stage E p token None) (\<lambda>st.
      let j = sg_journal st in
      if jn_committed j \<or> bytes = [] \<or> length bytes > CHUNK \<or> offset \<noteq> jn_offset j
          \<or> offset + length bytes \<ge> 2 ^ 64 \<or> offset + length bytes > sp_length (jn_source j) \<or> ep_sha E bytes \<noteq> digest
        then err (Fault_new ''TRANSFER_CHECKPOINT'' ''Invalid transfer block or checkpoint.'')
      else
        bnd (stage_data st) (\<lambda>i.
        thn (io_call nothing)
        (thn (io_call (write_file i offset bytes))
        (thn (io_call (sync_file i))
          (let st = st\<lparr> sg_journal := j\<lparr> jn_offset := jn_offset j + length bytes \<rparr> \<rparr> in
           thn (stage_save E st) (ret (Reply_Ready (jn_offset (sg_journal st)) False)))))))"

definition ep_publish :: "Endpoint \<Rightarrow> Stage \<Rightarrow> string \<Rightarrow> string \<Rightarrow> (world, Reply) act" where
  "ep_publish E st p digest =
    (let j = (sg_journal st)\<lparr> jn_digest := Some digest \<rparr>; st = st\<lparr> sg_journal := j \<rparr> in
     thn (stage_save E st)
     (bnd (ep_parent p) (\<lambda>(_, target).
      bnd (ep_stat p) (\<lambda>m.
        if m \<noteq> jn_expected j then err (Fault_new ''TRANSFER_CONFLICT'' ''Destination changed before commit.'')
        else
          thn (io_call (rename (sg_dir st @ [''data'']) (sg_parent st @ [target]) (jn_expected j \<noteq> None)))
          (thn (io_call nothing)
          (thn (io_call (sync_dir (sg_parent st)))
          (thn (stage_save E (st\<lparr> sg_journal := j\<lparr> jn_committed := True \<rparr> \<rparr>)) (ret Reply_Done))))))))"

definition ep_commit :: "Endpoint \<Rightarrow> string \<Rightarrow> string \<Rightarrow> string \<Rightarrow> (world, Reply) act" where
  "ep_commit E p token digest =
    bnd (ep_stage E p token None) (\<lambda>st.
    bnd (if jn_digest (sg_journal st) = None then ret False else data_missing st) (\<lambda>gone.
      let j = sg_journal st in
      if gone then thn (ep_reconcile E st) (ret Reply_Done)
      else
        bnd (if jn_offset j \<noteq> sp_length (jn_source j) then ret True
             else bnd (ep_stat p) (\<lambda>m. ret (m \<noteq> jn_expected j))) (\<lambda>conflict.
          if conflict then err (Fault_new ''TRANSFER_CONFLICT'' ''Incomplete transfer or destination changed.'')
          else
            bnd (open_regular (sg_dir st @ [''data'']) False False False) (\<lambda>i.
            bnd (hash_file E i) (\<lambda>h.
              if h \<noteq> digest then err (Fault_new ''TRANSFER_CHECKSUM'' ''File verification failed. Restart this file.'')
              else thn (set_metadata i (jn_source j)) (ep_publish E st p digest))))))"

fun remove_each :: "path \<Rightarrow> string list \<Rightarrow> (world, unit) act" where
  "remove_each dir [] = ret ()"
| "remove_each dir (name # names) =
    bnd (syscall (remove_file (dir @ [name]))) (\<lambda>r. case r of
      Inr _ \<Rightarrow> remove_each dir names
    | Inl Not_Found \<Rightarrow> remove_each dir names
    | Inl e \<Rightarrow> err (io_fault e))"

definition ep_cancel :: "Endpoint \<Rightarrow> string \<Rightarrow> string \<Rightarrow> (world, Reply) act" where
  "ep_cancel E p token =
    bnd (ep_parent p) (\<lambda>(parent, _).
    bnd (lift_result (stage_name E token)) (\<lambda>name.
    bnd (syscall (lstat (parent @ [name]))) (\<lambda>r.
      if r = Inl Not_Found then ret Reply_Done
      else
        bnd (ep_stage E p token None) (\<lambda>st.
        thn (remove_each (sg_dir st) [''data'', ''next.json'', ''state.json'', ''lock''])
        (thn (io_call (remove_dir (sg_parent st @ [sg_name st])))
        (thn (io_call (sync_dir (sg_parent st))) (ret Reply_Done)))))))"

section \<open>Requests\<close>

definition ep_create_directory :: "string \<Rightarrow> (world, Reply) act" where
  "ep_create_directory p =
    bnd (ep_parent p) (\<lambda>(dir, name).
    thn (io_call (create_dir (dir @ [name]))) (thn (io_call (sync_dir dir)) (ret Reply_Done)))"

definition ep_dispatch :: "Endpoint \<Rightarrow> (path \<Rightarrow> string list) \<Rightarrow> Command \<Rightarrow> string \<Rightarrow> (world, Reply \<times> string) act" where
  "ep_dispatch E enumeration command bytes =
    (let plain = (\<lambda>m. bnd m (\<lambda>r. ret (r, []))) in
     thn check_cancelled
      (if \<not> (case command of Cmd_Write _ _ _ _ \<Rightarrow> True | _ \<Rightarrow> False) \<and> bytes \<noteq> []
         then err (Fault_new ''TRANSFER_PACKET'' ''Unexpected transfer payload.'')
       else
         (case command of
            Cmd_Stat p \<Rightarrow> plain (bnd (ep_stat p) (\<lambda>m. ret (Reply_Stat m)))
          | Cmd_List p after \<Rightarrow> plain (bnd (ep_list E enumeration p after) (\<lambda>page. ret (Reply_List page)))
          | Cmd_Read p m offset \<Rightarrow> ep_read E p m offset
          | Cmd_Hash p m \<Rightarrow> plain (bnd (ep_hash E p m) (\<lambda>h. ret (Reply_Hash h)))
          | Cmd_Prepare p token source expected \<Rightarrow> plain (ep_prepare E p token source expected)
          | Cmd_Write p token offset digest \<Rightarrow> plain (ep_write E p token offset digest bytes)
          | Cmd_Commit p token digest \<Rightarrow> plain (ep_commit E p token digest)
          | Cmd_Cancel p token \<Rightarrow> plain (ep_cancel E p token)
          | Cmd_Directory p \<Rightarrow> plain (ep_create_directory p)
          | Cmd_Metadata p m \<Rightarrow> plain (thn (ep_metadata p m) (ret Reply_Done)))))"

end
