(* ===== verification/Transfer_Logic.thy ===== *)
theory Transfer_Logic
  imports Transfer_Endpoint
begin

text \<open>
  Reasoning about the calls of a transfer: a triple states what holds of the disk when an
  action returns a value, and what holds when it fails or its process dies, whatever the
  fates of the calls and the changes, among those of a set, other programs make.
\<close>

section \<open>Names\<close>

definition im :: "disk \<Rightarrow> (path \<Rightarrow> nat option) set" where
  "im d = map_of ` set (images d)"

abbreviation live :: "disk \<Rightarrow> path \<Rightarrow> nat option" where
  "live d \<equiv> map_of (dk_names d)"

lemma live_in [simp]: "live d \<in> im d"
  by (simp add: im_def images_def)

lemma im_set_names: "im (set_names m d) = insert (map_of m) (im d)"
  by (auto simp: im_def images_def set_names_def)

lemma set_names_fields [simp]:
  "dk_inodes (set_names m d) = dk_inodes d" "dk_next (set_names m d) = dk_next d" "dk_names (set_names m d) = m"
  "dk_device (set_names m d) = dk_device d"
  by (simp_all add: set_names_def)

lemma set_inode_fields [simp]:
  "dk_names (set_inode i n d) = dk_names d" "dk_inodes (set_inode i n d) = (dk_inodes d)(i := n)"
  "dk_next (set_inode i n d) = dk_next d" "im (set_inode i n d) = im d" "dk_device (set_inode i n d) = dk_device d"
  by (simp_all add: set_inode_def im_def images_def)

lemma named_live [simp]: "p \<noteq> [] \<Longrightarrow> named d p = live d p"
  by (simp add: named_def)

lemma new_inode_fields [simp]:
  "dk_inodes (new_inode p n d) = (dk_inodes d)(dk_next d := n)" "dk_next (new_inode p n d) = dk_next d + 1"
  "im (new_inode p n d) = insert (live (new_inode p n d)) (im d)"
  "live (new_inode p n d) q = (if q = p then Some (dk_next d) else if prefix p q then None else live d q)"
  by (auto simp: new_inode_def set_name_def map_of_without im_def images_def set_names_def set_inode_def)

lemma drop_name_fields [simp]:
  "dk_inodes (drop_name p d) = dk_inodes d" "dk_next (drop_name p d) = dk_next d"
  "im (drop_name p d) = insert (live (drop_name p d)) (im d)"
  "live (drop_name p d) q = (if prefix p q then None else live d q)"
  by (simp_all add: drop_name_def map_of_without im_set_names)

lemma sync_dir_fields [simp]:
  "dk_inodes (snd (sync_dir p lim d)) = dk_inodes d" "dk_next (snd (sync_dir p lim d)) = dk_next d"
  "dk_names (snd (sync_dir p lim d)) = dk_names d"
  by (simp_all add: sync_dir_def)

lemma im_sync_dir:
  "im (snd (sync_dir p lim d)) \<subseteq> im d"
  "m \<in> im (snd (sync_dir p lim d)) \<Longrightarrow> entry_of p q \<Longrightarrow> m q = live d q"
  by (auto simp: im_def images_def sync_dir_def) (metis agreeD)

lemma power_loss_fields:
  obtains names where "map_of names \<in> im d" "dk_names (power_loss k junk d) = names"
    "im (power_loss k junk d) = {map_of names}"
    "dk_inodes (power_loss k junk d) = (\<lambda>i. settle (junk i) (dk_inodes d i))"
    "dk_next (power_loss k junk d) = dk_next d"
proof (rule that)
  have "k mod length (images d) < length (images d)" by (simp add: images_def)
  then show "map_of (images d ! (k mod length (images d))) \<in> im d" by (auto simp: im_def)
qed (simp_all add: power_loss_def im_def images_def)

section \<open>Triples\<close>

definition allowed :: "path \<Rightarrow> change \<Rightarrow> bool" where
  "allowed S c = (let p = (case c of Put p _ \<Rightarrow> p | Edit p _ \<Rightarrow> p | Gone p \<Rightarrow> p) in
     p \<noteq> [] \<and> \<not> prefix p S \<and> \<not> prefix S p)"

definition fates_ok :: "(change \<Rightarrow> bool) \<Rightarrow> world \<Rightarrow> bool" where
  "fates_ok A w \<longleftrightarrow> (\<forall>f\<in>set (w_fates w). \<forall>c\<in>set (ft_changes f). A c)"

definition stable :: "(change \<Rightarrow> bool) \<Rightarrow> (disk \<Rightarrow> bool) \<Rightarrow> bool" where
  "stable A P \<longleftrightarrow> (\<forall>d c. P d \<longrightarrow> A c \<longrightarrow> P (apply_change c d))"

definition triple ::
  "(change \<Rightarrow> bool) \<Rightarrow> (disk \<Rightarrow> bool) \<Rightarrow> (world, 'a) act \<Rightarrow> ('a \<Rightarrow> disk \<Rightarrow> bool) \<Rightarrow> (disk \<Rightarrow> bool) \<Rightarrow> bool" where
  "triple A P m Q I \<longleftrightarrow> (\<forall>w. P (w_disk w) \<longrightarrow> fates_ok A w \<longrightarrow> fates_ok A (snd (m w))
     \<and> (case fst (m w) of Inr x \<Rightarrow> Q x (w_disk (snd (m w))) | Inl _ \<Rightarrow> I (w_disk (snd (m w)))))"

lemma triple_conseq:
  assumes "triple A P' m Q' I'" "\<And>d. P d \<Longrightarrow> P' d" "\<And>x d. Q' x d \<Longrightarrow> Q x d" "\<And>d. I' d \<Longrightarrow> I d"
  shows "triple A P m Q I"
  using assms unfolding triple_def by (fastforce split: sum.splits)

lemma triple_ret: "(\<And>d. P d \<Longrightarrow> Q x d) \<Longrightarrow> triple A P (ret x) Q I"
  by (simp add: triple_def)

lemma triple_err: "(\<And>d. P d \<Longrightarrow> I d) \<Longrightarrow> triple A P (err f) Q I"
  by (simp add: triple_def)

lemma triple_bnd:
  assumes m: "triple A P m R I" and k: "\<And>x. triple A (R x) (k x) Q I"
  shows "triple A P (bnd m k) Q I"
  unfolding triple_def
proof (intro allI impI)
  fix w assume "P (w_disk w)" "fates_ok A w"
  with m have one: "fates_ok A (snd (m w))"
    "case fst (m w) of Inr x \<Rightarrow> R x (w_disk (snd (m w))) | Inl _ \<Rightarrow> I (w_disk (snd (m w)))"
    unfolding triple_def by blast+
  show "fates_ok A (snd (bnd m k w)) \<and> (case fst (bnd m k w) of Inr x \<Rightarrow> Q x (w_disk (snd (bnd m k w)))
      | Inl _ \<Rightarrow> I (w_disk (snd (bnd m k w))))"
  proof (cases "m w")
    case (Pair r w')
    show ?thesis
    proof (cases r)
      case (Inl f)
      then show ?thesis using one by (simp add: bnd_def Pair)
    next
      case (Inr x)
      then have "R x (w_disk w')" "fates_ok A w'" using one by (simp_all add: Pair)
      moreover have e: "bnd m k w = k x w'" by (simp add: bnd_def Pair Inr)
      ultimately show ?thesis using k [of x] unfolding triple_def e by blast
    qed
  qed
qed

lemma triple_thn: "triple A P m (\<lambda>_. R) I \<Longrightarrow> triple A R k Q I \<Longrightarrow> triple A P (thn m k) Q I"
  unfolding thn_def by (rule triple_bnd)

lemma triple_if: "(b \<Longrightarrow> triple A P m Q I) \<Longrightarrow> (\<not> b \<Longrightarrow> triple A P k Q I) \<Longrightarrow> triple A P (if b then m else k) Q I"
  by simp

lemma triple_lift: "(\<And>x d. r = Inr x \<Longrightarrow> P d \<Longrightarrow> Q x d) \<Longrightarrow> (\<And>d. P d \<Longrightarrow> I d) \<Longrightarrow> triple A P (lift_result r) Q I"
  by (cases r) (simp_all add: lift_result_def triple_ret triple_err)

lemma triple_check: "(\<And>d. P d \<Longrightarrow> I d) \<Longrightarrow> triple A P check_cancelled (\<lambda>_. P) I"
  by (auto simp: triple_def check_cancelled_def fates_ok_def split: list.splits bool.splits)

lemma triple_catching:
  assumes "triple A P m Q I" "\<And>x d. Q x d \<Longrightarrow> I d"
  shows "triple A P (catching m) (\<lambda>r. case r of Inr x \<Rightarrow> Q x | Inl _ \<Rightarrow> I) I"
  using assms unfolding triple_def catching_def
  by (fastforce split: prod.splits sum.splits)

lemma stable_changes:
  assumes "stable A P" "P d" "\<forall>c\<in>set cs. A c"
  shows "P (fold apply_change cs d)"
  using assms(2,3)
proof (induction cs arbitrary: d)
  case (Cons c cs)
  then have "P (apply_change c d)" using assms(1) by (simp add: stable_def)
  then show ?case using Cons by simp
qed simp

lemma triple_syscall:
  assumes st: "stable A P"
    and ok: "\<And>d. P d \<Longrightarrow> Q (fst (c None d)) (snd (c None d))"
    and fails: "\<And>d m. P d \<Longrightarrow> Q (Inl (Errno m)) d" "\<And>d m lim. P d \<Longrightarrow> Q (Inl (Errno m)) (snd (c lim d))"
    and dies: "\<And>d. P d \<Longrightarrow> I d" "\<And>d lim. P d \<Longrightarrow> I (snd (c lim d))"
  shows "triple A P (syscall c) Q I"
  unfolding triple_def
proof (intro allI impI)
  fix w assume w: "P (w_disk w)" "fates_ok A w"
  show "fates_ok A (snd (syscall c w)) \<and> (case fst (syscall c w) of Inr x \<Rightarrow> Q x (w_disk (snd (syscall c w)))
      | Inl _ \<Rightarrow> I (w_disk (snd (syscall c w))))"
  proof (cases "w_fates w")
    case Nil
    then show ?thesis using w ok dies by (simp add: syscall_def fates_ok_def)
  next
    case (Cons f fs)
    let ?d = "fold apply_change (ft_changes f) (w_disk w)"
    have d: "P ?d" using stable_changes [OF st w(1)] w(2) by (simp add: fates_ok_def Cons)
    show ?thesis using w d ok [OF d] fails [OF d] dies
      by (auto simp: syscall_def Cons fates_ok_def Let_def effect_def split: ending.split option.split)
  qed
qed

lemma triple_call:
  assumes st: "stable A P"
    and ok: "\<And>d x. P d \<Longrightarrow> fst (c None d) = Inr x \<Longrightarrow> Q x (snd (c None d))"
    and I: "\<And>d. P d \<Longrightarrow> I d" "\<And>d lim. P d \<Longrightarrow> I (snd (c lim d))"
  shows "triple A P (io_call c) Q I"
  unfolding io_call_def
proof (rule triple_bnd)
  show "triple A P (syscall c) (\<lambda>r d. case r of Inl _ \<Rightarrow> I d | Inr x \<Rightarrow> Q x d) I"
    using ok I by (intro triple_syscall [OF st]) (auto split: sum.split)
  show "triple A (\<lambda>d. case r of Inl _ \<Rightarrow> I d | Inr x \<Rightarrow> Q x d)
      (case r of Inl e \<Rightarrow> err (io_fault e) | Inr x \<Rightarrow> ret x) Q I" for r
    by (cases r) (simp_all add: triple_ret triple_err)
qed

section \<open>Actions that leave the disk alone\<close>

definition calm :: "'a syscall \<Rightarrow> bool" where
  "calm c \<longleftrightarrow> (\<forall>lim d. snd (c lim d) = d)"

definition quiet :: "(world, 'a) act \<Rightarrow> bool" where
  "quiet m \<longleftrightarrow> (\<forall>A P. stable A P \<longrightarrow> triple A P m (\<lambda>_. P) P)"

named_theorems quiet_rules "an action leaves the disk alone"

lemma calm_calls [simp]:
  "calm nothing" "calm (open_dir p)" "calm (fstat i)" "calm (lstat p)" "calm (read_file i)" "calm (lstamp p)"
  "calm (\<lambda>lim d. (f d, d))"
  by (simp_all add: calm_def nothing_def open_dir_def fstat_def lstat_def read_file_def lstamp_def)

lemma calm_open: "calm (open_file p writable False False)"
  by (simp add: calm_def open_file_def split: option.split node_kind.split)

lemma triple_calm_syscall:
  "stable A P \<Longrightarrow> calm c \<Longrightarrow> triple A P (syscall c) (\<lambda>r d. P d \<and> (\<forall>e. r = fst (c None d) \<or> (\<exists>m. r = Inl (Errno m)))) P"
  by (rule triple_syscall) (auto simp: calm_def)

lemma triple_calm_call:
  "stable A P \<Longrightarrow> calm c \<Longrightarrow> triple A P (io_call c) (\<lambda>x d. P d \<and> fst (c None d) = Inr x) P"
  by (rule triple_call) (auto simp: calm_def)

lemma quiet_stable: "quiet m \<Longrightarrow> stable A P \<Longrightarrow> triple A P m (\<lambda>_. P) P"
  by (simp add: quiet_def)

lemma quiet_ret [quiet_rules]: "quiet (ret x)"
  by (simp add: quiet_def triple_ret)

lemma quiet_err [quiet_rules]: "quiet (err f)"
  by (simp add: quiet_def triple_err)

lemma quiet_bnd [quiet_rules]: "quiet m \<Longrightarrow> (\<And>x. quiet (k x)) \<Longrightarrow> quiet (bnd m k)"
  unfolding quiet_def by (blast intro: triple_bnd)

lemma quiet_thn [quiet_rules]: "quiet m \<Longrightarrow> quiet k \<Longrightarrow> quiet (thn m k)"
  unfolding thn_def by (rule quiet_bnd)

lemma quiet_lift [quiet_rules]: "quiet (lift_result r)"
  by (simp add: quiet_def triple_lift)

lemma quiet_check [quiet_rules]: "quiet check_cancelled"
  by (simp add: quiet_def triple_check)

lemma quiet_syscall [quiet_rules]: "calm c \<Longrightarrow> quiet (syscall c)"
  unfolding quiet_def by (auto intro: triple_conseq [OF triple_calm_syscall])

lemma quiet_call [quiet_rules]: "calm c \<Longrightarrow> quiet (io_call c)"
  unfolding quiet_def by (auto intro: triple_conseq [OF triple_calm_call])

lemma quiet_if [quiet_rules]: "(b \<Longrightarrow> quiet m) \<Longrightarrow> (\<not> b \<Longrightarrow> quiet k) \<Longrightarrow> quiet (if b then m else k)"
  by simp

lemma quiet_option [quiet_rules]: "quiet m \<Longrightarrow> (\<And>x. quiet (k x)) \<Longrightarrow> quiet (case r of None \<Rightarrow> m | Some x \<Rightarrow> k x)"
  by (cases r) simp_all

lemma quiet_sum [quiet_rules]: "(\<And>e. quiet (m e)) \<Longrightarrow> (\<And>x. quiet (k x)) \<Longrightarrow> quiet (case r of Inl e \<Rightarrow> m e | Inr x \<Rightarrow> k x)"
  by (cases r) simp_all

lemma quiet_prod [quiet_rules]: "(\<And>x y. quiet (m x y)) \<Longrightarrow> quiet (case r of (x, y) \<Rightarrow> m x y)"
  by (cases r) simp

lemma quiet_let [quiet_rules]: "quiet (m x) \<Longrightarrow> quiet (let y = x in m y)"
  by (simp add: Let_def)

lemma quiet_errno [quiet_rules]:
  "quiet a \<Longrightarrow> quiet b \<Longrightarrow> (\<And>x. quiet (c x)) \<Longrightarrow> quiet (case e of Not_Found \<Rightarrow> a | Already_Exists \<Rightarrow> b | Errno x \<Rightarrow> c x)"
  by (cases e) simp_all

lemma quiet_open_each [quiet_rules]: "quiet (open_each dir names)"
  by (induction names arbitrary: dir) (auto intro!: quiet_rules)

lemma quiet_parent [quiet_rules]: "quiet (ep_parent p)" "quiet (ep_directory p)"
  unfolding ep_parent_def ep_directory_def by (auto intro!: quiet_rules)

lemma quiet_regular [quiet_rules]: "quiet (open_regular p writable False False)"
  unfolding open_regular_def by (auto intro!: quiet_rules simp: calm_open)

lemma quiet_stat [quiet_rules]: "quiet (ep_stat p)"
  unfolding ep_stat_def by (auto intro!: quiet_rules split: sum.split)

lemma quiet_source [quiet_rules]: "quiet (ep_source p m)"
  unfolding ep_source_def Let_def by (auto intro!: quiet_rules)

lemma quiet_hash [quiet_rules]: "quiet (hash_file E i)" "quiet (ep_hash E p m)"
  unfolding hash_file_def ep_hash_def by (auto intro!: quiet_rules)

lemma quiet_missing [quiet_rules]: "quiet (data_missing st)"
  unfolding data_missing_def by (auto intro!: quiet_rules)

lemma quiet_read [quiet_rules]: "quiet (ep_read E p m offset)"
  unfolding ep_read_def Let_def by (auto intro!: quiet_rules)

lemma quiet_internal [quiet_rules]: "quiet (is_internal E dir name)"
  unfolding is_internal_def by (auto intro!: quiet_rules)

lemma quiet_names [quiet_rules]: "quiet (collect_names E dir after rest names)"
  by (induction rest arbitrary: names) (auto intro!: quiet_rules)

lemma quiet_entries [quiet_rules]: "quiet (stamp_entries dir names)"
  by (induction names) (auto intro!: quiet_rules simp del: ret_simp simp: fun_eq_iff)

lemma quiet_list [quiet_rules]: "quiet (ep_list E enumeration p after)"
  unfolding ep_list_def Let_def by (auto intro!: quiet_rules)

section \<open>Quiet first steps\<close>

lemma triple_quiet_bnd:
  assumes "quiet m" "stable A P" "\<And>d. P d \<Longrightarrow> I d" "\<And>x. triple A P (k x) Q I"
  shows "triple A P (bnd m k) Q I"
proof (rule triple_bnd)
  show "triple A P m (\<lambda>_. P) I"
    by (rule triple_conseq [OF quiet_stable [OF assms(1,2)]]) (auto intro: assms(3))
qed (rule assms(4))

lemma triple_quiet_thn:
  "quiet m \<Longrightarrow> stable A P \<Longrightarrow> (\<And>d. P d \<Longrightarrow> I d) \<Longrightarrow> triple A P k Q I \<Longrightarrow> triple A P (thn m k) Q I"
  unfolding thn_def by (rule triple_quiet_bnd)

lemma triple_result: "triple A P (k v) Q I \<Longrightarrow> triple A (\<lambda>d. P d \<and> r = v) (k r) Q I"
  by (cases "r = v") (simp_all add: triple_def)

lemma triple_open_each:
  "stable A P \<Longrightarrow> triple A P (open_each dir names) (\<lambda>r d. P d \<and> r = dir @ names) P"
proof (induction names arbitrary: dir)
  case (Cons name names)
  have "triple A P (open_each (dir @ [name]) names) (\<lambda>r d. P d \<and> r = dir @ name # names) P"
    using Cons.IH [OF Cons.prems, of "dir @ [name]"] by simp
  then show ?case unfolding open_each.simps
    by (intro triple_quiet_thn [OF _ Cons.prems]) (auto intro!: quiet_rules)
qed (simp add: triple_ret del: ret_simp)

lemma triple_parent:
  assumes parts: "path_components p = Inr parts" "parts \<noteq> []" and st: "stable A P" and I: "\<And>d. P d \<Longrightarrow> I d"
  shows "triple A P (ep_parent p) (\<lambda>r d. P d \<and> r = (butlast parts, last parts)) I"
proof -
  have each: "triple A P (open_each [] (butlast parts)) (\<lambda>r d. P d \<and> r = butlast parts) P"
    using triple_open_each [OF st, of "[]" "butlast parts"] by simp
  have "triple A P (thn (io_call nothing) (bnd (open_each [] (butlast parts)) (\<lambda>dir. ret (dir, last parts))))
      (\<lambda>r d. P d \<and> r = (butlast parts, last parts)) P"
    by (rule triple_quiet_thn [OF _ st _ triple_bnd [OF each]]) (auto intro!: quiet_rules triple_ret simp del: ret_simp)
  moreover have "ep_parent p = thn (io_call nothing) (bnd (open_each [] (butlast parts)) (\<lambda>dir. ret (dir, last parts)))"
    using parts by (simp add: ep_parent_def lift_result_def)
  ultimately show ?thesis by (auto intro: triple_conseq I)
qed

lemma triple_both:
  assumes "triple A P m Q I" "triple A P' m Q' I'"
  shows "triple A (\<lambda>d. P d \<and> P' d) m (\<lambda>x d. Q x d \<and> Q' x d) (\<lambda>d. I d \<and> I' d)"
  using assms unfolding triple_def by (fastforce split: sum.splits)

text \<open>An open without creation or truncation.\<close>

lemma triple_open_plain:
  assumes st: "stable A P" and name: "\<And>i. stable A (\<lambda>d. P d \<and> live d q = Some i)" and q: "q \<noteq> []"
  shows "triple A P (open_regular q writable False False) (\<lambda>i d. P d \<and> live d q = Some i) P"
  unfolding open_regular_def
proof (rule triple_bnd)
  show "triple A P (io_call (open_file q writable False False)) (\<lambda>i d. P d \<and> live d q = Some i) P"
    using calm_open [of q writable] q
    by (intro triple_call st) (auto simp: calm_def open_file_def split: option.splits node_kind.splits if_splits)
  show "triple A (\<lambda>d. P d \<and> live d q = Some i) (bnd (io_call (fstat i)) (\<lambda>f. if nd_kind f = Node_File then ret i
      else err (Fault_new ''TRANSFER_TYPE'' ''Only regular files can be transferred.''))) (\<lambda>i d. P d \<and> live d q = Some i) P" for i
    by (rule triple_quiet_bnd [OF _ name])
      (auto intro!: quiet_rules triple_if triple_ret triple_err simp del: ret_simp err_simp)
qed

end
