(* ===== verification/Transfer_Safety.thy ===== *)
theory Transfer_Safety
  imports Transfer_Logic
begin

text \<open>
  The staging directory through failures, dead processes and power losses: what was
  acknowledged stays.
\<close>

section \<open>The invariant of a staging directory\<close>

abbreviation state_of :: "path \<Rightarrow> path" where "state_of S \<equiv> S @ [''state.json'']"
abbreviation data_of :: "path \<Rightarrow> path" where "data_of S \<equiv> S @ [''data'']"
abbreviation next_of :: "path \<Rightarrow> path" where "next_of S \<equiv> S @ [''next.json'']"

definition journal :: "Endpoint \<Rightarrow> (nat \<Rightarrow> inode) \<Rightarrow> nat \<Rightarrow> Journal option" where
  "journal E nodes i =
    (if nd_kind (nodes i) = Node_File \<and> nd_clean (nodes i) then ep_dec E (take 16384 (nd_bytes (nodes i))) else None)"

text \<open>Other programs stay out of the directory, and where a destination is given they leave it alone too.\<close>

definition spares :: "path \<Rightarrow> path option \<Rightarrow> change \<Rightarrow> bool" where
  "spares S W c \<longleftrightarrow> allowed S c \<and> (case W of None \<Rightarrow> True | Some T \<Rightarrow> allowed T c)"

text \<open>The first \<open>n\<close> bytes of a file are those of the source, whatever happens to the power.\<close>

definition holds_prefix :: "string \<Rightarrow> nat \<Rightarrow> inode \<Rightarrow> bool" where
  "holds_prefix B n f \<longleftrightarrow> nd_kind f = Node_File \<and> n \<le> firm f \<and> take n (nd_bytes f) = take n B"

definition undigested :: "Endpoint \<Rightarrow> path \<Rightarrow> (nat \<Rightarrow> inode) \<Rightarrow> (path \<Rightarrow> nat option) \<Rightarrow> bool" where
  "undigested E S nodes m \<longleftrightarrow> (\<forall>i j. m (state_of S) = Some i \<longrightarrow> journal E nodes i = Some j \<longrightarrow> jn_digest j = None)"

text \<open>The file that has the acknowledged bytes: the staged data, and once the journal has a digest the data or else
  the destination, where one is given.\<close>

definition kept_at :: "path \<Rightarrow> path option \<Rightarrow> bool \<Rightarrow> (path \<Rightarrow> nat option) \<Rightarrow> nat option" where
  "kept_at S W digested m =
    (if digested then (case W of None \<Rightarrow> None | Some T \<Rightarrow> (case m (data_of S) of None \<Rightarrow> m T | Some k \<Rightarrow> Some k))
     else m (data_of S))"

definition held :: "Endpoint \<Rightarrow> path \<Rightarrow> path option \<Rightarrow> (nat \<Rightarrow> inode) \<Rightarrow> (path \<Rightarrow> nat option) \<Rightarrow> nat option" where
  "held E S W nodes m = kept_at S W (\<not> undigested E S nodes m) m"

definition keeps_bytes :: "path option \<Rightarrow> string \<Rightarrow> (nat \<Rightarrow> inode) \<Rightarrow> Journal \<Rightarrow> nat option \<Rightarrow> bool" where
  "keeps_bytes W B nodes j file \<longleftrightarrow> (jn_digest j = None \<or> W \<noteq> None \<longrightarrow>
     (\<exists>k. file = Some k \<and> holds_prefix B (jn_offset j) (nodes k)))"

definition image_ok :: "Endpoint \<Rightarrow> path \<Rightarrow> (Journal \<Rightarrow> bool) \<Rightarrow> path option \<Rightarrow> string \<Rightarrow> nat \<Rightarrow> (nat \<Rightarrow> inode) \<Rightarrow> (path \<Rightarrow> nat option) \<Rightarrow> bool" where
  "image_ok E S F W B n nodes m \<longleftrightarrow> (m (state_of S) \<noteq> None \<longrightarrow> m S \<noteq> None) \<and> (0 < n \<longrightarrow> m (state_of S) \<noteq> None)
    \<and> (\<forall>i. m (state_of S) = Some i \<longrightarrow> (\<exists>j. journal E nodes i = Some j \<and> F j \<and> n \<le> jn_offset j
      \<and> keeps_bytes W B nodes j (held E S W nodes m)))"

definition behind :: "Endpoint \<Rightarrow> path \<Rightarrow> (nat \<Rightarrow> inode) \<Rightarrow> (path \<Rightarrow> nat option) \<Rightarrow> (path \<Rightarrow> nat option) \<Rightarrow> bool" where
  "behind E S nodes m m' \<longleftrightarrow> (\<forall>i j. m (state_of S) = Some i \<longrightarrow> journal E nodes i = Some j \<longrightarrow>
    (\<exists>i' j'. m' (state_of S) = Some i' \<and> journal E nodes i' = Some j' \<and> jn_offset j \<le> jn_offset j'
      \<and> (jn_digest j = None \<or> jn_digest j' \<noteq> None)))"

text \<open>Files of the directory are not shared with each other, nor with names outside it; the file with the
  acknowledged bytes gets the name of the destination when it is published.\<close>

definition apart :: "Endpoint \<Rightarrow> path \<Rightarrow> path option \<Rightarrow> (nat \<Rightarrow> inode) \<Rightarrow> (path \<Rightarrow> nat option) \<Rightarrow> (path \<Rightarrow> nat option) \<Rightarrow> bool" where
  "apart E S W nodes m m' \<longleftrightarrow> (\<forall>k. m' (data_of S) = Some k \<longrightarrow> m (state_of S) \<noteq> Some k \<and> m (next_of S) \<noteq> Some k)
    \<and> (\<forall>p i. \<not> prefix S p \<longrightarrow> m p = Some i \<longrightarrow> m' (state_of S) \<noteq> Some i \<and> m' (next_of S) \<noteq> Some i
      \<and> (held E S W nodes m' = Some i \<longrightarrow> \<not> undigested E S nodes m' \<and> W = Some p))"

definition in_use :: "disk \<Rightarrow> bool" where
  "in_use d \<longleftrightarrow> (\<forall>m\<in>im d. \<forall>p i. m p = Some i \<longrightarrow> i < dk_next d)"

definition beside :: "path \<Rightarrow> path option \<Rightarrow> bool" where
  "beside S W \<longleftrightarrow> (\<forall>T. W = Some T \<longrightarrow> T \<noteq> [] \<and> \<not> prefix S T \<and> \<not> prefix T S)"

definition staged :: "Endpoint \<Rightarrow> path \<Rightarrow> (Journal \<Rightarrow> bool) \<Rightarrow> path option \<Rightarrow> string \<Rightarrow> nat \<Rightarrow> disk \<Rightarrow> bool" where
  "staged E S F W B n d \<longleftrightarrow> beside S W \<and> in_use d \<and> (\<forall>m\<in>im d. image_ok E S F W B n (dk_inodes d) m
    \<and> behind E S (dk_inodes d) m (live d) \<and> (\<forall>m'\<in>im d. apart E S W (dk_inodes d) m m')
    \<and> (\<forall>i. live d (next_of S) = Some i \<or> m (next_of S) = Some i \<longrightarrow> m (state_of S) \<noteq> Some i))"

section \<open>Elementary changes\<close>

lemma journal_cong:
  fixes nodes nodes' :: "nat \<Rightarrow> inode"
  assumes "nodes' i = nodes i"
  shows "journal E nodes' i = journal E nodes i"
  using assms
  by (simp add: journal_def)

lemma undigested_cong:
  assumes "\<And>i. m (state_of S) = Some i \<Longrightarrow> nodes' i = nodes i"
  shows "undigested E S nodes' m = undigested E S nodes m"
  using assms by (simp add: undigested_def journal_def cong: conj_cong imp_cong)

lemma held_cong:
  assumes "\<And>i. m (state_of S) = Some i \<Longrightarrow> nodes' i = nodes i"
  shows "held E S W nodes' m = held E S W nodes m"
  using undigested_cong [of m S nodes' nodes E] assms by (simp add: held_def)

lemma kept_named: "kept_at S W g m = Some k \<Longrightarrow> m (data_of S) = Some k \<or> (\<exists>T. W = Some T \<and> m T = Some k)"
  by (auto simp: kept_at_def split: if_splits option.splits)

lemma held_named: "held E S W nodes m = Some k \<Longrightarrow> m (data_of S) = Some k \<or> (\<exists>T. W = Some T \<and> m T = Some k)"
  unfolding held_def by (rule kept_named)

lemma keeps_cong:
  assumes "\<And>k. file = Some k \<Longrightarrow> nodes' k = nodes k"
  shows "keeps_bytes W B nodes' j file = keeps_bytes W B nodes j file"
  using assms by (auto simp: keeps_bytes_def)

lemma journal_undigested: "m (state_of S) = Some i \<Longrightarrow> journal E nodes i = Some j \<Longrightarrow> undigested E S nodes m \<longleftrightarrow> jn_digest j = None"
  by (auto simp: undigested_def)

lemma image_ok_cong:
  assumes "\<And>p i. m p = Some i \<Longrightarrow> nodes' i = nodes i"
  shows "image_ok E S F W B n nodes' m = image_ok E S F W B n nodes m"
proof -
  have "held E S W nodes' m = held E S W nodes m" by (rule held_cong) (rule assms)
  moreover have "keeps_bytes W B nodes' j (held E S W nodes m) = keeps_bytes W B nodes j (held E S W nodes m)" for j
    by (rule keeps_cong, drule held_named) (auto intro: assms)
  moreover have "journal E nodes' i = journal E nodes i" if "m (state_of S) = Some i" for i
    using assms [OF that] by (rule journal_cong)
  ultimately show ?thesis by (simp add: image_ok_def cong: conj_cong imp_cong)
qed

lemma behind_cong:
  assumes "\<And>i. m (state_of S) = Some i \<Longrightarrow> nodes' i = nodes i" "\<And>i. m' (state_of S) = Some i \<Longrightarrow> nodes' i = nodes i"
  shows "behind E S nodes' m m' = behind E S nodes m m'"
  using assms by (simp add: behind_def journal_def cong: conj_cong imp_cong)

lemma apart_cong:
  assumes "\<And>i. m' (state_of S) = Some i \<Longrightarrow> nodes' i = nodes i"
  shows "apart E S W nodes' m m' = apart E S W nodes m m'"
  using undigested_cong [of m' S nodes' nodes E] held_cong [of m' S nodes' nodes E W] assms by (simp add: apart_def)

lemma stagedD:
  assumes "staged E S F W B n d" "m \<in> im d"
  shows "image_ok E S F W B n (dk_inodes d) m" "behind E S (dk_inodes d) m (live d)"
    "m' \<in> im d \<Longrightarrow> apart E S W (dk_inodes d) m m'" "live d (next_of S) = Some i \<Longrightarrow> m (state_of S) \<noteq> Some i"
    "m p = Some i \<Longrightarrow> i < dk_next d" "m (next_of S) = Some i \<Longrightarrow> m (state_of S) \<noteq> Some i" "beside S W"
  using assms by (auto simp: staged_def in_use_def)

lemma stagedI:
  assumes "beside S W"
    and "\<And>m p i. m \<in> im d \<Longrightarrow> m p = Some i \<Longrightarrow> i < dk_next d"
    and "\<And>m. m \<in> im d \<Longrightarrow> image_ok E S F W B n (dk_inodes d) m"
    and "\<And>m. m \<in> im d \<Longrightarrow> behind E S (dk_inodes d) m (live d)"
    and "\<And>m m'. m \<in> im d \<Longrightarrow> m' \<in> im d \<Longrightarrow> apart E S W (dk_inodes d) m m'"
    and "\<And>m i. m \<in> im d \<Longrightarrow> live d (next_of S) = Some i \<Longrightarrow> m (state_of S) \<noteq> Some i"
    and "\<And>m i. m \<in> im d \<Longrightarrow> m (next_of S) = Some i \<Longrightarrow> m (state_of S) \<noteq> Some i"
  shows "staged E S F W B n d"
  using assms unfolding staged_def in_use_def by blast

text \<open>A change of names that brings in at most one fresh inode and leaves the journal alone.\<close>

lemma staged_new_image:
  assumes inv: "staged E S F W B n d"
    and im: "im d' = insert (live d') (im d)"
    and nodes: "\<And>i. i \<noteq> dk_next d \<Longrightarrow> dk_inodes d' i = dk_inodes d i" "dk_next d \<le> dk_next d'"
    and old: "\<And>p i. live d' p = Some i \<Longrightarrow> live d p = Some i \<or> (p = new \<and> i = dk_next d \<and> dk_next d < dk_next d')"
    and J: "live d' (state_of S) = live d (state_of S)" "live d S \<noteq> None \<longrightarrow> live d' S \<noteq> None"
    and D: "live d (state_of S) \<noteq> None \<Longrightarrow> live d' (data_of S) = live d (data_of S)"
      "\<And>T. live d (state_of S) \<noteq> None \<Longrightarrow> W = Some T \<Longrightarrow> live d' T = live d T"
  shows "staged E S F W B n d'"
proof (rule stagedI)
  note I = stagedD [OF inv]
  have nodes_im: "dk_inodes d' i = dk_inodes d i" if "m \<in> im d" "m p = Some i" for m p i
    using I(5) [OF that] nodes(1) by simp
  have fresh: "m p \<noteq> Some (dk_next d)" if "m \<in> im d" for m p
    using I(5) [OF that] by blast
  have J': "i < dk_next d" "dk_inodes d' i = dk_inodes d i" if "live d' (state_of S) = Some i" for i
    using that I(5) [OF live_in] nodes_im [OF live_in] unfolding J by blast+
  have und_new: "undigested E S (dk_inodes d') (live d') = undigested E S (dk_inodes d) (live d)"
    unfolding undigested_def journal_def J using nodes_im [OF live_in] by (simp cong: conj_cong imp_cong)
  have held_new: "held E S W (dk_inodes d') (live d') = held E S W (dk_inodes d) (live d)" if "live d (state_of S) \<noteq> None"
    using D(1) [OF that] D(2) [OF that] und_new by (simp add: held_def kept_at_def split: option.split)
  show "beside S W" by (rule stagedD(7) [OF inv live_in])
  fix m assume "m \<in> im d'"
  then consider (new) "m = live d'" | (old) "m \<in> im d" using im by auto
  note cases = this
  show "m p = Some i \<Longrightarrow> i < dk_next d'" for p i
    using cases
  proof cases
    case new
    assume "m p = Some i"
    then show ?thesis using old [of p i] I(5) [OF live_in, of p i] nodes(2) by (auto simp: new)
  next
    case old
    assume "m p = Some i"
    then show ?thesis using I(5) [OF old] nodes(2) less_le_trans by blast
  qed
  show "image_ok E S F W B n (dk_inodes d') m"
    using cases
  proof cases
    case old
    then show ?thesis using I(1) [OF old] image_ok_cong nodes_im [OF old] by metis
  next
    case new
    have ok: "image_ok E S F W B n (dk_inodes d) (live d)" by (rule I(1)) simp
    show ?thesis
      unfolding image_ok_def new J
    proof (intro conjI allI impI)
      fix i assume i: "live d (state_of S) = Some i"
      then obtain j where j: "journal E (dk_inodes d) i = Some j" "F j \<and> n \<le> jn_offset j"
        "keeps_bytes W B (dk_inodes d) j (held E S W (dk_inodes d) (live d))"
        using ok by (auto simp: image_ok_def)
      have "journal E (dk_inodes d') i = Some j" using j(1) unfolding journal_def nodes_im [OF live_in i] .
      moreover have "keeps_bytes W B (dk_inodes d') j (held E S W (dk_inodes d) (live d))"
      proof (subst keeps_cong)
        show "dk_inodes d' k = dk_inodes d k" if "held E S W (dk_inodes d) (live d) = Some k" for k
          using held_named [OF that] nodes_im [OF live_in] by metis
      qed (rule j(3))
      ultimately show "\<exists>j. journal E (dk_inodes d') i = Some j \<and> F j \<and> n \<le> jn_offset j
          \<and> keeps_bytes W B (dk_inodes d') j (held E S W (dk_inodes d') (live d'))"
        using j(2) held_new i by (intro exI [of _ j]) simp
    qed (use ok J in \<open>auto simp: image_ok_def\<close>)
  qed
  show "behind E S (dk_inodes d') m (live d')"
    using cases
  proof cases
    case old
    have "behind E S (dk_inodes d') m (live d)"
      using I(2) [OF old] behind_cong [of m S "dk_inodes d'" "dk_inodes d" "live d" E, OF nodes_im [OF old] nodes_im [OF live_in]]
      by simp
    then show ?thesis by (simp add: behind_def J)
  qed (auto simp: behind_def)
  show N: "live d' (next_of S) = Some i \<Longrightarrow> m (state_of S) \<noteq> Some i" for i
  proof -
    assume N: "live d' (next_of S) = Some i"
    have mJ: "\<exists>m'\<in>im d. m (state_of S) = m' (state_of S)" using cases J(1) live_in by blast
    then obtain m0 where m0: "m0 \<in> im d" "m (state_of S) = m0 (state_of S)" by blast
    from old [OF N] show ?thesis
    proof
      assume "live d (next_of S) = Some i"
      then show ?thesis using I(4) [OF m0(1)] m0(2) by simp
    next
      assume "next_of S = new \<and> i = dk_next d \<and> dk_next d < dk_next d'"
      then show ?thesis using fresh [OF m0(1), of "state_of S"] m0(2) by simp
    qed
  qed
  show "m (next_of S) = Some i \<Longrightarrow> m (state_of S) \<noteq> Some i" for i
  proof -
    assume i: "m (next_of S) = Some i"
    show ?thesis
    proof (cases "m = live d'")
      case True
      then show ?thesis using N i by simp
    next
      case False
      then have "m \<in> im d" using cases by blast
      then show ?thesis using I(6) i by simp
    qed
  qed
  have base: "\<exists>x\<in>im d. x (state_of S) = y (state_of S) \<and> (\<forall>q i. y q = Some i \<longrightarrow> x q = Some i \<or> (q = new \<and> i = dk_next d))
      \<and> (\<forall>i. held E S W (dk_inodes d') y = Some i \<longrightarrow>
           held E S W (dk_inodes d) x = Some i \<or> (new = data_of S \<and> i = dk_next d))" if y: "y \<in> im d'" for y
  proof (cases "y = live d'")
    case True
    have "held E S W (dk_inodes d) (live d) = Some i \<or> (new = data_of S \<and> i = dk_next d)"
      if h: "held E S W (dk_inodes d') (live d') = Some i" for i
    proof (cases "live d (state_of S) = None")
      case None: True
      then have "undigested E S (dk_inodes d) (live d)" by (simp add: undigested_def)
      then show ?thesis using h und_new old [of "data_of S" i] by (auto simp: held_def kept_at_def)
    qed (use h held_new in simp)
    then show ?thesis using J(1) old by (intro bexI [of _ "live d"]) (auto simp: True)
  next
    case False
    then have "y \<in> im d" using y im by auto
    moreover have "held E S W (dk_inodes d') y = held E S W (dk_inodes d) y"
      by (rule held_cong) (rule nodes_im [OF \<open>y \<in> im d\<close>])
    ultimately show ?thesis by (intro bexI [of _ y]) auto
  qed
  obtain x where x: "x \<in> im d" "x (state_of S) = m (state_of S)"
    "\<And>q i. m q = Some i \<Longrightarrow> x q = Some i \<or> (q = new \<and> i = dk_next d)"
    using base [OF \<open>m \<in> im d'\<close>] by blast
  fix m' assume "m' \<in> im d'"
  then obtain y where y: "y \<in> im d" "y (state_of S) = m' (state_of S)"
    "\<And>q i. m' q = Some i \<Longrightarrow> y q = Some i \<or> (q = new \<and> i = dk_next d)"
    "\<And>i. held E S W (dk_inodes d') m' = Some i \<Longrightarrow> held E S W (dk_inodes d) y = Some i \<or> (new = data_of S \<and> i = dk_next d)"
    using base by blast
  have ap: "apart E S W (dk_inodes d) x y" by (rule I(3) [OF x(1) y(1)])
  have und: "undigested E S (dk_inodes d') m' \<Longrightarrow> undigested E S (dk_inodes d) y"
  proof -
    assume "undigested E S (dk_inodes d') m'"
    then have "undigested E S (dk_inodes d') y" using y(2) by (simp add: undigested_def)
    moreover have "undigested E S (dk_inodes d') y = undigested E S (dk_inodes d) y"
      by (rule undigested_cong) (rule nodes_im [OF y(1)])
    ultimately show ?thesis by simp
  qed
  show "apart E S W (dk_inodes d') m m'"
    unfolding apart_def
  proof (intro conjI allI impI)
    fix k assume k: "m' (data_of S) = Some k"
    show "m (state_of S) \<noteq> Some k"
    proof
      assume "m (state_of S) = Some k"
      then have "x (state_of S) = Some k" "k \<noteq> dk_next d" using x(2) fresh [OF x(1)] by auto
      then show False using y(3) [OF k] ap by (auto simp: apart_def)
    qed
    show "m (next_of S) \<noteq> Some k"
      using x(3) [of "next_of S" k] y(3) [OF k] ap fresh [OF x(1)] fresh [OF y(1)] by (fastforce simp: apart_def)
  next
    fix p i assume p: "\<not> prefix S p" "m p = Some i"
    have under: "p \<noteq> next_of S" "p \<noteq> data_of S" using p(1) by auto
    show "m' (state_of S) \<noteq> Some i"
      using x(3) [OF p(2)] y(2) ap p(1) fresh [OF y(1)] by (fastforce simp: apart_def)
    show "m' (next_of S) \<noteq> Some i"
      using x(3) [OF p(2)] y(3) [of "next_of S" i] ap p(1) under fresh [OF y(1)] fresh [OF x(1)] by (fastforce simp: apart_def)
    assume h: "held E S W (dk_inodes d') m' = Some i"
    show "\<not> undigested E S (dk_inodes d') m'" "W = Some p"
    proof -
      have y_held: "held E S W (dk_inodes d) y = Some i"
        using y(4) [OF h] x(3) [OF p(2)] under fresh [OF x(1)] by blast
      then have "i \<noteq> dk_next d" using held_named fresh [OF y(1)] by blast
      then have "x p = Some i" using x(3) [OF p(2)] by blast
      then show "\<not> undigested E S (dk_inodes d') m'" "W = Some p" using ap y_held p(1) und by (auto simp: apart_def)
    qed
  qed
qed

text \<open>A change of a file that is no journal, and of staged data only where the prefix stays.\<close>

lemma staged_set_inode:
  assumes inv: "staged E S F W B n d"
    and nJ: "\<And>m. m \<in> im d \<Longrightarrow> m (state_of S) \<noteq> Some i"
    and D: "\<And>m i' j. m \<in> im d \<Longrightarrow> held E S W (dk_inodes d) m = Some i \<Longrightarrow> m (state_of S) = Some i'
      \<Longrightarrow> journal E (dk_inodes d) i' = Some j \<Longrightarrow> holds_prefix B (jn_offset j) (dk_inodes d i) \<Longrightarrow> holds_prefix B (jn_offset j) f"
  shows "staged E S F W B n (set_inode i f d)"
proof (rule stagedI; (unfold set_inode_fields)?)
  note I = stagedD [OF inv]
  let ?nodes = "(dk_inodes d)(i := f)"
  have jn: "\<And>k. m (state_of S) = Some k \<Longrightarrow> ?nodes k = dk_inodes d k" if "m \<in> im d" for m
    using nJ [OF that] by auto
  show "beside S W" by (rule stagedD(7) [OF inv live_in])
  fix m assume m: "m \<in> im d"
  show "\<And>p k. m p = Some k \<Longrightarrow> k < dk_next d" "\<And>k. live d (next_of S) = Some k \<Longrightarrow> m (state_of S) \<noteq> Some k"
    "\<And>k. m (next_of S) = Some k \<Longrightarrow> m (state_of S) \<noteq> Some k"
    using I(5) [OF m] I(4) [OF m] I(6) [OF m] by auto
  show "behind E S ?nodes m (live d)"
    using I(2) [OF m] behind_cong [of m S ?nodes "dk_inodes d" "live d" E, OF jn [OF m] jn [OF live_in]] by simp
  show "apart E S W ?nodes m m'" if "m' \<in> im d" for m'
    using I(3) [OF m that] apart_cong [of m' S ?nodes "dk_inodes d" E W m, OF jn [OF that]] by simp
  show "image_ok E S F W B n ?nodes m"
    unfolding image_ok_def
  proof (intro conjI allI impI)
    fix k assume k: "m (state_of S) = Some k"
    then obtain j where j: "journal E (dk_inodes d) k = Some j" "F j \<and> n \<le> jn_offset j"
      "keeps_bytes W B (dk_inodes d) j (held E S W (dk_inodes d) m)"
      using I(1) [OF m] by (auto simp: image_ok_def)
    have "journal E ?nodes k = Some j" using j(1) unfolding journal_def jn [OF m k] .
    moreover have "held E S W ?nodes m = held E S W (dk_inodes d) m" by (rule held_cong) (rule jn [OF m])
    moreover have "keeps_bytes W B ?nodes j (held E S W (dk_inodes d) m)"
      using j(3) D [OF m _ k j(1)] by (auto simp: keeps_bytes_def)
    ultimately show "\<exists>j. journal E ?nodes k = Some j \<and> F j \<and> n \<le> jn_offset j
        \<and> keeps_bytes W B ?nodes j (held E S W ?nodes m)" using j(2) by (intro exI [of _ j]) simp
  qed (use I(1) [OF m] in \<open>auto simp: image_ok_def\<close>)
qed

text \<open>Fewer images; an image chosen by a power loss.\<close>

lemma staged_fewer:
  assumes inv: "staged E S F W B n d" and im: "im d' \<subseteq> im d" and same: "dk_inodes d' = dk_inodes d" "dk_next d' = dk_next d"
    and names: "dk_names d' = dk_names d"
  shows "staged E S F W B n d'"
proof (rule stagedI, unfold same names)
  note I = stagedD [OF inv]
  show "beside S W" by (rule stagedD(7) [OF inv live_in])
  fix m assume "m \<in> im d'"
  then have m: "m \<in> im d" using im by blast
  show "image_ok E S F W B n (dk_inodes d) m" "behind E S (dk_inodes d) m (live d)" using I(1,2) [OF m] .
  show "m p = Some i \<Longrightarrow> i < dk_next d" for p i by (rule I(5) [OF m])
  show "apart E S W (dk_inodes d) m m'" if "m' \<in> im d'" for m' using I(3) [OF m] im that by blast
  show "live d (next_of S) = Some i \<Longrightarrow> m (state_of S) \<noteq> Some i" "m (next_of S) = Some i \<Longrightarrow> m (state_of S) \<noteq> Some i" for i
    by (rule I(4) [OF m], assumption) (rule I(6) [OF m])
qed

lemma firm_settle: "firm f \<le> firm (settle junk f)"
  by (simp add: firm_def settle_def)

lemma take_settle: "n \<le> firm f \<Longrightarrow> take n (nd_bytes (settle junk f)) = take n (nd_bytes f)"
  by (auto simp: settle_def firm_def)

lemma holds_prefix_settle: "holds_prefix B n f \<Longrightarrow> holds_prefix B n (settle junk f)"
  using firm_settle [of f junk] take_settle [of n f junk]
  by (simp add: holds_prefix_def) (simp add: settle_def)

lemma journal_settle:
  "journal E nodes i = Some j \<Longrightarrow> journal E (\<lambda>i. settle (junk i) (nodes i)) i = Some j"
  by (auto simp: journal_def settle_def split: if_splits)

lemma staged_power_loss:
  assumes inv: "staged E S F W B n d"
  shows "staged E S F W B n (power_loss k junk d)"
proof (rule power_loss_fields [of d k junk])
  fix names
  assume m: "map_of names \<in> im d" and f: "dk_names (power_loss k junk d) = names"
    "im (power_loss k junk d) = {map_of names}"
    "dk_inodes (power_loss k junk d) = (\<lambda>i. settle (junk i) (dk_inodes d i))"
    "dk_next (power_loss k junk d) = dk_next d"
  note I = stagedD [OF inv m]
  let ?m = "map_of names" and ?nodes = "\<lambda>i. settle (junk i) (dk_inodes d i)"
  have journal_at: "\<exists>j. journal E (dk_inodes d) i = Some j" if "?m (state_of S) = Some i" for i
    using I(1) that by (auto simp: image_ok_def)
  have und: "undigested E S ?nodes ?m = undigested E S (dk_inodes d) ?m"
    using journal_at journal_settle unfolding undigested_def by (metis option.inject)
  then have same: "held E S W ?nodes ?m = held E S W (dk_inodes d) ?m" by (simp add: held_def)
  have ok: "image_ok E S F W B n ?nodes ?m"
    unfolding image_ok_def
  proof (intro conjI allI impI)
    fix i assume i: "?m (state_of S) = Some i"
    then obtain j where j: "journal E (dk_inodes d) i = Some j" "F j \<and> n \<le> jn_offset j"
      "keeps_bytes W B (dk_inodes d) j (held E S W (dk_inodes d) ?m)"
      using I(1) by (auto simp: image_ok_def)
    then show "\<exists>j. journal E ?nodes i = Some j \<and> F j \<and> n \<le> jn_offset j
        \<and> keeps_bytes W B ?nodes j (held E S W ?nodes ?m)"
      unfolding same by (intro exI [of _ j]) (auto simp: journal_settle holds_prefix_settle keeps_bytes_def)
  qed (use I(1) in \<open>auto simp: image_ok_def\<close>)
  have ap: "apart E S W ?nodes ?m ?m" using I(3) [OF m] und same by (simp add: apart_def)
  note N = I(6)
  show ?thesis
    by (rule stagedI; (unfold f)?; simp?) (use I(5,7) ok ap N in \<open>auto simp: behind_def\<close>)
qed

text \<open>What other programs do.\<close>

lemma spares_allowed: "spares S W c \<Longrightarrow> allowed S c" "spares S (Some T) c \<Longrightarrow> allowed T c"
  by (simp_all add: spares_def)

lemma allowed_under: "allowed S c \<Longrightarrow> prefix S q \<Longrightarrow> live (apply_change c d) q = live d q"
  by (cases c) (auto simp: allowed_def dest: prefix_same_cases split: option.split)

lemma staged_change:
  assumes inv: "staged E S F W B n d" and c: "spares S W c"
  shows "staged E S F W B n (apply_change c d)"
proof (cases c)
  case (Put p f)
  then have p: "p \<noteq> []" "\<not> prefix p S" "\<not> prefix S p" using c by (simp_all add: spares_def allowed_def)
  have under: "\<not> prefix p (S @ [x])" "p \<noteq> S @ [x]" "p \<noteq> S" for x using p by auto
  have dest: "W = Some T \<Longrightarrow> \<not> prefix p T" for T using c by (simp add: Put spares_def allowed_def)
  show ?thesis unfolding Put apply_change.simps
    by (rule staged_new_image [OF inv, where new = p]) (use p under dest stagedD(5) [OF inv live_in] in \<open>fastforce split: if_splits\<close>)+
next
  case (Gone p)
  then have p: "p \<noteq> []" "\<not> prefix p S" "\<not> prefix S p" using c by (simp_all add: spares_def allowed_def)
  have under: "\<not> prefix p (S @ [x])" for x using p by auto
  have dest: "W = Some T \<Longrightarrow> \<not> prefix p T" for T using c by (simp add: Gone spares_def allowed_def)
  show ?thesis unfolding Gone apply_change.simps
    by (rule staged_new_image [OF inv, where new = p]) (use p under dest stagedD(5) [OF inv live_in] in \<open>fastforce split: if_splits\<close>)+
next
  case (Edit p f)
  then have p: "p \<noteq> []" "\<not> prefix S p" "W \<noteq> Some p" using c by (auto simp: spares_def allowed_def)
  show ?thesis
  proof (cases "live d p")
    case (Some i)
    have ap: "\<And>m. m \<in> im d \<Longrightarrow> apart E S W (dk_inodes d) (live d) m" using stagedD(3) [OF inv live_in] .
    have "staged E S F W B n (set_inode i f d)"
    proof (rule staged_set_inode [OF inv])
      fix m assume m: "m \<in> im d"
      show "m (state_of S) \<noteq> Some i" using ap [OF m] p(2) Some by (auto simp: apart_def)
      fix i' j assume "held E S W (dk_inodes d) m = Some i"
      then have False using ap [OF m] p(2,3) Some by (auto simp: apart_def)
      then show "holds_prefix B (jn_offset j) f" ..
    qed
    then show ?thesis using p Some by (simp add: Edit)
  qed (use p inv in \<open>simp add: Edit\<close>)
qed

end
