(* ===== verification/Transfer_Recovery.thy ===== *)
theory Transfer_Recovery
  imports Transfer_Safety
begin

text \<open>
  The operations on a staging directory keep its invariant at every call, and what they
  acknowledge is on the disk.
\<close>

section \<open>Stable facts\<close>

lemma change_under:
  "spares S W c \<Longrightarrow> prefix S q \<Longrightarrow> live (apply_change c d) q = live d q"
  by (rule allowed_under [OF spares_allowed(1)])

lemma change_dest: "spares S (Some T) c \<Longrightarrow> live (apply_change c d) T = live d T"
  by (rule allowed_under [OF spares_allowed(2) prefix_order.order_refl])

lemma change_inode:
  assumes "spares S W c" "i < dk_next d" "\<And>p. \<not> prefix S p \<Longrightarrow> W \<noteq> Some p \<Longrightarrow> live d p \<noteq> Some i"
  shows "dk_inodes (apply_change c d) i = dk_inodes d i"
  using assms by (cases c) (auto simp: spares_def allowed_def split: option.splits)

lemma stable_conj: "stable (spares S W) P \<Longrightarrow> stable (spares S W) Q \<Longrightarrow> stable (spares S W) (\<lambda>d. P d \<and> Q d)"
  by (simp add: stable_def)

lemma stable_staged: "stable (spares S W) (staged E S F W B n)"
  by (simp add: stable_def staged_change)

lemma stable_name: "prefix S q \<Longrightarrow> stable (spares S W) (\<lambda>d. R (live d q))"
  by (simp add: stable_def change_under)

definition has_journal :: "Endpoint \<Rightarrow> path \<Rightarrow> Journal \<Rightarrow> disk \<Rightarrow> bool" where
  "has_journal E S j d \<longleftrightarrow> (\<exists>i. live d (state_of S) = Some i \<and> journal E (dk_inodes d) i = Some j)"

lemma journal_private:
  assumes "staged E S F W B n d" "m \<in> im d" "m (state_of S) = Some i" "\<not> prefix S p"
  shows "live d p \<noteq> Some i"
  using stagedD(3) [OF assms(1) live_in assms(2)] assms(3,4) by (auto simp: apart_def)

lemma journal_change:
  assumes "staged E S F W B n d" "spares S W c" "m \<in> im d" "m (state_of S) = Some i"
  shows "dk_inodes (apply_change c d) i = dk_inodes d i"
  by (rule change_inode [OF assms(2) stagedD(5) [OF assms(1,3,4)]]) (rule journal_private [OF assms(1,3,4)])

lemma stable_journal: "stable (spares S W) (\<lambda>d. staged E S F W B n d \<and> has_journal E S j d)"
  unfolding stable_def
proof (intro allI impI, elim conjE)
  fix d c assume st: "staged E S F W B n d" and j: "has_journal E S j d" and c: "spares S W c"
  then obtain i where i: "live d (state_of S) = Some i" "journal E (dk_inodes d) i = Some j"
    by (auto simp: has_journal_def)
  have "live (apply_change c d) (state_of S) = Some i" using change_under [OF c] i(1) by simp
  moreover have "journal E (dk_inodes (apply_change c d)) i = Some j"
    using i(2) unfolding journal_def journal_change [OF st c live_in i(1)] .
  ultimately show "staged E S F W B n (apply_change c d) \<and> has_journal E S j (apply_change c d)"
    using staged_change [OF st c] by (auto simp: has_journal_def)
qed

text \<open>Other programs only add images that agree with the live one below the directory.\<close>

definition one_journal :: "path \<Rightarrow> disk \<Rightarrow> bool" where
  "one_journal S d \<longleftrightarrow> (\<forall>m\<in>im d. m (state_of S) = live d (state_of S))"

lemma im_change: "im (apply_change c d) \<subseteq> insert (live (apply_change c d)) (im d)"
  by (cases c) (auto split: option.split)

lemma stable_one: "stable (spares S W) (one_journal S)"
  unfolding stable_def
proof (intro allI impI)
  fix d c assume "one_journal S d" and c: "spares S W c"
  then show "one_journal S (apply_change c d)"
    using im_change [of c d] change_under [OF c, of "state_of S" d] by (auto simp: one_journal_def)
qed

section \<open>Elementary operations\<close>

definition same_content :: "inode \<Rightarrow> inode \<Rightarrow> bool" where
  "same_content f g \<longleftrightarrow> nd_kind f = nd_kind g \<and> nd_bytes f = nd_bytes g \<and> firm f \<le> firm g \<and> (nd_clean f \<longrightarrow> nd_clean g)"

text \<open>Syncing a file, or changing its mode or time.\<close>

lemma staged_same_content:
  assumes st: "staged E S F W B n d" and f: "same_content (dk_inodes d i) f"
  shows "staged E S F W B n (set_inode i f d)"
proof (rule stagedI; (unfold set_inode_fields)?)
  note I = stagedD [OF st]
  let ?nodes = "(dk_inodes d)(i := f)"
  have jn: "journal E ?nodes k = Some j" if "journal E (dk_inodes d) k = Some j" for k j
    using that f by (auto simp: journal_def same_content_def split: if_splits)
  have hp: "holds_prefix B o' (?nodes k)" if "holds_prefix B o' (dk_inodes d k)" for o' k
    using that f by (auto simp: holds_prefix_def same_content_def)
  have journals: "\<exists>j. journal E (dk_inodes d) k = Some j" if "m \<in> im d" "m (state_of S) = Some k" for m k
    using I(1) [OF that(1)] that(2) by (auto simp: image_ok_def)
  have eq: "journal E ?nodes k = journal E (dk_inodes d) k" if "m \<in> im d" "m (state_of S) = Some k" for m k
    using journals [OF that] jn by fastforce
  have und: "undigested E S ?nodes m = undigested E S (dk_inodes d) m" "held E S W ?nodes m = held E S W (dk_inodes d) m" if "m \<in> im d" for m
    using eq [OF that] by (simp_all add: undigested_def held_def cong: conj_cong imp_cong)
  show "beside S W" by (rule stagedD(7) [OF st live_in])
  fix m assume m: "m \<in> im d"
  show "\<And>p k. m p = Some k \<Longrightarrow> k < dk_next d" "\<And>k. live d (next_of S) = Some k \<Longrightarrow> m (state_of S) \<noteq> Some k"
    "\<And>k. m (next_of S) = Some k \<Longrightarrow> m (state_of S) \<noteq> Some k"
    using I(5) [OF m] I(4) [OF m] I(6) [OF m] by auto
  show "behind E S ?nodes m (live d)"
    using I(2) [OF m] eq [OF m] eq [OF live_in] by (auto simp: behind_def)
  show "apart E S W ?nodes m m'" if "m' \<in> im d" for m'
    using I(3) [OF m that] und [OF that] by (simp add: apart_def)
  show "image_ok E S F W B n ?nodes m"
    unfolding image_ok_def
  proof (intro conjI allI impI)
    fix k assume k: "m (state_of S) = Some k"
    then obtain j where j: "journal E (dk_inodes d) k = Some j" "F j \<and> n \<le> jn_offset j"
      "keeps_bytes W B (dk_inodes d) j (held E S W (dk_inodes d) m)"
      using I(1) [OF m] by (auto simp: image_ok_def)
    show "\<exists>j. journal E ?nodes k = Some j \<and> F j \<and> n \<le> jn_offset j \<and> keeps_bytes W B ?nodes j (held E S W ?nodes m)"
      using jn [OF j(1)] j(2,3) hp und(2) [OF m] by (intro exI [of _ j]) (auto simp: keeps_bytes_def simp del: fun_upd_apply)
  qed (use I(1) [OF m] in \<open>auto simp: image_ok_def\<close>)
qed

lemma same_content_sync: "same_content f (f\<lparr> nd_clean := True \<rparr>)"
  by (auto simp: same_content_def firm_def)

lemma same_content_meta: "same_content f (f\<lparr> nd_mode := x \<rparr>)" "same_content f (f\<lparr> nd_modified := y \<rparr>)"
  by (simp_all add: same_content_def firm_def)

lemma has_journal_same_content:
  assumes "has_journal E S j d" "same_content (dk_inodes d i) f"
  shows "has_journal E S j (set_inode i f d)"
  using assms by (auto simp: has_journal_def journal_def same_content_def split: if_splits)

text \<open>What all images say of the journal is acknowledged.\<close>

lemma staged_raise:
  assumes st: "staged E S F W B n d" and j: "has_journal E S j d" and one: "one_journal S d"
  shows "staged E S F W B (jn_offset j) d"
proof -
  obtain i where i: "live d (state_of S) = Some i" "journal E (dk_inodes d) i = Some j"
    using j by (auto simp: has_journal_def)
  have "image_ok E S F W B (jn_offset j) (dk_inodes d) m" if "m \<in> im d" for m
    using stagedD(1) [OF st that] one that i by (auto simp: image_ok_def one_journal_def)
  then show ?thesis using st by (simp add: staged_def)
qed

section \<open>Saving a journal\<close>

text \<open>When a journal may replace the live one.\<close>

definition saves :: "Endpoint \<Rightarrow> path \<Rightarrow> (Journal \<Rightarrow> bool) \<Rightarrow> path option \<Rightarrow> string \<Rightarrow> nat \<Rightarrow> Journal \<Rightarrow> disk \<Rightarrow> bool" where
  "saves E S F W B n j d \<longleftrightarrow> live d S \<noteq> None \<and> F j \<and> n \<le> jn_offset j
    \<and> (\<forall>i j0. live d (state_of S) = Some i \<longrightarrow> journal E (dk_inodes d) i = Some j0 \<longrightarrow>
         jn_offset j0 \<le> jn_offset j \<and> (jn_digest j0 = None \<or> jn_digest j \<noteq> None))
    \<and> (jn_digest j \<noteq> None \<longrightarrow> live d (state_of S) \<noteq> None)
    \<and> keeps_bytes W B (dk_inodes d) j (kept_at S W (jn_digest j \<noteq> None) (live d))"

lemma saves_undigested: "saves E S F W B n j d \<Longrightarrow> jn_digest j = None \<Longrightarrow> undigested E S (dk_inodes d) (live d)"
  by (auto simp: saves_def undigested_def)

lemma held_private:
  assumes "staged E S F W B n d" "held E S W (dk_inodes d) (live d) = Some k" "\<not> prefix S p" "W \<noteq> Some p"
  shows "live d p \<noteq> Some k"
  using stagedD(3) [OF assms(1) live_in live_in] assms(2-4) by (auto simp: apart_def)

lemma data_private:
  assumes "staged E S F W B n d" "undigested E S (dk_inodes d) (live d)" "live d (data_of S) = Some k" "\<not> prefix S p"
  shows "live d p \<noteq> Some k"
  using stagedD(3) [OF assms(1) live_in live_in] assms(2-4) by (auto simp: apart_def held_def kept_at_def)

text \<open>The file with the bytes is the same one before and after the journal.\<close>

lemma saves_held:
  assumes st: "staged E S F W B n d" and sv: "saves E S F W B n j d" and W: "jn_digest j = None \<or> W \<noteq> None"
  shows "kept_at S W (jn_digest j \<noteq> None) (live d) = held E S W (dk_inodes d) (live d)"
proof (cases "undigested E S (dk_inodes d) (live d) \<and> jn_digest j \<noteq> None")
  case True
  then obtain i where i: "live d (state_of S) = Some i" using sv by (auto simp: saves_def)
  then obtain j0 where j0: "journal E (dk_inodes d) i = Some j0" "keeps_bytes W B (dk_inodes d) j0 (held E S W (dk_inodes d) (live d))"
    using stagedD(1) [OF st live_in] by (auto simp: image_ok_def)
  have "jn_digest j0 = None" using True journal_undigested [of "live d" S i E "dk_inodes d" j0] i j0(1) by blast
  then obtain k where "live d (data_of S) = Some k" using j0(2) True by (auto simp: keeps_bytes_def held_def kept_at_def)
  then show ?thesis using True W by (auto simp: held_def kept_at_def)
next
  case False
  then have "jn_digest j \<noteq> None \<longleftrightarrow> \<not> undigested E S (dk_inodes d) (live d)" using saves_undigested [OF sv] by blast
  then show ?thesis by (simp add: held_def)
qed

lemma kept_at_cong:
  assumes "m' (data_of S) = m (data_of S)" "\<And>T. W = Some T \<Longrightarrow> m' T = m T"
  shows "kept_at S W g m' = kept_at S W g m"
  using assms by (simp add: kept_at_def split: option.split)

lemma stable_saves: "stable (spares S W) (\<lambda>d. staged E S F W B n d \<and> saves E S F W B n j d)"
  unfolding stable_def
proof (intro allI impI, elim conjE)
  fix d c assume st: "staged E S F W B n d" and sv: "saves E S F W B n j d" and c: "spares S W c"
  let ?d = "apply_change c d" and ?kept = "kept_at S W (jn_digest j \<noteq> None)"
  have names: "live ?d S = live d S" "live ?d (state_of S) = live d (state_of S)" "live ?d (data_of S) = live d (data_of S)"
    using change_under [OF c] by simp_all
  have kept: "?kept (live ?d) = ?kept (live d)"
    using change_dest c by (intro kept_at_cong names(3)) blast
  have J: "journal E (dk_inodes ?d) i = journal E (dk_inodes d) i" if "live d (state_of S) = Some i" for i
    unfolding journal_def journal_change [OF st c live_in that] ..
  have "keeps_bytes W B (dk_inodes ?d) j (?kept (live d))"
    unfolding keeps_bytes_def
  proof
    assume W: "jn_digest j = None \<or> W \<noteq> None"
    then obtain k where k: "?kept (live d) = Some k" "holds_prefix B (jn_offset j) (dk_inodes d k)"
      using sv by (auto simp: saves_def keeps_bytes_def)
    have h: "held E S W (dk_inodes d) (live d) = Some k" using saves_held [OF st sv W] k(1) by simp
    have "k < dk_next d" using held_named [OF h] stagedD(5) [OF st live_in] by blast
    then have "dk_inodes ?d k = dk_inodes d k" by (rule change_inode [OF c]) (rule held_private [OF st h])
    then show "\<exists>k. ?kept (live d) = Some k \<and> holds_prefix B (jn_offset j) (dk_inodes ?d k)" using k by simp
  qed
  then have "saves E S F W B n j ?d" using sv J unfolding saves_def names kept by metis
  then show "staged E S F W B n ?d \<and> saves E S F W B n j ?d" using staged_change [OF st c] by simp
qed

lemma saves_cong:
  assumes "live d' S = live d S" "live d' (state_of S) = live d (state_of S)" "live d' (data_of S) = live d (data_of S)"
    and "\<And>i. live d (state_of S) = Some i \<Longrightarrow> dk_inodes d' i = dk_inodes d i"
    and "\<And>i. live d (data_of S) = Some i \<Longrightarrow> dk_inodes d' i = dk_inodes d i"
    and "\<And>T. W = Some T \<Longrightarrow> live d' T = live d T" "\<And>T i. W = Some T \<Longrightarrow> live d T = Some i \<Longrightarrow> dk_inodes d' i = dk_inodes d i"
  shows "saves E S F W B n j d' = saves E S F W B n j d"
proof -
  have "kept_at S W g (live d') = kept_at S W g (live d)" for g
    by (rule kept_at_cong) (simp_all add: assms(3,6))
  moreover have "keeps_bytes W B (dk_inodes d') j (kept_at S W g (live d)) = keeps_bytes W B (dk_inodes d) j (kept_at S W g (live d))" for g
    by (rule keeps_cong, drule kept_named) (auto intro: assms(5,7))
  ultimately show ?thesis
    unfolding saves_def assms(1-2) journal_def using assms(4) by (simp cong: conj_cong imp_cong)
qed

text \<open>The new journal gets its name, in one step.\<close>

lemma staged_replace:
  assumes st: "staged E S F W B n d" and sv: "saves E S F W B n j d"
    and N: "live d (next_of S) = Some i" "journal E (dk_inodes d) i = Some j"
    and d': "d' = set_names ((state_of S, i) # without (state_of S) (without (next_of S) (dk_names d))) d"
  shows "staged E S F W B n d' \<and> has_journal E S j d'"
proof -
  note I = stagedD [OF st]
  have live': "live d' q = (if q = state_of S then Some i else if prefix (state_of S) q \<or> prefix (next_of S) q then None
      else live d q)" for q
    by (simp add: d' map_of_without)
  have at: "live d' (state_of S) = Some i" "live d' (next_of S) = None" "live d' (data_of S) = live d (data_of S)"
    "live d' S = live d S"
    by (simp_all add: live')
  have sub: "live d' p = Some k \<Longrightarrow> \<not> prefix S p \<Longrightarrow> live d p = Some k" for p k
    by (auto simp: live' split: if_splits)
  have im: "im d' = insert (live d') (im d)" by (simp add: d' im_set_names)
  have nodes: "dk_inodes d' = dk_inodes d" "dk_next d' = dk_next d" by (simp_all add: d')
  have und_new: "undigested E S (dk_inodes d) (live d') \<longleftrightarrow> jn_digest j = None"
    by (rule journal_undigested [where i = i]) (simp_all add: at N(2))
  then have und: "undigested E S (dk_inodes d) (live d') \<Longrightarrow> undigested E S (dk_inodes d) (live d)"
    using saves_undigested [OF sv] by blast
  have "live d' T = live d T" if "W = Some T" for T
  proof -
    have "\<not> prefix S T" using I(7) [OF live_in] that by (simp add: beside_def)
    then have "T \<noteq> state_of S" "\<not> prefix (state_of S) T" "\<not> prefix (next_of S) T" by (auto dest: append_prefixD)
    then show ?thesis by (simp add: live')
  qed
  then have held_new: "held E S W (dk_inodes d) (live d') = kept_at S W (jn_digest j \<noteq> None) (live d)"
    unfolding held_def und_new by (intro kept_at_cong at(3)) blast
  have held_old: "held E S W (dk_inodes d) (live d') = Some k \<Longrightarrow> held E S W (dk_inodes d) (live d) = Some k" for k
    using saves_held [OF st sv] held_new by (cases "jn_digest j = None \<or> W \<noteq> None") (auto simp: kept_at_def)
  have "staged E S F W B n d'"
  proof (rule stagedI; (unfold nodes)?)
    show "beside S W" by (rule I(7) [OF live_in])
    fix m assume "m \<in> im d'"
    then have m: "m = live d' \<or> m \<in> im d" using im by auto
    show "m p = Some k \<Longrightarrow> k < dk_next d" for p k
      using m I(5) [OF live_in, of p k] I(5) [OF live_in N(1)] I(5) [of m p k] by (auto simp: live' split: if_splits)
    show "live d' (next_of S) = Some k \<Longrightarrow> m (state_of S) \<noteq> Some k" for k by (simp add: at)
    show "m (next_of S) = Some k \<Longrightarrow> m (state_of S) \<noteq> Some k" for k
      using m I(6) [of m k] by (auto simp: at)
    show "image_ok E S F W B n (dk_inodes d) m"
    proof (cases "m = live d'")
      case True
      then show ?thesis using sv N held_new by (auto simp: image_ok_def at saves_def)
    qed (use m I(1) in blast)
    show "behind E S (dk_inodes d) m (live d')"
    proof (cases "m = live d'")
      case False
      then have "behind E S (dk_inodes d) m (live d)" using m I(2) by blast
      show ?thesis
        unfolding behind_def at
      proof (intro allI impI)
        fix k l assume "m (state_of S) = Some k" "journal E (dk_inodes d) k = Some l"
        then obtain k' l' where l': "live d (state_of S) = Some k'" "journal E (dk_inodes d) k' = Some l'"
          "jn_offset l \<le> jn_offset l'" "jn_digest l = None \<or> jn_digest l' \<noteq> None"
          using \<open>behind E S _ m (live d)\<close> unfolding behind_def by blast
        then have "jn_offset l' \<le> jn_offset j \<and> (jn_digest l' = None \<or> jn_digest j \<noteq> None)"
          using sv unfolding saves_def by blast
        then show "\<exists>i' j'. Some i = Some i' \<and> journal E (dk_inodes d) i' = Some j' \<and> jn_offset l \<le> jn_offset j'
            \<and> (jn_digest l = None \<or> jn_digest j' \<noteq> None)"
          using l' N(2) by auto
      qed
    qed (auto simp: behind_def)
    fix m' assume "m' \<in> im d'"
    then have m': "m' = live d' \<or> m' \<in> im d" using im by auto
    have ap: "apart E S W (dk_inodes d) x y" if "x \<in> im d" "y \<in> im d" for x y by (rule I(3) [OF that])
    have new_old: "apart E S W (dk_inodes d) (live d') y" if y: "y \<in> im d" for y
      using ap [OF live_in y] sub N(1) I(4) [OF y N(1)] by (auto simp: apart_def at)
    have to_new: "apart E S W (dk_inodes d) x (live d) \<Longrightarrow> apart E S W (dk_inodes d) x (live d')"
      for x
      using N(1) und held_old by (auto simp: apart_def at)
    have old_new: "apart E S W (dk_inodes d) x (live d')" if x: "x \<in> im d" for x
      using to_new ap [OF x live_in] by blast
    have "apart E S W (dk_inodes d) (live d') (live d')"
      using to_new new_old [OF live_in] by blast
    then show "apart E S W (dk_inodes d) m m'" using m m' new_old old_new ap by blast
  qed
  then show ?thesis using at(1) N(2) by (simp add: has_journal_def nodes)
qed

definition next_is :: "path \<Rightarrow> nat \<Rightarrow> (inode \<Rightarrow> bool) \<Rightarrow> disk \<Rightarrow> bool" where
  "next_is S i R d \<longleftrightarrow> live d (next_of S) = Some i \<and> R (dk_inodes d i)"

abbreviation saving :: "Endpoint \<Rightarrow> path \<Rightarrow> (Journal \<Rightarrow> bool) \<Rightarrow> path option \<Rightarrow> string \<Rightarrow> nat \<Rightarrow> Journal \<Rightarrow> disk \<Rightarrow> bool" where
  "saving E S F W B n j d \<equiv> staged E S F W B n d \<and> saves E S F W B n j d"

lemma stable_next: "stable (spares S W) (\<lambda>d. saving E S F W B n j d \<and> next_is S i R d)"
  unfolding stable_def
proof (intro allI impI, elim conjE)
  fix d c assume st: "staged E S F W B n d" and sv: "saves E S F W B n j d" and nx: "next_is S i R d" and c: "spares S W c"
  have N: "live d (next_of S) = Some i" using nx by (simp add: next_is_def)
  have "live d p \<noteq> Some i" if "\<not> prefix S p" for p
    using stagedD(3) [OF st live_in live_in] N that by (auto simp: apart_def)
  then have "dk_inodes (apply_change c d) i = dk_inodes d i"
    using stagedD(5) [OF st live_in N] by (intro change_inode [OF c]) auto
  then have "next_is S i R (apply_change c d)" using nx change_under [OF c, of "next_of S" d] by (simp add: next_is_def)
  then show "saving E S F W B n j (apply_change c d) \<and> next_is S i R (apply_change c d)"
    using stable_saves st sv c unfolding stable_def by blast
qed

text \<open>The contents of \<open>next.json\<close> may be anything.\<close>

lemma saving_next_inode:
  assumes sv: "saving E S F W B n j d" and N: "live d (next_of S) = Some i"
  shows "saving E S F W B n j (set_inode i f d)"
proof -
  note I = stagedD [OF conjunct1 [OF sv]]
  have nJ: "m (state_of S) \<noteq> Some i" if "m \<in> im d" for m by (rule I(4) [OF that N])
  have nD: "m (data_of S) \<noteq> Some i" if "m \<in> im d" for m
    using I(3) [OF live_in that] N by (auto simp: apart_def)
  have nT: "m T \<noteq> Some i" if "m \<in> im d" "W = Some T" for m T
    using I(3) [OF that(1) live_in] I(7) [OF live_in] N that(2) by (auto simp: apart_def beside_def)
  have "staged E S F W B n (set_inode i f d)"
  proof (rule staged_set_inode [OF conjunct1 [OF sv]], rule nJ, assumption)
    show "holds_prefix B (jn_offset j') f" if "m \<in> im d" "held E S W (dk_inodes d) m = Some i" for m j'
      using held_named [OF that(2)] nD [OF that(1)] nT [OF that(1)] by blast
  qed
  moreover have "saves E S F W B n j (set_inode i f d) = saves E S F W B n j d"
    by (rule saves_cong) (use nJ [OF live_in] nD [OF live_in] nT [OF live_in] in auto)
  ultimately show ?thesis using sv by simp
qed

lemma open_file_writable_cases:
  assumes "p \<noteq> []"
  obtains (new) "live d p = None" "create" "open_file p w create t lim d = (Inr (dk_next d), new_inode p empty_file d)"
  | (trunc) i where "live d p = Some i" "nd_kind (dk_inodes d i) = Node_File" "t"
      "open_file p w create t lim d = (Inr i, set_inode i ((dk_inodes d i)\<lparr> nd_bytes := [], nd_clean := False, nd_firm := 0 \<rparr>) d)"
  | (old) i where "live d p = Some i" "nd_kind (dk_inodes d i) = Node_File \<longrightarrow> \<not> t" "open_file p w create t lim d = (Inr i, d)"
  | (failed) e where "open_file p w create t lim d = (Inl e, d)"
proof (cases "live d p")
  case None
  then show thesis using assms new failed by (cases "create \<and> is_dir d (butlast p)") (auto simp: open_file_def)
next
  case (Some i)
  then show thesis using assms trunc [of i] old [of i] failed
    by (cases "nd_kind (dk_inodes d i)"; cases t; cases "w \<or> create") (auto simp: open_file_def)
qed

lemma saving_new_next:
  assumes sv: "saving E S F W B n j d" and N: "live d (next_of S) = None"
  shows "saving E S F W B n j (new_inode (next_of S) f d)"
proof -
  note I = stagedD [OF conjunct1 [OF sv] live_in]
  have T: "\<not> prefix (next_of S) T" if "W = Some T" for T
    using I(7) that by (auto simp: beside_def dest: append_prefixD)
  have "staged E S F W B n (new_inode (next_of S) f d)"
    by (rule staged_new_image [OF conjunct1 [OF sv], where new = "next_of S"]) (use I(5) T in \<open>fastforce split: if_splits\<close>)+
  moreover have "saves E S F W B n j (new_inode (next_of S) f d) = saves E S F W B n j d"
    by (rule saves_cong) (use I(5) T in fastforce)+
  ultimately show ?thesis using sv by simp
qed

lemma triple_fstat:
  "stable (spares S W) P \<Longrightarrow> (\<And>d. P d \<Longrightarrow> I d) \<Longrightarrow> triple (spares S W) P (io_call (fstat i)) (\<lambda>f d. P d \<and> f = dk_inodes d i) I"
  by (rule triple_call) (auto simp: fstat_def)

lemma triple_open_next:
  "triple (spares S W) (saving E S F W B n j) (open_regular (next_of S) True True True)
     (\<lambda>i d. saving E S F W B n j d \<and> next_is S i (\<lambda>f. nd_kind f = Node_File \<and> nd_bytes f = []) d) (staged E S F W B n)"
  unfolding open_regular_def
proof (rule triple_bnd)
  let ?R = "\<lambda>i d. saving E S F W B n j d \<and> next_is S i (\<lambda>f. nd_kind f = Node_File \<longrightarrow> nd_bytes f = []) d"
  have "saving E S F W B n j (snd (open_file (next_of S) True True True lim d))
      \<and> (\<forall>i. fst (open_file (next_of S) True True True lim d) = Inr i
           \<longrightarrow> ?R i (snd (open_file (next_of S) True True True lim d)))" if "saving E S F W B n j d" for d lim
  proof (rule open_file_writable_cases [of "next_of S" d True True True lim])
    assume "live d (next_of S) = None"
      "open_file (next_of S) True True True lim d = (Inr (dk_next d), new_inode (next_of S) empty_file d)"
    then show ?thesis using saving_new_next [OF that] by (simp add: next_is_def empty_file_def)
  next
    fix i assume "live d (next_of S) = Some i" "open_file (next_of S) True True True lim d
      = (Inr i, set_inode i ((dk_inodes d i)\<lparr> nd_bytes := [], nd_clean := False, nd_firm := 0 \<rparr>) d)"
    then show ?thesis using saving_next_inode [OF that] by (simp add: next_is_def)
  qed (use that in \<open>auto simp: next_is_def\<close>)
  then show "triple (spares S W) (saving E S F W B n j) (io_call (open_file (next_of S) True True True)) ?R (staged E S F W B n)"
    by (intro triple_call stable_saves) blast+
  fix i
  show "triple (spares S W) (?R i) (bnd (io_call (fstat i)) (\<lambda>f. if nd_kind f = Node_File then ret i
      else err (Fault_new ''TRANSFER_TYPE'' ''Only regular files can be transferred.'')))
    (\<lambda>i d. saving E S F W B n j d \<and> next_is S i (\<lambda>f. nd_kind f = Node_File \<and> nd_bytes f = []) d) (staged E S F W B n)"
    by (rule triple_bnd [OF triple_fstat [OF stable_next]])
      (auto intro!: triple_if triple_ret triple_err simp: next_is_def)
qed

lemma triple_stage_save:
  assumes fits: "ep_dec E (take 16384 (ep_enc E j)) = Some j" and st: "sg_dir st = S" "sg_journal st = j"
  shows
    "triple (spares S W) (saving E S F W B n j) (stage_save E st)
     (\<lambda>_ d. staged E S F W B n d \<and> has_journal E S j d \<and> one_journal S d) (staged E S F W B n)"
  unfolding stage_save_def st
proof (rule triple_bnd [OF triple_open_next])
  fix i
  let ?next = "\<lambda>R d. saving E S F W B n j d \<and> next_is S i R d"
  let ?empty = "?next (\<lambda>f. nd_kind f = Node_File \<and> nd_bytes f = [])"
  let ?full = "?next (\<lambda>f. nd_kind f = Node_File \<and> nd_bytes f = ep_enc E j)"
  let ?clean = "?next (\<lambda>f. nd_kind f = Node_File \<and> nd_bytes f = ep_enc E j \<and> nd_clean f)"
  have writing: "triple (spares S W) ?empty (io_call (write_file i 0 (ep_enc E j))) (\<lambda>_. ?full) (staged E S F W B n)"
  proof (rule triple_call [OF stable_next])
    fix d assume d: "?empty d"
    then have N: "live d (next_of S) = Some i" and f: "nd_kind (dk_inodes d i) = Node_File" "nd_bytes (dk_inodes d i) = []"
      by (simp_all add: next_is_def)
    show "staged E S F W B n (snd (write_file i 0 (ep_enc E j) lim d))" for lim
      using saving_next_inode [OF conjunct1 [OF d] N] d by (simp add: write_file_def Let_def split: option.split)
    show "?full (snd (write_file i 0 (ep_enc E j) None d))" for x
      using saving_next_inode [OF conjunct1 [OF d] N] d N f
      by (simp add: write_file_def Let_def next_is_def write_bytes_def)
  qed simp
  have sync: "triple (spares S W) ?full (io_call (sync_file i)) (\<lambda>_. ?clean) (staged E S F W B n)"
  proof (rule triple_call [OF stable_next])
    fix d assume d: "?full d"
    then have N: "live d (next_of S) = Some i" by (simp add: next_is_def)
    show "staged E S F W B n (snd (sync_file i lim d))" for lim
      using saving_next_inode [OF conjunct1 [OF d] N] by (simp add: sync_file_def)
    show "?clean (snd (sync_file i None d))"
      using saving_next_inode [OF conjunct1 [OF d] N] d by (simp add: sync_file_def next_is_def)
  qed simp
  let ?saved = "\<lambda>d. staged E S F W B n d \<and> has_journal E S j d"
  have replace: "triple (spares S W) ?clean (io_call (rename (next_of S) (state_of S) True)) (\<lambda>_. ?saved) (staged E S F W B n)"
  proof -
    have "staged E S F W B n (snd (rename (next_of S) (state_of S) True lim d))
      \<and> (fst (rename (next_of S) (state_of S) True lim d) = Inr x \<longrightarrow> ?saved (snd (rename (next_of S) (state_of S) True lim d)))"
      if d: "?clean d" for d lim x
    proof -
      have N: "live d (next_of S) = Some i" "journal E (dk_inodes d) i = Some j"
        using d fits by (simp_all add: next_is_def journal_def)
      have "live d (state_of S) \<noteq> Some i" using stagedD(4) [OF conjunct1 [OF conjunct1 [OF d]] live_in N(1)] .
      then show ?thesis using d N staged_replace [OF _ _ N] by (auto simp: rename_def)
    qed
    then show ?thesis by (intro triple_call stable_next) blast+
  qed
  have dir: "triple (spares S W) ?saved (io_call (sync_dir S)) (\<lambda>_ d. ?saved d \<and> one_journal S d) (staged E S F W B n)"
  proof (rule triple_call [OF stable_journal])
    fix d assume d: "?saved d"
    have st: "staged E S F W B n (snd (sync_dir S lim d))" for lim
      by (rule staged_fewer [OF conjunct1 [OF d] im_sync_dir(1)]) simp_all
    then show "staged E S F W B n (snd (sync_dir S lim d))" for lim .
    have "one_journal S (snd (sync_dir S None d))"
      using im_sync_dir(2) [of _ S None d "state_of S"] by (simp add: one_journal_def entry_of_def)
    then show "?saved (snd (sync_dir S None d)) \<and> one_journal S (snd (sync_dir S None d))"
      using st d by (simp add: has_journal_def)
  qed simp
  show "triple (spares S W) ?empty (thn (io_call (write_file i 0 (ep_enc E j))) (thn (io_call (sync_file i))
      (thn (io_call (rename (next_of S) (state_of S) True)) (thn (io_call nothing) (io_call (sync_dir S))))))
    (\<lambda>_ d. staged E S F W B n d \<and> has_journal E S j d \<and> one_journal S d) (staged E S F W B n)"
  proof (rule triple_thn [OF writing], rule triple_thn [OF sync], rule triple_thn [OF replace])
    show "triple (spares S W) ?saved (thn (io_call nothing) (io_call (sync_dir S)))
      (\<lambda>_ d. staged E S F W B n d \<and> has_journal E S j d \<and> one_journal S d) (staged E S F W B n)"
      by (rule triple_quiet_thn [OF _ stable_journal]) (auto intro!: quiet_rules triple_conseq [OF dir])
  qed
qed

section \<open>Opening the staging directory\<close>

definition stage_dir :: "Endpoint \<Rightarrow> string \<Rightarrow> string \<Rightarrow> path option" where
  "stage_dir E p token =
    (case (path_components p, stage_name E token) of
       (Inr parts, Inr name) \<Rightarrow> if parts = [] then None else Some (butlast parts @ [name])
     | _ \<Rightarrow> None)"

lemma stage_dirE:
  assumes "stage_dir E p token = Some S"
  obtains parts name where "path_components p = Inr parts" "parts \<noteq> []" "stage_name E token = Inr name"
    "S = butlast parts @ [name]"
  using assms by (auto simp: stage_dir_def split: sum.splits if_splits)

lemma data_change:
  assumes "staged E S F W B n d" "undigested E S (dk_inodes d) (live d)" "live d (data_of S) = Some k" "spares S W c"
  shows "dk_inodes (apply_change c d) k = dk_inodes d k"
  by (rule change_inode [OF assms(4) stagedD(5) [OF assms(1) live_in assms(3)]]) (rule data_private [OF assms(1-3)])

definition opened :: "Endpoint \<Rightarrow> path \<Rightarrow> (Journal \<Rightarrow> bool) \<Rightarrow> path option \<Rightarrow> string \<Rightarrow> nat \<Rightarrow> disk \<Rightarrow> bool" where
  "opened E S F W B n d \<longleftrightarrow> staged E S F W B n d \<and> live d S \<noteq> None"

lemma stable_opened: "stable (spares S W) (opened E S F W B n)"
  using staged_change change_under [of S W _ S] by (auto simp: stable_def opened_def)

lemma opened_staged: "opened E S F W B n d \<Longrightarrow> staged E S F W B n d"
  by (simp add: opened_def)

text \<open>Names below the directory other than the journal.\<close>

lemma opened_new_inode:
  assumes op: "opened E S F W B n d" and p: "p \<noteq> []" "live d p = None" "\<not> prefix p S" "\<not> prefix p (state_of S)" "prefix S p"
    and D: "p = data_of S \<Longrightarrow> live d (state_of S) = None"
  shows "opened E S F W B n (new_inode p f d)"
proof -
  note st = opened_staged [OF op]
  have T: "\<not> prefix p T" if "W = Some T" for T
    using stagedD(7) [OF st live_in] p(5) that by (auto simp: beside_def dest: prefix_order.trans)
  have data: "\<not> prefix p (data_of S)" if "live d (state_of S) \<noteq> None"
    using p(3) D that by (auto simp: prefix_snoc)
  have "staged E S F W B n (new_inode p f d)"
    by (rule staged_new_image [OF st, where new = p])
      (use p D T data stagedD(5) [OF st live_in] in \<open>fastforce split: if_splits\<close>)+
  then show ?thesis using op p by (auto simp: opened_def)
qed

lemma create_stage_staged:
  assumes st: "staged E S F W B n d" and S: "S \<noteq> []"
  shows "staged E S F W B n (snd (create_dir S lim d))"
proof (cases "live d S = None")
  case True
  then have J: "live d (state_of S) = None" using stagedD(1) [OF st live_in] by (auto simp: image_ok_def)
  have "staged E S F W B n (new_inode S empty_dir d)"
    by (rule staged_new_image [OF st, where new = S]) (use S J stagedD(5) [OF st live_in] in \<open>fastforce split: if_splits\<close>)+
  then show ?thesis using st by (simp add: create_dir_def)
qed (use st S in \<open>simp add: create_dir_def\<close>)

lemma triple_open_lock:
  assumes "S \<noteq> []"
  shows "triple (spares S W) (opened E S F W B n) (open_regular (S @ [''lock'']) True True False) (\<lambda>_. opened E S F W B n) (staged E S F W B n)"
  unfolding open_regular_def
proof (rule triple_bnd)
  have "opened E S F W B n (snd (open_file (S @ [''lock'']) True True False lim d))" if "opened E S F W B n d" for lim d
    using that opened_new_inode [OF that, of "S @ [''lock'']"]
    by (auto simp: open_file_def split: option.split node_kind.split)
  then show "triple (spares S W) (opened E S F W B n) (io_call (open_file (S @ [''lock'']) True True False)) (\<lambda>_. opened E S F W B n) (staged E S F W B n)"
    by (intro triple_call stable_opened) (auto dest: opened_staged)
  show "triple (spares S W) (opened E S F W B n) (bnd (io_call (fstat i)) (\<lambda>f. if nd_kind f = Node_File then ret i
      else err (Fault_new ''TRANSFER_TYPE'' ''Only regular files can be transferred.'')))
    (\<lambda>_. opened E S F W B n) (staged E S F W B n)" for i
    by (rule triple_quiet_bnd [OF _ stable_opened])
      (auto intro!: quiet_rules triple_if triple_ret triple_err opened_staged simp del: ret_simp err_simp)
qed

lemma opened_same_content:
  "opened E S F W B n d \<Longrightarrow> same_content (dk_inodes d i) f \<Longrightarrow> opened E S F W B n (set_inode i f d)"
  by (simp add: opened_def staged_same_content)

definition loaded :: "Endpoint \<Rightarrow> path \<Rightarrow> Journal option \<Rightarrow> Journal \<times> bool \<Rightarrow> disk \<Rightarrow> bool" where
  "loaded E S initial r d \<longleftrightarrow>
    (if snd r then initial = Some (fst r) \<and> live d (state_of S) = None else has_journal E S (fst r) d)"

lemma triple_stage_load:
  "triple (spares S W) (opened E S F W B n) (stage_load E S initial) (\<lambda>r d. opened E S F W B n d \<and> loaded E S initial r d) (staged E S F W B n)"
  unfolding stage_load_def
proof (rule triple_bnd)
  let ?P = "\<lambda>m d. opened E S F W B n d \<and> (m = Inl Not_Found \<longrightarrow> live d (state_of S) = None)"
  have stP: "stable (spares S W) (?P m)" for m
    using stable_opened [of S W E F B n] change_under by (fastforce simp: stable_def)
  show "triple (spares S W) (opened E S F W B n) (syscall (lstat (state_of S))) ?P (staged E S F W B n)"
    by (rule triple_syscall [OF stable_opened]) (auto simp: lstat_def opened_def split: option.split)
  fix m :: "errno + nat \<times> inode"
  let ?Q = "\<lambda>i d. ?P m d \<and> live d (state_of S) = Some i"
  have stQ: "stable (spares S W) (?Q i)" for i
    using stP [of m] change_under by (fastforce simp: stable_def)
  have open_J: "triple (spares S W) (?P m) (open_regular (state_of S) False False False) ?Q (?P m)"
    by (rule triple_open_plain [OF stP stQ]) simp
  have caught: "triple (spares S W) (?P m) (catching (open_regular (state_of S) False False False))
      (\<lambda>r d. ?P m d \<and> (\<forall>i. r = Inr i \<longrightarrow> live d (state_of S) = Some i)) (staged E S F W B n)"
    by (rule triple_conseq [OF triple_catching [OF open_J]]) (auto dest: opened_staged split: sum.splits)
  show "triple (spares S W) (?P m) (let missing = m = Inl Not_Found; initialize = missing \<and> initial \<noteq> None in
      bnd (catching (open_regular (state_of S) False False False)) (\<lambda>r. case r of
        Inl e \<Rightarrow> if initialize then (case initial of None \<Rightarrow> err (transfer_missing ''Transfer checkpoint is unavailable.'') | Some j \<Rightarrow> ret (j, True))
          else if missing then err (transfer_missing ''Transfer initialization was interrupted.'') else err e
      | Inr i \<Rightarrow> bnd (io_call (read_file i)) (\<lambda>content. case ep_dec E (take 16384 content) of
          None \<Rightarrow> err (io_fault (Errno ''invalid journal'')) | Some j \<Rightarrow> ret (j, initialize))))
    (\<lambda>r d. opened E S F W B n d \<and> loaded E S initial r d) (staged E S F W B n)"
    unfolding Let_def
  proof (rule triple_bnd [OF caught], goal_cases)
    case (1 r)
    show ?case
    proof (cases r)
      case (Inl e)
      then show ?thesis
        by (auto intro!: triple_if triple_ret triple_err dest: opened_staged simp: loaded_def split: option.split
            simp del: ret_simp err_simp)
    next
      case (Inr i)
      have read: "triple (spares S W) (?Q i) (io_call (read_file i)) (\<lambda>content d. ?Q i d \<and> content = nd_bytes (dk_inodes d i)) (staged E S F W B n)"
        by (rule triple_call [OF stQ]) (auto simp: read_file_def dest: opened_staged)
      have "has_journal E S j d" if "?Q i d" "ep_dec E (take 16384 (nd_bytes (dk_inodes d i))) = Some j" for d j
        using that stagedD(1) [OF opened_staged live_in, of E S F W B n d]
        by (auto simp: has_journal_def image_ok_def journal_def split: if_splits)
      then show ?thesis unfolding Inr sum.case
        by (intro triple_conseq [OF triple_bnd [OF read], where P = "\<lambda>d. ?P m d \<and> (\<forall>l. Inr i = Inr l \<longrightarrow> live d (state_of S) = Some l)"])
          (auto intro!: triple_ret triple_err dest: opened_staged simp: loaded_def split: option.split simp del: ret_simp err_simp)
    qed
  qed
qed

section \<open>A new journal\<close>

definition data_is :: "path \<Rightarrow> nat \<Rightarrow> (inode \<Rightarrow> bool) \<Rightarrow> disk \<Rightarrow> bool" where
  "data_is S i R d \<longleftrightarrow> live d (data_of S) = Some i \<and> R (dk_inodes d i)"

text \<open>Nothing but an open directory without a journal.\<close>

definition unjournaled :: "Endpoint \<Rightarrow> path \<Rightarrow> (Journal \<Rightarrow> bool) \<Rightarrow> path option \<Rightarrow> string \<Rightarrow> nat \<Rightarrow> disk \<Rightarrow> bool" where
  "unjournaled E S F W B n d \<longleftrightarrow> opened E S F W B n d \<and> live d (state_of S) = None"

lemma stable_unjournaled: "stable (spares S W) (unjournaled E S F W B n)"
  using stable_opened [of S W E F B n] change_under by (fastforce simp: stable_def unjournaled_def)

lemma no_journal_images:
  assumes "staged E S F W B n d" "live d (state_of S) = None" "m \<in> im d"
  shows "m (state_of S) = None"
proof (rule ccontr)
  assume "m (state_of S) \<noteq> None"
  then obtain i where i: "m (state_of S) = Some i" by blast
  then obtain j where "journal E (dk_inodes d) i = Some j" using stagedD(1) [OF assms(1,3)] by (auto simp: image_ok_def)
  then show False using stagedD(2) [OF assms(1,3)] i assms(2) by (auto simp: behind_def)
qed

lemma stable_new_data: "stable (spares S W) (\<lambda>d. unjournaled E S F W B n d \<and> data_is S i R d)"
  unfolding stable_def
proof (intro allI impI, elim conjE)
  fix d c assume un: "unjournaled E S F W B n d" and da: "data_is S i R d" and c: "spares S W c"
  have "undigested E S (dk_inodes d) (live d)" using un by (simp add: undigested_def unjournaled_def)
  then have "dk_inodes (apply_change c d) i = dk_inodes d i"
    using un da by (intro data_change [OF _ _ _ c]) (auto simp: unjournaled_def opened_def data_is_def)
  then have "data_is S i R (apply_change c d)" using da change_under [OF c, of "data_of S" d] by (simp add: data_is_def)
  then show "unjournaled E S F W B n (apply_change c d) \<and> data_is S i R (apply_change c d)"
    using stable_unjournaled un c unfolding stable_def by blast
qed

lemma unjournaled_set_inode:
  assumes un: "unjournaled E S F W B n d"
  shows "unjournaled E S F W B n (set_inode i f d)"
proof -
  have "staged E S F W B n d" using un by (simp add: unjournaled_def opened_def)
  then have "staged E S F W B n (set_inode i f d)"
    using no_journal_images un unfolding unjournaled_def by (intro staged_set_inode) fastforce+
  then show ?thesis using un by (simp add: unjournaled_def opened_def)
qed

lemma triple_open_new_data:
  assumes S: "S \<noteq> []"
  shows "triple (spares S W) (unjournaled E S F W B n) (open_regular (data_of S) True True True)
    (\<lambda>i d. unjournaled E S F W B n d \<and> data_is S i (\<lambda>f. nd_kind f = Node_File) d) (staged E S F W B n)"
  unfolding open_regular_def
proof (rule triple_bnd)
  let ?R = "\<lambda>i d. unjournaled E S F W B n d \<and> data_is S i (\<lambda>_. True) d"
  have "unjournaled E S F W B n (snd (open_file (data_of S) True True True lim d))
      \<and> (\<forall>i. fst (open_file (data_of S) True True True lim d) = Inr i \<longrightarrow> ?R i (snd (open_file (data_of S) True True True lim d)))"
    if un: "unjournaled E S F W B n d" for d lim
  proof (rule open_file_writable_cases [of "data_of S" d True True True lim])
    assume "live d (data_of S) = None"
      "open_file (data_of S) True True True lim d = (Inr (dk_next d), new_inode (data_of S) empty_file d)"
    then show ?thesis using un opened_new_inode [of E S F W B n d "data_of S" empty_file]
      by (simp add: data_is_def unjournaled_def)
  next
    fix i assume "live d (data_of S) = Some i" "open_file (data_of S) True True True lim d
      = (Inr i, set_inode i ((dk_inodes d i)\<lparr> nd_bytes := [], nd_clean := False, nd_firm := 0 \<rparr>) d)"
    then show ?thesis using unjournaled_set_inode [OF un] by (simp add: data_is_def)
  qed (use un in \<open>auto simp: data_is_def\<close>)
  then show "triple (spares S W) (unjournaled E S F W B n) (io_call (open_file (data_of S) True True True)) ?R (staged E S F W B n)"
    by (intro triple_call stable_unjournaled) (auto simp: unjournaled_def opened_def)
  show "triple (spares S W) (?R i) (bnd (io_call (fstat i)) (\<lambda>f. if nd_kind f = Node_File then ret i
      else err (Fault_new ''TRANSFER_TYPE'' ''Only regular files can be transferred.'')))
    (\<lambda>i d. unjournaled E S F W B n d \<and> data_is S i (\<lambda>f. nd_kind f = Node_File) d) (staged E S F W B n)" for i
    by (rule triple_bnd [OF triple_fstat [OF stable_new_data]])
      (auto intro!: triple_if triple_ret triple_err simp: data_is_def unjournaled_def opened_def simp del: ret_simp err_simp)
qed

lemma saves_initial:
  assumes un: "unjournaled E S F W B n d" and data: "data_is S i (\<lambda>f. nd_kind f = Node_File) d"
    and j: "F j" "jn_offset j = 0" "jn_digest j = None"
  shows "saving E S F W B n j d"
proof -
  have st: "staged E S F W B n d" using un by (simp add: unjournaled_def opened_def)
  have "n = 0" using stagedD(1) [OF st live_in] un by (auto simp: image_ok_def unjournaled_def)
  then show ?thesis using st un data j
    by (auto simp: saves_def unjournaled_def opened_def data_is_def holds_prefix_def keeps_bytes_def kept_at_def)
qed

definition journaled :: "Endpoint \<Rightarrow> path \<Rightarrow> (Journal \<Rightarrow> bool) \<Rightarrow> path option \<Rightarrow> string \<Rightarrow> nat \<Rightarrow> Journal \<Rightarrow> disk \<Rightarrow> bool" where
  "journaled E S F W B n j d \<longleftrightarrow> staged E S F W B n d \<and> has_journal E S j d"

lemma stable_journaled: "stable (spares S W) (journaled E S F W B n j)"
  using stable_journal by (simp add: journaled_def [abs_def])

lemma journaled_staged: "journaled E S F W B n j d \<Longrightarrow> staged E S F W B n d"
  by (simp add: journaled_def)

lemma triple_initialize:
  assumes S: "S \<noteq> []" and fits: "ep_dec E (take 16384 (ep_enc E j)) = Some j" and j: "F j" "jn_offset j = 0" "jn_digest j = None"
    and st: "sg_dir st = S" "sg_journal st = j"
  shows "triple (spares S W) (unjournaled E S F W B n)
    (bnd (open_regular (data_of S) True True True) (\<lambda>i. thn (io_call (sync_file i)) (thn (stage_save E st)
      (thn (io_call nothing) (thn (io_call (sync_dir parent)) (ret st))))))
    (\<lambda>r d. journaled E S F W B n j d \<and> r = st) (staged E S F W B n)"
proof (rule triple_bnd [OF triple_open_new_data [OF S]])
  fix i
  let ?P = "\<lambda>d. unjournaled E S F W B n d \<and> data_is S i (\<lambda>f. nd_kind f = Node_File) d"
  let ?Q = "\<lambda>r d. journaled E S F W B n j d \<and> r = st"
  have sync: "triple (spares S W) ?P (io_call (sync_file i)) (\<lambda>_. saving E S F W B n j) (staged E S F W B n)"
  proof (rule triple_call [OF stable_new_data])
    fix d assume P: "?P d"
    then show "staged E S F W B n d" by (simp add: unjournaled_def opened_def)
    show "staged E S F W B n (snd (sync_file i lim d))" for lim
      using unjournaled_set_inode [OF conjunct1 [OF P]] by (simp add: sync_file_def unjournaled_def opened_def)
    have "?P (snd (sync_file i None d))"
      using unjournaled_set_inode [OF conjunct1 [OF P]] P by (simp add: sync_file_def data_is_def)
    then show "saving E S F W B n j (snd (sync_file i None d))" using saves_initial j by blast
  qed
  have dir: "triple (spares S W) (journaled E S F W B n j) (io_call (sync_dir parent)) (\<lambda>_. journaled E S F W B n j) (staged E S F W B n)"
  proof (rule triple_call [OF stable_journaled])
    fix d assume d: "journaled E S F W B n j d"
    then show "staged E S F W B n d" by (rule journaled_staged)
    show st: "staged E S F W B n (snd (sync_dir parent lim d))" for lim
      by (rule staged_fewer [OF journaled_staged [OF d] im_sync_dir(1)]) simp_all
    show "journaled E S F W B n j (snd (sync_dir parent None d))"
      using st d by (simp add: journaled_def has_journal_def)
  qed
  have save: "triple (spares S W) (saving E S F W B n j) (stage_save E st) (\<lambda>_. journaled E S F W B n j) (staged E S F W B n)"
    by (rule triple_conseq [OF triple_stage_save [OF fits st]]) (simp_all add: journaled_def)
  show "triple (spares S W) ?P (thn (io_call (sync_file i)) (thn (stage_save E st)
      (thn (io_call nothing) (thn (io_call (sync_dir parent)) (ret st))))) ?Q (staged E S F W B n)"
  proof (rule triple_thn [OF sync], rule triple_thn [OF save], rule triple_quiet_thn [OF _ stable_journaled])
    show "triple (spares S W) (journaled E S F W B n j) (thn (io_call (sync_dir parent)) (ret st)) ?Q (staged E S F W B n)"
      by (rule triple_thn [OF dir]) (simp add: triple_ret del: ret_simp)
  qed (auto intro!: quiet_rules dest: journaled_staged)
qed

text \<open>Opening the directory of a transfer, with a new journal or the one that is there.\<close>

lemma triple_ep_stage:
  assumes S: "stage_dir E p token = Some S"
    and init: "\<And>j. initial = Some j \<Longrightarrow> F j \<and> jn_offset j = 0 \<and> jn_digest j = None \<and> ep_dec E (take 16384 (ep_enc E j)) = Some j"
  shows "triple (spares S W) (staged E S F W B n) (ep_stage E p token initial)
    (\<lambda>st d. journaled E S F W B n (sg_journal st) d \<and> sg_dir st = S \<and> sg_parent st = butlast S) (staged E S F W B n)"
proof -
  obtain parts name where parts: "path_components p = Inr parts" "parts \<noteq> []" "stage_name E token = Inr name"
    and dir: "S = butlast parts @ [name]" using S by (rule stage_dirE)
  have S0: "S \<noteq> []" using dir by simp
  let ?Q = "\<lambda>st d. journaled E S F W B n (sg_journal st) d \<and> sg_dir st = S \<and> sg_parent st = butlast S"
  let ?I = "staged E S F W B n"
  have finish: "triple (spares S W) (\<lambda>d. opened E S F W B n d \<and> loaded E S initial r d) (stage_start E p (butlast parts) name r) ?Q ?I" for r
  proof (cases r)
    case (Pair j initialize)
    let ?st = "\<lparr> sg_parent = butlast parts, sg_name = name, sg_dir = S, sg_journal = j \<rparr>"
    show ?thesis
    proof (cases "jn_owner j \<noteq> ep_owner E \<or> jn_path j \<noteq> p")
      case True
      then show ?thesis by (simp add: stage_start_def Pair triple_def opened_def)
    next
      case mine: False
      show ?thesis
      proof (cases initialize)
        case False
        have "triple (spares S W) (\<lambda>d. opened E S F W B n d \<and> loaded E S initial r d) (ret ?st) ?Q ?I"
          by (rule triple_ret) (simp add: Pair False loaded_def journaled_def opened_def dir)
        then show ?thesis using mine False by (simp add: stage_start_def Pair dir Let_def del: ret_simp)
      next
        case True
        have start: "stage_start E p (butlast parts) name r =
          bnd (open_regular (data_of S) True True True) (\<lambda>i. thn (io_call (sync_file i)) (thn (stage_save E ?st)
            (thn (io_call nothing) (thn (io_call (sync_dir (butlast parts))) (ret ?st)))))"
          using mine True by (simp add: stage_start_def Pair dir Let_def)
        show ?thesis
        proof (cases "initial = Some j")
          case init_j: True
          have "triple (spares S W) (unjournaled E S F W B n) (stage_start E p (butlast parts) name r) ?Q ?I"
            unfolding start
            by (rule triple_conseq [OF triple_initialize [OF S0, where j = j]]) (use init [OF init_j] in \<open>simp_all add: dir\<close>)
          then show ?thesis
            by (rule triple_conseq) (simp_all add: Pair True loaded_def unjournaled_def)
        qed (simp add: Pair True loaded_def triple_def)
      qed
    qed
  qed
  have locked: "triple (spares S W) (opened E S F W B n) (stage_locked E p (butlast parts) name initial) ?Q ?I"
    unfolding stage_locked_def
  proof (rule triple_quiet_bnd [OF _ stable_opened])
    show "quiet (syscall nothing)" by (rule quiet_syscall) simp
    show "triple (spares S W) (opened E S F W B n) (if x \<noteq> Inr () then err (Fault_new ''TRANSFER_BUSY'' ''Another transfer owns this staging file.'')
        else bnd (stage_load E (butlast parts @ [name]) initial) (stage_start E p (butlast parts) name)) ?Q ?I" for x
      by (rule triple_if, rule triple_err, simp add: opened_staged)
        (unfold dir [symmetric], rule triple_bnd [OF triple_stage_load finish])
  qed (rule opened_staged)
  have mode: "triple (spares S W) (opened E S F W B n) (if created then io_call (set_dir_mode S 448) else ret ()) (\<lambda>_. opened E S F W B n) ?I" for created
  proof (cases created)
    case True
    have "opened E S F W B n (snd (set_dir_mode S 448 lim d))" if "opened E S F W B n d" for d lim
      using that opened_same_content [OF that same_content_meta(1)] S0
      by (cases "live d S") (simp_all add: set_dir_mode_def)
    then have "triple (spares S W) (opened E S F W B n) (io_call (set_dir_mode S 448)) (\<lambda>_. opened E S F W B n) ?I"
      by - (rule triple_call [OF stable_opened]; blast intro: opened_staged)
    then show ?thesis using True by simp
  qed (simp add: triple_ret del: ret_simp)
  have open_it: "triple (spares S W) ?I (io_call (open_dir S)) (\<lambda>_. opened E S F W B n) ?I"
    by (rule triple_call [OF stable_staged]) (auto simp: open_dir_def opened_def is_dir_def S0 split: option.splits if_splits)
  have create: "triple (spares S W) ?I (stage_create S initial) (\<lambda>_. ?I) ?I"
    unfolding stage_create_def
  proof (rule triple_if)
    have "triple (spares S W) ?I (syscall (create_dir S)) (\<lambda>_. ?I) ?I"
      by (rule triple_syscall [OF stable_staged]) (simp_all add: create_stage_staged S0)
    then show "triple (spares S W) ?I (bnd (syscall (create_dir S)) (\<lambda>r. case r of
        Inr _ \<Rightarrow> ret True | Inl Already_Exists \<Rightarrow> ret False | Inl e \<Rightarrow> err (io_fault e))) (\<lambda>_. ?I) ?I"
      by (rule triple_bnd) (auto intro!: triple_ret triple_err split: sum.split errno.split simp del: ret_simp err_simp)
  qed (simp add: triple_ret del: ret_simp)
  show ?thesis
    unfolding ep_stage_def
  proof (rule triple_bnd [OF triple_parent [OF parts(1,2) stable_staged]], assumption)
    fix r :: "path \<times> string"
    have "triple (spares S W) ?I (bnd (lift_result (stage_name E token)) (\<lambda>name.
      bnd (stage_create (butlast parts @ [name]) initial) (\<lambda>created.
      thn (io_call (open_dir (butlast parts @ [name])))
      (thn (if created then io_call (set_dir_mode (butlast parts @ [name]) 448) else ret ())
      (thn (open_regular (butlast parts @ [name] @ [''lock'']) True True False)
      (stage_locked E p (butlast parts) name initial)))))) ?Q ?I"
      using triple_bnd [OF create, of "\<lambda>created. thn (io_call (open_dir S)) (thn (if created then io_call (set_dir_mode S 448) else ret ())
        (thn (open_regular (S @ [''lock'']) True True False) (stage_locked E p (butlast parts) name initial)))" ?Q]
        triple_thn [OF open_it triple_thn [OF mode triple_thn [OF triple_open_lock [OF S0] locked]]]
      by (simp add: parts(3) lift_result_def dir cong: if_cong)
    then show "triple (spares S W) (\<lambda>d. ?I d \<and> r = (butlast parts, last parts)) (case r of (parent, _) \<Rightarrow>
      bnd (lift_result (stage_name E token)) (\<lambda>name.
      bnd (stage_create (parent @ [name]) initial) (\<lambda>created.
      thn (io_call (open_dir (parent @ [name])))
      (thn (if created then io_call (set_dir_mode (parent @ [name]) 448) else ret ())
      (thn (open_regular (parent @ [name] @ [''lock'']) True True False)
      (stage_locked E p parent name initial)))))) ?Q ?I"
      by (cases "r = (butlast parts, last parts)") (simp_all add: triple_def)
  qed
qed

end
