(* ===== verification/Transfer_Blocks.thy ===== *)
theory Transfer_Blocks
  imports Transfer_Recovery
begin

text \<open>
  Prepare, write and commit of one transfer keep the invariant of its staging directory, and a
  block that is acknowledged is on the disk.
\<close>

section \<open>The transfer\<close>

text \<open>The transfer of a source to a destination: the journals it may leave.\<close>

definition family :: "Endpoint \<Rightarrow> string \<Rightarrow> Stamp \<Rightarrow> Stamp option \<Rightarrow> string \<Rightarrow> Journal \<Rightarrow> bool" where
  "family E p source expected h j \<longleftrightarrow> jn_owner j = ep_owner E \<and> jn_path j = p \<and> jn_source j = source
    \<and> jn_expected j = expected \<and> jn_offset j \<le> sp_length source
    \<and> (case jn_digest j of None \<Rightarrow> True | Some h' \<Rightarrow> h' = h \<and> jn_offset j = sp_length source)"

definition journal_law :: "Endpoint \<Rightarrow> (Journal \<Rightarrow> bool) \<Rightarrow> bool" where
  "journal_law E F \<longleftrightarrow> (\<forall>j. F j \<longrightarrow> ep_dec E (take 16384 (ep_enc E j)) = Some j)"

lemma journaled_family:
  "journaled E S F W B n j d \<Longrightarrow> F j \<and> n \<le> jn_offset j"
  using stagedD(1) [OF _ live_in, of E S F W B n d] by (fastforce simp: journaled_def has_journal_def image_ok_def)

lemma triple_assume: "(\<And>d. P d \<Longrightarrow> triple A P m Q I) \<Longrightarrow> triple A P m Q I"
  unfolding triple_def by blast

section \<open>Staged data\<close>

lemma has_journal_undigested:
  "has_journal E S j d \<Longrightarrow> jn_digest j = None \<Longrightarrow> undigested E S (dk_inodes d) (live d)"
  by (auto simp: has_journal_def undigested_def)

lemma stable_data:
  assumes j: "jn_digest j = None"
  shows "stable (spares S W) (\<lambda>d. journaled E S F W B n j d \<and> data_is S i R d)"
  unfolding stable_def
proof (intro allI impI, elim conjE)
  fix d c assume jd: "journaled E S F W B n j d" and da: "data_is S i R d" and c: "spares S W c"
  have "dk_inodes (apply_change c d) i = dk_inodes d i"
    using jd da has_journal_undigested [OF _ j] by (intro data_change [OF _ _ _ c]) (auto simp: journaled_def data_is_def)
  then have "data_is S i R (apply_change c d)" using da change_under [OF c, of "data_of S" d] by (simp add: data_is_def)
  then show "journaled E S F W B n j (apply_change c d) \<and> data_is S i R (apply_change c d)"
    using stable_journaled jd c unfolding stable_def by blast
qed

lemma stable_data_name: "stable (spares S W) (\<lambda>d. journaled E S F W B n j d \<and> live d (data_of S) = Some i)"
  by (rule stable_conj [OF stable_journaled stable_name]) simp

lemma data_prefix:
  assumes "journaled E S F W B n j d" "jn_digest j = None" "live d (data_of S) = Some i"
  shows "holds_prefix B (jn_offset j) (dk_inodes d i)"
proof -
  obtain k where k: "live d (state_of S) = Some k" "journal E (dk_inodes d) k = Some j"
    using assms(1) by (auto simp: journaled_def has_journal_def)
  have "keeps_bytes W B (dk_inodes d) j (held E S W (dk_inodes d) (live d))"
    using stagedD(1) [OF journaled_staged [OF assms(1)] live_in] k by (auto simp: image_ok_def)
  moreover have "undigested E S (dk_inodes d) (live d)" using k assms(2) by (auto simp: undigested_def)
  ultimately show ?thesis using assms(2,3) by (simp add: keeps_bytes_def held_def kept_at_def)
qed

lemma holds_prefix_le: "holds_prefix B n f \<Longrightarrow> k \<le> n \<Longrightarrow> holds_prefix B k f"
  by (auto simp: holds_prefix_def min_def dest: arg_cong [where f = "take k"])

text \<open>A new content that keeps every prefix up to the offset of the live journal.\<close>

lemma journaled_set_data:
  assumes jd: "journaled E S F W B n j d" and i: "live d (data_of S) = Some i"
    and f: "\<And>k. k \<le> jn_offset j \<Longrightarrow> holds_prefix B k (dk_inodes d i) \<Longrightarrow> holds_prefix B k f"
  shows "journaled E S F W B n j (set_inode i f d)"
proof -
  have st: "staged E S F W B n d" and J: "has_journal E S j d" using jd by (simp_all add: journaled_def)
  have nJ: "m (state_of S) \<noteq> Some i" if "m \<in> im d" for m
    using stagedD(3) [OF st that live_in] i by (simp add: apart_def)
  have "staged E S F W B n (set_inode i f d)"
  proof (rule staged_set_inode [OF st])
    show "m (state_of S) \<noteq> Some i" if "m \<in> im d" for m by (rule nJ [OF that])
    fix m i' j' assume m: "m \<in> im d" "m (state_of S) = Some i'" "journal E (dk_inodes d) i' = Some j'"
      "holds_prefix B (jn_offset j') (dk_inodes d i)"
    have "jn_offset j' \<le> jn_offset j"
      using stagedD(2) [OF st m(1)] m(2,3) J by (auto simp: behind_def has_journal_def)
    then show "holds_prefix B (jn_offset j') f" using m(4) by (rule f)
  qed
  moreover have "has_journal E S j (set_inode i f d)"
  proof -
    obtain k where k: "live d (state_of S) = Some k" "journal E (dk_inodes d) k = Some j"
      using J by (auto simp: has_journal_def)
    have "journal E ((dk_inodes d)(i := f)) k = Some j" using k nJ [OF live_in] by (auto simp: journal_def split: if_splits)
    then show ?thesis using k(1) by (simp add: has_journal_def)
  qed
  ultimately show ?thesis by (simp add: journaled_def)
qed

lemma take_write_bytes: "k \<le> at \<Longrightarrow> k \<le> length old \<Longrightarrow> take k (write_bytes at bytes old) = take k old"
  by (simp add: write_bytes_def min_def)

lemma length_write_bytes: "at \<le> length old \<Longrightarrow> length (write_bytes at bytes old) = max (length old) (at + length bytes)"
  by (simp add: write_bytes_def)

lemma firm_le: "firm f \<le> length (nd_bytes f)"
  by (simp add: firm_def)

lemma holds_prefix_write:
  assumes "holds_prefix B k f" "k \<le> at" "at \<le> length (nd_bytes f)"
  shows "holds_prefix B k (f\<lparr> nd_bytes := write_bytes at bytes (nd_bytes f), nd_clean := False, nd_firm := min (firm f) at \<rparr>)"
  using assms firm_le [of f] by (auto simp: holds_prefix_def firm_def take_write_bytes length_write_bytes split: if_splits)

lemma holds_prefix_len:
  assumes "holds_prefix B k f" "k \<le> at"
  shows "holds_prefix B k (f\<lparr> nd_bytes := take at (nd_bytes f) @ replicate (at - length (nd_bytes f)) x,
    nd_clean := False, nd_firm := min (firm f) at \<rparr>)"
  using assms firm_le [of f] by (auto simp: holds_prefix_def firm_def split: if_splits)

text \<open>A whole block after the prefix.\<close>

lemma write_extends:
  assumes "holds_prefix B at f" "bytes = take (length bytes) (drop at B)"
  shows "take (at + length bytes) (write_bytes at bytes (nd_bytes f)) = take (at + length bytes) B"
proof -
  have "take at (nd_bytes f) = take at B" "at \<le> length (nd_bytes f)"
    using assms(1) firm_le [of f] by (auto simp: holds_prefix_def)
  moreover from this have "at \<le> length B" by (metis length_take min.absorb_iff2 min.commute)
  moreover have "take (at + length bytes) B = take at B @ bytes" using assms(2) by (simp add: take_add)
  ultimately show ?thesis by (simp add: write_bytes_def)
qed

section \<open>A block\<close>

lemma family_offset:
  "family E p source expected h j \<Longrightarrow> jn_digest j = None \<Longrightarrow> k \<le> sp_length source
    \<Longrightarrow> family E p source expected h (j\<lparr> jn_offset := k \<rparr>)"
  by (simp add: family_def)

lemma triple_ep_write:
  assumes F_def: "F = family E p source expected h" and S: "stage_dir E p token = Some S" and law: "journal_law E F"
    and block: "bytes = take (length bytes) (drop offset B)"
  shows "triple (spares S W) (staged E S F W B n) (ep_write E p token offset digest bytes)
    (\<lambda>r d. r = Reply_Ready (offset + length bytes) False \<and> n \<le> offset + length bytes
      \<and> staged E S F W B (offset + length bytes) d) (staged E S F W B n)"
  unfolding ep_write_def
proof (rule triple_bnd [OF triple_ep_stage [OF S]], simp, goal_cases)
  case (1 st)
  let ?j = "sg_journal st" and ?I = "staged E S F W B n"
  let ?J = "journaled E S F W B n ?j"
  let ?j' = "?j\<lparr> jn_offset := jn_offset ?j + length bytes \<rparr>"
  let ?Q = "\<lambda>r d. r = Reply_Ready (offset + length bytes) False \<and> n \<le> offset + length bytes
      \<and> staged E S F W B (offset + length bytes) d"
  show ?case
  proof (rule triple_assume, goal_cases)
    case (1 d)
    then have F: "F ?j" "n \<le> jn_offset ?j" and dir: "sg_dir st = S" using journaled_family by blast+
    show ?case
      unfolding Let_def
    proof (rule triple_if, goal_cases)
      case 1
      then show ?case by (intro triple_err) (simp add: journaled_def)
    next
      case 2
      then have at: "jn_offset ?j = offset" and len: "bytes \<noteq> []" "offset + length bytes \<le> sp_length (jn_source ?j)"
        by auto
      have none: "jn_digest ?j = None" using F len at by (auto simp: F_def family_def split: option.splits)
      have F': "F ?j'" using F len at none by (auto simp: F_def family_def)
      let ?D = "\<lambda>i R d. ?J d \<and> data_is S i R d"
      have data: "triple (spares S W) ?J (stage_data st) (\<lambda>i d. ?J d \<and> live d (data_of S) = Some i) ?J"
        unfolding stage_data_def dir by (rule triple_open_plain [OF stable_journaled stable_data_name]) simp
      have block_written: "triple (spares S W) (?D i (\<lambda>_. True)) (io_call (write_file i offset bytes))
          (\<lambda>_. ?D i (\<lambda>f. holds_prefix B 0 f \<and> take (offset + length bytes) (nd_bytes f) = take (offset + length bytes) B
            \<and> offset + length bytes \<le> length (nd_bytes f))) ?I" for i
      proof (rule triple_call [OF stable_data [OF none]])
        fix d assume d: "?D i (\<lambda>_. True) d"
        then have i: "live d (data_of S) = Some i" by (simp add: data_is_def)
        have pre: "holds_prefix B offset (dk_inodes d i)" using data_prefix [OF conjunct1 [OF d] none i] at by simp
        have offset_le: "offset \<le> length (nd_bytes (dk_inodes d i))" using pre firm_le [of "dk_inodes d i"] by (simp add: holds_prefix_def)
        have keep: "?J (snd (write_file i offset bytes lim d))" for lim
          using journaled_set_data [OF conjunct1 [OF d] i holds_prefix_write [OF _ _ offset_le]] d at
          by (auto simp: write_file_def Let_def)
        then show "?I (snd (write_file i offset bytes lim d))" for lim by (simp add: journaled_def)
        have "snd (write_file i offset bytes None d) = set_inode i ((dk_inodes d i)\<lparr> nd_bytes := write_bytes offset bytes
            (nd_bytes (dk_inodes d i)), nd_clean := False, nd_firm := min (firm (dk_inodes d i)) offset \<rparr>) d"
          using len(1) by (simp add: write_file_def Let_def)
        then show "?D i (\<lambda>f. holds_prefix B 0 f \<and> take (offset + length bytes) (nd_bytes f) = take (offset + length bytes) B
            \<and> offset + length bytes \<le> length (nd_bytes f)) (snd (write_file i offset bytes None d))"
          using keep [of None] i write_extends [OF pre block] pre offset_le
          by (simp add: data_is_def holds_prefix_def length_write_bytes)
      qed (simp add: journaled_def)
      have synced: "triple (spares S W) (?D i (\<lambda>f. holds_prefix B 0 f \<and> take (offset + length bytes) (nd_bytes f) = take (offset + length bytes) B
            \<and> offset + length bytes \<le> length (nd_bytes f))) (io_call (sync_file i)) (\<lambda>_. saving E S F W B n ?j') ?I" for i
      proof (rule triple_call [OF stable_data [OF none]])
        fix d assume d: "?D i (\<lambda>f. holds_prefix B 0 f \<and> take (offset + length bytes) (nd_bytes f) = take (offset + length bytes) B
            \<and> offset + length bytes \<le> length (nd_bytes f)) d"
        have st: "?I d" and J: "has_journal E S ?j d" using d by (simp_all add: journaled_def)
        have st': "?I (set_inode i ((dk_inodes d i)\<lparr> nd_clean := True \<rparr>) d)"
          by (rule staged_same_content [OF st same_content_sync])
        then show "?I (snd (sync_file i lim d))" for lim by (simp add: sync_file_def)
        have J': "has_journal E S ?j (set_inode i ((dk_inodes d i)\<lparr> nd_clean := True \<rparr>) d)"
          by (rule has_journal_same_content [OF J same_content_sync])
        have "live d S \<noteq> None" using stagedD(1) [OF st live_in] J by (auto simp: image_ok_def has_journal_def)
        then show "saving E S F W B n ?j' (snd (sync_file i None d))"
          using st' J' d F' F(2) none at
          by (auto simp: sync_file_def saves_def has_journal_def data_is_def holds_prefix_def firm_def keeps_bytes_def kept_at_def)
      qed (simp add: journaled_def)
      have saved: "triple (spares S W) (saving E S F W B n ?j') (thn (stage_save E (st\<lparr> sg_journal := ?j' \<rparr>))
          (ret (Reply_Ready (jn_offset (sg_journal (st\<lparr> sg_journal := ?j' \<rparr>))) False))) ?Q ?I"
      proof (rule triple_thn [OF triple_stage_save])
        show "ep_dec E (take 16384 (ep_enc E ?j')) = Some ?j'" using law F' by (simp add: journal_law_def)
        show "triple (spares S W) (\<lambda>d. ?I d \<and> has_journal E S ?j' d \<and> one_journal S d)
          (ret (Reply_Ready (jn_offset (sg_journal (st\<lparr> sg_journal := ?j' \<rparr>))) False)) ?Q ?I"
          using staged_raise [of E S F W B n _ ?j'] at F(2) by (intro triple_ret) auto
      qed (simp_all add: dir)
      let ?rest = "\<lambda>i. thn (io_call nothing) (thn (io_call (write_file i offset bytes))
          (thn (io_call (sync_file i)) (thn (stage_save E (st\<lparr> sg_journal := ?j' \<rparr>))
          (ret (Reply_Ready (jn_offset (sg_journal (st\<lparr> sg_journal := ?j' \<rparr>))) False)))))"
      have rest: "triple (spares S W) (?D i (\<lambda>_. True)) (?rest i) ?Q ?I" for i
        by (rule triple_quiet_thn [OF _ stable_data [OF none] _ triple_thn [OF block_written triple_thn [OF synced saved]]])
          (auto intro!: quiet_rules simp: journaled_def)
      have "triple (spares S W) ?J (bnd (stage_data st) ?rest) ?Q ?I"
      proof (rule triple_bnd)
        show "triple (spares S W) ?J (stage_data st) (\<lambda>i. ?D i (\<lambda>_. True)) ?I"
          by (rule triple_conseq [OF data]) (simp_all add: journaled_def data_is_def)
      qed (rule rest)
      then show ?case by (rule triple_conseq) simp_all
    qed
  qed
qed

section \<open>Commit marks\<close>

lemma journaled_same_content:
  "journaled E S F W B n j d \<Longrightarrow> same_content (dk_inodes d i) f \<Longrightarrow> journaled E S F W B n j (set_inode i f d)"
  by (simp add: journaled_def staged_same_content has_journal_same_content)

lemma saving_digest:
  assumes jd: "journaled E S F W B n j d" and j': "F j'" "jn_offset j' = jn_offset j" "jn_digest j' \<noteq> None"
  shows "saving E S F W B n j' d"
proof -
  have st: "staged E S F W B n d" and J: "has_journal E S j d" using jd by (simp_all add: journaled_def)
  obtain k where k: "live d (state_of S) = Some k" "journal E (dk_inodes d) k = Some j" using J by (auto simp: has_journal_def)
  have ok: "live d S \<noteq> None" "keeps_bytes W B (dk_inodes d) j (held E S W (dk_inodes d) (live d))"
    using stagedD(1) [OF st live_in] k by (auto simp: image_ok_def)
  have "undigested E S (dk_inodes d) (live d) \<longleftrightarrow> jn_digest j = None" using k by (auto simp: undigested_def)
  then have "keeps_bytes W B (dk_inodes d) j' (kept_at S W True (live d))"
    using ok(2) j'(2,3) by (auto simp: keeps_bytes_def held_def kept_at_def split: if_splits)
  then show ?thesis using st k ok(1) j' journaled_family [OF jd] by (auto simp: saves_def)
qed

lemma triple_save_digest:
  assumes law: "journal_law E F" and j': "F j'" "jn_offset j' = jn_offset j" "jn_digest j' \<noteq> None"
    and st: "sg_dir st = S" "sg_journal st = j'"
  shows "triple (spares S W) (journaled E S F W B n j) (stage_save E st)
    (\<lambda>_ d. journaled E S F W B n j' d \<and> one_journal S d) (staged E S F W B n)"
proof (rule triple_conseq [OF triple_stage_save [OF _ st]])
  show "ep_dec E (take 16384 (ep_enc E j')) = Some j'" using law j'(1) by (simp add: journal_law_def)
qed (use saving_digest j' in \<open>simp_all add: journaled_def\<close>)

lemma triple_reconcile:
  assumes law: "journal_law E F" and st: "sg_dir st = S" "jn_digest (sg_journal st) \<noteq> None"
    and F: "F ((sg_journal st)\<lparr> jn_committed := True \<rparr>)"
  shows "triple (spares S W) (journaled E S F W B n (sg_journal st)) (ep_reconcile E st)
    (\<lambda>st' d. journaled E S F W B n (sg_journal st') d \<and> st' = st\<lparr> sg_journal := (sg_journal st)\<lparr> jn_committed := True \<rparr> \<rparr>)
    (staged E S F W B n)"
proof -
  let ?j = "(sg_journal st)\<lparr> jn_committed := True \<rparr>"
  let ?st = "st\<lparr> sg_journal := ?j \<rparr>"
  let ?J = "journaled E S F W B n (sg_journal st)"
  let ?Q = "\<lambda>st' d. journaled E S F W B n (sg_journal st') d \<and> st' = ?st"
  have save: "triple (spares S W) ?J (thn (stage_save E ?st) (ret ?st)) ?Q (staged E S F W B n)"
    by (rule triple_thn [OF triple_save_digest [OF law F, where j = "sg_journal st"]])
      (auto simp: st intro!: triple_ret simp del: ret_simp)
  have changed: "triple (spares S W) ?J (bnd m (\<lambda>changed. if changed then err f else thn (stage_save E ?st) (ret ?st))) ?Q (staged E S F W B n)"
    if "quiet m" for m f
    by (rule triple_quiet_bnd [OF that stable_journaled])
      (auto intro!: triple_if triple_err save journaled_staged simp del: err_simp)
  show ?thesis
    unfolding ep_reconcile_def Let_def
    by (rule triple_quiet_bnd [OF _ stable_journaled])
      (auto intro!: quiet_rules triple_err changed journaled_staged simp del: err_simp split: option.split)
qed

lemma triple_metadata:
  "triple (spares S W) (journaled E S F W B n j) (set_metadata i m) (\<lambda>_. journaled E S F W B n j) (staged E S F W B n)"
proof -
  let ?J = "journaled E S F W B n j"
  have same: "triple (spares S W) ?J (io_call c) (\<lambda>_. ?J) (staged E S F W B n)"
    if c: "\<And>d lim. \<exists>f. same_content (dk_inodes d i) f \<and> snd (c lim d) = set_inode i f d" for c :: "unit syscall"
  proof -
    have "?J (snd (c lim d))" if d: "?J d" for d lim
      using journaled_same_content [OF d] c [of d lim] by metis
    then show ?thesis by - (rule triple_call [OF stable_journaled]; blast intro: journaled_staged)
  qed
  have calls: "triple (spares S W) ?J (io_call (set_mode i x)) (\<lambda>_. ?J) (staged E S F W B n)"
    "triple (spares S W) ?J (io_call (set_times i y)) (\<lambda>_. ?J) (staged E S F W B n)"
    "triple (spares S W) ?J (io_call (sync_file i)) (\<lambda>_. ?J) (staged E S F W B n)" for x y
    unfolding set_mode_def set_times_def sync_file_def
    by (rule same, unfold snd_conv, blast intro: same_content_meta same_content_sync)+
  show ?thesis unfolding set_metadata_def by (rule triple_thn [OF calls(1) triple_thn [OF calls(2,3)]])
qed

section \<open>Prepare\<close>

lemma triple_truncate:
  assumes "sg_dir st = S"
  shows "triple (spares S W) (journaled E S F W B n j) (bnd (stage_data st) (\<lambda>i. io_call (set_len i (jn_offset j))))
    (\<lambda>_. journaled E S F W B n j) (staged E S F W B n)"
proof (rule triple_bnd)
  let ?J = "journaled E S F W B n j"
  show "triple (spares S W) ?J (stage_data st) (\<lambda>i d. ?J d \<and> live d (data_of S) = Some i) (staged E S F W B n)"
    unfolding stage_data_def assms
    by (rule triple_conseq [OF triple_open_plain [OF stable_journaled stable_data_name]]) (auto dest: journaled_staged)
  show "triple (spares S W) (\<lambda>d. ?J d \<and> live d (data_of S) = Some i) (io_call (set_len i (jn_offset j)))
    (\<lambda>_. ?J) (staged E S F W B n)" for i
  proof (rule triple_call [OF stable_data_name])
    fix d assume d: "?J d \<and> live d (data_of S) = Some i"
    then show "staged E S F W B n d" by (simp add: journaled_def)
    have J: "?J (snd (set_len i (jn_offset j) lim d))" for lim
      using journaled_set_data [OF conjunct1 [OF d] conjunct2 [OF d] holds_prefix_len] by (simp add: set_len_def Let_def)
    then show "?J (snd (set_len i (jn_offset j) None d))" "staged E S F W B n (snd (set_len i (jn_offset j) lim d))" for lim
      using journaled_staged [OF J] by blast+
  qed
qed

lemma family_committed: "family E p source expected h (j\<lparr> jn_committed := c \<rparr>) = family E p source expected h j"
  by (simp add: family_def split: option.split)

lemma triple_prepare_resume:
  assumes st: "sg_dir st = S"
  shows "triple (spares S W) (journaled E S F W B n (sg_journal st)) (prepare_resume p expected st)
    (\<lambda>r d. (\<exists>k c. r = Reply_Ready k c \<and> n \<le> k) \<and> staged E S F W B n d) (staged E S F W B n)"
  unfolding prepare_resume_def Let_def
proof (rule triple_quiet_thn [OF _ stable_journaled])
  let ?J = "journaled E S F W B n (sg_journal st)" and ?I = "staged E S F W B n"
  have size: "triple (spares S W) ?J (if length (nd_bytes f) < jn_offset (sg_journal st) then err x
      else if length (nd_bytes f) > jn_offset (sg_journal st)
        then bnd (stage_data st) (\<lambda>i. io_call (set_len i (jn_offset (sg_journal st)))) else ret ()) (\<lambda>_. ?J) ?I" for f x
    by (intro triple_if triple_err triple_truncate [OF st] triple_ret) (auto dest: journaled_staged)
  have sized: "triple (spares S W) ?J (bnd (io_call (fstat i)) (\<lambda>f.
      if length (nd_bytes f) < jn_offset (sg_journal st) then err x
      else if length (nd_bytes f) > jn_offset (sg_journal st)
        then bnd (stage_data st) (\<lambda>i. io_call (set_len i (jn_offset (sg_journal st)))) else ret ())) (\<lambda>_. ?J) ?I" for i x
    by (rule triple_quiet_bnd [OF _ stable_journaled _ size]) (auto intro!: quiet_rules dest: journaled_staged)
  show "triple (spares S W) ?J (thn (if jn_committed (sg_journal st) then ret ()
      else bnd (open_regular (sg_dir st @ [''data'']) False False False) (\<lambda>i. bnd (io_call (fstat i)) (\<lambda>f.
        if length (nd_bytes f) < jn_offset (sg_journal st)
          then err (Fault_new ''TRANSFER_CHECKPOINT'' ''Staged file is shorter than its durable checkpoint.'')
        else if length (nd_bytes f) > jn_offset (sg_journal st)
          then bnd (stage_data st) (\<lambda>i. io_call (set_len i (jn_offset (sg_journal st)))) else ret ())))
    (ret (Reply_Ready (jn_offset (sg_journal st)) (jn_committed (sg_journal st)))))
    (\<lambda>r d. (\<exists>k c. r = Reply_Ready k c \<and> n \<le> k) \<and> ?I d) ?I"
  proof (rule triple_thn)
    show "triple (spares S W) ?J (if jn_committed (sg_journal st) then ret ()
      else bnd (open_regular (sg_dir st @ [''data'']) False False False) (\<lambda>i. bnd (io_call (fstat i)) (\<lambda>f.
        if length (nd_bytes f) < jn_offset (sg_journal st)
          then err (Fault_new ''TRANSFER_CHECKPOINT'' ''Staged file is shorter than its durable checkpoint.'')
        else if length (nd_bytes f) > jn_offset (sg_journal st)
          then bnd (stage_data st) (\<lambda>i. io_call (set_len i (jn_offset (sg_journal st)))) else ret ()))) (\<lambda>_. ?J) ?I"
      by (intro triple_if triple_ret triple_quiet_bnd [OF quiet_regular stable_journaled _ sized]) (auto dest: journaled_staged)
    show "triple (spares S W) ?J (ret (Reply_Ready (jn_offset (sg_journal st)) (jn_committed (sg_journal st))))
      (\<lambda>r d. (\<exists>k c. r = Reply_Ready k c \<and> n \<le> k) \<and> ?I d) ?I"
      using journaled_family by (intro triple_ret) (auto dest: journaled_staged)
  qed
qed (auto intro!: quiet_rules dest: journaled_staged)

lemma triple_prepare_reconcile:
  assumes law: "journal_law E F" and st: "sg_dir st = S" and F: "F ((sg_journal st)\<lparr> jn_committed := True \<rparr>)"
  shows "triple (spares S W) (journaled E S F W B n (sg_journal st)) (prepare_reconcile E st)
    (\<lambda>st' d. journaled E S F W B n (sg_journal st') d \<and> sg_dir st' = S) (staged E S F W B n)"
proof -
  have "triple (spares S W) (journaled E S F W B n (sg_journal st)) (ep_reconcile E st)
      (\<lambda>st' d. journaled E S F W B n (sg_journal st') d \<and> sg_dir st' = S) (staged E S F W B n)"
    if "jn_digest (sg_journal st) \<noteq> None"
    by (rule triple_conseq [OF triple_reconcile [OF law st that F]]) (auto simp: st)
  then show ?thesis
    unfolding prepare_reconcile_def using st
    by (auto intro!: triple_ret triple_quiet_bnd [OF quiet_missing stable_journaled] dest: journaled_staged simp del: ret_simp)
qed

lemma triple_ep_prepare:
  assumes F_def: "F = family E p source expected h" and S: "stage_dir E p token = Some S" and law: "journal_law E F"
  shows "triple (spares S W) (staged E S F W B n) (ep_prepare E p token source expected)
    (\<lambda>r d. (\<exists>k c. r = Reply_Ready k c \<and> n \<le> k) \<and> staged E S F W B n d) (staged E S F W B n)"
  unfolding ep_prepare_def
proof (rule triple_if, rule triple_err, assumption, rule triple_bnd [OF triple_ep_stage [OF S]], goal_cases)
  case (1 j)
  then show ?case using law by (auto simp: journal_law_def F_def family_def)
next
  case (2 st)
  let ?J = "\<lambda>d. journaled E S F W B n (sg_journal st) d \<and> sg_dir st = S \<and> sg_parent st = butlast S"
  let ?Q = "\<lambda>r d. (\<exists>k c. r = Reply_Ready k c \<and> n \<le> k) \<and> staged E S F W B n d"
  have "triple (spares S W) ?J (bnd (prepare_reconcile E st) (prepare_resume p expected)) ?Q (staged E S F W B n)"
  proof (rule triple_assume, elim conjE, rule triple_bnd)
    fix d assume d: "journaled E S F W B n (sg_journal st) d" "sg_dir st = S"
    then have "F ((sg_journal st)\<lparr> jn_committed := True \<rparr>)" using journaled_family [OF d(1)] by (simp add: F_def family_committed)
    then show "triple (spares S W) ?J (prepare_reconcile E st)
      (\<lambda>st' d. journaled E S F W B n (sg_journal st') d \<and> sg_dir st' = S) (staged E S F W B n)"
      by (rule triple_conseq [OF triple_prepare_reconcile [OF law d(2)]]) simp_all
    show "triple (spares S W) (\<lambda>d. journaled E S F W B n (sg_journal st') d \<and> sg_dir st' = S) (prepare_resume p expected st') ?Q
      (staged E S F W B n)" for st'
      by (rule triple_assume, elim conjE, rule triple_conseq [OF triple_prepare_resume]) simp_all
  qed
  then show ?case by (intro triple_if triple_err) (auto dest: journaled_staged)
qed

section \<open>Commit\<close>

text \<open>The staged file gets the name of the destination.\<close>

lemma staged_publish:
  assumes jd: "journaled E S F W B n j d" and one: "one_journal S d" and h: "jn_digest j \<noteq> None"
    and i: "live d (data_of S) = Some i" and T: "T \<noteq> []" "\<not> prefix T S" "\<not> prefix S T"
    and W: "W = None \<or> W = Some T"
    and d': "d' = set_names ((T, i) # without T (without (data_of S) (dk_names d))) d"
  shows "journaled E S F W B n j d'"
proof -
  have st: "staged E S F W B n d" and J: "has_journal E S j d" using jd by (simp_all add: journaled_def)
  note I = stagedD [OF st]
  have live': "live d' q = (if q = T then Some i else if prefix T q \<or> prefix (data_of S) q then None else live d q)" for q
    by (simp add: d' map_of_without)
  have under: "\<not> prefix T (S @ [x])" "S @ [x] \<noteq> T" "S \<noteq> T" for x using T by auto
  have at: "live d' (state_of S) = live d (state_of S)" "live d' (next_of S) = live d (next_of S)"
    "live d' (data_of S) = None" "live d' S = live d S"
    using under T by (auto simp: live')
  have im: "im d' = insert (live d') (im d)" by (simp add: d' im_set_names)
  have nodes: "dk_inodes d' = dk_inodes d" "dk_next d' = dk_next d" by (simp_all add: d')
  obtain k where k: "live d (state_of S) = Some k" "journal E (dk_inodes d) k = Some j"
    using J by (auto simp: has_journal_def)
  have state: "m (state_of S) = Some k" if "m \<in> im d'" for m
    using that one k(1) im at(1) by (auto simp: one_journal_def)
  have digested: "\<not> undigested E S (dk_inodes d) m" if "m \<in> im d'" for m
    using state [OF that] k(2) h by (auto simp: undigested_def)
  have sub: "live d' p = Some l \<Longrightarrow> live d p = Some l \<or> (p = T \<and> l = i)" for p l
    by (auto simp: live' split: if_splits)
  have und: "undigested E S (dk_inodes d) (live d') = undigested E S (dk_inodes d) (live d)"
    by (simp add: undigested_def at)
  have held': "held E S W (dk_inodes d) (live d') = held E S W (dk_inodes d) (live d)"
    using W i T digested [of "live d'"] und by (auto simp: held_def kept_at_def at live')
  have "staged E S F W B n d'"
  proof (rule stagedI; (unfold nodes)?)
    show "beside S W" by (rule I(7) [OF live_in])
    fix m assume m': "m \<in> im d'"
    then have m: "m = live d' \<or> m \<in> im d" using im by auto
    show "m p = Some l \<Longrightarrow> l < dk_next d" for p l
      using m sub [of p l] I(5) [OF live_in] I(5) [of m] i by blast
    show "live d' (next_of S) = Some l \<Longrightarrow> m (state_of S) \<noteq> Some l" for l
      using I(4) [OF live_in] state [OF m'] k(1) by (simp add: at)
    show "m (next_of S) = Some l \<Longrightarrow> m (state_of S) \<noteq> Some l" for l
      using m I(6) [OF live_in] I(6) [of m] by (auto simp: at)
    show "image_ok E S F W B n (dk_inodes d) m"
    proof (cases "m = live d'")
      case True
      then show ?thesis using I(1) [OF live_in] held' by (simp add: image_ok_def at)
    qed (use m I(1) [of m] in blast)
    show "behind E S (dk_inodes d) m (live d')"
      using state [OF m'] k by (auto simp: behind_def at)
    fix y assume y': "y \<in> im d'"
    then have y: "y = live d' \<or> y \<in> im d" using im by auto
    have ap: "apart E S W (dk_inodes d) a b" if "a \<in> im d" "b \<in> im d" for a b by (rule I(3) [OF that])
    have "\<exists>a\<in>im d. a (state_of S) = m (state_of S) \<and> a (next_of S) = m (next_of S) \<and> (\<forall>p l. m p = Some l \<longrightarrow> a p = Some l \<or> (p = T \<and> l = i))"
    proof (cases "m = live d'")
      case True
      then show ?thesis using sub at by (intro bexI [of _ "live d"]) simp_all
    qed (use m in blast)
    then obtain a where a: "a \<in> im d" "a (state_of S) = m (state_of S)" "a (next_of S) = m (next_of S)"
      "\<And>p l. m p = Some l \<Longrightarrow> a p = Some l \<or> (p = T \<and> l = i)" by blast
    have "\<exists>b\<in>im d. b (state_of S) = y (state_of S) \<and> b (next_of S) = y (next_of S)
      \<and> (\<forall>l. y (data_of S) = Some l \<longrightarrow> b (data_of S) = Some l) \<and> held E S W (dk_inodes d) b = held E S W (dk_inodes d) y"
    proof (cases "y = live d'")
      case True
      then show ?thesis using at held' by (intro bexI [of _ "live d"]) simp_all
    qed (use y in blast)
    then obtain b where b: "b \<in> im d" "b (state_of S) = y (state_of S)" "b (next_of S) = y (next_of S)"
      "\<And>l. y (data_of S) = Some l \<Longrightarrow> b (data_of S) = Some l" "held E S W (dk_inodes d) b = held E S W (dk_inodes d) y" by blast
    show "apart E S W (dk_inodes d) m y"
      unfolding apart_def
    proof (intro conjI allI impI)
      fix l assume l: "y (data_of S) = Some l"
      show "m (state_of S) \<noteq> Some l" "m (next_of S) \<noteq> Some l"
        using ap [OF a(1) b(1)] b(4) [OF l] a(2,3) by (auto simp: apart_def)
    next
      fix p l assume p: "\<not> prefix S p" "m p = Some l"
      have "b (state_of S) \<noteq> Some l \<and> b (next_of S) \<noteq> Some l"
      proof (cases "a p = Some l")
        case True
        then show ?thesis using ap [OF a(1) b(1)] p(1) by (auto simp: apart_def)
      next
        case False
        then have "l = i" using a(4) [OF p(2)] by blast
        then show ?thesis using ap [OF b(1) live_in] i by (simp add: apart_def)
      qed
      then show "y (state_of S) \<noteq> Some l" "y (next_of S) \<noteq> Some l" by (simp_all add: b)
      assume h: "held E S W (dk_inodes d) y = Some l"
      show "\<not> undigested E S (dk_inodes d) y" by (rule digested [OF y'])
      show "W = Some p"
      proof (cases "a p = Some l")
        case True
        then show ?thesis using ap [OF a(1) b(1)] b(5) h p(1) by (auto simp: apart_def)
      next
        case False
        then have "p = T" using a(4) [OF p(2)] by blast
        moreover have "W \<noteq> None" using h digested [OF y'] by (auto simp: held_def kept_at_def split: option.splits)
        ultimately show ?thesis using W by blast
      qed
    qed
  qed
  moreover have "has_journal E S j d'" using J by (simp add: has_journal_def at nodes)
  ultimately show ?thesis by (simp add: journaled_def)
qed

text \<open>The destination is beside the staging directory.\<close>

lemma stage_target:
  assumes "stage_dir E p token = Some S" "path_components p = Inr T" "T \<noteq> S"
  shows "T \<noteq> []" "butlast S = butlast T" "butlast S @ [last T] = T" "\<not> prefix T S" "\<not> prefix S T"
proof -
  obtain name where T: "T \<noteq> []" and S: "S = butlast T @ [name]"
    using assms(1,2) by (auto elim!: stage_dirE)
  show "T \<noteq> []" "butlast S = butlast T" "butlast S @ [last T] = T" using T S by simp_all
  have "length S = length T" using T S by simp
  then show "\<not> prefix T S" "\<not> prefix S T"
    using assms(3) by (auto simp: prefix_def)
qed

lemma triple_publish:
  assumes law: "journal_law E F" and S: "stage_dir E p token = Some S" "path_components p = Inr T" "T \<noteq> S"
    and W: "W = None \<or> W = Some T"
    and st: "sg_dir st = S" "sg_parent st = butlast S"
    and F: "F ((sg_journal st)\<lparr> jn_digest := Some h \<rparr>)" "F ((sg_journal st)\<lparr> jn_digest := Some h, jn_committed := True \<rparr>)"
  shows "triple (spares S W) (journaled E S F W B n (sg_journal st)) (ep_publish E st p h)
    (\<lambda>r d. r = Reply_Done \<and> staged E S F W B n d) (staged E S F W B n)"
proof -
  let ?j = "(sg_journal st)\<lparr> jn_digest := Some h \<rparr>" and ?I = "staged E S F W B n"
  let ?Q = "\<lambda>r d. r = Reply_Done \<and> ?I d"
  let ?O = "\<lambda>d. journaled E S F W B n ?j d \<and> one_journal S d"
  note T = stage_target [OF S]
  have stO: "stable (spares S W) ?O" by (rule stable_conj [OF stable_journaled stable_one])
  have J: "?O d \<Longrightarrow> ?I d" "journaled E S F W B n ?j d \<Longrightarrow> ?I d" for d by (simp_all add: journaled_def)
  have moved: "triple (spares S W) ?O (io_call (rename (data_of S) T b)) (\<lambda>_. journaled E S F W B n ?j) ?I" for b
  proof -
    have "journaled E S F W B n ?j (snd (rename (data_of S) T b lim d))" if d: "?O d" for d lim
    proof (cases "live d (data_of S)")
      case (Some i)
      show ?thesis
        using d staged_publish [OF conjunct1 [OF d] conjunct2 [OF d] _ Some T(1,4,5) W refl] T(1) Some
        by (simp add: rename_def)
    qed (use d in \<open>simp add: rename_def\<close>)
    then show ?thesis by - (rule triple_call [OF stO]; blast intro: J)
  qed
  have dir: "triple (spares S W) (journaled E S F W B n ?j) (io_call (sync_dir q)) (\<lambda>_. journaled E S F W B n ?j) ?I" for q
  proof -
    have "journaled E S F W B n ?j (snd (sync_dir q lim d))" if d: "journaled E S F W B n ?j d" for d lim
      using staged_fewer [OF J(2) [OF d] im_sync_dir(1) [of q lim d]] d by (simp add: journaled_def has_journal_def)
    then show ?thesis by - (rule triple_call [OF stable_journaled]; blast intro: J)
  qed
  have marked: "triple (spares S W) (journaled E S F W B n ?j)
      (thn (stage_save E (st\<lparr> sg_journal := ?j\<lparr> jn_committed := True \<rparr> \<rparr>)) (ret Reply_Done)) ?Q ?I"
    by (rule triple_thn [OF triple_save_digest [OF law, where j = ?j]])
      (use F(2) in \<open>auto simp: st journaled_def intro!: triple_ret simp del: ret_simp\<close>)
  have rest: "triple (spares S W) ?O (thn (io_call (rename (data_of S) T b)) (thn (io_call nothing) (thn (io_call (sync_dir q))
      (thn (stage_save E (st\<lparr> sg_journal := ?j\<lparr> jn_committed := True \<rparr> \<rparr>)) (ret Reply_Done))))) ?Q ?I" for b q
    by (rule triple_thn [OF moved triple_quiet_thn [OF _ stable_journaled _ triple_thn [OF dir marked]]])
      (auto intro!: quiet_rules J)
  have stat: "triple (spares S W) ?O (bnd (ep_stat p) (\<lambda>m. if m \<noteq> e then err x else
      thn (io_call (rename (data_of S) T b)) (thn (io_call nothing) (thn (io_call (sync_dir q))
      (thn (stage_save E (st\<lparr> sg_journal := ?j\<lparr> jn_committed := True \<rparr> \<rparr>)) (ret Reply_Done)))))) ?Q ?I" for e x b q
    by (rule triple_quiet_bnd [OF quiet_stat stO J(1)]) (auto intro!: triple_if triple_err rest J(1) simp del: err_simp)
  show ?thesis
    unfolding ep_publish_def Let_def
  proof (rule triple_thn [OF triple_save_digest [OF law F(1), where j = "sg_journal st"]])
    show "triple (spares S W) ?O (bnd (ep_parent p) (\<lambda>(_, target). bnd (ep_stat p) (\<lambda>m.
        if m \<noteq> jn_expected ?j then err (Fault_new ''TRANSFER_CONFLICT'' ''Destination changed before commit.'')
        else thn (io_call (rename (sg_dir (st\<lparr> sg_journal := ?j \<rparr>) @ [''data'']) (sg_parent (st\<lparr> sg_journal := ?j \<rparr>) @ [target])
            (jn_expected ?j \<noteq> None)))
          (thn (io_call nothing) (thn (io_call (sync_dir (sg_parent (st\<lparr> sg_journal := ?j \<rparr>))))
          (thn (stage_save E (st\<lparr> sg_journal := ?j, sg_journal := ?j\<lparr> jn_committed := True \<rparr> \<rparr>)) (ret Reply_Done))))))) ?Q ?I"
    proof (rule triple_bnd [OF triple_parent [OF S(2) T(1) stO J(1)]], assumption)
      fix r
      let ?k = "\<lambda>r. case r of (_, target) \<Rightarrow> bnd (ep_stat p) (\<lambda>m.
        if m \<noteq> jn_expected ?j then err (Fault_new ''TRANSFER_CONFLICT'' ''Destination changed before commit.'')
        else thn (io_call (rename (sg_dir (st\<lparr> sg_journal := ?j \<rparr>) @ [''data'']) (sg_parent (st\<lparr> sg_journal := ?j \<rparr>) @ [target])
            (jn_expected ?j \<noteq> None)))
          (thn (io_call nothing) (thn (io_call (sync_dir (sg_parent (st\<lparr> sg_journal := ?j \<rparr>))))
          (thn (stage_save E (st\<lparr> sg_journal := ?j, sg_journal := ?j\<lparr> jn_committed := True \<rparr> \<rparr>)) (ret Reply_Done)))))"
      have "triple (spares S W) ?O (?k (butlast T, last T)) ?Q ?I"
        using stat [of "jn_expected ?j" _ "jn_expected ?j \<noteq> None" "butlast S"] T(2,3) by (simp add: st cong: if_cong)
      then have "triple (spares S W) (\<lambda>d. ?O d \<and> r = (butlast T, last T)) (?k r) ?Q ?I" by (rule triple_result)
      then show "triple (spares S W) (\<lambda>d. ?O d \<and> r = (butlast T, last T)) (?k r) ?Q ?I" .
    qed
  qed (simp_all add: st)
qed

lemma triple_ep_commit:
  assumes F_def: "F = family E p source expected h" and law: "journal_law E F"
    and S: "stage_dir E p token = Some S" "path_components p = Inr T" "T \<noteq> S" and W: "W = None \<or> W = Some T"
  shows "triple (spares S W) (staged E S F W B n) (ep_commit E p token h) (\<lambda>r d. r = Reply_Done \<and> staged E S F W B n d) (staged E S F W B n)"
  unfolding ep_commit_def
proof (rule triple_bnd [OF triple_ep_stage [OF S(1)]], simp, goal_cases)
  case (1 st)
  let ?j = "sg_journal st" and ?I = "staged E S F W B n" and ?Q = "\<lambda>r d. r = Reply_Done \<and> staged E S F W B n d"
  let ?J = "journaled E S F W B n ?j"
  show ?case
  proof (rule triple_assume, elim conjE)
    fix d assume d: "?J d" "sg_dir st = S" "sg_parent st = butlast S"
    have F: "F ?j" using journaled_family [OF d(1)] by blast
    have publish: "triple (spares S W) ?J (thn (set_metadata i m) (ep_publish E st p h)) ?Q ?I"
      if "jn_offset ?j = sp_length (jn_source ?j)" for i m
      by (rule triple_thn [OF triple_metadata triple_publish [OF law S W d(2,3)]])
        (use F that in \<open>auto simp: F_def family_def\<close>)
    have hashed: "triple (spares S W) ?J (bnd (open_regular (sg_dir st @ [''data'']) False False False) (\<lambda>i. bnd (hash_file E i) (\<lambda>h'.
        if h' \<noteq> h then err x else thn (set_metadata i m) (ep_publish E st p h)))) ?Q ?I"
      if len: "jn_offset ?j = sp_length (jn_source ?j)" for x m
      by (rule triple_quiet_bnd [OF quiet_regular stable_journaled journaled_staged], assumption,
        rule triple_quiet_bnd [OF quiet_hash(1) stable_journaled journaled_staged], assumption)
        (intro triple_if triple_err publish [OF len] journaled_staged)
    have review: "triple (spares S W) ?J (bnd (if jn_offset ?j \<noteq> sp_length (jn_source ?j) then ret True
        else bnd (ep_stat p) (\<lambda>m. ret (m \<noteq> jn_expected ?j))) (\<lambda>conflict. if conflict then err y else
        bnd (open_regular (sg_dir st @ [''data'']) False False False) (\<lambda>i. bnd (hash_file E i) (\<lambda>h'.
        if h' \<noteq> h then err x else thn (set_metadata i (jn_source ?j)) (ep_publish E st p h))))) ?Q ?I" for x y
    proof (rule triple_bnd)
      show "triple (spares S W) ?J (if jn_offset ?j \<noteq> sp_length (jn_source ?j) then ret True
        else bnd (ep_stat p) (\<lambda>m. ret (m \<noteq> jn_expected ?j)))
        (\<lambda>conflict d. ?J d \<and> (\<not> conflict \<longrightarrow> jn_offset ?j = sp_length (jn_source ?j))) ?I"
        by (intro triple_if triple_ret triple_quiet_bnd [OF quiet_stat stable_journaled]) (auto dest: journaled_staged)
      show "triple (spares S W) (\<lambda>d. ?J d \<and> (\<not> conflict \<longrightarrow> jn_offset ?j = sp_length (jn_source ?j)))
        (if conflict then err y else bnd (open_regular (sg_dir st @ [''data'']) False False False) (\<lambda>i. bnd (hash_file E i) (\<lambda>h'.
        if h' \<noteq> h then err x else thn (set_metadata i (jn_source ?j)) (ep_publish E st p h)))) ?Q ?I" for conflict
        by (rule triple_if, rule triple_err, blast intro: journaled_staged)
          (rule triple_assume, rule triple_conseq [OF hashed], simp_all)
    qed
    have repeated: "triple (spares S W) ?J (thn (ep_reconcile E st) (ret Reply_Done)) ?Q ?I" if "jn_digest ?j \<noteq> None"
      unfolding thn_def
      by (rule triple_bnd [OF triple_reconcile [OF law d(2) that]])
        (use F in \<open>auto simp: F_def family_committed intro!: triple_ret dest: journaled_staged simp del: ret_simp\<close>)
    have "triple (spares S W) ?J (bnd (if jn_digest ?j = None then ret False else data_missing st) (\<lambda>gone.
        if gone then thn (ep_reconcile E st) (ret Reply_Done) else k)) ?Q ?I"
      if k: "triple (spares S W) ?J k ?Q ?I" for k
    proof (rule triple_bnd)
      show "triple (spares S W) ?J (if jn_digest ?j = None then ret False else data_missing st)
        (\<lambda>gone d. ?J d \<and> (gone \<longrightarrow> jn_digest ?j \<noteq> None)) ?I"
        by (intro triple_if triple_ret, simp, rule triple_conseq [OF quiet_stable [OF quiet_missing stable_journaled]])
          (auto dest: journaled_staged)
      show "triple (spares S W) (\<lambda>d. ?J d \<and> (gone \<longrightarrow> jn_digest ?j \<noteq> None))
        (if gone then thn (ep_reconcile E st) (ret Reply_Done) else k) ?Q ?I" for gone
        by (rule triple_assume, rule triple_if; elim conjE, rule triple_conseq [OF repeated] triple_conseq [OF k]) simp_all
    qed
    from this [OF review] show "triple (spares S W) (\<lambda>d. ?J d \<and> sg_dir st = S \<and> sg_parent st = butlast S)
      (bnd (if jn_digest ?j = None then ret False else data_missing st) (\<lambda>gone. let j = ?j in
        if gone then thn (ep_reconcile E st) (ret Reply_Done)
        else bnd (if jn_offset j \<noteq> sp_length (jn_source j) then ret True else bnd (ep_stat p) (\<lambda>m. ret (m \<noteq> jn_expected j)))
          (\<lambda>conflict. if conflict then err (Fault_new ''TRANSFER_CONFLICT'' ''Incomplete transfer or destination changed.'')
          else bnd (open_regular (sg_dir st @ [''data'']) False False False) (\<lambda>i. bnd (hash_file E i) (\<lambda>h'.
            if h' \<noteq> h then err (Fault_new ''TRANSFER_CHECKSUM'' ''File verification failed. Restart this file.'')
            else thn (set_metadata i (jn_source j)) (ep_publish E st p h)))))) ?Q ?I"
      unfolding Let_def by (rule triple_conseq) simp_all
  qed
qed

end
