(* ===== verification/Transfer_Run.thy ===== *)
theory Transfer_Run
  imports Transfer_Blocks
begin

text \<open>
  The life of one transfer at its destination: requests, processes that die in the middle of
  one, other programs and power losses, in any order.
\<close>

section \<open>Events\<close>

datatype transfer_event = Asked Command string "fate list" "bool list" | Meanwhile "change list" | Outage nat "nat \<Rightarrow> string"

datatype answer = Wrote nat | Prepared nat | Otherwise

fun answer_of :: "Command \<Rightarrow> Reply \<Rightarrow> answer" where
  "answer_of (Cmd_Write _ _ _ _) (Reply_Ready k _) = Wrote k"
| "answer_of (Cmd_Prepare _ _ _ _) (Reply_Ready k _) = Prepared k"
| "answer_of _ _ = Otherwise"

text \<open>Each request is served by a process of its own, on the disk the last one left.\<close>

fun transfer_step :: "Endpoint \<Rightarrow> (path \<Rightarrow> string list) \<Rightarrow> transfer_event \<Rightarrow> disk \<Rightarrow> answer \<times> disk" where
  "transfer_step E enumeration (Asked c bytes fates stops) d =
    (case ep_dispatch E enumeration c bytes \<lparr> w_disk = d, w_fates = fates, w_stops = stops, w_dead = False \<rparr> of
       (Inr (r, _), w) \<Rightarrow> (answer_of c r, w_disk w)
     | (Inl _, w) \<Rightarrow> (Otherwise, w_disk w))"
| "transfer_step E enumeration (Meanwhile cs) d = (Otherwise, fold apply_change cs d)"
| "transfer_step E enumeration (Outage k junk) d = (Otherwise, power_loss k junk d)"

fun transfer_run :: "Endpoint \<Rightarrow> (path \<Rightarrow> string list) \<Rightarrow> transfer_event list \<Rightarrow> disk \<Rightarrow> answer list \<times> disk" where
  "transfer_run E enumeration [] d = ([], d)"
| "transfer_run E enumeration (ev # evs) d =
    (case transfer_step E enumeration ev d of
       (a, d) \<Rightarrow> (case transfer_run E enumeration evs d of (as, d) \<Rightarrow> (a # as, d)))"

text \<open>No answer falls behind a block that was acknowledged.\<close>

fun never_behind :: "nat \<Rightarrow> answer list \<Rightarrow> bool" where
  "never_behind n [] = True"
| "never_behind n (Wrote k # as) = (n \<le> k \<and> never_behind k as)"
| "never_behind n (Prepared k # as) = (n \<le> k \<and> never_behind n as)"
| "never_behind n (Otherwise # as) = never_behind n as"

fun acknowledged :: "nat \<Rightarrow> answer list \<Rightarrow> nat" where
  "acknowledged n [] = n"
| "acknowledged n (Wrote k # as) = acknowledged k as"
| "acknowledged n (_ # as) = acknowledged n as"

text \<open>The events of one transfer: the client sends blocks of the source and commits its digest;
  others stay out of the staging directory, and leave the destination alone where it is given.\<close>

definition of_transfer :: "path \<Rightarrow> path option \<Rightarrow> string \<Rightarrow> string \<Rightarrow> Stamp \<Rightarrow> Stamp option \<Rightarrow> string \<Rightarrow> string \<Rightarrow> transfer_event \<Rightarrow> bool" where
  "of_transfer S W p token source expected h B ev =
    (case ev of
       Asked c bytes fates stops \<Rightarrow>
         list_all (\<lambda>f. list_all (spares S W) (ft_changes f)) fates
         \<and> (case c of
              Cmd_Prepare p' t s e \<Rightarrow> p' = p \<and> t = token \<and> s = source \<and> e = expected
            | Cmd_Write p' t at _ \<Rightarrow> p' = p \<and> t = token \<and> bytes = take (length bytes) (drop at B)
            | Cmd_Commit p' t h' \<Rightarrow> p' = p \<and> t = token \<and> h' = h
            | Cmd_Stat _ \<Rightarrow> True | Cmd_List _ _ \<Rightarrow> True | Cmd_Read _ _ _ \<Rightarrow> True | Cmd_Hash _ _ \<Rightarrow> True
            | _ \<Rightarrow> False)
     | Meanwhile cs \<Rightarrow> list_all (spares S W) cs
     | Outage _ _ \<Rightarrow> True)"

text \<open>Nothing is below the staging directory yet, on any image.\<close>

definition untouched :: "path \<Rightarrow> disk \<Rightarrow> bool" where
  "untouched S d \<longleftrightarrow> list_all (list_all (\<lambda>(q, i). \<not> prefix S q \<and> i < dk_next d)) (images d)"

text \<open>What a new process finds: the journal is at least there, and until it has a digest so is the staged file with
  the acknowledged bytes; from then on they are in the staged file or, when that is gone, at the destination, where
  one is given.\<close>

definition resumable :: "Endpoint \<Rightarrow> path \<Rightarrow> path option \<Rightarrow> string \<Rightarrow> nat \<Rightarrow> disk \<Rightarrow> bool" where
  "resumable E S W B n d =
    (case map_of (dk_names d) (S @ [''state.json'']) of
       None \<Rightarrow> n = 0
     | Some i \<Rightarrow>
         (case ep_dec E (take 16384 (nd_bytes (dk_inodes d i))) of
            None \<Rightarrow> False
          | Some j \<Rightarrow> n \<le> jn_offset j \<and> (jn_digest j = None \<or> W \<noteq> None \<longrightarrow>
              (case kept_at S W (jn_digest j \<noteq> None) (map_of (dk_names d)) of
                 None \<Rightarrow> False
               | Some k \<Rightarrow> n \<le> length (nd_bytes (dk_inodes d k))
                   \<and> take n (nd_bytes (dk_inodes d k)) = take n B))))"

section \<open>Every event keeps the invariant\<close>

lemma staged_untouched:
  assumes "untouched S d" "beside S W"
  shows "staged E S F W B 0 d"
proof -
  have at: "m (S @ q) = None" if "m \<in> im d" for m q
  proof (rule ccontr)
    assume "m (S @ q) \<noteq> None"
    then obtain i where "m (S @ q) = Some i" by blast
    then show False using assms that map_of_SomeD [of _ "S @ q" i] by (fastforce simp: untouched_def im_def list_all_iff)
  qed
  have no_stage: "m S = None" if "m \<in> im d" for m using at [OF that, of "[]"] by simp
  have below: "i < dk_next d" if "m \<in> im d" "m p = Some i" for m p i
    using assms that map_of_SomeD [of _ p i] by (fastforce simp: untouched_def im_def list_all_iff)
  show ?thesis
    by (rule stagedI [OF assms(2)])
      (use below in \<open>auto simp: at no_stage image_ok_def behind_def apart_def undigested_def held_def kept_at_def\<close>)
qed

lemma staged_resumable:
  assumes "staged E S F W B n d"
  shows "resumable E S W B n d"
proof -
  have ok: "image_ok E S F W B n (dk_inodes d) (live d)" using stagedD(1) [OF assms live_in] .
  show ?thesis
  proof (cases "live d (state_of S)")
    case (Some i)
    then obtain j where j: "journal E (dk_inodes d) i = Some j" "n \<le> jn_offset j"
      "keeps_bytes W B (dk_inodes d) j (held E S W (dk_inodes d) (live d))"
      using ok by (auto simp: image_ok_def)
    have dec: "ep_dec E (take 16384 (nd_bytes (dk_inodes d i))) = Some j"
      using j(1) by (simp add: journal_def split: if_splits)
    have "n \<le> length (nd_bytes f) \<and> take n (nd_bytes f) = take n B" if "holds_prefix B (jn_offset j) f" for f
      using holds_prefix_le [OF that j(2)] firm_le [of f] by (auto simp: holds_prefix_def)
    moreover have "held E S W (dk_inodes d) (live d) = kept_at S W (jn_digest j \<noteq> None) (live d)"
      using Some j(1) by (auto simp: held_def undigested_def)
    ultimately show ?thesis using Some dec j(2,3) by (auto simp: resumable_def keeps_bytes_def split: option.split)
  qed (use ok in \<open>simp add: resumable_def image_ok_def\<close>)
qed

fun answered :: "(nat \<Rightarrow> disk \<Rightarrow> bool) \<Rightarrow> nat \<Rightarrow> answer \<Rightarrow> disk \<Rightarrow> bool" where
  "answered P n (Wrote k) d = (n \<le> k \<and> P k d)"
| "answered P n (Prepared k) d = (n \<le> k \<and> P n d)"
| "answered P n Otherwise d = P n d"

lemma triple_plain:
  assumes "triple A P m Q I"
  shows "triple A P (bnd m (\<lambda>r. ret (r, []))) (\<lambda>r. Q (fst r)) I"
  by (rule triple_bnd [OF assms]) (auto intro!: triple_ret simp del: ret_simp)

lemma triple_dispatch:
  assumes F_def: "F = family E p source expected h" and law: "journal_law E F"
    and S: "stage_dir E p token = Some S" "path_components p = Inr T" "T \<noteq> S" and W: "W = None \<or> W = Some T"
    and c: "of_transfer S W p token source expected h B (Asked c bytes fates stops)"
  shows "triple (spares S W) (staged E S F W B n) (ep_dispatch E enumeration c bytes)
    (\<lambda>r. answered (staged E S F W B) n (answer_of c (fst r))) (staged E S F W B n)"
proof -
  let ?I = "staged E S F W B n" and ?Q = "\<lambda>r. answered (staged E S F W B) n (answer_of c (fst r))"
  have quiet_command: "triple (spares S W) ?I m (\<lambda>r. answered (staged E S F W B) n Otherwise) ?I"
    if "quiet m" for m :: "(world, Reply \<times> string) act"
    by (rule triple_conseq [OF quiet_stable [OF that stable_staged]]) simp_all
  have body: "triple (spares S W) ?I (case c of
            Cmd_Stat p \<Rightarrow> bnd (bnd (ep_stat p) (\<lambda>m. ret (Reply_Stat m))) (\<lambda>r. ret (r, []))
          | Cmd_List p after \<Rightarrow> bnd (bnd (ep_list E enumeration p after) (\<lambda>page. ret (Reply_List page))) (\<lambda>r. ret (r, []))
          | Cmd_Read p m offset \<Rightarrow> ep_read E p m offset
          | Cmd_Hash p m \<Rightarrow> bnd (bnd (ep_hash E p m) (\<lambda>h. ret (Reply_Hash h))) (\<lambda>r. ret (r, []))
          | Cmd_Prepare p token source expected \<Rightarrow> bnd (ep_prepare E p token source expected) (\<lambda>r. ret (r, []))
          | Cmd_Write p token offset digest \<Rightarrow> bnd (ep_write E p token offset digest bytes) (\<lambda>r. ret (r, []))
          | Cmd_Commit p token digest \<Rightarrow> bnd (ep_commit E p token digest) (\<lambda>r. ret (r, []))
          | Cmd_Cancel p token \<Rightarrow> bnd (ep_cancel E p token) (\<lambda>r. ret (r, []))
          | Cmd_Directory p \<Rightarrow> bnd (ep_create_directory p) (\<lambda>r. ret (r, []))
          | Cmd_Metadata p m \<Rightarrow> bnd (thn (ep_metadata p m) (ret Reply_Done)) (\<lambda>r. ret (r, []))) ?Q ?I"
  proof (cases c)
    case (Cmd_Prepare p' t s e)
    then have "p' = p" "t = token" "s = source" "e = expected" using c by (simp_all add: of_transfer_def)
    then show ?thesis
      by (auto simp: Cmd_Prepare intro!: triple_conseq [OF triple_plain [OF triple_ep_prepare [OF F_def S(1) law]]])
  next
    case (Cmd_Write p' t at dg)
    then have "p' = p" "t = token" "bytes = take (length bytes) (drop at B)" using c by (simp_all add: of_transfer_def)
    then show ?thesis
      by (auto simp: Cmd_Write intro!: triple_conseq [OF triple_plain [OF triple_ep_write [OF F_def S(1) law]]])
  next
    case (Cmd_Commit p' t h')
    then have "p' = p" "t = token" "h' = h" using c by (simp_all add: of_transfer_def)
    then show ?thesis
      by (auto simp: Cmd_Commit intro!: triple_conseq [OF triple_plain [OF triple_ep_commit [OF F_def law S W]]])
  qed (use c in \<open>auto simp: of_transfer_def intro!: quiet_command quiet_rules simp del: ret_simp\<close>)
  show ?thesis
    unfolding ep_dispatch_def Let_def
    by (rule triple_quiet_thn [OF quiet_check stable_staged]) (auto intro!: triple_if triple_err body simp del: err_simp)
qed

lemma step_keeps:
  assumes F_def: "F = family E p source expected h" and law: "journal_law E F"
    and S: "stage_dir E p token = Some S" "path_components p = Inr T" "T \<noteq> S" and W: "W = None \<or> W = Some T"
    and ev: "of_transfer S W p token source expected h B ev" and st: "staged E S F W B n d"
  shows "case transfer_step E enumeration ev d of (a, d) \<Rightarrow> answered (staged E S F W B) n a d"
proof (cases ev)
  case (Asked c bytes fates stops)
  let ?w = "\<lparr> w_disk = d, w_fates = fates, w_stops = stops, w_dead = False \<rparr>"
  have "triple (spares S W) (staged E S F W B n) (ep_dispatch E enumeration c bytes)
      (\<lambda>r. answered (staged E S F W B) n (answer_of c (fst r))) (staged E S F W B n)"
    using ev by (intro triple_dispatch [OF F_def law S W]) (simp add: Asked)
  moreover have "fates_ok (spares S W) ?w" using ev by (simp add: fates_ok_def of_transfer_def Asked list_all_iff)
  ultimately have "case fst (ep_dispatch E enumeration c bytes ?w) of
      Inr r \<Rightarrow> answered (staged E S F W B) n (answer_of c (fst r)) (w_disk (snd (ep_dispatch E enumeration c bytes ?w)))
    | Inl _ \<Rightarrow> staged E S F W B n (w_disk (snd (ep_dispatch E enumeration c bytes ?w)))"
    using st unfolding triple_def by fastforce
  then show ?thesis by (auto simp: Asked split: prod.splits sum.splits)
next
  case (Meanwhile cs)
  then show ?thesis using ev stable_changes [OF stable_staged st, of cs] by (simp add: of_transfer_def list_all_iff)
next
  case (Outage k junk)
  then show ?thesis using staged_power_loss [OF st] by simp
qed

lemma run_keeps:
  assumes F_def: "F = family E p source expected h" and law: "journal_law E F"
    and S: "stage_dir E p token = Some S" "path_components p = Inr T" "T \<noteq> S" and W: "W = None \<or> W = Some T"
    and evs: "\<forall>ev\<in>set evs. of_transfer S W p token source expected h B ev" and st: "staged E S F W B n d"
  shows "case transfer_run E enumeration evs d of (as, d) \<Rightarrow> never_behind n as \<and> staged E S F W B (acknowledged n as) d"
  using evs st
proof (induction evs arbitrary: n d)
  case (Cons ev evs)
  obtain a d' where step: "transfer_step E enumeration ev d = (a, d')" by fastforce
  obtain as d'' where run: "transfer_run E enumeration evs d' = (as, d'')" by fastforce
  have "answered (staged E S F W B) n a d'"
    using step_keeps [OF F_def law S W _ Cons.prems(2), of ev enumeration] Cons.prems(1) step by simp
  then show ?case
    using Cons.IH [of _ d'] Cons.prems(1) step run by (cases a) simp_all
qed simp

section \<open>Acknowledged blocks survive\<close>

text \<open>C32: Whatever happens to the processes that serve a transfer, to the power and to files
  elsewhere, no later answer falls behind a block that was acknowledged, and in the end a new
  process finds a journal that reaches as far and, until the commit has put a digest into it, the staged file with the bytes
  of every acknowledged block.  If moreover no other program touches the destination, then with a digest in
  the journal the acknowledged bytes are still in the staged file or, once that is published, at the destination.\<close>

theorem acknowledged_blocks_survive:
  assumes "journal_law E (family E p source expected h)"
    and "stage_dir E p token = Some S" "path_components p = Inr T" "T \<noteq> S"
    and "untouched S d" "\<forall>ev\<in>set evs. of_transfer S None p token source expected h B ev"
  shows "case transfer_run E enumeration evs d of (as, d) \<Rightarrow> never_behind 0 as \<and> resumable E S None B (acknowledged 0 as) d
    \<and> ((\<forall>ev\<in>set evs. of_transfer S (Some T) p token source expected h B ev) \<longrightarrow> resumable E S (Some T) B (acknowledged 0 as) d)"
proof -
  note T = stage_target [OF assms(2-4)]
  have start: "staged E S F None B 0 d" "staged E S F (Some T) B 0 d" for F
    using T by (auto intro!: staged_untouched [OF assms(5)] simp: beside_def)
  obtain as d' where run: "transfer_run E enumeration evs d = (as, d')" by fastforce
  have any: "never_behind 0 as \<and> resumable E S None B (acknowledged 0 as) d'"
    using run_keeps [OF refl assms(1-4) _ assms(6) start(1), of enumeration] staged_resumable by (auto simp: run)
  have "resumable E S (Some T) B (acknowledged 0 as) d'" if "\<forall>ev\<in>set evs. of_transfer S (Some T) p token source expected h B ev"
    using run_keeps [OF refl assms(1-4) _ that start(2), of enumeration] staged_resumable by (auto simp: run)
  then show ?thesis using any by (simp add: run)
qed

text \<open>A destination that gets a file of two bytes: the writer dies before its journal, the power
  fails, the block is sent again, and the power fails once more.\<close>

definition sample_source :: Stamp where
  "sample_source = \<lparr> sp_kind = Kind_File, sp_length = 2, sp_modified_ns = 7, sp_device = 1, sp_inode = 1, sp_mode = 420 \<rparr>"

definition sample_enc :: "Journal \<Rightarrow> string" where
  "sample_enc j = (if jn_committed j then CHR ''c'' else CHR ''u'') # (if jn_digest j = None then CHR ''n'' else CHR ''d'')
    # replicate (jn_offset j) (CHR ''o'')"

fun sample_dec :: "string \<Rightarrow> Journal option" where
  "sample_dec (c # g # os) = Some \<lparr> jn_owner = ''me'', jn_path = ''a'', jn_source = sample_source, jn_expected = None,
     jn_offset = length os, jn_digest = (if g = CHR ''d'' then Some ''xy'' else None), jn_committed = (c = CHR ''c'') \<rparr>"
| "sample_dec _ = None"

definition sample_endpoint :: Endpoint where
  "sample_endpoint = \<lparr> ep_owner = ''me'', ep_uuid = Some, ep_sha = (\<lambda>s. s), ep_enc = sample_enc, ep_dec = sample_dec \<rparr>"

definition sample_disk :: disk where
  "sample_disk = \<lparr> dk_names = [], dk_past = [], dk_inodes = (\<lambda>_. empty_dir), dk_next = 1, dk_device = 1 \<rparr>"

definition sample_events :: "transfer_event list" where
  "sample_events =
    (let write = Asked (Cmd_Write ''a'' ''t'' 0 ''xy'') ''xy'' in
     [Asked (Cmd_Prepare ''a'' ''t'' sample_source None) [] [] [],
      write (replicate 12 \<lparr> ft_changes = [], ft_ending = Works \<rparr> @ [\<lparr> ft_changes = [], ft_ending = Dies (Some (Some 1)) \<rparr>]) [],
      Outage 0 (\<lambda>_. ''?''),
      Asked (Cmd_Prepare ''a'' ''t'' sample_source None) [] [] [],
      write [] [], Outage 1 (\<lambda>_. ''?''),
      Asked (Cmd_Prepare ''a'' ''t'' sample_source None) [] [] [],
      Asked (Cmd_Commit ''a'' ''t'' ''xy'') [] [] []])"

lemma sample_law: "journal_law sample_endpoint (family sample_endpoint ''a'' sample_source None ''xy'')"
proof -
  have "sample_dec (take 16384 (sample_enc j)) = Some j" if "family sample_endpoint ''a'' sample_source None ''xy'' j" for j :: Journal
  proof -
    have "jn_offset j \<le> 2" using that by (simp add: family_def sample_source_def)
    then have "take 16384 (sample_enc j) = sample_enc j" by (simp add: sample_enc_def)
    then show ?thesis using that
      by (cases j) (auto simp: sample_enc_def family_def sample_endpoint_def sample_source_def split: option.splits)
  qed
  then show ?thesis by (simp add: journal_law_def) (simp add: sample_endpoint_def)
qed

lemma acknowledged_blocks_survive_witness:
  "case transfer_run sample_endpoint (\<lambda>_. []) sample_events sample_disk of (as, d) \<Rightarrow> never_behind 0 as
     \<and> resumable sample_endpoint [''.remote-codex-transfer-t''] None ''xy'' (acknowledged 0 as) d
     \<and> resumable sample_endpoint [''.remote-codex-transfer-t''] (Some [''a'']) ''xy'' (acknowledged 0 as) d"
proof -
  let ?S = "[''.remote-codex-transfer-t'']" and ?E = sample_endpoint
  have events: "\<forall>ev\<in>set sample_events. of_transfer ?S W ''a'' ''t'' sample_source None ''xy'' ''xy'' ev" for W
    by (simp add: sample_events_def of_transfer_def Let_def list_all_iff)
  have stage: "stage_dir ?E ''a'' ''t'' = Some ?S" "path_components ''a'' = Inr [''a'']" "[''a''] \<noteq> ?S" "untouched ?S sample_disk"
    by (simp_all add: stage_dir_def path_components_def stage_name_def stage_prefix_def sample_endpoint_def sample_disk_def
      untouched_def images_def starts_with_def)
  show ?thesis
    using acknowledged_blocks_survive [OF sample_law stage events, of "\<lambda>_. []"] events by (simp add: case_prod_beta)
qed

end
