(* ===== verification/Transfer_Commit.thy ===== *)
theory Transfer_Commit
  imports Transfer_Run
begin

text \<open>
  What a commit does to the destination while no other program changes files: it replaces the
  destination by verified bytes in one step, or leaves it alone, wherever the process dies.
\<close>

abbreviation never :: "change \<Rightarrow> bool" where "never \<equiv> \<lambda>_. False"

lemma stable_never: "stable never P"
  by (simp add: stable_def)

lemma tripleD:
  assumes "triple A P m Q I" "P (w_disk w)" "fates_ok A w" "m w = (r, w')"
  shows "case r of Inl _ \<Rightarrow> I (w_disk w') | Inr x \<Rightarrow> Q x (w_disk w')"
  using assms unfolding triple_def by (metis fst_conv snd_conv)

lemma triple_option:
  "triple A P m Q I \<Longrightarrow> (\<And>x. triple A P (k x) Q I) \<Longrightarrow> triple A P (case r of None \<Rightarrow> m | Some x \<Rightarrow> k x) Q I"
  by (cases r) simp_all

section \<open>Names that do not share a file\<close>

definition separate :: "path \<Rightarrow> path \<Rightarrow> disk \<Rightarrow> bool" where
  "separate S T d \<longleftrightarrow> list_all (list_all (\<lambda>(_, i). i < dk_next d)) (images d)
    \<and> (case map_of (dk_names d) (S @ [''next.json'']) of
         None \<Rightarrow> True
       | Some i \<Rightarrow> list_all (\<lambda>m. map_of m T \<noteq> Some i) (images d) \<and> map_of (dk_names d) (S @ [''data'']) \<noteq> Some i)"

definition tidy :: "path \<Rightarrow> path \<Rightarrow> disk \<Rightarrow> bool" where
  "tidy S T d \<longleftrightarrow> in_use d
    \<and> (\<forall>i. live d (next_of S) = Some i \<longrightarrow> (\<forall>m\<in>im d. m T \<noteq> Some i) \<and> live d (data_of S) \<noteq> Some i)"

lemma tidy_separate: "separate S T d \<Longrightarrow> tidy S T d"
  unfolding separate_def tidy_def in_use_def im_def
  by (auto simp: list_all_iff split: option.splits) (fastforce dest!: map_of_SomeD)+

lemma tidy_below: "tidy S T d \<Longrightarrow> m \<in> im d \<Longrightarrow> m p = Some i \<Longrightarrow> i < dk_next d"
  by (auto simp: tidy_def in_use_def)

lemma tidy_fewer:
  assumes "tidy S T d" "im d' \<subseteq> im d" "dk_names d' = dk_names d" "dk_next d' = dk_next d"
  shows "tidy S T d'"
  using assms(1,2) unfolding tidy_def in_use_def assms(3,4) by blast

text \<open>A fact about the staged file and the files the destination may name.\<close>

definition local_fact :: "path \<Rightarrow> path \<Rightarrow> (disk \<Rightarrow> bool) \<Rightarrow> bool" where
  "local_fact S T R \<longleftrightarrow> (\<forall>d d'. R d \<longrightarrow> live d' T = live d T \<longrightarrow> live d' (data_of S) = live d (data_of S)
    \<longrightarrow> (\<forall>m'\<in>im d'. \<exists>m\<in>im d. m' T = m T)
    \<longrightarrow> (\<forall>i. (\<exists>m\<in>im d. m T = Some i) \<or> live d (data_of S) = Some i \<longrightarrow> dk_inodes d' i = dk_inodes d i) \<longrightarrow> R d')"

lemma local_factD:
  assumes "local_fact S T R" "R d" "live d' T = live d T" "live d' (data_of S) = live d (data_of S)"
    and "im d' \<subseteq> insert (live d') (im d)"
    and "\<And>i m. m \<in> im d \<Longrightarrow> m T = Some i \<or> live d (data_of S) = Some i \<Longrightarrow> dk_inodes d' i = dk_inodes d i"
  shows "R d'"
proof -
  have "\<forall>m'\<in>im d'. \<exists>m\<in>im d. m' T = m T" using assms(3,5) live_in by fastforce
  moreover have "\<forall>i. (\<exists>m\<in>im d. m T = Some i) \<or> live d (data_of S) = Some i \<longrightarrow> dk_inodes d' i = dk_inodes d i"
    using assms(6) live_in by blast
  ultimately show ?thesis using assms(1-4) unfolding local_fact_def by blast
qed

text \<open>Names of the staging directory other than the staged file.\<close>

lemma tidy_new:
  assumes R: "local_fact S T R" "tidy S T d" "R d" and T: "\<not> prefix S T" and p: "p = S @ [x]" "x \<noteq> ''data''" "live d p = None"
  shows "tidy S T (new_inode p f d) \<and> R (new_inode p f d)"
proof
  have q: "p \<noteq> T" "\<not> prefix p T" "p \<noteq> data_of S" "\<not> prefix p (data_of S)" using T p by (auto simp: prefix_def)
  note below = tidy_below [OF R(2)]
  show "R (new_inode p f d)"
    by (rule local_factD [OF R(1,3)]) (use q below [OF live_in] below in \<open>fastforce split: if_splits\<close>)+
  have new: "live (new_inode p f d) r = Some i \<Longrightarrow> live d r = Some i \<or> (r = p \<and> i = dk_next d)" for r i
    by (simp split: if_splits)
  have at: "\<exists>m0\<in>im d. m T = m0 T" if "m \<in> im (new_inode p f d)" for m
    using that q live_in by (auto intro: bexI [of _ "live d"])
  show "tidy S T (new_inode p f d)"
    unfolding tidy_def
  proof (intro conjI allI impI)
    show "in_use (new_inode p f d)"
      unfolding in_use_def using new below [OF live_in] below by (fastforce simp del: new_inode_fields(4))
  next
    fix i assume i: "live (new_inode p f d) (next_of S) = Some i"
    have "(\<forall>m\<in>im d. m T \<noteq> Some i) \<and> live d (data_of S) \<noteq> Some i"
      using new [OF i] R(2) below [of _ T i] below [OF live_in, of "data_of S" i] by (auto simp: tidy_def)
    then show "\<forall>m\<in>im (new_inode p f d). m T \<noteq> Some i" "live (new_inode p f d) (data_of S) \<noteq> Some i"
      using q at by (fastforce, auto)
  qed
qed

lemma tidy_set_next:
  assumes "local_fact S T R" "tidy S T d" "R d" "live d (next_of S) = Some i"
  shows "tidy S T (set_inode i f d) \<and> R (set_inode i f d)"
proof
  show "tidy S T (set_inode i f d)" using assms(2) by (simp add: tidy_def in_use_def)
  show "R (set_inode i f d)" by (rule local_factD [OF assms(1,3)]) (use assms(2,4) in \<open>auto simp: tidy_def\<close>)
qed

text \<open>Saving a journal leaves them alone.\<close>

lemma triple_save_local:
  assumes R: "local_fact S T R" and T: "\<not> prefix S T" and S: "sg_dir st = S"
  shows "triple never (\<lambda>d. tidy S T d \<and> R d) (stage_save E st) (\<lambda>_ d. tidy S T d \<and> R d) (\<lambda>d. tidy S T d \<and> R d)"
proof -
  let ?P = "\<lambda>d. tidy S T d \<and> R d"
  let ?N = "\<lambda>i d. ?P d \<and> live d (next_of S) = Some i"
  have created: "triple never ?P (open_regular (next_of S) True True True) ?N ?P"
    unfolding open_regular_def
  proof (rule triple_bnd)
    have "?P (snd (open_file (next_of S) True True True lim d))
        \<and> (fst (open_file (next_of S) True True True lim d) = Inr i \<longrightarrow> live (snd (open_file (next_of S) True True True lim d)) (next_of S) = Some i)"
      if d: "?P d" for d lim i
    proof (rule open_file_writable_cases [of "next_of S" d True True True lim])
      assume "live d (next_of S) = None" "open_file (next_of S) True True True lim d = (Inr (dk_next d), new_inode (next_of S) empty_file d)"
      then show ?thesis using tidy_new [OF R _ _ T, of d "next_of S" "''next.json''" empty_file] d by simp
    next
      fix k assume "live d (next_of S) = Some k" "open_file (next_of S) True True True lim d
        = (Inr k, set_inode k ((dk_inodes d k)\<lparr> nd_bytes := [], nd_clean := False, nd_firm := 0 \<rparr>) d)"
      then show ?thesis using tidy_set_next [OF R, of d k] d by simp
    qed (use d in auto)
    then show "triple never ?P (io_call (open_file (next_of S) True True True)) ?N ?P"
      by - (rule triple_call [OF stable_never]; blast)
    show "triple never (?N i) (bnd (io_call (fstat i)) (\<lambda>n. if nd_kind n = Node_File then ret i
        else err (Fault_new ''TRANSFER_TYPE'' ''Only regular files can be transferred.''))) ?N ?P" for i
      by (rule triple_quiet_bnd [OF _ stable_never])
        (auto intro!: quiet_rules triple_if triple_ret triple_err simp del: ret_simp err_simp)
  qed
  have on_next: "triple never (?N i) (io_call c) (\<lambda>_. ?N i) ?P"
    if c: "\<And>d lim. snd (c lim d) = d \<or> (\<exists>f. snd (c lim d) = set_inode i f d)" for i and c :: "unit syscall"
  proof -
    have "?N i (snd (c lim d))" if "?N i d" for d lim
      using c [of lim d] tidy_set_next [OF R, of d i] that by auto
    then show ?thesis by - (rule triple_call [OF stable_never]; blast)
  qed
  have moved: "triple never (?N i) (io_call (rename (next_of S) (state_of S) True)) (\<lambda>_. ?P) ?P" for i
  proof -
    let ?m = "\<lambda>d. set_names ((state_of S, i) # without (state_of S) (without (next_of S) (dk_names d))) d"
    have "?P (?m d)" if d: "?N i d" for d
    proof
      have at: "live (?m d) T = live d T" "live (?m d) (data_of S) = live d (data_of S)" "live (?m d) (next_of S) = None"
        using T by (auto simp: map_of_without prefix_def)
      show "R (?m d)" by (rule local_factD [OF R, of d]) (use d at in \<open>auto simp: im_set_names\<close>)
      have "live (?m d) q = Some l \<Longrightarrow> \<exists>r. live d r = Some l" for q l
        using d by (auto simp: map_of_without split: if_splits)
      then have "live (?m d) q = Some l \<Longrightarrow> l < dk_next d" for q l
        using tidy_below [OF _ live_in, of S T d] d by blast
      then have "in_use (?m d)"
        using tidy_below [of S T d] d unfolding in_use_def im_set_names by (metis insert_iff set_names_fields(2,3))
      then show "tidy S T (?m d)" unfolding tidy_def at(3) by (intro conjI) (assumption, simp only: option.distinct HOL.simp_thms)
    qed
    then have "?P (snd (rename (next_of S) (state_of S) True lim d))" if "?N i d" for d lim
      using that by (auto simp: rename_def)
    then show ?thesis by - (rule triple_call [OF stable_never]; blast)
  qed
  have dir: "triple never ?P (thn (io_call nothing) (io_call (sync_dir S))) (\<lambda>_. ?P) ?P"
  proof (rule triple_quiet_thn [OF _ stable_never])
    have "?P (snd (sync_dir S lim d))" if d: "?P d" for d lim
    proof
      have im: "im (snd (sync_dir S lim d)) \<subseteq> im d" by (rule im_sync_dir(1))
      then show "tidy S T (snd (sync_dir S lim d))" using d by (auto intro: tidy_fewer)
      show "R (snd (sync_dir S lim d))" by (rule local_factD [OF R, of d]) (use d im in auto)
    qed
    then show "triple never ?P (io_call (sync_dir S)) (\<lambda>_. ?P) ?P" by - (rule triple_call [OF stable_never]; blast)
  qed (auto intro!: quiet_rules)
  have calls: "triple never (?N i) (io_call (write_file i 0 x)) (\<lambda>_. ?N i) ?P" "triple never (?N i) (io_call (sync_file i)) (\<lambda>_. ?N i) ?P"
    for i x by (rule on_next; auto simp: write_file_def sync_file_def Let_def)+
  show ?thesis unfolding stage_save_def S
    by (rule triple_bnd [OF created triple_thn [OF calls(1) triple_thn [OF calls(2) triple_thn [OF moved dir]]]])
qed

section \<open>Opening a transfer\<close>

definition stored_journal :: "Endpoint \<Rightarrow> path \<Rightarrow> disk \<Rightarrow> Journal option" where
  "stored_journal E S d =
    (case map_of (dk_names d) (S @ [''state.json'']) of
       None \<Rightarrow> None
     | Some i \<Rightarrow> ep_dec E (take 16384 (nd_bytes (dk_inodes d i))))"

lemma triple_load_stored:
  "triple never P (stage_load E S None) (\<lambda>r d. P d \<and> \<not> snd r \<and> stored_journal E S d = Some (fst r)) P"
  unfolding stage_load_def
proof (rule triple_quiet_bnd [OF _ stable_never])
  fix m :: "errno + nat \<times> inode"
  let ?Q = "\<lambda>r d. P d \<and> \<not> snd r \<and> stored_journal E S d = Some (fst r)"
  have opened: "triple never P (catching (open_regular (state_of S) False False False))
      (\<lambda>r. case r of Inr i \<Rightarrow> \<lambda>d. P d \<and> live d (state_of S) = Some i | Inl _ \<Rightarrow> P) P"
    by (rule triple_catching [OF triple_open_plain [OF stable_never stable_never]]) simp_all
  have read: "triple never (\<lambda>d. P d \<and> live d (state_of S) = Some i) (bnd (io_call (read_file i))
      (\<lambda>content. case ep_dec E (take 16384 content) of None \<Rightarrow> err x | Some j \<Rightarrow> ret (j, b))) ?Q P" if "\<not> b" for i x b
  proof (rule triple_bnd)
    show "triple never (\<lambda>d. P d \<and> live d (state_of S) = Some i) (io_call (read_file i))
      (\<lambda>content d. P d \<and> live d (state_of S) = Some i \<and> content = nd_bytes (dk_inodes d i)) P"
      by (rule triple_call [OF stable_never]) (auto simp: read_file_def)
  qed (use that in \<open>auto simp: stored_journal_def intro!: triple_ret triple_err split: option.split simp del: ret_simp err_simp\<close>)
  show "triple never P (let missing = m = Inl Not_Found; initialize = missing \<and> None \<noteq> (None :: Journal option) in
      bnd (catching (open_regular (state_of S) False False False)) (\<lambda>r. case r of
        Inl e \<Rightarrow> if initialize then (case None of None \<Rightarrow> err (transfer_missing ''Transfer checkpoint is unavailable.'') | Some j \<Rightarrow> ret (j, True))
          else if missing then err (transfer_missing ''Transfer initialization was interrupted.'') else err e
      | Inr i \<Rightarrow> bnd (io_call (read_file i)) (\<lambda>content. case ep_dec E (take 16384 content) of
          None \<Rightarrow> err (io_fault (Errno ''invalid journal'')) | Some j \<Rightarrow> ret (j, initialize)))) ?Q P"
    unfolding Let_def
    by (rule triple_bnd [OF opened]) (auto intro!: triple_if triple_err read simp del: err_simp split: sum.split)
qed (auto intro!: quiet_rules)

text \<open>Without a journal to start from, nothing is made but the lock.\<close>

lemma triple_stage_open:
  assumes S: "stage_dir E p token = Some S"
    and lock: "\<And>d. P d \<Longrightarrow> live d (S @ [''lock'']) = None \<Longrightarrow> P (new_inode (S @ [''lock'']) empty_file d)"
  shows "triple never P (ep_stage E p token None)
    (\<lambda>st d. P d \<and> sg_dir st = S \<and> sg_parent st = butlast S \<and> jn_path (sg_journal st) = p
      \<and> stored_journal E S d = Some (sg_journal st)) P"
proof -
  obtain parts name where parts: "path_components p = Inr parts" "parts \<noteq> []" "stage_name E token = Inr name"
    and dir: "S = butlast parts @ [name]" using S by (rule stage_dirE)
  let ?Q = "\<lambda>st d. P d \<and> sg_dir st = S \<and> sg_parent st = butlast S \<and> jn_path (sg_journal st) = p
    \<and> stored_journal E S d = Some (sg_journal st)"
  have start: "triple never (\<lambda>d. P d \<and> \<not> snd r \<and> stored_journal E S d = Some (fst r)) (stage_start E p (butlast parts) name r) ?Q P" for r
    by (cases r; cases "snd r")
      (auto simp: stage_start_def Let_def dir triple_def)
  have locked: "triple never P (stage_locked E p (butlast parts) name None) ?Q P"
    unfolding stage_locked_def
  proof (rule triple_quiet_bnd [OF _ stable_never])
    show "triple never P (if x \<noteq> Inr () then err (Fault_new ''TRANSFER_BUSY'' ''Another transfer owns this staging file.'')
        else bnd (stage_load E (butlast parts @ [name]) None) (stage_start E p (butlast parts) name)) ?Q P" for x
      by (rule triple_if, rule triple_err, assumption) (unfold dir [symmetric], rule triple_bnd [OF triple_load_stored start])
  qed (auto intro!: quiet_rules)
  have lock_made: "triple never P (open_regular (S @ [''lock'']) True True False) (\<lambda>_. P) P"
    unfolding open_regular_def
  proof (rule triple_bnd)
    have "P (snd (open_file (S @ [''lock'']) True True False lim d))" if "P d" for d lim
      using lock [OF that] that by (auto simp: open_file_def split: option.split node_kind.split)
    then show "triple never P (io_call (open_file (S @ [''lock'']) True True False)) (\<lambda>_. P) P"
      by - (rule triple_call [OF stable_never]; blast)
  qed (rule triple_quiet_bnd [OF _ stable_never]; auto intro!: quiet_rules triple_if triple_ret triple_err simp del: ret_simp err_simp)
  have rest: "triple never P (thn (io_call (open_dir S)) (thn (open_regular (S @ [''lock'']) True True False)
      (stage_locked E p (butlast parts) name None))) ?Q P"
    by (rule triple_quiet_thn [OF _ stable_never _ triple_thn [OF lock_made locked]]) (auto intro!: quiet_rules)
  have shape: "thn (ret ()) m = m" "bnd (ret x) k = k x" for m :: "(world, 'c) act" and x :: 'd and k
    by (simp_all add: thn_def bnd_def fun_eq_iff)
  have "ep_stage E p token None = bnd (ep_parent p) (\<lambda>(parent, _). thn (io_call (open_dir (parent @ [name])))
      (thn (open_regular (parent @ [name] @ [''lock'']) True True False) (stage_locked E p parent name None)))"
    unfolding ep_stage_def stage_create_def by (simp add: parts(3) lift_result_def shape del: ret_simp)
  moreover have "triple never P (bnd (ep_parent p) (\<lambda>(parent, _). thn (io_call (open_dir (parent @ [name])))
      (thn (open_regular (parent @ [name] @ [''lock'']) True True False) (stage_locked E p parent name None)))) ?Q P"
  proof (rule triple_bnd [OF triple_parent [OF parts(1,2) stable_never]], assumption)
    fix r
    let ?k = "\<lambda>r. case r of (parent, _) \<Rightarrow> thn (io_call (open_dir (parent @ [name])))
      (thn (open_regular (parent @ [name] @ [''lock'']) True True False) (stage_locked E p parent name None))"
    have "triple never P (?k (butlast parts, last parts)) ?Q P" using rest by (simp add: dir)
    then show "triple never (\<lambda>d. P d \<and> r = (butlast parts, last parts)) (?k r) ?Q P" by (rule triple_result)
  qed
  ultimately show ?thesis by simp
qed

section \<open>The destination\<close>

text \<open>The file as it was: other calls may change its mode and time, not what it holds.\<close>

definition kept :: "path \<Rightarrow> nat option \<Rightarrow> inode \<Rightarrow> (path \<Rightarrow> nat option) \<Rightarrow> (nat \<Rightarrow> inode) \<Rightarrow> bool" where
  "kept T t f m nodes \<longleftrightarrow> m T = t \<and> (\<forall>i. t = Some i \<longrightarrow> same_content f (nodes i))"

definition checked :: "Endpoint \<Rightarrow> string \<Rightarrow> inode \<Rightarrow> bool" where
  "checked E h f \<longleftrightarrow> nd_kind f = Node_File \<and> nd_clean f \<and> ep_sha E (nd_bytes f) = h"

definition old_or_new :: "Endpoint \<Rightarrow> path \<Rightarrow> string \<Rightarrow> nat option \<Rightarrow> inode \<Rightarrow> disk \<Rightarrow> bool" where
  "old_or_new E T h t f d \<longleftrightarrow>
    (\<forall>m\<in>im d. kept T t f m (dk_inodes d) \<or> (\<exists>i. m T = Some i \<and> checked E h (dk_inodes d i)))"

definition staged_is :: "path \<Rightarrow> nat \<Rightarrow> (inode \<Rightarrow> bool) \<Rightarrow> disk \<Rightarrow> bool" where
  "staged_is S i V d \<longleftrightarrow> live d (data_of S) = Some i \<and> V (dk_inodes d i)"

definition new_there :: "Endpoint \<Rightarrow> path \<Rightarrow> string \<Rightarrow> disk \<Rightarrow> bool" where
  "new_there E T h d \<longleftrightarrow> (\<exists>i. live d T = Some i \<and> checked E h (dk_inodes d i))"

definition digest_there :: "Endpoint \<Rightarrow> path \<Rightarrow> string option \<Rightarrow> disk \<Rightarrow> bool" where
  "digest_there E T g d \<longleftrightarrow> (\<exists>i. live d T = Some i \<and> Some (ep_sha E (nd_bytes (dk_inodes d i))) = g)"

lemma local_conj: "local_fact S T P \<Longrightarrow> local_fact S T Q \<Longrightarrow> local_fact S T (\<lambda>d. P d \<and> Q d)"
  unfolding local_fact_def by blast

lemma local_old_or_new: "local_fact S T (old_or_new E T h t f)"
  unfolding local_fact_def
proof (intro allI impI)
  fix d d' assume R: "old_or_new E T h t f d" and im: "\<forall>m'\<in>im d'. \<exists>m\<in>im d. m' T = m T"
    and nodes: "\<forall>i. (\<exists>m\<in>im d. m T = Some i) \<or> live d (data_of S) = Some i \<longrightarrow> dk_inodes d' i = dk_inodes d i"
  show "old_or_new E T h t f d'"
    unfolding old_or_new_def
  proof
    fix m' assume "m' \<in> im d'"
    then obtain m where m: "m \<in> im d" "m' T = m T" using im by blast
    have "dk_inodes d' i = dk_inodes d i" if "m T = Some i" for i using nodes m(1) that by blast
    then show "kept T t f m' (dk_inodes d') \<or> (\<exists>i. m' T = Some i \<and> checked E h (dk_inodes d' i))"
      using R m by (auto simp: old_or_new_def kept_def)
  qed
qed

lemma local_live:
  assumes "\<And>d d'. R d \<Longrightarrow> live d' T = live d T \<Longrightarrow> live d' (data_of S) = live d (data_of S)
    \<Longrightarrow> (\<And>i. live d T = Some i \<or> live d (data_of S) = Some i \<Longrightarrow> dk_inodes d' i = dk_inodes d i) \<Longrightarrow> R d'"
  shows "local_fact S T R"
  unfolding local_fact_def
proof (intro allI impI)
  fix d d' assume "R d" "live d' T = live d T" "live d' (data_of S) = live d (data_of S)"
    "\<forall>i. (\<exists>m\<in>im d. m T = Some i) \<or> live d (data_of S) = Some i \<longrightarrow> dk_inodes d' i = dk_inodes d i"
  then show "R d'" using live_in by (intro assms [of d d']) blast+
qed

lemma local_facts:
  "local_fact S T (staged_is S i V)" "local_fact S T (new_there E T h)" "local_fact S T (digest_there E T g)"
  by (rule local_live; auto simp: staged_is_def new_there_def digest_there_def)+

lemma same_content_trans: "same_content f g \<Longrightarrow> same_content g k \<Longrightarrow> same_content f k"
  by (auto simp: same_content_def)

lemma old_or_new_same:
  assumes "old_or_new E T h t f d" "same_content (dk_inodes d i) g"
  shows "old_or_new E T h t f (set_inode i g d)"
  unfolding old_or_new_def
proof
  fix m assume "m \<in> im (set_inode i g d)"
  then have "kept T t f m (dk_inodes d) \<or> (\<exists>i. m T = Some i \<and> checked E h (dk_inodes d i))"
    using assms(1) by (simp add: old_or_new_def)
  moreover have "kept T t f m (dk_inodes (set_inode i g d))" if "kept T t f m (dk_inodes d)"
    using that assms(2) same_content_trans by (auto simp: kept_def)
  moreover have "checked E h (dk_inodes (set_inode i g d) k)" if "checked E h (dk_inodes d k)" for k
    using that assms(2) by (auto simp: checked_def same_content_def)
  ultimately show "kept T t f m (dk_inodes (set_inode i g d)) \<or> (\<exists>k. m T = Some k \<and> checked E h (dk_inodes (set_inode i g d) k))"
    by blast
qed

text \<open>The bytes of the destination, as the hash of a path reads them.\<close>

lemma triple_hash_file:
  "triple never P (hash_file E i) (\<lambda>x d. P d \<and> x = ep_sha E (nd_bytes (dk_inodes d i))) P"
proof -
  let ?Q = "\<lambda>x d. P d \<and> x = ep_sha E (nd_bytes (dk_inodes d i))"
  have read: "triple never P (bnd (io_call (read_file i)) (\<lambda>content. ret (ep_sha E content))) ?Q P"
  proof (rule triple_bnd)
    show "triple never P (io_call (read_file i)) (\<lambda>content d. P d \<and> content = nd_bytes (dk_inodes d i)) P"
      by (rule triple_call [OF stable_never]) (auto simp: read_file_def)
  qed (auto intro!: triple_ret simp del: ret_simp)
  have checked: "triple never P (thn check_cancelled (bnd (io_call (read_file i)) (\<lambda>content. ret (ep_sha E content)))) ?Q P"
    by (rule triple_quiet_thn [OF quiet_check stable_never _ read])
  show ?thesis
    unfolding hash_file_def by (rule triple_quiet_thn [OF quiet_call stable_never _ checked]) simp_all
qed

lemma triple_at_path:
  assumes T: "path_components p = Inr T" "T \<noteq> []"
    and k: "\<And>dir name. dir @ [name] = T \<Longrightarrow> triple never P (k (dir, name)) Q I" and I: "\<And>d. P d \<Longrightarrow> I d"
  shows "triple never P (bnd (ep_parent p) k) Q I"
proof (rule triple_bnd [OF triple_parent [OF T stable_never I]], assumption)
  fix r
  have "triple never P (k (butlast T, last T)) Q I" by (rule k) (simp add: T(2))
  then show "triple never (\<lambda>d. P d \<and> r = (butlast T, last T)) (k r) Q I" by (rule triple_result)
qed

lemma triple_source:
  assumes T: "path_components p = Inr T" "T \<noteq> []"
  shows "triple never P (ep_source p m) (\<lambda>i d. P d \<and> live d T = Some i) P"
  unfolding ep_source_def
proof (rule triple_at_path [OF T], unfold prod.case)
  fix dir name assume at: "dir @ [name] = T"
  have check: "triple never (\<lambda>d. P d \<and> live d T = Some i) (bnd (io_call (\<lambda>lim d. (Inr (stamp_of (dk_device d) (i, dk_inodes d i)), d)))
      (\<lambda>x. if b x then err y else ret i)) (\<lambda>i d. P d \<and> live d T = Some i) P" for i b y
    by (rule triple_quiet_bnd [OF quiet_call stable_never])
      (auto intro!: triple_if triple_ret triple_err simp del: ret_simp err_simp)
  show "triple never P (bnd (open_regular (dir @ [name]) False False False) (\<lambda>i.
      bnd (io_call (\<lambda>lim d. (Inr (stamp_of (dk_device d) (i, dk_inodes d i)), d))) (\<lambda>x.
        if sp_length x \<noteq> sp_length m \<or> sp_inode x \<noteq> sp_inode m
            \<or> sp_device x \<noteq> sp_device m \<or> sp_modified_ns x \<noteq> sp_modified_ns m
          then err (Fault_new ''TRANSFER_SOURCE_CHANGED'' ''Source changed. Restart this file to transfer its new contents.'')
        else ret i))) (\<lambda>i d. P d \<and> live d T = Some i) P"
    unfolding at by (rule triple_bnd [OF triple_open_plain [OF stable_never stable_never T(2)] check])
qed

lemma triple_hash:
  assumes T: "path_components p = Inr T" "T \<noteq> []"
  shows "triple never P (ep_hash E p m) (\<lambda>x d. P d \<and> digest_there E T (Some x) d) P"
  unfolding ep_hash_def
proof (rule triple_bnd [OF triple_source [OF T]], rule triple_bnd)
  fix i
  show "triple never (\<lambda>d. P d \<and> live d T = Some i) (hash_file E i)
      (\<lambda>x d. P d \<and> digest_there E T (Some x) d) P"
    by (rule triple_conseq [OF triple_hash_file [of "\<lambda>d. P d \<and> live d T = Some i"]]) (auto simp: digest_there_def)
  show "triple never (\<lambda>d. P d \<and> digest_there E T (Some x) d) (thn (ep_source p m) (ret x)) (\<lambda>x d. P d \<and> digest_there E T (Some x) d) P" for x
    by (rule triple_quiet_thn [OF quiet_source stable_never]) (auto intro!: triple_ret simp del: ret_simp)
qed

section \<open>The steps of a commit\<close>

lemma triple_reconcile_target:
  assumes T: "path_components p = Inr T" "T \<noteq> []" "\<not> prefix S T" and st: "sg_dir st = S" "jn_path (sg_journal st) = p"
    and R: "local_fact S T R"
  shows "triple never (\<lambda>d. tidy S T d \<and> R d) (ep_reconcile E st)
    (\<lambda>_ d. tidy S T d \<and> R d \<and> digest_there E T (jn_digest (sg_journal st)) d) (\<lambda>d. tidy S T d \<and> R d)"
proof -
  let ?P = "\<lambda>d. tidy S T d \<and> R d"
  let ?g = "digest_there E T (jn_digest (sg_journal st))"
  let ?Q = "\<lambda>_ d. tidy S T d \<and> R d \<and> ?g d"
  have saved: "triple never (\<lambda>d. ?P d \<and> ?g d) (thn (stage_save E st') (ret st')) ?Q ?P" if "sg_dir st' = S" for st'
  proof (rule triple_thn)
    show "triple never (\<lambda>d. ?P d \<and> ?g d) (stage_save E st') (\<lambda>_ d. tidy S T d \<and> R d \<and> ?g d) ?P"
      using triple_save_local [OF local_conj [OF R local_facts(3)] T(3) that, where E = E]
      by (rule triple_conseq) auto
  qed (auto intro!: triple_ret simp del: ret_simp)
  have changed: "triple never ?P (if b then ret True else bnd (ep_hash E p m) (\<lambda>h. ret (Some h \<noteq> jn_digest (sg_journal st))))
      (\<lambda>changed d. ?P d \<and> (\<not> changed \<longrightarrow> ?g d)) ?P" for b m
    by (rule triple_if, rule triple_ret, simp, rule triple_bnd [OF triple_hash [OF T(1,2)]])
      (auto intro!: triple_ret simp del: ret_simp)
  have step: "triple never ?P (bnd (if b then ret True else bnd (ep_hash E p m) (\<lambda>h. ret (Some h \<noteq> jn_digest (sg_journal st))))
      (\<lambda>changed. if changed then err x else thn (stage_save E st') (ret st'))) ?Q ?P" if "sg_dir st' = S" for b m x st'
  proof (rule triple_bnd [OF changed])
    show "triple never (\<lambda>d. ?P d \<and> (\<not> changed \<longrightarrow> ?g d)) (if changed then err x else thn (stage_save E st') (ret st')) ?Q ?P" for changed
      using triple_conseq [OF saved [OF that]] by (auto intro!: triple_if triple_err triple_conseq [OF saved [OF that]] simp del: err_simp)
  qed
  show ?thesis
    unfolding ep_reconcile_def Let_def st(2)
    by (rule triple_quiet_bnd [OF quiet_stat stable_never], assumption, rule triple_option, rule triple_err, assumption, rule step)
      (simp add: st)
qed

text \<open>The staged file, verified, gets its metadata and is synced.\<close>

definition ready :: "Endpoint \<Rightarrow> path \<Rightarrow> path \<Rightarrow> string \<Rightarrow> nat option \<Rightarrow> inode \<Rightarrow> nat \<Rightarrow> (inode \<Rightarrow> bool) \<Rightarrow> disk \<Rightarrow> bool" where
  "ready E S T h t f i V d \<longleftrightarrow> tidy S T d \<and> old_or_new E T h t f d \<and> staged_is S i V d"

definition settled_target :: "Endpoint \<Rightarrow> path \<Rightarrow> path \<Rightarrow> string \<Rightarrow> nat option \<Rightarrow> inode \<Rightarrow> disk \<Rightarrow> bool" where
  "settled_target E S T h t f d \<longleftrightarrow> tidy S T d \<and> old_or_new E T h t f d"

lemma ready_settled: "ready E S T h t f i V d \<Longrightarrow> settled_target E S T h t f d"
  by (simp add: ready_def settled_target_def)

lemma ready_same:
  assumes "ready E S T h t f i V d" "same_content (dk_inodes d i) g" "V (dk_inodes d i) \<Longrightarrow> W g"
  shows "ready E S T h t f i W (set_inode i g d)"
  using assms old_or_new_same [of E T h t f d i g] by (auto simp: ready_def staged_is_def tidy_def in_use_def)

definition hashed_as :: "Endpoint \<Rightarrow> string \<Rightarrow> inode \<Rightarrow> bool" where
  "hashed_as E h f \<longleftrightarrow> nd_kind f = Node_File \<and> ep_sha E (nd_bytes f) = h"

lemma triple_metadata_ready:
  "triple never (ready E S T h t f i (hashed_as E h)) (set_metadata i m)
    (\<lambda>_. ready E S T h t f i (checked E h)) (settled_target E S T h t f)"
proof -
  let ?I = "settled_target E S T h t f"
  have same: "triple never (ready E S T h t f i V) (io_call c) (\<lambda>_. ready E S T h t f i W) ?I"
    if c: "\<And>d lim. fst (c lim d) = Inr () \<and> snd (c lim d) = set_inode i (g (dk_inodes d i)) d" "\<And>x. same_content x (g x)" "\<And>x. V x \<Longrightarrow> W (g x)"
    for c :: "unit syscall" and g V W
  proof -
    have "ready E S T h t f i W (snd (c lim d))" if "ready E S T h t f i V d" for d lim
      unfolding c(1) [THEN conjunct2] by (rule ready_same [OF that]) (rule c(2), rule c(3))
    then show ?thesis by - (rule triple_call [OF stable_never]; blast intro: ready_settled)
  qed
  let ?H = "ready E S T h t f i (hashed_as E h)"
  have mode: "triple never ?H (io_call (set_mode i x)) (\<lambda>_. ?H) ?I" for x
    by (rule same [where g = "\<lambda>z. z\<lparr> nd_mode := x \<rparr>"]) (simp_all add: set_mode_def same_content_meta hashed_as_def)
  have times: "triple never ?H (io_call (set_times i y)) (\<lambda>_. ?H) ?I" for y
    by (rule same [where g = "\<lambda>z. z\<lparr> nd_modified := y \<rparr>"]) (simp_all add: set_times_def same_content_meta hashed_as_def)
  have sync: "triple never ?H (io_call (sync_file i)) (\<lambda>_. ready E S T h t f i (checked E h)) ?I"
    by (rule same [where g = "\<lambda>z. z\<lparr> nd_clean := True \<rparr>"])
      (simp_all add: sync_file_def same_content_sync hashed_as_def checked_def)
  show ?thesis unfolding set_metadata_def by (rule triple_thn [OF mode triple_thn [OF times sync]])
qed

text \<open>The rename.\<close>

lemma published:
  assumes d: "ready E S T h t f i (checked E h) d" and T: "T \<noteq> []" "\<not> prefix T S" "\<not> prefix S T"
    and d': "d' = set_names ((T, i) # without T (without (data_of S) (dk_names d))) d"
  shows "settled_target E S T h t f d' \<and> new_there E T h d'"
proof -
  have live': "live d' q = (if q = T then Some i else if prefix T q \<or> prefix (data_of S) q then None else live d q)" for q
    by (simp add: d' map_of_without)
  have parts: "tidy S T d" "old_or_new E T h t f d" "live d (data_of S) = Some i" "checked E h (dk_inodes d i)"
    using d by (simp_all add: ready_def staged_is_def)
  have at: "live d' T = Some i" "live d' (data_of S) = None" "live d' (next_of S) = live d (next_of S)"
    using T by (auto simp: live')
  have im: "im d' = insert (live d') (im d)" and nodes: "dk_inodes d' = dk_inodes d" "dk_next d' = dk_next d"
    by (simp_all add: d' im_set_names)
  have new: "new_there E T h d'" using at(1) parts(4) by (simp add: new_there_def nodes)
  have old: "old_or_new E T h t f d'"
    using parts(2) at(1) parts(4) by (auto simp: old_or_new_def im nodes)
  have below: "live d' q = Some l \<Longrightarrow> l < dk_next d" for q l
    using tidy_below [OF parts(1) live_in] parts(3) by (auto simp: live' split: if_splits)
  have "in_use d'" using below tidy_below [OF parts(1)] unfolding in_use_def im nodes by (metis insert_iff)
  moreover have "live d (next_of S) = Some l \<Longrightarrow> l \<noteq> i \<and> (\<forall>m\<in>im d. m T \<noteq> Some l)" for l
    using parts(1,3) by (auto simp: tidy_def)
  ultimately have "tidy S T d'" using at by (auto simp: tidy_def im)
  then show ?thesis using new old by (simp add: settled_target_def)
qed

lemma triple_publish_target:
  assumes S: "stage_dir E p token = Some S" "path_components p = Inr T" "T \<noteq> S"
    and st: "sg_dir st = S" "sg_parent st = butlast S"
  shows "triple never (ready E S T h t f i (checked E h)) (ep_publish E st p h)
    (\<lambda>r d. r = Reply_Done \<and> (\<forall>m\<in>im d. \<exists>i. m T = Some i \<and> checked E h (dk_inodes d i))) (settled_target E S T h t f)"
proof -
  let ?j = "(sg_journal st)\<lparr> jn_digest := Some h \<rparr>" and ?I = "settled_target E S T h t f"
  let ?R = "ready E S T h t f i (checked E h)" and ?N = "\<lambda>d. ?I d \<and> new_there E T h d"
  let ?A = "\<lambda>d. \<forall>m\<in>im d. \<exists>i. m T = Some i \<and> checked E h (dk_inodes d i)"
  let ?Q = "\<lambda>r d. r = Reply_Done \<and> ?A d"
  note T = stage_target [OF S]
  have local_A: "local_fact S T ?A" unfolding local_fact_def by (intro allI impI ballI) metis
  have save: "triple never ?R (stage_save E st') (\<lambda>_. ?R) ?I" if "sg_dir st' = S" for st'
    using triple_save_local [OF local_conj [OF local_old_or_new local_facts(1)] T(5) that, of E h t f i "checked E h"]
    by (rule triple_conseq) (auto simp: ready_def settled_target_def)
  have moved: "triple never ?R (io_call (rename (data_of S) T b)) (\<lambda>_. ?N) ?I" for b
  proof -
    have "?I (snd (rename (data_of S) T b lim d)) \<and> (fst (rename (data_of S) T b lim d) = Inr () \<longrightarrow> ?N (snd (rename (data_of S) T b lim d)))"
      if d: "?R d" for d lim
    proof -
      have i: "live d (data_of S) = Some i" "checked E h (dk_inodes d i)" using d by (simp_all add: ready_def staged_is_def)
      show ?thesis
        using published [OF d T(1,4,5) refl] ready_settled [OF d] i T(1) by (auto simp: rename_def new_there_def)
    qed
    then show ?thesis by - (rule triple_call [OF stable_never]; auto intro: ready_settled)
  qed
  have dir: "triple never ?N (io_call (sync_dir (butlast S))) (\<lambda>_ d. tidy S T d \<and> old_or_new E T h t f d \<and> ?A d) ?I"
  proof (rule triple_call [OF stable_never])
    fix d assume d: "?N d"
    then show "?I d" by blast
    have sub: "im (snd (sync_dir (butlast S) lim d)) \<subseteq> im d" for lim by (rule im_sync_dir(1))
    have I: "?I (snd (sync_dir (butlast S) lim d))" for lim
      using d sub [of lim] tidy_fewer [of S T d "snd (sync_dir (butlast S) lim d)"]
      unfolding settled_target_def old_or_new_def sync_dir_fields by (simp add: subset_iff)
    then show "?I (snd (sync_dir (butlast S) lim d))" for lim .
    have "entry_of (butlast S) T" using T(1,2) by (simp add: entry_of_def)
    then have same: "m T = live d T" if "m \<in> im (snd (sync_dir (butlast S) None d))" for m
      using im_sync_dir(2) [OF that] by blast
    obtain k where "live d T = Some k" "checked E h (dk_inodes d k)" using d by (auto simp: new_there_def)
    then have "?A (snd (sync_dir (butlast S) None d))" by (intro ballI exI [of _ k]) (simp add: same)
    then show "tidy S T (snd (sync_dir (butlast S) None d)) \<and> old_or_new E T h t f (snd (sync_dir (butlast S) None d))
        \<and> ?A (snd (sync_dir (butlast S) None d))" using I [of None] by (simp add: settled_target_def)
  qed
  have marked: "triple never (\<lambda>d. tidy S T d \<and> old_or_new E T h t f d \<and> ?A d) (thn (stage_save E st') (ret Reply_Done)) ?Q ?I"
    if "sg_dir st' = S" for st'
  proof (rule triple_thn)
    show "triple never (\<lambda>d. tidy S T d \<and> old_or_new E T h t f d \<and> ?A d) (stage_save E st') (\<lambda>_. ?A) ?I"
      using triple_save_local [OF local_conj [OF local_old_or_new local_A] T(5) that, of E h t f]
      by (rule triple_conseq) (auto simp: settled_target_def)
  qed (auto intro!: triple_ret simp del: ret_simp)
  have rest: "triple never ?R (bnd (ep_stat p) (\<lambda>m. if m \<noteq> e then err x else
      thn (io_call (rename (data_of S) T b)) (thn (io_call nothing) (thn (io_call (sync_dir (butlast S)))
      (thn (stage_save E st') (ret Reply_Done)))))) ?Q ?I" if "sg_dir st' = S" for e x b st'
    by (rule triple_quiet_bnd [OF quiet_stat stable_never ready_settled], assumption,
        rule triple_if, rule triple_err, erule ready_settled, rule triple_thn [OF moved],
        rule triple_quiet_thn [OF quiet_call stable_never _ triple_thn [OF dir marked [OF that]]]) simp_all
  show ?thesis
    unfolding ep_publish_def Let_def
  proof (rule triple_thn [OF save], simp add: st, rule triple_at_path [OF S(2) T(1)], unfold prod.case)
    fix dir name assume "dir @ [name] = T"
    then have "butlast S @ [name] = T" using T(2,3) by auto
    then show "triple never ?R (bnd (ep_stat p) (\<lambda>m.
        if m \<noteq> jn_expected ?j then err (Fault_new ''TRANSFER_CONFLICT'' ''Destination changed before commit.'')
        else thn (io_call (rename (sg_dir (st\<lparr> sg_journal := ?j \<rparr>) @ [''data'']) (sg_parent (st\<lparr> sg_journal := ?j \<rparr>) @ [name])
            (jn_expected ?j \<noteq> None)))
          (thn (io_call nothing) (thn (io_call (sync_dir (sg_parent (st\<lparr> sg_journal := ?j \<rparr>))))
          (thn (stage_save E (st\<lparr> sg_journal := ?j, sg_journal := ?j\<lparr> jn_committed := True \<rparr> \<rparr>)) (ret Reply_Done)))))) ?Q ?I"
      using rest [of "st\<lparr> sg_journal := ?j, sg_journal := ?j\<lparr> jn_committed := True \<rparr> \<rparr>" "jn_expected ?j" _ "jn_expected ?j \<noteq> None"]
      by (simp add: st cong: if_cong)
  qed (erule ready_settled)
qed

section \<open>The whole commit\<close>

definition no_changes :: "fate list \<Rightarrow> bool" where
  "no_changes fates \<longleftrightarrow> list_all (\<lambda>f. ft_changes f = []) fates"

text \<open>The destination is on the disk as it is named.\<close>

definition target_settled :: "path \<Rightarrow> disk \<Rightarrow> bool" where
  "target_settled T d \<longleftrightarrow> list_all (\<lambda>m. map_of m T = map_of (dk_names d) T) (images d)
    \<and> (case map_of (dk_names d) T of None \<Rightarrow> True | Some i \<Rightarrow> nd_clean (dk_inodes d i))"

definition target_bytes :: "path \<Rightarrow> disk \<Rightarrow> (node_kind \<times> string) option" where
  "target_bytes T d = map_option (\<lambda>i. (nd_kind (dk_inodes d i), nd_bytes (dk_inodes d i))) (map_of (dk_names d) T)"

definition target_verified :: "Endpoint \<Rightarrow> string \<Rightarrow> path \<Rightarrow> disk \<Rightarrow> bool" where
  "target_verified E h T d = (case target_bytes T d of
     Some (_, bytes) \<Rightarrow> ep_sha E bytes = h
   | None \<Rightarrow> False)"

lemma triple_commit_target:
  assumes S: "stage_dir E p token = Some S" "path_components p = Inr T" "T \<noteq> S"
  shows "triple never (\<lambda>d. settled_target E S T h t f d \<and> stored_journal E S d = j0) (ep_commit E p token h)
    (\<lambda>r d. r = Reply_Done \<and> ((\<forall>m\<in>im d. \<exists>i. m T = Some i \<and> checked E h (dk_inodes d i))
      \<or> (old_or_new E T h t f d \<and> (\<exists>j. j0 = Some j \<and> jn_digest j \<noteq> None \<and> digest_there E T (jn_digest j) d))))
    (settled_target E S T h t f)"
  unfolding ep_commit_def
proof (rule triple_bnd [where R = "\<lambda>st d. (settled_target E S T h t f d \<and> stored_journal E S d = j0) \<and> sg_dir st = S
    \<and> sg_parent st = butlast S \<and> jn_path (sg_journal st) = p \<and> stored_journal E S d = Some (sg_journal st)"])
  note T = stage_target [OF S]
  let ?I = "settled_target E S T h t f"
  let ?A = "\<lambda>d. \<forall>m\<in>im d. \<exists>i. m T = Some i \<and> checked E h (dk_inodes d i)"
  let ?Q = "\<lambda>r d. r = Reply_Done \<and> (?A d
      \<or> (old_or_new E T h t f d \<and> (\<exists>j. j0 = Some j \<and> jn_digest j \<noteq> None \<and> digest_there E T (jn_digest j) d)))"
  show "triple never (\<lambda>d. ?I d \<and> stored_journal E S d = j0) (ep_stage E p token None)
      (\<lambda>st d. (?I d \<and> stored_journal E S d = j0) \<and> sg_dir st = S \<and> sg_parent st = butlast S \<and> jn_path (sg_journal st) = p
        \<and> stored_journal E S d = Some (sg_journal st)) ?I"
  proof (rule triple_conseq [OF triple_stage_open [OF S(1)]])
    fix d assume d: "?I d \<and> stored_journal E S d = j0" "live d (S @ [''lock'']) = None"
    have "i < dk_next d" if "live d q = Some i" for q i
      using d(1) tidy_below [OF _ live_in that] by (auto simp: settled_target_def)
    then have "stored_journal E S (new_inode (S @ [''lock'']) empty_file d) = stored_journal E S d"
      by (fastforce simp: stored_journal_def split: option.split)
    then show "?I (new_inode (S @ [''lock'']) empty_file d) \<and> stored_journal E S (new_inode (S @ [''lock'']) empty_file d) = j0"
      using tidy_new [OF local_old_or_new, of S T d E h t f "S @ [''lock'']" "''lock''" empty_file] d T(5)
      by (simp add: settled_target_def)
  qed auto
  fix st :: Stage
  let ?j = "sg_journal st"
  show "triple never (\<lambda>d. (?I d \<and> stored_journal E S d = j0) \<and> sg_dir st = S \<and> sg_parent st = butlast S
      \<and> jn_path ?j = p \<and> stored_journal E S d = Some ?j)
    (bnd (if jn_digest ?j = None then ret False else data_missing st) (\<lambda>gone. let j = ?j in
        if gone then thn (ep_reconcile E st) (ret Reply_Done)
        else bnd (if jn_offset j \<noteq> sp_length (jn_source j) then ret True else bnd (ep_stat p) (\<lambda>m. ret (m \<noteq> jn_expected j)))
          (\<lambda>conflict. if conflict then err (Fault_new ''TRANSFER_CONFLICT'' ''Incomplete transfer or destination changed.'')
          else bnd (open_regular (sg_dir st @ [''data'']) False False False) (\<lambda>i. bnd (hash_file E i) (\<lambda>h'.
            if h' \<noteq> h then err (Fault_new ''TRANSFER_CHECKSUM'' ''File verification failed. Restart this file.'')
            else thn (set_metadata i (jn_source j)) (ep_publish E st p h)))))) ?Q ?I"
  proof (rule triple_assume, elim conjE)
    fix d assume st: "sg_dir st = S" "sg_parent st = butlast S" "jn_path ?j = p" and "stored_journal E S d = j0" "stored_journal E S d = Some ?j"
    then have j0: "j0 = Some ?j" by simp
    have reconciled: "triple never ?I (thn (ep_reconcile E st) (ret Reply_Done)) ?Q ?I" if "jn_digest ?j \<noteq> None"
    proof (rule triple_thn)
      show "triple never ?I (ep_reconcile E st) (\<lambda>_ d. ?I d \<and> digest_there E T (jn_digest ?j) d) ?I"
        using triple_reconcile_target [OF S(2) T(1,5) st(1,3) local_old_or_new [of S T E h t f], of E]
        by (rule triple_conseq) (auto simp: settled_target_def)
    qed (use that j0 in \<open>auto simp: settled_target_def intro!: triple_ret simp del: ret_simp\<close>)
    have publish: "triple never (ready E S T h t f i (hashed_as E h)) (thn (set_metadata i m) (ep_publish E st p h)) ?Q ?I" for i m
      by (rule triple_thn [OF triple_metadata_ready]) (rule triple_conseq [OF triple_publish_target [OF S st(1,2)]], auto)
    have hashed: "triple never (ready E S T h t f i (\<lambda>f. nd_kind f = Node_File)) (bnd (hash_file E i) (\<lambda>h'. if h' \<noteq> h then err x
        else thn (set_metadata i m) (ep_publish E st p h))) ?Q ?I" for i m x
    proof (rule triple_bnd)
      show "triple never (ready E S T h t f i (\<lambda>f. nd_kind f = Node_File)) (hash_file E i)
        (\<lambda>h' d. ready E S T h t f i (\<lambda>f. nd_kind f = Node_File) d \<and> h' = ep_sha E (nd_bytes (dk_inodes d i))) ?I"
        by (rule triple_conseq [OF triple_hash_file [of "ready E S T h t f i (\<lambda>f. nd_kind f = Node_File)"]]) (auto dest: ready_settled)
      show "triple never (\<lambda>d. ready E S T h t f i (\<lambda>f. nd_kind f = Node_File) d \<and> h' = ep_sha E (nd_bytes (dk_inodes d i)))
        (if h' \<noteq> h then err x else thn (set_metadata i m) (ep_publish E st p h)) ?Q ?I" for h'
        by (rule triple_if, rule triple_err, blast intro: ready_settled)
          (rule triple_conseq [OF publish], auto simp: ready_def staged_is_def hashed_as_def)
    qed
    have opened: "triple never ?I (open_regular (data_of S) False False False) (\<lambda>i. ready E S T h t f i (\<lambda>f. nd_kind f = Node_File)) ?I"
      unfolding open_regular_def
    proof (rule triple_bnd)
      show "triple never ?I (io_call (open_file (data_of S) False False False)) (\<lambda>i d. ?I d \<and> live d (data_of S) = Some i) ?I"
        using calm_open [of "data_of S" False]
        by (intro triple_call stable_never) (auto simp: calm_def open_file_def split: option.splits node_kind.splits)
      show "triple never (\<lambda>d. ?I d \<and> live d (data_of S) = Some i) (bnd (io_call (fstat i)) (\<lambda>n. if nd_kind n = Node_File then ret i
          else err (Fault_new ''TRANSFER_TYPE'' ''Only regular files can be transferred.'')))
        (\<lambda>i. ready E S T h t f i (\<lambda>f. nd_kind f = Node_File)) ?I" for i
        by (rule triple_bnd [where R = "\<lambda>n d. (?I d \<and> live d (data_of S) = Some i) \<and> n = dk_inodes d i"], rule triple_call [OF stable_never])
          (auto simp: fstat_def ready_def settled_target_def staged_is_def intro!: triple_if triple_ret triple_err simp del: ret_simp err_simp)
    qed
    have review: "triple never ?I (bnd c (\<lambda>conflict. if conflict then err x else bnd (open_regular (data_of S) False False False) (\<lambda>i.
        bnd (hash_file E i) (\<lambda>h'. if h' \<noteq> h then err y else thn (set_metadata i m) (ep_publish E st p h))))) ?Q ?I" if "quiet c" for c x y m
      by (rule triple_quiet_bnd [OF that stable_never], assumption, rule triple_if, rule triple_err, assumption,
          rule triple_bnd [OF opened hashed])
    have "triple never ?I (bnd (if jn_digest ?j = None then ret False else data_missing st) (\<lambda>gone.
        if gone then thn (ep_reconcile E st) (ret Reply_Done) else k)) ?Q ?I" if k: "triple never ?I k ?Q ?I" for k
    proof (rule triple_bnd)
      show "triple never ?I (if jn_digest ?j = None then ret False else data_missing st) (\<lambda>gone d. ?I d \<and> (gone \<longrightarrow> jn_digest ?j \<noteq> None)) ?I"
        by (intro triple_if triple_ret, simp, rule triple_conseq [OF quiet_stable [OF quiet_missing stable_never]]) auto
      show "triple never (\<lambda>d. ?I d \<and> (gone \<longrightarrow> jn_digest ?j \<noteq> None)) (if gone then thn (ep_reconcile E st) (ret Reply_Done) else k) ?Q ?I" for gone
        by (rule triple_assume, rule triple_if; elim conjE, rule triple_conseq [OF reconciled] triple_conseq [OF k]) simp_all
    qed
    from this [OF review] show ?thesis
      unfolding Let_def st(1)
      by (rule triple_conseq) (auto intro!: quiet_rules)
  qed
qed

lemma old_or_new_bytes:
  assumes old: "old_or_new E T h (live d T) f d'" and f: "\<And>i. live d T = Some i \<Longrightarrow> f = dk_inodes d i"
  shows "target_bytes T d' = target_bytes T d \<or> target_verified E h T d'"
proof -
  have "kept T (live d T) f (live d') (dk_inodes d') \<or> (\<exists>i. live d' T = Some i \<and> checked E h (dk_inodes d' i))"
    using old by (simp add: old_or_new_def)
  then show ?thesis
  proof
    assume "kept T (live d T) f (live d') (dk_inodes d')"
    then show ?thesis using f by (cases "live d T") (auto simp: kept_def target_bytes_def same_content_def)
  next
    assume "\<exists>i. live d' T = Some i \<and> checked E h (dk_inodes d' i)"
    then show ?thesis by (auto simp: target_bytes_def target_verified_def checked_def)
  qed
qed

lemma settle_clean: "nd_clean f \<Longrightarrow> settle junk f = f"
  by (simp add: settle_def)

lemma old_or_new_power_loss:
  assumes old: "old_or_new E T h t f d" and f: "t \<noteq> None \<Longrightarrow> nd_clean f"
  shows "old_or_new E T h t f (power_loss k junk d)"
proof (rule power_loss_fields [of d k junk])
  fix names
  assume m: "map_of names \<in> im d" and im: "im (power_loss k junk d) = {map_of names}"
    and nodes: "dk_inodes (power_loss k junk d) = (\<lambda>i. settle (junk i) (dk_inodes d i))"
  have "kept T t f (map_of names) (dk_inodes d) \<or> (\<exists>i. map_of names T = Some i \<and> checked E h (dk_inodes d i))"
    using old m by (simp add: old_or_new_def)
  moreover have "kept T t f (map_of names) (\<lambda>i. settle (junk i) (dk_inodes d i))" if "kept T t f (map_of names) (dk_inodes d)"
    using that f by (auto simp: kept_def same_content_def settle_clean)
  ultimately show ?thesis by (auto simp: old_or_new_def im nodes checked_def settle_clean)
qed

lemma all_checked_power_loss:
  assumes "\<forall>m\<in>im d. \<exists>i. m T = Some i \<and> checked E h (dk_inodes d i)"
  shows "target_verified E h T (power_loss k junk d)" "target_verified E h T d"
proof -
  obtain i where "live d T = Some i" "checked E h (dk_inodes d i)" using assms live_in by blast
  then show "target_verified E h T d" by (simp add: target_verified_def target_bytes_def checked_def)
  show "target_verified E h T (power_loss k junk d)"
  proof (rule power_loss_fields [of d k junk])
    fix names
    assume m: "map_of names \<in> im d" and names: "dk_names (power_loss k junk d) = names"
      and nodes: "dk_inodes (power_loss k junk d) = (\<lambda>i. settle (junk i) (dk_inodes d i))"
    obtain i where "map_of names T = Some i" "checked E h (dk_inodes d i)" using assms m by blast
    then show ?thesis by (simp add: target_verified_def target_bytes_def checked_def names nodes settle_clean)
  qed
qed

text \<open>C33: While no other program changes files, a commit leaves the destination as it was or with
  bytes of the given digest, wherever it fails or its process dies, and also after a power loss; and
  it succeeds only when the destination has bytes of that digest, durably, or of the digest of a
  commit of the same transfer that was interrupted.\<close>

theorem commit_verified_or_untouched:
  assumes "stage_dir E p token = Some S" "path_components p = Inr T" "T \<noteq> S"
    and "separate S T d" "target_settled T d" "no_changes fates"
  shows "case ep_commit E p token h \<lparr> w_disk = d, w_fates = fates, w_stops = stops, w_dead = False \<rparr> of (r, w) \<Rightarrow>
    (let d1 = w_disk w; d2 = power_loss k junk d1 in
     (target_bytes T d1 = target_bytes T d \<or> target_verified E h T d1)
     \<and> (target_bytes T d2 = target_bytes T d \<or> target_verified E h T d2)
     \<and> (case r of
          Inl _ \<Rightarrow> True
        | Inr reply \<Rightarrow> reply = Reply_Done \<and> ((target_verified E h T d1 \<and> target_verified E h T d2)
            \<or> (case stored_journal E S d of
                 None \<Rightarrow> False
               | Some j \<Rightarrow> (case jn_digest j of None \<Rightarrow> False | Some g \<Rightarrow> target_verified E g T d1)))))"
proof -
  define f where "f = (case live d T of None \<Rightarrow> empty_file | Some i \<Rightarrow> dk_inodes d i)"
  let ?t = "live d T"
  have names: "m T = ?t" if "m \<in> im d" for m using that assms(5) by (auto simp: target_settled_def im_def list_all_iff)
  have f: "?t = Some i \<Longrightarrow> f = dk_inodes d i" for i by (simp add: f_def)
  have clean: "?t \<noteq> None \<Longrightarrow> nd_clean f" using assms(5) by (auto simp: target_settled_def f_def split: option.splits)
  have start: "settled_target E S T h ?t f d"
    using tidy_separate [OF assms(4)] names f by (auto simp: settled_target_def old_or_new_def kept_def same_content_def)
  let ?w = "\<lparr> w_disk = d, w_fates = fates, w_stops = stops, w_dead = False \<rparr>"
  obtain r w where run: "ep_commit E p token h ?w = (r, w)" by fastforce
  have fates: "fates_ok never ?w" using assms(6) by (simp add: fates_ok_def no_changes_def list_all_iff)
  have "settled_target E S T h ?t f (w_disk ?w) \<and> stored_journal E S (w_disk ?w) = stored_journal E S d" using start by simp
  note out = tripleD [OF triple_commit_target [OF assms(1-3)] this fates run]
  have "(\<forall>m\<in>im (w_disk w). \<exists>i. m T = Some i \<and> checked E h (dk_inodes (w_disk w) i)) \<Longrightarrow> old_or_new E T h ?t f (w_disk w)"
    by (simp add: old_or_new_def)
  then have old: "old_or_new E T h ?t f (w_disk w)"
    using out by (auto simp: settled_target_def split: sum.splits)
  have there: "target_verified E g T (w_disk w)" if "digest_there E T (Some g) (w_disk w)" for g
    using that by (auto simp: digest_there_def target_verified_def target_bytes_def)
  have reply: "case r of
      Inl _ \<Rightarrow> True
    | Inr reply \<Rightarrow> reply = Reply_Done \<and> ((target_verified E h T (w_disk w) \<and> target_verified E h T (power_loss k junk (w_disk w)))
        \<or> (case stored_journal E S d of
             None \<Rightarrow> False
           | Some j \<Rightarrow> (case jn_digest j of None \<Rightarrow> False | Some g \<Rightarrow> target_verified E g T (w_disk w))))"
  proof (cases r)
    case (Inr reply)
    then have "reply = Reply_Done" using out by simp
    moreover from out Inr consider
      "\<forall>m\<in>im (w_disk w). \<exists>i. m T = Some i \<and> checked E h (dk_inodes (w_disk w) i)"
      | j where "stored_journal E S d = Some j" "jn_digest j \<noteq> None" "digest_there E T (jn_digest j) (w_disk w)"
      by auto
    then have "(target_verified E h T (w_disk w) \<and> target_verified E h T (power_loss k junk (w_disk w)))
        \<or> (case stored_journal E S d of
             None \<Rightarrow> False
           | Some j \<Rightarrow> (case jn_digest j of None \<Rightarrow> False | Some g \<Rightarrow> target_verified E g T (w_disk w)))"
    proof cases
      case 1
      then show ?thesis using all_checked_power_loss by blast
    next
      case 2
      then show ?thesis using there by auto
    qed
    ultimately show ?thesis using Inr by simp
  qed simp
  show ?thesis
    unfolding run prod.case Let_def
    by (rule conjI [OF old_or_new_bytes [OF old f] conjI [OF old_or_new_bytes [OF old_or_new_power_loss [OF old clean] f] reply]])
qed

text \<open>All blocks are staged, and the process dies at the rename.\<close>

definition sample_file :: "string \<Rightarrow> inode" where
  "sample_file bytes = empty_file\<lparr> nd_bytes := bytes, nd_clean := True \<rparr>"

definition sample_staged :: disk where
  "sample_staged =
    (let S = [''.remote-codex-transfer-t''] in
     \<lparr> dk_names = [(S @ [''state.json''], 4), (S @ [''data''], 3), (S @ [''lock''], 2), (S, 1)], dk_past = [],
       dk_inodes = (\<lambda>i. if i = 4 then sample_file ''unoo'' else if i = 3 then sample_file ''xy''
         else if i = 2 then sample_file [] else empty_dir),
       dk_next = 5, dk_device = 1 \<rparr>)"

definition sample_fates :: "fate list" where
  "sample_fates = replicate 28 \<lparr> ft_changes = [], ft_ending = Works \<rparr> @ [\<lparr> ft_changes = [], ft_ending = Dies (Some None) \<rparr>]"

lemma commit_verified_or_untouched_witness:
  "case ep_commit sample_endpoint ''a'' ''t'' ''xy''
      \<lparr> w_disk = sample_staged, w_fates = sample_fates, w_stops = [], w_dead = False \<rparr> of (r, w) \<Rightarrow>
    (let T = [''a'']; d1 = w_disk w; d2 = power_loss 1 (\<lambda>_. []) d1 in
     (target_bytes T d1 = target_bytes T sample_staged \<or> target_verified sample_endpoint ''xy'' T d1)
     \<and> (target_bytes T d2 = target_bytes T sample_staged \<or> target_verified sample_endpoint ''xy'' T d2)
     \<and> (case r of
          Inl _ \<Rightarrow> True
        | Inr reply \<Rightarrow> reply = Reply_Done \<and> ((target_verified sample_endpoint ''xy'' T d1 \<and> target_verified sample_endpoint ''xy'' T d2)
            \<or> (case stored_journal sample_endpoint [''.remote-codex-transfer-t''] sample_staged of
                 None \<Rightarrow> False
               | Some j \<Rightarrow> (case jn_digest j of None \<Rightarrow> False | Some g \<Rightarrow> target_verified sample_endpoint g T d1)))))"
  unfolding Let_def
  by (rule commit_verified_or_untouched [unfolded Let_def])
    (simp_all add: stage_dir_def path_components_def stage_name_def stage_prefix_def sample_endpoint_def sample_staged_def
      sample_file_def empty_file_def separate_def target_settled_def no_changes_def sample_fates_def images_def starts_with_def
      Let_def list_all_iff)

end
