(* ===== verification/Transfer_Listing.thy ===== *)
theory Transfer_Listing
  imports Transfer_Logic
begin

text \<open>
  Pages of a directory: \<open>list\<close> of \<open>transfer/src/inspect.rs\<close> keeps at most 101 names while it
  enumerates, and the client's \<open>scan\<close> (\<open>client/src/transfers/scan.rs\<close>) asks for page after
  page.  Together they list every name once, in order, whatever the order of the enumeration.
\<close>

section \<open>The bounded set\<close>

lemma take_insort: "take k (insort x (take k xs)) = take k (insort x xs)"
proof (induction xs arbitrary: k)
  case (Cons a xs)
  show ?case
  proof (cases k)
    case (Suc j)
    then show ?thesis using Cons.IH [of j] by (cases j) simp_all
  qed simp
qed simp

lemma take_insort_late:
  assumes "\<And>y. y \<in> set (take k xs) \<Longrightarrow> y < x" "k \<le> length xs"
  shows "take k (insort x (take k xs)) = take k xs"
proof -
  have "insort x ys = ys @ [x]" if "\<forall>y\<in>set ys. y < x" for ys
    using that by (induction ys) (auto simp: not_le)
  then show ?thesis using assms by simp
qed

lemma take_set_insert:
  fixes A :: "'a :: linorder set"
  assumes "finite A"
  defines "L \<equiv> sorted_list_of_set A"
  shows "take k (sorted_list_of_set (insert x (set (take k L)))) = take k (sorted_list_of_set (insert x A))"
proof -
  have L: "sorted L" "distinct L" "set L = A" using assms by simp_all
  have T: "sorted_list_of_set (set (take k L)) = take k L"
    by (rule sorted_distinct_set_unique) (use L in \<open>simp_all add: sorted_wrt_take\<close>)
  have ins: "sorted_list_of_set (insert y B) = (if y \<in> B then sorted_list_of_set B else insort y (sorted_list_of_set B))"
    if "finite B" for y and B :: "'a set"
    using that by (cases "y \<in> B") (simp_all add: insert_absorb sorted_list_of_set_insert)
  show ?thesis
  proof (cases "x \<in> set (take k L)")
    case True
    then have "x \<in> A" using L(3) in_set_takeD by fastforce
    then show ?thesis using True by (simp add: insert_absorb T) (simp add: L_def)
  next
    case out: False
    show ?thesis
    proof (cases "x \<in> A")
      case False
      then show ?thesis using out assms by (simp add: ins T [unfolded L_def] take_insort)
    next
      case True
      then obtain i where i: "i < length L" "L ! i = x" using L(3) by (metis in_set_conv_nth)
      have k: "k \<le> i"
      proof (rule ccontr)
        assume "\<not> k \<le> i"
        then have "take k L ! i \<in> set (take k L)" using i(1) by (intro nth_mem) simp
        then show False using out i \<open>\<not> k \<le> i\<close> by simp
      qed
      have "y < x" if "y \<in> set (take k L)" for y
      proof -
        obtain j where "j < k" "y = L ! j" using \<open>y \<in> set (take k L)\<close> by (auto simp: in_set_conv_nth)
        then show ?thesis using L(1,2) i k
          by (metis (no_types, lifting) le_less_trans less_le_trans nat_less_le nth_eq_iff_index_eq order_less_imp_le order_less_trans sorted_nth_mono order.not_eq_order_implies_strict)
      qed
      then have "take k (insort x (take k L)) = take k L" using i k by (intro take_insort_late) simp_all
      then show ?thesis using True out assms by (simp add: ins T [unfolded L_def] insert_absorb)
    qed
  qed
qed

lemma remdups_insort:
  "sorted xs \<Longrightarrow> distinct xs \<Longrightarrow> remdups_adj (insort x xs) = (if x \<in> set xs then xs else insort x xs)"
proof (induction xs)
  case (Cons a xs)
  then have xs: "sorted xs" "distinct xs" by simp_all
  show ?case
  proof (cases "x \<in> set xs")
    case True
    then have x: "\<not> x \<le> a" "remdups_adj (insort x xs) = xs" "xs \<noteq> []" "hd xs \<noteq> a"
      using Cons by (force, simp, force, cases xs, auto)
    then show ?thesis using True by (cases xs) (simp_all add: remdups_adj_Cons)
  next
    case False
    show ?thesis
    proof (cases "x = a")
      case True
      then show ?thesis using Cons.prems by (simp add: remdups_adj_distinct)
    next
      case new: False
      then have "distinct (insort x (a # xs))" using Cons.prems False by (simp only: distinct_insort set_simps insert_iff simp_thms)
      then show ?thesis using False new by (simp only: remdups_adj_distinct) simp
    qed
  qed
qed simp

lemma insert_bounded_set:
  fixes x :: string
  assumes "sorted names" "distinct names" "length names \<le> 101"
  shows "insert_bounded x names = take 101 (sorted_list_of_set (insert x (set names)))"
proof -
  have T: "sorted_list_of_set (set names) = names"
    by (rule sorted_distinct_set_unique) (use assms in simp_all)
  have eq: "remdups_adj (insort x names) = sorted_list_of_set (insert x (set names))"
  proof (cases "x \<in> set names")
    case True
    then show ?thesis using assms by (simp add: remdups_insort insert_absorb T)
  next
    case False
    then show ?thesis using assms by (simp add: remdups_insort sorted_list_of_set_insert T)
  qed
  have "length (sorted_list_of_set (insert x (set names))) \<le> 102"
    using remdups_adj_length [of "insort x names"] assms(3) unfolding eq by simp
  moreover have "(if length l > 101 then butlast l else l) = take 101 l" if "length l \<le> 102" for l :: "string list"
  proof (cases "length l > 101")
    case True
    then have "length l - 1 = 101" using that by simp
    then show ?thesis using True by (simp add: butlast_conv_take)
  qed simp
  ultimately show ?thesis unfolding insert_bounded_def Let_def eq by blast
qed

lemma collect_bounded:
  fixes A :: "string set"
  assumes "finite A"
  shows "fold insert_bounded xs (take 101 (sorted_list_of_set A)) = take 101 (sorted_list_of_set (A \<union> set xs))"
  using assms
proof (induction xs arbitrary: A)
  case (Cons x xs)
  have "insert_bounded x (take 101 (sorted_list_of_set A)) = take 101 (sorted_list_of_set (insert x A))"
    using take_set_insert [OF Cons.prems, of 101 x] by (subst insert_bounded_set) (simp_all add: sorted_wrt_take)
  then show ?case using Cons.IH [of "insert x A"] Cons.prems by simp
qed simp

section \<open>A page\<close>

text \<open>No other program, no fault, nobody stops the endpoint.\<close>

definition idle :: "world \<Rightarrow> bool" where
  "idle w \<longleftrightarrow> w_fates w = [] \<and> w_stops w = [] \<and> \<not> w_dead w"

lemma idle_syscall: "idle w \<Longrightarrow> calm c \<Longrightarrow> syscall c w = (Inr (fst (c None (w_disk w))), w)"
  by (simp add: idle_def syscall_def calm_def)

lemma idle_call: "idle w \<Longrightarrow> calm c \<Longrightarrow> fst (c None (w_disk w)) = Inr x \<Longrightarrow> io_call c w = (Inr x, w)"
  by (simp add: io_call_def bnd_def idle_syscall)

lemma idle_nothing: "idle w \<Longrightarrow> thn (io_call nothing) m w = m w"
  by (simp add: thn_def bnd_def idle_call [where x = "()"] nothing_def calm_def)

lemma idle_check: "idle w \<Longrightarrow> thn check_cancelled m w = m w"
  by (simp add: thn_def bnd_def check_cancelled_def idle_def)

lemma bnd_at: "m w = (Inr x, w') \<Longrightarrow> bnd m k w = k x w'"
  by (simp add: bnd_def)

definition hidden :: "Endpoint \<Rightarrow> disk \<Rightarrow> path \<Rightarrow> string \<Rightarrow> bool" where
  "hidden E d dir name \<longleftrightarrow>
    (case strip_prefix name stage_prefix of
       None \<Rightarrow> False
     | Some rest \<Rightarrow> ep_uuid E rest \<noteq> None \<and> is_dir d (dir @ [name])
         \<and> (case map_of (dk_names d) (dir @ [name, ''state.json'']) of
              None \<Rightarrow> False
            | Some i \<Rightarrow> nd_kind (dk_inodes d i) = Node_File))"

definition visible :: "Endpoint \<Rightarrow> disk \<Rightarrow> path \<Rightarrow> string option \<Rightarrow> string list \<Rightarrow> string list" where
  "visible E d dir after names =
    filter (\<lambda>n. \<not> hidden E d dir n \<and> (case after of None \<Rightarrow> True | Some a \<Rightarrow> a < n)) names"

lemma idle_internal: "idle w \<Longrightarrow> is_internal E dir name w = (Inr (hidden E (w_disk w) dir name), w)"
  by (auto simp: is_internal_def hidden_def bnd_def idle_syscall open_dir_def lstat_def split: option.split)

lemma idle_collect:
  "idle w \<Longrightarrow> collect_names E dir after rest names w = (Inr (fold insert_bounded (visible E (w_disk w) dir after rest) names), w)"
proof (induction rest arbitrary: names)
  case (Cons n rest)
  then show ?case
    by (simp add: idle_check idle_nothing idle_internal bnd_def visible_def not_le split: option.split) (auto dest: leD)
qed (simp add: visible_def)

text \<open>The names listed exist.\<close>

definition stamps :: "disk \<Rightarrow> path \<Rightarrow> string list \<Rightarrow> Entry list" where
  "stamps d dir names = map (\<lambda>n. \<lparr> en_name = n, en_stamp = (case named d (dir @ [n]) of
     None \<Rightarrow> stamp_of (dk_device d) (0, dk_inodes d 0) | Some i \<Rightarrow> stamp_of (dk_device d) (i, dk_inodes d i)) \<rparr>) names"

lemma idle_entries:
  assumes "idle w"
  shows "\<forall>n\<in>set names. named (w_disk w) (dir @ [n]) \<noteq> None \<Longrightarrow> stamp_entries dir names w = (Inr (stamps (w_disk w) dir names), w)"
proof (induction names)
  case (Cons n names)
  then obtain i where i: "named (w_disk w) (dir @ [n]) = Some i" by auto
  have "io_call (lstamp (dir @ [n])) w = (Inr (stamp_of (dk_device (w_disk w)) (i, dk_inodes (w_disk w) i)), w)"
    by (rule idle_call [OF assms]) (simp_all add: lstamp_def lstat_def i)
  then show ?case using Cons i by (simp add: bnd_def stamps_def)
qed (simp add: stamps_def)

lemma idle_list:
  assumes w: "idle w" and dir: "ep_directory p w = (Inr dir, w)"
    and names: "\<forall>n\<in>set (enumeration dir). named (w_disk w) (dir @ [n]) \<noteq> None"
    and V_def: "V = sorted_list_of_set (set (visible E (w_disk w) dir after (enumeration dir)))"
  shows "ep_list E enumeration p after w = (Inr \<lparr> pg_entries = stamps (w_disk w) dir (take 100 V),
    pg_after = (if length V > 100 then Some (V ! 99) else None) \<rparr>, w)"
proof -
  let ?vs = "visible E (w_disk w) dir after (enumeration dir)"
  have V: "set V = set ?vs" by (simp add: V_def)
  have got: "collect_names E dir after (enumeration dir) [] w = (Inr (take 101 V), w)"
    using collect_bounded [of "{}" ?vs] by (simp add: idle_collect [OF w] V_def)
  have more: "(if length (take 101 V) > 100 then butlast (take 101 V) else take 101 V) = take 100 V"
    by (cases "length V > 100") (simp_all add: butlast_take min_def)
  have last: "(if length (take 101 V) > 100 then Some (last (take 100 V)) else None) = (if length V > 100 then Some (V ! 99) else None)"
  proof (cases "length V > 100")
    case True
    then have "take 100 V \<noteq> []" "length (take 100 V) = 100" by (cases V; simp)+
    then show ?thesis using True by (simp add: last_conv_nth)
  qed simp
  have "\<forall>n\<in>set (take 100 V). named (w_disk w) (dir @ [n]) \<noteq> None"
    using names V in_set_takeD [of _ 100 V] by (auto simp: visible_def)
  then have entries: "stamp_entries dir (take 100 V) w = (Inr (stamps (w_disk w) dir (take 100 V)), w)"
    by (rule idle_entries [OF w])
  show ?thesis
    unfolding ep_list_def Let_def
    by (subst bnd_at, rule dir, subst idle_nothing [OF w], subst bnd_at, rule got, unfold more last, subst bnd_at, rule entries) simp
qed

end
