(* ===== verification/Client_Transfer.thy ===== *)
theory Client_Transfer
  imports Client_Error Protocol_Wire
begin

text \<open>
  Models the engine of file transfers of the client: \<open>client/src/transfers/model.rs\<close>,
  \<open>conflict.rs\<close>, \<open>copy.rs\<close>, \<open>scan.rs\<close> and \<open>engine.rs\<close>, and its tables
  (\<open>client/src/store/transfers.rs\<close>).  The two endpoints are a parameter \<open>call\<close>: whether the
  source is asked, the root, the command and its bytes, on a state of any type.  A call may
  answer anything.  Every call and every write of the store is recorded, a call with what the
  store held.  Unsigned numbers of 64 bits are natural numbers; their sums saturate or wrap
  as in the code.
\<close>

section \<open>Tasks and items\<close>

datatype Direction = Upload | Download

datatype Status = Queued | Paused | Preparing | Running | Reconnecting | In_Conflict | Completed | Cancelled

datatype Choice = Replace | KeepBoth | Skip | Merge

record Conflict =
  cf_path :: string
  cf_source :: Kind
  cf_destination :: Kind
  cf_expected :: Stamp

record Transfer =
  tf_id :: string
  tf_name :: string
  tf_server :: string
  tf_workspace :: string
  tf_direction :: Direction
  tf_destination :: string
  tf_status :: Status
  tf_bytes :: nat
  tf_total :: nat
  tf_files :: nat
  tf_completed :: nat
  tf_skipped :: nat
  tf_message :: "string option"
  tf_error_code :: "string option"
  tf_conflict :: "Conflict option"
  tf_active :: bool
  tf_owned :: bool

record Transfer_Source =
  so_root :: nat
  so_path :: string

record Task =
  tk_view :: Transfer
  tk_server_id :: string
  tk_sources :: "Transfer_Source list"
  tk_remote_identity :: "string option"
  tk_remote_root :: "RootIdentity option"
  tk_scanned :: bool
  tk_cancel :: bool
  tk_current :: "nat option"
  tk_policy :: "Choice option"

record Item =
  it_index :: nat
  it_parent :: "nat option"
  it_root :: nat
  it_source :: string
  it_target :: string
  it_stamp :: Stamp
  it_token :: string
  it_expected :: "Stamp option"
  it_prepared :: bool
  it_bytes :: nat
  it_done :: bool
  it_skipped :: bool
  it_choice :: "Choice option"
  it_restart :: bool
  it_restage :: bool

fun trim_end_slashes :: "string \<Rightarrow> string" where
  "trim_end_slashes s = rev (dropWhile (\<lambda>c. c = CHR ''/'') (rev s))"

definition join_path :: "string \<Rightarrow> string \<Rightarrow> string" where
  "join_path parent name = (if parent = [] then name else trim_end_slashes parent @ ''/'' @ name)"

section \<open>Effects\<close>

datatype transfer_step =
  Called bool nat Command string "Item list"
| Item_Stored Item
| Task_Stored Task
| Items_Reset

record 'p transfer_world =
  tw_peers :: 'p
  tw_items :: "Item list"
  tw_task :: "Task option"
  tw_tokens :: "string list"
  tw_store_fails :: "bool list"
  tw_steps :: "transfer_step list"

text \<open>A run that has used up the bound on its loops is still going on.\<close>

datatype 'a outcome = Came 'a | Raised ClientError | Going

type_synonym ('s, 'a) run = "'s \<Rightarrow> 'a outcome \<times> 's"

definition give :: "'a \<Rightarrow> ('s, 'a) run" where
  "give x s = (Came x, s)"

definition raise :: "ClientError \<Rightarrow> ('s, 'a) run" where
  "raise e s = (Raised e, s)"

definition going :: "('s, 'a) run" where
  "going s = (Going, s)"

definition andthen :: "('s, 'a) run \<Rightarrow> ('a \<Rightarrow> ('s, 'b) run) \<Rightarrow> ('s, 'b) run" where
  "andthen m k s = (case m s of
     (Came x, s) \<Rightarrow> k x s
   | (Raised e, s) \<Rightarrow> (Raised e, s)
   | (Going, s) \<Rightarrow> (Going, s))"

definition before :: "('s, 'a) run \<Rightarrow> ('s, 'b) run \<Rightarrow> ('s, 'b) run" where
  "before m k = andthen m (\<lambda>_. k)"

text \<open>\<open>?\<close> on an option, and a match on the error of an action.\<close>

definition orelse :: "ClientError \<Rightarrow> 'a option \<Rightarrow> ('s, 'a) run" where
  "orelse e x = (case x of None \<Rightarrow> raise e | Some v \<Rightarrow> give v)"

definition outcome_of :: "('s, 'a) run \<Rightarrow> ('s, ClientError + 'a) run" where
  "outcome_of m s = (case m s of
     (Came x, s) \<Rightarrow> (Came (Inr x), s)
   | (Raised e, s) \<Rightarrow> (Came (Inl e), s)
   | (Going, s) \<Rightarrow> (Going, s))"

text \<open>\<open>?\<close> in a function with mutable arguments: an early return leaves them as they are then.\<close>

definition attempt :: "'c \<Rightarrow> ('s, 'a) run \<Rightarrow> ('a \<Rightarrow> ('s, ClientError option \<times> 'c) run) \<Rightarrow> ('s, ClientError option \<times> 'c) run" where
  "attempt here m k = andthen (outcome_of m) (\<lambda>r. case r of Inl e \<Rightarrow> give (Some e, here) | Inr x \<Rightarrow> k x)"

section \<open>Store\<close>

text \<open>A write of the store is one transaction, which may fail.\<close>

definition storing :: "('p transfer_world \<Rightarrow> 'p transfer_world) \<Rightarrow> ('p transfer_world, unit) run" where
  "storing f s = (case tw_store_fails s of
     True # bs \<Rightarrow> (Raised Err_Storage, s\<lparr> tw_store_fails := bs \<rparr>)
   | False # bs \<Rightarrow> (Came (), f (s\<lparr> tw_store_fails := bs \<rparr>))
   | [] \<Rightarrow> (Came (), f s))"

fun put_item :: "Item \<Rightarrow> Item list \<Rightarrow> Item list" where
  "put_item i [] = [i]"
| "put_item i (j # js) =
    (if it_index i = it_index j then i # js
     else if it_index i < it_index j then i # j # js
     else j # put_item i js)"

definition transfer_item :: "Item \<Rightarrow> ('p transfer_world, unit) run" where
  "transfer_item i = storing (\<lambda>s. s\<lparr> tw_items := put_item i (tw_items s), tw_steps := tw_steps s @ [Item_Stored i] \<rparr>)"

definition transfer_save :: "Task \<Rightarrow> ('p transfer_world, unit) run" where
  "transfer_save t = storing (\<lambda>s. s\<lparr> tw_task := Some t, tw_steps := tw_steps s @ [Task_Stored t] \<rparr>)"

definition transfer_reset_scan :: "('p transfer_world, unit) run" where
  "transfer_reset_scan = storing (\<lambda>s. s\<lparr> tw_items := [], tw_steps := tw_steps s @ [Items_Reset] \<rparr>)"

definition transfer_items :: "('p transfer_world, Item list) run" where
  "transfer_items s = (case tw_store_fails s of
     True # bs \<Rightarrow> (Raised Err_Storage, s\<lparr> tw_store_fails := bs \<rparr>)
   | False # bs \<Rightarrow> (Came (tw_items s), s\<lparr> tw_store_fails := bs \<rparr>)
   | [] \<Rightarrow> (Came (tw_items s), s))"

definition stored_task :: "('p transfer_world, Task) run" where
  "stored_task s = (case tw_store_fails s of
     True # bs \<Rightarrow> (Raised Err_Storage, s\<lparr> tw_store_fails := bs \<rparr>)
   | False # bs \<Rightarrow> orelse Err_NotFound (tw_task s) (s\<lparr> tw_store_fails := bs \<rparr>)
   | [] \<Rightarrow> orelse Err_NotFound (tw_task s) s)"

text \<open>\<open>publish\<close> also shows the task to a callback.\<close>

definition publish :: "Task \<Rightarrow> ('p transfer_world, unit) run" where
  "publish = transfer_save"

text \<open>\<open>Uuid::new_v4\<close>\<close>

definition new_token :: "('p transfer_world, string) run" where
  "new_token s = (case tw_tokens s of [] \<Rightarrow> (Came [], s) | t # ts \<Rightarrow> (Came t, s\<lparr> tw_tokens := ts \<rparr>))"

section \<open>Peers\<close>

type_synonym 'p peers = "bool \<Rightarrow> nat \<Rightarrow> Command \<Rightarrow> string \<Rightarrow> 'p \<Rightarrow> (ClientError + Reply \<times> string) \<times> 'p"

definition peers_call :: "'p peers \<Rightarrow> bool \<Rightarrow> nat \<Rightarrow> Command \<Rightarrow> string \<Rightarrow> ('p transfer_world, Reply \<times> string) run" where
  "peers_call call source root c bytes s =
    (case call source root c bytes (tw_peers s) of
       (r, p) \<Rightarrow>
         (case r of Inl e \<Rightarrow> Raised e | Inr x \<Rightarrow> Came x,
          s\<lparr> tw_peers := p, tw_steps := tw_steps s @ [Called source root c bytes (tw_items s)] \<rparr>))"

definition peers_stat :: "'p peers \<Rightarrow> bool \<Rightarrow> nat \<Rightarrow> string \<Rightarrow> ('p transfer_world, Stamp option) run" where
  "peers_stat call source root path =
    andthen (peers_call call source root (Cmd_Stat path) []) (\<lambda>(r, _).
      case r of Reply_Stat m \<Rightarrow> give m | _ \<Rightarrow> raise Err_RemoteResponse)"

section \<open>Numbers\<close>

definition u64 :: nat where
  "u64 = 2 ^ 64"

definition sat_add :: "nat \<Rightarrow> nat \<Rightarrow> nat" where
  "sat_add a b = min (u64 - 1) (a + b)"

definition checked_add :: "nat \<Rightarrow> nat \<Rightarrow> nat option" where
  "checked_add a b = (if a + b < u64 then Some (a + b) else None)"

section \<open>Conflicts\<close>

definition rsplit_once :: "char \<Rightarrow> string \<Rightarrow> (string \<times> string) option" where
  "rsplit_once c s =
    (if c \<notin> set s then None
     else Some (rev (tl (dropWhile (\<lambda>x. x \<noteq> c) (rev s))), rev (takeWhile (\<lambda>x. x \<noteq> c) (rev s))))"

definition alternate :: "string \<Rightarrow> nat \<Rightarrow> bool \<Rightarrow> string" where
  "alternate path number directory =
    (let (parent, name) = (case rsplit_once (CHR ''/'') path of None \<Rightarrow> ([], path) | Some x \<Rightarrow> x);
         (stem, extension) =
           (if directory then (name, None)
            else (case rsplit_once (CHR ''.'') name of
              None \<Rightarrow> (name, None)
            | Some (s, e) \<Rightarrow> if s = [] then (name, None) else (s, Some e))) in
     join_path parent (stem @ '' ('' @ show_nat number @ '')'' @ (case extension of None \<Rightarrow> [] | Some e \<Rightarrow> ''.'' @ e)))"

definition ask :: "Task \<Rightarrow> Item \<Rightarrow> Stamp \<Rightarrow> Task" where
  "ask task item stamp = task\<lparr> tk_view := (tk_view task)\<lparr> tf_status := In_Conflict,
     tf_conflict := Some \<lparr> cf_path = it_target item, cf_source = sp_kind (it_stamp item),
       cf_destination = sp_kind stamp, cf_expected = stamp \<rparr> \<rparr> \<rparr>"

fun keep_both :: "'p peers \<Rightarrow> string \<Rightarrow> nat list \<Rightarrow> Item \<Rightarrow> ('p transfer_world, Item) run" where
  "keep_both call original [] item = raise (Err_Argument ''Could not find an unused destination name.'')"
| "keep_both call original (n # ns) item =
    (let item = item\<lparr> it_target := alternate original n (sp_kind (it_stamp item) = Kind_Directory) \<rparr> in
     andthen (peers_stat call False (it_root item) (it_target item)) (\<lambda>m.
       if m = None then give (item\<lparr> it_expected := None \<rparr>)
       else keep_both call original ns item))"

definition allowed_choice :: "Task \<Rightarrow> Item \<Rightarrow> Stamp \<Rightarrow> Choice option" where
  "allowed_choice task item stamp =
    (case (case it_choice item of None \<Rightarrow> tk_policy task | Some c \<Rightarrow> Some c) of
       None \<Rightarrow> None
     | Some c \<Rightarrow>
         if (case c of
               Replace \<Rightarrow> sp_kind stamp = Kind_File \<and> sp_kind (it_stamp item) = Kind_File
             | Merge \<Rightarrow> sp_kind stamp = Kind_Directory \<and> sp_kind (it_stamp item) = Kind_Directory
             | _ \<Rightarrow> True)
           then Some c else None)"

text \<open>Whether the item may go on, with the task and the item as they are then.\<close>

definition destination :: "'p peers \<Rightarrow> Task \<Rightarrow> Item \<Rightarrow> ('p transfer_world, bool \<times> Task \<times> Item) run" where
  "destination call task item =
    (if it_prepared item then give (True, task, item)
     else
       andthen (peers_stat call False (it_root item) (it_target item)) (\<lambda>existing. case existing of
         None \<Rightarrow> give (True, task, item\<lparr> it_expected := None \<rparr>)
       | Some stamp \<Rightarrow>
           if (case tf_conflict (tk_view task) of None \<Rightarrow> False | Some c \<Rightarrow> it_choice item \<noteq> None \<and> cf_expected c \<noteq> stamp)
             then give (False, ask (task\<lparr> tk_view := (tk_view task)\<lparr> tf_conflict := None \<rparr> \<rparr>) item stamp,
               item\<lparr> it_choice := None \<rparr>)
           else
             (case allowed_choice task item stamp of
                Some Skip \<Rightarrow> give (True, task, item\<lparr> it_skipped := True \<rparr>)
              | Some Replace \<Rightarrow> give (True, task, item\<lparr> it_expected := Some stamp \<rparr>)
              | Some Merge \<Rightarrow> give (True, task, item\<lparr> it_expected := Some stamp \<rparr>)
              | Some KeepBoth \<Rightarrow>
                  andthen (keep_both call (it_target item) [2..<10000] item) (\<lambda>item. give (True, task, item))
              | None \<Rightarrow> give (False, ask task item stamp, item))))"

section \<open>One file\<close>

text \<open>The error of a copy with the task and the item, which it changes in place.\<close>

type_synonym 'p copying = "('p transfer_world, ClientError option \<times> Task \<times> Item) run"

text \<open>The loop, with a bound on its rounds; progress shown between blocks is left out.\<close>

fun copy_blocks :: "nat \<Rightarrow> 'p peers \<Rightarrow> (string \<Rightarrow> string) \<Rightarrow> Task \<Rightarrow> Item \<Rightarrow> nat \<Rightarrow> 'p copying" where
  "copy_blocks rounds call sha task item offset =
    (if offset \<ge> sp_length (it_stamp item) then give (None, task, item)
     else case rounds of 0 \<Rightarrow> going | Suc rounds \<Rightarrow>
       attempt (task, item) (peers_call call True (it_root item) (Cmd_Read (it_source item) (it_stamp item) offset) []) (\<lambda>(r, bytes).
       case r of Reply_Data digest \<Rightarrow>
         (if bytes = [] \<or> sha bytes \<noteq> digest then give (Some Err_Integrity, task, item)
          else
            let size = length bytes in
            attempt (task, item) (peers_call call False (it_root item) (Cmd_Write (it_target item) (it_token item) offset digest) bytes) (\<lambda>(r, _).
            case r of Reply_Ready confirmed False \<Rightarrow>
              (if confirmed \<noteq> (offset + size) mod u64 \<or> confirmed > sp_length (it_stamp item) then give (Some Err_RemoteResponse, task, item)
               else
                 let item = item\<lparr> it_bytes := confirmed \<rparr>;
                     task = task\<lparr> tk_view := (tk_view task)\<lparr> tf_bytes := (tf_bytes (tk_view task) + size) mod u64 \<rparr> \<rparr> in
                 attempt (task, item) (transfer_item item) (\<lambda>_. copy_blocks rounds call sha task item confirmed))
            | _ \<Rightarrow> give (Some Err_RemoteResponse, task, item)))
       | _ \<Rightarrow> give (Some Err_RemoteResponse, task, item)))"

declare copy_blocks.simps [simp del]

definition copy_verify :: "'p peers \<Rightarrow> Task \<Rightarrow> Item \<Rightarrow> 'p copying" where
  "copy_verify call task item =
    (let task = task\<lparr> tk_view := (tk_view task)\<lparr> tf_message := Some (''Verifying '' @ it_target item) \<rparr> \<rparr> in
     attempt (task, item) (peers_call call True (it_root item) (Cmd_Hash (it_source item) (it_stamp item)) []) (\<lambda>(r, _).
     case r of Reply_Hash digest \<Rightarrow>
       attempt (task, item) (peers_call call False (it_root item) (Cmd_Commit (it_target item) (it_token item) digest) []) (\<lambda>_.
         give (None, task\<lparr> tk_view := (tk_view task)\<lparr> tf_message := None \<rparr> \<rparr>, item))
     | _ \<Rightarrow> give (Some Err_RemoteResponse, task, item)))"

definition copy_prepared :: "'p peers \<Rightarrow> (string \<Rightarrow> string) \<Rightarrow> Task \<Rightarrow> Item \<Rightarrow> nat \<Rightarrow> bool \<Rightarrow> 'p copying" where
  "copy_prepared call sha task item offset complete =
    (if offset > sp_length (it_stamp item) then give (Some Err_RemoteResponse, task, item)
     else
       let task = task\<lparr> tk_view := (tk_view task)\<lparr> tf_bytes := sat_add (tf_bytes (tk_view task) - it_bytes item) offset \<rparr> \<rparr>;
           item = item\<lparr> it_bytes := offset, it_prepared := True \<rparr> in
       attempt (task, item) (transfer_item item) (\<lambda>_.
         if complete then give (None, task, item)
         else
           andthen (copy_blocks (sp_length (it_stamp item)) call sha task item offset) (\<lambda>(e, task, item).
             if e \<noteq> None then give (e, task, item) else copy_verify call task item)))"

definition copy_file :: "'p peers \<Rightarrow> (string \<Rightarrow> string) \<Rightarrow> Task \<Rightarrow> Item \<Rightarrow> 'p copying" where
  "copy_file call sha task item =
    (let item = item\<lparr> it_prepared := True \<rparr> in
     attempt (task, item) (transfer_item item) (\<lambda>_.
     attempt (task, item) (peers_call call False (it_root item) (Cmd_Prepare (it_target item) (it_token item) (it_stamp item) (it_expected item)) [])
       (\<lambda>(r, _). case r of Reply_Ready offset complete \<Rightarrow> copy_prepared call sha task item offset complete
        | _ \<Rightarrow> give (Some Err_RemoteResponse, task, item))))"

section \<open>Scan\<close>

definition too_many :: ClientError where
  "too_many = Err_Argument ''Transfer exceeds 100,000 entries. Select smaller folders.''"

text \<open>The pages of a directory, with a bound on their number.\<close>

fun scan_children :: "nat \<Rightarrow> 'p peers \<Rightarrow> nat \<Rightarrow> string \<Rightarrow> nat \<Rightarrow> nat \<Rightarrow> string option \<Rightarrow> (nat \<times> string \<times> nat option) list
    \<Rightarrow> ('p transfer_world, (nat \<times> string \<times> nat option) list) run" where
  "scan_children 0 call root path index pending after children = going"
| "scan_children (Suc pages) call root path index pending after children =
    andthen (peers_call call True root (Cmd_List path after) []) (\<lambda>(r, _).
    case r of Reply_List page \<Rightarrow>
      let children = children @ map (\<lambda>e. (root, join_path path (en_name e), Some index)) (pg_entries page) in
      if pg_after page = None then give children
      else if pending + length children > 100000 then raise (Err_Argument ''Directory is too large. Select smaller folders.'')
      else scan_children pages call root path index pending (pg_after page) children
    | _ \<Rightarrow> raise Err_RemoteResponse)"

text \<open>The stack has its top first; the index bounds the rounds.\<close>

definition scan_item :: "nat \<Rightarrow> nat option \<Rightarrow> nat \<Rightarrow> string \<Rightarrow> Stamp \<Rightarrow> string \<Rightarrow> Item" where
  "scan_item index parent root path stamp token =
    \<lparr> it_index = index, it_parent = parent, it_root = root, it_source = path, it_target = [], it_stamp = stamp,
      it_token = token, it_expected = None, it_prepared = False, it_bytes = 0, it_done = False, it_skipped = False,
      it_choice = None, it_restart = False, it_restage = False \<rparr>"

fun scan_entries :: "nat \<Rightarrow> nat \<Rightarrow> 'p peers \<Rightarrow> Task \<Rightarrow> (nat \<times> string \<times> nat option) list \<Rightarrow> nat \<Rightarrow> ('p transfer_world, Task) run" where
  "scan_entries rounds pages call task [] index = give task"
| "scan_entries rounds pages call task ((root, path, parent) # pending) index =
    (if index \<ge> 100000 then raise too_many
     else case rounds of 0 \<Rightarrow> going | Suc rounds \<Rightarrow>
       andthen (peers_stat call True root path) (\<lambda>m.
       andthen (orelse (Err_Argument ''Source no longer exists.'') m) (\<lambda>stamp.
       andthen new_token (\<lambda>token.
       before (transfer_item (scan_item index parent root path stamp token))
       (andthen (if sp_kind stamp = Kind_File
           then orelse (Err_Argument ''Transfer size exceeds the supported range.'') (checked_add (tf_total (tk_view task)) (sp_length stamp))
           else give (tf_total (tk_view task))) (\<lambda>size.
        let task = task\<lparr> tk_view := (tk_view task)\<lparr> tf_total := size, tf_files := tf_files (tk_view task) + 1 \<rparr> \<rparr> in
        andthen (if sp_kind stamp = Kind_Directory
            then scan_children pages call root path index (length pending) None []
            else give []) (\<lambda>children.
        before (if (index + 1) mod 100 = 0 then publish task else give ())
          (scan_entries rounds pages call task (children @ pending) (index + 1)))))))))"

declare scan_entries.simps [simp del]

definition scan :: "nat \<Rightarrow> 'p peers \<Rightarrow> Task \<Rightarrow> ('p transfer_world, Task) run" where
  "scan pages call task =
    before transfer_reset_scan
      (let task = task\<lparr> tk_view := (tk_view task)\<lparr> tf_status := Preparing, tf_total := 0, tf_files := 0 \<rparr> \<rparr> in
       before (publish task)
         (andthen (scan_entries 100000 pages call task (map (\<lambda>s. (so_root s, so_path s, None)) (tk_sources task)) 0) (\<lambda>task.
          let task = task\<lparr> tk_scanned := True \<rparr> in
          before (publish task) (give task))))"


section \<open>Engine\<close>

text \<open>\<open>source.rsplit('/').next()\<close>\<close>

definition last_part :: "string \<Rightarrow> string" where
  "last_part s = rev (takeWhile (\<lambda>x. x \<noteq> CHR ''/'') (rev s))"

definition nth_item :: "Item list \<Rightarrow> nat \<Rightarrow> Item option" where
  "nth_item items n = (if n < length items then Some (items ! n) else None)"

definition place_item :: "Task \<Rightarrow> Item list \<Rightarrow> Item \<Rightarrow> Item" where
  "place_item task items item =
    (if it_target item \<noteq> [] then item
     else
       let parent = (case it_parent item of None \<Rightarrow> None | Some n \<Rightarrow> nth_item items n);
           base = (case parent of
             Some i \<Rightarrow> it_target i
           | None \<Rightarrow> if tf_direction (tk_view task) = Upload then tf_destination (tk_view task) else []) in
       item\<lparr> it_target := join_path base (last_part (it_source item)),
         it_skipped := (case parent of None \<Rightarrow> False | Some i \<Rightarrow> it_skipped i) \<or> sp_kind (it_stamp item) = Kind_Unsupported \<rparr>)"

definition restart_item :: "'p peers \<Rightarrow> Task \<Rightarrow> Item \<Rightarrow> ('p transfer_world, Task \<times> Item) run" where
  "restart_item call task item =
    (if \<not> (it_restart item \<or> it_restage item) then give (task, item)
     else
       before (if it_prepared item
           then before (peers_call call False (it_root item) (Cmd_Cancel (it_target item) (it_token item)) []) (give ())
           else give ())
       (andthen (if \<not> it_restart item then give (task, item)
          else
            andthen (peers_stat call True (it_root item) (it_source item)) (\<lambda>m.
            andthen (orelse (Err_Argument ''Source no longer exists.'') m) (\<lambda>stamp.
            if sp_kind stamp \<noteq> Kind_File
              then raise (Err_Argument ''Source is no longer a regular file. Start a new transfer.'')
            else
              andthen (orelse (Err_Argument ''Transfer size exceeds the supported range.'')
                  (checked_add (tf_total (tk_view task) - sp_length (it_stamp item)) (sp_length stamp))) (\<lambda>size.
              give (task\<lparr> tk_view := (tk_view task)\<lparr> tf_total := size \<rparr> \<rparr>,
                item\<lparr> it_stamp := stamp, it_choice := None \<rparr>)))))
       (\<lambda>(task, item).
        andthen new_token (\<lambda>token.
        give (task\<lparr> tk_view := (tk_view task)\<lparr> tf_bytes := tf_bytes (tk_view task) - it_bytes item \<rparr> \<rparr>,
          item\<lparr> it_token := token, it_bytes := 0, it_prepared := False, it_restart := False, it_restage := False \<rparr>)))))"

definition copy_directory :: "'p peers \<Rightarrow> Item \<Rightarrow> ('p transfer_world, Item) run" where
  "copy_directory call item =
    (if \<not> it_prepared item \<and> it_expected item = None
       then
         let item = item\<lparr> it_prepared := True \<rparr> in
         before (transfer_item item)
           (before (peers_call call False (it_root item) (Cmd_Directory (it_target item)) []) (give item))
     else if it_prepared item
       then
         andthen (peers_stat call False (it_root item) (it_target item)) (\<lambda>m.
         if m = None then before (peers_call call False (it_root item) (Cmd_Directory (it_target item)) []) (give item)
         else give item)
     else give item)"

text \<open>A run ends early, with success, when a conflict has to be decided.\<close>

datatype 'a turn = Next 'a | Paused_Turn

definition copy_or_conflict ::
  "'p peers \<Rightarrow> (string \<Rightarrow> string) \<Rightarrow> Task \<Rightarrow> Item \<Rightarrow> ('p transfer_world, (Task \<times> Item) turn) run" where
  "copy_or_conflict call sha task item =
    before (transfer_item item)
     (andthen (copy_file call sha task item) (\<lambda>(e, task, item). case e of
        None \<Rightarrow> give (Next (task, item))
      | Some e \<Rightarrow>
          if client_code e \<noteq> ''TRANSFER_CONFLICT'' then raise e
          else
            andthen (peers_stat call False (it_root item) (it_target item)) (\<lambda>m. case m of
              None \<Rightarrow> raise e
            | Some stamp \<Rightarrow>
                let task = ask task item stamp; item = item\<lparr> it_choice := None \<rparr> in
                before (transfer_item item) (before (publish task) (give Paused_Turn)))))"

definition copy_item ::
  "'p peers \<Rightarrow> (string \<Rightarrow> string) \<Rightarrow> Task \<Rightarrow> Item list \<Rightarrow> nat \<Rightarrow> ('p transfer_world, (Task \<times> Item list) turn) run" where
  "copy_item call sha task items n =
    (let item = items ! n in
     if it_done item then give (Next (task, items))
     else
       let task = task\<lparr> tk_current := Some (it_index item) \<rparr>; item = place_item task items item in
       andthen (restart_item call task item) (\<lambda>(task, item).
       before (transfer_item item)
       (before (publish task)
       (andthen (if it_skipped item then give (True, task, item) else destination call task item) (\<lambda>(go, task, item).
        if \<not> go then before (transfer_item item) (before (publish task) (give Paused_Turn))
        else
          let task = task\<lparr> tk_view := (tk_view task)\<lparr> tf_conflict := None \<rparr> \<rparr> in
          andthen (if it_skipped item then give (Next (task, item))
            else if sp_kind (it_stamp item) = Kind_Directory
              then andthen (copy_directory call item) (\<lambda>item. give (Next (task, item)))
            else copy_or_conflict call sha task item) (\<lambda>t. case t of
              Paused_Turn \<Rightarrow> give Paused_Turn
            | Next (task, item) \<Rightarrow>
                let item = item\<lparr> it_done := True \<rparr>;
                    task = (if it_skipped item
                      then task\<lparr> tk_view := (tk_view task)\<lparr> tf_skipped := tf_skipped (tk_view task) + 1 \<rparr> \<rparr>
                      else task\<lparr> tk_view := (tk_view task)\<lparr> tf_completed := tf_completed (tk_view task) + 1 \<rparr> \<rparr>) in
                before (transfer_item item)
                  (before (publish task) (give (Next (task, items[n := item]))))))))))"

fun copy_items ::
  "'p peers \<Rightarrow> (string \<Rightarrow> string) \<Rightarrow> Task \<Rightarrow> Item list \<Rightarrow> nat list \<Rightarrow> ('p transfer_world, (Task \<times> Item list) turn) run" where
  "copy_items call sha task items [] = give (Next (task, items))"
| "copy_items call sha task items (n # ns) =
    andthen (copy_item call sha task items n) (\<lambda>t. case t of
      Paused_Turn \<Rightarrow> give Paused_Turn
    | Next (task, items) \<Rightarrow> copy_items call sha task items ns)"

fun cleanup :: "'p peers \<Rightarrow> Item list \<Rightarrow> ('p transfer_world, unit) run" where
  "cleanup call [] = give ()"
| "cleanup call (item # items) =
    (if \<not> (it_prepared item \<and> sp_kind (it_stamp item) = Kind_File) then cleanup call items
     else
       let cancel = peers_call call False (it_root item) (Cmd_Cancel (it_target item) (it_token item)) [] in
       andthen (outcome_of cancel) (\<lambda>r. case r of
         Inr _ \<Rightarrow> cleanup call items
       | Inl e \<Rightarrow>
           if client_code e \<noteq> ''TRANSFER_MISSING'' then raise e
           else
             andthen (outcome_of (peers_call call False (it_root item)
                 (Cmd_Prepare (it_target item) (it_token item) (it_stamp item) (it_expected item)) [])) (\<lambda>r. case r of
               Inl e \<Rightarrow>
                 if client_code e \<noteq> ''TRANSFER_CONFLICT'' then raise e
                 else before cancel (cleanup call items)
             | Inr _ \<Rightarrow> before cancel (cleanup call items))))"

fun directory_metadata :: "'p peers \<Rightarrow> Item list \<Rightarrow> ('p transfer_world, unit) run" where
  "directory_metadata call [] = give ()"
| "directory_metadata call (item # items) =
    before (peers_call call False (it_root item) (Cmd_Metadata (it_target item) (it_stamp item)) [])
      (directory_metadata call items)"

definition skipped_message :: "nat \<Rightarrow> string option" where
  "skipped_message n = (if n > 0 then Some (show_nat n @ '' entries skipped. Open details to review.'') else None)"

text \<open>\<open>run\<close>: the identity and the capabilities of the remote, and \<open>connect\<close>, its connection, which
  gives the identity of its root.\<close>

definition connecting :: "('p \<Rightarrow> (ClientError + RootIdentity) \<times> 'p) \<Rightarrow> ('p transfer_world, RootIdentity) run" where
  "connecting connect s = (case connect (tw_peers s) of
     (r, p) \<Rightarrow> (case r of Inl e \<Rightarrow> Raised e | Inr x \<Rightarrow> Came x, s\<lparr> tw_peers := p \<rparr>))"

definition transfer_run_start :: "string \<Rightarrow> string list \<Rightarrow> ('p \<Rightarrow> (ClientError + RootIdentity) \<times> 'p)
    \<Rightarrow> ('p transfer_world, Task) run" where
  "transfer_run_start identity capabilities connect =
    andthen stored_task (\<lambda>task.
    if (case tk_remote_identity task of None \<Rightarrow> False | Some old \<Rightarrow> old \<noteq> identity)
      then raise (Err_Argument ''Server identity changed. Verify the server before restarting this transfer.'')
    else if ''file-transfer-v1'' \<notin> set capabilities
      then raise (Err_Argument ''Finish active remote work and reconnect to install file transfer support.'')
    else
      let task = task\<lparr> tk_remote_identity := Some identity,
        tk_view := (tk_view task)\<lparr> tf_active := True, tf_owned := True \<rparr> \<rparr> in
      andthen (connecting connect) (\<lambda>root. give (task\<lparr> tk_remote_root := Some root \<rparr>)))"

definition count_progress :: "Task \<Rightarrow> Item list \<Rightarrow> Task" where
  "count_progress task items = task\<lparr> tk_view := (tk_view task)\<lparr> tf_bytes := sum_list (map it_bytes items) mod u64,
     tf_completed := length (filter (\<lambda>i. it_done i \<and> \<not> it_skipped i) items),
     tf_skipped := length (filter it_skipped items), tf_status := Running, tf_message := None \<rparr> \<rparr>"

definition transfer_engine_run :: "nat \<Rightarrow> 'p peers \<Rightarrow> (string \<Rightarrow> string) \<Rightarrow> string \<Rightarrow> string list
    \<Rightarrow> ('p \<Rightarrow> (ClientError + RootIdentity) \<times> 'p) \<Rightarrow> ('p transfer_world, unit) run" where
  "transfer_engine_run pages call sha identity capabilities connect =
    andthen (transfer_run_start identity capabilities connect) (\<lambda>task.
    andthen (if \<not> tk_scanned task \<and> \<not> tk_cancel task then scan pages call task else give task) (\<lambda>task.
    andthen transfer_items (\<lambda>items.
     let task = count_progress task items in
     before (publish task)
       (if tk_cancel task
          then before (cleanup call items)
            (publish (task\<lparr> tk_view := (tk_view task)\<lparr> tf_status := Cancelled, tf_message := None \<rparr> \<rparr>))
        else
          andthen (copy_items call sha task items [0..<length items]) (\<lambda>t. case t of
            Paused_Turn \<Rightarrow> give ()
          | Next (task, items) \<Rightarrow>
              before (cleanup call items)
                (before (directory_metadata call
                    (filter (\<lambda>i. sp_kind (it_stamp i) = Kind_Directory \<and> \<not> it_skipped i \<and> it_expected i = None) (rev items)))
                  (publish (task\<lparr> tk_view := (tk_view task)\<lparr> tf_status := Completed,
                    tf_message := skipped_message (tf_skipped (tk_view task)) \<rparr>, tk_current := None \<rparr>))))))))"

end
