(* ===== verification/Client_Transfer_Safety.thy ===== *)
theory Client_Transfer_Safety
  imports Client_Transfer
begin

text \<open>
  What the engine asks its peers to do: the source is only read, and whatever may change the
  destination is in the store before it is asked for, so that a lost answer can be settled by
  the next run.
\<close>

section \<open>Reasoning about runs\<close>

definition holds :: "('s \<Rightarrow> bool) \<Rightarrow> ('s, 'a) run \<Rightarrow> ('a \<Rightarrow> 's \<Rightarrow> bool) \<Rightarrow> ('s \<Rightarrow> bool) \<Rightarrow> bool" where
  "holds P m Q I \<longleftrightarrow> (\<forall>s. P s \<longrightarrow> (case fst (m s) of Came x \<Rightarrow> Q x (snd (m s)) | _ \<Rightarrow> I (snd (m s))))"

named_theorems holds_rules "a run keeps an assertion"

lemma holds_conseq:
  assumes "holds P' m Q' I'" "\<And>s. P s \<Longrightarrow> P' s" "\<And>x s. Q' x s \<Longrightarrow> Q x s" "\<And>s. I' s \<Longrightarrow> I s"
  shows "holds P m Q I"
  using assms unfolding holds_def by (fastforce split: outcome.splits)

lemma holds_give: "(\<And>s. P s \<Longrightarrow> Q x s) \<Longrightarrow> holds P (give x) Q I"
  by (simp add: holds_def give_def)

lemma holds_raise: "(\<And>s. P s \<Longrightarrow> I s) \<Longrightarrow> holds P (raise e) Q I"
  by (simp add: holds_def raise_def)

lemma holds_going: "(\<And>s. P s \<Longrightarrow> I s) \<Longrightarrow> holds P going Q I"
  by (simp add: holds_def going_def)

lemma holdsI:
  assumes "\<And>s x s'. P s \<Longrightarrow> m s = (Came x, s') \<Longrightarrow> Q x s'" "\<And>s e s'. P s \<Longrightarrow> m s = (Raised e, s') \<Longrightarrow> I s'"
    and "\<And>s s'. P s \<Longrightarrow> m s = (Going, s') \<Longrightarrow> I s'"
  shows "holds P m Q I"
  unfolding holds_def
proof (intro allI impI)
  fix s assume s: "P s"
  obtain r s' where m: "m s = (r, s')" by fastforce
  show "case fst (m s) of Came x \<Rightarrow> Q x (snd (m s)) | _ \<Rightarrow> I (snd (m s))"
    using assms(1) [OF s] assms(2) [OF s] assms(3) [OF s] m by (cases r) simp_all
qed

lemma holdsD:
  assumes "holds P m Q I" "P s"
  shows "m s = (Came x, s') \<Longrightarrow> Q x s'" "m s = (Raised e, s') \<Longrightarrow> I s'" "m s = (Going, s') \<Longrightarrow> I s'"
  using assms(1) [unfolded holds_def, rule_format, OF assms(2)] by simp_all

lemma andthen_cases:
  assumes "andthen m k s = (r, s')"
  obtains (came) x s1 where "m s = (Came x, s1)" "k x s1 = (r, s')"
  | (raised) e where "m s = (Raised e, s')" "r = Raised e"
  | (going) "m s = (Going, s')" "r = Going"
  using assms by (auto simp: andthen_def split: prod.splits outcome.splits)

lemma holds_andthen:
  assumes m: "holds P m R I" and k: "\<And>x. holds (R x) (k x) Q I"
  shows "holds P (andthen m k) Q I"
proof (rule holdsI)
  fix s assume s: "P s"
  note M = holdsD [OF m s]
  show "andthen m k s = (Came x, s') \<Longrightarrow> Q x s'" for x s'
    by (erule andthen_cases) (use M holdsD [OF k] in auto)
  show "andthen m k s = (Raised e, s') \<Longrightarrow> I s'" for e s'
    by (erule andthen_cases) (use M holdsD [OF k] in auto)
  show "andthen m k s = (Going, s') \<Longrightarrow> I s'" for s'
    by (erule andthen_cases) (use M holdsD [OF k] in auto)
qed

lemma holds_before: "holds P m (\<lambda>_. R) I \<Longrightarrow> holds R k Q I \<Longrightarrow> holds P (before m k) Q I"
  unfolding before_def by (rule holds_andthen)

lemma holds_if: "(b \<Longrightarrow> holds P m Q I) \<Longrightarrow> (\<not> b \<Longrightarrow> holds P k Q I) \<Longrightarrow> holds P (if b then m else k) Q I"
  by simp

lemma holds_orelse: "(\<And>v s. x = Some v \<Longrightarrow> P s \<Longrightarrow> Q v s) \<Longrightarrow> (\<And>s. P s \<Longrightarrow> I s) \<Longrightarrow> holds P (orelse e x) Q I"
  by (cases x) (simp_all add: orelse_def holds_give holds_raise)

lemma holds_outcome_of:
  "holds P m (\<lambda>x. Q (Inr x)) I \<Longrightarrow> (\<And>e s. I s \<Longrightarrow> Q (Inl e) s) \<Longrightarrow> holds P (outcome_of m) Q I"
  unfolding holds_def outcome_of_def by (auto split: prod.split outcome.split)

lemma holds_assume: "(\<And>s. P s \<Longrightarrow> holds P m Q I) \<Longrightarrow> holds P m Q I"
  unfolding holds_def by blast

lemma holds_pure: "(b \<Longrightarrow> holds P m Q I) \<Longrightarrow> holds (\<lambda>s. P s \<and> b) m Q I"
  by (cases b) (simp_all add: holds_def)

lemma holds_storing:
  assumes "\<And>s bs. P s \<Longrightarrow> I (s\<lparr> tw_store_fails := bs \<rparr>)" "\<And>s bs. P s \<Longrightarrow> Q () (f (s\<lparr> tw_store_fails := bs \<rparr>))"
  shows "holds P (storing f) Q I"
proof -
  have "P s \<Longrightarrow> Q () (f s)" for s using assms(2) [of s "tw_store_fails s"] by simp
  then show ?thesis using assms by (auto simp: holds_def storing_def split: list.splits bool.splits)
qed

section \<open>Calls that are announced\<close>

fun read_only :: "Command \<Rightarrow> bool" where
  "read_only (Cmd_Stat _) = True"
| "read_only (Cmd_List _ _) = True"
| "read_only (Cmd_Read _ _ _) = True"
| "read_only (Cmd_Hash _ _) = True"
| "read_only _ = False"

fun announced :: "Item list \<Rightarrow> Command \<Rightarrow> bool" where
  "announced items (Cmd_Prepare p t m e) =
    list_ex (\<lambda>i. it_prepared i \<and> it_target i = p \<and> it_token i = t \<and> it_stamp i = m \<and> it_expected i = e) items"
| "announced items (Cmd_Write p t _ _) = list_ex (\<lambda>i. it_prepared i \<and> it_target i = p \<and> it_token i = t) items"
| "announced items (Cmd_Commit p t _) = list_ex (\<lambda>i. it_prepared i \<and> it_target i = p \<and> it_token i = t) items"
| "announced items (Cmd_Cancel _ t) = list_ex (\<lambda>i. it_prepared i \<and> it_token i = t) items"
| "announced items (Cmd_Directory p) = list_ex (\<lambda>i. it_prepared i \<and> it_target i = p) items"
| "announced items (Cmd_Metadata p m) = list_ex (\<lambda>i. it_done i \<and> it_target i = p \<and> it_stamp i = m) items"
| "announced items _ = True"

fun step_ok :: "transfer_step \<Rightarrow> bool" where
  "step_ok (Called source root c bytes items) = (if source then read_only c else announced items c)"
| "step_ok _ = True"

text \<open>The store holds items by number.\<close>

definition numbered :: "Item list \<Rightarrow> bool" where
  "numbered items \<longleftrightarrow> map it_index items = [0..<length items]"

definition steps_ok :: "'p transfer_world \<Rightarrow> bool" where
  "steps_ok s \<longleftrightarrow> numbered (tw_items s) \<and> list_all step_ok (tw_steps s)"

definition mirrors :: "Item list \<Rightarrow> 'p transfer_world \<Rightarrow> bool" where
  "mirrors items s \<longleftrightarrow> tw_items s = items \<and> steps_ok s"

lemma mirrors_ok: "mirrors items s \<Longrightarrow> steps_ok s"
  by (simp add: mirrors_def)

lemma mirrors_numbered: "mirrors items s \<Longrightarrow> numbered items"
  by (auto simp: mirrors_def steps_ok_def)

lemma numbered_nth: "numbered items \<Longrightarrow> n < length items \<Longrightarrow> it_index (items ! n) = n"
  unfolding numbered_def by (metis add_0 diff_zero length_map nth_map nth_upt)

lemma upt_parts: "x # xs = [k..<k + Suc n] \<Longrightarrow> x = k \<and> xs = [Suc k..<Suc k + n]"
  using upt_conv_Cons [of k "k + Suc n"] by (simp del: upt_Suc)

lemma put_item_at:
  assumes "map it_index items = [k..<k + length items]" "k \<le> it_index i" "it_index i < k + length items"
  shows "put_item i items = items[it_index i - k := i]"
  using assms
proof (induction items arbitrary: k)
  case (Cons j js)
  then have j: "it_index j = k" "map it_index js = [Suc k..<Suc k + length js]"
    using upt_parts [of "it_index j" "map it_index js" k "length js"] by (simp_all del: upt_Suc)
  show ?case
  proof (cases "it_index i = k")
    case False
    then have "put_item i js = js[it_index i - Suc k := i]" using Cons.IH [OF j(2)] Cons.prems by simp
    moreover obtain l where "it_index i - k = Suc l" "it_index i - Suc k = l" using False Cons.prems(2) by (cases "it_index i - k") auto
    ultimately show ?thesis using False Cons.prems(2) j by simp
  qed (simp add: j)
qed simp

lemma put_item_numbered: "numbered items \<Longrightarrow> it_index i < length items \<Longrightarrow> put_item i items = items[it_index i := i]"
  using put_item_at [of items 0 i] by (simp add: numbered_def)

lemma numbered_update: "numbered items \<Longrightarrow> it_index i = n \<Longrightarrow> numbered (items[n := i])"
proof (cases "n < length items")
  case True
  then have "map it_index items ! n = n" if "numbered items" using that by (simp add: numbered_nth)
  then have "(map it_index items)[n := n] = map it_index items" if "numbered items" using that by (metis list_update_id)
  then show "numbered items \<Longrightarrow> it_index i = n \<Longrightarrow> ?thesis" by (simp add: numbered_def map_update)
qed (simp add: list_update_beyond)

lemma numbered_append: "numbered items \<Longrightarrow> it_index i = length items \<Longrightarrow> numbered (items @ [i]) \<and> put_item i items = items @ [i]"
proof -
  have "put_item i items = items @ [i]" if "map it_index items = [k..<k + length items]" "it_index i = k + length items" for k
    using that
  proof (induction items arbitrary: k)
    case (Cons j js)
    then have "it_index j = k" "map it_index js = [Suc k..<Suc k + length js]"
      using upt_parts [of "it_index j" "map it_index js" k "length js"] by (simp_all del: upt_Suc)
    then show ?case using Cons.IH [of "Suc k"] Cons.prems(2) by simp
  qed simp
  then show "numbered items \<Longrightarrow> it_index i = length items \<Longrightarrow> ?thesis" by (simp add: numbered_def)
qed

section \<open>Elementary steps\<close>

lemma mirrors_peers: "mirrors items (s\<lparr> tw_peers := p \<rparr>) = mirrors items s"
  by (simp add: mirrors_def steps_ok_def)

lemma mirrors_called:
  "mirrors items s \<Longrightarrow> (if source then read_only c else announced items c) \<Longrightarrow>
    mirrors items (s\<lparr> tw_peers := p, tw_steps := tw_steps s @ [Called source root c bytes (tw_items s)] \<rparr>)"
  by (auto simp: mirrors_def steps_ok_def)

lemma holds_peers_call:
  assumes "if source then read_only c else announced items c"
  shows "holds (mirrors items) (peers_call call source root c bytes) (\<lambda>_. mirrors items) (mirrors items)"
  using assms by (auto simp: holds_def peers_call_def intro!: mirrors_called split: prod.split sum.split)

lemma holds_peers_stat:
  "holds (mirrors items) (peers_stat call source root path) (\<lambda>_. mirrors items) (mirrors items)"
  unfolding peers_stat_def
  by (rule holds_andthen [OF holds_peers_call]) (auto intro!: holds_give holds_raise split: prod.split Reply.split)

lemma holds_transfer_item:
  assumes "it_index i = n" "n < length items"
  shows "holds (mirrors items) (transfer_item i) (\<lambda>_. mirrors (items[n := i])) (mirrors items)"
  unfolding transfer_item_def
  by (rule holds_storing)
    (use assms numbered_update [of items i n] put_item_numbered [of items i] in \<open>auto simp: mirrors_def steps_ok_def\<close>)

lemma holds_publish: "holds (mirrors items) (publish t) (\<lambda>_. mirrors items) (mirrors items)"
  unfolding publish_def transfer_save_def by (rule holds_storing) (auto simp: mirrors_def steps_ok_def)

lemma holds_token: "holds (mirrors items) new_token (\<lambda>_. mirrors items) I"
  by (auto simp: holds_def new_token_def mirrors_def steps_ok_def split: list.split)

text \<open>An item of the store with some parts updated.\<close>

definition same_item :: "Item \<Rightarrow> Item \<Rightarrow> bool" where
  "same_item i j \<longleftrightarrow> it_index i = it_index j \<and> it_token i = it_token j \<and> it_target i = it_target j \<and> it_stamp i = it_stamp j
    \<and> it_expected i = it_expected j \<and> it_root i = it_root j \<and> it_source i = it_source j"

lemma list_ex_update [intro]: "n < length xs \<Longrightarrow> P x \<Longrightarrow> list_ex P (xs[n := x])"
  by (auto simp: list_ex_iff intro: set_update_memI)

section \<open>One file\<close>

text \<open>The store has the item as the copy goes on with it.\<close>

definition at_item :: "Item list \<Rightarrow> nat \<Rightarrow> Item \<Rightarrow> 'p transfer_world \<Rightarrow> bool" where
  "at_item items n i s \<longleftrightarrow> mirrors (items[n := i]) s"

lemma at_item_ok: "at_item items n i s \<Longrightarrow> steps_ok s"
  by (simp add: at_item_def mirrors_ok)

text \<open>What a copy leaves behind: only this item changed in the store, and it is up to date there
  unless the copy failed.\<close>

definition copied :: "Item list \<Rightarrow> nat \<Rightarrow> Item \<Rightarrow> ClientError option \<times> Task \<times> Item \<Rightarrow> 'p transfer_world \<Rightarrow> bool" where
  "copied items n item x s \<longleftrightarrow> (\<exists>j. at_item items n j s) \<and> it_index (snd (snd x)) = n
    \<and> (fst x = None \<longrightarrow> at_item items n (snd (snd x)) s \<and> it_prepared (snd (snd x)) \<and> same_item item (snd (snd x)))"

lemma holds_copied_failed: "it_index i = n \<Longrightarrow> holds (at_item items n item) (give (Some e, t, i)) (copied items n j) I"
  by (rule holds_give) (auto simp: copied_def)

lemma holds_copied: "it_index item = n \<Longrightarrow> it_prepared item \<Longrightarrow> same_item j item \<Longrightarrow>
    holds (at_item items n item) (give (None, t, item)) (copied items n j) I"
  by (rule holds_give) (auto simp: copied_def)

lemma copied_same: "same_item i j \<Longrightarrow> copied items n j x s \<Longrightarrow> copied items n i x s"
  by (auto simp: copied_def same_item_def)

lemma same_item_refl [simp]: "same_item i i"
  by (simp add: same_item_def)

lemma holds_attempt_call:
  assumes "if source then read_only c else announced (items[n := item]) c" "it_index item = n"
    and "\<And>x. holds (at_item items n item) (k x) (copied items n i) steps_ok"
  shows "holds (at_item items n item) (attempt (t, item) (peers_call call source root c bytes) k) (copied items n i) steps_ok"
proof -
  have "holds (at_item items n item) (outcome_of (peers_call call source root c bytes)) (\<lambda>_. at_item items n item) steps_ok"
    by (rule holds_conseq [OF holds_outcome_of [OF holds_peers_call [OF assms(1)]]]) (auto simp: at_item_def mirrors_ok)
  then show ?thesis
    unfolding attempt_def
    by (rule holds_andthen) (auto intro: holds_copied_failed assms(2,3) split: sum.split)
qed

lemma holds_attempt_store:
  fixes k :: "unit \<Rightarrow> 'p copying"
  assumes "n < length items" "it_index i = n" "holds (at_item items n i) (k ()) (copied items n j) steps_ok"
  shows "holds (at_item items n item) (attempt (t, i) (transfer_item i) k) (copied items n j) steps_ok"
proof -
  let ?R = "\<lambda>r s. case r of Inl e \<Rightarrow> at_item items n item s | Inr u \<Rightarrow> at_item items n i s"
  have "holds (at_item items n item) (outcome_of (transfer_item i)) ?R (at_item items n item)"
    by (rule holds_outcome_of, rule holds_conseq [OF holds_transfer_item [of i n "items[n := item]"]])
      (use assms(1,2) in \<open>auto simp: at_item_def\<close>)
  then have "holds (at_item items n item) (outcome_of (transfer_item i)) ?R steps_ok"
    by (rule holds_conseq) (auto simp: at_item_ok)
  then show ?thesis
    unfolding attempt_def
  proof (rule holds_andthen)
    fix r :: "ClientError + unit"
    show "holds (\<lambda>s. case r of Inl e \<Rightarrow> at_item items n item s | Inr u \<Rightarrow> at_item items n i s)
        (case r of Inl e \<Rightarrow> give (Some e, t, i) | Inr x \<Rightarrow> k x) (copied items n j) steps_ok"
      using assms(2,3) by (cases r) (auto intro: holds_copied_failed)
  qed
qed

lemma holds_copy_blocks:
  assumes "n < length items"
  shows "it_index item = n \<Longrightarrow> it_prepared item \<Longrightarrow>
    holds (at_item items n item) (copy_blocks rounds call sha task item offset) (copied items n item) steps_ok"
proof (induction rounds arbitrary: task item offset)
  case (0 task item offset)
  then show ?case
    by (subst copy_blocks.simps) (auto intro!: holds_if holds_copied holds_going at_item_ok)
next
  case (Suc rounds)
  have blocks: "holds (at_item items n item) (attempt (t, item\<lparr> it_bytes := k \<rparr>) (transfer_item (item\<lparr> it_bytes := k \<rparr>))
      (\<lambda>_. copy_blocks rounds call sha t (item\<lparr> it_bytes := k \<rparr>) k)) (copied items n item) steps_ok" for k t
  proof (rule holds_attempt_store [OF assms])
    show "it_index (item\<lparr> it_bytes := k \<rparr>) = n" using Suc.prems by simp
    show "holds (at_item items n (item\<lparr> it_bytes := k \<rparr>)) (copy_blocks rounds call sha t (item\<lparr> it_bytes := k \<rparr>) k) (copied items n item) steps_ok"
      by (rule holds_conseq [OF Suc.IH]) (use Suc.prems in \<open>auto elim!: copied_same [rotated] simp: same_item_def\<close>)
  qed
  have send: "holds (at_item items n item)
      (attempt (t, item) (peers_call call False r (Cmd_Write (it_target item) (it_token item) o' dg) bytes) k) (copied items n item) steps_ok"
    if "\<And>x. holds (at_item items n item) (k x) (copied items n item) steps_ok" for t r o' dg bytes k
    by (rule holds_attempt_call [OF _ _ that]) (use Suc.prems assms in \<open>auto intro!: list_ex_update\<close>)
  have stop: "holds (at_item items n item) (give (Some e, t, item)) (copied items n item) steps_ok" for e t
    using Suc.prems(1) by (rule holds_copied_failed)
  have fetch: "holds (at_item items n item)
      (attempt (t, item) (peers_call call True r (Cmd_Read a b c) []) k) (copied items n item) steps_ok"
    if "\<And>x. holds (at_item items n item) (k x) (copied items n item) steps_ok" for t r a b c k
    by (rule holds_attempt_call [OF _ _ that]) (use Suc.prems in auto)
  show ?case
    unfolding copy_blocks.simps [of "Suc rounds"] nat.case Let_def
  proof (rule holds_if, goal_cases)
    case 1
    show ?case using Suc.prems by (intro holds_copied) simp_all
  next
    case 2
    show ?case by (rule fetch) (auto intro!: stop holds_if send blocks split: Reply.split bool.split)
  qed
qed

lemma holds_at_call:
  assumes "if source then read_only c else announced (items[n := item]) c"
  shows "holds (at_item items n item) (peers_call call source root c bytes) (\<lambda>_. at_item items n item) steps_ok"
  using holds_peers_call [OF assms] by (rule holds_conseq) (simp_all add: at_item_def mirrors_ok)

lemma holds_at_store:
  assumes "n < length items" "it_index i = n"
  shows "holds (at_item items n item) (transfer_item i) (\<lambda>_. at_item items n i) steps_ok"
  using holds_transfer_item [of i n "items[n := item]"] assms
  by (intro holds_conseq [OF holds_transfer_item [of i n "items[n := item]"]]) (simp_all add: at_item_def mirrors_ok)

lemma holds_copy_verify:
  assumes "n < length items" "it_prepared item" "it_index item = n"
  shows "holds (at_item items n item) (copy_verify call task item) (copied items n item) steps_ok"
proof -
  have commit: "holds (at_item items n item)
      (attempt (t, item) (peers_call call False r (Cmd_Commit (it_target item) (it_token item) digest) []) (\<lambda>_. give (None, t', item)))
      (copied items n item) steps_ok" for t r digest t'
    by (rule holds_attempt_call) (use assms in \<open>auto intro!: holds_copied\<close>)
  show ?thesis
    unfolding copy_verify_def Let_def
    by (rule holds_attempt_call [OF _ assms(3)])
      (auto intro!: commit holds_copied_failed assms(3) split: Reply.split)
qed

lemma holds_copy_prepared:
  assumes "n < length items" "it_prepared item" "it_index item = n"
  shows "holds (at_item items n item) (copy_prepared call sha task item offset complete) (copied items n item) steps_ok"
proof -
  let ?i = "item\<lparr> it_bytes := offset, it_prepared := True \<rparr>"
  have verify: "holds (copied items n ?i x) (case x of (e, task, item) \<Rightarrow>
      if e \<noteq> None then give (e, task, item) else copy_verify call task item) (copied items n item) steps_ok" for x
  proof -
    obtain e t i where x: "x = (e, t, i)" by (cases x) auto
    have "holds (\<lambda>s. at_item items n i s \<and> (it_index i = n \<and> it_prepared i \<and> same_item ?i i))
        (copy_verify call t i) (copied items n item) steps_ok"
      by (rule holds_pure, rule holds_conseq [OF holds_copy_verify [OF assms(1)]])
        (auto intro: copied_same [rotated] simp: same_item_def)
    then have "e = None \<Longrightarrow> holds (copied items n ?i x) (copy_verify call t i) (copied items n item) steps_ok"
      by (rule holds_conseq) (auto simp: copied_def x)
    moreover have "e \<noteq> None \<Longrightarrow> holds (copied items n ?i x) (give (e, t, i)) (copied items n item) steps_ok"
      by (rule holds_give) (auto simp: copied_def x)
    ultimately show ?thesis unfolding x prod.case by (intro holds_if) auto
  qed
  show ?thesis
    unfolding copy_prepared_def Let_def
  proof (rule holds_if, goal_cases)
    case 1
    show ?case by (rule holds_copied_failed [OF assms(3)])
  next
    case 2
    show ?case
    proof (rule holds_attempt_store [OF assms(1)], goal_cases)
      case 1
      show ?case using assms(3) by simp
    next
      case 2
      show ?case
      proof (rule holds_if, goal_cases)
        case 1
        show ?case by (rule holds_copied) (simp_all add: assms same_item_def)
      next
        case 2
        show ?case by (rule holds_andthen [OF holds_copy_blocks [OF assms(1)] verify]) (simp_all add: assms)
      qed
    qed
  qed
qed

lemma holds_copy_file:
  assumes "n < length items" "it_index item = n"
  shows "holds (at_item items n item) (copy_file call sha task item) (copied items n item) steps_ok"
proof -
  let ?i = "item\<lparr> it_prepared := True \<rparr>"
  have prepared: "holds (at_item items n ?i) (copy_prepared call sha task ?i offset complete) (copied items n item) steps_ok" for offset complete
    by (rule holds_conseq [OF holds_copy_prepared [OF assms(1)]])
      (use assms(2) in \<open>auto elim!: copied_same [rotated] simp: same_item_def\<close>)
  have prepare: "holds (at_item items n ?i) (attempt (task, ?i)
      (peers_call call False (it_root item) (Cmd_Prepare (it_target item) (it_token item) (it_stamp item) (it_expected item)) [])
      (\<lambda>(r, _). case r of Reply_Ready offset complete \<Rightarrow> copy_prepared call sha task ?i offset complete
        | _ \<Rightarrow> give (Some Err_RemoteResponse, task, ?i))) (copied items n item) steps_ok"
    by (rule holds_attempt_call)
      (auto intro!: prepared holds_copied_failed list_ex_update assms(1) split: Reply.split simp: assms(2))
  show ?thesis
    unfolding copy_file_def Let_def
    using prepare assms by (intro holds_attempt_store) simp_all
qed

section \<open>One item\<close>

text \<open>A rule for every step that keeps the store.\<close>

lemma holds_stat_at: "holds (at_item items n item) (peers_stat call source root path) (\<lambda>_. at_item items n item) steps_ok"
  by (rule holds_conseq [OF holds_peers_stat]) (auto simp: at_item_def mirrors_ok)

lemma holds_publish_at: "holds (at_item items n item) (publish t) (\<lambda>_. at_item items n item) steps_ok"
  by (rule holds_conseq [OF holds_publish]) (auto simp: at_item_def mirrors_ok)

lemma holds_keep_both:
  "it_index j = n \<Longrightarrow> \<not> it_prepared j \<Longrightarrow> holds (at_item items n item) (keep_both call original ns j)
    (\<lambda>j'. \<lambda>s. at_item items n item s \<and> it_index j' = n \<and> \<not> it_prepared j') steps_ok"
proof (induction ns arbitrary: j)
  case (Cons k ns)
  show ?case unfolding keep_both.simps Let_def
    by (rule holds_andthen [OF holds_stat_at]) (auto intro!: holds_if holds_give Cons.IH simp: Cons.prems)
qed (auto intro!: holds_raise at_item_ok)

lemma holds_destination:
  fixes call :: "'p peers"
  assumes "it_index item = n"
  shows "holds (at_item items n item) (destination call task item)
    (\<lambda>(go, task', item'). \<lambda>s. at_item items n item s \<and> it_index item' = n \<and> (it_prepared item' \<longrightarrow> item' = item)) steps_ok"
proof -
  let ?Q = "\<lambda>(go :: bool, task' :: Task, item'). \<lambda>s :: 'p transfer_world. at_item items n item s \<and> it_index item' = n \<and> (it_prepared item' \<longrightarrow> item' = item)"
  have chosen: "holds (at_item items n item) (case existing of
         None \<Rightarrow> give (True, task, item\<lparr> it_expected := None \<rparr>)
       | Some stamp \<Rightarrow> if b stamp then give (False, f stamp, item\<lparr> it_choice := None \<rparr>)
           else (case allowed_choice task item stamp of
                Some Skip \<Rightarrow> give (True, task, item\<lparr> it_skipped := True \<rparr>)
              | Some Replace \<Rightarrow> give (True, task, item\<lparr> it_expected := Some stamp \<rparr>)
              | Some Merge \<Rightarrow> give (True, task, item\<lparr> it_expected := Some stamp \<rparr>)
              | Some KeepBoth \<Rightarrow>
                  andthen (keep_both call (it_target item) [2..<10000] item) (\<lambda>item. give (True, task, item))
              | None \<Rightarrow> give (False, ask task item stamp, item))) ?Q steps_ok"
    if "\<not> it_prepared item" for existing b f
  proof -
    have both: "holds (at_item items n item) (andthen (keep_both call (it_target item) [2..<10000] item) (\<lambda>item. give (True, task, item))) ?Q steps_ok"
      by (rule holds_andthen [OF holds_keep_both [OF assms that]]) (auto intro!: holds_give)
    have fine: "holds (at_item items n item) (give (go, task', item')) ?Q steps_ok"
      if "it_index item' = n" "\<not> it_prepared item'" for go task' item'
      using that by (intro holds_give) simp
    show ?thesis
    proof (cases existing)
      case None
      show ?thesis unfolding None option.case by (rule fine) (simp_all add: that assms)
    next
      case (Some stamp)
      have "holds (at_item items n item) (case c of
                Some Skip \<Rightarrow> give (True, task, item\<lparr> it_skipped := True \<rparr>)
              | Some Replace \<Rightarrow> give (True, task, item\<lparr> it_expected := Some stamp \<rparr>)
              | Some Merge \<Rightarrow> give (True, task, item\<lparr> it_expected := Some stamp \<rparr>)
              | Some KeepBoth \<Rightarrow>
                  andthen (keep_both call (it_target item) [2..<10000] item) (\<lambda>item. give (True, task, item))
              | None \<Rightarrow> give (False, ask task item stamp, item)) ?Q steps_ok" for c
      proof (cases c)
        case None
        show ?thesis unfolding None option.case by (rule fine) (simp_all add: that assms)
      next
        case (Some d)
        show ?thesis unfolding Some option.case
          by (cases d; simp only: Choice.case) (rule both fine; simp add: that assms)+
      qed
      then show ?thesis unfolding Some option.case
        by (intro holds_if) (rule fine; simp add: that assms)
    qed
  qed
  show ?thesis
    unfolding destination_def
    by (rule holds_if, rule holds_give, simp add: assms, rule holds_andthen [OF holds_stat_at]) (rule chosen)
qed

lemma holds_copy_directory:
  assumes "n < length items" "it_index item = n" "it_prepared item \<Longrightarrow> item = stored"  "it_index stored = n"
  shows "holds (at_item items n stored) (copy_directory call item)
    (\<lambda>item'. \<lambda>s. (\<exists>j. at_item items n j s) \<and> it_index item' = n) steps_ok"
proof -
  let ?Q = "\<lambda>item'. \<lambda>s. (\<exists>j. at_item items n j s) \<and> it_index item' = n"
  let ?i = "item\<lparr> it_prepared := True \<rparr>"
  have make: "holds (at_item items n j) (before (peers_call call False r (Cmd_Directory (it_target j)) []) (give j)) ?Q steps_ok"
    if "it_prepared j" "it_index j = n" for j r
    by (rule holds_before [OF holds_at_call]) (use that assms(1) in \<open>auto intro!: holds_give\<close>)
  have new: "holds (at_item items n stored) (before (transfer_item ?i) (before (peers_call call False r (Cmd_Directory (it_target ?i)) []) (give ?i))) ?Q steps_ok" for r
    by (rule holds_before [OF holds_at_store [OF assms(1)] make]) (simp_all add: assms(2))
  have old: "holds (at_item items n stored) (andthen (peers_stat call False r p) (\<lambda>m. if m = None
      then before (peers_call call False r (Cmd_Directory (it_target item)) []) (give item) else give item)) ?Q steps_ok"
    if "it_prepared item" for r p
    using that assms(2,3) make [of stored]
    by (intro holds_andthen [OF holds_stat_at]) (auto intro!: holds_if holds_give simp: assms(4))
  show ?thesis
    unfolding copy_directory_def Let_def
    using new [of "it_root item"] old assms(2) by (auto intro!: holds_if holds_give)
qed

lemma holds_pause:
  assumes "n < length items" "it_index i = n"
  shows "holds (at_item items n item) (before (transfer_item i) (before (publish t) (give Paused_Turn)))
    (\<lambda>x s. case x of Next y \<Rightarrow> Q y s | Paused_Turn \<Rightarrow> steps_ok s) steps_ok"
  by (rule holds_before [OF holds_at_store [OF assms] holds_before [OF holds_publish_at holds_give]])
    (simp add: at_item_ok)

lemma holds_ex: "(\<And>j. holds (P j) m Q I) \<Longrightarrow> holds (\<lambda>s. \<exists>j. P j s) m Q I"
  unfolding holds_def by blast

lemma holds_copy_or_conflict:
  fixes call :: "'p peers"
  assumes "n < length items" "it_index item = n"
  shows "holds (at_item items n stored) (copy_or_conflict call sha task item)
    (\<lambda>t s. case t of Next (task', item') \<Rightarrow> (\<exists>j. at_item items n j s) \<and> it_index item' = n | Paused_Turn \<Rightarrow> steps_ok s) steps_ok"
proof -
  let ?Q = "\<lambda>t (s :: 'p transfer_world). case t of Next (task' :: Task, item') \<Rightarrow> (\<exists>j. at_item items n j s) \<and> it_index item' = n | Paused_Turn \<Rightarrow> steps_ok s"
  have rest: "holds (copied items n item x) (case x of (e, task, item) \<Rightarrow> case e of
        None \<Rightarrow> give (Next (task, item))
      | Some e \<Rightarrow>
          if client_code e \<noteq> ''TRANSFER_CONFLICT'' then raise e
          else
            andthen (peers_stat call False (it_root item) (it_target item)) (\<lambda>m. case m of
              None \<Rightarrow> raise e
            | Some stamp \<Rightarrow>
                let task = ask task item stamp; item = item\<lparr> it_choice := None \<rparr> in
                before (transfer_item item) (before (publish task) (give Paused_Turn)))) ?Q steps_ok" for x
  proof -
    obtain e t i where x: "x = (e, t, i)" by (cases x) auto
    have asked: "holds (at_item items n j) (case m of None \<Rightarrow> raise e | Some stamp \<Rightarrow> let task = ask t i stamp; item = i\<lparr> it_choice := None \<rparr> in
        before (transfer_item item) (before (publish task) (give Paused_Turn))) ?Q steps_ok" if "it_index i = n" for m e j
    proof (cases m)
      case None
      show ?thesis unfolding None option.case by (rule holds_raise) (rule at_item_ok)
    next
      case (Some stamp)
      show ?thesis unfolding Some option.case Let_def by (rule holds_pause [OF assms(1)]) (simp add: that)
    qed
    have bad: "holds (at_item items n j) (if client_code e \<noteq> ''TRANSFER_CONFLICT'' then raise e
          else andthen (peers_stat call False (it_root i) (it_target i)) (\<lambda>m. case m of
              None \<Rightarrow> raise e
            | Some stamp \<Rightarrow> let task = ask t i stamp; item = i\<lparr> it_choice := None \<rparr> in
                before (transfer_item item) (before (publish task) (give Paused_Turn)))) ?Q steps_ok" if "it_index i = n" for e j
      by (rule holds_if, rule holds_raise, erule at_item_ok, rule holds_andthen [OF holds_stat_at], rule asked [OF that])
    have weak: "holds (copied items n item x) m ?Q steps_ok" if "it_index i = n \<Longrightarrow> (\<And>j. holds (at_item items n j) m ?Q steps_ok)" for m
      using holds_pure [OF holds_ex [OF that]] by (rule holds_conseq) (auto simp: copied_def x)
    have good: "holds (copied items n item (None, t, i)) (give (Next (t, i))) ?Q steps_ok"
      by (rule holds_give) (auto simp: copied_def)
    show ?thesis
    proof (cases e)
      case None
      show ?thesis unfolding x prod.case None option.case by (rule good)
    next
      case (Some e')
      show ?thesis using weak [OF bad] unfolding x prod.case Some option.case .
    qed
  qed
  show ?thesis
    unfolding copy_or_conflict_def
    by (rule holds_before [OF holds_at_store [OF assms] holds_andthen [OF holds_copy_file [OF assms] rest]])
qed

text \<open>Between two items the store has all of them, and the items before have been dealt with.\<close>

definition through :: "Item list \<Rightarrow> nat \<Rightarrow> Item list \<Rightarrow> bool" where
  "through items n items' \<longleftrightarrow> length items' = length items \<and> it_done (items' ! n)
    \<and> (\<forall>m < length items. m \<noteq> n \<longrightarrow> items' ! m = items ! m)"

lemma at_item_some: "mirrors items s \<Longrightarrow> n < length items \<Longrightarrow> at_item items n (items ! n) s"
  by (simp add: at_item_def)

lemma place_item_same:
  "it_index (place_item t items i) = it_index i" "it_token (place_item t items i) = it_token i"
  "it_prepared (place_item t items i) = it_prepared i"
  by (simp_all add: place_item_def Let_def)

lemma holds_finish:
  assumes "n < length items" "it_index item = n"
  shows "holds (\<lambda>s. \<exists>j. at_item items n j s)
    (before (transfer_item (item\<lparr> it_done := True \<rparr>)) (before (publish t) (give (Next (t, items[n := item\<lparr> it_done := True \<rparr>])))))
    (\<lambda>x s. case x of Next (t, items') \<Rightarrow> mirrors items' s \<and> through items n items' | Paused_Turn \<Rightarrow> steps_ok s) steps_ok"
    (is "holds ?P ?m ?Q steps_ok")
proof -
  let ?i = "item\<lparr> it_done := True \<rparr>"
  have "holds (at_item items n j) ?m ?Q steps_ok" for j
    by (rule holds_before [OF holds_at_store [OF assms(1)] holds_before [OF holds_publish_at holds_give]])
      (use assms in \<open>auto simp: at_item_def through_def\<close>)
  then show ?thesis by (auto simp: holds_def)
qed

lemma holds_restart_item:
  fixes call :: "'p peers"
  assumes "n < length items" "it_index item = n" "it_token item = it_token (items ! n)" "it_prepared item = it_prepared (items ! n)"
  shows "holds (mirrors items) (restart_item call task item)
    (\<lambda>(task', item'). \<lambda>s. mirrors items s \<and> it_index item' = n) (mirrors items)"
proof -
  let ?Q = "\<lambda>(task' :: Task, item'). \<lambda>s :: 'p transfer_world. mirrors items s \<and> it_index item' = n"
  have cancel: "holds (mirrors items) (peers_call call False r (Cmd_Cancel p (it_token item)) []) (\<lambda>_. mirrors items) (mirrors items)"
    if "it_prepared item" for r p
    by (rule holds_peers_call) (use assms that in \<open>auto simp: list_ex_iff intro!: nth_mem bexI [of _ "items ! n"]\<close>)
  have look: "holds (mirrors items) (andthen (peers_stat call True r p) k) ?Q (mirrors items)"
    if "\<And>m. holds (mirrors items) (k m) ?Q (mirrors items)" for r p k
    by (rule holds_andthen [OF holds_peers_stat that])
  have maybe: "holds (mirrors items) (andthen (orelse e x) k) ?Q (mirrors items)"
    if "\<And>m. holds (mirrors items) (k m) ?Q (mirrors items)" for e :: ClientError and x :: "'x option" and k
    by (rule holds_andthen [OF _ that], rule holds_orelse) auto
  have last: "holds (\<lambda>s. mirrors items s \<and> it_index i = n) (andthen new_token (\<lambda>token.
        give (f t i, i\<lparr> it_token := token, it_bytes := 0, it_prepared := False, it_restart := False, it_restage := False \<rparr>)))
      ?Q (mirrors items)" for t i and f :: "Task \<Rightarrow> Item \<Rightarrow> Task"
    by (rule holds_pure, rule holds_andthen [OF holds_token holds_give]) simp
  have middle: "holds (mirrors items) (if \<not> it_restart item then give (task, item)
          else
            andthen (peers_stat call True (it_root item) (it_source item)) (\<lambda>m.
            andthen (orelse (Err_Argument ''Source no longer exists.'') m) (\<lambda>stamp.
            if sp_kind stamp \<noteq> Kind_File
              then raise (Err_Argument ''Source is no longer a regular file. Start a new transfer.'')
            else
              andthen (orelse (Err_Argument ''Transfer size exceeds the supported range.'')
                  (checked_add (tf_total (tk_view task) - sp_length (it_stamp item)) (sp_length stamp))) (\<lambda>size.
              give (task\<lparr> tk_view := (tk_view task)\<lparr> tf_total := size \<rparr> \<rparr>,
                item\<lparr> it_stamp := stamp, it_choice := None \<rparr>))))) ?Q (mirrors items)"
    by (intro holds_if look maybe holds_raise holds_give) (simp_all add: assms(2))
  show ?thesis
    unfolding restart_item_def
  proof (rule holds_if, goal_cases)
    case 1
    show ?case by (rule holds_give) (simp add: assms(2))
  next
    case 2
    show ?case
    proof (rule holds_before [where R = "mirrors items"], goal_cases)
      case 1
      show ?case by (intro holds_if holds_before [OF cancel] holds_give)
    next
      case 2
      show ?case
        by (rule holds_andthen [OF middle]) (use last in \<open>auto split: prod.split\<close>)
    qed
  qed
qed

lemma holds_item_work:
  fixes call :: "'p peers"
  assumes "n < length items" "it_index item = n" "it_prepared item \<Longrightarrow> item = stored" "it_index stored = n"
  shows "holds (at_item items n stored) (if it_skipped item then give (Next (task, item))
      else if sp_kind (it_stamp item) = Kind_Directory
        then andthen (copy_directory call item) (\<lambda>item. give (Next (task, item)))
      else copy_or_conflict call sha task item)
    (\<lambda>t s. case t of Next (task', item') \<Rightarrow> (\<exists>j. at_item items n j s) \<and> it_index item' = n | Paused_Turn \<Rightarrow> steps_ok s) steps_ok"
proof (rule holds_if, goal_cases)
  case 1
  show ?case by (rule holds_give) (use assms in auto)
next
  case 2
  let ?Q = "\<lambda>t (s :: 'p transfer_world). case t of Next (task' :: Task, item') \<Rightarrow> (\<exists>j. at_item items n j s) \<and> it_index item' = n | Paused_Turn \<Rightarrow> steps_ok s"
  have "holds (at_item items n stored) (andthen (copy_directory call item) (\<lambda>item. give (Next (task, item)))) ?Q steps_ok"
    by (rule holds_andthen [OF holds_copy_directory [OF assms]]) (simp_all add: holds_give)
  moreover have "holds (at_item items n stored) (copy_or_conflict call sha task item) ?Q steps_ok"
    by (rule holds_copy_or_conflict [OF assms(1,2)])
  ultimately show ?case by (intro holds_if)
qed

lemma holds_copy_item:
  fixes call :: "'p peers"
  assumes "n < length items" "numbered items"
  shows "holds (mirrors items) (copy_item call sha task items n)
    (\<lambda>x s. case x of Next (task', items') \<Rightarrow> mirrors items' s \<and> through items n items' | Paused_Turn \<Rightarrow> steps_ok s) steps_ok"
proof -
  let ?Q = "\<lambda>x (s :: 'p transfer_world). case x of Next (task' :: Task, items') \<Rightarrow> mirrors items' s \<and> through items n items' | Paused_Turn \<Rightarrow> steps_ok s"
  have finish: "holds (\<lambda>s. case t of Next (task', item') \<Rightarrow> (\<exists>j. at_item items n j s) \<and> it_index item' = n | Paused_Turn \<Rightarrow> steps_ok s)
      (case t of Paused_Turn \<Rightarrow> give Paused_Turn
      | Next (task, item) \<Rightarrow>
          let item = item\<lparr> it_done := True \<rparr>;
              task = (if it_skipped item
                then task\<lparr> tk_view := (tk_view task)\<lparr> tf_skipped := tf_skipped (tk_view task) + 1 \<rparr> \<rparr>
                else task\<lparr> tk_view := (tk_view task)\<lparr> tf_completed := tf_completed (tk_view task) + 1 \<rparr> \<rparr>) in
          before (transfer_item item) (before (publish task) (give (Next (task, items[n := item]))))) ?Q steps_ok" for t
  proof (cases t)
    case (Next x)
    obtain u i where x: "x = (u, i)" by fastforce
    show ?thesis unfolding Next turn.case x prod.case Let_def by (rule holds_pure, rule holds_finish [OF assms(1)])
  next
    case Paused_Turn
    show ?thesis unfolding Paused_Turn turn.case by (rule holds_give) simp
  qed
  have body: "holds (\<lambda>s. at_item items n stored s \<and> it_index item = n \<and> (it_prepared item \<longrightarrow> item = stored))
      (if \<not> go then before (transfer_item item) (before (publish task) (give Paused_Turn))
        else
          let task = task\<lparr> tk_view := (tk_view task)\<lparr> tf_conflict := None \<rparr> \<rparr> in
          andthen (if it_skipped item then give (Next (task, item))
            else if sp_kind (it_stamp item) = Kind_Directory
              then andthen (copy_directory call item) (\<lambda>item. give (Next (task, item)))
            else copy_or_conflict call sha task item) (\<lambda>t. case t of
              Paused_Turn \<Rightarrow> give Paused_Turn
            | Next (task, item) \<Rightarrow>
                let item = item\<lparr> it_done := True \<rparr>;
                    task = (if it_skipped item
                      then task\<lparr> tk_view := (tk_view task)\<lparr> tf_skipped := tf_skipped (tk_view task) + 1 \<rparr> \<rparr>
                      else task\<lparr> tk_view := (tk_view task)\<lparr> tf_completed := tf_completed (tk_view task) + 1 \<rparr> \<rparr>) in
                before (transfer_item item)
                  (before (publish task) (give (Next (task, items[n := item])))))) ?Q steps_ok"
    if "it_index stored = n" for stored item go task
    unfolding Let_def [of "task\<lparr> tk_view := _ \<rparr>"]
    by (rule holds_pure, erule conjE, rule holds_if, rule holds_pause [OF assms(1)], assumption,
        rule holds_andthen [OF holds_item_work [OF assms(1)] finish]; use that in blast)
  have go: "holds (at_item items n stored)
      (if it_skipped stored then give (True, task, stored) else destination call task stored)
      (\<lambda>(go, task', item). \<lambda>s. at_item items n stored s \<and> it_index item = n \<and> (it_prepared item \<longrightarrow> item = stored)) steps_ok"
    if "it_index stored = n" for stored task
    by (rule holds_if, rule holds_give, simp add: that, rule holds_destination [OF that])
  have store: "holds (mirrors items) (transfer_item i) (\<lambda>_. at_item items n i) steps_ok" if "it_index i = n" for i
    by (rule holds_conseq [OF holds_transfer_item [OF that assms(1)]]) (auto simp: at_item_def mirrors_ok)
  note placed = place_item_same [of _ items "items ! n"]
  have n: "it_index (items ! n) = n" by (rule numbered_nth [OF assms(2,1)])
  have restart: "holds (mirrors items) (restart_item call t (place_item t items (items ! n)))
      (\<lambda>x s. mirrors items s \<and> it_index (snd x) = n) steps_ok" for t
    by (rule holds_conseq [OF holds_restart_item [OF assms(1)]]) (auto simp: placed n mirrors_ok)
  show ?thesis
    unfolding copy_item_def Let_def [of "items ! n"] Let_def [of "task\<lparr> tk_current := _ \<rparr>"] Let_def [of "place_item _ _ _"]
    apply (rule holds_if, rule holds_give)
    subgoal using assms by (auto simp: through_def)
    apply (rule holds_andthen [OF restart])
    apply (split prod.split, intro allI impI, simp only: prod.case snd_conv)
    apply (rule holds_pure)
    apply (rule holds_before [OF store holds_before [OF holds_publish_at]], assumption)
    apply (rule holds_andthen [OF go], assumption)
    apply (split prod.split, intro allI impI, simp only: prod.case)+
    by (rule body)
qed

section \<open>A whole run\<close>

definition finished :: "Item list \<Rightarrow> nat set \<Rightarrow> Item list \<Rightarrow> bool" where
  "finished items N items' \<longleftrightarrow> length items' = length items
    \<and> (\<forall>n < length items. n \<in> N \<or> it_done (items ! n) \<longrightarrow> it_done (items' ! n))"

lemma finished_through: "through items n items' \<Longrightarrow> finished items' N items'' \<Longrightarrow> finished items (insert n N) items''"
  by (auto simp: finished_def through_def)

lemma holds_copy_items:
  fixes call :: "'p peers"
  assumes "\<forall>n \<in> set ns. n < length items" "numbered items"
  shows "holds (mirrors items) (copy_items call sha task items ns)
    (\<lambda>x s. case x of Next (task', items') \<Rightarrow> mirrors items' s \<and> finished items (set ns) items' | Paused_Turn \<Rightarrow> steps_ok s) steps_ok"
  using assms
proof (induction ns arbitrary: task items)
  case Nil
  then show ?case by (auto intro!: holds_give simp: finished_def)
next
  case (Cons n ns)
  let ?Q = "\<lambda>x (s :: 'p transfer_world). case x of Next (task' :: Task, items') \<Rightarrow> mirrors items' s \<and> finished items (set (n # ns)) items' | Paused_Turn \<Rightarrow> steps_ok s"
  have rest: "holds (\<lambda>s. case t of Next (task', items') \<Rightarrow> mirrors items' s \<and> through items n items' | Paused_Turn \<Rightarrow> steps_ok s)
      (case t of Paused_Turn \<Rightarrow> give Paused_Turn | Next (task, items) \<Rightarrow> copy_items call sha task items ns) ?Q steps_ok" for t
  proof (cases t)
    case (Next x)
    obtain u items' where x: "x = (u, items')" by fastforce
    have "holds (\<lambda>s. mirrors items' s \<and> (numbered items' \<and> through items n items')) (copy_items call sha u items' ns) ?Q steps_ok"
    proof (rule holds_pure, elim conjE, rule holds_conseq [OF Cons.IH], goal_cases)
      case 1
      then show ?case using Cons.prems(1) by (simp add: through_def)
    qed (simp_all add: finished_through split: turn.splits prod.splits)
    then show ?thesis
      unfolding Next turn.case x prod.case by (rule holds_conseq) (auto simp: mirrors_numbered)
  next
    case Paused_Turn
    show ?thesis unfolding Paused_Turn turn.case by (rule holds_give) simp
  qed
  show ?case
    unfolding copy_items.simps
    by (rule holds_andthen [OF holds_copy_item rest]) (use Cons.prems in simp_all)
qed

lemma holds_cleanup:
  fixes call :: "'p peers"
  assumes "set js \<subseteq> set items"
  shows "holds (mirrors items) (cleanup call js) (\<lambda>_. mirrors items) steps_ok"
  using assms
proof (induction js)
  case Nil
  show ?case by (auto intro!: holds_give)
next
  case (Cons j js)
  let ?c = "peers_call call False (it_root j) (Cmd_Cancel (it_target j) (it_token j)) []"
  let ?p = "peers_call call False (it_root j) (Cmd_Prepare (it_target j) (it_token j) (it_stamp j) (it_expected j)) []"
  let ?H = "\<lambda>m :: ('p transfer_world, unit) run. holds (mirrors items) m (\<lambda>_. mirrors items) steps_ok"
  have rest: "?H (cleanup call js)" using Cons by simp
  have cancel: "holds (mirrors items) ?c (\<lambda>_. mirrors items) (mirrors items)" if "it_prepared j"
    by (rule holds_peers_call) (use that Cons.prems in \<open>auto simp: list_ex_iff\<close>)
  have prepare: "holds (mirrors items) ?p (\<lambda>_. mirrors items) (mirrors items)" if "it_prepared j"
    by (rule holds_peers_call) (use that Cons.prems in \<open>auto simp: list_ex_iff\<close>)
  have outcome: "holds (mirrors items) (outcome_of m) (\<lambda>_. mirrors items) steps_ok"
    if "holds (mirrors items) m (\<lambda>_. mirrors items) (mirrors items)" for m :: "('p transfer_world, Reply \<times> string) run"
    by (rule holds_conseq [OF holds_outcome_of [OF that]]) (auto simp: mirrors_ok)
  have stop: "?H (raise e)" for e by (rule holds_raise) (rule mirrors_ok)
  have again: "?H (before ?c (cleanup call js))" if "it_prepared j"
    by (rule holds_before [OF holds_conseq [OF cancel [OF that]] rest]) (auto simp: mirrors_ok)
  have settle: "?H (case r of Inl e \<Rightarrow> if client_code e \<noteq> ''TRANSFER_CONFLICT'' then raise e else before ?c (cleanup call js)
      | Inr (_ :: Reply \<times> string) \<Rightarrow> before ?c (cleanup call js))" if "it_prepared j" for r
    using again [OF that] stop by (cases r) (simp_all add: holds_if)
  have body: "?H (case r of Inr (_ :: Reply \<times> string) \<Rightarrow> cleanup call js
      | Inl e \<Rightarrow> if client_code e \<noteq> ''TRANSFER_MISSING'' then raise e
          else andthen (outcome_of ?p) (\<lambda>r. case r of
            Inl e \<Rightarrow> if client_code e \<noteq> ''TRANSFER_CONFLICT'' then raise e else before ?c (cleanup call js)
          | Inr (_ :: Reply \<times> string) \<Rightarrow> before ?c (cleanup call js)))" if j: "it_prepared j" for r
  proof (cases r)
    case (Inl e)
    show ?thesis
      unfolding Inl sum.case
      by (rule holds_if, rule stop, rule holds_andthen [OF outcome [OF prepare [OF j]]], rule settle [OF j])
  qed (use rest in simp)
  show ?case
    unfolding cleanup.simps Let_def
    by (rule holds_if, rule rest, rule holds_andthen [OF outcome [OF cancel] body]) simp_all
qed

lemma holds_directory_metadata:
  assumes "set js \<subseteq> set items" "\<forall>j \<in> set js. it_done j"
  shows "holds (mirrors items) (directory_metadata call js) (\<lambda>_. mirrors items) steps_ok"
  using assms
proof (induction js)
  case (Cons j js)
  then show ?case
    unfolding directory_metadata.simps
    by (intro holds_before [OF holds_conseq [OF holds_peers_call]]) (auto simp: list_ex_iff mirrors_ok)
qed (auto intro!: holds_give)

text \<open>The scan stores its items in order, from none.\<close>

definition stored :: "nat \<Rightarrow> 'p transfer_world \<Rightarrow> bool" where
  "stored k s \<longleftrightarrow> length (tw_items s) = k \<and> mirrors (tw_items s) s"

lemma stored_ok: "stored k s \<Longrightarrow> steps_ok s"
  by (auto simp: stored_def mirrors_ok)

lemma stored_at: "holds (stored k) m Q I"
  if "\<And>items. length items = k \<Longrightarrow> holds (mirrors items) m Q I"
  using that unfolding holds_def stored_def by blast

lemma stored_if: "length items = k \<Longrightarrow> mirrors items s \<Longrightarrow> stored k s"
  by (auto simp: stored_def mirrors_def)

lemma holds_stored:
  assumes "\<And>items. length items = k \<Longrightarrow> holds (mirrors items) m (\<lambda>_. mirrors items) (mirrors items)"
  shows "holds (stored k) m (\<lambda>_. stored k) steps_ok"
  by (rule stored_at, rule holds_conseq [OF assms]) (auto intro: stored_if stored_ok mirrors_ok)

lemma holds_append:
  assumes "it_index i = k"
  shows "holds (stored k) (transfer_item i) (\<lambda>_. stored (Suc k)) steps_ok"
  unfolding transfer_item_def
  by (rule holds_storing)
    (use assms in \<open>auto simp: stored_def mirrors_def steps_ok_def numbered_append\<close>)

lemma holds_scan_children:
  "holds (stored k) (scan_children pages call root path index pending after children) (\<lambda>_. stored k) steps_ok"
proof (induction pages arbitrary: after children)
  case 0
  show ?case by (auto intro!: holds_going simp: stored_ok)
next
  case (Suc pages)
  have page: "holds (stored k) (case x of (r, _) \<Rightarrow> case r of Reply_List page \<Rightarrow>
      let children = children @ map (\<lambda>e. (root, join_path path (en_name e), Some index)) (pg_entries page) in
      if pg_after page = None then give children
      else if pending + length children > 100000 then raise (Err_Argument ''Directory is too large. Select smaller folders.'')
      else scan_children pages call root path index pending (pg_after page) children
    | _ \<Rightarrow> raise Err_RemoteResponse) (\<lambda>_. stored k) steps_ok" for x :: "Reply \<times> string"
    unfolding Let_def
    by (cases x) (auto intro!: holds_if holds_give holds_raise Suc.IH stored_ok split: Reply.split)
  show ?case
    unfolding scan_children.simps by (rule holds_andthen [OF holds_stored [OF holds_peers_call] page]) simp
qed

lemma holds_scan_entries:
  "holds (stored index) (scan_entries rounds pages call task pending index) (\<lambda>_ s. \<exists>k. stored k s) steps_ok"
proof (induction rounds pages call task pending index rule: scan_entries.induct)
  case (1 rounds pages call task index)
  show ?case unfolding scan_entries.simps by (rule holds_give) auto
next
  case (2 rounds pages call task root path parent pending index)
  let ?Q = "\<lambda>(_ :: Task) (s :: 'a transfer_world). \<exists>k. stored k s"
  show ?case
  proof (cases rounds)
    case 0
    show ?thesis
      unfolding scan_entries.simps 0 nat.case by (auto intro!: holds_if holds_raise holds_going stored_ok simp: too_many_def)
  next
    case (Suc n)
    have pick: "holds P (orelse e x) (\<lambda>_. P) steps_ok" if "\<And>s. P s \<Longrightarrow> steps_ok s" for P :: "'a transfer_world \<Rightarrow> bool" and e and x :: "'x option"
      by (rule holds_orelse) (auto intro: that)
    have token: "holds (stored index) new_token (\<lambda>_. stored index) steps_ok"
      by (rule holds_stored [OF holds_token])
    have store: "holds (stored index) (transfer_item (scan_item index parent root path stamp token)) (\<lambda>_. stored (Suc index)) steps_ok" for stamp token
      by (rule holds_append) (simp add: scan_item_def)
    show ?thesis
      unfolding scan_entries.simps Suc nat.case Let_def
      apply (rule holds_if, rule holds_raise, erule stored_ok)
      apply (rule holds_andthen [OF holds_stored [OF holds_peers_stat]])
      apply (rule holds_andthen [OF pick], erule stored_ok)
      apply (rule holds_andthen [OF token])
      apply (rule holds_before [OF store])
      apply (rule holds_andthen [where R = "\<lambda>_. stored (Suc index)"])
       apply (intro holds_if pick holds_give; (erule stored_ok)?; assumption?)
      apply (rule holds_andthen [where R = "\<lambda>_. stored (Suc index)"])
       apply (intro holds_if holds_scan_children holds_give; assumption)
      apply (rule holds_before [where R = "stored (Suc index)"])
       apply (intro holds_if holds_stored [OF holds_publish] holds_give; assumption)
      using 2 Suc by simp
  qed
qed

definition kept :: "'p transfer_world \<Rightarrow> bool" where
  "kept s \<longleftrightarrow> (\<exists>k. stored k s)"

lemma kept_ok: "kept s \<Longrightarrow> steps_ok s"
  by (auto simp: kept_def stored_ok)

lemma kept_if: "mirrors items s \<Longrightarrow> kept s"
  by (auto simp: kept_def stored_def mirrors_def)

lemma holds_kept:
  assumes "\<And>items. holds (mirrors items) m (\<lambda>_. mirrors items) (mirrors items)"
  shows "holds kept m (\<lambda>_. kept) steps_ok"
proof -
  have "holds (mirrors items) m (\<lambda>_. kept) steps_ok" for items
    by (rule holds_conseq [OF assms]) (auto intro: kept_if mirrors_ok)
  then show ?thesis unfolding holds_def kept_def stored_def by blast
qed

lemma holds_scan: "holds kept (scan pages call task) (\<lambda>_. kept) steps_ok"
proof -
  have reset: "holds kept transfer_reset_scan (\<lambda>_. stored 0) steps_ok"
    unfolding transfer_reset_scan_def
    by (rule holds_storing) (auto simp: kept_def stored_def mirrors_def steps_ok_def numbered_def)
  have entries: "holds (stored 0) (scan_entries r pages call t ps 0) (\<lambda>_. kept) steps_ok" for r t ps
    by (rule holds_conseq [OF holds_scan_entries]) (auto simp: kept_def)
  show ?thesis
    unfolding scan_def Let_def
    apply (rule holds_before [OF reset])
    apply (rule holds_before [OF holds_stored [OF holds_publish]])
    apply (rule holds_andthen [OF entries])
    apply (rule holds_before [OF holds_kept [OF holds_publish]])
    by (rule holds_give)
qed

lemma holds_connecting: "holds kept (connecting connect) (\<lambda>_. kept) steps_ok"
  by (rule holds_kept)
    (auto simp: holds_def connecting_def mirrors_def steps_ok_def split: prod.split sum.split)

lemma holds_start: "holds kept (transfer_run_start identity capabilities connect) (\<lambda>_. kept) steps_ok"
proof -
  have read: "holds kept stored_task (\<lambda>_. kept) steps_ok"
    by (rule holds_kept)
      (auto simp: holds_def stored_task_def orelse_def give_def raise_def mirrors_def steps_ok_def split: list.splits bool.splits option.splits)
  show ?thesis
    unfolding transfer_run_start_def Let_def
    by (rule holds_andthen [OF read], rule holds_if, rule holds_raise, erule kept_ok, rule holds_if, rule holds_raise, erule kept_ok,
        rule holds_andthen [OF holds_connecting], rule holds_give)
qed

lemma holds_transfer_items: "holds kept transfer_items (\<lambda>items. mirrors items) steps_ok"
  by (auto simp: holds_def transfer_items_def kept_def stored_def mirrors_def steps_ok_def split: list.splits bool.splits)

lemma holds_engine_run:
  fixes call :: "'p peers"
  shows "holds kept (transfer_engine_run pages call sha identity capabilities connect) (\<lambda>_. steps_ok) steps_ok"
proof -
  have publish: "holds (mirrors items) (publish t) (\<lambda>_. steps_ok) steps_ok" for items t
    by (rule holds_conseq [OF holds_publish]) (auto simp: mirrors_ok)
  have keep: "holds (mirrors items) (publish t) (\<lambda>_. mirrors items) steps_ok" for items t
    by (rule holds_conseq [OF holds_publish]) (auto simp: mirrors_ok)
  have done_all: "it_done j" if "finished items (set [0..<length items]) items'" "j \<in> set items'" for items items' j
    using that by (auto simp: finished_def in_set_conv_nth)
  have last: "holds (\<lambda>s. case t of Next (task', items') \<Rightarrow> mirrors items' s \<and> finished items (set [0..<length items]) items' | Paused_Turn \<Rightarrow> steps_ok s)
      (case t of Paused_Turn \<Rightarrow> give ()
          | Next (task, items) \<Rightarrow>
              before (cleanup call items)
                (before (directory_metadata call
                    (filter (\<lambda>i. sp_kind (it_stamp i) = Kind_Directory \<and> \<not> it_skipped i \<and> it_expected i = None) (rev items)))
                  (publish (task\<lparr> tk_view := (tk_view task)\<lparr> tf_status := Completed,
                    tf_message := skipped_message (tf_skipped (tk_view task)) \<rparr>, tk_current := None \<rparr>))))
      (\<lambda>_. steps_ok) steps_ok" for items t
  proof (cases t)
    case (Next x)
    obtain u items' where x: "x = (u, items')" by fastforce
    show ?thesis
      unfolding Next turn.case x prod.case
      apply (rule holds_pure)
      apply (rule holds_before [OF holds_cleanup], rule order_refl)
      apply (rule holds_before [OF holds_directory_metadata publish])
      using done_all by auto
  qed (simp add: holds_give)
  have work: "holds (mirrors items) (if tk_cancel task
          then before (cleanup call items) (publish t)
        else andthen (copy_items call sha task items [0..<length items]) (\<lambda>t. case t of
            Paused_Turn \<Rightarrow> give ()
          | Next (task, items) \<Rightarrow>
              before (cleanup call items)
                (before (directory_metadata call
                    (filter (\<lambda>i. sp_kind (it_stamp i) = Kind_Directory \<and> \<not> it_skipped i \<and> it_expected i = None) (rev items)))
                  (publish (task\<lparr> tk_view := (tk_view task)\<lparr> tf_status := Completed,
                    tf_message := skipped_message (tf_skipped (tk_view task)) \<rparr>, tk_current := None \<rparr>)))))
      (\<lambda>_. steps_ok) steps_ok" for items task t
    apply (rule holds_if, rule holds_before [OF holds_cleanup publish], rule order_refl)
    apply (rule holds_assume)
    apply (rule holds_andthen [OF holds_copy_items last])
    by (auto simp: mirrors_numbered)
  show ?thesis
    unfolding transfer_engine_run_def Let_def
    apply (rule holds_andthen [OF holds_start])
    apply (rule holds_andthen [where R = "\<lambda>_. kept"])
     apply (rule holds_if, rule holds_scan, rule holds_give, assumption)
    apply (rule holds_andthen [OF holds_transfer_items])
    by (rule holds_before [OF keep work])
qed

text \<open>C36: Whatever the two peers answer and whichever write of the store fails, a run of the
  engine only asks the source to look, list, read and hash, and every command that may change
  the destination is one the store already holds at that moment: the item says prepared with the
  same target, token, stamp and expected destination (or done, for the metadata of a directory).
  The items of the store stay numbered from 0, so the next run starts from the same hypotheses.\<close>

theorem intent_before_mutation:
  fixes call :: "'p peers"
  assumes "numbered (tw_items s)" and "list_all step_ok (tw_steps s)"
  shows "case transfer_engine_run pages call sha identity capabilities connect s of (_, s') \<Rightarrow>
    numbered (tw_items s') \<and> list_all step_ok (tw_steps s')"
proof -
  have "kept s" using assms by (simp add: kept_def stored_def mirrors_def steps_ok_def)
  then have "steps_ok (snd (transfer_engine_run pages call sha identity capabilities connect s))"
    using holds_engine_run [of pages call sha identity capabilities connect, unfolded holds_def, rule_format, of s]
    by (simp split: outcome.splits)
  then show ?thesis unfolding steps_ok_def by (simp add: case_prod_beta)
qed

text \<open>An upload of one file of two bytes, already scanned; the peers answer from a script.\<close>

definition scripted :: "(ClientError + Reply \<times> string) list peers" where
  "scripted source root c bytes rs = (case rs of [] \<Rightarrow> (Inl Err_Timeout, []) | r # rs \<Rightarrow> (r, rs))"

definition upload_stamp :: Stamp where
  "upload_stamp = \<lparr> sp_kind = Kind_File, sp_length = 2, sp_modified_ns = 7, sp_device = 1, sp_inode = 1, sp_mode = 420 \<rparr>"

definition upload_task :: Task where
  "upload_task = \<lparr> tk_view = \<lparr> tf_id = ''i'', tf_name = ''a'', tf_server = ''s'', tf_workspace = ''/w'', tf_direction = Upload,
     tf_destination = ''d'', tf_status = Paused, tf_bytes = 0, tf_total = 0, tf_files = 0, tf_completed = 0, tf_skipped = 0,
     tf_message = None, tf_error_code = None, tf_conflict = None, tf_active = False, tf_owned = False \<rparr>,
     tk_server_id = ''s'', tk_sources = [\<lparr> so_root = 0, so_path = ''a'' \<rparr>], tk_remote_identity = None, tk_remote_root = None,
     tk_scanned = True, tk_cancel = False, tk_current = None, tk_policy = None \<rparr>"

definition upload_replies :: "(ClientError + Reply \<times> string) list" where
  "upload_replies = map (\<lambda>x. Inr x)
    [(Reply_Stat None, []), (Reply_Ready 0 False, []), (Reply_Data ''ab'', ''ab''),
     (Reply_Ready 2 False, []), (Reply_Hash ''ab'', []), (Reply_Done, []), (Reply_Done, [])]"

definition upload_world :: "(ClientError + Reply \<times> string) list transfer_world" where
  "upload_world = \<lparr> tw_peers = upload_replies, tw_items = [scan_item 0 None 0 ''a'' upload_stamp ''t''], tw_task = Some upload_task, tw_tokens = [],
     tw_store_fails = [], tw_steps = [] \<rparr>"

definition upload_connect :: "'p \<Rightarrow> (ClientError + RootIdentity) \<times> 'p" where
  "upload_connect p = (Inr \<lparr> ri_device = 1, ri_inode = 2 \<rparr>, p)"

definition upload_run :: "unit outcome \<times> (ClientError + Reply \<times> string) list transfer_world" where
  "upload_run = transfer_engine_run 1 scripted (\<lambda>s. s) ''id'' [''file-transfer-v1''] upload_connect upload_world"

lemma intent_before_mutation_witness:
  "(case upload_run of (_, s') \<Rightarrow> numbered (tw_items s') \<and> list_all step_ok (tw_steps s'))
    \<and> (case upload_run of (r, s') \<Rightarrow> r = Came () \<and> length (tw_steps s') > 8)"
proof
  show "case upload_run of (_, s') \<Rightarrow> numbered (tw_items s') \<and> list_all step_ok (tw_steps s')"
    unfolding upload_run_def
    by (rule intent_before_mutation) (simp_all add: upload_world_def scan_item_def numbered_def)
  show "case upload_run of (r, s') \<Rightarrow> r = Came () \<and> length (tw_steps s') > 8"
    by (simp add: upload_run_def upload_world_def upload_replies_def upload_task_def upload_stamp_def upload_connect_def scripted_def
        transfer_engine_run_def transfer_run_start_def connecting_def stored_task_def transfer_items_def count_progress_def
        copy_item_def copy_or_conflict_def copy_file_def copy_prepared_def copy_verify_def copy_blocks.simps attempt_def outcome_of_def
        restart_item_def place_item_def destination_def peers_stat_def peers_call_def publish_def transfer_save_def transfer_item_def
        storing_def scan_item_def andthen_def before_def give_def raise_def orelse_def last_part_def join_path_def u64_def sat_add_def
        skipped_message_def Let_def upt_rec)
qed

end
