(* ===== verification/Client_Transfer_Ends.thy ===== *)
theory Client_Transfer_Ends
  imports Client_Transfer_Safety
begin

text \<open>
  The loops of the engine end: the bounds given to them in the model are never used up when
  replies have the size the wire allows, lengths leave room for one more block, and a page of
  a directory that announces another one has an entry.  The last is needed: without it the
  scan of a directory does not end.
\<close>

section \<open>Runs that end\<close>

definition ends :: "('s \<Rightarrow> bool) \<Rightarrow> ('s, 'a) run \<Rightarrow> ('a \<Rightarrow> 's \<Rightarrow> bool) \<Rightarrow> bool" where
  "ends P m Q \<longleftrightarrow> (\<forall>s. P s \<longrightarrow> (case fst (m s) of Came x \<Rightarrow> Q x (snd (m s)) | Raised e \<Rightarrow> P (snd (m s)) | Going \<Rightarrow> False))"

lemma endsI:
  assumes "\<And>s x s'. P s \<Longrightarrow> m s = (Came x, s') \<Longrightarrow> Q x s'" "\<And>s e s'. P s \<Longrightarrow> m s = (Raised e, s') \<Longrightarrow> P s'"
    and "\<And>s s'. P s \<Longrightarrow> m s = (Going, s') \<Longrightarrow> False"
  shows "ends P m Q"
  unfolding ends_def
proof (intro allI impI)
  fix s assume s: "P s"
  obtain r s' where m: "m s = (r, s')" by fastforce
  show "case fst (m s) of Came x \<Rightarrow> Q x (snd (m s)) | Raised e \<Rightarrow> P (snd (m s)) | Going \<Rightarrow> False"
    using assms(1) [OF s] assms(2) [OF s] assms(3) [OF s] m by (cases r) simp_all
qed

lemma endsD:
  assumes "ends P m Q" "P s"
  shows "m s = (Came x, s') \<Longrightarrow> Q x s'" "m s = (Raised e, s') \<Longrightarrow> P s'" "m s = (Going, s') \<Longrightarrow> False"
  using assms(1) [unfolded ends_def, rule_format, OF assms(2)] by simp_all

lemma ends_conseq: "ends P m Q' \<Longrightarrow> (\<And>x s. Q' x s \<Longrightarrow> Q x s) \<Longrightarrow> ends P m Q"
  unfolding ends_def by (fastforce split: outcome.splits)

lemma ends_give: "(\<And>s. P s \<Longrightarrow> Q x s) \<Longrightarrow> ends P (give x) Q"
  by (simp add: ends_def give_def)

lemma ends_raise: "ends P (raise e) Q"
  by (simp add: ends_def raise_def)

text \<open>A fact about values is kept beside the invariant of the state.\<close>

lemma ends_andthen:
  assumes m: "ends P m (\<lambda>x s. P s \<and> R x)" and k: "\<And>x. R x \<Longrightarrow> ends P (k x) Q"
  shows "ends P (andthen m k) Q"
proof (rule endsI)
  fix s assume s: "P s"
  note M = endsD [OF m s]
  have K: "k x s1 = (Came y, s2) \<Longrightarrow> Q y s2" "k x s1 = (Raised e, s2) \<Longrightarrow> P s2" "k x s1 = (Going, s2) \<Longrightarrow> False"
    if "m s = (Came x, s1)" for x s1 y e s2
    using M(1) [OF that] k [THEN endsD(1)] k [THEN endsD(2)] k [THEN endsD(3)] by blast+
  show "andthen m k s = (Came x, s') \<Longrightarrow> Q x s'" for x s'
    by (erule andthen_cases) (use K(1) in simp_all)
  show "andthen m k s = (Raised e, s') \<Longrightarrow> P s'" for e s'
    by (erule andthen_cases) (use M(2) K(2) in simp_all)
  show "andthen m k s = (Going, s') \<Longrightarrow> False" for s'
    by (erule andthen_cases) (use M(3) K(3) in auto)
qed

lemma ends_before: "ends P m (\<lambda>_. P) \<Longrightarrow> ends P k Q \<Longrightarrow> ends P (before m k) Q"
  unfolding before_def by (rule ends_andthen [where R = "\<lambda>_. True"]) auto

lemma ends_if: "(b \<Longrightarrow> ends P m Q) \<Longrightarrow> (\<not> b \<Longrightarrow> ends P k Q) \<Longrightarrow> ends P (if b then m else k) Q"
  by simp

lemma ends_orelse: "(\<And>v. x = Some v \<Longrightarrow> R v) \<Longrightarrow> ends P (orelse e x) (\<lambda>v s. P s \<and> R v)"
  by (cases x) (simp_all add: orelse_def ends_give ends_raise)

lemma ends_outcome_of:
  "ends P m (\<lambda>x s. P s \<and> R x) \<Longrightarrow> ends P (outcome_of m) (\<lambda>r s. P s \<and> (case r of Inl _ \<Rightarrow> True | Inr x \<Rightarrow> R x))"
  unfolding ends_def outcome_of_def by (fastforce split: prod.splits outcome.splits)

lemma ends_attempt:
  assumes "ends P m (\<lambda>x s. P s \<and> R x)" "\<And>x. R x \<Longrightarrow> ends P (k x) Q" "\<And>e s. P s \<Longrightarrow> Q (Some e, here) s"
  shows "ends P (attempt here m k) Q"
  unfolding attempt_def
  by (rule ends_andthen [OF ends_outcome_of [OF assms(1)]])
    (use assms(2,3) in \<open>auto intro: ends_give split: sum.splits\<close>)

section \<open>Replies that fit\<close>

text \<open>The wire refuses larger payloads, and no file is longer than \<open>2^63\<close> bytes.\<close>

definition fits :: "Stamp \<Rightarrow> bool" where
  "fits m \<longleftrightarrow> sp_length m + CHUNK < u64"

definition fair :: "'p peers \<Rightarrow> bool" where
  "fair call \<longleftrightarrow> (\<forall>source root c bytes p. case fst (call source root c bytes p) of
     Inl _ \<Rightarrow> True
   | Inr (r, b) \<Rightarrow> length b \<le> CHUNK \<and> (case r of
       Reply_Stat (Some m) \<Rightarrow> fits m
     | Reply_List page \<Rightarrow> pg_after page \<noteq> None \<longrightarrow> pg_entries page \<noteq> []
     | _ \<Rightarrow> True))"

fun fair_reply :: "Reply \<times> string \<Rightarrow> bool" where
  "fair_reply (Reply_Stat (Some m), b) \<longleftrightarrow> length b \<le> CHUNK \<and> fits m"
| "fair_reply (Reply_List page, b) \<longleftrightarrow> length b \<le> CHUNK \<and> (pg_after page \<noteq> None \<longrightarrow> pg_entries page \<noteq> [])"
| "fair_reply (_, b) \<longleftrightarrow> length b \<le> CHUNK"

definition slim :: "'p transfer_world \<Rightarrow> bool" where
  "slim s \<longleftrightarrow> (\<forall>i \<in> set (tw_items s). fits (it_stamp i))"

lemma slim_fields [simp]:
  "slim (s\<lparr> tw_peers := p \<rparr>) = slim s" "slim (s\<lparr> tw_steps := t \<rparr>) = slim s" "slim (s\<lparr> tw_store_fails := f \<rparr>) = slim s"
  "slim (s\<lparr> tw_tokens := ts \<rparr>) = slim s" "slim (s\<lparr> tw_task := u \<rparr>) = slim s"
  by (simp_all add: slim_def)

lemma fair_replies: "fair call \<Longrightarrow> call source root c bytes p = (Inr x, p') \<Longrightarrow> fair_reply x"
  unfolding fair_def
  by (cases x rule: fair_reply.cases) (force dest: spec [of _ source] spec [of _ root] spec [of _ c] spec [of _ bytes] spec [of _ p])+

lemma ends_call: "fair call \<Longrightarrow> ends slim (peers_call call source root c bytes) (\<lambda>x s. slim s \<and> fair_reply x)"
  by (rule endsI) (auto simp: peers_call_def dest: fair_replies split: prod.splits sum.splits)

lemma ends_stat:
  "fair call \<Longrightarrow> ends slim (peers_stat call source root path) (\<lambda>m s. slim s \<and> (\<forall>v. m = Some v \<longrightarrow> fits v))"
  unfolding peers_stat_def
  by (rule ends_andthen [OF ends_call])
    (auto intro!: ends_give ends_raise split: prod.split Reply.split dest: fair_reply.simps(1) [THEN iffD1])

lemma ends_storing: "(\<And>s. slim s \<Longrightarrow> slim (f s)) \<Longrightarrow> ends slim (storing f) (\<lambda>_. slim)"
  by (auto simp: ends_def storing_def split: list.split bool.split)

lemma put_item_set: "set (put_item i items) \<subseteq> insert i (set items)"
  by (induction items) auto

lemma ends_store: "fits (it_stamp i) \<Longrightarrow> ends slim (transfer_item i) (\<lambda>_. slim)"
  unfolding transfer_item_def
  by (rule ends_storing) (use put_item_set in \<open>fastforce simp: slim_def\<close>)

lemma ends_publish: "ends slim (publish t) (\<lambda>_. slim)"
  unfolding publish_def transfer_save_def by (rule ends_storing) simp

lemma ends_token: "ends slim new_token (\<lambda>_. slim)"
  by (simp add: ends_def new_token_def split: list.split)

section \<open>One file\<close>

definition done_well :: "ClientError option \<times> Task \<times> Item \<Rightarrow> 'p transfer_world \<Rightarrow> bool" where
  "done_well x s \<longleftrightarrow> slim s \<and> fits (it_stamp (snd (snd x)))"

lemma done_wellI: "fits (it_stamp i) \<Longrightarrow> ends slim (give (e, t, i)) done_well"
  by (rule ends_give) (simp add: done_well_def)

lemma ends_attempt_call:
  assumes "fair call" "fits (it_stamp i)" "\<And>x. fair_reply x \<Longrightarrow> ends slim (k x) done_well"
  shows "ends slim (attempt (t, i) (peers_call call source root c bytes) k) done_well"
  by (rule ends_attempt [OF ends_call [OF assms(1)] assms(3)]) (simp_all add: done_well_def assms(2))

lemma ends_attempt_store:
  assumes "fits (it_stamp i)" "ends slim (k ()) done_well"
  shows "ends slim (attempt (t, i) (transfer_item i) k) done_well"
  by (rule ends_attempt [where R = "\<lambda>_. True"])
    (use assms ends_store [OF assms(1)] in \<open>auto simp: done_well_def\<close>)

lemma ends_copy_blocks:
  assumes call: "fair call"
  shows "fits (it_stamp item) \<Longrightarrow> sp_length (it_stamp item) \<le> rounds + offset \<Longrightarrow>
    ends slim (copy_blocks rounds call sha task item offset) done_well"
proof (induction rounds arbitrary: task item offset)
  case (0 task item offset)
  then show ?case by (subst copy_blocks.simps) (simp add: done_wellI)
next
  case (Suc rounds)
  note stop = done_wellI [OF Suc.prems(1)]
  have next_offset: "(offset + length bytes) mod u64 = offset + length bytes"
    if "length bytes \<le> CHUNK" "offset < sp_length (it_stamp item)" for bytes :: string
    using that Suc.prems(1) by (simp add: fits_def)
  have blocks: "ends slim (attempt (t, item\<lparr> it_bytes := k \<rparr>) (transfer_item (item\<lparr> it_bytes := k \<rparr>))
      (\<lambda>_. copy_blocks rounds call sha t (item\<lparr> it_bytes := k \<rparr>) k)) done_well" if "offset < k" for k t
    using that Suc.prems by (intro ends_attempt_store Suc.IH) simp_all
  have confirm: "ends slim (case y of (r, _) \<Rightarrow> case r of Reply_Ready confirmed False \<Rightarrow>
          (if confirmed \<noteq> (offset + length b) mod u64 \<or> confirmed > sp_length (it_stamp item)
           then give (Some Err_RemoteResponse, task, item)
           else attempt (f confirmed, item\<lparr> it_bytes := confirmed \<rparr>) (transfer_item (item\<lparr> it_bytes := confirmed \<rparr>))
             (\<lambda>_. copy_blocks rounds call sha (f confirmed) (item\<lparr> it_bytes := confirmed \<rparr>) confirmed))
        | _ \<Rightarrow> give (Some Err_RemoteResponse, task, item)) done_well"
    if "length b \<le> CHUNK" "b \<noteq> []" "offset < sp_length (it_stamp item)" for y :: "Reply \<times> string" and b :: string and f
    using that next_offset [of b] by (cases y) (auto intro!: stop blocks ends_if split: Reply.split bool.split)
  have fetched: "ends slim (case x of (r, bytes) \<Rightarrow> case r of Reply_Data digest \<Rightarrow>
         (if bytes = [] \<or> sha bytes \<noteq> digest then give (Some Err_Integrity, task, item)
          else
            attempt (task, item) (peers_call call False (it_root item) (Cmd_Write (it_target item) (it_token item) offset digest) bytes) (\<lambda>(r, _).
            case r of Reply_Ready confirmed False \<Rightarrow>
              (if confirmed \<noteq> (offset + length bytes) mod u64 \<or> confirmed > sp_length (it_stamp item) then give (Some Err_RemoteResponse, task, item)
               else attempt (f bytes confirmed, item\<lparr> it_bytes := confirmed \<rparr>) (transfer_item (item\<lparr> it_bytes := confirmed \<rparr>))
                 (\<lambda>_. copy_blocks rounds call sha (f bytes confirmed) (item\<lparr> it_bytes := confirmed \<rparr>) confirmed))
            | _ \<Rightarrow> give (Some Err_RemoteResponse, task, item)))
       | _ \<Rightarrow> give (Some Err_RemoteResponse, task, item)) done_well"
    if "fair_reply x" "offset < sp_length (it_stamp item)" for x f
  proof -
    obtain r b where x: "x = (r, b)" by fastforce
    show ?thesis
    proof (cases r)
      case (Reply_Data digest)
      then have b: "length b \<le> CHUNK" using that(1) x by simp
      have "ends slim (attempt (task, item)
            (peers_call call False (it_root item) (Cmd_Write (it_target item) (it_token item) offset digest) b) (\<lambda>(r, _).
            case r of Reply_Ready confirmed False \<Rightarrow>
              (if confirmed \<noteq> (offset + length b) mod u64 \<or> confirmed > sp_length (it_stamp item) then give (Some Err_RemoteResponse, task, item)
               else attempt (f b confirmed, item\<lparr> it_bytes := confirmed \<rparr>) (transfer_item (item\<lparr> it_bytes := confirmed \<rparr>))
                 (\<lambda>_. copy_blocks rounds call sha (f b confirmed) (item\<lparr> it_bytes := confirmed \<rparr>) confirmed))
            | _ \<Rightarrow> give (Some Err_RemoteResponse, task, item))) done_well" if "b \<noteq> []"
        by (rule ends_attempt_call [OF call Suc.prems(1)]) (rule confirm [OF b that \<open>offset < _\<close>])
      then show ?thesis using x Reply_Data by (simp add: stop)
    qed (simp_all add: x stop)
  qed
  show ?case
    unfolding copy_blocks.simps [of "Suc rounds"] nat.case Let_def
  proof (rule ends_if, goal_cases)
    case 1
    show ?case by (rule stop)
  next
    case 2
    then show ?case by (intro ends_attempt_call [OF call Suc.prems(1)] fetched) simp_all
  qed
qed

lemma ends_copy_verify:
  assumes "fair call" "fits (it_stamp item)"
  shows "ends slim (copy_verify call task item) done_well"
  unfolding copy_verify_def Let_def
  by (rule ends_attempt_call [OF assms], auto intro!: ends_attempt_call [OF assms] done_wellI [OF assms(2)] split: Reply.split)

lemma ends_copy_prepared:
  assumes "fair call" "fits (it_stamp item)"
  shows "ends slim (copy_prepared call sha task item offset complete) done_well"
proof -
  have next_step: "ends slim (case x of (e, t, i) \<Rightarrow> if e \<noteq> None then give (e, t, i) else copy_verify call t i) done_well"
    if "fits (it_stamp (snd (snd x)))" for x :: "ClientError option \<times> Task \<times> Item"
    using that by (cases x) (auto intro: done_wellI ends_copy_verify [OF assms(1)])
  have blocks: "ends slim (copy_blocks (sp_length (it_stamp i)) call sha t i offset)
      (\<lambda>x s. slim s \<and> fits (it_stamp (snd (snd x))))" if "it_stamp i = it_stamp item" for t and i :: Item
    using ends_copy_blocks [OF assms(1), of i "sp_length (it_stamp i)" offset sha t] assms(2) that by (simp add: done_well_def [abs_def])
  show ?thesis
    unfolding copy_prepared_def Let_def
    by (intro ends_if done_wellI ends_attempt_store ends_andthen [OF blocks next_step]) (simp_all add: assms)
qed

lemma ends_copy_file:
  assumes "fair call" "fits (it_stamp item)"
  shows "ends slim (copy_file call sha task item) done_well"
proof -
  have fits: "fits (it_stamp (item\<lparr> it_prepared := True \<rparr>))" using assms(2) by simp
  show ?thesis
    unfolding copy_file_def Let_def
    by (rule ends_attempt_store [OF fits], rule ends_attempt_call [OF assms(1) fits])
      (use fits in \<open>auto intro!: done_wellI ends_copy_prepared [OF assms(1)] split: Reply.split\<close>)
qed

section \<open>Scan\<close>

lemma ends_scan_children:
  assumes "fair call"
  shows "0 < pages \<Longrightarrow> 100000 < pages + length children \<Longrightarrow>
    ends slim (scan_children pages call root path index pending after children) (\<lambda>_. slim)"
proof (induction pages arbitrary: after children)
  case (Suc pages)
  have step: "ends slim (case x of (r, _) \<Rightarrow> case r of Reply_List page \<Rightarrow>
      let children = children @ map (\<lambda>e. (root, join_path path (en_name e), Some index)) (pg_entries page) in
      if pg_after page = None then give children
      else if pending + length children > 100000 then raise (Err_Argument ''Directory is too large. Select smaller folders.'')
      else scan_children pages call root path index pending (pg_after page) children
    | _ \<Rightarrow> raise Err_RemoteResponse) (\<lambda>_. slim)" if "fair_reply x" for x
  proof -
    obtain r b where x: "x = (r, b)" by fastforce
    show ?thesis
    proof (cases r)
      case (Reply_List page)
      let ?c = "children @ map (\<lambda>e. (root, join_path path (en_name e), Some index)) (pg_entries page)"
      have "length children < length ?c" if "pg_after page \<noteq> None"
        using \<open>fair_reply x\<close> that Reply_List x by simp
      then have "ends slim (scan_children pages call root path index pending (pg_after page) ?c) (\<lambda>_. slim)"
        if "pg_after page \<noteq> None" "\<not> pending + length ?c > 100000"
        using that Suc.prems(2) by (intro Suc.IH) linarith+
      then show ?thesis
        unfolding x Reply_List prod.case Reply.case Let_def by (intro ends_if ends_give ends_raise)
    qed (simp_all add: x ends_raise)
  qed
  show ?case
    unfolding scan_children.simps by (rule ends_andthen [OF ends_call [OF assms] step])
qed simp

lemma ends_scan_entries:
  assumes "fair call" "100000 < pages"
  shows "100000 \<le> rounds + index \<Longrightarrow> ends slim (scan_entries rounds pages call task pending index) (\<lambda>_. slim)"
proof (induction rounds arbitrary: task pending index)
  case (0 task pending index)
  then show ?case
    by (cases "(0 :: nat, pages, call, task, pending, index)" rule: scan_entries.cases)
      (auto simp: scan_entries.simps too_many_def intro: ends_give ends_raise)
next
  case (Suc rounds)
  show ?case
  proof (cases pending)
    case Nil
    then show ?thesis by (simp add: scan_entries.simps ends_give)
  next
    case (Cons x rest)
    obtain root path parent where x: "x = (root, path, parent)" by (cases x) auto
    have store: "ends slim (transfer_item (scan_item index parent root path stamp token)) (\<lambda>_. slim)" if "fits stamp" for stamp token
      by (rule ends_store) (simp add: scan_item_def that)
    have children: "ends slim (scan_children pages call root path index k None []) (\<lambda>_ s. slim s \<and> True)" for k
      using ends_scan_children [OF assms(1), of pages "[]"] assms(2) by simp
    have pick: "ends slim (orelse e x) (\<lambda>_ s. slim s \<and> True)" for e and x :: "'x option"
      by (rule ends_conseq [OF ends_orelse [where R = "\<lambda>_. True"]]) simp_all
    have plain: "ends slim (give y) (\<lambda>_ s. slim s \<and> True)" for y :: 'y
      by (rule ends_give) simp
    show ?thesis
      unfolding Cons x scan_entries.simps nat.case Let_def
      apply (rule ends_if, rule ends_raise)
      apply (rule ends_andthen [OF ends_stat [OF assms(1)]])
      apply (rule ends_andthen [where R = fits], rule ends_orelse, blast)
      apply (rule ends_andthen [where R = "\<lambda>_. True"], rule ends_conseq [OF ends_token], simp)
      apply (rule ends_before [OF store], assumption)
      apply (rule ends_andthen [where R = "\<lambda>_. True"], rule ends_if, rule pick, rule plain)
      apply (rule ends_andthen [where R = "\<lambda>_. True"], rule ends_if, rule children, rule plain)
      apply (rule ends_before, rule ends_if, rule ends_publish, rule ends_give, assumption)
      by (rule Suc.IH) (use Suc.prems in simp)
  qed
qed

lemma ends_scan:
  assumes "fair call" "100000 < pages"
  shows "ends slim (scan pages call task) (\<lambda>_. slim)"
proof -
  have reset: "ends slim transfer_reset_scan (\<lambda>_. slim)"
    unfolding transfer_reset_scan_def by (rule ends_storing) (simp add: slim_def)
  have entries: "ends slim (scan_entries 100000 pages call t ps 0) (\<lambda>_ s. slim s \<and> True)" for t ps
    using ends_scan_entries [OF assms, of 100000 0] by simp
  show ?thesis
    unfolding scan_def Let_def
    by (intro ends_before [OF reset] ends_before [OF ends_publish] ends_andthen [OF entries] ends_give)
qed

section \<open>Items\<close>

text \<open>Rules for actions whose value does not matter.\<close>

definition stops :: "('p transfer_world, 'a) run \<Rightarrow> bool" where
  "stops m \<longleftrightarrow> ends slim m (\<lambda>_ s. slim s \<and> True)"

lemma stops_ends: "ends slim m (\<lambda>_. slim) \<Longrightarrow> stops m"
  by (simp add: stops_def)

lemma ends_stops: "stops m \<Longrightarrow> (\<And>x. ends slim (k x) Q) \<Longrightarrow> ends slim (andthen m k) Q"
  unfolding stops_def by (rule ends_andthen)

lemma ends_before_stops: "stops m \<Longrightarrow> ends slim k Q \<Longrightarrow> ends slim (before m k) Q"
  unfolding before_def by (rule ends_stops)

lemma stops_call: "fair call \<Longrightarrow> stops (peers_call call source root c bytes)"
  unfolding stops_def by (rule ends_conseq [OF ends_call]) simp_all

lemma stops_outcome: "fair call \<Longrightarrow> stops (outcome_of (peers_call call source root c bytes))"
  unfolding stops_def by (rule ends_conseq [OF ends_outcome_of [OF ends_call]]) simp_all

lemma stops_token: "stops new_token"
  by (rule stops_ends [OF ends_token])

lemma stops_publish: "stops (publish t)"
  by (rule stops_ends [OF ends_publish])

lemma stops_store: "fits (it_stamp i) \<Longrightarrow> stops (transfer_item i)"
  by (rule stops_ends [OF ends_store])

lemma stops_pick: "stops (orelse e x)"
  unfolding stops_def by (rule ends_conseq [OF ends_orelse [where R = "\<lambda>_. True"]]) simp_all

lemma stops_stat: "fair call \<Longrightarrow> stops (peers_stat call source root path)"
  unfolding stops_def by (rule ends_conseq [OF ends_stat]) simp_all

lemma ends_keep_both:
  "fair call \<Longrightarrow> fits (it_stamp item) \<Longrightarrow> ends slim (keep_both call original ns item) (\<lambda>i s. slim s \<and> fits (it_stamp i))"
  by (induction ns arbitrary: item) (auto simp: Let_def intro!: ends_raise ends_stops [OF stops_stat] ends_if ends_give)

lemma ends_destination:
  fixes call :: "'p peers"
  assumes "fair call" "fits (it_stamp item)"
  shows "ends slim (destination call task item) (\<lambda>x s. slim s \<and> fits (it_stamp (snd (snd x))))"
proof -
  have give: "ends (slim :: 'p transfer_world \<Rightarrow> bool) (give (go, t, i)) (\<lambda>x s. slim s \<and> fits (it_stamp (snd (snd x))))" if "fits (it_stamp i)" for go :: bool and t :: Task and i :: Item
    by (rule ends_give) (simp add: that)
  have both: "ends (slim :: 'p transfer_world \<Rightarrow> bool) (andthen (keep_both call p ns item) (\<lambda>i. give (True, task, i))) (\<lambda>x s. slim s \<and> fits (it_stamp (snd (snd x))))" for p ns
    by (rule ends_andthen [OF ends_keep_both [OF assms] give])
  show ?thesis
    unfolding destination_def
    apply (rule ends_if, rule give [OF assms(2)], rule ends_stops [OF stops_stat [OF assms(1)]])
    subgoal for m
    proof (cases m)
      case None
      show ?thesis unfolding None option.case by (rule give) (simp add: assms(2))
    next
      case (Some stamp)
      have "ends (slim :: 'p transfer_world \<Rightarrow> bool) (case c of
                Some Skip \<Rightarrow> give (True, task, item\<lparr> it_skipped := True \<rparr>)
              | Some Replace \<Rightarrow> give (True, task, item\<lparr> it_expected := Some stamp \<rparr>)
              | Some Merge \<Rightarrow> give (True, task, item\<lparr> it_expected := Some stamp \<rparr>)
              | Some KeepBoth \<Rightarrow>
                  andthen (keep_both call (it_target item) [2..<10000] item) (\<lambda>item. give (True, task, item))
              | None \<Rightarrow> give (False, ask task item stamp, item)) (\<lambda>x s. slim s \<and> fits (it_stamp (snd (snd x))))" for c
      proof (cases c)
        case None
        show ?thesis unfolding None option.case by (rule give) (rule assms(2))
      next
        case (Some d)
        show ?thesis unfolding Some option.case
          by (cases d; simp only: Choice.case) (rule both give; simp add: assms(2))+
      qed
      then show ?thesis unfolding Some option.case by (intro ends_if) (rule give; simp add: assms(2))
    qed
    done
qed

lemma ends_restart_item:
  fixes call :: "'p peers"
  assumes "fair call" "fits (it_stamp item)"
  shows "ends slim (restart_item call task item) (\<lambda>x s. slim s \<and> fits (it_stamp (snd x)))"
proof -
  have keep: "ends (slim :: 'p transfer_world \<Rightarrow> bool) (give (t, i)) (\<lambda>x s. slim s \<and> fits (it_stamp (snd x)))" if "fits (it_stamp i)" for t :: Task and i :: Item
    by (rule ends_give) (simp add: that)
  have renew: "ends (slim :: 'p transfer_world \<Rightarrow> bool) (case x of (task, item) \<Rightarrow> andthen new_token (\<lambda>token.
        give (task\<lparr> tk_view := (tk_view task)\<lparr> tf_bytes := tf_bytes (tk_view task) - it_bytes item \<rparr> \<rparr>,
          item\<lparr> it_token := token, it_bytes := 0, it_prepared := False, it_restart := False, it_restage := False \<rparr>)))
      (\<lambda>x s. slim s \<and> fits (it_stamp (snd x)))" if "fits (it_stamp (snd x))" for x :: "Task \<times> Item"
    unfolding case_prod_beta by (rule ends_stops [OF stops_token], rule keep) (simp add: that)
  show ?thesis
    unfolding restart_item_def
    apply (rule ends_if, rule keep [OF assms(2)])
    apply (rule ends_before_stops)
     apply (rule stops_ends, rule ends_if, rule ends_before_stops [OF stops_call [OF assms(1)]], rule ends_give, assumption, rule ends_give, assumption)
    apply (rule ends_andthen [where R = "\<lambda>x. fits (it_stamp (snd x))"], rule ends_if, rule keep [OF assms(2)])
     apply (rule ends_andthen [OF ends_stat [OF assms(1)]], rule ends_andthen [where R = fits], rule ends_orelse, blast)
     apply (rule ends_if, rule ends_raise, rule ends_stops [OF stops_pick], rule keep)
     apply simp
    by (rule renew)
qed

lemma ends_copy_directory:
  assumes "fair call" "fits (it_stamp item)"
  shows "ends slim (copy_directory call item) (\<lambda>i s. slim s \<and> fits (it_stamp i))"
  unfolding copy_directory_def Let_def
  by (intro ends_if ends_before_stops [OF stops_store] ends_before_stops [OF stops_call [OF assms(1)]]
      ends_stops [OF stops_stat [OF assms(1)]] ends_give) (simp_all add: assms(2))

definition turn_fits :: "(Task \<times> Item) turn \<Rightarrow> bool" where
  "turn_fits t = (case t of Paused_Turn \<Rightarrow> True | Next (_, i) \<Rightarrow> fits (it_stamp i))"

lemma ends_copy_or_conflict:
  fixes call :: "'p peers"
  assumes "fair call" "fits (it_stamp item)"
  shows "ends slim (copy_or_conflict call sha task item) (\<lambda>t s. slim s \<and> turn_fits t)"
proof -
  have copied: "ends (slim :: 'p transfer_world \<Rightarrow> bool) (copy_file call sha task item) (\<lambda>x s. slim s \<and> fits (it_stamp (snd (snd x))))"
    by (rule ends_conseq [OF ends_copy_file [OF assms]]) (simp add: done_well_def)
  have rest: "ends (slim :: 'p transfer_world \<Rightarrow> bool) (case x of (e, task, item) \<Rightarrow> case e of
        None \<Rightarrow> give (Next (task, item))
      | Some e \<Rightarrow>
          if client_code e \<noteq> ''TRANSFER_CONFLICT'' then raise e
          else
            andthen (peers_stat call False (it_root item) (it_target item)) (\<lambda>m. case m of
              None \<Rightarrow> raise e
            | Some stamp \<Rightarrow>
                let task = ask task item stamp; item = item\<lparr> it_choice := None \<rparr> in
                before (transfer_item item) (before (publish task) (give Paused_Turn))))
      (\<lambda>t s. slim s \<and> turn_fits t)" if "fits (it_stamp (snd (snd x)))" for x
  proof -
    obtain e t i where x: "x = (e, t, i)" by (cases x) auto
    then have i: "fits (it_stamp i)" "fits (it_stamp (i\<lparr> it_choice := None \<rparr>))" using that by simp_all
    have asked: "ends (slim :: 'p transfer_world \<Rightarrow> bool) (case m of None \<Rightarrow> raise e | Some stamp \<Rightarrow> let task = ask t i stamp; item = i\<lparr> it_choice := None \<rparr> in
        before (transfer_item item) (before (publish task) (give Paused_Turn))) (\<lambda>t s. slim s \<and> turn_fits t)" for m e
      by (cases m) (auto simp: Let_def turn_fits_def intro!: ends_raise ends_before_stops [OF stops_store [OF i(2)]]
          ends_before_stops [OF stops_publish] ends_give)
    show ?thesis
    proof (cases e)
      case None
      show ?thesis unfolding x prod.case None option.case by (rule ends_give) (simp add: turn_fits_def i)
    next
      case (Some f)
      show ?thesis unfolding x prod.case Some option.case
        by (rule ends_if, rule ends_raise, rule ends_stops [OF stops_stat [OF assms(1)] asked])
    qed
  qed
  show ?thesis
    unfolding copy_or_conflict_def
    by (rule ends_before_stops [OF stops_store [OF assms(2)] ends_andthen [OF copied rest]])
qed

definition all_fit :: "Item list \<Rightarrow> bool" where
  "all_fit items \<longleftrightarrow> (\<forall>i \<in> set items. fits (it_stamp i))"

definition turns_fit :: "(Task \<times> Item list) turn \<Rightarrow> bool" where
  "turns_fit t = (case t of Paused_Turn \<Rightarrow> True | Next (_, items) \<Rightarrow> all_fit items)"

lemma ends_copy_item:
  fixes call :: "'p peers"
  assumes "fair call" "all_fit items" "n < length items"
  shows "ends slim (copy_item call sha task items n) (\<lambda>t s. slim s \<and> turns_fit t)"
proof -
  have placed: "fits (it_stamp (place_item t items (items ! n)))" for t
    using assms(2,3) by (simp add: all_fit_def place_item_def Let_def)
  have paused: "ends (slim :: 'p transfer_world \<Rightarrow> bool) (before (transfer_item i) (before (publish t) (give Paused_Turn))) (\<lambda>t s. slim s \<and> turns_fit t)"
    if "fits (it_stamp i)" for t and i :: Item
    by (rule ends_before_stops [OF stops_store [OF that] ends_before_stops [OF stops_publish]], rule ends_give) (simp add: turns_fit_def)
  have finish: "ends (slim :: 'p transfer_world \<Rightarrow> bool) (case t of
              Paused_Turn \<Rightarrow> give Paused_Turn
            | Next (task, item) \<Rightarrow>
                let item = item\<lparr> it_done := True \<rparr>;
                    task = (if it_skipped item
                      then task\<lparr> tk_view := (tk_view task)\<lparr> tf_skipped := tf_skipped (tk_view task) + 1 \<rparr> \<rparr>
                      else task\<lparr> tk_view := (tk_view task)\<lparr> tf_completed := tf_completed (tk_view task) + 1 \<rparr> \<rparr>) in
                before (transfer_item item) (before (publish task) (give (Next (task, items[n := item])))))
      (\<lambda>t s. slim s \<and> turns_fit t)" if "turn_fits t" for t
  proof (cases t)
    case (Next x)
    obtain u i where x: "x = (u, i)" by fastforce
    then have i: "fits (it_stamp (i\<lparr> it_done := True \<rparr>))" using that Next by (simp add: turn_fits_def)
    show ?thesis unfolding Next turn.case x prod.case Let_def
      by (rule ends_before_stops [OF stops_store [OF i] ends_before_stops [OF stops_publish]], rule ends_give)
        (use i assms(2) set_update_subset_insert in \<open>fastforce simp: turns_fit_def all_fit_def\<close>)
  qed (simp add: ends_give turns_fit_def)
  have work: "ends (slim :: 'p transfer_world \<Rightarrow> bool) (if it_skipped i then give (Next (t, i))
      else if sp_kind (it_stamp i) = Kind_Directory
        then andthen (copy_directory call i) (\<lambda>i. give (Next (t, i)))
      else copy_or_conflict call sha t i) (\<lambda>t s. slim s \<and> turn_fits t)" if "fits (it_stamp i)" for t and i :: Item
    by (intro ends_if ends_andthen [OF ends_copy_directory [OF assms(1) that]] ends_copy_or_conflict [OF assms(1) that] ends_give)
      (simp_all add: turn_fits_def that)
  have choose: "ends (slim :: 'p transfer_world \<Rightarrow> bool) (if it_skipped i then give (True, t, i) else destination call t i)
      (\<lambda>x s. slim s \<and> fits (it_stamp (snd (snd x))))" if "fits (it_stamp i)" for t and i :: Item
    by (intro ends_if ends_destination [OF assms(1) that] ends_give) (simp add: that)
  show ?thesis
    unfolding copy_item_def Let_def [of "items ! n"] Let_def [of "task\<lparr> tk_current := _ \<rparr>"] Let_def [of "place_item _ _ _"]
    apply (rule ends_if, rule ends_give)
    subgoal using assms(2) by (simp add: turns_fit_def)
    apply (rule ends_andthen [OF ends_restart_item [OF assms(1) placed]])
    apply (split prod.split, intro allI impI, simp only: snd_conv)
    apply (rule ends_before_stops [OF stops_store], assumption)
    apply (rule ends_before_stops [OF stops_publish])
    apply (rule ends_andthen [OF choose], assumption)
    apply (split prod.split, intro allI impI, simp only: snd_conv)+
    apply (rule ends_if, rule paused, assumption)
    unfolding Let_def [of "_\<lparr> tk_view := _ \<rparr>"]
    by (rule ends_andthen [OF work finish])
qed

lemma ends_copy_items:
  fixes call :: "'p peers"
  assumes "fair call"
  shows "all_fit items \<Longrightarrow> \<forall>n \<in> set ns. n < length items \<Longrightarrow>
    ends slim (copy_items call sha task items ns) (\<lambda>t s. slim s \<and> turns_fit t)"
proof (induction ns arbitrary: task items)
  case Nil
  then show ?case by (simp add: ends_give turns_fit_def)
next
  case (Cons n ns)
  let ?R = "\<lambda>t :: (Task \<times> Item list) turn. turns_fit t \<and> (case t of Paused_Turn \<Rightarrow> True | Next (_, items') \<Rightarrow> length items' = length items)"
  have n: "n < length items" using Cons.prems(2) by simp
  have len: "length items' = length items" if "copy_item call sha task items n s = (Came (Next (u, items')), s')" for s s' :: "'p transfer_world" and u items'
    using that by (auto simp: copy_item_def Let_def before_def give_def raise_def andthen_def split: prod.splits outcome.splits turn.splits if_splits)
  have one: "ends slim (copy_item call sha task items n) (\<lambda>t s. slim s \<and> ?R t)"
    by (rule endsI; (frule (1) endsD [OF ends_copy_item [OF assms Cons.prems(1) n]])?) (auto split: turn.split dest: len)
  have rest: "ends slim (case t of Paused_Turn \<Rightarrow> give Paused_Turn | Next (task, items) \<Rightarrow> copy_items call sha task items ns)
      (\<lambda>t s. slim s \<and> turns_fit t)" if "?R t" for t
  proof (cases t)
    case (Next x)
    obtain u items' where x: "x = (u, items')" by fastforce
    show ?thesis unfolding Next x turn.case prod.case
      by (rule Cons.IH) (use that Cons.prems(2) in \<open>simp_all add: turns_fit_def Next x\<close>)
  qed (simp add: ends_give turns_fit_def)
  show ?case unfolding copy_items.simps by (rule ends_andthen [OF one rest])
qed

lemma stops_before: "stops m \<Longrightarrow> stops k \<Longrightarrow> stops (before m k)"
  unfolding stops_def [of "before m k"] by (rule ends_before_stops) (simp_all add: stops_def)

lemma stops_andthen: "stops m \<Longrightarrow> (\<And>x. stops (k x)) \<Longrightarrow> stops (andthen m k)"
  unfolding stops_def [of "andthen m k"] by (rule ends_stops) (simp_all add: stops_def)

lemma stops_give: "stops (give x)" and stops_raise: "stops (raise e)"
  by (simp_all add: stops_def ends_give ends_raise)

lemma stops_if: "stops m \<Longrightarrow> stops k \<Longrightarrow> stops (if b then m else k)"
  by simp

lemmas stops_rules = stops_before stops_andthen stops_give stops_raise stops_if stops_publish stops_pick

lemma stops_cleanup: "fair call \<Longrightarrow> stops (cleanup call items)"
  by (induction items) (auto simp: Let_def intro!: stops_rules stops_call stops_outcome split: sum.split)

lemma stops_directory_metadata: "fair call \<Longrightarrow> stops (directory_metadata call items)"
  by (induction items) (simp_all add: stops_give stops_before stops_call)

lemma stops_start: "stops (transfer_run_start identity capabilities connect)"
proof -
  have "stops stored_task"
    by (auto simp: stops_def ends_def stored_task_def orelse_def give_def raise_def split: list.split bool.split option.split)
  moreover have "stops (connecting connect)"
    by (auto simp: stops_def ends_def connecting_def split: prod.split sum.split)
  ultimately show ?thesis unfolding transfer_run_start_def Let_def by (intro stops_rules)
qed

lemma ends_transfer_items: "ends slim transfer_items (\<lambda>items s. slim s \<and> all_fit items)"
  by (auto simp: ends_def transfer_items_def slim_def all_fit_def split: list.split bool.split)

lemma stops_engine_run:
  fixes call :: "'p peers"
  assumes "fair call" "100000 < pages"
  shows "stops (transfer_engine_run pages call sha identity capabilities connect)"
proof -
  have last: "stops (case t of Paused_Turn \<Rightarrow> give ()
          | Next (task, items) \<Rightarrow>
              before (cleanup call items) (before (directory_metadata call (f items)) (publish (g task))))" for t f and g :: "Task \<Rightarrow> Task"
    by (cases t) (auto intro!: stops_rules stops_cleanup stops_directory_metadata assms(1) split: prod.split)
  have copies: "stops (andthen (copy_items call sha task items [0..<length items]) k)" if "all_fit items" "\<And>x. stops (k x)" for task items k
    unfolding stops_def [of "andthen _ _"]
    by (rule ends_andthen [OF ends_copy_items [OF assms(1) that(1)]]) (use that(2) in \<open>auto simp: stops_def\<close>)
  have work: "stops (if tk_cancel task then before (cleanup call items) (publish t)
        else andthen (copy_items call sha task items [0..<length items]) k)" if "all_fit items" "\<And>x. stops (k x)" for task t items k
    by (intro stops_rules stops_cleanup assms(1) copies that)
  show ?thesis
    unfolding transfer_engine_run_def Let_def
    apply (rule stops_andthen [OF stops_start])
    apply (rule stops_andthen)
     apply (rule stops_if [OF stops_ends [OF ends_scan [OF assms]] stops_give])
    unfolding stops_def
    by (rule ends_andthen [OF ends_transfer_items], fold stops_def, intro stops_before [OF stops_publish] work last)
qed

section \<open>The engine ends\<close>

text \<open>C37: When replies are no larger than the wire allows, lengths leave room for a block, and a
  page that announces another one has an entry, then every run of the engine comes to an end: no
  loop runs past its bound, whatever else the peers answer and whichever write of the store fails.\<close>

theorem transfer_run_ends:
  assumes "fair call" and "\<forall>i \<in> set (tw_items s). fits (it_stamp i)" and "100000 < pages"
  shows "fst (transfer_engine_run pages call sha identity capabilities connect s) \<noteq> Going"
  using stops_engine_run [OF assms(1,3), of sha identity capabilities connect] assms(2)
  by (auto simp: stops_def ends_def slim_def split: outcome.splits)

text \<open>Peers that hold one file.\<close>

definition small_peers :: "unit peers" where
  "small_peers source root c bytes p = (Inr (case c of
      Cmd_Stat path \<Rightarrow> (Reply_Stat (if source then Some upload_stamp else None), [])
    | Cmd_Read path m k \<Rightarrow> (Reply_Data ''b'', ''b'')
    | Cmd_Write path t k d \<Rightarrow> (Reply_Ready (k + 1) False, [])
    | Cmd_Prepare path t m e \<Rightarrow> (Reply_Ready 0 False, [])
    | _ \<Rightarrow> (Reply_Done, [])), p)"

lemma transfer_run_ends_witness:
  "fst (transfer_engine_run 100001 small_peers (\<lambda>s. s) ''id'' [''file-transfer-v1''] upload_connect
    \<lparr> tw_peers = (), tw_items = [scan_item 0 None 0 ''a'' upload_stamp ''t''], tw_task = Some upload_task, tw_tokens = [],
      tw_store_fails = [False, True], tw_steps = [] \<rparr>) \<noteq> Going"
  by (rule transfer_run_ends)
    (auto simp: fair_def small_peers_def fits_def u64_def CHUNK_def upload_stamp_def scan_item_def split: Command.split)

text \<open>Empty pages that announce another one keep the scan of a directory going, whatever the bound
  on its pages; the limit of 100,000 entries does not stop it.\<close>

definition endless_peers :: "unit peers" where
  "endless_peers source root c bytes p = (Inr (Reply_List \<lparr> pg_entries = [], pg_after = Some ''x'' \<rparr>, []), p)"

lemma endless_scan: "fst (scan_children pages endless_peers root path index 0 after [] s) = Going"
  by (induction pages arbitrary: after s) (simp_all add: going_def andthen_def peers_call_def endless_peers_def Let_def)

text \<open>An item that is prepared is not compared with what is at its destination: a directory that
  another program made after the first look, on which the first run failed, is taken over by the
  next run without a conflict.\<close>

lemma prepared_directory_taken_over:
  assumes "it_prepared item"
    and "peers_stat call False (it_root item) (it_target item) s = (Came (Some stamp), s')"
  shows "destination call task item s = (Came (True, task, item), s)"
    and "copy_directory call item s = (Came item, s')"
  using assms by (simp_all add: destination_def copy_directory_def andthen_def give_def)

end
