(* ===== verification/Client_Transfer_Copy.thy ===== *)
theory Client_Transfer_Copy
  imports Client_Transfer_Ends
begin

text \<open>
  What a copy of one file sends when it succeeds: blocks of the source in order, without a gap
  or an overlap, up to the length of the source, and then the commit with the digest of the
  source.
\<close>

text \<open>The commands for the destination.\<close>

fun sent :: "transfer_step list \<Rightarrow> (Command \<times> string) list" where
  "sent [] = []"
| "sent (Called False root c bytes items # ts) = (c, bytes) # sent ts"
| "sent (_ # ts) = sent ts"

lemma sent_append [simp]: "sent (ts @ us) = sent ts @ sent us"
  by (induction ts rule: sent.induct) simp_all

text \<open>Whether the peers may give a reply.\<close>

definition may_reply :: "'p peers \<Rightarrow> bool \<Rightarrow> nat \<Rightarrow> Command \<Rightarrow> string \<Rightarrow> Reply \<times> string \<Rightarrow> bool" where
  "may_reply call source root c bytes x \<longleftrightarrow> (\<exists>p p'. call source root c bytes p = (Inr x, p'))"

fun tiles :: "'p peers \<Rightarrow> (string \<Rightarrow> string) \<Rightarrow> Item \<Rightarrow> nat \<Rightarrow> (Command \<times> string) list \<Rightarrow> bool" where
  "tiles call sha i k [] \<longleftrightarrow> k = sp_length (it_stamp i)"
| "tiles call sha i k ((c, b) # ws) \<longleftrightarrow> b \<noteq> [] \<and> c = Cmd_Write (it_target i) (it_token i) k (sha b)
    \<and> may_reply call True (it_root i) (Cmd_Read (it_source i) (it_stamp i) k) [] (Reply_Data (sha b), b)
    \<and> tiles call sha i (k + length b) ws"

lemma attempt_None:
  assumes "attempt here m k s = (Came (None, x), s')"
  obtains y s1 where "m s = (Came y, s1)" "k y s1 = (Came (None, x), s')"
  using assms by (auto simp: attempt_def andthen_def outcome_of_def give_def split: prod.splits outcome.splits sum.splits)

lemma called:
  assumes "peers_call call source root c bytes s = (Came x, s')"
  shows "may_reply call source root c bytes x" "tw_steps s' = tw_steps s @ [Called source root c bytes (tw_items s)]"
  using assms by (auto simp: peers_call_def may_reply_def split: prod.splits sum.splits)

lemma item_stored: "transfer_item i s = (Came x, s') \<Longrightarrow> tw_steps s' = tw_steps s @ [Item_Stored i]"
  by (auto simp: transfer_item_def storing_def split: list.splits bool.splits)

lemma fair_may_reply: "fair call \<Longrightarrow> may_reply call source root c bytes x \<Longrightarrow> fair_reply x"
  by (auto simp: may_reply_def dest: fair_replies)

lemma tiles_same: "it_target i = it_target j \<Longrightarrow> it_token i = it_token j \<Longrightarrow> it_root i = it_root j \<Longrightarrow> it_source i = it_source j
    \<Longrightarrow> it_stamp i = it_stamp j \<Longrightarrow> tiles call sha i k ws = tiles call sha j k ws"
  by (induction call sha i k ws rule: tiles.induct) simp_all

lemma blocks_tile:
  assumes fair: "fair call"
  shows "copy_blocks rounds call sha task item offset s = (Came (None, t', i'), s') \<Longrightarrow> fits (it_stamp item) \<Longrightarrow>
    offset \<le> sp_length (it_stamp item) \<Longrightarrow>
    same_item item i' \<and> (\<exists>ts. tw_steps s' = tw_steps s @ ts \<and> tiles call sha item offset (sent ts))"
proof (induction rounds arbitrary: task item offset s)
  case (0 task item offset s)
  then show ?case
    by (subst (asm) copy_blocks.simps) (auto simp: give_def going_def split: if_splits intro: exI [of _ "[]"])
next
  case (Suc rounds)
  show ?case
  proof (cases "offset \<ge> sp_length (it_stamp item)")
    case True
    then show ?thesis using Suc.prems
      by (subst (asm) copy_blocks.simps) (auto simp: give_def intro: exI [of _ "[]"])
  next
    case False
    let ?read = "Cmd_Read (it_source item) (it_stamp item) offset"
    obtain r bytes s1 where read: "peers_call call True (it_root item) ?read [] s = (Came (r, bytes), s1)"
      and k1: "(case r of Reply_Data digest \<Rightarrow>
         (if bytes = [] \<or> sha bytes \<noteq> digest then give (Some Err_Integrity, task, item)
          else
            attempt (task, item) (peers_call call False (it_root item) (Cmd_Write (it_target item) (it_token item) offset digest) bytes) (\<lambda>(r, _).
            case r of Reply_Ready confirmed False \<Rightarrow>
              (if confirmed \<noteq> (offset + length bytes) mod u64 \<or> confirmed > sp_length (it_stamp item) then give (Some Err_RemoteResponse, task, item)
               else
                 attempt (task\<lparr> tk_view := (tk_view task)\<lparr> tf_bytes := (tf_bytes (tk_view task) + length bytes) mod u64 \<rparr> \<rparr>, item\<lparr> it_bytes := confirmed \<rparr>)
                   (transfer_item (item\<lparr> it_bytes := confirmed \<rparr>))
                   (\<lambda>_. copy_blocks rounds call sha (task\<lparr> tk_view := (tk_view task)\<lparr> tf_bytes := (tf_bytes (tk_view task) + length bytes) mod u64 \<rparr> \<rparr>)
                     (item\<lparr> it_bytes := confirmed \<rparr>) confirmed))
            | _ \<Rightarrow> give (Some Err_RemoteResponse, task, item)))
       | _ \<Rightarrow> give (Some Err_RemoteResponse, task, item)) s1 = (Came (None, t', i'), s')"
      using Suc.prems(1) False unfolding copy_blocks.simps [of "Suc rounds"] nat.case Let_def
      by (auto elim!: attempt_None split: prod.splits)
    then obtain digest where r: "r = Reply_Data digest" and ok: "bytes \<noteq> []" "sha bytes = digest"
      by (auto simp: give_def split: Reply.splits if_splits)
    obtain r2 b2 s2 where sending: "peers_call call False (it_root item) (Cmd_Write (it_target item) (it_token item) offset digest) bytes s1 = (Came (r2, b2), s2)"
      and k2: "(case r2 of Reply_Ready confirmed False \<Rightarrow>
              (if confirmed \<noteq> (offset + length bytes) mod u64 \<or> confirmed > sp_length (it_stamp item) then give (Some Err_RemoteResponse, task, item)
               else
                 attempt (task\<lparr> tk_view := (tk_view task)\<lparr> tf_bytes := (tf_bytes (tk_view task) + length bytes) mod u64 \<rparr> \<rparr>, item\<lparr> it_bytes := confirmed \<rparr>)
                   (transfer_item (item\<lparr> it_bytes := confirmed \<rparr>))
                   (\<lambda>_. copy_blocks rounds call sha (task\<lparr> tk_view := (tk_view task)\<lparr> tf_bytes := (tf_bytes (tk_view task) + length bytes) mod u64 \<rparr> \<rparr>)
                     (item\<lparr> it_bytes := confirmed \<rparr>) confirmed))
            | _ \<Rightarrow> give (Some Err_RemoteResponse, task, item)) s2 = (Came (None, t', i'), s')"
      using k1 ok unfolding r Reply.case by (auto elim!: attempt_None split: prod.splits if_splits)
    have len: "length bytes \<le> CHUNK" using fair_may_reply [OF fair called(1) [OF read]] r by simp
    then have exact: "(offset + length bytes) mod u64 = offset + length bytes" using False Suc.prems(2) by (simp add: fits_def)
    let ?k = "offset + length bytes"
    let ?i = "item\<lparr> it_bytes := ?k \<rparr>"
    obtain s3 u where store: "transfer_item ?i s2 = (Came (), s3)" and le: "?k \<le> sp_length (it_stamp item)"
      and rest: "copy_blocks rounds call sha u ?i ?k s3 = (Came (None, t', i'), s')"
      using k2 exact by (auto simp: give_def elim!: attempt_None split: Reply.splits bool.splits if_splits)
    from Suc.IH [OF rest] Suc.prems(2) le obtain ts
      where ts: "tw_steps s' = tw_steps s3 @ ts" "tiles call sha ?i ?k (sent ts)" and same: "same_item ?i i'" by auto
    have "tiles call sha item ?k (sent ts)" using ts(2) by (subst tiles_same [of _ ?i]) simp_all
    moreover have "tw_steps s' = tw_steps s @ ([Called True (it_root item) ?read [] (tw_items s),
        Called False (it_root item) (Cmd_Write (it_target item) (it_token item) offset digest) bytes (tw_items s1), Item_Stored ?i] @ ts)"
      using called(2) [OF read] called(2) [OF sending] item_stored [OF store] ts(1) by simp
    moreover have "may_reply call True (it_root item) ?read [] (Reply_Data (sha bytes), bytes)"
      using called(1) [OF read] r ok by simp
    ultimately show ?thesis using ok same
      by (auto simp: same_item_def intro!: exI [of _ "[Called True (it_root item) ?read [] (tw_items s),
        Called False (it_root item) (Cmd_Write (it_target item) (it_token item) offset digest) bytes (tw_items s1), Item_Stored ?i] @ ts"])
  qed
qed

text \<open>What is sent after the command that prepares the destination: nothing when it says that the
  file is already there, and else blocks from where it says it is, and the commit.\<close>

definition whole_file :: "'p peers \<Rightarrow> (string \<Rightarrow> string) \<Rightarrow> Item \<Rightarrow> nat \<Rightarrow> bool \<Rightarrow> (Command \<times> string) list \<Rightarrow> bool" where
  "whole_file call sha i offset complete cs \<longleftrightarrow>
    (if complete then cs = []
     else \<exists>ws d b. cs = ws @ [(Cmd_Commit (it_target i) (it_token i) d, [])] \<and> tiles call sha i offset ws
       \<and> may_reply call True (it_root i) (Cmd_Hash (it_source i) (it_stamp i)) [] (Reply_Hash d, b))"

lemma whole_file_same: "same_item i j \<Longrightarrow> whole_file call sha i k c cs = whole_file call sha j k c cs"
  using tiles_same [of i j call sha] by (simp add: whole_file_def same_item_def)

lemma verify_commits:
  assumes "copy_verify call task item s = (Came (None, t', i'), s')"
  shows "i' = item \<and> (\<exists>ts d b. tw_steps s' = tw_steps s @ ts \<and> sent ts = [(Cmd_Commit (it_target item) (it_token item) d, [])]
    \<and> may_reply call True (it_root item) (Cmd_Hash (it_source item) (it_stamp item)) [] (Reply_Hash d, b))"
proof -
  obtain t u where shape: "copy_verify call task item =
      attempt (t, item) (peers_call call True (it_root item) (Cmd_Hash (it_source item) (it_stamp item)) []) (\<lambda>(r, _).
     case r of Reply_Hash digest \<Rightarrow>
       attempt (t, item) (peers_call call False (it_root item) (Cmd_Commit (it_target item) (it_token item) digest) []) (\<lambda>_. give (None, u, item))
     | _ \<Rightarrow> give (Some Err_RemoteResponse, t, item))"
    unfolding copy_verify_def Let_def by blast
  obtain r b s1 where hash: "peers_call call True (it_root item) (Cmd_Hash (it_source item) (it_stamp item)) [] s = (Came (r, b), s1)"
    and rest: "(case r of Reply_Hash digest \<Rightarrow>
       attempt (t, item) (peers_call call False (it_root item) (Cmd_Commit (it_target item) (it_token item) digest) []) (\<lambda>_. give (None, u, item))
     | _ \<Rightarrow> give (Some Err_RemoteResponse, t, item)) s1 = (Came (None, t', i'), s')"
    using assms unfolding shape by (auto elim!: attempt_None split: prod.splits)
  then obtain d s2 y where d: "r = Reply_Hash d" "i' = item"
    and commit: "peers_call call False (it_root item) (Cmd_Commit (it_target item) (it_token item) d) [] s1 = (Came y, s2)" "s' = s2"
    by (auto simp: give_def elim!: attempt_None split: Reply.splits)
  show ?thesis
    using called(2) [OF hash] called(1) [OF hash] called(2) [OF commit(1)] d commit(2)
    by (auto intro!: exI [of _ "[Called True (it_root item) (Cmd_Hash (it_source item) (it_stamp item)) [] (tw_items s),
        Called False (it_root item) (Cmd_Commit (it_target item) (it_token item) d) [] (tw_items s1)]"])
qed

lemma prepared_sends:
  assumes fair: "fair call" and fits: "fits (it_stamp item)"
    and run: "copy_prepared call sha task item offset complete s = (Came (None, t', i'), s')"
  shows "\<exists>ts. tw_steps s' = tw_steps s @ ts \<and> whole_file call sha item offset complete (sent ts)"
proof -
  let ?i = "item\<lparr> it_bytes := offset, it_prepared := True \<rparr>"
  let ?t = "task\<lparr> tk_view := (tk_view task)\<lparr> tf_bytes := sat_add (tf_bytes (tk_view task) - it_bytes item) offset \<rparr> \<rparr>"
  have le: "offset \<le> sp_length (it_stamp item)"
    using run by (auto simp: copy_prepared_def give_def split: if_splits)
  obtain s1 where store: "transfer_item ?i s = (Came (), s1)"
    and rest: "(if complete then give (None, ?t, ?i)
      else andthen (copy_blocks (sp_length (it_stamp item)) call sha ?t ?i offset) (\<lambda>(e, task, item).
        if e \<noteq> None then give (e, task, item) else copy_verify call task item)) s1 = (Came (None, t', i'), s')"
    using run le unfolding copy_prepared_def Let_def by (auto elim!: attempt_None split: if_splits)
  show ?thesis
  proof (cases complete)
    case True
    then show ?thesis using rest item_stored [OF store] by (auto simp: give_def whole_file_def)
  next
    case False
    obtain t2 i2 s2 where blocks: "copy_blocks (sp_length (it_stamp item)) call sha ?t ?i offset s1 = (Came (None, t2, i2), s2)"
      and verify: "copy_verify call t2 i2 s2 = (Came (None, t', i'), s')"
      using rest False by (auto simp: give_def elim!: andthen_cases split: prod.splits if_splits)
    obtain ts where same: "same_item ?i i2" and ts: "tw_steps s2 = tw_steps s1 @ ts" "tiles call sha ?i offset (sent ts)"
      using blocks_tile [OF fair blocks] fits le by auto
    obtain us d b where us: "tw_steps s' = tw_steps s2 @ us" "sent us = [(Cmd_Commit (it_target i2) (it_token i2) d, [])]"
      "may_reply call True (it_root i2) (Cmd_Hash (it_source i2) (it_stamp i2)) [] (Reply_Hash d, b)"
      using verify_commits [OF verify] by blast
    have "tiles call sha item offset (sent ts)"
      using ts(2) by (subst tiles_same [of _ ?i]) simp_all
    then have "whole_file call sha item offset complete (sent ([Item_Stored ?i] @ ts @ us))"
      using us same False by (auto simp: whole_file_def same_item_def)
    then show ?thesis using item_stored [OF store] ts(1) us(1) by (intro exI [of _ "[Item_Stored ?i] @ ts @ us"]) simp
  qed
qed

text \<open>C38: A copy that succeeds has asked the destination to prepare the file and has then sent what
  was missing: blocks in order from the offset that was confirmed, each the answer of the source
  to a read at that offset, with its digest, without a gap or an overlap up to the length of the
  source, and last the commit with the digest the source gave for the whole file.  Nothing else
  was sent.\<close>

theorem copy_sends_whole_file:
  assumes "fair call" "fits (it_stamp item)"
    and "copy_file call sha task item s = (Came (None, t', i'), s')"
  shows "\<exists>ts cs offset complete b. tw_steps s' = tw_steps s @ ts
    \<and> sent ts = (Cmd_Prepare (it_target item) (it_token item) (it_stamp item) (it_expected item), []) # cs
    \<and> may_reply call False (it_root item) (Cmd_Prepare (it_target item) (it_token item) (it_stamp item) (it_expected item)) []
        (Reply_Ready offset complete, b)
    \<and> whole_file call sha item offset complete cs"
proof -
  let ?i = "item\<lparr> it_prepared := True \<rparr>"
  let ?c = "Cmd_Prepare (it_target item) (it_token item) (it_stamp item) (it_expected item)"
  obtain s1 s2 r b where store: "transfer_item ?i s = (Came (), s1)"
    and prepare: "peers_call call False (it_root item) ?c [] s1 = (Came (r, b), s2)"
    and rest: "(case r of Reply_Ready offset complete \<Rightarrow> copy_prepared call sha task ?i offset complete
        | _ \<Rightarrow> give (Some Err_RemoteResponse, task, ?i)) s2 = (Came (None, t', i'), s')"
    using assms(3) unfolding copy_file_def Let_def by (auto elim!: attempt_None split: prod.splits)
  then obtain offset complete where r: "r = Reply_Ready offset complete"
    and run: "copy_prepared call sha task ?i offset complete s2 = (Came (None, t', i'), s')"
    by (auto simp: give_def split: Reply.splits)
  obtain ts where ts: "tw_steps s' = tw_steps s2 @ ts" "whole_file call sha ?i offset complete (sent ts)"
    using prepared_sends [OF assms(1) _ run] assms(2) by auto
  have "whole_file call sha item offset complete (sent ts)"
    using ts(2) by (subst whole_file_same [of _ ?i]) (simp_all add: same_item_def)
  then show ?thesis
    using item_stored [OF store] called [OF prepare] ts(1) r
    by (intro exI [of _ "[Item_Stored ?i, Called False (it_root item) ?c [] (tw_items s1)] @ ts"] exI [of _ "sent ts"]
        exI [of _ offset] exI [of _ complete] exI [of _ b]) simp
qed

text \<open>Peers that answer as if they held a file of two bytes, one byte at a time.\<close>

definition byte_peers :: "unit peers" where
  "byte_peers source root c bytes p = (Inr (case c of
      Cmd_Read path m k \<Rightarrow> (Reply_Data ''b'', ''b'')
    | Cmd_Write path t k d \<Rightarrow> (Reply_Ready (k + 1) False, [])
    | Cmd_Prepare path t m e \<Rightarrow> (Reply_Ready 0 False, [])
    | Cmd_Hash path m \<Rightarrow> (Reply_Hash ''bb'', [])
    | _ \<Rightarrow> (Reply_Done, [])), p)"

definition byte_world :: "unit transfer_world" where
  "byte_world = \<lparr> tw_peers = (), tw_items = [], tw_task = None, tw_tokens = [], tw_store_fails = [], tw_steps = [] \<rparr>"

definition byte_copy :: "(ClientError option \<times> Task \<times> Item) outcome \<times> unit transfer_world" where
  "byte_copy = copy_file byte_peers (\<lambda>s. s) upload_task (scan_item 0 None 0 ''a'' upload_stamp ''t'') byte_world"

lemma copy_sends_whole_file_witness:
  "\<exists>ts cs offset complete b. tw_steps (snd byte_copy) = tw_steps byte_world @ ts
    \<and> sent ts = (Cmd_Prepare [] ''t'' upload_stamp None, []) # cs
    \<and> may_reply byte_peers False 0 (Cmd_Prepare [] ''t'' upload_stamp None) [] (Reply_Ready offset complete, b)
    \<and> whole_file byte_peers (\<lambda>s. s) (scan_item 0 None 0 ''a'' upload_stamp ''t'') offset complete cs"
proof -
  let ?i = "scan_item 0 None 0 ''a'' upload_stamp ''t''"
  have fair: "fair byte_peers" by (auto simp: fair_def byte_peers_def CHUNK_def split: Command.split)
  have "\<exists>t' i'. byte_copy = (Came (None, t', i'), snd byte_copy)"
    by (simp add: byte_copy_def byte_world_def byte_peers_def upload_stamp_def scan_item_def copy_file_def copy_prepared_def
        copy_verify_def copy_blocks.simps attempt_def outcome_of_def peers_call_def transfer_item_def storing_def andthen_def
        give_def u64_def Let_def)
  then obtain t' i' where run: "copy_file byte_peers (\<lambda>s. s) upload_task ?i byte_world = (Came (None, t', i'), snd byte_copy)"
    unfolding byte_copy_def by blast
  show ?thesis
    using copy_sends_whole_file [OF fair _ run] by (simp add: scan_item_def fits_def upload_stamp_def u64_def CHUNK_def)
qed

end
