(* ===== verification/Client_Recovery.thy ===== *)
theory Client_Recovery
  imports Core_Types Client_Store Server_Store
begin

text \<open>
  Models the recovery of a lost connection: the budget of attempts two owners share
  (\<open>client/src/remote/recovery.rs\<close>), the check of a service that answers again
  (\<open>Remote::recover_with\<close> of \<open>client/src/remote.rs\<close>) and the loop that gets the channel of an
  execution back (\<open>reconnect_channel\<close> of \<open>client/src/remote/bridge/relay.rs\<close>).  A wait is in two
  parts, before and after the delay, and whatever others do to the shared state may come
  between them.  What the network and the other side answer is an argument.
\<close>

section \<open>The budget of attempts\<close>

record Attempts =
  am_used :: nat
  am_limit :: nat

record Recovery =
  rc_state :: EnvironmentState
  rc_attempts :: "Attempts option"
  rc_rebuilding :: bool

definition RETRY_DELAY_MS :: nat where
  "RETRY_DELAY_MS = 5000"

definition Recovery_new :: Recovery where
  "Recovery_new = \<lparr> rc_state = Env_Ready, rc_attempts = None, rc_rebuilding = False \<rparr>"

definition reset_attempts :: "Recovery \<Rightarrow> Recovery" where
  "reset_attempts r = r\<lparr> rc_attempts := None \<rparr>"

definition recovery_publish :: "EnvironmentState \<Rightarrow> Recovery \<Rightarrow> Recovery" where
  "recovery_publish state r =
    (if rc_state r = Env_Closed \<or> rc_state r = state then r
     else
       let r = (if state = Env_Ready then (reset_attempts r)\<lparr> rc_rebuilding := False \<rparr> else r) in
       r\<lparr> rc_state := state \<rparr>)"

definition begin_rebuild :: "Recovery \<Rightarrow> Recovery" where
  "begin_rebuild r = r\<lparr> rc_rebuilding := True \<rparr>"

definition recovery_ready :: "Recovery \<Rightarrow> (ClientError, unit) result" where
  "recovery_ready r = (case rc_state r of
     Env_Ready \<Rightarrow> Inr ()
   | Env_ActionRequired code message \<Rightarrow> Inl (from_fault (Fault_new code message))
   | _ \<Rightarrow> Inl (from_fault (Fault_new ''ENVIRONMENT_NOT_READY''
       ''execution environment is reconnecting or requires attention; no new turn was submitted'')))"

fun transient :: "ClientError \<Rightarrow> bool" where
  "transient (Err_Ssh n) \<longleftrightarrow> n = 255"
| "transient Err_Timeout \<longleftrightarrow> True"
| "transient Err_RemoteResponse \<longleftrightarrow> True"
| "transient (Err_Io k _) \<longleftrightarrow> k \<noteq> Other_Kind"
| "transient (Err_RemoteFault code _ _) \<longleftrightarrow> code \<in> {''SERVICE_UPDATE_BUSY'', ''EXECUTION_BUSY'', ''CAPACITY_EXCEEDED''}"
| "transient _ \<longleftrightarrow> False"

text \<open>\<open>attempts\<close>: the limit is read from the settings when an episode begins.\<close>

definition load_attempts :: "(ClientError, EffectiveConfig) result \<Rightarrow> Recovery \<Rightarrow> (ClientError, nat \<times> nat) result \<times> Recovery" where
  "load_attempts config r = (case rc_attempts r of
     Some a \<Rightarrow> (Inr (am_used a, am_limit a), r)
   | None \<Rightarrow> (case config of
       Inl e \<Rightarrow> (Inl e, r)
     | Inr c \<Rightarrow> (case config_get c K_ReconnectMaxAttempts of
         Some (V_Integer n) \<Rightarrow> (Inr (0, unat n), r\<lparr> rc_attempts := Some \<lparr> am_used = 0, am_limit = unat n \<rparr> \<rparr>)
       | _ \<Rightarrow> (Inl Err_RemoteResponse, r))))"

definition recoverable :: "ClientError \<Rightarrow> Recovery \<Rightarrow> bool" where
  "recoverable e r \<longleftrightarrow> transient e
     \<or> (rc_rebuilding r \<and> client_code e \<in> {''INVALID_REMOTE_RESPONSE'', ''CODEX_RESPONSE_TIMEOUT'', ''CODEX_CHANGED'',
          ''RUNTIME_UNAVAILABLE'', ''RECOVERY_RETRIES_EXHAUSTED'', ''RECOVERY_SETTINGS_UNCONFIRMED''})"

definition exhausted_text :: "nat \<Rightarrow> ClientError \<Rightarrow> string" where
  "exhausted_text limit e = ''Connection failed after '' @ show_nat limit @ (if limit = 1 then '' attempt'' else '' attempts'')
     @ ''. Send a message to try again. Last error: '' @ ClientError_text e"

definition wait_reason :: "ClientError \<Rightarrow> bool \<Rightarrow> nat \<Rightarrow> string \<times> string" where
  "wait_reason e again limit =
    (case e of
       Err_RemoteFault code message _ \<Rightarrow>
         if code = ''RECOVERY_RETRIES_EXHAUSTED'' then (code, message)
         else if again then (''RECOVERY_RETRIES_EXHAUSTED'', exhausted_text limit e)
         else (client_code e, ClientError_text e)
     | _ \<Rightarrow>
         if again then (''RECOVERY_RETRIES_EXHAUSTED'', exhausted_text limit e)
         else (client_code e, ClientError_text e))"

text \<open>\<open>wait\<close> up to its delay: whether only a retry by hand ends it.\<close>

definition wait_start :: "(ClientError, EffectiveConfig) result \<Rightarrow> ClientError \<Rightarrow> Recovery \<Rightarrow> (ClientError, bool) result \<times> Recovery" where
  "wait_start config e r = (case load_attempts config r of
     (Inl f, r) \<Rightarrow> (Inl f, r)
   | (Inr (used, limit), r) \<Rightarrow>
       if \<not> recoverable e r \<or> used \<ge> limit
         then
           let (code, message) = wait_reason e (recoverable e r) limit in
           if \<not> rc_rebuilding r then (Inl (from_fault (Fault_new code message)), r)
           else (Inr True, recovery_publish (Env_ActionRequired code message) r)
       else (Inr False, recovery_publish (Env_Reconnecting (used + 1) limit RETRY_DELAY_MS) r))"

definition count_attempt :: "Recovery \<Rightarrow> (ClientError, unit) result \<times> Recovery" where
  "count_attempt r = (case rc_attempts r of
     None \<Rightarrow> (Inl Err_RemoteResponse, r)
   | Some a \<Rightarrow>
       let a = a\<lparr> am_used := am_used a + 1 \<rparr> in
       (Inr (), recovery_publish (Env_Reconnecting (am_used a) (am_limit a) 0) (r\<lparr> rc_attempts := Some a \<rparr>)))"

definition wait_finish :: "(ClientError, EffectiveConfig) result \<Rightarrow> bool \<Rightarrow> Recovery \<Rightarrow> (ClientError, unit) result \<times> Recovery" where
  "wait_finish config manual r =
    (if \<not> manual then count_attempt r
     else (case load_attempts config (reset_attempts r) of
         (Inl f, r) \<Rightarrow> (Inl f, r)
       | (Inr _, r) \<Rightarrow> count_attempt r))"

section \<open>A service that answers again\<close>

record Hello =
  he_protocol :: "32 word"
  he_identity :: string
  he_capabilities :: "string list"

definition required_capabilities :: "string list" where
  "required_capabilities = [''command-approval-v1'', ''session-permissions-v1'', ''execution-recovery-v1'']"

definition compatible_service :: "32 word \<Rightarrow> string list \<Rightarrow> bool" where
  "compatible_service protocol capabilities \<longleftrightarrow> protocol = 4 \<and> list_all (\<lambda>c. c \<in> set capabilities) required_capabilities"

text \<open>\<open>connected\<close>: the SSH connection is there again; \<open>first\<close>: the answer to a greeting;
  \<open>started\<close>: the start of a service that did not answer; \<open>second\<close>: the answer after it.\<close>

definition recover_with :: "string \<Rightarrow> (ClientError, unit) result \<Rightarrow> (ClientError, Hello) result \<Rightarrow> (ClientError, unit) result
    \<Rightarrow> (ClientError, Hello) result \<Rightarrow> (ClientError, Hello) result" where
  "recover_with identity connected first started second =
    rbind connected (\<lambda>_.
    rbind (case first of
        Inr h \<Rightarrow> Inr h
      | Inl e \<Rightarrow> if transient e then rbind started (\<lambda>_. second) else Inl e) (\<lambda>hello.
    if he_identity hello \<noteq> identity then Inl (from_fault (Fault_new ''REMOTE_IDENTITY_CHANGED''
      ''remote installation identity changed; verify the server before restoring work''))
    else if \<not> compatible_service (he_protocol hello) (he_capabilities hello)
      then Inl (from_fault (Fault_new ''SERVICE_UPDATE_REQUIRED'' ''running execution service does not support safe recovery''))
    else Inr hello))"

section \<open>The channel of an execution\<close>

text \<open>One round: what others do to the shared state during the delay and whether the user asks
  for a retry, then what the other side answers.\<close>

datatype Other = Other_State EnvironmentState | Other_Rebuild

fun other_apply :: "Other \<Rightarrow> Recovery \<Rightarrow> Recovery" where
  "other_apply (Other_State s) r = recovery_publish s r"
| "other_apply Other_Rebuild r = begin_rebuild r"

record 'c Round =
  rd_before :: "(ClientError, EffectiveConfig) result"
  rd_others :: "Other list"
  rd_retried :: bool
  rd_after :: "(ClientError, EffectiveConfig) result"
  rd_recovered :: "(ClientError, Hello) result"
  rd_status :: "(ClientError, ExecutionStatus) result"
  rd_attached :: "(ClientError, 'c) result"

definition restore_channel :: "int \<Rightarrow> 'c Round \<Rightarrow> (ClientError, 'c) result" where
  "restore_channel after d =
    rbind (rd_recovered d) (\<lambda>_.
    rbind (rd_status d) (\<lambda>status.
    if es_state status \<noteq> ''running'' \<or> after < es_replay_floor status
      then Inl (from_fault \<lparr> fault_code = ''EXECUTION_LOST'',
        fault_message = (case es_reason status of Some m \<Rightarrow> m | None \<Rightarrow> ''execution replay expired''), outcome_unknown = True \<rparr>)
    else rd_attached d))"

definition final_codes :: "string set" where
  "final_codes = {''EXECUTION_LOST'', ''EXECUTION_REPLAY_EXPIRED'', ''OPERATION_OUTCOME_UNKNOWN''}"

text \<open>None: the rounds that are given are over and the loop goes on.\<close>

fun reconnect_rounds :: "int \<Rightarrow> ClientError \<Rightarrow> 'c Round list \<Rightarrow> Recovery \<Rightarrow> (ClientError, 'c) result option \<times> Recovery" where
  "reconnect_rounds after e [] r = (if rc_rebuilding r then Some (Inl e) else None, r)"
| "reconnect_rounds after e (d # ds) r =
    (if rc_rebuilding r then (Some (Inl e), r)
     else (case wait_start (rd_before d) e r of
         (Inl f, r) \<Rightarrow> (Some (Inl f), r)
       | (Inr _, r) \<Rightarrow> (case wait_finish (rd_after d) (rd_retried d) (fold other_apply (rd_others d) r) of
           (Inl f, r) \<Rightarrow> (Some (Inl f), r)
         | (Inr _, r) \<Rightarrow> (case restore_channel after d of
             Inr c \<Rightarrow> (Some (Inr c), r)
           | Inl f \<Rightarrow> if client_code f \<in> final_codes then (Some (Inl f), r) else reconnect_rounds after f ds r))))"

definition reconnect_channel :: "int \<Rightarrow> 'c Round list \<Rightarrow> Recovery \<Rightarrow> (ClientError, 'c) result option \<times> Recovery" where
  "reconnect_channel after ds r = reconnect_rounds after (Err_Ssh 255) ds r"

section \<open>The budget is respected\<close>

lemma publish_attempts: "s \<noteq> Env_Ready \<Longrightarrow> rc_attempts (recovery_publish s r) = rc_attempts r"
  by (simp add: recovery_publish_def)

lemma other_attempts: "o' \<noteq> Other_State Env_Ready \<Longrightarrow> rc_attempts (other_apply o' r) = rc_attempts r"
  by (cases o') (auto simp: publish_attempts begin_rebuild_def)

lemma others_attempts: "Other_State Env_Ready \<notin> set os \<Longrightarrow> rc_attempts (fold other_apply os r) = rc_attempts r"
  by (induction os arbitrary: r) (auto simp: other_attempts)

definition config_limit :: "(ClientError, EffectiveConfig) result \<Rightarrow> nat" where
  "config_limit config = (case config of
     Inl _ \<Rightarrow> 0
   | Inr c \<Rightarrow> (case config_get c K_ReconnectMaxAttempts of Some (V_Integer n) \<Rightarrow> unat n | _ \<Rightarrow> 0))"

text \<open>How many attempts are left, with the settings as they are when the next wait starts.\<close>

definition attempts_left :: "(ClientError, EffectiveConfig) result \<Rightarrow> Recovery \<Rightarrow> nat" where
  "attempts_left config r = (case rc_attempts r of Some a \<Rightarrow> am_limit a - am_used a | None \<Rightarrow> config_limit config)"

lemma load_attempts_cases:
  assumes "load_attempts config r = (x, r')"
  obtains (failed) f where "x = Inl f" "r' = r"
  | (loaded) a where "x = Inr (am_used a, am_limit a)" "rc_attempts r' = Some a" "attempts_left config r = am_limit a - am_used a"
      "rc_rebuilding r' = rc_rebuilding r"
proof (cases "rc_attempts r")
  case None
  show ?thesis
  proof (cases "\<exists>c n. config = Inr c \<and> config_get c K_ReconnectMaxAttempts = Some (V_Integer n)")
    case True
    then obtain c n where "config = Inr c" "config_get c K_ReconnectMaxAttempts = Some (V_Integer n)" by blast
    then show ?thesis using assms None
      by (intro loaded [of "\<lparr> am_used = 0, am_limit = unat n \<rparr>"]) (auto simp: load_attempts_def attempts_left_def config_limit_def)
  next
    case False
    then show ?thesis using assms None
      by (intro failed [of "projl x"]) (auto simp: load_attempts_def split: option.splits sum.splits ConfigValue.splits)
  qed
next
  case (Some a)
  then show ?thesis using assms by (intro loaded [of a]) (auto simp: load_attempts_def attempts_left_def)
qed

lemma wait_start_cases:
  assumes "wait_start config e r = (x, r')" "\<not> rc_rebuilding r"
  obtains (failed) f where "x = Inl f"
  | (delayed) a where "x = Inr False" "rc_attempts r' = Some a" "attempts_left config r = am_limit a - am_used a" "am_used a < am_limit a"
proof -
  obtain y r1 where load: "load_attempts config r = (y, r1)" by fastforce
  then show ?thesis
  proof (cases rule: load_attempts_cases)
    case (failed f)
    then show ?thesis using assms(1) load that(1) by (auto simp: wait_start_def)
  next
    case (loaded a)
    show ?thesis
    proof (cases "\<not> recoverable e r1 \<or> am_limit a \<le> am_used a")
      case True
      then show ?thesis using assms load loaded that(1) by (auto simp: wait_start_def Let_def split: prod.splits)
    next
      case False
      then show ?thesis using assms load loaded that(2) [of a] by (auto simp: wait_start_def publish_attempts)
    qed
  qed
qed

lemma count_attempt_some:
  "rc_attempts r = Some a \<Longrightarrow> \<exists>r'. count_attempt r = (Inr (), r') \<and> rc_attempts r' = Some (a\<lparr> am_used := am_used a + 1 \<rparr>)"
  by (simp add: count_attempt_def Let_def publish_attempts)

definition undisturbed_round :: "'c Round \<Rightarrow> bool" where
  "undisturbed_round d \<longleftrightarrow> \<not> rd_retried d \<and> Other_State Env_Ready \<notin> set (rd_others d)"

lemma rounds_settle:
  assumes "\<forall>d \<in> set ds. undisturbed_round d" "\<forall>d \<in> set ds. attempts_left (rd_before d) r \<le> k" "k < length ds"
  shows "fst (reconnect_rounds after e ds r) \<noteq> None"
  using assms
proof (induction ds arbitrary: e r k)
  case (Cons d ds)
  show ?case
  proof (cases "rc_rebuilding r")
    case False
    obtain x r1 where start: "wait_start (rd_before d) e r = (x, r1)" by fastforce
    from start False show ?thesis
    proof (cases rule: wait_start_cases)
      case (delayed a)
      let ?r = "fold other_apply (rd_others d) r1"
      have "rc_attempts ?r = Some a" using Cons.prems(1) delayed(2) by (simp add: undisturbed_round_def others_attempts)
      then obtain r2 where count: "count_attempt ?r = (Inr (), r2)" "rc_attempts r2 = Some (a\<lparr> am_used := am_used a + 1 \<rparr>)"
        using count_attempt_some by blast
      have finish: "wait_finish (rd_after d) (rd_retried d) ?r = (Inr (), r2)"
        using Cons.prems(1) count(1) by (simp add: wait_finish_def undisturbed_round_def)
      have k: "0 < k" "am_limit a - (am_used a + 1) \<le> k - 1" using Cons.prems(2) delayed(3,4) by auto
      have "fst (reconnect_rounds after f ds r2) \<noteq> None" for f
        by (rule Cons.IH [where k = "k - 1"]) (use Cons.prems k count(2) in \<open>auto simp: attempts_left_def\<close>)
      then show ?thesis using False start finish delayed(1) by (auto split: sum.split)
    qed (use False start in simp)
  qed simp
qed simp

lemma rounds_restored:
  "fst (reconnect_rounds after e ds r) = Some (Inr c) \<Longrightarrow> \<exists>d \<in> set ds. restore_channel after d = Inr c"
  by (induction after e ds r rule: reconnect_rounds.induct) (auto split: if_splits prod.splits sum.splits)

lemma restore_channel_Inr:
  "restore_channel after d = Inr c \<Longrightarrow> \<exists>status. rd_status d = Inr status \<and> es_state status = ''running'' \<and> es_replay_floor status \<le> after"
  by (auto simp: restore_channel_def rbind_def split: sum.splits if_splits)

text \<open>C39: A lost channel is not left hanging.  With \<open>k\<close> attempts left of the budget, and neither a
  retry by hand nor a state of being ready in between, the loop is over within \<open>k + 1\<close> rounds,
  whatever the network, the settings and the other side do: with a channel to an execution that
  runs and still has every event after the last one seen, or with an error.\<close>

theorem lost_channel_settles:
  assumes "\<forall>d \<in> set ds. undisturbed_round d" and "\<forall>d \<in> set ds. attempts_left (rd_before d) r \<le> k" and "k < length ds"
  shows "case fst (reconnect_channel after ds r) of
      None \<Rightarrow> False
    | Some (Inl _) \<Rightarrow> True
    | Some (Inr c) \<Rightarrow> \<exists>d \<in> set ds. rd_attached d = Inr c \<and> (\<exists>status. rd_status d = Inr status
        \<and> es_state status = ''running'' \<and> es_replay_floor status \<le> after)"
proof -
  have "\<exists>d \<in> set ds. rd_attached d = Inr c \<and> (\<exists>status. rd_status d = Inr status
      \<and> es_state status = ''running'' \<and> es_replay_floor status \<le> after)"
    if "fst (reconnect_channel after ds r) = Some (Inr c)" for c
    using rounds_restored [of after "Err_Ssh 255" ds r c] that restore_channel_Inr
    by (fastforce simp: reconnect_channel_def restore_channel_def rbind_def split: sum.splits if_splits)
  moreover have "fst (reconnect_channel after ds r) \<noteq> None"
    unfolding reconnect_channel_def by (rule rounds_settle [OF assms])
  ultimately show ?thesis by (auto split: option.split sum.split)
qed

text \<open>Two attempts are allowed: one finds the network still gone, one gets the channel back.\<close>

definition sample_round :: "(ClientError, Hello) result \<Rightarrow> nat Round" where
  "sample_round recovered = \<lparr> rd_before = Inr default_settings, rd_others = [Other_State (Env_Recovering ''x'')], rd_retried = False,
     rd_after = Inr default_settings, rd_recovered = recovered,
     rd_status = Inr \<lparr> es_channel = ''c'', es_service_instance = ''i'', es_boot_id = ''b'', es_state = ''running'', es_reason = None,
       es_replay_floor = 3, es_unknown_operations = 0, es_evidence_available = True \<rparr>, rd_attached = Inr 7 \<rparr>"

definition sample_rounds :: "nat Round list" where
  "sample_rounds = map sample_round [Inl Err_Timeout, Inr \<lparr> he_protocol = 4, he_identity = ''s'', he_capabilities = [] \<rparr>, Inl Err_Timeout]"

definition sample_recovery :: Recovery where
  "sample_recovery = Recovery_new\<lparr> rc_attempts := Some \<lparr> am_used = 0, am_limit = 2 \<rparr> \<rparr>"

lemma lost_channel_settles_witness:
  "(case fst (reconnect_channel 5 sample_rounds sample_recovery) of
      None \<Rightarrow> False
    | Some (Inl _) \<Rightarrow> True
    | Some (Inr c) \<Rightarrow> \<exists>d \<in> set sample_rounds. rd_attached d = Inr c \<and> (\<exists>status. rd_status d = Inr status
        \<and> es_state status = ''running'' \<and> es_replay_floor status \<le> 5))
    \<and> fst (reconnect_channel 5 sample_rounds sample_recovery) = Some (Inr 7)"
proof
  show "case fst (reconnect_channel 5 sample_rounds sample_recovery) of
      None \<Rightarrow> False
    | Some (Inl _) \<Rightarrow> True
    | Some (Inr c) \<Rightarrow> \<exists>d \<in> set sample_rounds. rd_attached d = Inr c \<and> (\<exists>status. rd_status d = Inr status
        \<and> es_state status = ''running'' \<and> es_replay_floor status \<le> 5)"
    by (rule lost_channel_settles [where k = 2])
      (simp_all add: sample_rounds_def sample_round_def sample_recovery_def undisturbed_round_def attempts_left_def)
  show "fst (reconnect_channel 5 sample_rounds sample_recovery) = Some (Inr 7)" by code_simp
qed

end
