(* ===== verification/Client_Relay.thy ===== *)
theory Client_Relay
  imports Client_Recovery Client_Approvals Adapter_Request
begin

text \<open>
  Models the relay between the local Codex and an execution on the server
  (\<open>client/src/remote/bridge/relay.rs\<close>): what is refused before it is sent, the outbox of what
  the server has not accepted yet, the events that are shown once, and the channel that is
  got back.  Every event of the loop is one step; what the network, the clock and the
  permissions of the session answer belongs to the event.
\<close>

section \<open>Frames\<close>

datatype Frame =
  Frame_Result json
| Frame_Error Fault
| Frame_Event int json
| Frame_Heartbeat
| Frame_Execute string json "CommandApproval option" "SessionPermissions option"
| Frame_Ack int
| Frame_Detach

definition COMMAND_APPROVAL_CAPABILITY :: string where
  "COMMAND_APPROVAL_CAPABILITY = ''command-approval-v1''"

definition SESSION_PERMISSIONS_CAPABILITY :: string where
  "SESSION_PERMISSIONS_CAPABILITY = ''session-permissions-v1''"

section \<open>What is never sent\<close>

definition ascii_upper :: "string \<Rightarrow> string" where
  "ascii_upper = map (\<lambda>c. if is_ascii_lowercase c then char_of (byte c - 32) else c)"

definition account_names :: "string list" where
  "account_names = [''OPENAI_API_KEY'', ''CODEX_API_KEY'', ''CODEX_ACCESS_TOKEN'', ''CODEX_AUTH_JSON'']"

definition forwards_account_credentials :: "json \<Rightarrow> bool" where
  "forwards_account_credentials message \<longleftrightarrow>
    list_ex (\<lambda>p. case Option.bind (json_pointer p message) as_object of
        None \<Rightarrow> False
      | Some env \<Rightarrow> list_ex (\<lambda>(key, _). ascii_upper key \<in> set account_names) env)
      [[''params'', ''env''], [''params'', ''envPolicy'', ''set'']]"

definition plain_error :: "json \<Rightarrow> string \<Rightarrow> json" where
  "plain_error message text = JObj [(''id'', json_index message ''id''),
     (''error'', JObj [(''code'', JInt (- 32000)), (''message'', JStr text)])]"

definition account_refusal :: string where
  "account_refusal = ''Codex account credentials must stay local; this execution request was not sent to the server''"

definition update_refusal :: string where
  "update_refusal = ''SERVICE_UPDATE_REQUIRED: the remote service must be updated to honor these permissions; no operation was run''"

section \<open>The loop\<close>

text \<open>\<open>rl_heard\<close>, \<open>rl_created\<close> and \<open>rl_accepted\<close> only record what happened.\<close>

record relay =
  rl_cursor :: int
  rl_outbox :: "(string, Frame) btree"
  rl_approvals :: ApprovalState
  rl_recovery :: Recovery
  rl_lost :: bool
  rl_ended :: "(ClientError, unit) result option"
  rl_sent :: "Frame list"
  rl_shown :: "json list"
  rl_heard :: "json list"
  rl_created :: "string list"
  rl_accepted :: "string list"

text \<open>A text from the frontend comes with its JSON, the time, what \<open>Permissions::authorization\<close>
  answers, a fresh identity, and whether the frontend and the backend can be written to.
  \<open>Attached\<close> is the end of \<open>reconnect_channel\<close>, with the number of frames that can be written
  before a write fails.\<close>

datatype RelayEvent =
  Front_Text "json option" nat "Fault + SessionPermissions option" string bool bool
| Front_Ping bool
| Front_Pong
| Front_Closed
| Front_Bad
| Back_Frame Frame bool bool
| Back_Gone
| Tick bool bool
| Stopped
| Attached "(ClientError, unit) result" nat

definition relay_write :: "bool \<Rightarrow> Frame \<Rightarrow> relay \<Rightarrow> relay" where
  "relay_write works f r = r\<lparr> rl_sent := rl_sent r @ [f], rl_lost := rl_lost r \<or> \<not> works \<rparr>"

definition relay_end :: "(ClientError, unit) result \<Rightarrow> relay \<Rightarrow> relay" where
  "relay_end x r = r\<lparr> rl_ended := Some x \<rparr>"

definition relay_show :: "bool \<Rightarrow> json \<Rightarrow> relay \<Rightarrow> relay" where
  "relay_show works v r = (if works then r\<lparr> rl_shown := rl_shown r @ [v] \<rparr> else relay_end (Inl Err_RemoteResponse) r)"

definition relay_execute :: "string \<Rightarrow> json \<Rightarrow> CommandApproval option \<Rightarrow> SessionPermissions option \<Rightarrow> bool \<Rightarrow> relay \<Rightarrow> relay" where
  "relay_execute operation message approval perms works r =
    (let frame = Frame_Execute operation message approval perms in
     relay_write works frame (r\<lparr> rl_outbox := bt_insert operation frame (rl_outbox r), rl_created := rl_created r @ [operation] \<rparr>))"

definition relay_request :: "string list \<Rightarrow> json \<Rightarrow> nat \<Rightarrow> Fault + SessionPermissions option \<Rightarrow> string \<Rightarrow> bool \<Rightarrow> bool
    \<Rightarrow> relay \<Rightarrow> relay" where
  "relay_request capabilities message time allowed fresh shows works r =
    (if forwards_account_credentials message then relay_show shows (plain_error message account_refusal) r
     else (case approvals_take time message (rl_approvals r) of
         (Inl f, st) \<Rightarrow> relay_end (Inl (from_fault f)) (r\<lparr> rl_approvals := st \<rparr>)
       | (Inr approval, st) \<Rightarrow>
           let r = r\<lparr> rl_approvals := st \<rparr> in
           (case (if approval = None then allowed else Inr None) of
              Inl f \<Rightarrow> relay_show shows (native_response (json_index message ''id'') (Inl f)) r
            | Inr perms \<Rightarrow>
                let required = (if approval \<noteq> None then Some COMMAND_APPROVAL_CAPABILITY
                  else if perms \<noteq> None then Some SESSION_PERMISSIONS_CAPABILITY else None) in
                if (case required of None \<Rightarrow> False | Some c \<Rightarrow> c \<notin> set capabilities)
                  then relay_show shows (plain_error message update_refusal) r
                else relay_execute (case approval of Some a \<Rightarrow> appr_id a | None \<Rightarrow> fresh) message approval perms works r)))"

definition relay_text :: "string list \<Rightarrow> json option \<Rightarrow> nat \<Rightarrow> Fault + SessionPermissions option \<Rightarrow> string \<Rightarrow> bool \<Rightarrow> bool
    \<Rightarrow> relay \<Rightarrow> relay" where
  "relay_text capabilities text time allowed fresh shows works r =
    (if length (rl_outbox r) \<ge> 64 then relay_end (Inl (Err_Argument ''execution queue is full'')) r
     else (case text of
         None \<Rightarrow> relay_end (Inl Err_Data) r
       | Some message \<Rightarrow>
           relay_request capabilities message time allowed fresh shows works (r\<lparr> rl_heard := rl_heard r @ [message] \<rparr>)))"

definition relay_event :: "int \<Rightarrow> json \<Rightarrow> bool \<Rightarrow> bool \<Rightarrow> relay \<Rightarrow> relay" where
  "relay_event after message shows works r =
    (let r = (if after \<le> rl_cursor r then r
       else
         let r = (if json_index message ''method'' = JStr ''remoteCodex/operationAccepted''
           then (case pointer_string [''params'', ''operation''] message of
               None \<Rightarrow> r
             | Some operation \<Rightarrow> r\<lparr> rl_outbox := bt_remove operation (rl_outbox r), rl_accepted := rl_accepted r @ [operation] \<rparr>)
           else relay_show shows message r) in
         if rl_ended r = None then r\<lparr> rl_cursor := after \<rparr> else r) in
     if rl_ended r = None then relay_write works (Frame_Ack (rl_cursor r)) r else r)"

definition relay_attached :: "(ClientError, unit) result \<Rightarrow> nat \<Rightarrow> relay \<Rightarrow> relay" where
  "relay_attached restored n r =
    (case restored of
       Inl f \<Rightarrow> relay_end (Inl f) r
     | Inr _ \<Rightarrow>
         let frames = map snd (rl_outbox r) in
         if n < length frames then r\<lparr> rl_sent := rl_sent r @ take (Suc n) frames \<rparr>
         else r\<lparr> rl_sent := rl_sent r @ frames, rl_lost := False,
           rl_recovery := (if rc_rebuilding (rl_recovery r) then rl_recovery r else recovery_publish Env_Ready (rl_recovery r)) \<rparr>)"

definition relay_turn :: "string list \<Rightarrow> RelayEvent \<Rightarrow> relay \<Rightarrow> relay" where
  "relay_turn capabilities ev r =
    (case ev of
       Front_Text text time allowed fresh shows works \<Rightarrow> relay_text capabilities text time allowed fresh shows works r
     | Front_Ping flushed \<Rightarrow> if flushed then r else relay_end (Inl Err_RemoteResponse) r
     | Front_Pong \<Rightarrow> r
     | Front_Closed \<Rightarrow> relay_end (Inr ()) (relay_write True Frame_Detach r)
     | Front_Bad \<Rightarrow> relay_end (Inl Err_RemoteResponse) r
     | Back_Frame frame shows works \<Rightarrow> (case frame of
         Frame_Event after message \<Rightarrow> relay_event after message shows works r
       | Frame_Heartbeat \<Rightarrow> r
       | Frame_Error f \<Rightarrow> relay_end (Inl (from_fault f)) r
       | _ \<Rightarrow> relay_end (Inl Err_RemoteResponse) r)
     | Back_Gone \<Rightarrow> r\<lparr> rl_lost := True \<rparr>
     | Tick fine works \<Rightarrow> if fine then relay_write works Frame_Heartbeat r else r\<lparr> rl_lost := True \<rparr>
     | Stopped \<Rightarrow> relay_end (Inr ()) (relay_write True Frame_Detach r)
     | Attached _ _ \<Rightarrow> r)"

text \<open>While the channel is lost the loop only waits for it, or to be stopped.\<close>

definition relay_step :: "string list \<Rightarrow> RelayEvent \<Rightarrow> relay \<Rightarrow> relay" where
  "relay_step capabilities ev r =
    (if rl_ended r \<noteq> None then r
     else if rl_lost r then (case ev of
         Attached restored n \<Rightarrow> relay_attached restored n r
       | Stopped \<Rightarrow> relay_end (Inr ()) r
       | _ \<Rightarrow> r)
     else relay_turn capabilities ev r)"

definition relay_run :: "string list \<Rightarrow> RelayEvent list \<Rightarrow> relay \<Rightarrow> relay" where
  "relay_run capabilities evs = fold (relay_step capabilities) evs"

definition relay_start :: "ApprovalState \<Rightarrow> Recovery \<Rightarrow> relay" where
  "relay_start approved recovery = \<lparr> rl_cursor = 0, rl_outbox = [], rl_approvals = approved, rl_recovery = recovery,
     rl_lost = False, rl_ended = None, rl_sent = [], rl_shown = [], rl_heard = [], rl_created = [], rl_accepted = [] \<rparr>"

section \<open>Refused or kept\<close>

definition sendable :: "string list \<Rightarrow> Frame \<Rightarrow> bool" where
  "sendable capabilities f = (case f of
     Frame_Execute _ m a p \<Rightarrow> \<not> forwards_account_credentials m \<and> (a = None \<or> p = None)
       \<and> (a \<noteq> None \<longrightarrow> COMMAND_APPROVAL_CAPABILITY \<in> set capabilities)
       \<and> (p \<noteq> None \<longrightarrow> SESSION_PERMISSIONS_CAPABILITY \<in> set capabilities)
   | _ \<Rightarrow> True)"

fun operation_of :: "Frame \<Rightarrow> string option" where
  "operation_of (Frame_Execute operation _ _ _) = Some operation"
| "operation_of _ = None"

definition executes :: "json \<Rightarrow> Frame \<Rightarrow> bool" where
  "executes m f = (case f of Frame_Execute _ m' _ _ \<Rightarrow> m' = m | _ \<Rightarrow> False)"

definition refuses :: "json \<Rightarrow> json \<Rightarrow> bool" where
  "refuses m v \<longleftrightarrow> json_index v ''id'' = json_index m ''id'' \<and> json_index v ''error'' \<noteq> JNull"

text \<open>The state of the relay: the outbox holds frames of its operations that were sent; what was
  sent and not accepted is in the outbox, as it was sent; nothing else was sent under the
  same identity; and what was heard was sent, refused, or ended the relay.\<close>

definition relay_inv :: "string list \<Rightarrow> json list \<Rightarrow> relay \<Rightarrow> bool" where
  "relay_inv capabilities heard r \<longleftrightarrow>
    bt_sorted (rl_outbox r)
    \<and> (\<forall>k f. bt_get (rl_outbox r) k = Some f \<longrightarrow> operation_of f = Some k \<and> f \<in> set (rl_sent r))
    \<and> (\<forall>f \<in> set (rl_sent r). sendable capabilities f)
    \<and> (\<forall>f \<in> set (rl_sent r). \<forall>k. operation_of f = Some k \<longrightarrow> k \<in> set (rl_created r)
        \<and> (bt_get (rl_outbox r) k = Some f \<or> k \<in> set (rl_accepted r)))
    \<and> (\<forall>f \<in> set (rl_sent r). \<forall>g \<in> set (rl_sent r). \<forall>k. operation_of f = Some k \<longrightarrow> operation_of g = Some k \<longrightarrow> f = g)
    \<and> (\<forall>m \<in> set heard. list_ex (executes m) (rl_sent r) \<or> list_ex (refuses m) (rl_shown r) \<or> rl_ended r \<noteq> None)
    \<and> length (rl_outbox r) \<le> 64"

lemma relay_invD:
  assumes "relay_inv cs hs r"
  shows "bt_sorted (rl_outbox r)"
    and "bt_get (rl_outbox r) k = Some f \<Longrightarrow> operation_of f = Some k \<and> f \<in> set (rl_sent r)"
    and "f \<in> set (rl_sent r) \<Longrightarrow> sendable cs f"
    and "f \<in> set (rl_sent r) \<Longrightarrow> operation_of f = Some k \<Longrightarrow> k \<in> set (rl_created r) \<and> (bt_get (rl_outbox r) k = Some f \<or> k \<in> set (rl_accepted r))"
    and "f \<in> set (rl_sent r) \<Longrightarrow> g \<in> set (rl_sent r) \<Longrightarrow> operation_of f = Some k \<Longrightarrow> operation_of g = Some k \<Longrightarrow> f = g"
    and "m \<in> set hs \<Longrightarrow> list_ex (executes m) (rl_sent r) \<or> list_ex (refuses m) (rl_shown r) \<or> rl_ended r \<noteq> None"
    and "length (rl_outbox r) \<le> 64"
  using assms unfolding relay_inv_def by blast+

lemma operation_of_Some: "operation_of f = Some k \<longleftrightarrow> (\<exists>m a p. f = Frame_Execute k m a p)"
  by (cases f) auto

text \<open>The parts of the state the invariant does not look at.\<close>

lemma inv_other [simp]:
  "relay_inv cs hs (r\<lparr> rl_cursor := c \<rparr>) = relay_inv cs hs r" "relay_inv cs hs (r\<lparr> rl_approvals := a \<rparr>) = relay_inv cs hs r"
  "relay_inv cs hs (r\<lparr> rl_heard := h \<rparr>) = relay_inv cs hs r" "relay_inv cs hs (r\<lparr> rl_recovery := y \<rparr>) = relay_inv cs hs r" "relay_inv cs hs (r\<lparr> rl_lost := b \<rparr>) = relay_inv cs hs r"
  by (simp_all add: relay_inv_def)

lemma inv_end: "relay_inv cs hs r \<Longrightarrow> relay_inv cs hs (relay_end x r)"
  by (auto simp: relay_inv_def relay_end_def)

lemma relay_invI:
  assumes "bt_sorted (rl_outbox r)" "\<And>k f. bt_get (rl_outbox r) k = Some f \<Longrightarrow> operation_of f = Some k \<and> f \<in> set (rl_sent r)"
    and "\<And>f. f \<in> set (rl_sent r) \<Longrightarrow> sendable cs f"
    and "\<And>f k. f \<in> set (rl_sent r) \<Longrightarrow> operation_of f = Some k \<Longrightarrow> k \<in> set (rl_created r) \<and> (bt_get (rl_outbox r) k = Some f \<or> k \<in> set (rl_accepted r))"
    and "\<And>f g k. f \<in> set (rl_sent r) \<Longrightarrow> g \<in> set (rl_sent r) \<Longrightarrow> operation_of f = Some k \<Longrightarrow> operation_of g = Some k \<Longrightarrow> f = g"
    and "\<And>m. m \<in> set hs \<Longrightarrow> list_ex (executes m) (rl_sent r) \<or> list_ex (refuses m) (rl_shown r) \<or> rl_ended r \<noteq> None"
    and "length (rl_outbox r) \<le> 64"
  shows "relay_inv cs hs r"
  using assms unfolding relay_inv_def by blast

lemma inv_send:
  assumes inv: "relay_inv cs hs r"
    and fs: "\<And>f. f \<in> set fs \<Longrightarrow> (operation_of f = None \<and> sendable cs f) \<or> (\<exists>k. bt_get (rl_outbox r) k = Some f)"
  shows "relay_inv cs hs (r\<lparr> rl_sent := rl_sent r @ fs \<rparr>)"
proof -
  note D = relay_invD [OF inv]
  have new: "f \<in> set fs \<Longrightarrow> (operation_of f = None \<and> sendable cs f) \<or> f \<in> set (rl_sent r)" for f
    using fs D(2) by blast
  have old: "operation_of f = Some k \<Longrightarrow> f \<in> set (rl_sent r)" if "f \<in> set (rl_sent r) \<or> f \<in> set fs" for f k
    using that new by fastforce
  show ?thesis
  proof (rule relay_invI, goal_cases)
    case 3 then show ?case using new D(3) by auto
  next
    case (4 f k)
    have "f \<in> set (rl_sent r)" by (rule old [of f k]) (use 4 in auto)
    then show ?case using D(4) 4(2) by simp
  next
    case (5 f g k)
    have "f \<in> set (rl_sent r)" "g \<in> set (rl_sent r)" by (rule old [of _ k], use 5 in auto)+
    then show ?case using D(5) 5(3,4) by blast
  next
    case (6 m) then show ?case using D(6) by (auto simp: list_ex_iff)
  qed (use D(1,2,7) in simp_all)
qed

lemma inv_write: "relay_inv cs hs r \<Longrightarrow> operation_of f = None \<Longrightarrow> relay_inv cs hs (relay_write works f r)"
  using inv_send [of cs hs r "[f]"]
  by (cases f) (simp_all add: relay_write_def sendable_def)

lemma inv_show: "relay_inv cs hs r \<Longrightarrow> relay_inv cs hs (relay_show works v r)"
  by (auto simp: relay_show_def inv_end) (auto simp: relay_inv_def)

lemma bt_length_insert: "length (bt_insert k v m) \<le> Suc (length m)"
  by (induction m) auto

lemma bt_length_remove: "length (bt_remove k m) \<le> length m"
  by (induction m) auto

text \<open>A message that was just heard is settled by its answer, by its frame, or by the end.\<close>

lemma settled:
  assumes "relay_inv cs hs r" "list_ex (executes m) (rl_sent r) \<or> list_ex (refuses m) (rl_shown r) \<or> rl_ended r \<noteq> None"
  shows "relay_inv cs (hs @ [m]) r"
proof -
  note D = relay_invD [OF assms(1)]
  show ?thesis by (rule relay_invI) (use D assms(2) in \<open>simp; blast\<close>)+
qed

lemma settle_show: "relay_inv cs hs r \<Longrightarrow> refuses m v \<Longrightarrow> relay_inv cs (hs @ [m]) (relay_show works v r)"
  by (rule settled [OF inv_show]) (auto simp: relay_show_def relay_end_def)

lemma settle_end: "relay_inv cs hs r \<Longrightarrow> relay_inv cs (hs @ [m]) (relay_end x r)"
  by (rule settled [OF inv_end]) (auto simp: relay_end_def)

lemma inv_execute:
  assumes inv: "relay_inv cs hs r" and new: "k \<notin> set (rl_created r)" and room: "length (rl_outbox r) < 64"
    and ok: "sendable cs (Frame_Execute k m a p)"
  shows "relay_inv cs hs (relay_execute k m a p works r)"
proof -
  let ?f = "Frame_Execute k m a p"
  note D = relay_invD [OF inv]
  have fresh: "operation_of f = Some k \<Longrightarrow> f \<in> set (rl_sent r) \<Longrightarrow> False" for f using D(4) new by blast
  show ?thesis
    unfolding relay_execute_def relay_write_def Let_def
  proof (rule relay_invI, goal_cases)
    case (2 k' f)
    then show ?case using D(2) by (auto split: if_splits)
  next
    case (3 f)
    then show ?case using D(3) ok by auto
  next
    case (4 f k')
    then show ?case using D(4) fresh by (auto split: if_splits)
  next
    case (5 f g k')
    then show ?case using D(5) [of f g k'] fresh [of f] fresh [of g] by auto
  next
    case (6 m')
    then show ?case using D(6) by (auto simp: list_ex_iff)
  next
    case 7
    then show ?case using bt_length_insert [of k ?f "rl_outbox r"] room by simp
  qed (use D(1) in simp)
qed

lemma settle_execute:
  assumes "relay_inv cs hs r" "k \<notin> set (rl_created r)" "length (rl_outbox r) < 64" "sendable cs (Frame_Execute k m a p)"
  shows "relay_inv cs (hs @ [m]) (relay_execute k m a p works r)"
  by (rule settled [OF inv_execute [OF assms]]) (simp add: relay_execute_def relay_write_def Let_def executes_def)

lemma refusals: "refuses m (plain_error m text)" "refuses m (native_response (json_index m ''id'') (Inl f))"
  by (simp_all add: refuses_def plain_error_def native_response_def json_index_def)

text \<open>The identities that a step makes are new.\<close>

definition all_new :: "relay \<Rightarrow> relay \<Rightarrow> bool" where
  "all_new r r' \<longleftrightarrow> (\<exists>ks. rl_created r' = rl_created r @ ks \<and> set ks \<inter> set (rl_created r) = {})"

lemma execute_new: "all_new r (relay_execute k m a p works r') \<Longrightarrow> rl_created r' = rl_created r \<Longrightarrow> k \<notin> set (rl_created r')"
  by (auto simp: all_new_def relay_execute_def relay_write_def Let_def)

lemma inv_request:
  assumes s: "relay_inv cs hs r" and room: "length (rl_outbox r) < 64"
    and new: "all_new r (relay_request cs m time allowed fresh shows works r)"
  shows "relay_inv cs (hs @ [m]) (relay_request cs m time allowed fresh shows works r)"
proof (cases "forwards_account_credentials m")
  case True
  then show ?thesis using settle_show [OF s refusals(1)] by (simp add: relay_request_def)
next
  case plain: False
  obtain x st where take: "approvals_take time m (rl_approvals r) = (x, st)" by fastforce
  have s': "relay_inv cs hs (r\<lparr> rl_approvals := st \<rparr>)" using s by simp
  show ?thesis
  proof (cases x)
    case (Inl f)
    then show ?thesis using plain take settle_end [OF s'] by (simp add: relay_request_def)
  next
    case (Inr approval)
    show ?thesis
    proof (cases "if approval = None then allowed else Inr None")
      case Inl': (Inl f)
      then show ?thesis using plain take Inr settle_show [OF s' refusals(2)] by (simp add: relay_request_def)
    next
      case Inr': (Inr perms)
      then have either: "approval = None \<or> perms = None" by (auto split: if_splits)
      let ?required = "if approval \<noteq> None then Some COMMAND_APPROVAL_CAPABILITY
        else if perms \<noteq> None then Some SESSION_PERMISSIONS_CAPABILITY else None"
      show ?thesis
      proof (cases "case ?required of None \<Rightarrow> False | Some c \<Rightarrow> c \<notin> set cs")
        case True
        then have "relay_request cs m time allowed fresh shows works r = relay_show shows (plain_error m update_refusal) (r\<lparr> rl_approvals := st \<rparr>)"
          using plain take Inr Inr' unfolding relay_request_def by (simp only: if_True if_False prod.case sum.case Let_def)
        then show ?thesis using settle_show [OF s' refusals(1)] by simp
      next
        case False
        let ?k = "case approval of Some a \<Rightarrow> appr_id a | None \<Rightarrow> fresh"
        have request: "relay_request cs m time allowed fresh shows works r = relay_execute ?k m approval perms works (r\<lparr> rl_approvals := st \<rparr>)"
          using plain take Inr Inr' False unfolding relay_request_def by (simp only: if_True if_False prod.case sum.case Let_def)
        have "sendable cs (Frame_Execute ?k m approval perms)"
          using plain either False by (auto simp: sendable_def)
        moreover have "?k \<notin> set (rl_created (r\<lparr> rl_approvals := st \<rparr>))"
          by (rule execute_new [of r]) (use new request in simp_all)
        ultimately show ?thesis unfolding request using room by (intro settle_execute [OF s']) simp_all
      qed
    qed
  qed
qed

lemma heard_simps [simp]:
  "rl_heard (relay_end x r) = rl_heard r" "rl_heard (relay_show works v r) = rl_heard r"
  "rl_heard (relay_write works f r) = rl_heard r" "rl_heard (relay_execute k m a p works r) = rl_heard r"
  by (simp_all add: relay_end_def relay_show_def relay_write_def relay_execute_def Let_def)

lemma heard_request [simp]: "rl_heard (relay_request cs m time allowed fresh shows works r) = rl_heard r"
  by (simp add: relay_request_def Let_def split: prod.split sum.split)

lemma heard_event [simp]: "rl_heard (relay_event after m shows works r) = rl_heard r"
  by (simp add: relay_event_def Let_def split: option.split)

lemma heard_attached [simp]: "rl_heard (relay_attached x n r) = rl_heard r"
  by (simp add: relay_attached_def relay_end_def Let_def split: sum.split)

lemma inv_accept:
  assumes "relay_inv cs hs r"
  shows "relay_inv cs hs (r\<lparr> rl_outbox := bt_remove k (rl_outbox r), rl_accepted := rl_accepted r @ [k] \<rparr>)"
proof -
  note D = relay_invD [OF assms]
  show ?thesis
  proof (rule relay_invI, goal_cases)
    case (2 k' f) then show ?case using D(1,2) by (auto split: if_splits)
  next
    case (4 f k') then show ?case using D(1,4) by auto
  next
    case 7 then show ?case using bt_length_remove [of k "rl_outbox r"] D(7) by simp
  qed (use D in auto)
qed

lemma inv_event: "relay_inv cs hs r \<Longrightarrow> relay_inv cs hs (relay_event after m shows works r)"
  unfolding relay_event_def Let_def
  by (auto intro!: inv_write inv_show inv_accept inv_other(1) [THEN iffD2] split: option.split)

lemma inv_attached:
  assumes "relay_inv cs hs r"
  shows "relay_inv cs hs (relay_attached x n r)"
proof -
  have kept: "relay_inv cs hs (r\<lparr> rl_sent := rl_sent r @ fs \<rparr>)" if "set fs \<subseteq> set (map snd (rl_outbox r))" for fs
  proof (rule inv_send [OF assms])
    fix f assume "f \<in> set fs"
    then have "f \<in> snd ` set (rl_outbox r)" using that by auto
    then obtain k where "(k, f) \<in> set (rl_outbox r)" by force
    then show "(operation_of f = None \<and> sendable cs f) \<or> (\<exists>k. bt_get (rl_outbox r) k = Some f)"
      using relay_invD(1) [OF assms] by (auto simp: bt_get_set_iff)
  qed
  have "set (take (Suc n) (map snd (rl_outbox r))) \<subseteq> set (map snd (rl_outbox r))" by (rule set_take_subset)
  then show ?thesis
    using kept [of "take (Suc n) (map snd (rl_outbox r))"] kept [of "map snd (rl_outbox r)"]
    by (simp add: relay_attached_def Let_def inv_end assms split: sum.split)
qed

lemma all_new_fields: "all_new (r\<lparr> rl_heard := h \<rparr>) r' = all_new r r'"
  by (simp add: all_new_def)

lemma inv_text:
  assumes inv: "relay_inv cs (rl_heard r) r" and new: "all_new r (relay_text cs text time allowed fresh shows works r)"
  shows "relay_inv cs (rl_heard (relay_text cs text time allowed fresh shows works r)) (relay_text cs text time allowed fresh shows works r)"
proof (cases "length (rl_outbox r) \<ge> 64 \<or> text = None")
  case True
  then show ?thesis using inv_end [OF inv] by (auto simp: relay_text_def)
next
  case False
  then obtain m where m: "text = Some m" by auto
  let ?r = "r\<lparr> rl_heard := rl_heard r @ [m] \<rparr>"
  have "relay_inv cs (rl_heard r @ [m]) (relay_request cs m time allowed fresh shows works ?r)"
    by (rule inv_request) (use inv new False m in \<open>simp_all add: relay_text_def all_new_fields\<close>)
  then show ?thesis using False m by (simp add: relay_text_def)
qed

lemma inv_turn:
  assumes inv: "relay_inv cs (rl_heard r) r" and new: "all_new r (relay_turn cs ev r)"
  shows "relay_inv cs (rl_heard (relay_turn cs ev r)) (relay_turn cs ev r)"
proof (cases ev)
  case (Front_Text t time allowed fresh shown works)
  then show ?thesis using new inv_text [OF inv] by (simp add: relay_turn_def)
next
  case (Back_Frame frame shown works)
  then show ?thesis using inv_event [OF inv] inv_end [OF inv] inv by (cases frame) (simp_all add: relay_turn_def)
qed (use inv inv_end [OF inv] inv_write [OF inv] inv_end [OF inv_write [OF inv]] in \<open>simp_all add: relay_turn_def\<close>)

lemma inv_step:
  assumes inv: "relay_inv cs (rl_heard r) r" and new: "all_new r (relay_step cs ev r)"
  shows "relay_inv cs (rl_heard (relay_step cs ev r)) (relay_step cs ev r)"
proof (cases "rl_ended r \<noteq> None \<or> rl_lost r")
  case True
  then show ?thesis using inv inv_attached [OF inv] inv_end [OF inv] by (auto simp: relay_step_def split: RelayEvent.split)
next
  case False
  then show ?thesis using inv_turn [OF inv] new by (simp add: relay_step_def)
qed

lemma created_show: "rl_created (relay_show works v r) = rl_created r" "rl_created (relay_end x r) = rl_created r"
  "rl_created (relay_write works f r) = rl_created r"
  by (simp_all add: relay_show_def relay_end_def relay_write_def)

lemma step_created: "\<exists>ks. rl_created (relay_step cs ev r) = rl_created r @ ks"
proof -
  have execute: "\<exists>ks. rl_created (relay_execute k m a p works r) = rl_created r @ ks" for k m a p works r
    by (simp add: relay_execute_def relay_write_def Let_def)
  have request: "\<exists>ks. rl_created (relay_request cs m time allowed fresh shown works r) = rl_created r @ ks" for m time allowed fresh shown works r
    unfolding relay_request_def Let_def
    using execute [of _ m _ _ works "r\<lparr> rl_approvals := _ \<rparr>"] by (auto simp: created_show split: prod.split sum.split)
  have said: "\<exists>ks. rl_created (relay_text cs t time allowed fresh shown works r) = rl_created r @ ks" for t time allowed fresh shown works
    using request [of _ time allowed fresh shown works "r\<lparr> rl_heard := _ \<rparr>"]
    by (auto simp: relay_text_def created_show split: option.split)
  have event: "rl_created (relay_event after m shown works r) = rl_created r" for after m shown works
    by (simp add: relay_event_def created_show Let_def split: option.split)
  have attached: "rl_created (relay_attached x n r) = rl_created r" for x n
    by (simp add: relay_attached_def created_show Let_def split: sum.split)
  show ?thesis
    unfolding relay_step_def relay_turn_def using said by (auto simp: event attached created_show split: RelayEvent.split Frame.split)
qed

lemma run_created: "\<exists>ks. rl_created (relay_run cs evs r) = rl_created r @ ks"
proof (induction evs arbitrary: r)
  case (Cons ev evs)
  obtain ks where "rl_created (relay_step cs ev r) = rl_created r @ ks" using step_created by blast
  then show ?case using Cons [of "relay_step cs ev r"] by (auto simp: relay_run_def)
qed (simp add: relay_run_def)

lemma inv_run:
  "relay_inv cs (rl_heard r) r \<Longrightarrow> distinct (rl_created (relay_run cs evs r)) \<Longrightarrow>
    relay_inv cs (rl_heard (relay_run cs evs r)) (relay_run cs evs r)"
proof (induction evs arbitrary: r)
  case (Cons ev evs)
  let ?r = "relay_step cs ev r"
  obtain ks where ks: "rl_created ?r = rl_created r @ ks" using step_created by blast
  have "distinct (rl_created ?r)"
    using run_created [of cs evs ?r] Cons.prems(2) by (auto simp: relay_run_def)
  then have "all_new r ?r" using ks by (auto simp: all_new_def)
  then show ?case using Cons.IH [OF inv_step [OF Cons.prems(1)]] Cons.prems(2) by (simp add: relay_run_def)
qed (simp add: relay_run_def)

text \<open>C40: A request of the local Codex is never lost, and never sent when it may not be.  Every
  request the relay takes is answered with an error, or is written under an identity of its own,
  unless the relay ends; a request that carries account credentials, or a permission the server
  cannot honor, or two permissions, is never written; and a request that was written and not
  accepted yet is still in the outbox exactly as it was written, so that writing the outbox again
  on the next channel repeats no request under another identity.  The identities drawn are
  assumed to be different.\<close>

theorem requests_refused_or_kept:
  assumes "distinct (rl_created (relay_run cs evs (relay_start approved recovery)))"
  shows "case relay_run cs evs (relay_start approved recovery) of r \<Rightarrow>
    (\<forall>m \<in> set (rl_heard r). rl_ended r = None \<longrightarrow> list_ex (refuses m) (rl_shown r) \<or> list_ex (executes m) (rl_sent r))
    \<and> (\<forall>f \<in> set (rl_sent r). sendable cs f)
    \<and> (\<forall>f \<in> set (rl_sent r). \<forall>k. operation_of f = Some k \<longrightarrow>
        (bt_get (rl_outbox r) k = Some f \<or> k \<in> set (rl_accepted r)) \<and> (\<forall>g \<in> set (rl_sent r). operation_of g = Some k \<longrightarrow> g = f))"
proof -
  let ?start = "relay_start approved recovery"
  have "relay_inv cs (rl_heard ?start) ?start"
    by (rule relay_invI) (simp_all add: relay_start_def)
  then have "relay_inv cs (rl_heard (relay_run cs evs ?start)) (relay_run cs evs ?start)"
    using assms by (rule inv_run)
  then show ?thesis unfolding relay_inv_def by blast
qed

text \<open>One request with credentials, one that is sent; the channel breaks, comes back, and the server
  accepts it.\<close>

definition demo_request :: "string \<Rightarrow> json \<Rightarrow> json" where
  "demo_request i params = JObj [(''id'', JStr i), (''method'', JStr ''process/start''), (''params'', params)]"

definition demo_relay_events :: "RelayEvent list" where
  "demo_relay_events =
    [Front_Text (Some (demo_request ''1'' (JObj [(''env'', JObj [(''openai_api_key'', JStr ''x'')])]))) 0 (Inr None) ''a'' True True,
     Front_Text (Some (demo_request ''2'' (JObj []))) 0 (Inr None) ''b'' True True,
     Back_Gone, Attached (Inr ()) 1,
     Back_Frame (Frame_Event 1 (JObj [(''method'', JStr ''remoteCodex/operationAccepted''),
       (''params'', JObj [(''operation'', JStr ''b'')])])) True True]"

definition demo_relay :: relay where
  "demo_relay = relay_run [] demo_relay_events (relay_start ApprovalState_default Recovery_new)"

lemma demo_credentials:
  "forwards_account_credentials (demo_request ''1'' (JObj [(''env'', JObj [(''openai_api_key'', JStr ''x'')])]))"
  "\<not> forwards_account_credentials (demo_request ''2'' (JObj []))"
  by code_simp+

lemma demo_index: "json_index (demo_request i p) k = (if k = ''id'' then JStr i else if k = ''method'' then JStr ''process/start''
    else if k = ''params'' then p else JNull)"
  by (simp add: demo_request_def json_index_def)

lemmas demo_relay_eval = demo_relay_def demo_relay_events_def demo_credentials demo_index relay_run_def relay_start_def relay_step_def relay_turn_def
  relay_text_def relay_request_def relay_execute_def relay_write_def relay_show_def relay_event_def relay_attached_def
  approvals_take_def json_index_def plain_error_def
  ApprovalState_default_def Recovery_new_def pointer_string_def Let_def

lemma requests_refused_or_kept_witness:
  "length (rl_heard demo_relay) = 2 \<and> length (rl_sent demo_relay) = 3 \<and> rl_accepted demo_relay = [''b'']
    \<and> (list_ex (refuses (hd (rl_heard demo_relay))) (rl_shown demo_relay)
       \<or> list_ex (executes (hd (rl_heard demo_relay))) (rl_sent demo_relay))
    \<and> sendable [] (hd (rl_sent demo_relay))"
proof -
  have "distinct (rl_created demo_relay)" by (simp add: demo_relay_eval)
  then have kept: "case demo_relay of r \<Rightarrow>
    (\<forall>m \<in> set (rl_heard r). rl_ended r = None \<longrightarrow> list_ex (refuses m) (rl_shown r) \<or> list_ex (executes m) (rl_sent r))
    \<and> (\<forall>f \<in> set (rl_sent r). sendable [] f)
    \<and> (\<forall>f \<in> set (rl_sent r). \<forall>k. operation_of f = Some k \<longrightarrow>
        (bt_get (rl_outbox r) k = Some f \<or> k \<in> set (rl_accepted r)) \<and> (\<forall>g \<in> set (rl_sent r). operation_of g = Some k \<longrightarrow> g = f))"
    unfolding demo_relay_def by (rule requests_refused_or_kept)
  have run: "length (rl_heard demo_relay) = 2 \<and> length (rl_sent demo_relay) = 3 \<and> rl_accepted demo_relay = [''b'']
      \<and> rl_ended demo_relay = None"
    by (simp add: demo_relay_eval)
  then have "hd (rl_heard demo_relay) \<in> set (rl_heard demo_relay)" "hd (rl_sent demo_relay) \<in> set (rl_sent demo_relay)"
    by (metis hd_in_set length_0_conv zero_neq_numeral)+
  then show ?thesis using kept run by auto
qed

end
