(* ===== verification/Server_Files.thy ===== *)
theory Server_Files
  imports Transfer_Logic Ordered_Map
begin

text \<open>
  Models \<open>server/src/files/\<close> and the messages of \<open>protocol/src/files.rs\<close>: the files of a workspace
  as the desktop's editor lists, reads, saves, renames and removes them.  The disk and the fates of
  its calls are those of \<open>Transfer_Disk\<close>.  The sandbox below the crate (\<open>cap_std\<close>) is a parameter:
  where the links of a path lead inside the workspace.
\<close>

section \<open>Messages\<close>

definition FILE_CHUNK :: nat where
  "FILE_CHUNK = 128 * 1024"

definition MAX_TEXT_FILE :: nat where
  "MAX_TEXT_FILE = 4 * 1024 * 1024"

datatype FileRequest =
    List_Files string
  | Read_File string nat "string option"
  | BeginWrite string "string option" nat
  | WriteChunk string nat string
  | CommitWrite string
  | CancelWrite string
  | CreateDirectory string
  | Rename_File string string
  | Remove_File string

record DirectoryEntry =
  de_name :: string
  de_path :: string
  de_directory :: bool
  de_symlink :: bool
  de_size :: nat

text \<open>The replies; \<open>Unit_Reply\<close> is the empty object.\<close>

datatype FileReply =
    DirectoryPage "DirectoryEntry list" bool
  | FileChunk string string nat
  | Upload_Token string
  | Upload_Revision string
  | Unit_Reply

section \<open>Calls\<close>

record sandbox =
  fx_ambient :: "string \<Rightarrow> disk \<Rightarrow> errno + path"
  fx_follow :: "path \<Rightarrow> path \<Rightarrow> disk \<Rightarrow> errno + path"
  fx_names :: "path \<Rightarrow> disk \<Rightarrow> string option list"
  fx_lower :: "string \<Rightarrow> string"
  fx_json_size :: "DirectoryEntry \<Rightarrow> nat"
  fx_sha :: "string \<Rightarrow> string"
  fx_utf8 :: "string \<Rightarrow> bool"

text \<open>\<open>.checked(code, message)\<close>.\<close>

definition checked_call :: "string \<Rightarrow> string \<Rightarrow> 'a syscall \<Rightarrow> (world, 'a) act" where
  "checked_call c m call = bnd (syscall call) (\<lambda>r. case r of Inl _ \<Rightarrow> err (Fault_new c m) | Inr x \<Rightarrow> ret x)"

text \<open>A call on what a path leads to, and on the entry itself, whose last name is not followed.\<close>

definition at_target :: "sandbox \<Rightarrow> path \<Rightarrow> path \<Rightarrow> (path \<Rightarrow> 'a syscall) \<Rightarrow> 'a syscall" where
  "at_target X base parts call lim d =
    (case fx_follow X base parts d of Inl e \<Rightarrow> (Inl e, d) | Inr q \<Rightarrow> call (base @ q) lim d)"

definition at_entry :: "sandbox \<Rightarrow> path \<Rightarrow> path \<Rightarrow> (path \<Rightarrow> 'a syscall) \<Rightarrow> 'a syscall" where
  "at_entry X base parts call lim d =
    (if length parts \<le> 1 then call (base @ parts) lim d
     else (case fx_follow X base (butlast parts) d of Inl e \<Rightarrow> (Inl e, d)
       | Inr q \<Rightarrow> call (base @ q @ [last parts]) lim d))"

definition dir_handle :: "path \<Rightarrow> path syscall" where
  "dir_handle p lim d = (if is_dir d p then Inr p else Inl (missing_or ''Not a directory (os error 20)'' d p), d)"

definition create_file :: "path \<Rightarrow> nat syscall" where
  "create_file p lim d =
    (if named d p \<noteq> None then (Inl Already_Exists, d)
     else if \<not> is_dir d (butlast p) then (Inl Not_Found, d)
     else (Inr (dk_next d), new_inode p empty_file d))"

text \<open>The handle of a staged file stands at its end: nothing else writes to that file.\<close>

definition append_file :: "nat \<Rightarrow> string \<Rightarrow> unit syscall" where
  "append_file i bytes lim d = write_file i (length (nd_bytes (dk_inodes d i))) bytes lim d"

definition link_file :: "path \<Rightarrow> path \<Rightarrow> unit syscall" where
  "link_file p q lim d =
    (case named d p of
       None \<Rightarrow> (Inl Not_Found, d)
     | Some i \<Rightarrow>
         if named d q \<noteq> None then (Inl Already_Exists, d)
         else if \<not> is_dir d (butlast q) then (Inl Not_Found, d)
         else (Inr (), set_names ((q, i) # dk_names d) d))"

text \<open>\<open>renameat\<close> with \<open>NOREPLACE\<close>, of a file or of a directory with what is below it.\<close>

definition move_entry :: "path \<Rightarrow> path \<Rightarrow> unit syscall" where
  "move_entry p q lim d =
    (if named d p = None then (Inl Not_Found, d)
     else if named d q \<noteq> None then (Inl Already_Exists, d)
     else if prefix p q then (Inl (Errno ''Invalid argument (os error 22)''), d)
     else if \<not> is_dir d (butlast q) then (Inl Not_Found, d)
     else (Inr (), set_names (map (\<lambda>(r, j). (if prefix p r then q @ drop (length p) r else r, j)) (dk_names d)) d))"

section \<open>\<open>io.rs\<close>\<close>

definition path_parts :: "string \<Rightarrow> path" where
  "path_parts p = filter (\<lambda>c. c \<noteq> [] \<and> c \<noteq> ''.'') (split_on CHR ''/'' p)"

definition relative_path :: "string \<Rightarrow> bool \<Rightarrow> Fault + string" where
  "relative_path p allow_root =
    (if starts_with p ''/'' \<or> ''..'' \<in> set (split_on CHR ''/'' p) \<or> list_ex is_control (str_chars p)
        \<or> (\<not> allow_root \<and> path_parts p = [])
     then Inl (Fault_new ''INVALID_FILE_PATH'' ''Choose a path inside this workspace.'')
     else Inr (if p = [] then ''.'' else p))"

definition read_text :: "sandbox \<Rightarrow> path \<Rightarrow> path \<Rightarrow> (world, string \<times> string) act" where
  "read_text X dir parts =
    bnd (checked_call ''FILE_READ'' ''Cannot open this workspace file.''
          (at_target X dir parts (\<lambda>p. open_file p False False False))) (\<lambda>i.
    bnd (checked_call ''FILE_READ'' ''Cannot inspect this file.'' (fstat i)) (\<lambda>meta.
      if nd_kind meta \<noteq> Node_File \<or> length (nd_bytes meta) > MAX_TEXT_FILE
        then err (Fault_new ''FILE_TOO_LARGE'' ''The editor supports regular UTF-8 files up to 4 MiB.'')
      else
        bnd (checked_call ''FILE_READ'' ''Cannot read this file.'' (read_file i)) (\<lambda>all.
          let bytes = take (MAX_TEXT_FILE + 1) all in
          if length bytes > MAX_TEXT_FILE then err (Fault_new ''FILE_TOO_LARGE'' ''File exceeds 4 MiB.'')
          else ret (bytes, fx_sha X bytes))))"

definition text_revision :: "sandbox \<Rightarrow> path \<Rightarrow> path \<Rightarrow> (world, string option) act" where
  "text_revision X dir parts =
    bnd (syscall (at_entry X dir parts lstat)) (\<lambda>r. case r of
        Inr _ \<Rightarrow> bnd (read_text X dir parts) (\<lambda>(_, revision). ret (Some revision))
      | Inl Not_Found \<Rightarrow> ret None
      | Inl _ \<Rightarrow> err (Fault_new ''FILE_READ'' ''Cannot inspect the destination file.''))"

fun trim_dot_slash :: "string \<Rightarrow> string" where
  "trim_dot_slash (a # b # s) = (if a = CHR ''.'' \<and> b = CHR ''/'' then trim_dot_slash s else a # b # s)"
| "trim_dot_slash s = s"

definition join_name :: "string \<Rightarrow> string \<Rightarrow> string" where
  "join_name p name = (if ends_with p ''/'' then p @ name else p @ ''/'' @ name)"

fun list_entries ::
  "sandbox \<Rightarrow> path \<Rightarrow> string \<Rightarrow> string option list \<Rightarrow> DirectoryEntry list \<Rightarrow> nat \<Rightarrow> (world, DirectoryEntry list \<times> bool) act" where
  "list_entries X dir p [] entries used = ret (entries, False)"
| "list_entries X dir p (entry # rest) entries used =
    (if length entries = 2000 then ret (entries, True)
     else
       thn (checked_call ''DIRECTORY_READ'' ''Cannot inspect a directory entry.'' nothing)
       (case entry of
          None \<Rightarrow> list_entries X dir p rest entries used
        | Some name \<Rightarrow>
            if list_ex is_control (str_chars name) then list_entries X dir p rest entries used
            else
              let child = join_name p name; parts = path_parts child in
              bnd (checked_call ''DIRECTORY_READ'' ''Cannot inspect a directory entry.'' (at_entry X dir parts lstat)) (\<lambda>(_, meta).
              bnd (syscall (at_target X dir parts lstat)) (\<lambda>resolved.
                let e = \<lparr> de_name = name, de_path = trim_dot_slash child,
                      de_directory = (case resolved of Inl _ \<Rightarrow> False | Inr (_, m) \<Rightarrow> nd_kind m = Node_Directory),
                      de_symlink = (nd_kind meta = Node_Link), de_size = length (nd_bytes meta) \<rparr>;
                    used = used + fx_json_size X e + 1 in
                if used > 512 * 1024 then ret (entries, True)
                else list_entries X dir p rest (entries @ [e]) used))))"

definition list_directory :: "sandbox \<Rightarrow> path \<Rightarrow> string \<Rightarrow> (world, FileReply) act" where
  "list_directory X dir path =
    bnd (lift_result (relative_path path True)) (\<lambda>p.
    bnd (checked_call ''DIRECTORY_READ'' ''Cannot list this directory.''
          (at_target X dir (path_parts p) (\<lambda>q lim d. (if is_dir d q then Inr (fx_names X q d) else Inl (Errno ''Not a directory (os error 20)''), d)))) (\<lambda>names.
    bnd (list_entries X dir p names [] 0) (\<lambda>(entries, truncated).
      ret (DirectoryPage (sort_key (\<lambda>e. (\<not> de_directory e, fx_lower X (de_name e))) entries) truncated))))"

section \<open>\<open>staging.rs\<close>\<close>

record Staged =
  sf_owner :: string
  sf_workspace :: string
  sf_expires :: nat
  sf_parent :: path
  sf_destination :: string
  sf_temporary :: string
  sf_file :: nat
  sf_expected :: "string option"
  sf_length :: nat
  sf_written :: nat

definition staged_path :: "Staged \<Rightarrow> path" where
  "staged_path st = sf_parent st @ [sf_temporary st]"

definition target_path :: "Staged \<Rightarrow> path" where
  "target_path st = sf_parent st @ [sf_destination st]"

definition file_conflict :: Fault where
  "file_conflict = Fault_new ''FILE_CONFLICT'' ''This file changed remotely. Compare it with your edits before saving.''"

text \<open>\<open>Staged::new\<close>, with the UUID of the temporary name; times are in seconds.  The second half starts
  when the directory is open.\<close>

definition staged_create :: "sandbox \<Rightarrow> nat \<Rightarrow> string \<Rightarrow> string \<Rightarrow> string \<Rightarrow> string option \<Rightarrow> nat \<Rightarrow> string \<Rightarrow> path \<Rightarrow> (world, Staged) act" where
  "staged_create X time uuid owner workspace expected len destination parent =
    bnd (text_revision X parent [destination]) (\<lambda>current.
    if current \<noteq> expected then err file_conflict
    else
      let temporary = ''.remote-codex-'' @ uuid @ ''.tmp'' in
      bnd (checked_call ''FILE_WRITE'' ''Cannot stage this file.'' (create_file (parent @ [temporary]))) (\<lambda>i.
      bnd (syscall (at_target X parent [destination] lstat)) (\<lambda>m.
      thn (case m of Inl _ \<Rightarrow> ret ()
           | Inr (_, meta) \<Rightarrow> checked_call ''FILE_WRITE'' ''Cannot preserve file permissions.'' (set_mode i (nd_mode meta)))
        (ret \<lparr> sf_owner = owner, sf_workspace = workspace, sf_expires = time + 120, sf_parent = parent,
           sf_destination = destination, sf_temporary = temporary, sf_file = i, sf_expected = expected,
           sf_length = len, sf_written = 0 \<rparr>))))"

definition staged_new ::
  "sandbox \<Rightarrow> nat \<Rightarrow> string \<Rightarrow> path \<Rightarrow> string \<Rightarrow> string \<Rightarrow> string \<Rightarrow> string option \<Rightarrow> nat \<Rightarrow> (world, Staged) act" where
  "staged_new X time uuid dir owner workspace path expected len =
    (if len > MAX_TEXT_FILE then err (Fault_new ''FILE_TOO_LARGE'' ''File exceeds 4 MiB.'')
     else
       bnd (lift_result (relative_path path False)) (\<lambda>p.
       bnd (syscall (at_entry X dir (path_parts p) lstat)) (\<lambda>present.
       bnd (case present of Inl _ \<Rightarrow> ret (path_parts p)
            | Inr _ \<Rightarrow> checked_call ''FILE_PATH'' ''File must stay inside the workspace.''
                (\<lambda>lim d. (fx_follow X dir (path_parts p) d, d))) (\<lambda>parts.
       bnd (checked_call ''FILE_PATH'' ''Cannot open the destination directory.''
             (at_target X dir (butlast parts) dir_handle)) (\<lambda>parent.
         if parts = [] then err (Fault_new ''FILE_PATH'' ''Invalid filename.'')
         else staged_create X time uuid owner workspace expected len (last parts) parent)))))"

definition staged_write :: "nat \<Rightarrow> nat \<Rightarrow> string \<Rightarrow> Staged \<Rightarrow> (world, Staged) act" where
  "staged_write time offset bytes st =
    (if offset \<noteq> sf_written st \<or> length bytes > FILE_CHUNK \<or> sf_written st + length bytes > sf_length st
     then err (Fault_new ''FILE_WRITE_SEQUENCE'' ''Upload chunk is out of sequence.'')
     else
       thn (checked_call ''FILE_WRITE'' ''Cannot write file contents.'' (append_file (sf_file st) bytes))
         (ret (st\<lparr> sf_written := sf_written st + length bytes, sf_expires := time + 120 \<rparr>)))"

definition unsure_durability :: Fault where
  "unsure_durability = Fault_unknown
    ''File was replaced but directory durability could not be confirmed. Reload before saving again.''"

definition sync_parent :: "path \<Rightarrow> (world, unit) act" where
  "sync_parent p =
    bnd (syscall (open_dir p)) (\<lambda>r. case r of Inl _ \<Rightarrow> err unsure_durability
      | Inr _ \<Rightarrow> bnd (syscall (sync_dir p)) (\<lambda>r. case r of Inl _ \<Rightarrow> err unsure_durability | Inr _ \<Rightarrow> ret ()))"

definition staged_publish :: "Staged \<Rightarrow> (world, unit) act" where
  "staged_publish st =
    (if sf_expected st = None
     then checked_call ''FILE_CONFLICT'' ''The destination was created by another writer.''
            (link_file (staged_path st) (target_path st))
     else checked_call ''FILE_WRITE'' ''Cannot replace this file.'' (rename (staged_path st) (target_path st) True))"

definition staged_commit :: "sandbox \<Rightarrow> Staged \<Rightarrow> (world, string) act" where
  "staged_commit X st =
    (if sf_written st \<noteq> sf_length st then err (Fault_new ''FILE_WRITE_INCOMPLETE'' ''File upload is incomplete.'')
     else
       thn (checked_call ''FILE_WRITE'' ''Cannot flush file contents.'' (sync_file (sf_file st)))
       (bnd (read_text X (sf_parent st) [sf_temporary st]) (\<lambda>(bytes, revision).
         if \<not> fx_utf8 X bytes then err (Fault_new ''FILE_ENCODING'' ''The editor supports UTF-8 text files.'')
         else
           bnd (text_revision X (sf_parent st) [sf_destination st]) (\<lambda>current.
             if current \<noteq> sf_expected st then err file_conflict
             else thn (staged_publish st) (thn (sync_parent (sf_parent st)) (ret revision))))))"

text \<open>\<open>Drop\<close>.\<close>

definition staged_drop :: "Staged \<Rightarrow> (world, unit) act" where
  "staged_drop st = ignoring (syscall (remove_file (staged_path st)))"

section \<open>\<open>mod.rs\<close>\<close>

type_synonym files = "(string, Staged) btree"

type_synonym answer = "(Fault, FileReply) result \<times> files"

definition upload_missing :: Fault where
  "upload_missing = Fault_new ''FILE_UPLOAD_EXPIRED'' ''File upload expired or belongs to another workspace.''"

definition owned_stage :: "string \<Rightarrow> string \<Rightarrow> string \<Rightarrow> files \<Rightarrow> Staged option" where
  "owned_stage owner workspace token fs =
    (case bt_get fs token of None \<Rightarrow> None
     | Some st \<Rightarrow> if sf_owner st = owner \<and> sf_workspace st = workspace then Some st else None)"

text \<open>An operation that leaves the uploads alone.\<close>

definition replying :: "files \<Rightarrow> (world, FileReply) act \<Rightarrow> (world, answer) act" where
  "replying fs m = bnd m (\<lambda>r. ret (Inr r, fs))"

definition read_chunk :: "sandbox \<Rightarrow> path \<Rightarrow> string \<Rightarrow> nat \<Rightarrow> string option \<Rightarrow> (world, FileReply) act" where
  "read_chunk X dir path offset revision =
    bnd (lift_result (relative_path path False)) (\<lambda>p.
    bnd (read_text X dir (path_parts p)) (\<lambda>(bytes, actual).
      if (case revision of None \<Rightarrow> False | Some old \<Rightarrow> old \<noteq> actual) then err file_conflict
      else if offset > length bytes then err (Fault_new ''FILE_OFFSET'' ''Invalid read offset.'')
      else ret (FileChunk (take FILE_CHUNK (drop offset bytes)) actual (length bytes))))"

definition remove_entry :: "sandbox \<Rightarrow> path \<Rightarrow> string \<Rightarrow> (world, FileReply) act" where
  "remove_entry X dir path =
    bnd (lift_result (relative_path path False)) (\<lambda>p. let parts = path_parts p in
    bnd (checked_call ''FILE_REMOVE'' ''Cannot inspect this entry.'' (at_entry X dir parts lstat)) (\<lambda>(_, meta).
    thn (checked_call ''FILE_REMOVE'' ''Cannot remove this entry. Directories must be empty.''
          (at_entry X dir parts (if nd_kind meta = Node_Directory then remove_dir else remove_file)))
      (ret Unit_Reply)))"

definition rename_entry :: "sandbox \<Rightarrow> path \<Rightarrow> string \<Rightarrow> string \<Rightarrow> (world, FileReply) act" where
  "rename_entry X dir path destination =
    bnd (lift_result (relative_path path False)) (\<lambda>p.
    bnd (lift_result (relative_path destination False)) (\<lambda>q.
    let parts = path_parts p; target = path_parts q in
    bnd (syscall (at_entry X dir target lstat)) (\<lambda>present.
      if (case present of Inl _ \<Rightarrow> False | Inr _ \<Rightarrow> True) then err file_conflict
      else
        bnd (checked_call ''FILE_RENAME'' ''Cannot open the source directory.'' (at_target X dir (butlast parts) dir_handle)) (\<lambda>source_parent.
        bnd (checked_call ''FILE_RENAME'' ''Cannot open the destination directory.'' (at_target X dir (butlast target) dir_handle)) (\<lambda>target_parent.
        thn (checked_call ''FILE_RENAME'' ''Cannot rename this entry without replacing another file.''
              (move_entry (source_parent @ [last parts]) (target_parent @ [last target])))
          (ret Unit_Reply))))))"

text \<open>The UUIDs an operation may draw: the token and the temporary name.\<close>

definition begin_upload ::
  "sandbox \<Rightarrow> nat \<Rightarrow> string \<Rightarrow> string \<Rightarrow> path \<Rightarrow> string \<Rightarrow> string \<Rightarrow> string \<Rightarrow> string option \<Rightarrow> nat \<Rightarrow> files \<Rightarrow> (world, answer) act" where
  "begin_upload X time token uuid dir owner workspace path revision len fs =
    (if length fs \<ge> 32 then err (Fault_new ''FILE_BUSY'' ''Too many file uploads. Retry shortly.'')
     else
       bnd (staged_new X time uuid dir owner workspace path revision len) (\<lambda>st.
         ret (Inr (Upload_Token token), bt_insert token st fs)))"

definition on_stage :: "string \<Rightarrow> string \<Rightarrow> string \<Rightarrow> files \<Rightarrow> (Staged \<Rightarrow> (world, answer) act) \<Rightarrow> (world, answer) act" where
  "on_stage owner workspace token fs k =
    (case owned_stage owner workspace token fs of None \<Rightarrow> err upload_missing | Some st \<Rightarrow> k st)"

definition file_operation ::
  "sandbox \<Rightarrow> nat \<Rightarrow> string \<Rightarrow> string \<Rightarrow> path \<Rightarrow> string \<Rightarrow> string \<Rightarrow> FileRequest \<Rightarrow> files \<Rightarrow> (world, answer) act" where
  "file_operation X time token uuid dir owner workspace operation fs =
    (case operation of
       List_Files path \<Rightarrow> replying fs (list_directory X dir path)
     | Read_File path offset revision \<Rightarrow> replying fs (read_chunk X dir path offset revision)
     | BeginWrite path revision len \<Rightarrow> begin_upload X time token uuid dir owner workspace path revision len fs
     | WriteChunk token offset bytes \<Rightarrow>
         on_stage owner workspace token fs (\<lambda>st.
           bnd (staged_write time offset bytes st) (\<lambda>st. ret (Inr Unit_Reply, bt_insert token st fs)))
     | CommitWrite token \<Rightarrow>
         on_stage owner workspace token fs (\<lambda>st.
           bnd (catching (staged_commit X st)) (\<lambda>r.
           thn (staged_drop st) (ret (map_sum id Upload_Revision r, bt_remove token fs))))
     | CancelWrite token \<Rightarrow>
         on_stage owner workspace token fs (\<lambda>st. thn (staged_drop st) (ret (Inr Unit_Reply, bt_remove token fs)))
     | CreateDirectory path \<Rightarrow>
         replying fs (bnd (lift_result (relative_path path False)) (\<lambda>p.
           thn (checked_call ''FILE_CREATE'' ''Cannot create the directory.'' (at_entry X dir (path_parts p) create_dir))
             (ret Unit_Reply)))
     | Remove_File path \<Rightarrow> replying fs (remove_entry X dir path)
     | Rename_File path destination \<Rightarrow> replying fs (rename_entry X dir path destination))"

definition expired :: "nat \<Rightarrow> Staged \<Rightarrow> bool" where
  "expired time st \<longleftrightarrow> \<not> sf_expires st > time"

definition drop_expired :: "nat \<Rightarrow> files \<Rightarrow> (world, unit) act" where
  "drop_expired time fs = each (\<lambda>(_, st). staged_drop st) (filter (\<lambda>(_, st). expired time st) fs)"

definition files_dispatch ::
  "sandbox \<Rightarrow> nat \<Rightarrow> string \<Rightarrow> string \<Rightarrow> string \<Rightarrow> string \<Rightarrow> FileRequest \<Rightarrow> files \<Rightarrow> world \<Rightarrow> answer \<times> world" where
  "files_dispatch X time token uuid owner workspace operation fs w =
    (let w = snd (drop_expired time fs w); fs = filter (\<lambda>(_, st). \<not> expired time st) fs in
     if \<not> starts_with workspace ''/''
     then ((Inl (Fault_new ''FILE_PATH'' ''Workspace must be an absolute remote directory.''), fs), w)
     else
       (case bnd (checked_call ''FILE_PATH'' ''Cannot open this workspace.'' (\<lambda>lim d. (fx_ambient X workspace d, d))) (\<lambda>dir.
            file_operation X time token uuid dir owner workspace operation fs) w of
          (Inl f, w) \<Rightarrow> ((Inl f, fs), w)
        | (Inr (r, fs), w) \<Rightarrow> ((r, fs), w)))"

end
