(* ===== verification/Server_Upload.thy ===== *)
theory Server_Upload
  imports Server_Files Transfer_Commit
begin

text \<open>
  The save of a file of a workspace: what an upload, from its temporary file over its chunks to its
  commit, does to its destination, wherever it fails or the service dies.
\<close>

section \<open>Calls\<close>

lemma triple_checked:
  assumes st: "stable A P"
    and ok: "\<And>d x. P d \<Longrightarrow> fst (c None d) = Inr x \<Longrightarrow> Q x (snd (c None d))"
    and I: "\<And>d. P d \<Longrightarrow> I d" "\<And>d lim. P d \<Longrightarrow> I (snd (c lim d))"
  shows "triple A P (checked_call code text' c) Q I"
  unfolding checked_call_def
proof (rule triple_bnd)
  show "triple A P (syscall c) (\<lambda>r d. case r of Inl _ \<Rightarrow> I d | Inr x \<Rightarrow> Q x d) I"
    using ok I by (intro triple_syscall [OF st]) (auto split: sum.split)
  show "triple A (\<lambda>d. case r of Inl _ \<Rightarrow> I d | Inr x \<Rightarrow> Q x d)
      (case r of Inl _ \<Rightarrow> err (Fault_new code text') | Inr x \<Rightarrow> ret x) Q I" for r
    by (cases r) (simp_all add: triple_ret triple_err del: ret_simp err_simp)
qed

lemma triple_calm_checked:
  "stable A P \<Longrightarrow> calm c \<Longrightarrow> triple A P (checked_call code m c) (\<lambda>x d. P d \<and> fst (c None d) = Inr x) P"
  by (rule triple_checked) (auto simp: calm_def)

lemma calm_at: "(\<And>p. calm (call p)) \<Longrightarrow> calm (at_target X base parts call)" "(\<And>p. calm (call p)) \<Longrightarrow> calm (at_entry X base parts call)"
  by (simp_all add: calm_def at_target_def at_entry_def split: sum.split)

text \<open>The sandbox follows a name that is no link to itself.\<close>

definition follow_plain :: "sandbox \<Rightarrow> bool" where
  "follow_plain X \<longleftrightarrow> (\<forall>base name d i. named d (base @ [name]) = Some i \<longrightarrow> nd_kind (dk_inodes d i) \<noteq> Node_Link \<longrightarrow>
     fx_follow X base [name] d = Inr [name])"

section \<open>Reading\<close>

definition holds_text :: "path \<Rightarrow> nat \<Rightarrow> string \<Rightarrow> disk \<Rightarrow> bool" where
  "holds_text p i bytes d \<longleftrightarrow> named d p = Some i \<and> nd_kind (dk_inodes d i) = Node_File \<and> nd_bytes (dk_inodes d i) = bytes"

text \<open>What does not depend on the disk is a hypothesis.\<close>

lemma triple_fact: "(b \<Longrightarrow> triple A P m Q I) \<Longrightarrow> triple A (\<lambda>d. P d \<and> b) m Q I"
  by (cases b) (simp_all add: triple_def)

text \<open>A call that changes nothing, and what its result is known to be.\<close>

lemma triple_known:
  assumes "calm c" "\<And>d x. P d \<Longrightarrow> fst (c None d) = Inr x \<Longrightarrow> g x = v"
    and k: "\<And>x. g x = v \<Longrightarrow> triple never P (k x) Q P"
  shows "triple never P (bnd (checked_call code m c) k) Q P"
proof (rule triple_bnd [OF triple_conseq [OF triple_calm_checked [OF stable_never assms(1)]]])
  show "P d \<and> fst (c None d) = Inr x \<Longrightarrow> P d \<and> g x = v" for x d using assms(2) by blast
  show "triple never (\<lambda>d. P d \<and> g x = v) (k x) Q P" for x
    using k [of x] by (cases "g x = v") (simp_all add: triple_def)
qed simp_all

lemma triple_read_text:
  assumes follow: "follow_plain X" and held: "\<And>d. P d \<Longrightarrow> holds_text (base @ [name]) i bytes d"
  shows "triple never P (read_text X base [name]) (\<lambda>(b, r) d. P d \<and> b = bytes \<and> r = fx_sha X bytes \<and> length bytes \<le> MAX_TEXT_FILE) P"
  unfolding read_text_def
proof (rule triple_known [where g = "\<lambda>j. j" and v = i])
  show "j = i" if "P d" "fst (at_target X base [name] (\<lambda>p. open_file p False False False) None d) = Inr j" for d j
  proof -
    note h = held [OF that(1), unfolded holds_text_def]
    then have "fx_follow X base [name] d = Inr [name]" using follow by (auto simp: follow_plain_def)
    then show ?thesis using h that(2) by (simp add: at_target_def open_file_def)
  qed
qed (auto simp: calm_at calm_open fstat_def read_file_def Let_def triple_def [where m = "ret _"] dest: held [unfolded holds_text_def]
    intro!: triple_known [where g = nd_bytes and v = bytes] triple_known [where g = "\<lambda>b. b" and v = bytes] triple_if
      triple_err simp del: err_simp)

definition file_is :: "path \<Rightarrow> (nat \<times> string) option \<Rightarrow> disk \<Rightarrow> bool" where
  "file_is p f d = (case f of None \<Rightarrow> named d p = None | Some (i, bytes) \<Rightarrow> holds_text p i bytes d)"

lemma named_file_is: "file_is p f d \<Longrightarrow> named d p = None \<longleftrightarrow> f = None"
  by (cases f) (auto simp: file_is_def holds_text_def)

lemma triple_text_revision:
  assumes follow: "follow_plain X" and held: "\<And>d. P d \<Longrightarrow> file_is (base @ [name]) f d"
  shows "triple never P (text_revision X base [name]) (\<lambda>r d. P d \<and> r = map_option (\<lambda>(_, b). fx_sha X b) f) P"
  unfolding text_revision_def
proof (rule triple_bnd [where R = "\<lambda>r d. P d \<and> (\<forall>x. r = Inr x \<longrightarrow> f \<noteq> None) \<and> (r = Inl Not_Found \<longrightarrow> f = None)"])
  show "triple never P (syscall (at_entry X base [name] lstat))
      (\<lambda>r d. P d \<and> (\<forall>x. r = Inr x \<longrightarrow> f \<noteq> None) \<and> (r = Inl Not_Found \<longrightarrow> f = None)) P"
  proof (rule triple_syscall [OF stable_never])
    have present: "named d (base @ [name]) = None \<longleftrightarrow> f = None" if "P d" for d
      by (rule named_file_is [OF held [OF that]])
    show "P d \<Longrightarrow> P (snd (at_entry X base [name] lstat None d)) \<and>
        (\<forall>x. fst (at_entry X base [name] lstat None d) = Inr x \<longrightarrow> f \<noteq> None) \<and>
        (fst (at_entry X base [name] lstat None d) = Inl Not_Found \<longrightarrow> f = None)" for d
      using present [of d] by (auto simp: at_entry_def lstat_def split: option.splits)
  qed (simp_all add: at_entry_def lstat_def)
  show "triple never (\<lambda>d. P d \<and> (\<forall>x. r = Inr x \<longrightarrow> f \<noteq> None) \<and> (r = Inl Not_Found \<longrightarrow> f = None))
      (case r of Inr _ \<Rightarrow> bnd (read_text X base [name]) (\<lambda>(_, revision). ret (Some revision))
        | Inl Not_Found \<Rightarrow> ret None
        | Inl _ \<Rightarrow> err (Fault_new ''FILE_READ'' ''Cannot inspect the destination file.''))
      (\<lambda>r d. P d \<and> r = map_option (\<lambda>(_, b). fx_sha X b) f) P" for r
  proof (cases r)
    case (Inl e)
    then show ?thesis by (cases e) (auto simp: triple_def)
  next
    case (Inr x)
    show ?thesis
    proof (cases f)
      case None
      then show ?thesis by (simp add: Inr triple_def)
    next
      case (Some t)
      then have h: "holds_text (base @ [name]) (fst t) (snd t) d" if "P d" for d
        using held [OF that] by (simp add: file_is_def case_prod_beta)
      have "triple never P (bnd (read_text X base [name]) (\<lambda>(_, revision). ret (Some revision)))
          (\<lambda>r d. P d \<and> r = Some (fx_sha X (snd t))) P"
        by (rule triple_bnd [OF triple_read_text [OF follow h]]) (auto simp: triple_def)
      then show ?thesis using Some Inr by (auto intro: triple_conseq simp: case_prod_beta)
    qed
  qed
qed

section \<open>The commit\<close>

text \<open>The upload is complete in its temporary file, which is not the destination.\<close>

definition upload_ready :: "Staged \<Rightarrow> string \<Rightarrow> (nat \<times> string) option \<Rightarrow> disk \<Rightarrow> bool" where
  "upload_ready st bytes f d \<longleftrightarrow> holds_text (staged_path st) (sf_file st) bytes d \<and> file_is (target_path st) f d
     \<and> sf_temporary st \<noteq> sf_destination st"

definition old_or_saved :: "Staged \<Rightarrow> string \<Rightarrow> (nat \<times> string) option \<Rightarrow> disk \<Rightarrow> bool" where
  "old_or_saved st bytes f d \<longleftrightarrow> file_is (target_path st) f d \<or> holds_text (target_path st) (sf_file st) bytes d"

lemma ready_old: "upload_ready st bytes f d \<Longrightarrow> old_or_saved st bytes f d"
  by (simp add: upload_ready_def old_or_saved_def)

lemma triple_sync_staged:
  "triple never (upload_ready st bytes f) (checked_call c m (sync_file (sf_file st))) (\<lambda>_. upload_ready st bytes f) (upload_ready st bytes f)"
  by (rule triple_checked [OF stable_never])
    (auto simp: sync_file_def upload_ready_def file_is_def holds_text_def named_def split: option.splits)

text \<open>Both ways to publish give the destination the file of the temporary name, or leave the disk alone.\<close>

lemma renamed:
  assumes "named d p = Some i" "p \<noteq> []" "q \<noteq> []" "rename p q True lim d = (r, d')"
  shows "(d' = d \<and> (r = Inr () \<longrightarrow> named d q = Some i)) \<or> (named d' q = Some i \<and> dk_inodes d' = dk_inodes d)"
  using assms by (auto simp: rename_def split: if_splits)

lemma linked:
  assumes "named d p = Some i" "p \<noteq> []" "q \<noteq> []" "link_file p q lim d = (r, d')"
  shows "(d' = d \<and> r \<noteq> Inr ()) \<or> (named d' q = Some i \<and> dk_inodes d' = dk_inodes d)"
  using assms by (auto simp: link_file_def split: if_splits)

lemma published_text:
  assumes ready: "upload_ready st bytes f d"
    and call: "call = link_file (staged_path st) (target_path st) \<or> call = rename (staged_path st) (target_path st) True"
  shows "old_or_saved st bytes f (snd (call lim d))"
    "fst (call lim d) = Inr u \<Longrightarrow> holds_text (target_path st) (sf_file st) bytes (snd (call lim d))"
proof -
  obtain r d' where step: "call lim d = (r, d')" by fastforce
  have named: "named d (staged_path st) = Some (sf_file st)" "staged_path st \<noteq> []" "target_path st \<noteq> []"
    using ready by (simp_all add: upload_ready_def holds_text_def staged_path_def target_path_def)
  have "(d' = d \<and> (r = Inr () \<longrightarrow> named d (target_path st) = Some (sf_file st)))
      \<or> (named d' (target_path st) = Some (sf_file st) \<and> dk_inodes d' = dk_inodes d)"
    using call renamed [OF named] linked [OF named] step by metis
  then show "old_or_saved st bytes f (snd (call lim d))"
    "fst (call lim d) = Inr u \<Longrightarrow> holds_text (target_path st) (sf_file st) bytes (snd (call lim d))"
    using ready by (auto simp: step upload_ready_def old_or_saved_def holds_text_def)
qed

lemma triple_save_publish:
  "triple never (upload_ready st bytes f) (staged_publish st) (\<lambda>_ d. holds_text (target_path st) (sf_file st) bytes d) (old_or_saved st bytes f)"
  unfolding staged_publish_def
  by (intro triple_if triple_checked [OF stable_never]) (auto intro: published_text ready_old)

lemma named_sync: "named (snd (sync_dir q lim d)) p = named d p"
  by (simp add: named_def)

lemma triple_sync_parent:
  "triple never (holds_text p i bytes) (sync_parent q) (\<lambda>_. holds_text p i bytes) (holds_text p i bytes)"
proof -
  have sync: "triple never (holds_text p i bytes) (syscall (sync_dir q)) (\<lambda>_. holds_text p i bytes) (holds_text p i bytes)"
    by (rule triple_syscall [OF stable_never]) (simp_all add: holds_text_def named_sync)
  have "quiet (syscall (open_dir q))" by (rule quiet_syscall) simp
  note opened = quiet_stable [OF this stable_never]
  show ?thesis unfolding sync_parent_def
    by (rule triple_bnd [OF opened]) (auto intro!: triple_bnd [OF sync] triple_err triple_ret simp del: err_simp ret_simp split: sum.split)
qed

lemma triple_commit:
  assumes "follow_plain X"
  shows "triple never (upload_ready st bytes f) (staged_commit X st)
    (\<lambda>r d. holds_text (target_path st) (sf_file st) bytes d \<and> r = fx_sha X bytes \<and> fx_utf8 X bytes
       \<and> sf_written st = sf_length st \<and> map_option (\<lambda>(_, b). fx_sha X b) f = sf_expected st)
    (\<lambda>d. file_is (target_path st) f d \<or> (holds_text (target_path st) (sf_file st) bytes d \<and> sf_written st = sf_length st))"
    (is "triple never _ _ ?Full ?End")
proof -
  let ?P = "upload_ready st bytes f" and ?I = "old_or_saved st bytes f"
  let ?Q = "\<lambda>r d. holds_text (target_path st) (sf_file st) bytes d \<and> r = fx_sha X bytes \<and> fx_utf8 X bytes
       \<and> map_option (\<lambda>(_, b). fx_sha X b) f = sf_expected st"
  have weaken: "triple never ?P m R ?P \<Longrightarrow> triple never ?P m R ?I" for m :: "(world, 'b) act" and R
    by (erule triple_conseq) (auto intro: ready_old)
  have read: "triple never ?P (read_text X (sf_parent st) [sf_temporary st])
      (\<lambda>(b, r) d. ?P d \<and> b = bytes \<and> r = fx_sha X bytes \<and> length bytes \<le> MAX_TEXT_FILE) ?I"
    by (intro weaken triple_read_text [OF assms, where i = "sf_file st"]) (simp add: upload_ready_def staged_path_def)
  have revision: "triple never ?P (text_revision X (sf_parent st) [sf_destination st])
      (\<lambda>r d. ?P d \<and> r = map_option (\<lambda>(_, b). fx_sha X b) f) ?I"
    by (intro weaken triple_text_revision [OF assms]) (simp add: upload_ready_def target_path_def)
  have finish: "triple never ?P (thn (staged_publish st) (thn (sync_parent (sf_parent st)) (ret r)))
      (\<lambda>x d. holds_text (target_path st) (sf_file st) bytes d \<and> x = r) ?I" for r
    by (intro triple_thn [OF triple_save_publish] triple_thn [OF triple_conseq [OF triple_sync_parent]] triple_ret) (auto simp: old_or_saved_def)
  have check: "triple never (\<lambda>d. ?P d \<and> current = map_option (\<lambda>(_, b). fx_sha X b) f)
      (if current \<noteq> sf_expected st then err file_conflict else thn (staged_publish st) (thn (sync_parent (sf_parent st)) (ret r)))
      (\<lambda>x d. holds_text (target_path st) (sf_file st) bytes d \<and> x = r \<and> map_option (\<lambda>(_, b). fx_sha X b) f = sf_expected st) ?I" for current r
  proof (rule triple_fact, rule triple_if)
    assume "current = map_option (\<lambda>(_, b). fx_sha X b) f" "\<not> current \<noteq> sf_expected st"
    then show "triple never ?P (thn (staged_publish st) (thn (sync_parent (sf_parent st)) (ret r)))
        (\<lambda>x d. holds_text (target_path st) (sf_file st) bytes d \<and> x = r \<and> map_option (\<lambda>(_, b). fx_sha X b) f = sf_expected st) ?I"
      using finish [of r] by simp
  qed (rule triple_err, simp add: ready_old)
  have "triple never ?P (thn (checked_call ''FILE_WRITE'' ''Cannot flush file contents.'' (sync_file (sf_file st)))
       (bnd (read_text X (sf_parent st) [sf_temporary st]) (\<lambda>(bytes, revision).
         if \<not> fx_utf8 X bytes then err (Fault_new ''FILE_ENCODING'' ''The editor supports UTF-8 text files.'')
         else bnd (text_revision X (sf_parent st) [sf_destination st]) (\<lambda>current.
             if current \<noteq> sf_expected st then err file_conflict
             else thn (staged_publish st) (thn (sync_parent (sf_parent st)) (ret revision)))))) ?Q ?I"
  proof (rule triple_thn [OF weaken [OF triple_sync_staged]], rule triple_bnd [OF read])
    fix x :: "string \<times> string"
    obtain b r where x: "x = (b, r)" by fastforce
    have save: "triple never ?P (bnd (text_revision X (sf_parent st) [sf_destination st]) (\<lambda>current.
        if current \<noteq> sf_expected st then err file_conflict else thn (staged_publish st) (thn (sync_parent (sf_parent st)) (ret r))))
        (\<lambda>x d. holds_text (target_path st) (sf_file st) bytes d \<and> x = r \<and> map_option (\<lambda>(_, b). fx_sha X b) f = sf_expected st) ?I"
      by (rule triple_bnd [OF revision check])
    show "triple never (case x of (b, r) \<Rightarrow> \<lambda>d. ?P d \<and> b = bytes \<and> r = fx_sha X bytes \<and> length bytes \<le> MAX_TEXT_FILE)
        (case x of (bytes, revision) \<Rightarrow>
           if \<not> fx_utf8 X bytes then err (Fault_new ''FILE_ENCODING'' ''The editor supports UTF-8 text files.'')
           else bnd (text_revision X (sf_parent st) [sf_destination st]) (\<lambda>current.
             if current \<noteq> sf_expected st then err file_conflict
             else thn (staged_publish st) (thn (sync_parent (sf_parent st)) (ret revision)))) ?Q ?I"
      unfolding x prod.case
    proof (rule triple_fact, rule triple_if)
      assume "b = bytes \<and> r = fx_sha X bytes \<and> length bytes \<le> MAX_TEXT_FILE" "\<not> \<not> fx_utf8 X b"
      then show "triple never ?P (bnd (text_revision X (sf_parent st) [sf_destination st]) (\<lambda>current.
             if current \<noteq> sf_expected st then err file_conflict
             else thn (staged_publish st) (thn (sync_parent (sf_parent st)) (ret r)))) ?Q ?I"
        by (intro triple_conseq [OF save]) simp_all
    qed (rule triple_err, simp add: ready_old)
  qed
  then have full: "sf_written st = sf_length st \<Longrightarrow> triple never ?P (staged_commit X st) ?Q ?I"
    unfolding staged_commit_def by simp
  have complete: "triple never ?P (staged_commit X st) ?Full ?End" if len: "sf_written st = sf_length st"
    by (rule triple_conseq [OF full [OF len]]) (simp_all add: len old_or_saved_def)
  show ?thesis
  proof (cases "sf_written st = sf_length st")
    case False
    then show ?thesis by (auto simp: staged_commit_def upload_ready_def simp del: err_simp intro!: triple_err)
  qed (rule complete)
qed

text \<open>What a name holds.\<close>

definition text_of :: "path \<Rightarrow> disk \<Rightarrow> string option" where
  "text_of p d = map_option (\<lambda>i. nd_bytes (dk_inodes d i)) (named d p)"

lemma text_of_held: "holds_text p i bytes d \<Longrightarrow> text_of p d = Some bytes"
  by (simp add: holds_text_def text_of_def)

lemma text_of_file: "file_is p f d \<Longrightarrow> text_of p d = map_option snd f"
  by (cases f) (auto simp: file_is_def text_of_def holds_text_def)

section \<open>The upload\<close>

text \<open>An upload that gets its chunks, each with its time and offset, until a write fails, and is then committed.\<close>

fun staged_writes :: "(nat \<times> nat \<times> string) list \<Rightarrow> Staged \<Rightarrow> (world, Staged) act" where
  "staged_writes [] st = ret st"
| "staged_writes ((time, offset, bytes) # rest) st = bnd (staged_write time offset bytes st) (staged_writes rest)"

definition upload_text ::
  "sandbox \<Rightarrow> nat \<Rightarrow> string \<Rightarrow> string \<Rightarrow> string \<Rightarrow> string option \<Rightarrow> nat \<Rightarrow> string \<Rightarrow> path \<Rightarrow> (nat \<times> nat \<times> string) list
    \<Rightarrow> (world, string) act" where
  "upload_text X time uuid owner workspace expected len destination parent chunks =
    bnd (staged_create X time uuid owner workspace expected len destination parent) (\<lambda>st.
    bnd (staged_writes chunks st) (staged_commit X))"

abbreviation chunk_bytes :: "(nat \<times> nat \<times> string) list \<Rightarrow> string" where
  "chunk_bytes chunks \<equiv> concat (map (\<lambda>(_, _, bytes). bytes) chunks)"

text \<open>The bytes so far are in the temporary file, and the destination is another file.\<close>

definition receiving :: "string \<Rightarrow> string \<Rightarrow> path \<Rightarrow> nat \<Rightarrow> string option \<Rightarrow> (nat \<times> string) option \<Rightarrow> string \<Rightarrow> Staged \<Rightarrow> disk \<Rightarrow> bool" where
  "receiving name temporary parent len expected f bytes st d \<longleftrightarrow> upload_ready st bytes f d \<and> (\<forall>i b. f = Some (i, b) \<longrightarrow> i \<noteq> sf_file st)
    \<and> sf_parent st = parent \<and> sf_destination st = name \<and> sf_temporary st = temporary
    \<and> sf_length st = len \<and> sf_written st = length bytes \<and> sf_expected st = expected"

lemma receiving_ready: "receiving name temporary parent len expected f bytes st d \<Longrightarrow> upload_ready st bytes f d"
  by (simp add: receiving_def)

lemma receiving_old: "receiving name temporary parent len expected f bytes st d \<Longrightarrow> file_is (parent @ [name]) f d"
  by (auto simp: receiving_def upload_ready_def target_path_def)

lemma appended_bytes:
  "nd_kind (dk_inodes (snd (append_file i part lim d)) j) = nd_kind (dk_inodes d j)"
  "named (snd (append_file i part lim d)) p = named d p"
  "nd_bytes (dk_inodes (snd (append_file i part None d)) i) = nd_bytes (dk_inodes d i) @ part"
  "j \<noteq> i \<Longrightarrow> dk_inodes (snd (append_file i part lim d)) j = dk_inodes d j"
  by (simp_all add: append_file_def write_file_def write_bytes_def named_def Let_def)

lemma file_appended: "file_is p f d \<Longrightarrow> \<forall>j b. f = Some (j, b) \<longrightarrow> j \<noteq> i \<Longrightarrow> file_is p f (snd (append_file i part lim d))"
  by (auto simp: file_is_def holds_text_def appended_bytes split: option.splits)

lemma triple_staged_write:
  "triple never (receiving name temporary parent len expected f bytes st) (staged_write time offset part st)
    (\<lambda>st. receiving name temporary parent len expected f (bytes @ part) st) (file_is (parent @ [name]) f)"
  unfolding staged_write_def
proof (rule triple_if)
  let ?R = "receiving name temporary parent len expected f"
  let ?st = "st\<lparr> sf_written := sf_written st + length part, sf_expires := time + 120 \<rparr>"
  show "triple never (?R bytes st) (err (Fault_new c m)) (\<lambda>st. ?R (bytes @ part) st) (file_is (parent @ [name]) f)" for c m
    by (rule triple_err) (rule receiving_old)
  have "triple never (?R bytes st) (checked_call c m (append_file (sf_file st) part)) (\<lambda>_. ?R (bytes @ part) ?st) (file_is (parent @ [name]) f)" for c m
  proof (rule triple_checked [OF stable_never])
    show "?R bytes st d \<Longrightarrow> ?R (bytes @ part) ?st (snd (append_file (sf_file st) part None d))" for d
      by (auto simp: receiving_def upload_ready_def holds_text_def appended_bytes(1,2,3) staged_path_def target_path_def intro!: file_appended)
    show "?R bytes st d \<Longrightarrow> file_is (parent @ [name]) f d" for d by (rule receiving_old)
    show "?R bytes st d \<Longrightarrow> file_is (parent @ [name]) f (snd (append_file (sf_file st) part lim d))" for d lim
      by (rule file_appended [OF receiving_old]) (auto simp: receiving_def)
  qed
  then show "triple never (?R bytes st) (thn (checked_call ''FILE_WRITE'' ''Cannot write file contents.'' (append_file (sf_file st) part)) (ret ?st))
      (\<lambda>st. ?R (bytes @ part) st) (file_is (parent @ [name]) f)"
    by (rule triple_thn) (simp add: triple_ret del: ret_simp)
qed

lemma triple_staged_writes:
  "triple never (receiving name temporary parent len expected f bytes st) (staged_writes chunks st)
    (\<lambda>st. receiving name temporary parent len expected f (bytes @ chunk_bytes chunks) st) (file_is (parent @ [name]) f)"
proof (induction chunks arbitrary: bytes st)
  case (Cons c chunks)
  obtain time offset part where c: "c = (time, offset, part)" using prod_cases3 by blast
  show ?case using triple_bnd [OF triple_staged_write Cons.IH] by (simp add: c)
qed (simp add: triple_ret del: ret_simp)

text \<open>A new temporary file leaves the destination alone.\<close>

definition fresh_for :: "path \<Rightarrow> (nat \<times> string) option \<Rightarrow> disk \<Rightarrow> bool" where
  "fresh_for p f d \<longleftrightarrow> file_is p f d \<and> (\<forall>i b. f = Some (i, b) \<longrightarrow> i < dk_next d)"

lemma created_beside:
  assumes "fresh_for (parent @ [name]) f d" "temporary \<noteq> name"
  shows "file_is (parent @ [name]) f (snd (create_file (parent @ [temporary]) lim d))"
    "fst (create_file (parent @ [temporary]) lim d) = Inr i \<Longrightarrow>
      holds_text (parent @ [temporary]) i [] (snd (create_file (parent @ [temporary]) lim d)) \<and> (\<forall>j b. f = Some (j, b) \<longrightarrow> j \<noteq> i)"
proof -
  have apart: "\<not> prefix (parent @ [temporary]) (parent @ [name])" using assms(2) by simp
  show "file_is (parent @ [name]) f (snd (create_file (parent @ [temporary]) lim d))"
    using assms(1) apart by (auto simp: create_file_def fresh_for_def file_is_def holds_text_def split: option.splits)
  show "fst (create_file (parent @ [temporary]) lim d) = Inr i \<Longrightarrow>
      holds_text (parent @ [temporary]) i [] (snd (create_file (parent @ [temporary]) lim d)) \<and> (\<forall>j b. f = Some (j, b) \<longrightarrow> j \<noteq> i)"
    using assms(1) by (auto simp: create_file_def fresh_for_def holds_text_def empty_file_def split: if_splits)
qed

lemma mode_set:
  "file_is p f d \<Longrightarrow> file_is p f (snd (set_mode i m lim d))"
  "holds_text q j bytes d \<Longrightarrow> holds_text q j bytes (snd (set_mode i m lim d))"
  by (auto simp: set_mode_def file_is_def holds_text_def named_def split: option.splits)

lemma triple_create:
  assumes follow: "follow_plain X" and apart: "''.remote-codex-'' @ uuid @ ''.tmp'' \<noteq> name"
  shows "triple never (fresh_for (parent @ [name]) f) (staged_create X time uuid owner workspace expected len name parent)
    (receiving name (''.remote-codex-'' @ uuid @ ''.tmp'') parent len expected f []) (file_is (parent @ [name]) f)"
proof -
  let ?F = "fresh_for (parent @ [name]) f" and ?I = "file_is (parent @ [name]) f" and ?tmp = "''.remote-codex-'' @ uuid @ ''.tmp''"
  let ?H = "\<lambda>i d. ?I d \<and> holds_text (parent @ [?tmp]) i [] d \<and> (\<forall>j b. f = Some (j, b) \<longrightarrow> j \<noteq> i)"
  let ?R = "receiving name ?tmp parent len expected f []"
  have old: "?F d \<Longrightarrow> ?I d" for d by (simp add: fresh_for_def)
  have create: "triple never ?F (checked_call c m (create_file (parent @ [?tmp]))) ?H ?I" for c m
  proof (rule triple_checked [OF stable_never])
    show "?F d \<Longrightarrow> fst (create_file (parent @ [?tmp]) None d) = Inr i \<Longrightarrow> ?H i (snd (create_file (parent @ [?tmp]) None d))" for d i
      using created_beside [OF _ apart] by blast
    show "?F d \<Longrightarrow> ?I (snd (create_file (parent @ [?tmp]) lim d))" for d lim by (rule created_beside(1) [OF _ apart])
  qed (rule old)
  have look: "triple never (?H i) (syscall (at_target X parent [name] lstat)) (\<lambda>_. ?H i) ?I" for i
    by (rule triple_syscall [OF stable_never]) (simp_all add: at_target_def lstat_def split: sum.split)
  have mode: "triple never (?H i) (checked_call c m' (set_mode i m)) (\<lambda>_. ?H i) ?I" for i m c m'
    by (rule triple_checked [OF stable_never]) (auto intro: mode_set)
  have last: "triple never (?H i) (thn (case m of Inl _ \<Rightarrow> ret ()
           | Inr (_, meta) \<Rightarrow> checked_call ''FILE_WRITE'' ''Cannot preserve file permissions.'' (set_mode i (nd_mode meta)))
        (ret \<lparr> sf_owner = owner, sf_workspace = workspace, sf_expires = time + 120, sf_parent = parent,
           sf_destination = name, sf_temporary = ?tmp, sf_file = i, sf_expected = expected,
           sf_length = len, sf_written = 0 \<rparr>)) ?R ?I" for i and m :: "errno + nat \<times> inode"
  proof (rule triple_thn)
    show "triple never (?H i) (case m of Inl _ \<Rightarrow> ret ()
        | Inr (_, meta) \<Rightarrow> checked_call ''FILE_WRITE'' ''Cannot preserve file permissions.'' (set_mode i (nd_mode meta))) (\<lambda>_. ?H i) ?I"
      using mode by (auto simp: triple_ret simp del: ret_simp split: sum.split)
  qed (use apart in \<open>auto intro!: triple_ret simp: receiving_def upload_ready_def staged_path_def target_path_def simp del: ret_simp\<close>)
  have rest: "triple never ?F (if current \<noteq> expected then err file_conflict
      else bnd (checked_call ''FILE_WRITE'' ''Cannot stage this file.'' (create_file (parent @ [?tmp]))) (\<lambda>i.
        bnd (syscall (at_target X parent [name] lstat)) (\<lambda>m.
        thn (case m of Inl _ \<Rightarrow> ret ()
           | Inr (_, meta) \<Rightarrow> checked_call ''FILE_WRITE'' ''Cannot preserve file permissions.'' (set_mode i (nd_mode meta)))
        (ret \<lparr> sf_owner = owner, sf_workspace = workspace, sf_expires = time + 120, sf_parent = parent,
           sf_destination = name, sf_temporary = ?tmp, sf_file = i, sf_expected = expected,
           sf_length = len, sf_written = 0 \<rparr>)))) ?R ?I" for current
    by (intro triple_if triple_err triple_bnd [OF create] triple_bnd [OF look] last) (rule old)
  have revision: "triple never ?F (text_revision X parent [name]) (\<lambda>_. ?F) ?I"
    by (rule triple_conseq [OF triple_text_revision [OF follow, where P = ?F and f = f]]) (auto simp: old)
  show ?thesis unfolding staged_create_def Let_def by (rule triple_bnd [OF revision rest])
qed

lemma triple_upload:
  assumes "follow_plain X" "''.remote-codex-'' @ uuid @ ''.tmp'' \<noteq> name"
  shows "triple never (fresh_for (parent @ [name]) f) (upload_text X time uuid owner workspace expected len name parent chunks)
    (\<lambda>r d. text_of (parent @ [name]) d = Some (chunk_bytes chunks) \<and> length (chunk_bytes chunks) = len
       \<and> r = fx_sha X (chunk_bytes chunks) \<and> fx_utf8 X (chunk_bytes chunks) \<and> map_option (\<lambda>(_, b). fx_sha X b) f = expected)
    (\<lambda>d. file_is (parent @ [name]) f d
       \<or> (text_of (parent @ [name]) d = Some (chunk_bytes chunks) \<and> length (chunk_bytes chunks) = len))"
    (is "triple never ?F _ ?Q ?E")
proof -
  let ?bytes = "chunk_bytes chunks"
  let ?R = "receiving name (''.remote-codex-'' @ uuid @ ''.tmp'') parent len expected f"
  have commit: "triple never (?R ?bytes st) (staged_commit X st) ?Q ?E" for st
  proof (rule triple_assume)
    fix d assume r: "?R ?bytes st d"
    then have t: "target_path st = parent @ [name]" and n: "sf_written st = length ?bytes" "sf_length st = len" "sf_expected st = expected"
      by (simp_all add: receiving_def target_path_def)
    show "triple never (?R ?bytes st) (staged_commit X st) ?Q ?E"
      by (rule triple_conseq [OF triple_commit [OF assms(1), of st ?bytes f]])
        (auto simp: t n dest: text_of_held intro: receiving_ready)
  qed
  show ?thesis unfolding upload_text_def
  proof (rule triple_bnd [OF triple_conseq [OF triple_create [OF assms]]], assumption, assumption, simp, rule triple_bnd)
    show "triple never (?R [] st) (staged_writes chunks st) (?R ?bytes) ?E" for st
      by (rule triple_conseq [OF triple_staged_writes]) auto
  qed (rule commit)
qed

text \<open>The destination is a plain file or does not exist.\<close>

definition plain_or_missing :: "path \<Rightarrow> disk \<Rightarrow> bool" where
  "plain_or_missing p d \<longleftrightarrow> (case named d p of None \<Rightarrow> True | Some i \<Rightarrow> nd_kind (dk_inodes d i) = Node_File \<and> i < dk_next d)"

lemma plain_fresh:
  assumes "plain_or_missing p d"
  obtains f where "fresh_for p f d" "map_option snd f = text_of p d"
proof (rule that [of "map_option (\<lambda>i. (i, nd_bytes (dk_inodes d i))) (named d p)"])
  show "fresh_for p (map_option (\<lambda>i. (i, nd_bytes (dk_inodes d i))) (named d p)) d"
    using assms by (auto simp: plain_or_missing_def fresh_for_def file_is_def holds_text_def split: option.splits)
  show "map_option snd (map_option (\<lambda>i. (i, nd_bytes (dk_inodes d i))) (named d p)) = text_of p d"
    by (cases "named d p") (simp_all add: text_of_def)
qed

text \<open>C34: Saving a file never leaves a part of it.  An upload creates its temporary file beside the
  destination, takes chunks whose bytes and offsets are arbitrary, and is committed when it has taken every one.  While no
  other program changes files, wherever a call fails, a write stops short or the service dies, the destination has the text it had, or
  all the bytes of the chunks in their order, which are then exactly as many as the upload announced.  It answers with a
  revision only when the destination has those bytes, the revision is their digest, they are UTF-8, and what was there
  before is what the editor had read (or nothing, for a new file).\<close>

theorem save_whole_or_untouched:
  assumes "follow_plain X" "plain_or_missing (parent @ [name]) d" "''.remote-codex-'' @ uuid @ ''.tmp'' \<noteq> name" "no_changes fates"
  shows "case upload_text X time uuid owner workspace expected len name parent chunks
      \<lparr> w_disk = d, w_fates = fates, w_stops = stops, w_dead = False \<rparr> of (r, w) \<Rightarrow>
    (text_of (parent @ [name]) (w_disk w) = text_of (parent @ [name]) d
      \<or> (text_of (parent @ [name]) (w_disk w) = Some (chunk_bytes chunks) \<and> length (chunk_bytes chunks) = len))
    \<and> (case r of Inl _ \<Rightarrow> True
       | Inr revision \<Rightarrow> text_of (parent @ [name]) (w_disk w) = Some (chunk_bytes chunks) \<and> length (chunk_bytes chunks) = len
           \<and> revision = fx_sha X (chunk_bytes chunks) \<and> fx_utf8 X (chunk_bytes chunks)
           \<and> map_option (fx_sha X) (text_of (parent @ [name]) d) = expected)"
proof -
  obtain f where f: "fresh_for (parent @ [name]) f d" "map_option snd f = text_of (parent @ [name]) d"
    using assms(2) by (rule plain_fresh)
  have before: "map_option (\<lambda>(_, b). fx_sha X b) f = map_option (fx_sha X) (text_of (parent @ [name]) d)"
    unfolding f(2) [symmetric] by (cases f) auto
  obtain r w where run: "upload_text X time uuid owner workspace expected len name parent chunks
      \<lparr> w_disk = d, w_fates = fates, w_stops = stops, w_dead = False \<rparr> = (r, w)" by fastforce
  have old: "file_is (parent @ [name]) f d' \<Longrightarrow> text_of (parent @ [name]) d' = text_of (parent @ [name]) d" for d'
    using text_of_file f(2) by simp
  have fates: "fates_ok never \<lparr> w_disk = d, w_fates = fates, w_stops = stops, w_dead = False \<rparr>"
    using assms(4) by (simp add: fates_ok_def no_changes_def list_all_iff)
  note after = tripleD [OF triple_upload [OF assms(1,3)] _ fates run, of f]
  show ?thesis
  proof (cases r)
    case (Inl x)
    then show ?thesis using after f(1) old by (auto simp: run)
  next
    case (Inr x)
    then show ?thesis using after f(1) before by (simp add: run)
  qed
qed

text \<open>The service dies after the rename of an upload of two chunks: the file has the new text.\<close>

definition sample_sandbox :: sandbox where
  "sample_sandbox = \<lparr> fx_ambient = (\<lambda>_ _. Inr []), fx_follow = (\<lambda>_ parts _. Inr parts), fx_names = (\<lambda>_ _. []),
     fx_lower = (\<lambda>s. s), fx_json_size = (\<lambda>_. 1), fx_sha = (\<lambda>s. s), fx_utf8 = (\<lambda>_. True) \<rparr>"

definition sample_files :: disk where
  "sample_files = \<lparr> dk_names = [([''a''], 1)], dk_past = [],
     dk_inodes = (\<lambda>i. if i = 1 then sample_file ''old'' else empty_dir), dk_next = 2, dk_device = 1 \<rparr>"

definition sample_fate :: fate where
  "sample_fate = \<lparr> ft_changes = [], ft_ending = Works \<rparr>"

definition sample_save :: "(Fault + string) \<times> world" where
  "sample_save = upload_text sample_sandbox 0 ''u'' ''o'' ''/w'' (Some ''old'') 3 ''a'' [] [(1, 0, ''ne''), (2, 2, ''w'')]
     \<lparr> w_disk = sample_files, w_fates = replicate 17 sample_fate @ [\<lparr> ft_changes = [], ft_ending = Dies (Some None) \<rparr>],
       w_stops = [], w_dead = False \<rparr>"

lemma save_whole_or_untouched_witness:
  "(text_of [''a''] (w_disk (snd sample_save)) = Some ''old'' \<or> text_of [''a''] (w_disk (snd sample_save)) = Some ''new'')
    \<and> w_dead (snd sample_save) \<and> text_of [''a''] (w_disk (snd sample_save)) = Some ''new''"
proof (intro conjI)
  have follow: "follow_plain sample_sandbox" by (simp add: follow_plain_def sample_sandbox_def)
  have plain: "plain_or_missing ([] @ [''a'']) sample_files"
    by (simp add: plain_or_missing_def sample_files_def named_def sample_file_def empty_file_def)
  have calm: "no_changes (replicate 17 sample_fate @ [\<lparr> ft_changes = [], ft_ending = Dies (Some None) \<rparr>])"
    by (simp add: no_changes_def list_all_iff sample_fate_def)
  have "text_of [''a''] sample_files = Some ''old''"
    by (simp add: text_of_def sample_files_def named_def sample_file_def)
  then show "text_of [''a''] (w_disk (snd sample_save)) = Some ''old'' \<or> text_of [''a''] (w_disk (snd sample_save)) = Some ''new''"
    using save_whole_or_untouched [OF follow plain _ calm, where uuid = "''u''" and time = 0 and owner = "''o''" and workspace = "''/w''"
        and expected = "Some ''old''" and len = 3 and chunks = "[(1, 0, ''ne''), (2, 2, ''w'')]" and stops = "[]"]
    unfolding sample_save_def by (auto simp: case_prod_beta)
  have fates: "replicate 17 x = [x, x, x, x, x, x, x, x, x, x, x, x, x, x, x, x, x]" for x :: fate
    by (simp add: numeral_eq_Suc)
  show "w_dead (snd sample_save)" "text_of [''a''] (w_disk (snd sample_save)) = Some ''new''"
    by (simp_all add: sample_save_def fates sample_fate_def upload_text_def staged_create_def staged_write_def staged_commit_def
        sample_files_def checked_call_def thn_def bnd_def syscall_def create_file_def new_inode_def set_name_def append_file_def
        write_file_def write_bytes_def set_mode_def FILE_CHUNK_def
        sync_file_def read_text_def at_target_def at_entry_def sample_sandbox_def open_file_def fstat_def read_file_def lstat_def
        named_def text_revision_def staged_publish_def rename_def staged_path_def target_path_def set_inode_def sample_file_def
        MAX_TEXT_FILE_def effect_def without_def is_dir_def set_names_def text_of_def Let_def empty_dir_def empty_file_def)
qed

end
