(* ===== verification/Client_Files.thy ===== *)
theory Client_Files
  imports Server_Upload Client_Error
begin

text \<open>
  Models the files of \<open>client/src/application/files.rs\<close>: how the desktop's editor reads a file and
  saves it, in chunks, through a service.  The locale \<open>file_service\<close> states what a service promises;
  \<open>Server_Files\<close> keeps it.
\<close>

section \<open>The handle\<close>

type_synonym 'p file_call = "FileRequest \<Rightarrow> 'p \<Rightarrow> (ClientError, FileReply) result \<times> 'p"

record TextFile =
  tx_path :: string
  tx_text :: string
  tx_revision :: string

text \<open>The loop of \<open>read\<close>; \<open>None\<close> when the bound on its rounds is used up.\<close>

fun read_chunks ::
  "nat \<Rightarrow> 'p file_call \<Rightarrow> string \<Rightarrow> string \<Rightarrow> string option \<Rightarrow> 'p \<Rightarrow> ((ClientError, string \<times> string) result \<times> 'p) option" where
  "read_chunks 0 call path bytes revision p = None"
| "read_chunks (Suc rounds) call path bytes revision p =
    (case call (Read_File path (length bytes) revision) p of
       (Inl e, p) \<Rightarrow> Some (Inl e, p)
     | (Inr (FileChunk part actual len), p) \<Rightarrow>
         if len > MAX_TEXT_FILE \<or> length part > FILE_CHUNK \<or> (part = [] \<and> length bytes \<noteq> len)
           then Some (Inl Err_RemoteResponse, p)
         else
           let bytes = bytes @ part in
           if length bytes = len then Some (Inr (bytes, actual), p)
           else if length bytes > len then Some (Inl Err_RemoteResponse, p)
           else read_chunks rounds call path bytes (Some actual) p
     | (Inr _, p) \<Rightarrow> Some (Inl Err_Data, p))"

definition file_read :: "(string \<Rightarrow> bool) \<Rightarrow> 'p file_call \<Rightarrow> string \<Rightarrow> 'p \<Rightarrow> ((ClientError, TextFile) result \<times> 'p) option" where
  "file_read utf8 call path p =
    map_option (\<lambda>(r, p). (rbind r (\<lambda>(bytes, revision).
        if \<not> utf8 bytes then Inl (Err_Argument ''The editor supports UTF-8 text files.'')
        else if CHR 0x00 \<in> set bytes then Inl (Err_Argument ''Binary files cannot be opened in the text editor.'')
        else Inr \<lparr> tx_path = path, tx_text = bytes, tx_revision = revision \<rparr>), p))
      (read_chunks (MAX_TEXT_FILE + 2) call path [] None p)"

text \<open>\<open>write\<close>: the chunks of a text with their offsets.\<close>

function text_chunks :: "nat \<Rightarrow> string \<Rightarrow> (nat \<times> string) list" where
  "text_chunks offset text' = (if text' = [] then []
     else (offset, take FILE_CHUNK text') # text_chunks (offset + FILE_CHUNK) (drop FILE_CHUNK text'))"
  by pat_completeness auto
termination by (relation "measure (\<lambda>(_, s). length s)") (auto simp: FILE_CHUNK_def)

declare text_chunks.simps [simp del]

lemma chunk_positive [simp]: "0 < FILE_CHUNK"
  by (simp add: FILE_CHUNK_def)

fun send_chunks :: "'p file_call \<Rightarrow> string \<Rightarrow> (nat \<times> string) list \<Rightarrow> 'p \<Rightarrow> (ClientError, unit) result \<times> 'p" where
  "send_chunks call token [] p = (Inr (), p)"
| "send_chunks call token ((offset, bytes) # rest) p =
    (case call (WriteChunk token offset bytes) p of
       (Inl e, p) \<Rightarrow> (Inl e, p)
     | (Inr _, p) \<Rightarrow> send_chunks call token rest p)"

fun reply_token :: "FileReply \<Rightarrow> string option" where
  "reply_token (Upload_Token token) = Some token"
| "reply_token _ = None"

fun reply_revision :: "FileReply \<Rightarrow> string option" where
  "reply_revision (Upload_Revision r) = Some r"
| "reply_revision (FileChunk _ r _) = Some r"
| "reply_revision _ = None"

definition finish_write :: "'p file_call \<Rightarrow> string \<Rightarrow> string \<Rightarrow> 'p \<Rightarrow> (ClientError, string) result \<times> 'p" where
  "finish_write call token text' p =
    (case send_chunks call token (text_chunks 0 text') p of
       (Inl e, p) \<Rightarrow> (Inl e, p)
     | (Inr _, p) \<Rightarrow>
         (case call (CommitWrite token) p of
            (Inl e, p) \<Rightarrow> (Inl e, p)
          | (Inr reply, p) \<Rightarrow> (ok_or Err_RemoteResponse (reply_revision reply), p)))"

definition file_write :: "'p file_call \<Rightarrow> string \<Rightarrow> string \<Rightarrow> string option \<Rightarrow> 'p \<Rightarrow> (ClientError, string) result \<times> 'p" where
  "file_write call path text' revision p =
    (if length text' > MAX_TEXT_FILE then (Inl (Err_Argument ''File exceeds 4 MiB.''), p)
     else
       (case call (BeginWrite path revision (length text')) p of
          (Inl e, p) \<Rightarrow> (Inl e, p)
        | (Inr begun, p) \<Rightarrow>
            (case reply_token begun of
               None \<Rightarrow> (Inl Err_RemoteResponse, p)
             | Some token \<Rightarrow>
                 (case finish_write call token text' p of
                    (Inl e, p) \<Rightarrow> (Inl e, snd (call (CancelWrite token) p))
                  | (Inr revision, p) \<Rightarrow> (Inr revision, p)))))"

section \<open>Reading ends\<close>

text \<open>Every round adds a byte, and there are at most as many as the largest file has.\<close>

lemma read_chunks_ends:
  "MAX_TEXT_FILE - length bytes + 1 < rounds \<Longrightarrow> length bytes \<le> MAX_TEXT_FILE \<Longrightarrow>
    read_chunks rounds call path bytes revision p \<noteq> None"
proof (induction rounds arbitrary: bytes revision p)
  case (Suc rounds)
  have later: "read_chunks rounds call path (bytes @ part) (Some actual) p' \<noteq> None"
    if "part \<noteq> []" "length (bytes @ part) \<le> MAX_TEXT_FILE" for part actual p'
    using Suc.prems that by (intro Suc.IH) (cases part, auto)+
  show ?case
    using later by (auto simp: Let_def split: prod.split sum.split FileReply.split)
qed simp

lemma file_read_ends: "file_read utf8 call path p \<noteq> None"
  using read_chunks_ends [of "[]" "MAX_TEXT_FILE + 2" call path None p] by (simp add: file_read_def)

section \<open>What a service promises\<close>

text \<open>\<open>ready\<close>: the file may be saved over the given revision; \<open>uploading\<close>: what an upload has got so
  far; \<open>stored\<close>: what a file holds.\<close>

locale file_service =
  fixes call :: "'p file_call" and sha :: "'p \<Rightarrow> string \<Rightarrow> string" and utf8 :: "'p \<Rightarrow> string \<Rightarrow> bool"
    and ready :: "'p \<Rightarrow> string \<Rightarrow> string option \<Rightarrow> bool"
    and uploading :: "'p \<Rightarrow> string \<Rightarrow> string \<Rightarrow> nat \<Rightarrow> string \<Rightarrow> bool"
    and stored :: "'p \<Rightarrow> string \<Rightarrow> string \<Rightarrow> bool"
  assumes same_code: "sha (snd (call operation p)) = sha p" "utf8 (snd (call operation p)) = utf8 p"
    and begins: "ready p path revision \<Longrightarrow> len \<le> MAX_TEXT_FILE \<Longrightarrow>
      \<exists>token p'. call (BeginWrite path revision len) p = (Inr (Upload_Token token), p') \<and> uploading p' token path len []"
    and continues: "uploading p token path len sent \<Longrightarrow> length bytes \<le> FILE_CHUNK \<Longrightarrow> length sent + length bytes \<le> len \<Longrightarrow>
      \<exists>p'. call (WriteChunk token (length sent) bytes) p = (Inr Unit_Reply, p') \<and> uploading p' token path len (sent @ bytes)"
    and commits: "uploading p token path len sent \<Longrightarrow> length sent = len \<Longrightarrow> len \<le> MAX_TEXT_FILE \<Longrightarrow> utf8 p sent \<Longrightarrow>
      \<exists>p'. call (CommitWrite token) p = (Inr (Upload_Revision (sha p sent)), p') \<and> stored p' path sent"
    and reads: "stored p path bytes \<Longrightarrow> length bytes \<le> MAX_TEXT_FILE \<Longrightarrow> offset \<le> length bytes \<Longrightarrow>
      revision \<in> {None, Some (sha p bytes)} \<Longrightarrow>
      \<exists>p'. call (Read_File path offset revision) p
          = (Inr (FileChunk (take FILE_CHUNK (drop offset bytes)) (sha p bytes) (length bytes)), p') \<and> stored p' path bytes"
begin

lemma call_same: "call operation p = (r, p') \<Longrightarrow> sha p' = sha p \<and> utf8 p' = utf8 p"
  using same_code [of operation p] by simp

lemma send_same: "send_chunks call token cs p = (r, p') \<Longrightarrow> sha p' = sha p \<and> utf8 p' = utf8 p"
proof (induction cs arbitrary: p)
  case (Cons c cs)
  then show ?case by (cases c) (force dest: call_same split: prod.splits sum.splits)
qed simp

lemma sends_all:
  "uploading p token path (length sent + length rest) sent \<Longrightarrow>
    \<exists>p'. send_chunks call token (text_chunks (length sent) rest) p = (Inr (), p') \<and> uploading p' token path (length sent + length rest) (sent @ rest)"
proof (induction "length rest" arbitrary: rest sent p rule: less_induct)
  case less
  show ?case
  proof (cases "rest = []")
    case True
    then show ?thesis using less.prems by (simp add: text_chunks.simps)
  next
    case False
    let ?part = "take FILE_CHUNK rest"
    obtain p1 where p1: "call (WriteChunk token (length sent) ?part) p = (Inr Unit_Reply, p1)"
        "uploading p1 token path (length sent + length rest) (sent @ ?part)"
      using continues [OF less.prems, of ?part] by auto
    have shorter: "length (drop FILE_CHUNK rest) < length rest" using False by (simp add: FILE_CHUNK_def)
    have rest: "(sent @ ?part) @ drop FILE_CHUNK rest = sent @ rest"
        "length (sent @ ?part) + length (drop FILE_CHUNK rest) = length sent + length rest"
      by (simp_all add: min_def)
    obtain p2 where p2: "send_chunks call token (text_chunks (length (sent @ ?part)) (drop FILE_CHUNK rest)) p1 = (Inr (), p2)"
        "uploading p2 token path (length sent + length rest) (sent @ rest)"
      using less.hyps [OF shorter, of p1 "sent @ ?part"] p1(2) unfolding rest by blast
    have "text_chunks (length (sent @ ?part)) (drop FILE_CHUNK rest) = text_chunks (length sent + FILE_CHUNK) (drop FILE_CHUNK rest)"
      by (cases "length rest \<le> FILE_CHUNK") (simp_all add: text_chunks.simps)
    then show ?thesis using p1 p2 False by (subst text_chunks.simps) simp
  qed
qed

lemma reads_all:
  "stored p path bytes \<Longrightarrow> length bytes \<le> MAX_TEXT_FILE \<Longrightarrow> revision \<in> {None, Some (sha p bytes)} \<Longrightarrow>
    k \<le> length bytes \<Longrightarrow> (k = length bytes \<longrightarrow> bytes = []) \<Longrightarrow> length bytes - k < rounds \<Longrightarrow>
    \<exists>p'. read_chunks rounds call path (take k bytes) revision p = Some (Inr (bytes, sha p bytes), p') \<and> stored p' path bytes"
proof (induction rounds arbitrary: k revision p)
  case (Suc rounds)
  let ?part = "take FILE_CHUNK (drop k bytes)"
  obtain p1 where p1: "call (Read_File path k revision) p = (Inr (FileChunk ?part (sha p bytes) (length bytes)), p1)" "stored p1 path bytes"
    using reads [OF Suc.prems(1,2,4,3)] by blast
  have same: "sha p1 = sha p" using call_same [OF p1(1)] by simp
  have k: "length (take k bytes) = k" using Suc.prems(4) by simp
  have joined: "take k bytes @ ?part = take (k + FILE_CHUNK) bytes" by (simp add: take_add)
  show ?case
  proof (cases "k + FILE_CHUNK \<ge> length bytes")
    case True
    then have "take k bytes @ ?part = bytes" by (simp add: joined)
    then show ?thesis using p1 Suc.prems(2,5) k by (auto simp: Let_def)
  next
    case False
    have more: "\<exists>p'. read_chunks rounds call path (take (k + FILE_CHUNK) bytes) (Some (sha p bytes)) p1 = Some (Inr (bytes, sha p bytes), p')
        \<and> stored p' path bytes"
      using False Suc.prems(2,6) Suc.IH [of p1 "Some (sha p bytes)" "k + FILE_CHUNK"] p1(2) by (auto simp: FILE_CHUNK_def same)
    have "?part \<noteq> []" using False by (auto simp: FILE_CHUNK_def)
    then show ?thesis using more p1(1) Suc.prems(2) False k by (auto simp: Let_def joined)
  qed
qed simp

lemma save_then_read:
  assumes "ready p path revision" "length text' \<le> MAX_TEXT_FILE" "utf8 p text'" "CHR 0x00 \<notin> set text'"
  shows "\<exists>p1 p2. file_write call path text' revision p = (Inr (sha p text'), p1)
    \<and> file_read (utf8 p) call path p1 = Some (Inr \<lparr> tx_path = path, tx_text = text', tx_revision = sha p text' \<rparr>, p2)"
proof -
  obtain token p1 where p1: "call (BeginWrite path revision (length text')) p = (Inr (Upload_Token token), p1)"
      "uploading p1 token path (length text') []"
    using begins [OF assms(1,2)] by blast
  obtain p2 where p2: "send_chunks call token (text_chunks 0 text') p1 = (Inr (), p2)" "uploading p2 token path (length text') text'"
    using sends_all [of p1 token path "[]" text'] p1(2) by auto
  have same: "sha p2 = sha p" "utf8 p2 = utf8 p" using call_same [OF p1(1)] send_same [OF p2(1)] by simp_all
  obtain p3 where p3: "call (CommitWrite token) p2 = (Inr (Upload_Revision (sha p text')), p3)" "stored p3 path text'"
    using commits [OF p2(2) refl assms(2)] assms(3) by (auto simp: same)
  have "sha p3 = sha p" using call_same [OF p3(1)] by (simp add: same)
  then obtain p4 where "read_chunks (MAX_TEXT_FILE + 2) call path (take 0 text') None p3 = Some (Inr (text', sha p text'), p4)"
    using reads_all [OF p3(2) assms(2), of None 0 "MAX_TEXT_FILE + 2"] assms(2) by auto
  then show ?thesis using p1 p2 p3 assms
    by (simp add: file_write_def finish_write_def file_read_def)
qed

end

end
