(* ===== verification/Client_Editor.thy ===== *)
theory Client_Editor
  imports Client_Files
begin

text \<open>
  The editor over the file service of the server: \<open>Server_Files\<close> keeps what \<open>file_service\<close> asks of a
  service while its disk works and no other program changes it, so what is saved is read back.
\<close>

section \<open>Where paths lead\<close>

text \<open>A directory with every directory above it, and a disk that still has the directories and links
  another one has: files may differ, and there may be more of everything.\<close>

definition dir_way :: "disk \<Rightarrow> path \<Rightarrow> bool" where
  "dir_way d p \<longleftrightarrow> list_all (is_dir d) (prefixes p)"

definition turns :: "disk \<Rightarrow> path \<Rightarrow> nat \<Rightarrow> bool" where
  "turns d p i \<longleftrightarrow> named d p = Some i \<and> nd_kind (dk_inodes d i) \<in> {Node_Directory, Node_Link}"

definition ways_kept :: "disk \<Rightarrow> disk \<Rightarrow> bool" where
  "ways_kept d d' \<longleftrightarrow> (\<forall>p i. (\<forall>q. strict_prefix q p \<longrightarrow> is_dir d q) \<longrightarrow> turns d p i \<longrightarrow>
     named d' p = Some i \<and> dk_inodes d' i = dk_inodes d i)"

text \<open>What the sandbox promises of the paths that lead to a directory: they lead there as long as the
  directories and links are what they are, the directory they lead to is a path of its own, and a name in it that is no
  link is found below either.\<close>

definition leads_law :: "sandbox \<Rightarrow> bool" where
  "leads_law X \<longleftrightarrow> follow_plain X
    \<and> (\<forall>root base d d'. fx_ambient X root d = Inr base \<longrightarrow> dir_way d base \<longrightarrow> ways_kept d d' \<longrightarrow> fx_ambient X root d' = Inr base)
    \<and> (\<forall>base parts q d d'. fx_follow X base parts d = Inr q \<longrightarrow> dir_way d (base @ q) \<longrightarrow> ways_kept d d' \<longrightarrow>
         fx_follow X base parts d' = Inr q)
    \<and> (\<forall>base parts q d. fx_follow X base parts d = Inr q \<longrightarrow> dir_way d (base @ q) \<longrightarrow> fx_follow X base q d = Inr q)
    \<and> (\<forall>base parts q name i d. fx_follow X base parts d = Inr q \<longrightarrow> dir_way d (base @ q) \<longrightarrow>
         named d (base @ q @ [name]) = Some i \<longrightarrow> nd_kind (dk_inodes d i) \<noteq> Node_Link \<longrightarrow>
         fx_follow X base (parts @ [name]) d = Inr (q @ [name]))"

lemma dir_way_iff: "dir_way d p \<longleftrightarrow> (\<forall>q. prefix q p \<longrightarrow> is_dir d q)"
  by (auto simp: dir_way_def list_all_iff in_set_prefixes)

lemma dir_way_dir: "dir_way d p \<Longrightarrow> is_dir d p"
  by (simp add: dir_way_iff)

lemma dir_way_above: "dir_way d (p @ q) \<Longrightarrow> dir_way d p"
  by (auto simp: dir_way_iff)

lemma turns_dir: "is_dir d p \<longleftrightarrow> (\<exists>i. turns d p i \<and> nd_kind (dk_inodes d i) = Node_Directory)"
  by (auto simp: is_dir_def turns_def split: option.split)

lemma kept_dir_way: "ways_kept d d' \<Longrightarrow> dir_way d p \<Longrightarrow> dir_way d' p"
  unfolding dir_way_iff
proof (intro allI impI)
  fix q assume kept: "ways_kept d d'" and way: "\<forall>q. prefix q p \<longrightarrow> is_dir d q" and q: "prefix q p"
  have above: "\<forall>q'. strict_prefix q' q \<longrightarrow> is_dir d q'" using way q by (meson prefix_order.trans prefix_order.less_imp_le)
  obtain i where i: "turns d q i" "nd_kind (dk_inodes d i) = Node_Directory" using way q by (auto simp: turns_dir)
  then have "named d' q = Some i" "dk_inodes d' i = dk_inodes d i" using kept above by (auto simp: ways_kept_def)
  then show "is_dir d' q" using i(2) by (simp add: is_dir_def)
qed

lemma ways_kept_trans:
  assumes "ways_kept d d1" "ways_kept d1 d2"
  shows "ways_kept d d2"
  unfolding ways_kept_def
proof (intro allI impI)
  fix p i assume above: "\<forall>q. strict_prefix q p \<longrightarrow> is_dir d q" and t: "turns d p i"
  have one: "named d1 p = Some i" "dk_inodes d1 i = dk_inodes d i" using assms(1) above t by (auto simp: ways_kept_def)
  have "is_dir d1 q" if "strict_prefix q p" for q
  proof -
    have "dir_way d q" using above that unfolding dir_way_iff by (meson prefix_order.le_less_trans)
    then show ?thesis by (rule dir_way_dir [OF kept_dir_way [OF assms(1)]])
  qed
  then show "named d2 p = Some i \<and> dk_inodes d2 i = dk_inodes d i"
    using assms(2) one t unfolding ways_kept_def turns_def by metis
qed

text \<open>Changes to names that are no directories and no links, and to files, keep the ways.\<close>

lemma ways_keptI:
  assumes files: "\<And>t i. t \<in> T \<Longrightarrow> \<not> turns d t i"
    and names: "\<And>p. (\<And>t. t \<in> T \<Longrightarrow> \<not> prefix t p) \<Longrightarrow> named d' p = named d p"
    and nodes: "\<And>p i. turns d p i \<Longrightarrow> dk_inodes d' i = dk_inodes d i"
  shows "ways_kept d d'"
  unfolding ways_kept_def
proof (intro allI impI)
  fix p i assume above: "\<forall>q. strict_prefix q p \<longrightarrow> is_dir d q" and t: "turns d p i"
  have "\<not> prefix t p" if "t \<in> T" for t
    using above t files [OF that] by (auto simp: turns_dir strict_prefix_def)
  then have "named d' p = named d p" by (rule names)
  then show "named d' p = Some i \<and> dk_inodes d' i = dk_inodes d i" using t nodes by (simp add: turns_def)
qed

lemma ways_kept_node:
  assumes "nd_kind (dk_inodes d i) = Node_File" "dk_names d' = dk_names d" "\<And>j. j \<noteq> i \<Longrightarrow> dk_inodes d' j = dk_inodes d j"
  shows "ways_kept d d'"
proof (rule ways_keptI [where T = "{}"])
  show "turns d p j \<Longrightarrow> dk_inodes d' j = dk_inodes d j" for p j using assms(1,3) by (cases "j = i") (auto simp: turns_def)
qed (simp_all add: named_def assms(2))

lemma held_no_turn: "holds_text p i bytes d \<Longrightarrow> \<not> turns d p j"
  by (auto simp: holds_text_def turns_def)

lemma file_no_turn: "file_is p f d \<Longrightarrow> \<not> turns d p j"
  by (cases f) (auto simp: file_is_def turns_def dest: held_no_turn)

section \<open>A disk that works\<close>

abbreviation idle :: "disk \<Rightarrow> world" where
  "idle d \<equiv> \<lparr> w_disk = d, w_fates = [], w_stops = [], w_dead = False \<rparr>"

lemma syscall_idle [simp]: "syscall c (idle d) = (Inr (fst (c None d)), idle (snd (c None d)))"
  by (simp add: syscall_def)

lemma checked_idle: "checked_call code m c (idle d) =
    (case fst (c None d) of Inl _ \<Rightarrow> Inl (Fault_new code m) | Inr x \<Rightarrow> Inr x, idle (snd (c None d)))"
  by (simp add: checked_call_def bnd_def split: sum.split)

lemma calm_snd: "calm c \<Longrightarrow> snd (c lim d) = d"
  by (simp add: calm_def)

lemma lift_Inr [simp]: "lift_result (Inr x) = ret x"
  by (simp add: lift_result_def)

lemma read_text_idle:
  assumes "holds_text p i bytes d" "length bytes \<le> MAX_TEXT_FILE" "fx_follow X base parts d = Inr q" "p = base @ q"
  shows "read_text X base parts (idle d) = (Inr (bytes, fx_sha X bytes), idle d)"
  using assms
  by (simp add: read_text_def bnd_def checked_idle at_target_def open_file_def holds_text_def fstat_def read_file_def Let_def)

lemma text_revision_idle:
  assumes "file_is (base @ [name]) f d" "follow_plain X" "\<forall>i b. f = Some (i, b) \<longrightarrow> length b \<le> MAX_TEXT_FILE"
  shows "text_revision X base [name] (idle d) = (Inr (map_option (\<lambda>(_, b). fx_sha X b) f), idle d)"
proof (cases f)
  case None
  then show ?thesis using assms(1) by (simp add: text_revision_def bnd_def at_entry_def lstat_def file_is_def)
next
  case (Some t)
  obtain i b where t: "t = (i, b)" by fastforce
  have held: "holds_text (base @ [name]) i b d" using assms(1) by (simp add: file_is_def Some t)
  then have "fx_follow X base [name] d = Inr [name]" using assms(2) by (auto simp: follow_plain_def holds_text_def)
  then have "read_text X base [name] (idle d) = (Inr (b, fx_sha X b), idle d)"
    using read_text_idle [OF held] assms(3) by (simp add: Some t)
  moreover have "named d (base @ [name]) = Some i" using held by (simp add: holds_text_def)
  ultimately show ?thesis by (simp add: text_revision_def bnd_def at_entry_def lstat_def Some t)
qed

lemma ready_synced: "upload_ready st bytes f d \<Longrightarrow> upload_ready st bytes f (snd (sync_file (sf_file st) None d))"
  by (auto simp: sync_file_def upload_ready_def file_is_def holds_text_def named_def split: option.splits)

lemma dir_synced: "is_dir (snd (sync_file i None d)) p = is_dir d p"
  by (auto simp: is_dir_def sync_file_def named_def split: option.split)

lemma publish_idle:
  assumes ready: "upload_ready st bytes f d" and dir: "is_dir d (sf_parent st)" and f: "f = None \<longleftrightarrow> sf_expected st = None"
  shows "\<exists>d'. staged_publish st (idle d) = (Inr (), idle d') \<and> holds_text (target_path st) (sf_file st) bytes d' \<and> is_dir d' (sf_parent st)
    \<and> ways_kept d d' \<and> (\<forall>j. \<not> turns d' (staged_path st) j)"
proof -
  define call where "call = (if sf_expected st = None then link_file (staged_path st) (target_path st)
      else rename (staged_path st) (target_path st) True)"
  have staged: "named d (staged_path st) = Some (sf_file st)" using ready by (simp add: upload_ready_def holds_text_def)
  have parent: "butlast (target_path st) = sf_parent st" by (simp add: target_path_def)
  have done': "fst (call None d) = Inr ()"
  proof (cases f)
    case None
    then show ?thesis using ready staged dir f parent by (simp add: call_def link_file_def upload_ready_def file_is_def)
  next
    case (Some t)
    then have "\<not> is_dir d (target_path st)"
      using ready by (cases t) (simp add: upload_ready_def file_is_def holds_text_def is_dir_def)
    then show ?thesis using Some staged dir f parent by (auto simp: call_def rename_def)
  qed
  have "named (snd (call None d)) (sf_parent st) = named d (sf_parent st) \<and> dk_inodes (snd (call None d)) = dk_inodes d"
    using staged by (auto simp: call_def link_file_def rename_def named_def map_of_without target_path_def staged_path_def prefix_def)
  then have "is_dir (snd (call None d)) (sf_parent st)" using dir by (auto simp: is_dir_def split: option.splits)
  moreover have "ways_kept d (snd (call None d))"
  proof (rule ways_keptI [where T = "{staged_path st, target_path st}"])
    show "t \<in> {staged_path st, target_path st} \<Longrightarrow> \<not> turns d t i" for t i
      using ready held_no_turn file_no_turn unfolding upload_ready_def by blast
    show "named (snd (call None d)) p = named d p" if "\<And>t. t \<in> {staged_path st, target_path st} \<Longrightarrow> \<not> prefix t p" for p
      using that [of "staged_path st"] that [of "target_path st"]
      by (auto simp: call_def link_file_def rename_def named_def map_of_without split: option.split)
    show "dk_inodes (snd (call None d)) i = dk_inodes d i" for i
      by (simp add: call_def link_file_def rename_def split: option.split)
  qed
  moreover have "holds_text (target_path st) (sf_file st) bytes (snd (call None d))"
    using published_text(2) [OF ready, of call None] done' by (auto simp: call_def)
  moreover have "\<not> turns (snd (call None d)) (staged_path st) j" for j
  proof -
    have "\<not> prefix (target_path st) (staged_path st)" "staged_path st \<noteq> []"
      using ready by (auto simp: target_path_def staged_path_def upload_ready_def)
    then show ?thesis using ready staged
      by (auto simp: call_def link_file_def rename_def turns_def named_def map_of_without upload_ready_def holds_text_def split: if_splits)
  qed
  moreover have "staged_publish st (idle d) = (Inr (), idle (snd (call None d)))"
    using done' by (auto simp: staged_publish_def call_def checked_idle split: if_splits)
  ultimately show ?thesis by blast
qed

lemma commit_idle:
  assumes ready: "upload_ready st bytes f d" and X: "follow_plain X" and dir: "is_dir d (sf_parent st)"
    and small: "length bytes \<le> MAX_TEXT_FILE" "\<forall>i b. f = Some (i, b) \<longrightarrow> length b \<le> MAX_TEXT_FILE"
    and goes: "fx_utf8 X bytes" "sf_written st = sf_length st" "map_option (\<lambda>(_, b). fx_sha X b) f = sf_expected st"
  shows "\<exists>d'. staged_commit X st (idle d) = (Inr (fx_sha X bytes), idle d') \<and> holds_text (target_path st) (sf_file st) bytes d'
    \<and> ways_kept d d' \<and> (\<forall>j. \<not> turns d' (staged_path st) j)"
proof -
  define d1 where "d1 = snd (sync_file (sf_file st) None d)"
  have ready1: "upload_ready st bytes f d1" and dir1: "is_dir d1 (sf_parent st)"
    using ready_synced [OF ready] dir by (simp_all add: d1_def dir_synced)
  have held: "holds_text (sf_parent st @ [sf_temporary st]) (sf_file st) bytes d1"
    using ready1 by (simp add: upload_ready_def staged_path_def)
  then have "fx_follow X (sf_parent st) [sf_temporary st] d1 = Inr [sf_temporary st]"
    using X by (auto simp: follow_plain_def holds_text_def)
  then have read: "read_text X (sf_parent st) [sf_temporary st] (idle d1) = (Inr (bytes, fx_sha X bytes), idle d1)"
    using read_text_idle [OF held small(1)] by simp
  have revision: "text_revision X (sf_parent st) [sf_destination st] (idle d1) = (Inr (sf_expected st), idle d1)"
    using text_revision_idle [of "sf_parent st" "sf_destination st" f d1 X] ready1 X small(2) goes(3)
    by (simp add: upload_ready_def target_path_def)
  have "f = None \<longleftrightarrow> sf_expected st = None" unfolding goes(3) [symmetric] by simp
  then obtain d2 where d2: "staged_publish st (idle d1) = (Inr (), idle d2)" "holds_text (target_path st) (sf_file st) bytes d2"
      "is_dir d2 (sf_parent st)" "ways_kept d1 d2" "\<forall>j. \<not> turns d2 (staged_path st) j"
    using publish_idle [OF ready1 dir1] by blast
  have "ways_kept d d1"
    by (rule ways_kept_node [where i = "sf_file st"]) (use ready in \<open>auto simp: d1_def sync_file_def upload_ready_def holds_text_def\<close>)
  moreover have "ways_kept d2 (snd (sync_dir (sf_parent st) None d2))"
    by (rule ways_keptI [where T = "{}"]) (simp_all add: named_sync)
  ultimately have kept: "ways_kept d (snd (sync_dir (sf_parent st) None d2))"
    using d2(4) ways_kept_trans by blast
  have "sync_parent (sf_parent st) (idle d2) = (Inr (), idle (snd (sync_dir (sf_parent st) None d2)))"
    using d2(3) by (simp add: sync_parent_def bnd_def open_dir_def sync_dir_def)
  moreover have "holds_text (target_path st) (sf_file st) bytes (snd (sync_dir (sf_parent st) None d2))"
    using d2(2) by (simp add: holds_text_def named_sync)
  moreover have "checked_call c m (sync_file (sf_file st)) (idle d) = (Inr (), idle d1)" for c m
    by (simp add: checked_idle sync_file_def d1_def)
  moreover have "\<forall>j. \<not> turns (snd (sync_dir (sf_parent st) None d2)) (staged_path st) j"
    using d2(5) by (simp add: turns_def named_sync)
  ultimately show ?thesis using read revision d2(1) goes(1,2) kept
    by (simp add: staged_commit_def thn_def bnd_def)
qed

section \<open>The service as the editor sees it\<close>

text \<open>One workspace of one owner: the uploads the service keeps, its disk, the clock and the UUIDs of
  the requests, counted as they come.\<close>

record workspace_session =
  ws_sandbox :: sandbox
  ws_clock :: "nat \<Rightarrow> nat"
  ws_uuids :: "nat \<Rightarrow> string \<times> string"
  ws_owner :: string
  ws_root :: string
  ws_count :: nat
  ws_files :: files
  ws_disk :: world

definition served :: "workspace_session file_call" where
  "served operation s =
    (case files_dispatch (ws_sandbox s) (ws_clock s (ws_count s)) (fst (ws_uuids s (ws_count s))) (snd (ws_uuids s (ws_count s)))
        (ws_owner s) (ws_root s) operation (ws_files s) (ws_disk s) of
      ((r, fs), w) \<Rightarrow> (case r of Inl f \<Rightarrow> Inl (from_fault f) | Inr x \<Rightarrow> Inr x,
        s\<lparr> ws_count := ws_count s + 1, ws_files := fs, ws_disk := w \<rparr>))"

text \<open>On the disk the path leads to a name in a directory, and two requests are less than two minutes apart.\<close>

definition path_leads :: "workspace_session \<Rightarrow> disk \<Rightarrow> string \<Rightarrow> path \<Rightarrow> string \<Rightarrow> string \<Rightarrow> path \<Rightarrow> path \<Rightarrow> path \<Rightarrow> bool" where
  "path_leads s d path parent name p dirs base q \<longleftrightarrow>
    relative_path path False = Inr p \<and> path_parts p = dirs @ [name] \<and> parent = base @ q
    \<and> fx_ambient (ws_sandbox s) (ws_root s) d = Inr base \<and> fx_follow (ws_sandbox s) base dirs d = Inr q
    \<and> (dirs = [] \<longrightarrow> q = []) \<and> dir_way d parent
    \<and> leads_law (ws_sandbox s) \<and> starts_with (ws_root s) ''/'' \<and> (\<forall>n. ws_clock s (Suc n) < ws_clock s n + 120)"

definition leads_to :: "workspace_session \<Rightarrow> disk \<Rightarrow> string \<Rightarrow> path \<Rightarrow> string \<Rightarrow> bool" where
  "leads_to s d path parent name \<longleftrightarrow> (\<exists>p dirs base q. path_leads s d path parent name p dirs base q)"

lemma path_leadsD:
  assumes "path_leads s d path parent name p dirs base q"
  shows "relative_path path False = Inr p" "path_parts p = dirs @ [name]" "parent = base @ q" "dirs = [] \<longrightarrow> q = []"
    "fx_ambient (ws_sandbox s) (ws_root s) d = Inr base" "fx_follow (ws_sandbox s) base dirs d = Inr q"
    "fx_follow (ws_sandbox s) base q d = Inr q"
    "\<And>i. named d (parent @ [name]) = Some i \<Longrightarrow> nd_kind (dk_inodes d i) \<noteq> Node_Link \<Longrightarrow>
       fx_follow (ws_sandbox s) base (dirs @ [name]) d = Inr (q @ [name])"
    "follow_plain (ws_sandbox s)" "starts_with (ws_root s) ''/''" "\<And>n. ws_clock s (Suc n) < ws_clock s n + 120" "is_dir d parent"
proof -
  have way: "dir_way d (base @ q)" and law: "leads_law (ws_sandbox s)" and at: "fx_follow (ws_sandbox s) base dirs d = Inr q"
    using assms by (auto simp: path_leads_def)
  show "fx_follow (ws_sandbox s) base q d = Inr q" "follow_plain (ws_sandbox s)"
    using law way at unfolding leads_law_def by blast+
  show "\<And>i. named d (parent @ [name]) = Some i \<Longrightarrow> nd_kind (dk_inodes d i) \<noteq> Node_Link \<Longrightarrow>
       fx_follow (ws_sandbox s) base (dirs @ [name]) d = Inr (q @ [name])"
  proof -
    have parent: "parent = base @ q" using assms by (simp only: path_leads_def)
    show "\<And>i. named d (parent @ [name]) = Some i \<Longrightarrow> nd_kind (dk_inodes d i) \<noteq> Node_Link \<Longrightarrow>
       fx_follow (ws_sandbox s) base (dirs @ [name]) d = Inr (q @ [name])"
      using law way at unfolding leads_law_def parent append_assoc by blast
  qed
qed (use assms dir_way_dir in \<open>auto simp: path_leads_def\<close>)

lemma leads_kept: "leads_to s d path parent name \<Longrightarrow> ways_kept d d' \<Longrightarrow> leads_to s d' path parent name"
proof -
  assume "leads_to s d path parent name" and kept: "ways_kept d d'"
  then obtain p dirs base q where at: "path_leads s d path parent name p dirs base q" by (auto simp: leads_to_def)
  then have way: "dir_way d (base @ q)" "dir_way d base" and law: "leads_law (ws_sandbox s)"
    by (auto simp: path_leads_def intro: dir_way_above)
  have "fx_ambient (ws_sandbox s) (ws_root s) d' = Inr base" "fx_follow (ws_sandbox s) base dirs d' = Inr q"
    using law way kept at unfolding leads_law_def path_leads_def by blast+
  then have "path_leads s d' path parent name p dirs base q"
    using at kept_dir_way [OF kept] by (auto simp: path_leads_def)
  then show ?thesis unfolding leads_to_def by blast
qed

definition file_small :: "path \<Rightarrow> disk \<Rightarrow> bool" where
  "file_small p d \<longleftrightarrow> (case named d p of None \<Rightarrow> True
     | Some i \<Rightarrow> nd_kind (dk_inodes d i) = Node_File \<and> length (nd_bytes (dk_inodes d i)) \<le> MAX_TEXT_FILE)"

definition temporary_name :: "workspace_session \<Rightarrow> string" where
  "temporary_name s = ''.remote-codex-'' @ snd (ws_uuids s (ws_count s)) @ ''.tmp''"

definition editor_ready :: "workspace_session \<Rightarrow> string \<Rightarrow> string option \<Rightarrow> bool" where
  "editor_ready s path revision \<longleftrightarrow>
    (\<exists>parent name d. leads_to s d path parent name \<and> ws_files s = [] \<and> ws_disk s = idle d
      \<and> is_dir d parent \<and> file_small (parent @ [name]) d
      \<and> map_option (fx_sha (ws_sandbox s)) (text_of (parent @ [name]) d) = revision
      \<and> named d (parent @ [temporary_name s]) = None \<and> temporary_name s \<noteq> name
      \<and> list_all (\<lambda>(_, i). i < dk_next d) (dk_names d) \<and> 0 < dk_next d)"

definition editor_uploading :: "workspace_session \<Rightarrow> string \<Rightarrow> string \<Rightarrow> nat \<Rightarrow> string \<Rightarrow> bool" where
  "editor_uploading s token path len bytes \<longleftrightarrow>
    (\<exists>parent name d st f. leads_to s d path parent name \<and> ws_files s = [(token, st)] \<and> ws_disk s = idle d
      \<and> is_dir d parent \<and> sf_parent st = parent \<and> sf_destination st = name
      \<and> sf_owner st = ws_owner s \<and> sf_workspace st = ws_root s \<and> ws_clock s (ws_count s) < sf_expires st
      \<and> sf_length st = len \<and> sf_written st = length bytes
      \<and> upload_ready st bytes f d
      \<and> (\<forall>i b. f = Some (i, b) \<longrightarrow> length b \<le> MAX_TEXT_FILE \<and> i \<noteq> sf_file st)
      \<and> map_option (\<lambda>(_, b). fx_sha (ws_sandbox s) b) f = sf_expected st)"

definition editor_stored :: "workspace_session \<Rightarrow> string \<Rightarrow> string \<Rightarrow> bool" where
  "editor_stored s path bytes \<longleftrightarrow>
    (\<exists>parent name d i. leads_to s d path parent name \<and> ws_files s = [] \<and> ws_disk s = idle d
      \<and> holds_text (parent @ [name]) i bytes d)"

lemma leads_to_update [simp]:
  "leads_to (s\<lparr> ws_count := n, ws_files := fs, ws_disk := w \<rparr>) d path parent name = leads_to s d path parent name"
  by (simp add: leads_to_def path_leads_def)

text \<open>Two disks that differ at most in modes.\<close>

definition same_texts :: "disk \<Rightarrow> disk \<Rightarrow> bool" where
  "same_texts d d' \<longleftrightarrow> dk_names d' = dk_names d
     \<and> (\<forall>i. nd_kind (dk_inodes d' i) = nd_kind (dk_inodes d i) \<and> nd_bytes (dk_inodes d' i) = nd_bytes (dk_inodes d i))"

lemma same_texts_facts:
  assumes "same_texts d d'"
  shows "named d' p = named d p" "holds_text p i bytes d' = holds_text p i bytes d" "is_dir d' p = is_dir d p" "file_is p f d' = file_is p f d"
proof -
  show n: "named d' p = named d p" using assms by (simp add: same_texts_def named_def)
  then show h: "holds_text p i bytes d' = holds_text p i bytes d" for i bytes using assms by (simp add: same_texts_def holds_text_def)
  show "is_dir d' p = is_dir d p" using n assms by (simp add: is_dir_def same_texts_def split: option.split)
  show "file_is p f d' = file_is p f d" using n h by (simp add: file_is_def split: option.split)
qed

lemma entry_at:
  assumes "fx_follow X base dirs d = Inr q" "dirs = [] \<longrightarrow> q = []"
  shows "at_entry X base (dirs @ [name]) call lim d = call (base @ q @ [name]) lim d"
  using assms by (cases dirs) (auto simp: at_entry_def)

lemma dir_at:
  assumes "fx_follow X base dirs d = Inr q" "is_dir d (base @ q)"
  shows "checked_call c m (at_target X base dirs dir_handle) (idle d) = (Inr (base @ q), idle d)"
  using assms by (simp add: checked_idle at_target_def dir_handle_def)

lemma create_idle:
  assumes X: "follow_plain X" and dir: "is_dir d parent" and f: "file_is (parent @ [name]) f d"
    and sane: "\<forall>i b. f = Some (i, b) \<longrightarrow> length b \<le> MAX_TEXT_FILE \<and> i < dk_next d"
    and revision: "map_option (\<lambda>(_, b). fx_sha X b) f = expected"
    and fresh: "named d (parent @ [''.remote-codex-'' @ uuid @ ''.tmp'']) = None" "''.remote-codex-'' @ uuid @ ''.tmp'' \<noteq> name"
    and root: "0 < dk_next d" "list_all (\<lambda>(_, i). i < dk_next d) (dk_names d)"
  shows "\<exists>d' st. staged_create X time uuid owner workspace expected len name parent (idle d) = (Inr st, idle d')
    \<and> upload_ready st [] f d' \<and> is_dir d' parent \<and> ways_kept d d' \<and> sf_file st = dk_next d
    \<and> sf_parent st = parent \<and> sf_destination st = name \<and> sf_owner st = owner \<and> sf_workspace st = workspace
    \<and> sf_expires st = time + 120 \<and> sf_length st = len \<and> sf_written st = 0 \<and> sf_expected st = expected"
proof -
  define tmp where "tmp = parent @ [''.remote-codex-'' @ uuid @ ''.tmp'']"
  define d1 where "d1 = new_inode tmp empty_file d"
  have create: "checked_call c m (create_file tmp) (idle d) = (Inr (dk_next d), idle d1)" for c m
    using fresh(1) dir by (simp add: checked_idle create_file_def tmp_def d1_def)
  have text_rev: "text_revision X parent [name] (idle d) = (Inr expected, idle d)"
    using text_revision_idle [OF f X] sane revision by auto
  obtain m where m: "syscall (at_target X parent [name] lstat) (idle d1) = (Inr m, idle d1)"
    by (simp add: at_target_def lstat_def split: sum.split)
  define d2 where "d2 = (case m of Inl _ \<Rightarrow> d1 | Inr (_, meta) \<Rightarrow> snd (set_mode (dk_next d) (nd_mode meta) None d1))"
  have same: "same_texts d1 d2"
    by (auto simp: d2_def same_texts_def set_mode_def split: sum.split prod.split)
  have mode: "(case m of Inl _ \<Rightarrow> ret () | Inr (_, meta) \<Rightarrow> checked_call c m' (set_mode (dk_next d) (nd_mode meta))) (idle d1)
      = (Inr (), idle d2)" for c m'
    by (auto simp: d2_def checked_idle set_mode_def split: sum.split prod.split)
  have T: "\<not> prefix tmp (parent @ [name])" "\<not> prefix tmp parent" using fresh(2) by (auto simp: tmp_def prefix_def)
  have named1: "named d1 p = named d p" if "\<not> prefix tmp p" for p
    using that by (cases "p = []") (auto simp: d1_def named_def)
  have inodes1: "i < dk_next d \<Longrightarrow> dk_inodes d1 i = dk_inodes d i" for i by (simp add: d1_def)
  have "file_is (parent @ [name]) f d1"
    using f named1 [OF T(1)] inodes1 sane by (auto simp: file_is_def holds_text_def split: option.splits)
  moreover have "holds_text tmp (dk_next d) [] d1"
    by (simp add: holds_text_def d1_def tmp_def named_def empty_file_def)
  moreover have "is_dir d1 parent"
  proof -
    obtain i where i: "named d parent = Some i" "nd_kind (dk_inodes d i) = Node_Directory"
      using dir by (auto simp: is_dir_def split: option.splits)
    have "i < dk_next d" using i(1) root by (auto simp: named_def list_all_iff split: if_splits dest!: map_of_SomeD)
    then show ?thesis using i named1 [OF T(2)] inodes1 by (simp add: is_dir_def)
  qed
  moreover have "ways_kept d d2"
  proof (rule ways_keptI [where T = "{tmp}"])
    show "t \<in> {tmp} \<Longrightarrow> \<not> turns d t i" for t i using fresh(1) by (simp add: turns_def tmp_def)
    show "named d2 p = named d p" if "\<And>t. t \<in> {tmp} \<Longrightarrow> \<not> prefix t p" for p
      using that [of tmp] same_texts_facts(1) [OF same] by (simp add: named1)
    show "dk_inodes d2 i = dk_inodes d i" if "turns d p i" for p i
    proof -
      have "i < dk_next d" using that root by (auto simp: turns_def named_def list_all_iff split: if_splits dest!: map_of_SomeD)
      then show ?thesis using inodes1 by (auto simp: d2_def set_mode_def split: sum.split prod.split)
    qed
  qed
  ultimately have facts: "file_is (parent @ [name]) f d2" "holds_text tmp (dk_next d) [] d2" "is_dir d2 parent" "ways_kept d d2"
    using same_texts_facts [OF same] by simp_all
  have "staged_create X time uuid owner workspace expected len name parent (idle d) =
      (Inr \<lparr> sf_owner = owner, sf_workspace = workspace, sf_expires = time + 120, sf_parent = parent,
           sf_destination = name, sf_temporary = ''.remote-codex-'' @ uuid @ ''.tmp'', sf_file = dk_next d, sf_expected = expected,
           sf_length = len, sf_written = 0 \<rparr>, idle d2)"
    using text_rev create m mode by (simp add: staged_create_def bnd_def thn_def Let_def tmp_def)
  then show ?thesis using facts fresh(2)
    by (simp add: upload_ready_def staged_path_def target_path_def tmp_def)
qed

lemma append_idle:
  fixes part :: string
  assumes ready: "upload_ready st bytes f d" and dir: "is_dir d parent" and other: "\<forall>i b. f = Some (i, b) \<longrightarrow> i \<noteq> sf_file st"
  defines "d' \<equiv> snd (append_file (sf_file st) part None d)"
  shows "checked_call c m (append_file (sf_file st) part) (idle d) = (Inr (), idle d')"
    "upload_ready st (bytes @ part) f d'" "is_dir d' parent" "ways_kept d d'"
proof -
  have bytes: "nd_bytes (dk_inodes d (sf_file st)) = bytes" using ready by (simp add: upload_ready_def holds_text_def)
  have names: "dk_names d' = dk_names d" by (simp add: d'_def append_file_def write_file_def Let_def)
  then have named: "named d' p = named d p" for p by (simp add: named_def)
  have nodes: "i \<noteq> sf_file st \<Longrightarrow> dk_inodes d' i = dk_inodes d i" "nd_kind (dk_inodes d' i) = nd_kind (dk_inodes d i)" for i
    by (simp_all add: d'_def append_file_def write_file_def Let_def)
  have "nd_bytes (dk_inodes d' (sf_file st)) = bytes @ part"
    by (simp add: d'_def append_file_def write_file_def write_bytes_def Let_def bytes)
  moreover have "file_is (target_path st) f d'"
    using ready other nodes(1) by (auto simp: upload_ready_def file_is_def holds_text_def named_def names split: option.splits)
  ultimately show "upload_ready st (bytes @ part) f d'" using ready nodes(2)
    by (simp add: upload_ready_def holds_text_def named)
  show "is_dir d' parent" using dir nodes(2) by (auto simp: is_dir_def named split: option.splits)
  show "ways_kept d d'"
    by (rule ways_kept_node [where i = "sf_file st"]) (use ready names nodes(1) in \<open>auto simp: upload_ready_def holds_text_def\<close>)
  show "checked_call c m (append_file (sf_file st) part) (idle d) = (Inr (), idle d')"
    by (simp add: checked_idle d'_def append_file_def write_file_def Let_def)
qed

section \<open>The service keeps its promises\<close>

text \<open>A request on a working disk, when no upload expires.\<close>

lemma served_idle:
  assumes "starts_with (ws_root s) ''/''" "fx_ambient (ws_sandbox s) (ws_root s) d = Inr base"
    and "list_all (\<lambda>(_, st). \<not> expired (ws_clock s (ws_count s)) st) (ws_files s)" "ws_disk s = idle d"
    and op: "file_operation (ws_sandbox s) (ws_clock s (ws_count s)) (fst (ws_uuids s (ws_count s))) (snd (ws_uuids s (ws_count s)))
        base (ws_owner s) (ws_root s) operation (ws_files s) (idle d) = (Inr (Inr x, fs), idle d')"
  shows "served operation s = (Inr x, s\<lparr> ws_count := ws_count s + 1, ws_files := fs, ws_disk := idle d' \<rparr>)"
proof -
  have fresh: "filter (\<lambda>(_, st). expired (ws_clock s (ws_count s)) st) (ws_files s) = []"
      "filter (\<lambda>(_, st). \<not> expired (ws_clock s (ws_count s)) st) (ws_files s) = ws_files s"
    using assms(3) by (simp_all add: filter_empty_conv filter_id_conv list_all_iff case_prod_beta)
  show ?thesis using assms(1,2,4) op
    by (simp add: served_def files_dispatch_def drop_expired_def fresh bnd_def checked_idle)
qed

lemma served_begins:
  assumes "editor_ready s path revision" "len \<le> MAX_TEXT_FILE"
  shows "\<exists>token s'. served (BeginWrite path revision len) s = (Inr (Upload_Token token), s') \<and> editor_uploading s' token path len []"
proof -
  let ?X = "ws_sandbox s" and ?t = "ws_clock s (ws_count s)" and ?u = "ws_uuids s (ws_count s)"
  obtain parent name d where at: "leads_to s d path parent name" "ws_files s = []" "ws_disk s = idle d" "is_dir d parent"
      "file_small (parent @ [name]) d" "map_option (fx_sha ?X) (text_of (parent @ [name]) d) = revision"
      "named d (parent @ [temporary_name s]) = None" "temporary_name s \<noteq> name"
      "list_all (\<lambda>(_, i). i < dk_next d) (dk_names d)" "0 < dk_next d"
    using assms(1) unfolding editor_ready_def by blast
  obtain p dirs base q where "path_leads s d path parent name p dirs base q" using at(1) unfolding leads_to_def by blast
  note place = path_leadsD [OF this]
  define f where "f = map_option (\<lambda>i. (i, nd_bytes (dk_inodes d i))) (named d (parent @ [name]))"
  have f: "file_is (parent @ [name]) f d" "\<forall>i b. f = Some (i, b) \<longrightarrow> length b \<le> MAX_TEXT_FILE \<and> i < dk_next d"
      "map_option (\<lambda>(_, b). fx_sha ?X b) f = revision"
    using at(5,6,9)
    by (auto simp: f_def file_small_def file_is_def holds_text_def text_of_def named_def list_all_iff split: option.splits dest!: map_of_SomeD)
  obtain d' st where created: "staged_create ?X ?t (snd ?u) (ws_owner s) (ws_root s) revision len name parent (idle d) = (Inr st, idle d')"
      "upload_ready st [] f d'" "is_dir d' parent" "ways_kept d d'" "sf_file st = dk_next d" "sf_parent st = parent" "sf_destination st = name"
      "sf_owner st = ws_owner s" "sf_workspace st = ws_root s" "sf_expires st = ?t + 120" "sf_length st = len" "sf_written st = 0"
      "sf_expected st = revision"
    using create_idle [OF place(9) at(4) f] at(7-10) unfolding temporary_name_def by blast
  have entry: "syscall (at_entry ?X base (dirs @ [name]) lstat) (idle d) = (Inr (fst (lstat (parent @ [name]) None d)), idle d)"
    by (simp add: entry_at [OF place(6,4)] place(3) lstat_def)
  have dirs: "checked_call c m (at_target ?X base dirs dir_handle) (idle d) = (Inr parent, idle d)"
      "checked_call c m (at_target ?X base q dir_handle) (idle d) = (Inr parent, idle d)" for c m
    using dir_at [OF place(6)] dir_at [OF place(7)] at(4) by (simp_all add: place(3))
  have "staged_new ?X ?t (snd ?u) base (ws_owner s) (ws_root s) path revision len (idle d) = (Inr st, idle d')"
  proof (cases "named d (parent @ [name])")
    case None
    then show ?thesis using assms(2) created(1) entry dirs(1)
      by (simp add: staged_new_def place(1,2) bnd_def lstat_def)
  next
    case (Some i)
    then have "fx_follow ?X base (dirs @ [name]) d = Inr (q @ [name])"
      using place(8) at(5) by (simp add: file_small_def)
    then show ?thesis using Some assms(2) created(1) entry dirs(2)
      by (simp add: staged_new_def place(1,2) bnd_def lstat_def checked_idle)
  qed
  then have "file_operation ?X ?t (fst ?u) (snd ?u) base (ws_owner s) (ws_root s) (BeginWrite path revision len) (ws_files s) (idle d)
      = (Inr (Inr (Upload_Token (fst ?u)), [(fst ?u, st)]), idle d')"
    by (simp add: file_operation_def begin_upload_def bnd_def at(2))
  then have step: "served (BeginWrite path revision len) s
      = (Inr (Upload_Token (fst ?u)), s\<lparr> ws_count := ws_count s + 1, ws_files := [(fst ?u, st)], ws_disk := idle d' \<rparr>)"
    using place(5,10) at(2,3) by (intro served_idle) simp_all
  have "editor_uploading (s\<lparr> ws_count := ws_count s + 1, ws_files := [(fst ?u, st)], ws_disk := idle d' \<rparr>) (fst ?u) path len []"
    unfolding editor_uploading_def using created f leads_kept [OF at(1) created(4)] place(11)
    by (intro exI [of _ parent] exI [of _ name] exI [of _ d'] exI [of _ st] exI [of _ f]) auto
  then show ?thesis using step by blast
qed

lemma owned_here: "owned_stage (sf_owner st) (sf_workspace st) token [(token, st)] = Some st"
  by (simp add: owned_stage_def)

lemma uploading_parts:
  assumes "editor_uploading s token path len bytes"
  obtains parent name d st f where "leads_to s d path parent name" "ws_files s = [(token, st)]" "ws_disk s = idle d"
    "is_dir d parent" "sf_parent st = parent" "sf_destination st = name" "sf_owner st = ws_owner s" "sf_workspace st = ws_root s"
    "ws_clock s (ws_count s) < sf_expires st" "sf_length st = len" "sf_written st = length bytes" "upload_ready st bytes f d"
    "\<forall>i b. f = Some (i, b) \<longrightarrow> length b \<le> MAX_TEXT_FILE \<and> i \<noteq> sf_file st"
    "map_option (\<lambda>(_, b). fx_sha (ws_sandbox s) b) f = sf_expected st"
  using assms unfolding editor_uploading_def by (elim exE conjE) (rule that)

lemma served_continues:
  assumes "editor_uploading s token path len bytes" "length part \<le> FILE_CHUNK" "length bytes + length part \<le> len"
  shows "\<exists>s'. served (WriteChunk token (length bytes) part) s = (Inr Unit_Reply, s') \<and> editor_uploading s' token path len (bytes @ part)"
  using assms(1)
proof (rule uploading_parts)
  fix parent name d st and f :: "(nat \<times> string) option"
  assume up: "leads_to s d path parent name" "ws_files s = [(token, st)]" "ws_disk s = idle d"
    "is_dir d parent" "sf_parent st = parent" "sf_destination st = name" "sf_owner st = ws_owner s" "sf_workspace st = ws_root s"
    "ws_clock s (ws_count s) < sf_expires st" "sf_length st = len" "sf_written st = length bytes" "upload_ready st bytes f d"
    "\<forall>i b. f = Some (i, b) \<longrightarrow> length b \<le> MAX_TEXT_FILE \<and> i \<noteq> sf_file st"
    "map_option (\<lambda>(_, b). fx_sha (ws_sandbox s) b) f = sf_expected st"
  let ?X = "ws_sandbox s" and ?t = "ws_clock s (ws_count s)" and ?u = "ws_uuids s (ws_count s)"
  obtain p dirs base q where "path_leads s d path parent name p dirs base q" using up(1) unfolding leads_to_def by blast
  note place = path_leadsD [OF this]
  define st' where "st' = st\<lparr> sf_written := length bytes + length part, sf_expires := ?t + 120 \<rparr>"
  define d' where "d' = snd (append_file (sf_file st) part None d)"
  have other: "\<forall>i b. f = Some (i, b) \<longrightarrow> i \<noteq> sf_file st" using up(13) by blast
  note appended = append_idle [OF up(12,4) other, where part = part, folded d'_def]
  have "staged_write ?t (length bytes) part st (idle d) = (Inr st', idle d')"
    using assms(2,3) up(10,11) by (simp add: staged_write_def thn_def bnd_def appended(1) st'_def)
  then have "file_operation ?X ?t (fst ?u) (snd ?u) base (ws_owner s) (ws_root s) (WriteChunk token (length bytes) part) (ws_files s) (idle d)
      = (Inr (Inr Unit_Reply, [(token, st')]), idle d')"
    using owned_here [of st token] by (simp add: file_operation_def on_stage_def bnd_def up(2,7,8))
  then have step: "served (WriteChunk token (length bytes) part) s
      = (Inr Unit_Reply, s\<lparr> ws_count := ws_count s + 1, ws_files := [(token, st')], ws_disk := idle d' \<rparr>)"
    using place(5,10) up(2,3,9) by (intro served_idle) (simp_all add: expired_def)
  have "upload_ready st' (bytes @ part) f d'"
    using appended(2) by (simp add: upload_ready_def staged_path_def target_path_def st'_def)
  then have "editor_uploading (s\<lparr> ws_count := ws_count s + 1, ws_files := [(token, st')], ws_disk := idle d' \<rparr>) token path len (bytes @ part)"
    unfolding editor_uploading_def using up appended(3) leads_kept [OF up(1) appended(4)] place(11)
    by (intro exI [of _ parent] exI [of _ name] exI [of _ d'] exI [of _ st'] exI [of _ f]) (simp add: st'_def)
  then show ?thesis using step by blast
qed

lemma served_commits:
  assumes "editor_uploading s token path len bytes" "length bytes = len" "len \<le> MAX_TEXT_FILE" "fx_utf8 (ws_sandbox s) bytes"
  shows "\<exists>s'. served (CommitWrite token) s = (Inr (Upload_Revision (fx_sha (ws_sandbox s) bytes)), s') \<and> editor_stored s' path bytes"
  using assms(1)
proof (rule uploading_parts)
  fix parent name d st and f :: "(nat \<times> string) option"
  assume up: "leads_to s d path parent name" "ws_files s = [(token, st)]" "ws_disk s = idle d"
    "is_dir d parent" "sf_parent st = parent" "sf_destination st = name" "sf_owner st = ws_owner s" "sf_workspace st = ws_root s"
    "ws_clock s (ws_count s) < sf_expires st" "sf_length st = len" "sf_written st = length bytes" "upload_ready st bytes f d"
    "\<forall>i b. f = Some (i, b) \<longrightarrow> length b \<le> MAX_TEXT_FILE \<and> i \<noteq> sf_file st"
    "map_option (\<lambda>(_, b). fx_sha (ws_sandbox s) b) f = sf_expected st"
  let ?X = "ws_sandbox s" and ?t = "ws_clock s (ws_count s)" and ?u = "ws_uuids s (ws_count s)"
  obtain p dirs base q where "path_leads s d path parent name p dirs base q" using up(1) unfolding leads_to_def by blast
  note place = path_leadsD [OF this]
  have small: "\<forall>i b. f = Some (i, b) \<longrightarrow> length b \<le> MAX_TEXT_FILE" using up(13) by blast
  obtain d1 where d1: "staged_commit ?X st (idle d) = (Inr (fx_sha ?X bytes), idle d1)" "holds_text (target_path st) (sf_file st) bytes d1" "ways_kept d d1" "\<forall>j. \<not> turns d1 (staged_path st) j"
    using commit_idle [OF up(12) place(9) _ _ small assms(4) _ up(14)] up(4,5,10,11) assms(2,3) by auto
  define d' where "d' = snd (remove_file (staged_path st) None d1)"
  have "ways_kept d1 d'"
  proof (rule ways_keptI [where T = "{staged_path st}"])
    show "named d' p = named d1 p" if "\<And>t. t \<in> {staged_path st} \<Longrightarrow> \<not> prefix t p" for p
      using that [of "staged_path st"] by (auto simp: d'_def remove_file_def named_def split: option.split)
  qed (use d1(4) in \<open>auto simp: d'_def remove_file_def split: option.split\<close>)
  note leads = leads_kept [OF up(1) ways_kept_trans [OF d1(3) this]]
  have drop: "staged_drop st (idle d1) = (Inr (), idle d')" by (simp add: staged_drop_def ignoring_def d'_def)
  have "\<not> prefix (staged_path st) (target_path st)" using up(12) by (simp add: staged_path_def target_path_def upload_ready_def)
  then have stored: "holds_text (target_path st) (sf_file st) bytes d'"
    using d1(2) by (auto simp: d'_def remove_file_def holds_text_def named_def split: option.split if_splits)
  have "file_operation ?X ?t (fst ?u) (snd ?u) base (ws_owner s) (ws_root s) (CommitWrite token) (ws_files s) (idle d)
      = (Inr (Inr (Upload_Revision (fx_sha ?X bytes)), []), idle d')"
    using owned_here [of st token] d1(1) drop by (simp add: file_operation_def on_stage_def bnd_def thn_def up(2,7,8) catching_def)
  then have step: "served (CommitWrite token) s
      = (Inr (Upload_Revision (fx_sha ?X bytes)), s\<lparr> ws_count := ws_count s + 1, ws_files := [], ws_disk := idle d' \<rparr>)"
    using place(5,10) up(2,3,9) by (intro served_idle) (simp_all add: expired_def)
  have "editor_stored (s\<lparr> ws_count := ws_count s + 1, ws_files := [], ws_disk := idle d' \<rparr>) path bytes"
    unfolding editor_stored_def using leads up(5,6) stored
    by (intro exI [of _ parent] exI [of _ name] exI [of _ d'] exI [of _ "sf_file st"]) (simp add: target_path_def)
  then show ?thesis using step by blast
qed

lemma served_reads:
  assumes "editor_stored s path bytes" "length bytes \<le> MAX_TEXT_FILE" "offset \<le> length bytes"
    and "revision \<in> {None, Some (fx_sha (ws_sandbox s) bytes)}"
  shows "\<exists>s'. served (Read_File path offset revision) s
      = (Inr (FileChunk (take FILE_CHUNK (drop offset bytes)) (fx_sha (ws_sandbox s) bytes) (length bytes)), s') \<and> editor_stored s' path bytes"
proof -
  let ?X = "ws_sandbox s" and ?t = "ws_clock s (ws_count s)" and ?u = "ws_uuids s (ws_count s)"
  obtain parent name d i where at: "leads_to s d path parent name" "ws_files s = []" "ws_disk s = idle d" "holds_text (parent @ [name]) i bytes d"
    using assms(1) unfolding editor_stored_def by blast
  obtain p dirs base q where "path_leads s d path parent name p dirs base q" using at(1) unfolding leads_to_def by blast
  note place = path_leadsD [OF this]
  have "fx_follow ?X base (dirs @ [name]) d = Inr (q @ [name])" using place(8) at(4) by (simp add: holds_text_def)
  then have "read_text ?X base (dirs @ [name]) (idle d) = (Inr (bytes, fx_sha ?X bytes), idle d)"
    using read_text_idle [OF at(4) assms(2)] by (simp add: place(3))
  then have "file_operation ?X ?t (fst ?u) (snd ?u) base (ws_owner s) (ws_root s) (Read_File path offset revision) (ws_files s) (idle d)
      = (Inr (Inr (FileChunk (take FILE_CHUNK (drop offset bytes)) (fx_sha ?X bytes) (length bytes)), []), idle d)"
    using assms(3,4) by (auto simp: file_operation_def replying_def read_chunk_def bnd_def place(1,2) at(2))
  then have step: "served (Read_File path offset revision) s = (Inr (FileChunk (take FILE_CHUNK (drop offset bytes)) (fx_sha ?X bytes) (length bytes)),
      s\<lparr> ws_count := ws_count s + 1, ws_files := [], ws_disk := idle d \<rparr>)"
    using place(5,10) at(2,3) by (intro served_idle) simp_all
  have "editor_stored (s\<lparr> ws_count := ws_count s + 1, ws_files := [], ws_disk := idle d \<rparr>) path bytes"
    unfolding editor_stored_def using at(1,4) by (intro exI [of _ parent] exI [of _ name] exI [of _ d] exI [of _ i]) simp
  then show ?thesis using step by blast
qed

text \<open>The programs the service runs stay what they are.\<close>

lemma served_sandbox: "ws_sandbox (snd (served operation s)) = ws_sandbox s"
  by (simp add: served_def split: prod.split)

interpretation editor: file_service served "\<lambda>s. fx_sha (ws_sandbox s)" "\<lambda>s. fx_utf8 (ws_sandbox s)"
  editor_ready editor_uploading editor_stored
  by unfold_locales (simp_all only: served_sandbox served_begins served_continues served_commits served_reads)

section \<open>What is saved is read back\<close>

text \<open>C35: when the editor saves a text over the revision it has read, at a path whose directories are on the
  service's disk, through a service that no other program disturbs, the save answers the SHA-256 of the text, and
  reading the path then gives the text with that revision.  The sandbox is asked only that a path which leads
  to a directory goes on leading there while the directories and links stay what they are, and that a name there which is
  no link is found below it.\<close>

theorem saved_file_read_back:
  assumes "editor_ready s path revision" "length text' \<le> MAX_TEXT_FILE"
    and "fx_utf8 (ws_sandbox s) text'" "CHR 0x00 \<notin> set text'"
  shows "\<exists>s1 s2. file_write served path text' revision s = (Inr (fx_sha (ws_sandbox s) text'), s1)
    \<and> file_read (fx_utf8 (ws_sandbox s)) served path s1
      = Some (Inr \<lparr> tx_path = path, tx_text = text', tx_revision = fx_sha (ws_sandbox s) text' \<rparr>, s2)"
  using assms by (rule editor.save_then_read)

text \<open>A sandbox that follows no links: every name on the way is a directory of the disk.\<close>

fun walk :: "path \<Rightarrow> path \<Rightarrow> path \<Rightarrow> disk \<Rightarrow> errno + path" where
  "walk base q [] d = (if is_dir d (base @ q) then Inr q else Inl Not_Found)"
| "walk base q [name] d = (case named d (base @ q @ [name]) of None \<Rightarrow> Inl Not_Found
     | Some i \<Rightarrow> if nd_kind (dk_inodes d i) = Node_Link then Inl (Errno ''Too many levels of symbolic links (os error 40)'') else Inr (q @ [name]))"
| "walk base q (name # rest) d = (if is_dir d (base @ q @ [name]) then walk base (q @ [name]) rest d
     else Inl (missing_or ''Not a directory (os error 20)'' d (base @ q @ [name])))"

definition walking_sandbox :: sandbox where
  "walking_sandbox = sample_sandbox\<lparr> fx_follow := \<lambda>base parts d. walk base [] parts d,
     fx_ambient := \<lambda>root d. if is_dir d (path_parts root) then Inr (path_parts root) else Inl Not_Found \<rparr>"

lemma walk_to: "walk base q parts d = Inr q' \<Longrightarrow> q' = q @ parts"
  by (induction base q parts d rule: walk.induct) (auto split: if_splits option.splits)

lemma walk_dir: "dir_way d (base @ q @ parts) \<Longrightarrow> walk base q parts d = Inr (q @ parts)"
proof (induction base q parts d rule: walk.induct)
  case (2 base q name d)
  have "is_dir d (base @ q @ [name])" by (rule dir_way_dir [OF 2])
  then show ?case by (auto simp: is_dir_def split: option.splits)
next
  case (3 base q name n rest d)
  have "is_dir d (base @ q @ [name])" using 3(2) dir_way_dir [OF dir_way_above [of d "base @ q @ [name]" "n # rest"]] by simp
  then show ?case using 3 by simp
qed (simp add: dir_way_dir)

lemma walk_last:
  assumes "named d (base @ q @ parts @ [name]) = Some i" "nd_kind (dk_inodes d i) \<noteq> Node_Link" "dir_way d (base @ q @ parts)"
  shows "walk base q (parts @ [name]) d = Inr (q @ parts @ [name])"
  using assms
proof (induction parts arbitrary: q)
  case (Cons part parts)
  have "is_dir d (base @ q @ [part])" using Cons.prems(3) dir_way_dir [OF dir_way_above [of d "base @ q @ [part]" parts]] by simp
  moreover have "walk base (q @ [part]) (parts @ [name]) d = Inr ((q @ [part]) @ parts @ [name])"
    using Cons.prems by (intro Cons.IH) simp_all
  ultimately show ?case by (cases parts) simp_all
qed simp

lemma walking_law: "leads_law walking_sandbox"
  unfolding leads_law_def
proof (intro conjI allI impI)
  let ?X = walking_sandbox
  have follow: "fx_follow ?X base parts d = walk base [] parts d" for base parts d by (simp add: walking_sandbox_def)
  show "follow_plain ?X" by (auto simp: follow_plain_def follow)
  show "fx_ambient ?X root d' = Inr base"
    if "fx_ambient ?X root d = Inr base" "dir_way d base" "ways_kept d d'" for root base d d'
    using that dir_way_dir [OF kept_dir_way [OF that(3,2)]] by (auto simp: walking_sandbox_def split: if_splits)
  show "fx_follow ?X base parts d' = Inr q"
    if at: "fx_follow ?X base parts d = Inr q" and way: "dir_way d (base @ q)" and kept: "ways_kept d d'" for base parts q d d'
  proof -
    have "q = parts" using walk_to at by (force simp: follow)
    then show ?thesis using walk_dir [of d' base "[]" q] kept_dir_way [OF kept way] by (simp add: follow)
  qed
  show "fx_follow ?X base q d = Inr q"
    if "fx_follow ?X base parts d = Inr q" "dir_way d (base @ q)" for base parts q d
    using that walk_dir [of d base "[]" q] by (simp add: follow)
  show "fx_follow ?X base (parts @ [name]) d = Inr (q @ [name])"
    if at: "fx_follow ?X base parts d = Inr q" and way: "dir_way d (base @ q)"
      and name: "named d (base @ q @ [name]) = Some i" "nd_kind (dk_inodes d i) \<noteq> Node_Link" for base parts q name i d
  proof -
    have "q = parts" using walk_to at by (force simp: follow)
    then show ?thesis using walk_last [of d base "[]" q name i] way name by (simp add: follow)
  qed
qed

text \<open>A workspace with a directory that has a file.\<close>

definition sample_tree :: disk where
  "sample_tree = \<lparr> dk_names = [([''w''], 1), ([''w'', ''b''], 2), ([''w'', ''b'', ''a''], 3)], dk_past = [],
     dk_inodes = (\<lambda>i. if i = 3 then sample_file ''old'' else empty_dir), dk_next = 4, dk_device = 1 \<rparr>"

definition sample_session :: workspace_session where
  "sample_session = \<lparr> ws_sandbox = walking_sandbox, ws_clock = (\<lambda>n. n), ws_uuids = (\<lambda>_. (''k'', ''u'')), ws_owner = ''o'',
     ws_root = ''/w'', ws_count = 0, ws_files = [], ws_disk = idle sample_tree \<rparr>"

lemma sample_leads: "leads_to sample_session sample_tree ''b/a'' [''w'', ''b''] ''a''"
proof -
  have paths: "relative_path ''b/a'' False = Inr ''b/a''" "path_parts ''b/a'' = [''b'', ''a'']" "starts_with ''/w'' ''/''"
      "path_parts ''/w'' = [''w'']"
    by code_simp+
  have dirs: "is_dir sample_tree []" "is_dir sample_tree [''w'']" "is_dir sample_tree [''w'', ''b'']"
    by (simp_all add: is_dir_def named_def sample_tree_def empty_dir_def)
  then have way: "dir_way sample_tree [''w'', ''b'']" by (simp add: dir_way_def)
  have "path_leads sample_session sample_tree ''b/a'' [''w'', ''b''] ''a'' ''b/a'' [''b''] [''w''] [''b'']"
    using walking_law way dirs(2) walk_dir [of sample_tree "[''w'']" "[]" "[''b'']"]
    by (simp add: path_leads_def sample_session_def paths) (simp add: walking_sandbox_def paths)
  then show ?thesis unfolding leads_to_def by blast
qed

lemma saved_file_read_back_witness:
  "\<exists>s1 s2. file_write served ''b/a'' ''new'' (Some ''old'') sample_session = (Inr ''new'', s1)
    \<and> file_read (\<lambda>_. True) served ''b/a'' s1 = Some (Inr \<lparr> tx_path = ''b/a'', tx_text = ''new'', tx_revision = ''new'' \<rparr>, s2)"
proof -
  have codes: "fx_sha walking_sandbox = (\<lambda>s. s)" "fx_utf8 walking_sandbox = (\<lambda>_. True)"
    by (simp_all add: walking_sandbox_def sample_sandbox_def)
  have "editor_ready sample_session ''b/a'' (Some ''old'')"
    unfolding editor_ready_def
    by (intro exI [of _ "[''w'', ''b'']"] exI [of _ "''a''"] exI [of _ sample_tree])
      (simp add: sample_leads, simp add: sample_session_def codes, simp add: sample_tree_def is_dir_def named_def file_small_def
        sample_file_def empty_dir_def empty_file_def text_of_def temporary_name_def MAX_TEXT_FILE_def)
  from saved_file_read_back [OF this, of "''new''"] show ?thesis
    by (simp add: MAX_TEXT_FILE_def sample_session_def codes)
qed

end
