(* ===== verification/Spec2Isabelle.thy ===== *)
theory Spec2Isabelle
  imports Config_Environment Server_Claims Adapter_Request Adapter_Tools Adapter_Interactions
    Adapter_Events Client_Permissions Client_Approvals
    Protocol_Wire Client_Intent Client_Secrets Transfer_Commit Transfer_Listing
    Client_Transfer_Copy Client_Relay Client_Editor
begin

text \<open>
  remote-codex runs the Codex agent on the user's computer and lets it work on a server that is
  reached over SSH.  The parts, under \<open>src/crates\<close>:

    \<^item> \<open>core\<close>: data all layers exchange, and the settings of one server;
    \<^item> \<open>protocol\<close>: the messages of the service on the server, their frames, and the packets of
      file transfers;
    \<^item> \<open>server\<close>: the execution service.  A channel dispatches operations to an executor process at
      most once, keeps a log of its events for a client that comes back, and stores all in SQLite;
    \<^item> \<open>transfer\<close>: the endpoint that reads and stages files, run on both computers;
    \<^item> \<open>codex-adapter\<close>: what the native Codex program speaks, and what is let through to it;
    \<^item> \<open>client\<close>: sessions on the user's computer: permissions, approvals, secrets, the local store,
      file transfers, and the relay between the local Codex and the channel on the server;
    \<^item> \<open>cli\<close> and \<open>apps/desktop\<close>: the two user interfaces.

  A request goes from an interface to \<open>client/src/local\<close>, which checks it (\<open>codex-adapter\<close>) and
  hands it to the native program; what that program wants executed comes back through
  \<open>client/src/remote/bridge\<close>, is given permissions or an approval, and is sent in frames
  (\<open>protocol/src/codec.rs\<close>) to \<open>server/src/execution\<close>, which checks it again.

  Shared theories.

    \<^item> \<open>Prelude\<close>: results as sums (\<open>Inl\<close> the error), byte strings with the operations of Rust's
      \<open>str\<close>, numbers as text, bounded reading; \<open>Ordered_Map\<close>: \<open>BTreeMap\<close> as a sorted association
      list, with a locale of its laws; \<open>Json\<close>: \<open>serde_json::Value\<close>; \<open>Effects\<close>: actions on a state
      whose list of troubles makes storage and pipe calls fail or the process stop at any call;
      \<open>Core_Types\<close>: the records and enumerations of \<open>core\<close>.

  Settings of a server (\<open>core/src/config\<close>).  \<open>Config_Key\<close>, \<open>Config_Value\<close>, \<open>Config_Layer\<close>,
  \<open>Config_Resolve\<close> and \<open>Config_Environment\<close> follow \<open>key.rs\<close>, \<open>value.rs\<close> with \<open>registry.rs\<close>,
  \<open>layer.rs\<close>, \<open>resolve.rs\<close> and \<open>environment.rs\<close>.  The lemmas show that names are parsed into a
  safe form and back, that numbers are read exactly within their bounds, that a layer reached by
  any operations is sorted and typed and keeps no secret in plain text, that resolving overlays the defaults,
  and what environment a process gets.  What a secret is is stated in \<open>Config_Value\<close> (\<open>secret_setting\<close>: a variable
  named for one, or a proxy URL with user information as RFC 3986 has it), apart from the code's own test.

  SSH targets (\<open>core/src/connection.rs\<close>).  \<open>Core_Connection\<close> has the address parser and printer of
  \<open>std::net\<close> and the endpoint made of them; printed addresses are read back, so an accepted target
  is accepted again as the same endpoint.

  Execution service (\<open>server/src\<close>, \<open>protocol/src/lib.rs\<close>).  \<open>Server_State\<close> has the tables of
  \<open>storage/schema.sql\<close> as records, \<open>Server_Store\<close> and \<open>Server_Jobs\<close> one definition per function of
  \<open>storage.rs\<close> and \<open>storage/\<close>, \<open>Server_Policy\<close> the guards of \<open>execution/policy.rs\<close>,
  \<open>Server_Execution\<close> the handlers of \<open>execution/operations.rs\<close> and \<open>actor.rs\<close>.  \<open>Server_System\<close> is
  the service as an inductive step relation: channels, clients and restarts in any interleaving,
  every storage call failing when the oracle says so.  \<open>Server_Log\<close> proves the invariant of the
  replay log, \<open>Server_Sound\<close> that tables only grow, \<open>Server_Once\<close> what is written to an executor;
  \<open>Server_Claims\<close> and \<open>Server_System\<close> end with the properties: an operation reaches the executor at
  most once, and only if the policy allows it.

  Frames and packets (\<open>protocol/src/codec.rs\<close>, \<open>transfer.rs\<close>, \<open>transfer/wire.rs\<close>).  \<open>Protocol_Codec\<close>
  has the reader as a loop over any buffering of the input, and the writer to a peer that may
  stall; \<open>Protocol_Wire\<close> the commands and replies of transfers and their packets.

  Transfer endpoint (\<open>transfer/src\<close>).  \<open>Transfer_Disk\<close> is the file system: names, inodes with what
  is synced, and what a power loss leaves.  \<open>Transfer_Endpoint\<close> has each request as the sequence of
  its calls; a list of fates lets other programs change files before a call and makes it fail or
  the process die.  \<open>Transfer_Logic\<close> has triples for such sequences, \<open>Transfer_Recovery\<close>,
  \<open>Transfer_Blocks\<close> and \<open>Transfer_Safety\<close> the invariant of the staging directory, \<open>Transfer_Run\<close> and
  \<open>Transfer_Commit\<close> the properties: acknowledged blocks survive, in the staged file and once it is published at
  the destination when others leave that alone, and a commit replaces the destination by verified bytes or leaves it alone.  \<open>Transfer_Listing\<close> shows that the pages of a
  directory together are the directory.

  Workspace files (\<open>server/src/files\<close>, \<open>protocol/src/files.rs\<close>, \<open>client/src/application/files.rs\<close>).
  \<open>Server_Files\<close> has \<open>io.rs\<close>, \<open>staging.rs\<close> and the operations of \<open>Files::dispatch\<close> over the disk of
  \<open>Transfer_Disk\<close>; \<open>Server_Upload\<close> shows that an upload, from its temporary file to its commit, saves all of its chunks or leaves
  the file as it was wherever it stops.  \<open>Client_Files\<close> has the loops of the editor that read and save in chunks, and what they need
  of a service as the locale \<open>file_service\<close>; \<open>Client_Editor\<close> interprets it by the operations of
  \<open>Server_Files\<close>, so that what is saved is read back.

  Native program (\<open>codex-adapter/src\<close>).  \<open>Adapter_Policy\<close>: \<open>thread/execution_policy.rs\<close> and
  \<open>thread/settings.rs\<close>; \<open>Adapter_Request\<close>: \<open>thread/request.rs\<close>, \<open>thread/attachments.rs\<close>, the binding;
  \<open>Adapter_Tools\<close>, \<open>Adapter_Interactions\<close>, \<open>Adapter_Events\<close>: \<open>tools.rs\<close>, \<open>interactions.rs\<close>, \<open>events.rs\<close>
  with \<open>status.rs\<close> and \<open>goals.rs\<close>.  The lemmas show that a request stays in its workspace, its
  session and its permissions, that a form is answered by what the user gave exactly when it is filled as its
  schema asks, and that a turn looks the same live and in the history.

  Client (\<open>client/src\<close>).  \<open>Client_Permissions\<close>, \<open>Client_Approvals\<close> and \<open>Client_Intent\<close> follow
  \<open>local/permissions.rs\<close>, \<open>approvals.rs\<close> and \<open>intent.rs\<close>: after a reduction Full Access comes back only when
  that very expansion was answered and reported or the session restored it, an approval serves one command, an
  interrupted turn is continued only when it was the last thing the user asked for.  The lock \<open>goal_gate\<close> is part
  of the state (\<open>goal_gated\<close>): readings of the goal and reverts take turns under it.  \<open>Client_Error\<close>: \<open>error.rs\<close>.  \<open>Client_Store\<close>: the tables of
  settings and handles (\<open>store/\<close>); \<open>Client_Vault\<close> and \<open>Client_Secrets\<close>: writers and the cleanup of
  secrets as interleaved steps, with the invariant that no secret in use is removed.
  \<open>Client_Transfer\<close>: \<open>transfers/\<close>, with both endpoints as a parameter that may answer anything;
  \<open>Client_Transfer_Safety\<close>, \<open>Client_Transfer_Ends\<close> and \<open>Client_Transfer_Copy\<close>: nothing is changed
  that the store does not announce, the run ends, a copy sends the whole file.
  \<open>Client_Recovery\<close>: \<open>remote/recovery.rs\<close> and the loop that gets a channel back;
  \<open>Client_Relay\<close>: \<open>remote/bridge/relay.rs\<close>.

  Parameters.  Code outside the repository is an argument: the URL parser, SHA-256, UUIDs, the
  serialisation of the journal (with the law that what was written is read back, which holds for
  paths without many control characters), clocks, the file system's canonical paths and the text of a UUID (with the
  law \<open>host_ok\<close>: such a path is absolute, and a UUID is hyphenated hexadecimal), where the
  directory sandbox \<open>cap_std\<close> leads a path (with the laws \<open>follow_plain\<close>: a name that is no link
  leads to itself; and \<open>leads_law\<close>: a path that leads to a directory goes on leading there while the directories and
  links stay, as the sandbox \<open>walking_sandbox\<close>, which looks every name up on the disk, does), and the answers of the
  native program.

  Bounds.  Loops that the code leaves to the other side have a bound in the model, and running out
  of it is a value of its own (\<open>Going\<close>, \<open>None\<close>): \<open>copy_blocks\<close> has as many rounds as the file has
  bytes, which is enough because each confirmed block has at least one; the scan has 100,001 rounds,
  one more than the entries the code allows; \<open>transfer_run_ends\<close> proves that neither is used up.
  \<open>reconnect_channel\<close> takes the list of what each round meets; \<open>lost_channel_settles\<close> proves that one
  round more than the attempts left is enough.
  \<open>read_chunks\<close> has \<open>MAX_TEXT_FILE + 2\<close> rounds, enough for any answers by \<open>file_read_ends\<close>.
  Integers that may wrap are kept at their width
  (\<open>64 word\<close> for the revisions of goals, \<open>mod u64\<close> for the bytes of a transfer).

  Known limits of the code.  \<open>proxy_credentials_missed\<close> (\<open>Config_Layer\<close>), \<open>endless_scan\<close> and
  \<open>prepared_directory_taken_over\<close> (\<open>Client_Transfer_Ends\<close>) are inputs on which the code does not do
  what it means to; the properties exclude them.  A chunk of an upload whose write stops short is not counted, so a client
  that sent it again could have a part published twice; the client here gives up instead, and the property of the save
  is about uploads that end at a chunk that fails.

  Not modelled.  The child processes, sockets and prompts of SSH (\<open>client/src/ssh\<close>); timers and
  tasks, whose effect is the order of steps; downloads, archives and signatures
  (\<open>client/src/updates\<close>, \<open>client/src/runtime\<close>); the start of the native program and of executors; the
  vaults of the operating systems; SQLite below its statements; the rest of the facade
  \<open>client/src/application\<close>, which routes to the parts above; writers other than the service to a
  staged upload, whose handle therefore stands at its end; the command line, the desktop shell and the frontend in
  TypeScript; and the test support.
\<close>

end
